(* ===== verification/Prelude.thy ===== *)
theory Prelude
  imports Main "HOL-Library.Word" "HOL-Library.Monad_Syntax"
begin

text \<open>
  Shared vocabulary of the development: machine integers of the 32-bit ARM target, pointers,
  the \<^verbatim>\<open>std::vector\<close> and \<^verbatim>\<open>std::set\<close> operations the sources call, and the generic lemmas on
  words, lists and options that the component theories use.

  Conventions of the models.
  \<^item> \<^verbatim>\<open>uint32\<close>, \<^verbatim>\<open>unsigned int\<close> and \<^verbatim>\<open>size_t\<close> are the type \<open>u32\<close> (the target is 32-bit ARM); its
    arithmetic wraps around as in C++.
  \<^item> \<^verbatim>\<open>int32\<close> and \<^verbatim>\<open>int\<close> are \<^typ>\<open>int\<close>; where the code may leave the 32-bit range the model
    writes the two's complement wrap-around out with \<open>int32\<close>.
  \<^item> Operations that may abort return an \<^typ>\<open>'a option\<close>: \<^const>\<open>None\<close> is a failed \<^verbatim>\<open>GPU_DCHECK\<close>
    of the client library (the debug build aborts), an access out of the range of a vector, or a
    wait that does not return.
\<close>

unbundle bit_operations_syntax

subsection \<open>Collections of facts\<close>

named_theorems inv_intros \<open>an operation keeps the invariant of its component\<close>
named_theorems model_defs \<open>small definitions that component proofs unfold\<close>

subsection \<open>Machine integers and pointers\<close>

type_synonym u8 = "8 word"
type_synonym u32 = "32 word"
type_synonym ptr = u32

abbreviation (input) NULL :: ptr where
  "NULL \<equiv> 0"

definition int32 :: "int \<Rightarrow> int" where
  "int32 i = sint (word_of_int i :: u32)"

definition uint32 :: "int \<Rightarrow> u32" where
  "uint32 i = word_of_int i"

lemma int32_id: "- (2 ^ 31) \<le> i \<Longrightarrow> i < 2 ^ 31 \<Longrightarrow> int32 i = i"
  unfolding int32_def by (simp add: sint_sbintrunc' signed_take_bit_int_eq_self)

lemma int32_ge: "- 2147483648 \<le> int32 i"
  using sint_ge [of "word_of_int i :: u32"] by (simp add: int32_def)

lemma int32_lt: "int32 i < 2147483648"
  using sint_lt [of "word_of_int i :: u32"] by (simp add: int32_def)

lemma u32_lt: "unat (x :: u32) < 4294967296"
  using unsigned_less [of x, where 'a = nat] by simp

lemma u32_add: "unat (x :: u32) + unat y < 4294967296 \<Longrightarrow> unat (x + y) = unat x + unat y"
  by (simp add: unat_word_ariths)

lemma u32_sub: "y \<le> (x :: u32) \<Longrightarrow> unat (x - y) = unat x - unat y"
  by (rule unat_sub)

lemma u32_pos: "0 < (x :: u32) \<longleftrightarrow> 0 < unat x"
  by (simp add: word_less_nat_alt)

lemma u32_eq: "(x :: u32) = y \<longleftrightarrow> unat x = unat y"
  by (simp add: word_eq_iff_unsigned [where 'a = nat])

lemma u32_zero: "unat (x :: u32) = 0 \<longleftrightarrow> x = 0"
  using u32_eq [of x 0] by simp

lemma u32_ge_1: "1 \<le> (x :: u32) \<longleftrightarrow> x \<noteq> 0"
  using u32_zero [of x] by (auto simp: word_le_nat_alt)

lemma u32_max_1: "0 < (x :: u32) \<Longrightarrow> max 1 x = x"
  by (rule max_absorb2) (simp add: u32_ge_1)

lemma u32_Suc: "(x :: u32) + 1 \<noteq> 0 \<Longrightarrow> unat (x + 1) = unat x + 1"
  by (metis unatSuc Suc_eq_plus1 add.commute)

lemma u32_sint: assumes "unat (x :: u32) < 2147483648" shows "sint x = int (unat x)"
proof -
  have "int (unat x) < int 2147483648" using assms by (simp only: of_nat_less_iff)
  also have "int 2147483648 = 2 ^ 31" by simp
  finally have "int (unat x) < 2 ^ 31" .
  moreover have "- (2 ^ 31) \<le> int (unat x)" by (rule order.trans [of _ 0]) simp_all
  ultimately have "int32 (int (unat x)) = int (unat x)" by (intro int32_id)
  then show ?thesis by (simp add: int32_def)
qed

lemmas u32_arith = u32_add u32_sub word_less_nat_alt word_le_nat_alt

text \<open>Rounding up to a multiple.\<close>

lemma ceil_ge: "0 < a \<Longrightarrow> r \<le> (r + a - 1) div a * (a :: nat)"
proof -
  assume a: "0 < a"
  have "(r + a - 1) mod a < a" using a by simp
  then show ?thesis using div_mult_mod_eq [of "r + a - 1" a] a by linarith
qed

subsection \<open>Results of operations\<close>

lemma not_None2E: "x \<noteq> None \<Longrightarrow> (\<And>a b. x = Some (a, b) \<Longrightarrow> P) \<Longrightarrow> P"
  by (cases x) auto

lemma not_None3E: "x \<noteq> None \<Longrightarrow> (\<And>a b c. x = Some (a, b, c) \<Longrightarrow> P) \<Longrightarrow> P"
  by (cases x) auto

subsection \<open>Vectors\<close>

text \<open>
  \<^verbatim>\<open>v.erase(v.begin() + i)\<close> and \<^verbatim>\<open>v.insert(v.begin() + i, x)\<close> of \<^verbatim>\<open>std::vector\<close>, and
  \<^verbatim>\<open>std::lower_bound\<close> on a range that is partitioned by the predicate.
\<close>

definition erase_at :: "nat \<Rightarrow> 'a list \<Rightarrow> 'a list" where
  "erase_at i xs = take i xs @ drop (Suc i) xs"

definition insert_at :: "nat \<Rightarrow> 'a \<Rightarrow> 'a list \<Rightarrow> 'a list" where
  "insert_at i x xs = take i xs @ x # drop i xs"

definition lower_bound :: "('a \<Rightarrow> bool) \<Rightarrow> 'a list \<Rightarrow> nat" where
  "lower_bound P xs = length (takeWhile P xs)"

lemma erase_at_append [simp]: "erase_at (length xs) (xs @ y # ys) = xs @ ys"
  by (simp add: erase_at_def)

lemma erase_at_append_Suc [simp]: "erase_at (Suc (length xs)) (xs @ y # z # ys) = xs @ y # ys"
  by (simp add: erase_at_def)

lemma insert_at_append [simp]: "insert_at (length xs) y (xs @ ys) = xs @ y # ys"
  by (simp add: insert_at_def)

lemma insert_at_append_Suc [simp]: "insert_at (Suc (length xs)) z (xs @ y # ys) = xs @ y # z # ys"
  by (simp add: insert_at_def)

lemma lower_bound_append:
  "(\<And>x. x \<in> set xs \<Longrightarrow> P x) \<Longrightarrow> \<not> P y \<Longrightarrow> lower_bound P (xs @ y # ys) = length xs"
  by (simp add: lower_bound_def takeWhile_append)

lemma nth_split:
  assumes "i < length xs"
  obtains ys y zs where "xs = ys @ y # zs" and "i = length ys"
  using assms by (metis id_take_nth_drop length_take min.absorb4)

lemma nth_append_Suc [simp]: "(xs @ y # z # ys) ! Suc (length xs) = z"
  by (simp add: nth_append)

lemma list_update_append_Suc [simp]:
  "(xs @ y # z # ys)[Suc (length xs) := w] = xs @ y # w # ys"
  by (simp add: list_update_append)

subsection \<open>Sums over a list\<close>

lemma sum_list_map_update:
  "r < length xs \<Longrightarrow> sum_list (map f (xs[r := y])) = sum_list (map f xs) - f (xs ! r) + (f y :: 'a :: ab_group_add)"
  by (induction xs arbitrary: r) (auto simp: nth_Cons algebra_simps split: nat.splits)

subsection \<open>Association lists\<close>

text \<open>Removing a key removes one occurrence of its value.\<close>

lemma count_list_filter_fst:
  assumes "distinct (map fst xs)" and "map_of xs c = Some r"
  shows "count_list (map snd xs) r' = count_list (map snd (filter (\<lambda>(c', _). c' \<noteq> c) xs)) r' + (if r' = r then 1 else 0)"
  using assms
proof (induction xs)
  case (Cons x xs)
  obtain c' q where x: "x = (c', q)" by fastforce
  show ?case
  proof (cases "c' = c")
    case True
    with Cons.prems x have "filter (\<lambda>(c', _). c' \<noteq> c) xs = xs" by (force intro!: filter_True)
    with True Cons.prems x show ?thesis by simp
  next
    case False
    with Cons x show ?thesis by simp
  qed
qed simp

end
