(* ===== verification/Token_Fence.thy ===== *)
theory Token_Fence
  imports Prelude
begin

text \<open>
  The interface between the client's allocators (\<^verbatim>\<open>FencedAllocator\<close>, \<^verbatim>\<open>RingBuffer\<close>) and the
  \<^verbatim>\<open>CommandBufferHelper\<close> they wait on: the operations \<^verbatim>\<open>WaitForToken\<close> and \<^verbatim>\<open>last_token_read\<close> and the
  laws the allocators' fencing guarantee rests on, for an invariant \<open>inv\<close> of the helper. \<open>passed t h\<close>
  says that in the helper state \<open>h\<close> the service no longer uses memory that was freed pending token
  \<open>t\<close>. A wait that returns has passed its token, a token that has been read is passed, and a wait
  takes no passed token back. The theory of the client and the service interprets the locale.
\<close>

locale token_fence =
  fixes wait :: "int \<Rightarrow> 'h \<Rightarrow> 'h option"
    and last_token_read :: "'h \<Rightarrow> int \<times> 'h"
    and passed :: "int \<Rightarrow> 'h \<Rightarrow> bool"
    and inv :: "'h \<Rightarrow> bool"
  assumes wait_inv: "inv h \<Longrightarrow> wait t h = Some h' \<Longrightarrow> inv h'"
    and wait_passed: "inv h \<Longrightarrow> wait t h = Some h' \<Longrightarrow> passed t h'"
    and wait_mono: "inv h \<Longrightarrow> passed t h \<Longrightarrow> wait t' h = Some h' \<Longrightarrow> passed t h'"
    and read_passed: "inv h \<Longrightarrow> last_token_read h = (r, h') \<Longrightarrow> t \<le> r \<Longrightarrow> passed t h'"

end
