(* ===== verification/Ring_Buffer.thy ===== *)
theory Ring_Buffer
  imports Token_Fence
begin

text \<open>
  The ring allocator of the transfer buffer, \<^verbatim>\<open>gpu/command_buffer/client/ring_buffer.cc\<close> and
  \<^verbatim>\<open>ring_buffer.h\<close>: blocks are allocated at the free offset, freed from the oldest on once their
  token has passed, and a padding block fills the end of the buffer when a block wraps around.
\<close>

subsection \<open>State\<close>

datatype rb_state = RB_IN_USE | PADDING | RB_FREE_PENDING_TOKEN

record RB_Block =
  rb_offset :: u32
  rb_size :: u32
  rb_token :: u32
  rb_state :: rb_state

record RingBuffer =
  rb_blocks :: "RB_Block list"
  rb_base_offset :: u32
  rb_total :: u32
  rb_free_offset :: u32
  rb_in_use_offset :: u32

definition RB_make_Block :: "u32 \<Rightarrow> u32 \<Rightarrow> rb_state \<Rightarrow> RB_Block" where
  "RB_make_Block offset sz st = \<lparr>rb_offset = offset, rb_size = sz, rb_token = 0, rb_state = st\<rparr>"

definition new_RingBuffer :: "u32 \<Rightarrow> u32 \<Rightarrow> RingBuffer" where
  "new_RingBuffer base_offset sz =
     \<lparr>rb_blocks = [], rb_base_offset = base_offset, rb_total = sz,
      rb_free_offset = 0, rb_in_use_offset = 0\<rparr>"

subsection \<open>Operations\<close>

definition FreeOldestBlock ::
    "(int \<Rightarrow> 'h \<Rightarrow> 'h option) \<Rightarrow> RingBuffer \<Rightarrow> 'h \<Rightarrow> (RingBuffer \<times> 'h) option" where
  "FreeOldestBlock wait rb h =
     (case rb_blocks rb of
        [] \<Rightarrow> None
      | block # rest \<Rightarrow>
          if rb_state block = RB_IN_USE then None
          else do {
            h' \<leftarrow> (if rb_state block = RB_FREE_PENDING_TOKEN then wait (sint (rb_token block)) h
                  else Some h);
            let in_use = rb_in_use_offset rb + rb_size block;
            let in_use = (if in_use = rb_total rb then 0 else in_use);
            let (in_use, free) = (if in_use = rb_free_offset rb then (0, 0)
                                  else (in_use, rb_free_offset rb));
            Some (rb\<lparr>rb_blocks := rest, rb_in_use_offset := in_use, rb_free_offset := free\<rparr>, h')
          })"

definition GetLargestFreeSizeNoWaiting :: "RingBuffer \<Rightarrow> u32 option" where
  "GetLargestFreeSizeNoWaiting rb =
     (if rb_free_offset rb = rb_in_use_offset rb
      then if rb_blocks rb = []
           then if rb_free_offset rb = 0 then Some (rb_total rb) else None
           else Some 0
      else if rb_free_offset rb > rb_in_use_offset rb
           then Some (max (rb_total rb - rb_free_offset rb) (rb_in_use_offset rb))
           else Some (rb_in_use_offset rb - rb_free_offset rb))"

definition RingBuffer_GetLargestFreeOrPendingSize :: "RingBuffer \<Rightarrow> u32" where
  "RingBuffer_GetLargestFreeOrPendingSize rb = rb_total rb"

lemma FreeOldestBlock_length:
  "FreeOldestBlock wait rb h = Some (rb', h') \<Longrightarrow> length (rb_blocks rb') < length (rb_blocks rb)"
  by (auto simp: FreeOldestBlock_def Let_def split: list.splits if_splits Option.bind_splits)

text \<open>The loop of \<^verbatim>\<open>Alloc\<close> that waits until there is enough room.\<close>

function rb_make_room ::
    "(int \<Rightarrow> 'h \<Rightarrow> 'h option) \<Rightarrow> u32 \<Rightarrow> RingBuffer \<Rightarrow> 'h \<Rightarrow> (RingBuffer \<times> 'h) option" where
  "rb_make_room wait sz rb h = do {
     room \<leftarrow> GetLargestFreeSizeNoWaiting rb;
     if sz > room
     then do {
       (rb', h') \<leftarrow> FreeOldestBlock wait rb h;
       rb_make_room wait sz rb' h'
     }
     else Some (rb, h)
   }"
  by pat_completeness auto
termination
  by (relation "measure (\<lambda>(wait, sz, rb, h). length (rb_blocks rb))") (auto dest: FreeOldestBlock_length)

declare rb_make_room.simps [simp del]

definition RingBuffer_Alloc ::
    "(int \<Rightarrow> 'h \<Rightarrow> 'h option) \<Rightarrow> u32 \<Rightarrow> RingBuffer \<Rightarrow> 'h \<Rightarrow> (u32 \<times> RingBuffer \<times> 'h) option" where
  "RingBuffer_Alloc wait size0 rb0 h0 =
     (if size0 \<le> rb_total rb0 \<and> (rb_blocks rb0 = [] \<or> rb_state (last (rb_blocks rb0)) \<noteq> RB_IN_USE)
      then do {
        let sz = (if size0 = 0 then 1 else size0);
        (rb1, h) \<leftarrow> rb_make_room wait sz rb0 h0;
        let rb2 = (if sz + rb_free_offset rb1 > rb_total rb1
                   then rb1\<lparr>rb_blocks := rb_blocks rb1 @
                              [RB_make_Block (rb_free_offset rb1) (rb_total rb1 - rb_free_offset rb1) PADDING],
                            rb_free_offset := 0\<rparr>
                   else rb1);
        let offset = rb_free_offset rb2;
        let free = offset + sz;
        let rb3 = rb2\<lparr>rb_blocks := rb_blocks rb2 @ [RB_make_Block offset sz RB_IN_USE],
                      rb_free_offset := (if free = rb_total rb2 then 0 else free)\<rparr>;
        Some (offset + rb_base_offset rb3, rb3, h)
      }
      else None)"

text \<open>The search of \<^verbatim>\<open>FreePendingToken\<close>, from the newest block to the oldest.\<close>

fun rb_free_rev :: "u32 \<Rightarrow> u32 \<Rightarrow> RB_Block list \<Rightarrow> RB_Block list option" where
  "rb_free_rev offset token [] = None"
| "rb_free_rev offset token (block # rest) =
     (if rb_offset block = offset
      then if rb_state block = RB_IN_USE
           then Some (block\<lparr>rb_token := token, rb_state := RB_FREE_PENDING_TOKEN\<rparr> # rest)
           else None
      else map_option ((#) block) (rb_free_rev offset token rest))"

definition RingBuffer_FreePendingToken :: "u32 \<Rightarrow> u32 \<Rightarrow> RingBuffer \<Rightarrow> RingBuffer option" where
  "RingBuffer_FreePendingToken offset0 token rb =
     (let offset = offset0 - rb_base_offset rb
      in if rb_blocks rb = [] then None
         else do {
           blocks \<leftarrow> rb_free_rev offset token (rev (rb_blocks rb));
           Some (rb\<lparr>rb_blocks := rev blocks\<rparr>)
         })"

text \<open>The destructor frees every block, oldest first.\<close>

function RingBuffer_destroy ::
    "(int \<Rightarrow> 'h \<Rightarrow> 'h option) \<Rightarrow> RingBuffer \<Rightarrow> 'h \<Rightarrow> (RingBuffer \<times> 'h) option" where
  "RingBuffer_destroy wait rb h =
     (if rb_blocks rb \<noteq> []
      then do {
        (rb', h') \<leftarrow> FreeOldestBlock wait rb h;
        RingBuffer_destroy wait rb' h'
      }
      else Some (rb, h))"
  by pat_completeness auto
termination
  by (relation "measure (\<lambda>(wait, rb, h). length (rb_blocks rb))") (auto dest: FreeOldestBlock_length)

declare RingBuffer_destroy.simps [simp del]

subsection \<open>The invariant: the blocks follow each other round the ring\<close>

text \<open>
  \<open>rb_layout n v bs\<close>: the blocks occupy the bytes from \<open>v\<close> on of the ring unrolled into a line;
  a block does not cross the end of the buffer of \<open>n\<close> bytes.
\<close>

fun rb_layout :: "nat \<Rightarrow> nat \<Rightarrow> RB_Block list \<Rightarrow> bool" where
  "rb_layout n v [] = True"
| "rb_layout n v (b # bs) =
     (unat (rb_offset b) = v mod n \<and> 0 < unat (rb_size b) \<and> v mod n + unat (rb_size b) \<le> n \<and>
      rb_layout n (v + unat (rb_size b)) bs)"

abbreviation rb_bytes :: "RB_Block list \<Rightarrow> nat" where
  "rb_bytes bs \<equiv> sum_list (map (\<lambda>b. unat (rb_size b)) bs)"

definition rb_inv :: "RingBuffer \<Rightarrow> bool" where
  "rb_inv rb \<longleftrightarrow>
     (let n = unat (rb_total rb); bs = rb_blocks rb in
      0 < n \<and> n \<le> 2147483648 \<and> rb_bytes bs \<le> n \<and>
      (\<exists>v. rb_layout n v bs \<and> unat (rb_in_use_offset rb) = v mod n \<and>
           unat (rb_free_offset rb) = (v + rb_bytes bs) mod n) \<and>
      (bs = [] \<longrightarrow> rb_in_use_offset rb = 0) \<and>
      (\<forall>b \<in> set (butlast bs). rb_state b \<noteq> RB_IN_USE))"

lemma rb_layout_append:
  "rb_layout n v (xs @ ys) \<longleftrightarrow> rb_layout n v xs \<and> rb_layout n (v + rb_bytes xs) ys"
  by (induction xs arbitrary: v) (auto simp: algebra_simps)

lemma rb_layout_pos: "rb_layout n v bs \<Longrightarrow> bs \<noteq> [] \<Longrightarrow> 0 < rb_bytes bs"
  by (cases bs) auto

lemma new_RingBuffer_inv:
  "0 < sz \<Longrightarrow> unat sz \<le> 2147483648 \<Longrightarrow> rb_inv (new_RingBuffer base sz)"
  by (auto simp: rb_inv_def new_RingBuffer_def u32_pos intro!: exI [of _ 0])

text \<open>The free offset in terms of the in-use offset and the bytes in use.\<close>

lemma ring_offsets:
  assumes "(n::nat) > 0" and "B \<le> n"
  shows "(v + B) mod n = (if v mod n + B < n then v mod n + B else v mod n + B - n)"
proof -
  define u where "u = v mod n"
  have u: "u < n" using assms(1) by (simp add: u_def)
  have "(v + B) mod n = (u + B) mod n" by (simp add: u_def mod_add_left_eq)
  also have "\<dots> = (if u + B < n then u + B else u + B - n)"
  proof (cases "u + B < n")
    case False
    then have "(u + B) mod n = (u + B - n) mod n" by (simp add: le_mod_geq)
    also have "\<dots> = u + B - n" using u assms(2) False by (intro mod_less) linarith
    finally show ?thesis using False by simp
  qed simp
  finally show ?thesis by (simp add: u_def)
qed

lemma ring_offsets_neq:
  assumes "(n::nat) > 0" and "B < n" and "0 < B"
  shows "(v + B) mod n \<noteq> v mod n"
  using ring_offsets [of n B v] assms by (auto split: if_splits)

lemma FreeOldestBlock_spec:
  assumes inv: "rb_inv rb" and ne: "rb_blocks rb = b # bs" and b: "rb_state b \<noteq> RB_IN_USE"
    and wait: "rb_state b = RB_FREE_PENDING_TOKEN \<Longrightarrow> wait (sint (rb_token b)) h = Some h'"
    and pad: "rb_state b \<noteq> RB_FREE_PENDING_TOKEN \<Longrightarrow> h' = h"
  shows "\<exists>rb'. FreeOldestBlock wait rb h = Some (rb', h') \<and> rb_inv rb' \<and> rb_blocks rb' = bs \<and>
           rb_total rb' = rb_total rb \<and> rb_base_offset rb' = rb_base_offset rb"
proof -
  let ?n = "unat (rb_total rb)"
  obtain v where n: "0 < ?n" "?n \<le> 2147483648" and B: "unat (rb_size b) + rb_bytes bs \<le> ?n"
    and v: "rb_layout ?n v (b # bs)" "unat (rb_in_use_offset rb) = v mod ?n"
      "unat (rb_free_offset rb) = (v + (unat (rb_size b) + rb_bytes bs)) mod ?n"
    and last: "\<forall>x \<in> set (butlast (b # bs)). rb_state x \<noteq> RB_IN_USE"
    using inv by (auto simp: rb_inv_def Let_def ne)
  define u where "u = rb_in_use_offset rb + rb_size b"
  define u1 where "u1 = (if u = rb_total rb then 0 else u)"
  from v n have "unat u = v mod ?n + unat (rb_size b)"
    by (simp add: u_def u32_add)
  moreover have "v mod ?n + unat (rb_size b) \<le> ?n" using v(1) by simp
  ultimately have u1: "unat u1 = (v + unat (rb_size b)) mod ?n"
    using ring_offsets [OF n(1), of "unat (rb_size b)" v] B n
    by (auto simp: u1_def u32_eq)
  define rb' where "rb' = rb\<lparr>rb_blocks := bs,
      rb_in_use_offset := (if u1 = rb_free_offset rb then 0 else u1),
      rb_free_offset := (if u1 = rb_free_offset rb then 0 else rb_free_offset rb)\<rparr>"
  have "FreeOldestBlock wait rb h = Some (rb', h')"
    using b wait pad by (auto simp: FreeOldestBlock_def ne Let_def rb'_def u1_def u_def)
  moreover have "rb_inv rb'"
  proof (cases "bs = []")
    case True
    then have "u1 = rb_free_offset rb" using u1 v(3) by (simp add: u32_eq)
    with True n show ?thesis by (auto simp: rb_inv_def rb'_def intro!: exI [of _ 0])
  next
    case False
    have pos: "0 < rb_bytes bs" using rb_layout_pos False v(1) by auto
    have "0 < unat (rb_size b)" using v(1) by simp
    with B pos have lt: "rb_bytes bs < ?n" by linarith
    have "unat (rb_free_offset rb) = ((v + unat (rb_size b)) + rb_bytes bs) mod ?n"
      using v(3) by (simp add: add.assoc)
    then have neq: "u1 \<noteq> rb_free_offset rb"
      using u1 ring_offsets_neq [OF n(1) lt pos, of "v + unat (rb_size b)"] by metis
    from last have "\<forall>x \<in> set (butlast bs). rb_state x \<noteq> RB_IN_USE" using False by auto
    with neq False v u1 n B show ?thesis
      by (auto simp: rb_inv_def rb'_def Let_def add.assoc intro!: exI [of _ "v + unat (rb_size b)"])
  qed
  ultimately show ?thesis by (auto simp: rb'_def)
qed


lemma FreeOldestBlock_SomeE:
  assumes "rb_inv rb" and "FreeOldestBlock wait rb h = Some (rb', h')"
  obtains b where "rb_blocks rb = b # rb_blocks rb'" and "rb_state b \<noteq> RB_IN_USE"
    and "rb_state b = RB_FREE_PENDING_TOKEN \<Longrightarrow> wait (sint (rb_token b)) h = Some h'"
    and "rb_state b \<noteq> RB_FREE_PENDING_TOKEN \<Longrightarrow> h' = h"
    and "rb_inv rb'" and "rb_total rb' = rb_total rb" and "rb_base_offset rb' = rb_base_offset rb"
proof -
  obtain b bs where ne: "rb_blocks rb = b # bs" and b: "rb_state b \<noteq> RB_IN_USE"
    and w: "rb_state b = RB_FREE_PENDING_TOKEN \<Longrightarrow> wait (sint (rb_token b)) h = Some h'"
    and p: "rb_state b \<noteq> RB_FREE_PENDING_TOKEN \<Longrightarrow> h' = h"
    using assms(2)
    by (auto simp: FreeOldestBlock_def Let_def split: list.splits if_splits Option.bind_splits)
  from FreeOldestBlock_spec [of rb b bs wait h h', OF assms(1) ne b w p] assms(2)
  have "rb_inv rb' \<and> rb_blocks rb' = bs \<and> rb_total rb' = rb_total rb \<and> rb_base_offset rb' = rb_base_offset rb"
    by auto
  with that [of b] ne b w p show thesis by simp
qed

subsection \<open>Room and allocation\<close>

text \<open>The room that is reported can be used, with a padding block at the end when the block wraps.\<close>

lemma GetLargestFreeSizeNoWaiting_total:
  assumes "rb_inv rb"
  obtains room where "GetLargestFreeSizeNoWaiting rb = Some room"
    and "rb_blocks rb = [] \<Longrightarrow> room = rb_total rb"
proof -
  have "rb_blocks rb = [] \<Longrightarrow> rb_in_use_offset rb = 0 \<and> rb_free_offset rb = rb_in_use_offset rb"
    using assms by (auto simp: rb_inv_def Let_def u32_eq [of "rb_free_offset rb"])
  then have "GetLargestFreeSizeNoWaiting rb \<noteq> None"
      "rb_blocks rb = [] \<Longrightarrow> GetLargestFreeSizeNoWaiting rb = Some (rb_total rb)"
    by (auto simp: GetLargestFreeSizeNoWaiting_def)
  with that show thesis by (cases "rb_blocks rb = []") auto
qed

lemma room_arith:
  assumes "(n::nat) > 0" and "B \<le> n" and "B = 0 \<longleftrightarrow> noblk" and "noblk \<longrightarrow> v mod n = 0"
    and "i = v mod n" and "f = (v + B) mod n" and "0 < sz"
    and "if f = i then if noblk then sz \<le> n else sz \<le> 0
         else if i < f then sz \<le> n - f \<or> sz \<le> i else sz \<le> i - f"
  shows "f < n" and "i < n" and "sz \<le> n" and "sz + f \<le> n \<Longrightarrow> B + sz \<le> n"
    and "\<not> sz + f \<le> n \<Longrightarrow> B + (n - f) + sz \<le> n \<and> (v + B + (n - f)) mod n = 0 \<and> \<not> noblk"
proof -
  have o: "f = (if i + B < n then i + B else i + B - n)"
    using ring_offsets [OF assms(1,2), of v] assms(5,6) by simp
  have e: "noblk \<Longrightarrow> i = 0" using assms(4,5) by simp
  show fn: "f < n" and "i < n" using assms(1,5,6) by simp_all
  then show "sz \<le> n" using assms(8) by (auto split: if_splits)
  show "B + sz \<le> n" if "sz + f \<le> n"
    using that assms(1,2,3,7,8) e o \<open>i < n\<close> by (auto split: if_splits)
  assume w: "\<not> sz + f \<le> n"
  have "(v + B + (n - f)) mod n = ((v + B) mod n + (n - f)) mod n" by (simp add: mod_add_left_eq)
  also have "\<dots> = 0" using fn assms(6) by simp
  finally have z: "(v + B + (n - f)) mod n = 0" .
  have "B + (n - f) + sz \<le> n \<and> \<not> noblk"
    using w assms(1,2,3,7,8) e o \<open>i < n\<close> by (auto split: if_splits)
  with z show "B + (n - f) + sz \<le> n \<and> (v + B + (n - f)) mod n = 0 \<and> \<not> noblk" by simp
qed

text \<open>The part of \<^verbatim>\<open>Alloc\<close> after the waiting loop.\<close>

definition rb_place :: "u32 \<Rightarrow> RingBuffer \<Rightarrow> u32 \<times> RingBuffer" where
  "rb_place sz rb1 =
     (let rb2 = (if sz + rb_free_offset rb1 > rb_total rb1
                 then rb1\<lparr>rb_blocks := rb_blocks rb1 @
                            [RB_make_Block (rb_free_offset rb1) (rb_total rb1 - rb_free_offset rb1) PADDING],
                          rb_free_offset := 0\<rparr>
                 else rb1);
          offset = rb_free_offset rb2;
          free = offset + sz
      in (offset, rb2\<lparr>rb_blocks := rb_blocks rb2 @ [RB_make_Block offset sz RB_IN_USE],
                      rb_free_offset := (if free = rb_total rb2 then 0 else free)\<rparr>))"

lemma RingBuffer_Alloc_place:
  "RingBuffer_Alloc wait size0 rb h =
     (if size0 \<le> rb_total rb \<and> (rb_blocks rb = [] \<or> rb_state (last (rb_blocks rb)) \<noteq> RB_IN_USE)
      then do {
        (rb1, h1) \<leftarrow> rb_make_room wait (if size0 = 0 then 1 else size0) rb h;
        let (offset, rb3) = rb_place (if size0 = 0 then 1 else size0) rb1;
        Some (offset + rb_base_offset rb3, rb3, h1)
      }
      else None)"
  unfolding RingBuffer_Alloc_def rb_place_def Let_def by (auto simp: case_prod_unfold)

lemma rb_place_spec:
  assumes inv: "rb_inv rb" and free: "\<forall>b \<in> set (rb_blocks rb). rb_state b \<noteq> RB_IN_USE"
    and room: "GetLargestFreeSizeNoWaiting rb = Some room" and sz: "0 < sz" "sz \<le> room"
    and place: "rb_place sz rb = (offset, rb')"
  obtains pad where "rb_inv rb'" and "rb_blocks rb' = rb_blocks rb @ pad @ [RB_make_Block offset sz RB_IN_USE]"
    and "pad = [] \<or> (\<exists>p. pad = [p] \<and> rb_state p = PADDING)"
    and "rb_total rb' = rb_total rb" and "rb_base_offset rb' = rb_base_offset rb"
proof -
  let ?n = "unat (rb_total rb)" and ?B = "rb_bytes (rb_blocks rb)" and ?f = "rb_free_offset rb"
  obtain v where n: "0 < ?n" "?n \<le> 2147483648" and B: "?B \<le> ?n"
    and v: "rb_layout ?n v (rb_blocks rb)" "unat (rb_in_use_offset rb) = v mod ?n"
      "unat ?f = (v + ?B) mod ?n" and e: "rb_blocks rb = [] \<Longrightarrow> rb_in_use_offset rb = 0"
    using inv by (auto simp: rb_inv_def Let_def)
  have empty: "?B = 0 \<longleftrightarrow> rb_blocks rb = []" using rb_layout_pos [OF v(1)] by fastforce
  have e0: "rb_blocks rb = [] \<longrightarrow> v mod ?n = 0"
  proof
    assume "rb_blocks rb = []"
    from e [OF this] v(2) show "v mod ?n = 0" by simp
  qed
  have szn: "0 < unat sz" using sz(1) by (simp add: u32_pos)
  have r: "if unat ?f = unat (rb_in_use_offset rb) then if rb_blocks rb = [] then unat sz \<le> ?n else unat sz \<le> 0
      else if unat (rb_in_use_offset rb) < unat ?f then unat sz \<le> ?n - unat ?f \<or> unat sz \<le> unat (rb_in_use_offset rb)
      else unat sz \<le> unat (rb_in_use_offset rb) - unat ?f"
  proof -
    have "unat ?f < ?n" using n(1) v(3) by simp
    then have fn: "?f \<le> rb_total rb" by (simp add: word_le_nat_alt)
    show ?thesis using room sz(2) u32_sub [OF fn] u32_sub [of ?f "rb_in_use_offset rb"]
      by (auto simp: GetLargestFreeSizeNoWaiting_def word_le_nat_alt word_less_nat_alt u32_eq [of ?f]
          max_def split: if_splits)
  qed
  note ra = room_arith [OF n(1) B empty e0 v(2,3) szn r]
  have sum: "unat (sz + ?f) = unat sz + unat ?f" using ra(1,3) n(2) by (intro u32_add) linarith
  have nofree: "\<forall>b \<in> set (butlast (rb_blocks rb @ [x])). rb_state b \<noteq> RB_IN_USE" for x
    using free by simp
  show thesis
  proof (cases "sz + ?f > rb_total rb")
    case False
    then have fit: "unat sz + unat ?f \<le> ?n" using sum by (simp add: word_less_nat_alt)
    define f' where "f' = (if ?f + sz = rb_total rb then 0 else ?f + sz)"
    have "unat f' = (v + (?B + unat sz)) mod ?n"
    proof -
      have "(v + (?B + unat sz)) mod ?n = (unat ?f + unat sz) mod ?n"
        by (simp add: v(3) mod_add_left_eq add.assoc)
      moreover have "?f + sz = rb_total rb \<longleftrightarrow> unat ?f + unat sz = ?n"
        unfolding u32_eq [of "?f + sz"] using sum by (simp add: add.commute)
      ultimately show ?thesis using fit sum by (auto simp: f'_def add.commute)
    qed
    moreover have rb': "rb' = rb\<lparr>rb_blocks := rb_blocks rb @ [RB_make_Block ?f sz RB_IN_USE], rb_free_offset := f'\<rparr>"
      and off: "offset = ?f" using place False by (auto simp: rb_place_def f'_def Let_def)
    ultimately have "rb_inv rb'"
      using n B v ra(4) [OF fit] fit szn nofree
      by (auto simp: rb_inv_def Let_def rb_layout_append RB_make_Block_def intro!: exI [of _ v])
    with that [of "[]"] show thesis by (simp add: rb' off)
  next
    case True
    then have wrap: "\<not> unat sz + unat ?f \<le> ?n" using sum by (simp add: word_less_nat_alt)
    define P where "P = ?n - unat ?f"
    have w: "?B + P + unat sz \<le> ?n" "(v + (?B + P)) mod ?n = 0" "rb_blocks rb \<noteq> []"
      using ra(5) [OF wrap] unfolding P_def add.assoc by blast+
    have fle: "?f \<le> rb_total rb" using ra(1) by (simp add: word_le_nat_alt)
    have psz: "unat (rb_total rb - ?f) = P" unfolding P_def by (rule u32_sub [OF fle])
    have P: "unat ?f + P = ?n" "0 < P" using ra(1) by (simp_all add: P_def)
    define pad where "pad = RB_make_Block ?f (rb_total rb - ?f) PADDING"
    have rb': "rb' = rb\<lparr>rb_blocks := (rb_blocks rb @ [pad]) @ [RB_make_Block 0 sz RB_IN_USE],
        rb_free_offset := (if sz = rb_total rb then 0 else sz)\<rparr>" and off: "offset = 0"
      using place True by (auto simp: rb_place_def pad_def Let_def)
    have lt: "unat sz < ?n" using w P by linarith
    then have ne: "sz \<noteq> rb_total rb" by auto
    have lay: "rb_layout ?n v ((rb_blocks rb @ [pad]) @ [RB_make_Block 0 sz RB_IN_USE])"
      using v(1) v(3) [symmetric] w(2) szn psz P ra(3)
      by (simp add: rb_layout_append pad_def RB_make_Block_def add.assoc)
    have fr: "unat sz = (v + (?B + P + unat sz)) mod ?n"
    proof -
      have "(v + (?B + P + unat sz)) mod ?n = ((v + (?B + P)) mod ?n + unat sz) mod ?n"
        by (simp add: mod_add_left_eq add.assoc)
      then show ?thesis using w(2) lt by simp
    qed
    have "rb_inv rb'"
      unfolding rb_inv_def Let_def rb' using n lay fr w psz ne v(2) free
      by (auto simp: pad_def RB_make_Block_def butlast_append add.assoc intro!: exI [of _ v])
    with that [of "[pad]"] show thesis by (simp add: rb' off pad_def RB_make_Block_def)
  qed
qed

lemma rb_make_room_spec:
  "rb_make_room wait sz rb h = Some (rb', h') \<Longrightarrow> rb_inv rb \<Longrightarrow>
   rb_inv rb' \<and> (\<exists>old. rb_blocks rb = old @ rb_blocks rb') \<and> rb_total rb' = rb_total rb \<and>
   rb_base_offset rb' = rb_base_offset rb \<and>
   (\<exists>room. GetLargestFreeSizeNoWaiting rb' = Some room \<and> sz \<le> room)"
proof (induction wait sz rb h arbitrary: rb' h' rule: rb_make_room.induct)
  case (1 wait sz rb h)
  note unfold = rb_make_room.simps [of wait sz rb h]
  from GetLargestFreeSizeNoWaiting_total [OF "1.prems"(2)]
  obtain room where room: "GetLargestFreeSizeNoWaiting rb = Some room" by blast
  show ?case
  proof (cases "sz > room")
    case False
    with "1.prems" room show ?thesis by (auto simp: unfold)
  next
    case True
    with "1.prems"(1) room obtain rb1 h1 where f: "FreeOldestBlock wait rb h = Some (rb1, h1)"
      and l: "rb_make_room wait sz rb1 h1 = Some (rb', h')"
      by (auto simp: unfold split: Option.bind_splits)
    from FreeOldestBlock_SomeE [OF "1.prems"(2) f]
    obtain b where b: "rb_blocks rb = [b] @ rb_blocks rb1" "rb_inv rb1" "rb_total rb1 = rb_total rb"
      "rb_base_offset rb1 = rb_base_offset rb" by (metis append_Cons append_Nil)
    from "1.IH" [OF room True f refl l b(2)] b show ?thesis by (metis append.assoc)
  qed
qed

lemma rb_make_room_total:
  "rb_inv rb \<Longrightarrow> \<forall>b \<in> set (rb_blocks rb). rb_state b \<noteq> RB_IN_USE \<Longrightarrow> sz \<le> rb_total rb \<Longrightarrow>
   \<forall>t h. wait t h \<noteq> None \<Longrightarrow> rb_make_room wait sz rb h \<noteq> None"
proof (induction wait sz rb h rule: rb_make_room.induct)
  case (1 wait sz rb h)
  note unfold = rb_make_room.simps [of wait sz rb h]
  from GetLargestFreeSizeNoWaiting_total [OF "1.prems"(1)]
  obtain room where room: "GetLargestFreeSizeNoWaiting rb = Some room"
    and e: "rb_blocks rb = [] \<Longrightarrow> room = rb_total rb" by blast
  show ?case
  proof (cases "sz > room")
    case False
    with room show ?thesis by (auto simp: unfold)
  next
    case True
    with e "1.prems"(3) obtain b bs where ne: "rb_blocks rb = b # bs"
      by (cases "rb_blocks rb") auto
    with "1.prems"(2) have b: "rb_state b \<noteq> RB_IN_USE" by simp
    obtain h1 where h1: "rb_state b = RB_FREE_PENDING_TOKEN \<Longrightarrow> wait (sint (rb_token b)) h = Some h1"
      "rb_state b \<noteq> RB_FREE_PENDING_TOKEN \<Longrightarrow> h1 = h"
      using "1.prems"(4) by (cases "rb_state b = RB_FREE_PENDING_TOKEN") auto
    from FreeOldestBlock_spec [of rb b bs wait h h1, OF "1.prems"(1) ne b h1] obtain rb1 where
      f: "FreeOldestBlock wait rb h = Some (rb1, h1)" "rb_inv rb1" "rb_blocks rb1 = bs"
        "rb_total rb1 = rb_total rb" by blast
    have "rb_make_room wait sz rb1 h1 \<noteq> None"
      using "1.IH" [OF room True f(1) refl f(2)] "1.prems" ne f by simp
    with room True f show ?thesis by (simp add: unfold)
  qed
qed

subsection \<open>Regions of memory\<close>

definition rb_region :: "RB_Block \<Rightarrow> nat set" where
  "rb_region b = {unat (rb_offset b) ..< unat (rb_offset b) + unat (rb_size b)}"

lemma mod_line_inj:
  assumes "(p::nat) < q" and "q < p + n"
  shows "p mod n \<noteq> q mod n"
proof
  assume "p mod n = q mod n"
  then have "n dvd q - p" using assms(1) by (metis mod_eq_dvd_iff_nat less_imp_le)
  then show False using assms by (auto dest: dvd_imp_le)
qed

lemma rb_layout_disjoint:
  assumes "rb_layout n v (xs @ b # ys @ c # zs)" and "rb_bytes (xs @ b # ys @ c # zs) \<le> n"
  shows "rb_region b \<inter> rb_region c = {}"
proof -
  let ?vb = "v + rb_bytes xs" and ?sb = "unat (rb_size b)"
  let ?vc = "?vb + ?sb + rb_bytes ys" and ?sc = "unat (rb_size c)"
  have lb: "unat (rb_offset b) = ?vb mod n" "?vb mod n + ?sb \<le> n"
    and lc: "unat (rb_offset c) = ?vc mod n" "?vc mod n + ?sc \<le> n"
    using assms(1) by (simp_all add: rb_layout_append add.assoc)
  have line: "(u mod n + k) = (u + k) mod n" if "u mod n + k < n" for u k
    using that by (metis mod_add_left_eq mod_less)
  show ?thesis
  proof (rule ccontr)
    assume "rb_region b \<inter> rb_region c \<noteq> {}"
    then obtain x where x: "x \<in> rb_region b" "x \<in> rb_region c" by blast
    define k where "k = x - ?vb mod n"
    define l where "l = x - ?vc mod n"
    have k: "x = ?vb mod n + k" "k < ?sb" and l: "x = ?vc mod n + l" "l < ?sc"
      using x lb lc by (auto simp: rb_region_def k_def l_def)
    have "(?vb + k) mod n = (?vc + l) mod n"
      using line [of ?vb k] line [of ?vc l] k l lb lc by linarith
    moreover have "?vb + k < ?vc + l" "?vc + l < ?vb + k + n"
      using k l assms(2) by simp_all
    ultimately show False using mod_line_inj by blast
  qed
qed

lemma rb_layout_in_buffer: "rb_layout n v bs \<Longrightarrow> b \<in> set bs \<Longrightarrow> rb_region b \<subseteq> {0 ..< n}"
  by (induction bs arbitrary: v) (auto simp: rb_region_def)

lemma rb_inv_in_buffer: "rb_inv rb \<Longrightarrow> b \<in> set (rb_blocks rb) \<Longrightarrow> rb_region b \<subseteq> {0 ..< unat (rb_total rb)}"
  by (auto simp: rb_inv_def Let_def dest: rb_layout_in_buffer)

lemma rb_inv_disjoint:
  assumes "rb_inv rb" and "rb_blocks rb = xs @ [b]" and "c \<in> set xs"
  shows "rb_region b \<inter> rb_region c = {}"
proof -
  from assms(3) obtain ys zs where xs: "xs = ys @ c # zs" by (auto simp: in_set_conv_decomp)
  from assms(1) obtain v where "rb_layout (unat (rb_total rb)) v (rb_blocks rb)"
    and "rb_bytes (rb_blocks rb) \<le> unat (rb_total rb)" by (auto simp: rb_inv_def Let_def)
  with rb_layout_disjoint [of "unat (rb_total rb)" v ys c zs b "[]"] assms(2) xs
  show ?thesis by (simp add: Int_commute)
qed

lemma rb_inv_no_use:
  "rb_inv rb \<Longrightarrow> rb_blocks rb = [] \<or> rb_state (last (rb_blocks rb)) \<noteq> RB_IN_USE \<Longrightarrow>
   \<forall>b \<in> set (rb_blocks rb). rb_state b \<noteq> RB_IN_USE"
  by (cases "rb_blocks rb" rule: rev_cases) (auto simp: rb_inv_def Let_def)

lemma RingBuffer_Alloc_spec:
  assumes inv: "rb_inv rb" and alloc: "RingBuffer_Alloc wait sz rb h = Some (off, rb', h')"
  obtains old kept pad where "rb_blocks rb = old @ kept"
    and "rb_blocks rb' = kept @ pad @ [RB_make_Block (off - rb_base_offset rb) (max 1 sz) RB_IN_USE]"
    and "pad = [] \<or> (\<exists>p. pad = [p] \<and> rb_state p = PADDING)"
    and "rb_inv rb'" and "rb_total rb' = rb_total rb" and "rb_base_offset rb' = rb_base_offset rb"
proof -
  define s where "s = (if sz = 0 then 1 else sz)"
  have s: "s = max 1 sz" "0 < s" by (auto simp: s_def max_def word_le_nat_alt u32_pos word_neq_0_conv)
  from alloc obtain rb1 o1 where room: "rb_make_room wait s rb h = Some (rb1, h')"
    and place: "rb_place s rb1 = (o1, rb')" and off: "off = o1 + rb_base_offset rb'"
    and g: "rb_blocks rb = [] \<or> rb_state (last (rb_blocks rb)) \<noteq> RB_IN_USE"
    by (auto simp: RingBuffer_Alloc_place s_def [symmetric] split: if_splits Option.bind_splits prod.splits)
  from rb_make_room_spec [OF room inv] obtain old r where m: "rb_inv rb1" "rb_blocks rb = old @ rb_blocks rb1"
    "rb_total rb1 = rb_total rb" "rb_base_offset rb1 = rb_base_offset rb"
    "GetLargestFreeSizeNoWaiting rb1 = Some r" "s \<le> r" by blast
  have "\<forall>b \<in> set (rb_blocks rb1). rb_state b \<noteq> RB_IN_USE"
    using rb_inv_no_use [OF inv g] m(2) by simp
  from rb_place_spec [OF m(1) this m(5) s(2) m(6) place] m that off s(1) show thesis
    by (metis add_diff_cancel_right')
qed

lemma RingBuffer_Alloc_total:
  assumes "rb_inv rb" and "sz \<le> rb_total rb" and "\<forall>t h. wait t h \<noteq> None"
    and "rb_blocks rb = [] \<or> rb_state (last (rb_blocks rb)) \<noteq> RB_IN_USE"
  shows "RingBuffer_Alloc wait sz rb h \<noteq> None"
proof -
  have "1 \<le> rb_total rb" using assms(1) by (auto simp: rb_inv_def Let_def word_le_nat_alt)
  with assms(2) have "(if sz = 0 then 1 else sz) \<le> rb_total rb" by simp
  from rb_make_room_total [OF assms(1) rb_inv_no_use [OF assms(1,4)] this assms(3)]
  obtain rb1 h1 where "rb_make_room wait (if sz = 0 then 1 else sz) rb h = Some (rb1, h1)" by fastforce
  then show ?thesis unfolding RingBuffer_Alloc_place using assms(2,4) by (simp split: prod.splits)
qed

subsection \<open>Freeing\<close>

lemma rb_free_rev_spec:
  "rb_free_rev off t bs = Some bs' \<Longrightarrow>
   \<exists>xs b ys. bs = xs @ b # ys \<and> rb_offset b = off \<and> rb_state b = RB_IN_USE \<and>
     (\<forall>x \<in> set xs. rb_offset x \<noteq> off) \<and>
     bs' = xs @ b\<lparr>rb_token := t, rb_state := RB_FREE_PENDING_TOKEN\<rparr> # ys"
proof (induction off t bs arbitrary: bs' rule: rb_free_rev.induct)
  case (2 off t b bs)
  show ?case
  proof (cases "rb_offset b = off")
    case True
    with "2.prems" show ?thesis by (auto split: if_splits intro!: exI [of _ "[]"])
  next
    case False
    with "2.prems" obtain bs1 where "rb_free_rev off t bs = Some bs1" "bs' = b # bs1" by auto
    with "2.IH" [OF False] False show ?thesis by (metis append_Cons set_ConsD)
  qed
qed simp

lemma rb_inv_in_use_last:
  "rb_inv rb \<Longrightarrow> rb_blocks rb = xs @ b # ys \<Longrightarrow> rb_state b = RB_IN_USE \<Longrightarrow> ys = []"
  by (cases ys rule: rev_cases) (auto simp: rb_inv_def Let_def butlast_append)

text \<open>A free marks the block that is in use, which is the newest one, and nothing else.\<close>

lemma RingBuffer_FreePendingToken_spec:
  assumes inv: "rb_inv rb" and f: "RingBuffer_FreePendingToken off t rb = Some rb'"
  obtains xs b where "rb_blocks rb = xs @ [b]" and "rb_state b = RB_IN_USE"
    and "rb_offset b = off - rb_base_offset rb"
    and "rb' = rb\<lparr>rb_blocks := xs @ [b\<lparr>rb_token := t, rb_state := RB_FREE_PENDING_TOKEN\<rparr>]\<rparr>"
proof -
  from f obtain bs' where r: "rb_free_rev (off - rb_base_offset rb) t (rev (rb_blocks rb)) = Some bs'"
    and rb': "rb' = rb\<lparr>rb_blocks := rev bs'\<rparr>"
    by (auto simp: RingBuffer_FreePendingToken_def Let_def split: if_splits Option.bind_splits)
  from rb_free_rev_spec [OF r] obtain xs b ys where s: "rev (rb_blocks rb) = xs @ b # ys"
    "rb_offset b = off - rb_base_offset rb" "rb_state b = RB_IN_USE"
    "bs' = xs @ b\<lparr>rb_token := t, rb_state := RB_FREE_PENDING_TOKEN\<rparr> # ys" by blast
  from s(1) have bl: "rb_blocks rb = rev ys @ b # rev xs"
    by (metis append.assoc append_Cons append_Nil rev.simps(2) rev_append rev_rev_ident)
  from rb_inv_in_use_last [OF inv this s(3)] have "rev xs = []" .
  with that [of "rev ys" b] bl s rb' show thesis by simp
qed

lemma RingBuffer_FreePendingToken_inv:
  assumes inv: "rb_inv rb" and f: "RingBuffer_FreePendingToken off t rb = Some rb'"
  shows "rb_inv rb'"
proof -
  from RingBuffer_FreePendingToken_spec [OF inv f] obtain xs b where "rb_blocks rb = xs @ [b]"
    "rb' = rb\<lparr>rb_blocks := xs @ [b\<lparr>rb_token := t, rb_state := RB_FREE_PENDING_TOKEN\<rparr>]\<rparr>" by metis
  with inv show ?thesis by (auto simp: rb_inv_def Let_def rb_layout_append)
qed

lemma RingBuffer_FreePendingToken_newest:
  "rb_blocks rb = xs @ [b] \<Longrightarrow> rb_state b = RB_IN_USE \<Longrightarrow>
   RingBuffer_FreePendingToken (rb_offset b + rb_base_offset rb) t rb =
     Some (rb\<lparr>rb_blocks := xs @ [b\<lparr>rb_token := t, rb_state := RB_FREE_PENDING_TOKEN\<rparr>]\<rparr>)"
  by (simp add: RingBuffer_FreePendingToken_def)

lemma RingBuffer_destroy_spec:
  "RingBuffer_destroy wait rb h = Some (rb', h') \<Longrightarrow> rb_inv rb \<Longrightarrow>
   rb_blocks rb' = [] \<and> rb_inv rb' \<and> rb_free_offset rb' = 0 \<and> rb_in_use_offset rb' = 0"
proof (induction wait rb h arbitrary: rb' h' rule: RingBuffer_destroy.induct)
  case (1 wait rb h)
  note unfold = RingBuffer_destroy.simps [of wait rb h]
  show ?case
  proof (cases "rb_blocks rb = []")
    case True
    with "1.prems" show ?thesis
      by (auto simp: unfold rb_inv_def Let_def u32_zero)
  next
    case False
    with "1.prems"(1) obtain rb1 h1 where f: "FreeOldestBlock wait rb h = Some (rb1, h1)"
      and l: "RingBuffer_destroy wait rb1 h1 = Some (rb', h')"
      by (auto simp: unfold split: Option.bind_splits)
    from FreeOldestBlock_SomeE [OF "1.prems"(2) f] have "rb_inv rb1" by metis
    from "1.IH" [OF False f refl l this] show ?thesis .
  qed
qed

subsection \<open>Reachable states\<close>

inductive rb_reachable :: "(int \<Rightarrow> 'h \<Rightarrow> 'h option) \<Rightarrow> u32 \<Rightarrow> u32 \<Rightarrow> RingBuffer \<Rightarrow> 'h \<Rightarrow> bool"
  for wait base tot where
  init: "0 < tot \<Longrightarrow> unat tot \<le> 2147483648 \<Longrightarrow> rb_reachable wait base tot (new_RingBuffer base tot) h"
| alloc: "rb_reachable wait base tot rb h \<Longrightarrow> RingBuffer_Alloc wait sz rb h = Some (off, rb', h') \<Longrightarrow>
    rb_reachable wait base tot rb' h'"
| free_pending: "rb_reachable wait base tot rb h \<Longrightarrow> RingBuffer_FreePendingToken off t rb = Some rb' \<Longrightarrow>
    rb_reachable wait base tot rb' h"
| helper: "rb_reachable wait base tot rb h \<Longrightarrow> rb_reachable wait base tot rb h'"

lemma RingBuffer_Alloc_inv: "rb_inv rb \<Longrightarrow> RingBuffer_Alloc wait sz rb h = Some (off, rb', h') \<Longrightarrow> rb_inv rb'"
  by (erule RingBuffer_Alloc_spec)

lemmas rb_op_invs [inv_intros] =
  new_RingBuffer_inv RingBuffer_Alloc_inv RingBuffer_FreePendingToken_inv

lemma rb_reachable_inv: "rb_reachable wait base tot rb h \<Longrightarrow> rb_inv rb"
  by (induction rule: rb_reachable.induct) (blast intro: inv_intros)+

lemma rb_reachable_size:
  "rb_reachable wait base tot rb h \<Longrightarrow> rb_total rb = tot \<and> rb_base_offset rb = base"
proof (induction rule: rb_reachable.induct)
  case (alloc rb h sz off rb' h')
  from RingBuffer_Alloc_spec [OF rb_reachable_inv [OF alloc(1)] alloc(2)] alloc(3)
  show ?case by metis
next
  case (free_pending rb h off t rb')
  from RingBuffer_FreePendingToken_spec [OF rb_reachable_inv [OF free_pending(1)] free_pending(2)]
    free_pending(3) show ?case by (metis RingBuffer.select_convs RingBuffer.update_convs(1) RingBuffer.surjective)
qed (simp_all add: new_RingBuffer_def)

subsection \<open>The fencing contract\<close>

definition rb_fenced :: "(int \<Rightarrow> bool) \<Rightarrow> RingBuffer \<Rightarrow> RingBuffer \<Rightarrow> bool" where
  "rb_fenced Q rb rb' \<longleftrightarrow>
     (\<forall>p \<in> set (rb_blocks rb). rb_state p = RB_FREE_PENDING_TOKEN \<longrightarrow>
        p \<in> set (rb_blocks rb') \<or> Q (sint (rb_token p)))"

lemma rb_make_room_fenced:
  "rb_make_room wait sz rb h = Some (rb', h') \<Longrightarrow> rb_inv rb \<Longrightarrow>
   \<forall>t h h'. I h \<longrightarrow> wait t h = Some h' \<longrightarrow> I h' \<and> passed t h' \<Longrightarrow>
   \<forall>t t' h h'. I h \<longrightarrow> passed t h \<longrightarrow> wait t' h = Some h' \<longrightarrow> passed t h' \<Longrightarrow> I h \<Longrightarrow>
   rb_fenced (\<lambda>t. passed t h') rb rb' \<and> (\<forall>t. passed t h \<longrightarrow> passed t h')"
proof (induction wait sz rb h arbitrary: rb' h' rule: rb_make_room.induct)
  case (1 wait sz rb h)
  note unfold = rb_make_room.simps [of wait sz rb h]
  from GetLargestFreeSizeNoWaiting_total [OF "1.prems"(2)]
  obtain room where room: "GetLargestFreeSizeNoWaiting rb = Some room" by blast
  show ?case
  proof (cases "sz > room")
    case False
    with "1.prems"(1) room show ?thesis by (simp add: unfold rb_fenced_def)
  next
    case True
    with "1.prems"(1) room obtain rb1 h1 where f: "FreeOldestBlock wait rb h = Some (rb1, h1)"
      and l: "rb_make_room wait sz rb1 h1 = Some (rb', h')"
      by (auto simp: unfold split: Option.bind_splits)
    from FreeOldestBlock_SomeE [OF "1.prems"(2) f]
    obtain b where b: "rb_blocks rb = b # rb_blocks rb1" "rb_inv rb1"
      "rb_state b = RB_FREE_PENDING_TOKEN \<Longrightarrow> wait (sint (rb_token b)) h = Some h1"
      "rb_state b \<noteq> RB_FREE_PENDING_TOKEN \<Longrightarrow> h1 = h" by metis
    have mono: "\<forall>t. passed t h \<longrightarrow> passed t h1" using b(3,4) "1.prems"(4,5) by blast
    have pb: "rb_state b = RB_FREE_PENDING_TOKEN \<Longrightarrow> passed (sint (rb_token b)) h1"
      using b(3) "1.prems"(3,5) by blast
    have inv1: "I h1" using b(3,4) "1.prems"(3,5) by blast
    from "1.IH" [OF room True f refl l b(2) "1.prems"(3,4) inv1] b(1) mono pb
    show ?thesis by (auto simp: rb_fenced_def)
  qed
qed

context token_fence
begin

lemma RingBuffer_Alloc_fenced:
  assumes "rb_inv rb" and "RingBuffer_Alloc wait sz rb h = Some (off, rb', h')" and inv: "inv h"
  shows "rb_fenced (\<lambda>t. passed t h') rb rb'"
proof -
  from assms(2) obtain rb1 s o1 where room: "rb_make_room wait s rb h = Some (rb1, h')"
    and "rb_place s rb1 = (o1, rb')"
    unfolding RingBuffer_Alloc_place by (force split: if_splits Option.bind_splits prod.splits)
  then have blocks: "set (rb_blocks rb1) \<subseteq> set (rb_blocks rb')"
    by (auto simp: rb_place_def Let_def split: if_splits)
  have "rb_fenced (\<lambda>t. passed t h') rb rb1"
    using rb_make_room_fenced [OF room assms(1), of inv passed] wait_inv wait_passed wait_mono inv by blast
  with blocks show ?thesis by (auto simp: rb_fenced_def)
qed

end

subsection \<open>The wrapper with pointers\<close>

text \<open>\<^verbatim>\<open>RingBufferWrapper\<close>; its \<^verbatim>\<open>base_\<close> is the address that corresponds to offset zero.\<close>

record RingBufferWrapper =
  rw_allocator :: RingBuffer
  rw_base :: ptr

definition new_RingBufferWrapper :: "u32 \<Rightarrow> u32 \<Rightarrow> ptr \<Rightarrow> RingBufferWrapper" where
  "new_RingBufferWrapper base_offset sz base =
     \<lparr>rw_allocator = new_RingBuffer base_offset sz, rw_base = base - base_offset\<rparr>"

definition rw_GetPointer :: "RingBufferWrapper \<Rightarrow> u32 \<Rightarrow> ptr" where
  "rw_GetPointer w offset = rw_base w + offset"

definition rw_GetOffset :: "RingBufferWrapper \<Rightarrow> ptr \<Rightarrow> u32" where
  "rw_GetOffset w p = p - rw_base w"

definition rw_Alloc ::
    "(int \<Rightarrow> 'h \<Rightarrow> 'h option) \<Rightarrow> u32 \<Rightarrow> RingBufferWrapper \<Rightarrow> 'h \<Rightarrow> (ptr \<times> RingBufferWrapper \<times> 'h) option" where
  "rw_Alloc wait sz w h = do {
     (offset, rb, h') \<leftarrow> RingBuffer_Alloc wait sz (rw_allocator w) h;
     let w' = w\<lparr>rw_allocator := rb\<rparr>;
     Some (rw_GetPointer w' offset, w', h')
   }"

definition rw_FreePendingToken :: "ptr \<Rightarrow> u32 \<Rightarrow> RingBufferWrapper \<Rightarrow> RingBufferWrapper option" where
  "rw_FreePendingToken p token w =
     (if p \<noteq> NULL
      then do {
        rb \<leftarrow> RingBuffer_FreePendingToken (rw_GetOffset w p) token (rw_allocator w);
        Some (w\<lparr>rw_allocator := rb\<rparr>)
      }
      else None)"

lemma rw_GetOffset_GetPointer [simp]: "rw_GetOffset w (rw_GetPointer w off) = off"
  by (simp add: rw_GetOffset_def rw_GetPointer_def)

lemma rw_alloc_free:
  assumes inv: "rb_inv (rw_allocator w)" and alloc: "rw_Alloc wait sz w h = Some (p, w', h')" and "p \<noteq> NULL"
  obtains xs b where "rb_blocks (rw_allocator w') = xs @ [b]" and "rb_state b = RB_IN_USE"
    and "rw_FreePendingToken p t w' = Some (w'\<lparr>rw_allocator := (rw_allocator w')
           \<lparr>rb_blocks := xs @ [b\<lparr>rb_token := t, rb_state := RB_FREE_PENDING_TOKEN\<rparr>]\<rparr>\<rparr>)"
proof -
  from alloc obtain off rb where a: "RingBuffer_Alloc wait sz (rw_allocator w) h = Some (off, rb, h')"
    and w': "w' = w\<lparr>rw_allocator := rb\<rparr>" and p: "p = rw_GetPointer w' off"
    by (auto simp: rw_Alloc_def Let_def split: Option.bind_splits)
  from RingBuffer_Alloc_spec [OF inv a] obtain xs where
    b: "rb_blocks rb = xs @ [RB_make_Block (off - rb_base_offset rb) (max 1 sz) RB_IN_USE]"
    by (metis append.assoc)
  from RingBuffer_FreePendingToken_newest [OF this, of t] that [of xs "RB_make_Block (off - rb_base_offset rb) (max 1 sz) RB_IN_USE"] b
  show thesis using assms(3) by (simp add: rw_FreePendingToken_def w' p RB_make_Block_def)
qed

end
