(* ===== verification/Id_Allocator.thy ===== *)
theory Id_Allocator
  imports Prelude
begin

text \<open>
  The allocators of resource ids, \<^verbatim>\<open>gpu/command_buffer/common/id_allocator.cc\<close>: \<^verbatim>\<open>IdAllocator\<close>, which
  reuses freed ids, and \<^verbatim>\<open>NonReusedIdAllocator\<close>, which does not. A \<^verbatim>\<open>std::set\<close> is the list of its
  elements in increasing order. The ids come from an untrusted client on the service side, so the
  \<^verbatim>\<open>GPU_DCHECK(id)\<close> of \<^verbatim>\<open>MarkAsUsed\<close> is not a guard of the model; that the allocator itself only
  marks ids other than zero is proved.

  The locale \<open>id_allocator_interface\<close> is \<^verbatim>\<open>IdAllocatorInterface\<close>: what its callers rely on. It is
  interpreted on both classes and on the virtual dispatch between them.
\<close>

subsection \<open>The allocator that reuses ids\<close>

record IdAllocator =
  used_ids :: "u32 list"
  free_ids :: "u32 list"

definition kInvalidResource :: u32 where
  "kInvalidResource = 0"

definition new_IdAllocator :: IdAllocator where
  "new_IdAllocator = \<lparr>used_ids = [], free_ids = []\<rparr>"

definition LastUsedId :: "IdAllocator \<Rightarrow> u32" where
  "LastUsedId a = (if used_ids a = [] then 0 else last (used_ids a))"

fun find_first_unused :: "u32 \<Rightarrow> u32 list \<Rightarrow> u32" where
  "find_first_unused rid [] = rid"
| "find_first_unused rid (x # xs) = (if x \<noteq> rid then rid else find_first_unused (rid + 1) xs)"

definition FindFirstUnusedId :: "IdAllocator \<Rightarrow> u32" where
  "FindFirstUnusedId a = find_first_unused 1 (used_ids a)"

definition MarkAsUsed :: "u32 \<Rightarrow> IdAllocator \<Rightarrow> bool \<times> IdAllocator" where
  "MarkAsUsed rid a =
     (rid \<notin> set (used_ids a),
      a\<lparr>free_ids := removeAll rid (free_ids a), used_ids := insort_insert rid (used_ids a)\<rparr>)"

definition AllocateID :: "IdAllocator \<Rightarrow> u32 \<times> IdAllocator" where
  "AllocateID a =
     (let rid = (case free_ids a of
                  i # _ \<Rightarrow> i
                | [] \<Rightarrow> let rid = LastUsedId a + 1
                        in if rid = 0 then FindFirstUnusedId a else rid)
      in (rid, snd (MarkAsUsed rid a)))"

definition AllocateIDAtOrAbove :: "u32 \<Rightarrow> IdAllocator \<Rightarrow> u32 \<times> IdAllocator" where
  "AllocateIDAtOrAbove desired_id a =
     (let rid = (case find (\<lambda>i. desired_id \<le> i) (free_ids a) of
                  Some i \<Rightarrow> i
                | None \<Rightarrow> if LastUsedId a < desired_id then desired_id
                          else let rid = LastUsedId a + 1
                               in if rid = 0 then FindFirstUnusedId a else rid)
      in (rid, snd (MarkAsUsed rid a)))"

definition FreeID :: "u32 \<Rightarrow> IdAllocator \<Rightarrow> IdAllocator" where
  "FreeID rid a =
     (if rid \<noteq> 0
      then a\<lparr>used_ids := removeAll rid (used_ids a), free_ids := insort_insert rid (free_ids a)\<rparr>
      else a)"

definition IdAllocator_InUse :: "u32 \<Rightarrow> IdAllocator \<Rightarrow> bool" where
  "IdAllocator_InUse rid a \<longleftrightarrow> rid = kInvalidResource \<or> rid \<in> set (used_ids a)"

subsection \<open>The allocator that does not reuse ids\<close>

record NonReusedIdAllocator =
  last_id :: u32

definition new_NonReusedIdAllocator :: NonReusedIdAllocator where
  "new_NonReusedIdAllocator = \<lparr>last_id = 0\<rparr>"

definition NonReused_AllocateID :: "NonReusedIdAllocator \<Rightarrow> u32 \<times> NonReusedIdAllocator" where
  "NonReused_AllocateID a = (last_id a + 1, a\<lparr>last_id := last_id a + 1\<rparr>)"

definition NonReused_AllocateIDAtOrAbove ::
    "u32 \<Rightarrow> NonReusedIdAllocator \<Rightarrow> u32 \<times> NonReusedIdAllocator" where
  "NonReused_AllocateIDAtOrAbove desired_id a =
     (let l = (if desired_id > last_id a then desired_id else last_id a)
      in (l + 1, a\<lparr>last_id := l + 1\<rparr>))"

definition NonReused_MarkAsUsed :: "u32 \<Rightarrow> NonReusedIdAllocator \<Rightarrow> bool \<times> NonReusedIdAllocator" where
  "NonReused_MarkAsUsed rid a = (False, a)"

definition NonReused_FreeID :: "u32 \<Rightarrow> NonReusedIdAllocator \<Rightarrow> NonReusedIdAllocator" where
  "NonReused_FreeID rid a = a"

subsection \<open>Virtual dispatch\<close>

text \<open>A pointer to \<^verbatim>\<open>IdAllocatorInterface\<close> refers to an object of one of the two classes.\<close>

datatype id_object = Reusing IdAllocator | NonReusing NonReusedIdAllocator

fun ia_AllocateID :: "id_object \<Rightarrow> u32 \<times> id_object" where
  "ia_AllocateID (Reusing a) = map_prod id Reusing (AllocateID a)"
| "ia_AllocateID (NonReusing a) = map_prod id NonReusing (NonReused_AllocateID a)"

fun ia_AllocateIDAtOrAbove :: "u32 \<Rightarrow> id_object \<Rightarrow> u32 \<times> id_object" where
  "ia_AllocateIDAtOrAbove d (Reusing a) = map_prod id Reusing (AllocateIDAtOrAbove d a)"
| "ia_AllocateIDAtOrAbove d (NonReusing a) = map_prod id NonReusing (NonReused_AllocateIDAtOrAbove d a)"

fun ia_MarkAsUsed :: "u32 \<Rightarrow> id_object \<Rightarrow> bool \<times> id_object" where
  "ia_MarkAsUsed i (Reusing a) = map_prod id Reusing (MarkAsUsed i a)"
| "ia_MarkAsUsed i (NonReusing a) = map_prod id NonReusing (NonReused_MarkAsUsed i a)"

fun ia_FreeID :: "u32 \<Rightarrow> id_object \<Rightarrow> id_object" where
  "ia_FreeID i (Reusing a) = Reusing (FreeID i a)"
| "ia_FreeID i (NonReusing a) = NonReusing (NonReused_FreeID i a)"

subsection \<open>Loops over an allocator\<close>

text \<open>
  The two loops that \<^verbatim>\<open>NonSharedIdHandler::MakeIds\<close> and \<^verbatim>\<open>DoGenSharedIdsCHROMIUM\<close> run over an
  allocator: \<open>n\<close> times \<^verbatim>\<open>AllocateID\<close>, or \<open>n\<close> times \<^verbatim>\<open>AllocateIDAtOrAbove\<close> with an increasing offset.
\<close>

fun alloc_loop :: "('s \<Rightarrow> u32 \<times> 's) \<Rightarrow> nat \<Rightarrow> 's \<Rightarrow> u32 list \<times> 's" where
  "alloc_loop alloc 0 s = ([], s)"
| "alloc_loop alloc (Suc n) s =
     (let (rid, s1) = alloc s; (ids, s2) = alloc_loop alloc n s1 in (rid # ids, s2))"

fun alloc_at_loop :: "(u32 \<Rightarrow> 's \<Rightarrow> u32 \<times> 's) \<Rightarrow> u32 \<Rightarrow> nat \<Rightarrow> 's \<Rightarrow> u32 list \<times> 's" where
  "alloc_at_loop alloc_at id_offset 0 s = ([], s)"
| "alloc_at_loop alloc_at id_offset (Suc n) s =
     (let (rid, s1) = alloc_at id_offset s; (ids, s2) = alloc_at_loop alloc_at (rid + 1) n s1
      in (rid # ids, s2))"

subsection \<open>The interface\<close>

text \<open>
  An id other than zero that an allocator hands out was not live, is live afterwards, and no other
  id stops being live; \<^verbatim>\<open>FreeID\<close> ends the life of its argument only. (Zero is handed out only when
  all the ids are exhausted.)
\<close>

locale id_allocator_interface =
  fixes alloc :: "'s \<Rightarrow> u32 \<times> 's"
    and alloc_at :: "u32 \<Rightarrow> 's \<Rightarrow> u32 \<times> 's"
    and free :: "u32 \<Rightarrow> 's \<Rightarrow> 's"
    and inv :: "'s \<Rightarrow> bool"
    and live :: "'s \<Rightarrow> u32 set"
  assumes alloc_fresh:
      "inv s \<Longrightarrow> alloc s = (rid, s') \<Longrightarrow> rid \<noteq> 0 \<Longrightarrow> inv s' \<and> rid \<notin> live s \<and> insert rid (live s) \<subseteq> live s'"
    and alloc_at_fresh:
      "inv s \<Longrightarrow> alloc_at d s = (rid, s') \<Longrightarrow> rid \<noteq> 0 \<Longrightarrow> inv s' \<and> rid \<notin> live s \<and> insert rid (live s) \<subseteq> live s'"
    and free_live: "inv s \<Longrightarrow> inv (free rid s) \<and> live s - {rid} \<subseteq> live (free rid s)"
begin

lemma alloc_loop_fresh:
  "inv s \<Longrightarrow> alloc_loop alloc n s = (ids, s') \<Longrightarrow> 0 \<notin> set ids \<Longrightarrow>
   inv s' \<and> length ids = n \<and> distinct ids \<and> set ids \<inter> live s = {} \<and> set ids \<union> live s \<subseteq> live s'"
proof (induction n arbitrary: s ids)
  case (Suc n)
  from Suc.prems(2) obtain rid s1 ids1 where a: "alloc s = (rid, s1)"
    and l: "alloc_loop alloc n s1 = (ids1, s')" and ids: "ids = rid # ids1"
    by (auto simp: Let_def split: prod.splits)
  from alloc_fresh [OF Suc.prems(1) a] Suc.prems(3) ids
  have f: "inv s1" "rid \<notin> live s" "insert rid (live s) \<subseteq> live s1" by auto
  from Suc.IH [OF f(1) l] Suc.prems(3) ids f show ?case by auto
qed simp

lemma alloc_at_loop_fresh:
  "inv s \<Longrightarrow> alloc_at_loop alloc_at d n s = (ids, s') \<Longrightarrow> 0 \<notin> set ids \<Longrightarrow>
   inv s' \<and> length ids = n \<and> distinct ids \<and> set ids \<inter> live s = {} \<and> set ids \<union> live s \<subseteq> live s'"
proof (induction n arbitrary: s ids d)
  case (Suc n)
  from Suc.prems(2) obtain rid s1 ids1 where a: "alloc_at d s = (rid, s1)"
    and l: "alloc_at_loop alloc_at (rid + 1) n s1 = (ids1, s')" and ids: "ids = rid # ids1"
    by (auto simp: Let_def split: prod.splits)
  from alloc_at_fresh [OF Suc.prems(1) a] Suc.prems(3) ids
  have f: "inv s1" "rid \<notin> live s" "insert rid (live s) \<subseteq> live s1" by auto
  from Suc.IH [OF f(1) l] Suc.prems(3) ids f show ?case by auto
qed simp

lemma fold_free_live:
  "inv s \<Longrightarrow> inv (fold free ids s) \<and> live s - set ids \<subseteq> live (fold free ids s)"
proof (induction ids arbitrary: s)
  case (Cons i ids)
  from free_live [OF Cons.prems, of i] Cons.IH [of "free i s"] show ?case by auto
qed simp

end

subsection \<open>Correctness of the reusing allocator\<close>

definition ida_inv :: "IdAllocator \<Rightarrow> bool" where
  "ida_inv a \<longleftrightarrow> sorted (used_ids a) \<and> distinct (used_ids a) \<and> sorted (free_ids a) \<and>
     distinct (free_ids a) \<and> set (used_ids a) \<inter> set (free_ids a) = {} \<and>
     0 \<notin> set (used_ids a) \<and> 0 \<notin> set (free_ids a)"

lemma sorted_last_ge: "sorted (xs :: u32 list) \<Longrightarrow> x \<in> set xs \<Longrightarrow> x \<le> last xs"
  by (induction xs) auto

lemma LastUsedId_ge: "ida_inv a \<Longrightarrow> x \<in> set (used_ids a) \<Longrightarrow> x \<le> LastUsedId a"
  by (auto simp: LastUsedId_def ida_inv_def sorted_last_ge)

text \<open>The first gap of a sorted list of ids, when the ids do not run out.\<close>

lemma find_first_unused_spec:
  "sorted xs \<Longrightarrow> distinct xs \<Longrightarrow> \<forall>x \<in> set xs. rid \<le> x \<Longrightarrow> unat rid + length xs < 4294967296 \<Longrightarrow>
   find_first_unused rid xs \<notin> set xs \<and> rid \<le> find_first_unused rid xs \<and>
   (\<forall>j. rid \<le> j \<longrightarrow> j < find_first_unused rid xs \<longrightarrow> j \<in> set xs)"
proof (induction rid xs rule: find_first_unused.induct)
  case (2 rid x xs)
  show ?case
  proof (cases "x = rid")
    case False
    with "2.prems" have "rid < x" by (simp add: order.strict_iff_order)
    with "2.prems" False show ?thesis by auto
  next
    case True
    have lt: "unat rid + 1 < 4294967296" using "2.prems"(4) by simp
    have id1: "unat (rid + 1) = unat rid + 1" using lt by (simp add: u32_add)
    have ge: "\<forall>y \<in> set xs. rid + 1 \<le> y"
    proof
      fix y assume "y \<in> set xs"
      with "2.prems" True have "rid \<le> y" "y \<noteq> rid" by auto
      then show "rid + 1 \<le> y" using id1 by (auto simp: word_le_nat_alt u32_eq [of y rid])
    qed
    note ih = "2.IH" [OF _ _ _ ge] 
    have s: "find_first_unused (rid + 1) xs \<notin> set xs" "rid + 1 \<le> find_first_unused (rid + 1) xs"
      "\<forall>j. rid + 1 \<le> j \<longrightarrow> j < find_first_unused (rid + 1) xs \<longrightarrow> j \<in> set xs"
      using ih True "2.prems" id1 by auto
    have "j = rid \<or> rid + 1 \<le> j" if "rid \<le> j" for j
      using that id1 by (auto simp: word_le_nat_alt u32_eq [of j rid])
    with s True id1 show ?thesis by (auto simp: word_le_nat_alt)
  qed
qed auto

lemma FindFirstUnusedId_fresh:
  assumes "ida_inv a" and "length (used_ids a) < 4294967295"
  shows "FindFirstUnusedId a \<noteq> 0" and "FindFirstUnusedId a \<notin> set (used_ids a)"
    and "0 < j \<Longrightarrow> j < FindFirstUnusedId a \<Longrightarrow> j \<in> set (used_ids a)"
proof -
  have "\<forall>x \<in> set (used_ids a). 1 \<le> x"
    using assms(1) by (auto simp: ida_inv_def u32_ge_1)
  with find_first_unused_spec [of "used_ids a" 1] assms
  have s: "FindFirstUnusedId a \<notin> set (used_ids a) \<and> 1 \<le> FindFirstUnusedId a \<and>
      (\<forall>j. 1 \<le> j \<longrightarrow> j < FindFirstUnusedId a \<longrightarrow> j \<in> set (used_ids a))"
    by (simp add: ida_inv_def FindFirstUnusedId_def)
  then show "FindFirstUnusedId a \<noteq> 0" and "FindFirstUnusedId a \<notin> set (used_ids a)" by auto
  assume "0 < j" "j < FindFirstUnusedId a"
  moreover from \<open>0 < j\<close> have "1 \<le> j" by (simp add: u32_ge_1 word_neq_0_conv)
  ultimately show "j \<in> set (used_ids a)" using s by blast
qed

lemma MarkAsUsed_inv:
  "ida_inv a \<Longrightarrow> rid \<noteq> 0 \<Longrightarrow> MarkAsUsed rid a = (b, a') \<Longrightarrow>
   ida_inv a' \<and> set (used_ids a') = insert rid (set (used_ids a)) \<and> b = (rid \<notin> set (used_ids a)) \<and>
   set (free_ids a') = set (free_ids a) - {rid}"
  by (auto simp: ida_inv_def MarkAsUsed_def set_insort_insert sorted_insort_insert distinct_insort_insert
      sorted_wrt_filter removeAll_filter_not_eq)

lemma FreeID_inv:
  "ida_inv a \<Longrightarrow> ida_inv (FreeID rid a) \<and>
   set (used_ids (FreeID rid a)) = (if rid = 0 then set (used_ids a) else set (used_ids a) - {rid})"
  by (auto simp: ida_inv_def FreeID_def set_insort_insert sorted_insort_insert distinct_insort_insert
      sorted_wrt_filter removeAll_filter_not_eq)

text \<open>The id after the highest one in use, or the first gap when that wraps around to zero.\<close>

lemma next_id_fresh:
  assumes inv: "ida_inv a" and "length (used_ids a) < 4294967295"
    and "i = (let rid = LastUsedId a + 1 in if rid = 0 then FindFirstUnusedId a else rid)"
  shows "i \<noteq> 0" and "i \<notin> set (used_ids a)" and "LastUsedId a < i \<or> LastUsedId a = 0xffffffff"
proof -
  note f = FindFirstUnusedId_fresh [OF assms(1,2)]
  have gt: "LastUsedId a < LastUsedId a + 1" if "LastUsedId a + 1 \<noteq> 0"
    using u32_Suc [OF that] by (simp add: word_less_nat_alt)
  show "i \<noteq> 0" using assms(3) f(1) by (auto simp: Let_def)
  show "i \<notin> set (used_ids a)"
    using assms(3) f(2) gt LastUsedId_ge [OF inv, of i] by (auto simp: Let_def split: if_splits)
  have "LastUsedId a = - 1" if "LastUsedId a + 1 = 0" using that by (simp add: eq_neg_iff_add_eq_0)
  then show "LastUsedId a < i \<or> LastUsedId a = 0xffffffff"
    using assms(3) gt by (auto simp: Let_def split: if_splits)
qed

lemma AllocateID_spec:
  assumes inv: "ida_inv a" and len: "length (used_ids a) < 4294967295" and al: "AllocateID a = (i, a')"
  shows "i \<noteq> 0" and "i \<notin> set (used_ids a)" and "ida_inv a'"
    and "set (used_ids a') = insert i (set (used_ids a))" and "set (free_ids a') = set (free_ids a) - {i}"
proof -
  have "i \<noteq> 0 \<and> i \<notin> set (used_ids a)"
  proof (cases "free_ids a")
    case Nil
    with next_id_fresh [OF inv len, of i] al show ?thesis by (simp add: AllocateID_def Let_def)
  next
    case (Cons f fs)
    with inv al show ?thesis by (auto simp: AllocateID_def ida_inv_def)
  qed
  then show i: "i \<noteq> 0" and "i \<notin> set (used_ids a)" by auto
  from al have "MarkAsUsed i a = (fst (MarkAsUsed i a), a')" by (auto simp: AllocateID_def Let_def)
  from MarkAsUsed_inv [OF inv i this] show "ida_inv a'"
    and "set (used_ids a') = insert i (set (used_ids a))" and "set (free_ids a') = set (free_ids a) - {i}"
    by auto
qed

lemma AllocateIDAtOrAbove_spec:
  assumes inv: "ida_inv a" and len: "length (used_ids a) < 4294967295"
    and al: "AllocateIDAtOrAbove d a = (i, a')"
  shows "i \<noteq> 0" and "i \<notin> set (used_ids a)" and "ida_inv a'"
    and "set (used_ids a') = insert i (set (used_ids a))" and "set (free_ids a') = set (free_ids a) - {i}"
    and "d \<le> i \<or> LastUsedId a = 0xffffffff"
proof -
  have c: "i \<noteq> 0 \<and> i \<notin> set (used_ids a) \<and> (d \<le> i \<or> LastUsedId a = 0xffffffff)"
  proof (cases "find (\<lambda>i. d \<le> i) (free_ids a)")
    case None
    note n = next_id_fresh [OF inv len, of i]
    show ?thesis
    proof (cases "LastUsedId a < d")
      case True
      with None al have "i = d" by (simp add: AllocateIDAtOrAbove_def Let_def)
      with True LastUsedId_ge [OF inv, of d] show ?thesis by auto
    next
      case False
      with None al n show ?thesis by (auto simp: AllocateIDAtOrAbove_def Let_def)
    qed
  next
    case (Some f)
    with al have "i = f" by (simp add: AllocateIDAtOrAbove_def)
    moreover from Some have "f \<in> set (free_ids a)" "d \<le> f"
      unfolding find_Some_iff by (auto dest: nth_mem)
    ultimately show ?thesis using inv by (auto simp: ida_inv_def)
  qed
  then show i: "i \<noteq> 0" and "i \<notin> set (used_ids a)" and "d \<le> i \<or> LastUsedId a = 0xffffffff" by auto
  from al have "MarkAsUsed i a = (fst (MarkAsUsed i a), a')" by (auto simp: AllocateIDAtOrAbove_def Let_def)
  from MarkAsUsed_inv [OF inv i this] show "ida_inv a'"
    and "set (used_ids a') = insert i (set (used_ids a))" and "set (free_ids a') = set (free_ids a) - {i}"
    by auto
qed

text \<open>When every id is in use, the id that is handed out is zero.\<close>

lemma exhausted_first_unused:
  assumes "ida_inv a" and "\<not> length (used_ids a) < 4294967295"
  shows "set (used_ids a) = - {0}" and "LastUsedId a + 1 = 0" and "free_ids a = []"
proof -
  have d: "card (set (used_ids a)) = length (used_ids a)" using assms(1) by (simp add: ida_inv_def distinct_card)
  have sub: "set (used_ids a) \<subseteq> - {0}" using assms(1) by (auto simp: ida_inv_def)
  have c: "card (- {0 :: u32}) = 4294967295" by (simp add: Compl_eq_Diff_UNIV card_Diff_singleton card_word)
  from card_mono [OF _ sub] c d assms(2) have "card (set (used_ids a)) = card (- {0 :: u32})" by simp
  from card_subset_eq [OF _ sub this] show all: "set (used_ids a) = - {0}" by simp
  then have "(- 1 :: u32) \<le> LastUsedId a" by (intro LastUsedId_ge [OF assms(1)]) simp
  then have "LastUsedId a = - 1" by (simp add: word_order.extremum_uniqueI)
  then show "LastUsedId a + 1 = 0" by simp
  show "free_ids a = []" using assms(1) all by (cases "free_ids a") (auto simp: ida_inv_def)
qed

lemma ids_length_bound:
  assumes "distinct xs" and "\<forall>x \<in> set xs. i \<le> (x :: u32)"
  shows "unat i + length xs \<le> 4294967296"
proof -
  have "distinct (map unat xs)" using assms(1) by (simp add: distinct_map inj_on_def word_unat_eq_iff)
  moreover have "set (map unat xs) \<subseteq> {unat i ..< 4294967296}"
    using assms(2) u32_lt by (auto simp: word_le_nat_alt)
  ultimately have "length xs \<le> 4294967296 - unat i"
    using card_mono [of "{unat i ..< 4294967296}" "set (map unat xs)"] by (metis card_atLeastLessThan distinct_card finite_atLeastLessThan length_map)
  with u32_lt [of i] show ?thesis by linarith
qed

lemma find_first_unused_wraps:
  "sorted xs \<Longrightarrow> distinct xs \<Longrightarrow> \<forall>x \<in> set xs. i \<le> x \<Longrightarrow> unat i + length xs = 4294967296 \<Longrightarrow>
   find_first_unused i xs = 0"
proof (induction i xs rule: find_first_unused.induct)
  case (1 i)
  with u32_lt [of i] show ?case by simp
next
  case (2 i x xs)
  have "unat x + length (x # xs) \<le> 4294967296"
    using "2.prems"(1,2) by (intro ids_length_bound) auto
  moreover have "i \<le> x" using "2.prems"(3) by simp
  ultimately have x: "x = i" using "2.prems"(4) by (simp add: u32_eq [of x i] word_le_nat_alt)
  show ?case
  proof (cases "i + 1 = 0")
    case True
    then have "unat i = 4294967295"
      using u32_add [of i 1] u32_lt [of i] by (cases "unat i + 1 < 4294967296") auto
    with "2.prems"(4) have "xs = []" by simp
    with x True show ?thesis by simp
  next
    case False
    note i1 = u32_Suc [OF False]
    have "\<forall>y \<in> set xs. i + 1 \<le> y"
    proof
      fix y assume "y \<in> set xs"
      with "2.prems" x have "i \<le> y" "y \<noteq> i" by auto
      then show "i + 1 \<le> y" using i1 by (auto simp: word_le_nat_alt u32_eq [of y i])
    qed
    with "2.IH" x "2.prems" i1 show ?thesis by simp
  qed
qed

lemma exhausted_allocates_zero:
  assumes "ida_inv a" and "\<not> length (used_ids a) < 4294967295"
  shows "fst (AllocateID a) = 0" and "fst (AllocateIDAtOrAbove d a) = 0"
proof -
  note e = exhausted_first_unused [OF assms]
  have ge: "\<forall>x \<in> set (used_ids a). 1 \<le> x" using assms(1) by (auto simp: ida_inv_def u32_ge_1)
  have "FindFirstUnusedId a = 0"
    unfolding FindFirstUnusedId_def
    by (rule find_first_unused_wraps) (use assms ge ids_length_bound [OF _ ge] in \<open>auto simp: ida_inv_def\<close>)
  moreover have "\<not> LastUsedId a < d" using e(2) by (simp add: eq_neg_iff_add_eq_0 [symmetric])
  ultimately show "fst (AllocateID a) = 0" and "fst (AllocateIDAtOrAbove d a) = 0"
    using e by (simp_all add: AllocateID_def AllocateIDAtOrAbove_def Let_def)
qed

subsection \<open>The interface holds for both classes and for the dispatch\<close>

definition id_live :: "IdAllocator \<Rightarrow> u32 set" where
  "id_live a = set (used_ids a)"

definition nr_live :: "NonReusedIdAllocator \<Rightarrow> u32 set" where
  "nr_live a = {i. 0 < i \<and> i \<le> last_id a}"

lemma AllocateID_law:
  assumes "ida_inv a" and "AllocateID a = (i, a')" and "i \<noteq> 0"
  shows "ida_inv a' \<and> i \<notin> id_live a \<and> insert i (id_live a) \<subseteq> id_live a'"
proof -
  from assms(2,3) exhausted_allocates_zero(1) [OF assms(1)] have "length (used_ids a) < 4294967295" by force
  from AllocateID_spec [OF assms(1) this assms(2)] show ?thesis by (simp add: id_live_def)
qed

lemma AllocateIDAtOrAbove_law:
  assumes "ida_inv a" and "AllocateIDAtOrAbove d a = (i, a')" and "i \<noteq> 0"
  shows "ida_inv a' \<and> i \<notin> id_live a \<and> insert i (id_live a) \<subseteq> id_live a'"
proof -
  from assms(2,3) exhausted_allocates_zero(2) [OF assms(1), of d] have "length (used_ids a) < 4294967295" by force
  from AllocateIDAtOrAbove_spec [OF assms(1) this assms(2)] show ?thesis by (simp add: id_live_def)
qed

lemma FreeID_law: "ida_inv a \<Longrightarrow> ida_inv (FreeID i a) \<and> id_live a - {i} \<subseteq> id_live (FreeID i a)"
  using FreeID_inv [of a i] by (auto simp: id_live_def split: if_splits)

lemma NonReused_law:
  assumes "last_id a \<le> l" and "i = l + 1" and "i \<noteq> 0"
  shows "i \<notin> nr_live a \<and> insert i (nr_live a) \<subseteq> nr_live (a\<lparr>last_id := i\<rparr>)"
  using assms u32_Suc [of l] by (auto simp: nr_live_def u32_arith)

interpretation reusing: id_allocator_interface AllocateID AllocateIDAtOrAbove FreeID ida_inv id_live
  by unfold_locales (use AllocateID_law AllocateIDAtOrAbove_law FreeID_law in blast)+

interpretation non_reusing: id_allocator_interface
  NonReused_AllocateID NonReused_AllocateIDAtOrAbove NonReused_FreeID "\<lambda>_. True" nr_live
proof unfold_locales
  fix s s' i
  assume "NonReused_AllocateID s = (i, s')" and "i \<noteq> 0"
  with NonReused_law [of s "last_id s" i] show "True \<and> i \<notin> nr_live s \<and> insert i (nr_live s) \<subseteq> nr_live s'"
    by (auto simp: NonReused_AllocateID_def)
next
  fix s s' d i
  assume "NonReused_AllocateIDAtOrAbove d s = (i, s')" and "i \<noteq> 0"
  moreover from this have "i = (if last_id s < d then d else last_id s) + 1" and "s' = s\<lparr>last_id := i\<rparr>"
    by (auto simp: NonReused_AllocateIDAtOrAbove_def Let_def)
  moreover have "last_id s \<le> (if last_id s < d then d else last_id s)" by auto
  ultimately show "True \<and> i \<notin> nr_live s \<and> insert i (nr_live s) \<subseteq> nr_live s'"
    using NonReused_law [of s "if last_id s < d then d else last_id s" i] by metis
qed (simp add: NonReused_FreeID_def)

fun obj_inv :: "id_object \<Rightarrow> bool" where
  "obj_inv (Reusing a) = ida_inv a"
| "obj_inv (NonReusing a) = True"

fun obj_live :: "id_object \<Rightarrow> u32 set" where
  "obj_live (Reusing a) = id_live a"
| "obj_live (NonReusing a) = nr_live a"

interpretation id_obj: id_allocator_interface
  ia_AllocateID ia_AllocateIDAtOrAbove ia_FreeID obj_inv obj_live
proof unfold_locales
  fix s s' i
  assume a: "obj_inv s" "ia_AllocateID s = (i, s')" "i \<noteq> 0"
  show "obj_inv s' \<and> i \<notin> obj_live s \<and> insert i (obj_live s) \<subseteq> obj_live s'"
  proof (cases s)
    case (Reusing x)
    with a(2) obtain x' where "AllocateID x = (i, x')" "s' = Reusing x'"
      by (auto simp: map_prod_def split: prod.splits)
    with Reusing a reusing.alloc_fresh [of x i x'] show ?thesis by simp
  next
    case (NonReusing x)
    with a(2) obtain x' where "NonReused_AllocateID x = (i, x')" "s' = NonReusing x'"
      by (auto simp: map_prod_def split: prod.splits)
    with NonReusing a non_reusing.alloc_fresh [of x i x'] show ?thesis by simp
  qed
next
  fix s s' d i
  assume a: "obj_inv s" "ia_AllocateIDAtOrAbove d s = (i, s')" "i \<noteq> 0"
  show "obj_inv s' \<and> i \<notin> obj_live s \<and> insert i (obj_live s) \<subseteq> obj_live s'"
  proof (cases s)
    case (Reusing x)
    with a(2) obtain x' where "AllocateIDAtOrAbove d x = (i, x')" "s' = Reusing x'"
      by (auto simp: map_prod_def split: prod.splits)
    with Reusing a reusing.alloc_at_fresh [of x d i x'] show ?thesis by simp
  next
    case (NonReusing x)
    with a(2) obtain x' where "NonReused_AllocateIDAtOrAbove d x = (i, x')" "s' = NonReusing x'"
      by (auto simp: map_prod_def split: prod.splits)
    with NonReusing a non_reusing.alloc_at_fresh [of d x i x'] show ?thesis by simp
  qed
next
  fix s i
  assume "obj_inv s"
  then show "obj_inv (ia_FreeID i s) \<and> obj_live s - {i} \<subseteq> obj_live (ia_FreeID i s)"
    using reusing.free_live non_reusing.free_live by (cases s) auto
qed

end
