(* ===== verification/Shared_Ids.thy ===== *)
theory Shared_Ids
  imports Id_Allocator
begin

text \<open>
  Resource ids across the client/service boundary. Service side: the id namespaces of
  \<^verbatim>\<open>service/context_group.cc\<close> and the three operations of \<^verbatim>\<open>service/gles2_cmd_decoder.cc\<close> on them
  (\<^verbatim>\<open>DoGenSharedIdsCHROMIUM\<close>, \<^verbatim>\<open>DoDeleteSharedIdsCHROMIUM\<close>, \<^verbatim>\<open>DoRegisterSharedIdsCHROMIUM\<close>), where
  \<^const>\<open>None\<close> is the dereference of a null allocator. Client side: the id handlers of
  \<^verbatim>\<open>client/gles2_implementation.cc\<close>; what \<^verbatim>\<open>StrictSharedIdHandler\<close> asks the service for is the
  parameter \<open>gen\<close>.
\<close>

subsection \<open>The namespaces of a context group\<close>

type_synonym id_namespaces = "id_object list"

definition new_id_namespaces :: id_namespaces where
  "new_id_namespaces =
     [Reusing new_IdAllocator, Reusing new_IdAllocator, NonReusing new_NonReusedIdAllocator,
      Reusing new_IdAllocator, Reusing new_IdAllocator]"

definition GetIdAllocator :: "u32 \<Rightarrow> id_namespaces \<Rightarrow> id_object option" where
  "GetIdAllocator namespace_id g =
     (if unat namespace_id \<ge> length g then None else Some (g ! unat namespace_id))"

definition DoGenSharedIdsCHROMIUM ::
    "u32 \<Rightarrow> u32 \<Rightarrow> int \<Rightarrow> id_namespaces \<Rightarrow> (u32 list \<times> id_namespaces) option" where
  "DoGenSharedIdsCHROMIUM namespace_id id_offset n g =
     (if n \<le> 0 then Some ([], g)
      else do {
        a \<leftarrow> GetIdAllocator namespace_id g;
        let (ids, a') = (if id_offset = 0 then alloc_loop ia_AllocateID (nat n) a
                         else alloc_at_loop ia_AllocateIDAtOrAbove id_offset (nat n) a);
        Some (ids, g[unat namespace_id := a'])
      })"

definition DoDeleteSharedIdsCHROMIUM :: "u32 \<Rightarrow> u32 list \<Rightarrow> id_namespaces \<Rightarrow> id_namespaces option" where
  "DoDeleteSharedIdsCHROMIUM namespace_id ids g =
     (if ids = [] then Some g
      else do {
        a \<leftarrow> GetIdAllocator namespace_id g;
        Some (g[unat namespace_id := fold ia_FreeID ids a])
      })"

text \<open>The loop over the ids that are still to be registered, with those already registered.\<close>

fun register_loop :: "u32 list \<Rightarrow> u32 list \<Rightarrow> id_object \<Rightarrow> bool \<times> id_object" where
  "register_loop registered [] a = (True, a)"
| "register_loop registered (i # ids) a =
     (let (fresh, a') = ia_MarkAsUsed i a
      in if \<not> fresh then (False, fold ia_FreeID registered a')
         else register_loop (registered @ [i]) ids a')"

text \<open>The boolean is false when the command raises \<^verbatim>\<open>GL_INVALID_VALUE\<close>.\<close>

definition DoRegisterSharedIdsCHROMIUM ::
    "u32 \<Rightarrow> u32 list \<Rightarrow> id_namespaces \<Rightarrow> (bool \<times> id_namespaces) option" where
  "DoRegisterSharedIdsCHROMIUM namespace_id ids g =
     (if ids = [] then Some (True, g)
      else do {
        a \<leftarrow> GetIdAllocator namespace_id g;
        let (ok, a') = register_loop [] ids a;
        Some (ok, g[unat namespace_id := a'])
      })"

subsection \<open>Client-side handlers\<close>

definition NonShared_MakeIds :: "u32 \<Rightarrow> int \<Rightarrow> IdAllocator \<Rightarrow> u32 list \<times> IdAllocator" where
  "NonShared_MakeIds id_offset n a =
     (if id_offset = 0 then alloc_loop AllocateID (nat n) a
      else alloc_at_loop AllocateIDAtOrAbove id_offset (nat n) a)"

definition NonShared_FreeIds :: "u32 list \<Rightarrow> IdAllocator \<Rightarrow> bool \<times> IdAllocator" where
  "NonShared_FreeIds ids a = (True, fold FreeID ids a)"

definition NonShared_MarkAsUsedForBind :: "u32 \<Rightarrow> IdAllocator \<Rightarrow> bool \<times> IdAllocator" where
  "NonShared_MarkAsUsedForBind i a = (if i = 0 then (True, a) else MarkAsUsed i a)"

fun NonSharedNonReused_MakeIds :: "u32 \<Rightarrow> nat \<Rightarrow> u32 \<Rightarrow> u32 list \<times> u32" where
  "NonSharedNonReused_MakeIds id_offset 0 l = ([], l)"
| "NonSharedNonReused_MakeIds id_offset (Suc n) l =
     (let (ids, l') = NonSharedNonReused_MakeIds id_offset n (l + 1)
      in ((l + 1 + id_offset) # ids, l'))"

record StrictSharedIdHandler =
  sh_used :: "u32 list"
  sh_free :: "u32 list"

definition kNumIdsToGet :: int where
  "kNumIdsToGet = 2048"

definition Strict_GetId ::
    "(u32 \<Rightarrow> int \<Rightarrow> 'w \<Rightarrow> (u32 list \<times> 'w) option) \<Rightarrow> u32 \<Rightarrow> StrictSharedIdHandler \<Rightarrow> 'w \<Rightarrow>
     (u32 \<times> StrictSharedIdHandler \<times> 'w) option" where
  "Strict_GetId gen id_offset s w = do {
     (queue, w') \<leftarrow> (if sh_free s = [] then gen id_offset kNumIdsToGet w else Some (sh_free s, w));
     case queue of
       [] \<Rightarrow> None
     | i # rest \<Rightarrow> Some (i, s\<lparr>sh_free := rest, sh_used := insort_insert i (sh_used s)\<rparr>, w')
   }"

fun Strict_MakeIds ::
    "(u32 \<Rightarrow> int \<Rightarrow> 'w \<Rightarrow> (u32 list \<times> 'w) option) \<Rightarrow> u32 \<Rightarrow> nat \<Rightarrow> StrictSharedIdHandler \<Rightarrow> 'w \<Rightarrow>
     (u32 list \<times> StrictSharedIdHandler \<times> 'w) option" where
  "Strict_MakeIds gen id_offset 0 s w = Some ([], s, w)"
| "Strict_MakeIds gen id_offset (Suc n) s w = do {
     (i, s1, w1) \<leftarrow> Strict_GetId gen id_offset s w;
     (ids, s2, w2) \<leftarrow> Strict_MakeIds gen id_offset n s1 w1;
     Some (i # ids, s2, w2)
   }"

fun Strict_free_loop :: "u32 list \<Rightarrow> StrictSharedIdHandler \<Rightarrow> StrictSharedIdHandler" where
  "Strict_free_loop [] s = s"
| "Strict_free_loop (i # ids) s =
     Strict_free_loop ids
       (if i \<noteq> 0 \<and> i \<in> set (sh_used s)
        then s\<lparr>sh_used := removeAll i (sh_used s), sh_free := sh_free s @ [i]\<rparr>
        else s)"

definition Strict_FreeIds :: "u32 list \<Rightarrow> StrictSharedIdHandler \<Rightarrow> bool \<times> StrictSharedIdHandler" where
  "Strict_FreeIds ids s =
     (if \<exists>i \<in> set ids. i \<noteq> 0 \<and> i \<notin> set (sh_used s) then (False, s)
      else (True, Strict_free_loop ids s))"

definition Strict_FreeId :: "u32 \<Rightarrow> StrictSharedIdHandler \<Rightarrow> bool \<times> StrictSharedIdHandler" where
  "Strict_FreeId i s =
     (if i \<notin> set (sh_used s) then (False, s)
      else (True, s\<lparr>sh_used := removeAll i (sh_used s), sh_free := sh_free s @ [i]\<rparr>))"

text \<open>\<^verbatim>\<open>Destroy\<close>: the batches of free ids handed back to the service.\<close>

function Strict_Destroy_batches :: "u32 list \<Rightarrow> u32 list list" where
  "Strict_Destroy_batches queue =
     (if queue \<noteq> []
      then take (nat kNumIdsToGet) queue # Strict_Destroy_batches (drop (nat kNumIdsToGet) queue)
      else [])"
  by pat_completeness auto
termination
  by (relation "measure length") (auto simp: kNumIdsToGet_def)

declare Strict_Destroy_batches.simps [simp del]

subsection \<open>The service side\<close>

definition ids_inv :: "id_namespaces \<Rightarrow> bool" where
  "ids_inv g \<longleftrightarrow> length g = 5 \<and> (\<forall>a \<in> set g. obj_inv a)"

definition ids_live :: "u32 \<Rightarrow> id_namespaces \<Rightarrow> u32 set" where
  "ids_live ns g = (if unat ns < length g then obj_live (g ! unat ns) else {})"

lemma new_id_namespaces_inv: "ids_inv new_id_namespaces"
  by (simp add: ids_inv_def new_id_namespaces_def new_IdAllocator_def ida_inv_def)

lemma GetIdAllocator_null: "ids_inv g \<Longrightarrow> GetIdAllocator ns g = None \<longleftrightarrow> 5 \<le> unat ns"
  by (simp add: GetIdAllocator_def ids_inv_def)

lemma DoGenSharedIds_fresh:
  assumes inv: "ids_inv g" and g: "DoGenSharedIdsCHROMIUM ns off n g = Some (ids, g')" and z: "0 \<notin> set ids"
  shows "ids_inv g'" and "length ids = nat n" and "distinct ids" and "set ids \<inter> ids_live ns g = {}"
    and "set ids \<union> ids_live ns g \<subseteq> ids_live ns g'"
    and "ns' \<noteq> ns \<Longrightarrow> ids_live ns' g' = ids_live ns' g"
proof -
  have "ids_inv g' \<and> length ids = nat n \<and> distinct ids \<and> set ids \<inter> ids_live ns g = {} \<and>
    set ids \<union> ids_live ns g \<subseteq> ids_live ns g' \<and> (ns' \<noteq> ns \<longrightarrow> ids_live ns' g' = ids_live ns' g)"
  proof (cases "n \<le> 0")
    case True
    with g inv show ?thesis by (simp add: DoGenSharedIdsCHROMIUM_def)
  next
    case False
    with g obtain a' where ns: "unat ns < length g" and g': "g' = g[unat ns := a']"
      and l: "(if off = 0 then alloc_loop ia_AllocateID (nat n) (g ! unat ns)
               else alloc_at_loop ia_AllocateIDAtOrAbove off (nat n) (g ! unat ns)) = (ids, a')"
      by (auto simp: DoGenSharedIdsCHROMIUM_def GetIdAllocator_def Let_def not_le split: prod.splits if_splits)
    have o: "obj_inv (g ! unat ns)" using inv ns by (simp add: ids_inv_def)
    from l id_obj.alloc_loop_fresh [OF o, of "nat n" ids a'] id_obj.alloc_at_loop_fresh [OF o, of off "nat n" ids a'] z
    have "obj_inv a' \<and> length ids = nat n \<and> distinct ids \<and> set ids \<inter> obj_live (g ! unat ns) = {} \<and>
        set ids \<union> obj_live (g ! unat ns) \<subseteq> obj_live a'" by (auto split: if_splits)
    moreover have "ns' \<noteq> ns \<longrightarrow> ids_live ns' g' = ids_live ns' g"
      using ns g' by (auto simp: ids_live_def nth_list_update u32_eq [of ns'])
    ultimately show ?thesis using inv ns g'
      by (auto simp: ids_inv_def ids_live_def dest: set_update_subset_insert [THEN subsetD])
  qed
  then show "ids_inv g'" and "length ids = nat n" and "distinct ids" and "set ids \<inter> ids_live ns g = {}"
    and "set ids \<union> ids_live ns g \<subseteq> ids_live ns g'" and "ns' \<noteq> ns \<Longrightarrow> ids_live ns' g' = ids_live ns' g" by simp_all
qed

text \<open>Registration is atomic: when it fails, the ids in use are those before.\<close>

lemma register_loop_reusing:
  assumes "ida_inv a" and "0 \<notin> set ids" and "0 \<notin> set reg" and "distinct reg"
    and "set (used_ids a) = U \<union> set reg" and "U \<inter> set reg = {}"
    and "register_loop reg ids (Reusing a) = (ok, b)"
  shows "\<exists>a'. b = Reusing a' \<and> ida_inv a' \<and>
    (if ok then distinct (reg @ ids) \<and> set ids \<inter> U = {} \<and> set (used_ids a') = U \<union> set (reg @ ids)
     else set (used_ids a') = U \<and> (\<not> distinct (reg @ ids) \<or> set ids \<inter> U \<noteq> {}))"
  using assms
proof (induction ids arbitrary: a reg)
  case (Cons i ids)
  have i0: "i \<noteq> 0" using Cons.prems(2) by simp
  obtain fresh a1 where m: "MarkAsUsed i a = (fresh, a1)" by fastforce
  note mi = MarkAsUsed_inv [OF Cons.prems(1) i0 m]
  have ff: "\<exists>a'. fold ia_FreeID xs (Reusing c) = Reusing a' \<and> ida_inv a' \<and> set (used_ids a') = set (used_ids c) - set xs"
    if "ida_inv c" "0 \<notin> set xs" for xs c
    using that
  proof (induction xs arbitrary: c)
    case (Cons x xs)
    have "ida_inv (FreeID x c)" "set (used_ids (FreeID x c)) = set (used_ids c) - {x}"
      using FreeID_inv [OF Cons.prems(1), of x] Cons.prems(2) by auto
    with Cons.IH [of "FreeID x c"] Cons.prems(2) show ?case by auto
  qed simp
  show ?case
  proof (cases fresh)
    case False
    with Cons.prems(7) m have "b = fold ia_FreeID reg (Reusing a1)" and "\<not> ok" by auto
    moreover have "i \<in> U \<union> set reg" and "set (used_ids a1) = U \<union> set reg"
      using mi False Cons.prems(5) by auto
    ultimately show ?thesis using ff [of a1 reg] mi Cons.prems(3,6) by auto
  next
    case True
    with Cons.prems(7) m have r: "register_loop (reg @ [i]) ids (Reusing a1) = (ok, b)" by simp
    have "i \<notin> U \<union> set reg" using mi True Cons.prems(5) by auto
    with Cons.IH [OF _ _ _ _ _ _ r] mi i0 Cons.prems(2-6) obtain a' where "b = Reusing a'" "ida_inv a'"
      "if ok then distinct ((reg @ [i]) @ ids) \<and> set ids \<inter> U = {} \<and> set (used_ids a') = U \<union> set ((reg @ [i]) @ ids)
       else set (used_ids a') = U \<and> (\<not> distinct ((reg @ [i]) @ ids) \<or> set ids \<inter> U \<noteq> {})"
      by auto
    with \<open>i \<notin> U \<union> set reg\<close> show ?thesis by (cases ok) auto
  qed
qed auto

lemma DoRegisterSharedIds_atomic:
  assumes inv: "ids_inv g" and ns: "g ! unat ns = Reusing a" "unat ns < 5" and z: "0 \<notin> set ids"
    and r: "DoRegisterSharedIdsCHROMIUM ns ids g = Some (ok, g')"
  shows "ids_inv g'" and "ok \<longleftrightarrow> distinct ids \<and> set ids \<inter> ids_live ns g = {}"
    and "ids_live ns g' = (if ok then ids_live ns g \<union> set ids else ids_live ns g)"
proof -
  have len: "unat ns < length g" using inv ns by (simp add: ids_inv_def)
  have "g[unat ns := Reusing a] = g" using ns(1) by (metis list_update_id)
  with len r ns obtain b where b: "register_loop [] ids (Reusing a) = (ok, b)" and g': "g' = g[unat ns := b]"
    by (auto simp: DoRegisterSharedIdsCHROMIUM_def GetIdAllocator_def Let_def split: prod.splits if_splits)
  have "ida_inv a" using inv ns len by (metis ids_inv_def nth_mem obj_inv.simps(1))
  from register_loop_reusing [OF this z _ _ _ _ b, of "id_live a"] obtain a' where a': "b = Reusing a'" "ida_inv a'"
    "if ok then distinct ids \<and> set ids \<inter> id_live a = {} \<and> id_live a' = id_live a \<union> set ids
     else id_live a' = id_live a \<and> (\<not> distinct ids \<or> set ids \<inter> id_live a \<noteq> {})"
    unfolding id_live_def by (metis append_Nil distinct.simps(1) empty_iff empty_set inf_bot_right sup_bot_right)
  then show "ids_inv g'" using inv g' by (auto simp: ids_inv_def dest: set_update_subset_insert [THEN subsetD])
  show "ok \<longleftrightarrow> distinct ids \<and> set ids \<inter> ids_live ns g = {}"
    and "ids_live ns g' = (if ok then ids_live ns g \<union> set ids else ids_live ns g)"
    using a' g' len ns by (auto simp: ids_live_def split: if_splits)
qed

text \<open>
  Zero can be registered by a client; then the search for the first unused id, which starts with the
  smallest id in use, returns one even when one is in use.
\<close>

lemma register_zero_reissues:
  "AllocateID \<lparr>used_ids = [0, 1, 0xffffffff], free_ids = []\<rparr> = (1, \<lparr>used_ids = [0, 1, 0xffffffff], free_ids = []\<rparr>)"
  by (simp add: AllocateID_def LastUsedId_def FindFirstUnusedId_def MarkAsUsed_def insort_insert_key_def)

subsection \<open>The client side\<close>

definition strict_inv :: "StrictSharedIdHandler \<Rightarrow> bool" where
  "strict_inv s \<longleftrightarrow> distinct (sh_used s) \<and> sorted (sh_used s) \<and> distinct (sh_free s) \<and>
     set (sh_used s) \<inter> set (sh_free s) = {} \<and> 0 \<notin> set (sh_used s) \<and> 0 \<notin> set (sh_free s)"

abbreviation strict_ids :: "StrictSharedIdHandler \<Rightarrow> u32 set" where
  "strict_ids s \<equiv> set (sh_used s) \<union> set (sh_free s)"

lemma Strict_free_loop_spec:
  "strict_inv s \<Longrightarrow> strict_inv (Strict_free_loop ids s) \<and>
   set (sh_used (Strict_free_loop ids s)) = set (sh_used s) - set ids \<and>
   strict_ids (Strict_free_loop ids s) = strict_ids s"
proof (induction ids arbitrary: s)
  case (Cons i ids)
  define s1 where "s1 = (if i \<noteq> 0 \<and> i \<in> set (sh_used s)
        then s\<lparr>sh_used := removeAll i (sh_used s), sh_free := sh_free s @ [i]\<rparr> else s)"
  have s1: "strict_inv s1" "set (sh_used s1) = set (sh_used s) - {i}" "strict_ids s1 = strict_ids s"
    using Cons.prems by (auto simp: s1_def strict_inv_def removeAll_filter_not_eq sorted_wrt_filter)
  have loop: "Strict_free_loop (i # ids) s = Strict_free_loop ids s1" by (simp add: s1_def)
  from Cons.IH [OF s1(1)] have ih: "strict_inv (Strict_free_loop ids s1)"
    "set (sh_used (Strict_free_loop ids s1)) = set (sh_used s1) - set ids"
    "strict_ids (Strict_free_loop ids s1) = strict_ids s1" by auto
  have "set (sh_used s1) - set ids = set (sh_used s) - set (i # ids)" using s1(2) by auto
  with ih s1(3) show ?case unfolding loop by (simp only:)
qed simp

lemma Strict_Destroy_all: "concat (Strict_Destroy_batches q) = q"
proof (induction q rule: Strict_Destroy_batches.induct)
  case (1 q)
  show ?case by (subst Strict_Destroy_batches.simps) (use 1 in simp)
qed

lemma Strict_Destroy_bound: "b \<in> set (Strict_Destroy_batches q) \<Longrightarrow> 0 < length b \<and> length b \<le> 2048"
proof (induction q rule: Strict_Destroy_batches.induct)
  case (1 q)
  from "1.prems" have "q \<noteq> []" by (subst (asm) Strict_Destroy_batches.simps) (auto split: if_splits)
  moreover from this "1.prems" have "b = take 2048 q \<or> b \<in> set (Strict_Destroy_batches (drop 2048 q))"
    by (subst (asm) Strict_Destroy_batches.simps) (simp add: kNumIdsToGet_def)
  ultimately show ?case using "1.IH" by (auto simp: kNumIdsToGet_def)
qed

text \<open>
  The client handler on top of the service's namespace \<open>ns\<close>: the ids it makes are distinct and
  not in use before, as long as the ids of the service do not run out. \<open>strict_world\<close> relates the
  handler to the service: the service keeps live every id the handler holds.
\<close>

definition strict_world :: "u32 \<Rightarrow> StrictSharedIdHandler \<Rightarrow> id_namespaces \<Rightarrow> bool" where
  "strict_world ns s g \<longleftrightarrow> strict_inv s \<and> ids_inv g \<and> strict_ids s \<subseteq> ids_live ns g"

definition service_gen :: "u32 \<Rightarrow> u32 \<Rightarrow> int \<Rightarrow> id_namespaces \<Rightarrow> (u32 list \<times> id_namespaces) option" where
  "service_gen ns off n g =
     (case DoGenSharedIdsCHROMIUM ns off n g of
        Some (ids, g') \<Rightarrow> if 0 \<in> set ids then None else Some (ids, g')
      | None \<Rightarrow> None)"

lemma Strict_GetId_spec:
  assumes w: "strict_world ns s g" and get: "Strict_GetId (service_gen ns) off s g = Some (i, s', g')"
  shows "strict_world ns s' g'" and "i \<notin> set (sh_used s)" and "i \<noteq> 0"
    and "set (sh_used s') = insert i (set (sh_used s))"
proof -
  from get obtain rest where
    q: "(if sh_free s = [] then service_gen ns off kNumIdsToGet g else Some (sh_free s, g)) = Some (i # rest, g')"
    and s': "s' = s\<lparr>sh_free := rest, sh_used := insort_insert i (sh_used s)\<rparr>"
    by (auto simp: Strict_GetId_def split: Option.bind_splits list.splits prod.splits if_splits)
  have "distinct (i # rest) \<and> set (i # rest) \<inter> set (sh_used s) = {} \<and> 0 \<notin> set (i # rest) \<and>
     ids_inv g' \<and> set (i # rest) \<union> strict_ids s \<subseteq> ids_live ns g'"
  proof (cases "sh_free s = []")
    case True
    with q have d: "DoGenSharedIdsCHROMIUM ns off kNumIdsToGet g = Some (i # rest, g')" and z: "0 \<notin> set (i # rest)"
      by (auto simp: service_gen_def split: option.splits if_splits)
    from w have "ids_inv g" "strict_ids s \<subseteq> ids_live ns g" by (simp_all add: strict_world_def)
    with DoGenSharedIds_fresh [OF _ d z] z show ?thesis by blast
  next
    case False
    with q w show ?thesis by (auto simp: strict_world_def strict_inv_def)
  qed
  with w s' show "strict_world ns s' g'" and "i \<notin> set (sh_used s)" and "i \<noteq> 0"
    and "set (sh_used s') = insert i (set (sh_used s))"
    by (auto simp: strict_world_def strict_inv_def set_insort_insert sorted_insort_insert distinct_insort_insert)
qed

lemma Strict_MakeIds_spec:
  "strict_world ns s g \<Longrightarrow> Strict_MakeIds (service_gen ns) off n s g = Some (ids, s', g') \<Longrightarrow>
   strict_world ns s' g' \<and> length ids = n \<and> distinct ids \<and> 0 \<notin> set ids \<and> set ids \<inter> set (sh_used s) = {} \<and>
   set (sh_used s') = set ids \<union> set (sh_used s)"
proof (induction n arbitrary: s g ids)
  case (Suc n)
  from Suc.prems(2) obtain i s1 g1 ids1 where
    i: "Strict_GetId (service_gen ns) off s g = Some (i, s1, g1)"
    and r: "Strict_MakeIds (service_gen ns) off n s1 g1 = Some (ids1, s', g')" and ids: "ids = i # ids1"
    by (auto split: Option.bind_splits prod.splits)
  note g = Strict_GetId_spec [OF Suc.prems(1) i]
  from Suc.IH [OF g(1) r] g ids show ?case by auto
qed simp

end
