(* ===== verification/Cmd_Common.thy ===== *)
theory Cmd_Common
  imports Prelude
begin

text \<open>
  The format of the command stream, \<^verbatim>\<open>gpu/command_buffer/common/cmd_buffer_common.h\<close>, and the constants
  of \<^verbatim>\<open>common/constants.h\<close>. A \<^verbatim>\<open>CommandBufferEntry\<close> is a 32-bit word. A command is a header, whose low
  21 bits are the size in entries and whose high 11 bits are the command id, followed by its
  arguments. For every command structure \<^verbatim>\<open>X\<close> there is a definition \<open>X_Init\<close>, the entries that
  \<^verbatim>\<open>X::Init\<close> writes (without the immediate data, which the caller writes); \<^const>\<open>None\<close> is a failed
  \<^verbatim>\<open>GPU_DCHECK\<close>. \<open>decode_common\<close> is how the service's structures read the same entries.
\<close>

subsection \<open>Constants\<close>

datatype Error = kNoError | kInvalidSize | kOutOfBounds | kUnknownCommand | kInvalidArguments
  | kLostContext | kGenericError | kDeferCommandUntilSwapBuffersAck

datatype ContextLostReason = kGuilty | kInnocent | kUnknown

definition IsError :: "Error \<Rightarrow> bool" where
  "IsError e \<longleftrightarrow> e \<noteq> kNoError \<and> e \<noteq> kDeferCommandUntilSwapBuffersAck"

definition kInvalidSharedMemoryId :: int where
  "kInvalidSharedMemoryId = -1"

definition kCommandBufferSharedMemoryId :: int where
  "kCommandBufferSharedMemoryId = 4"

subsection \<open>Sizes\<close>

definition ComputeNumEntries :: "u32 \<Rightarrow> u32" where
  "ComputeNumEntries size_in_bytes = (size_in_bytes + 4 - 1) div 4"

definition RoundSizeToMultipleOfEntries :: "u32 \<Rightarrow> u32" where
  "RoundSizeToMultipleOfEntries size_in_bytes = ComputeNumEntries size_in_bytes * 4"

subsection \<open>Headers\<close>

record CommandHeader =
  h_size :: "21 word"
  h_command :: "11 word"

definition kMaxSize :: int where
  "kMaxSize = 2 ^ 21 - 1"

definition CommandHeader_Init :: "u32 \<Rightarrow> int \<Rightarrow> CommandHeader option" where
  "CommandHeader_Init command sz =
     (if sz \<le> kMaxSize then Some \<lparr>h_size = word_of_int sz, h_command = ucast command\<rparr> else None)"

text \<open>The union \<^verbatim>\<open>CommandBufferEntry\<close>: the header in the bits of the entry.\<close>

definition entry_of_header :: "CommandHeader \<Rightarrow> u32" where
  "entry_of_header h = push_bit 21 (ucast (h_command h)) OR ucast (h_size h)"

definition header_of_entry :: "u32 \<Rightarrow> CommandHeader" where
  "header_of_entry e = \<lparr>h_size = ucast e, h_command = ucast (drop_bit 21 e)\<rparr>"

definition SetCmd :: "u32 \<Rightarrow> u32 \<Rightarrow> CommandHeader option" where
  "SetCmd command sizeof_T = CommandHeader_Init command (sint (ComputeNumEntries sizeof_T))"

definition SetCmdBySize :: "u32 \<Rightarrow> u32 \<Rightarrow> u32 \<Rightarrow> CommandHeader option" where
  "SetCmdBySize command sizeof_T size_of_data_in_bytes =
     CommandHeader_Init command (sint (ComputeNumEntries (sizeof_T + size_of_data_in_bytes)))"

definition SetCmdByTotalSize :: "u32 \<Rightarrow> u32 \<Rightarrow> u32 \<Rightarrow> CommandHeader option" where
  "SetCmdByTotalSize command sizeof_T size_in_bytes =
     (if size_in_bytes \<ge> sizeof_T
      then CommandHeader_Init command (sint (ComputeNumEntries size_in_bytes))
      else None)"

definition ImmediateDataAddress :: "u32 \<Rightarrow> ptr \<Rightarrow> ptr" where
  "ImmediateDataAddress sizeof_T cmd = cmd + sizeof_T"

definition NextCmdAddress :: "u32 \<Rightarrow> ptr \<Rightarrow> ptr" where
  "NextCmdAddress sizeof_T cmd = cmd + sizeof_T"

definition NextImmediateCmdAddress :: "u32 \<Rightarrow> ptr \<Rightarrow> u32 \<Rightarrow> ptr" where
  "NextImmediateCmdAddress sizeof_T cmd size_of_data_in_bytes =
     cmd + sizeof_T + RoundSizeToMultipleOfEntries size_of_data_in_bytes"

definition NextImmediateCmdAddressTotalSize :: "u32 \<Rightarrow> ptr \<Rightarrow> u32 \<Rightarrow> ptr option" where
  "NextImmediateCmdAddressTotalSize sizeof_T cmd total_size_in_bytes =
     (if total_size_in_bytes \<ge> sizeof_T then Some (cmd + RoundSizeToMultipleOfEntries total_size_in_bytes)
      else None)"

subsection \<open>Common commands\<close>

datatype CommandId = kNoop | kSetToken | kJump | kJumpRelative | kCall | kCallRelative | kReturn
  | kSetBucketSize | kSetBucketData | kSetBucketDataImmediate | kGetBucketSize | kGetBucketData

fun cmd_index :: "CommandId \<Rightarrow> u32" where
  "cmd_index kNoop = 0" | "cmd_index kSetToken = 1" | "cmd_index kJump = 2"
| "cmd_index kJumpRelative = 3" | "cmd_index kCall = 4" | "cmd_index kCallRelative = 5"
| "cmd_index kReturn = 6" | "cmd_index kSetBucketSize = 7" | "cmd_index kSetBucketData = 8"
| "cmd_index kSetBucketDataImmediate = 9" | "cmd_index kGetBucketSize = 10"
| "cmd_index kGetBucketData = 11"

definition all_command_ids :: "CommandId list" where
  "all_command_ids = [kNoop, kSetToken, kJump, kJumpRelative, kCall, kCallRelative, kReturn,
     kSetBucketSize, kSetBucketData, kSetBucketDataImmediate, kGetBucketSize, kGetBucketData]"

definition kNumCommands :: u32 where
  "kNumCommands = 12"

definition command_names :: "string list" where
  "command_names = [''Noop'', ''SetToken'', ''Jump'', ''JumpRelative'', ''Call'', ''CallRelative'',
     ''Return'', ''SetBucketSize'', ''SetBucketData'', ''SetBucketDataImmediate'', ''GetBucketSize'',
     ''GetBucketData'']"

definition GetCommandName :: "int \<Rightarrow> string" where
  "GetCommandName i =
     (if i \<ge> 0 \<and> i < uint kNumCommands then command_names ! nat i else ''*unknown-command*'')"

datatype ArgFlags = kFixed | kAtLeastN

text \<open>\<^verbatim>\<open>sizeof\<close> of the command structures, in bytes.\<close>

fun sizeof_cmd :: "CommandId \<Rightarrow> u32" where
  "sizeof_cmd kNoop = 4" | "sizeof_cmd kSetToken = 8" | "sizeof_cmd kJump = 8"
| "sizeof_cmd kJumpRelative = 8" | "sizeof_cmd kCall = 8" | "sizeof_cmd kCallRelative = 8"
| "sizeof_cmd kReturn = 4" | "sizeof_cmd kSetBucketSize = 12" | "sizeof_cmd kSetBucketData = 24"
| "sizeof_cmd kSetBucketDataImmediate = 16" | "sizeof_cmd kGetBucketSize = 16"
| "sizeof_cmd kGetBucketData = 24"

fun kArgFlags :: "CommandId \<Rightarrow> ArgFlags" where
  "kArgFlags kNoop = kAtLeastN"
| "kArgFlags kSetBucketDataImmediate = kAtLeastN"
| "kArgFlags _ = kFixed"

abbreviation set_cmd :: "CommandId \<Rightarrow> u32 option" where
  "set_cmd c \<equiv> map_option entry_of_header (SetCmd (cmd_index c) (sizeof_cmd c))"

definition Noop_Init :: "u32 \<Rightarrow> u32 list option" where
  "Noop_Init skip_count =
     (if skip_count > 0
      then do {
        h \<leftarrow> CommandHeader_Init (cmd_index kNoop) (sint skip_count);
        Some [entry_of_header h]
      }
      else None)"

definition Noop_Set :: "ptr \<Rightarrow> u32 \<Rightarrow> ptr" where
  "Noop_Set cmd skip_count = NextImmediateCmdAddress (sizeof_cmd kNoop) cmd (skip_count * 4)"

definition SetToken_Init :: "u32 \<Rightarrow> u32 list option" where
  "SetToken_Init token = do { h \<leftarrow> set_cmd kSetToken; Some [h, token] }"

definition Jump_Init :: "u32 \<Rightarrow> u32 list option" where
  "Jump_Init offset = do { h \<leftarrow> set_cmd kJump; Some [h, offset] }"

definition JumpRelative_Init :: "int \<Rightarrow> u32 list option" where
  "JumpRelative_Init offset = do { h \<leftarrow> set_cmd kJumpRelative; Some [h, uint32 offset] }"

definition Call_Init :: "u32 \<Rightarrow> u32 list option" where
  "Call_Init offset = do { h \<leftarrow> set_cmd kCall; Some [h, offset] }"

definition CallRelative_Init :: "int \<Rightarrow> u32 list option" where
  "CallRelative_Init offset = do { h \<leftarrow> set_cmd kCallRelative; Some [h, uint32 offset] }"

definition Return_Init :: "u32 list option" where
  "Return_Init = do { h \<leftarrow> set_cmd kReturn; Some [h] }"

definition SetBucketSize_Init :: "u32 \<Rightarrow> u32 \<Rightarrow> u32 list option" where
  "SetBucketSize_Init bucket_id sz = do { h \<leftarrow> set_cmd kSetBucketSize; Some [h, bucket_id, sz] }"

definition SetBucketData_Init :: "u32 \<Rightarrow> u32 \<Rightarrow> u32 \<Rightarrow> u32 \<Rightarrow> u32 \<Rightarrow> u32 list option" where
  "SetBucketData_Init bucket_id offset sz shared_memory_id shared_memory_offset = do {
     h \<leftarrow> set_cmd kSetBucketData;
     Some [h, bucket_id, offset, sz, shared_memory_id, shared_memory_offset]
   }"

definition SetBucketDataImmediate_Init :: "u32 \<Rightarrow> u32 \<Rightarrow> u32 \<Rightarrow> u32 list option" where
  "SetBucketDataImmediate_Init bucket_id offset sz = do {
     h \<leftarrow> SetCmdBySize (cmd_index kSetBucketDataImmediate) (sizeof_cmd kSetBucketDataImmediate) sz;
     Some [entry_of_header h, bucket_id, offset, sz]
   }"

definition GetBucketSize_Init :: "u32 \<Rightarrow> u32 \<Rightarrow> u32 \<Rightarrow> u32 list option" where
  "GetBucketSize_Init bucket_id shared_memory_id shared_memory_offset = do {
     h \<leftarrow> set_cmd kGetBucketSize;
     Some [h, bucket_id, shared_memory_id, shared_memory_offset]
   }"

definition GetBucketData_Init :: "u32 \<Rightarrow> u32 \<Rightarrow> u32 \<Rightarrow> u32 \<Rightarrow> u32 \<Rightarrow> u32 list option" where
  "GetBucketData_Init bucket_id offset sz shared_memory_id shared_memory_offset = do {
     h \<leftarrow> set_cmd kGetBucketData;
     Some [h, bucket_id, offset, sz, shared_memory_id, shared_memory_offset]
   }"

subsection \<open>Structures as data\<close>

text \<open>
  The fields of the command structures after the header. \<open>decode_common\<close> reads a structure from the
  entries after the header, at the offsets that the source asserts for each field.
\<close>

datatype common_cmd =
    Noop
  | SetToken u32
  | Jump u32
  | JumpRelative int
  | Call u32
  | CallRelative int
  | Return
  | SetBucketSize u32 u32
  | SetBucketData u32 u32 u32 u32 u32
  | SetBucketDataImmediate u32 u32 u32
  | GetBucketSize u32 u32 u32
  | GetBucketData u32 u32 u32 u32 u32

fun decode_common :: "CommandId \<Rightarrow> u32 list \<Rightarrow> common_cmd option" where
  "decode_common kNoop _ = Some Noop"
| "decode_common kSetToken (t # _) = Some (SetToken t)"
| "decode_common kJump (off # _) = Some (Jump off)"
| "decode_common kJumpRelative (off # _) = Some (JumpRelative (sint off))"
| "decode_common kCall (off # _) = Some (Call off)"
| "decode_common kCallRelative (off # _) = Some (CallRelative (sint off))"
| "decode_common kReturn _ = Some Return"
| "decode_common kSetBucketSize (b # sz # _) = Some (SetBucketSize b sz)"
| "decode_common kSetBucketData (b # off # sz # i # so # _) = Some (SetBucketData b off sz i so)"
| "decode_common kSetBucketDataImmediate (b # off # sz # _) = Some (SetBucketDataImmediate b off sz)"
| "decode_common kGetBucketSize (b # i # so # _) = Some (GetBucketSize b i so)"
| "decode_common kGetBucketData (b # off # sz # i # so # _) = Some (GetBucketData b off sz i so)"
| "decode_common _ _ = None"

fun encode_common :: "common_cmd \<Rightarrow> u32 list option" where
  "encode_common Noop = Noop_Init 1"
| "encode_common (SetToken t) = SetToken_Init t"
| "encode_common (Jump off) = Jump_Init off"
| "encode_common (JumpRelative off) = JumpRelative_Init off"
| "encode_common (Call off) = Call_Init off"
| "encode_common (CallRelative off) = CallRelative_Init off"
| "encode_common Return = Return_Init"
| "encode_common (SetBucketSize b sz) = SetBucketSize_Init b sz"
| "encode_common (SetBucketData b off sz i so) = SetBucketData_Init b off sz i so"
| "encode_common (SetBucketDataImmediate b off sz) = SetBucketDataImmediate_Init b off sz"
| "encode_common (GetBucketSize b i so) = GetBucketSize_Init b i so"
| "encode_common (GetBucketData b off sz i so) = GetBucketData_Init b off sz i so"

fun id_of :: "common_cmd \<Rightarrow> CommandId" where
  "id_of Noop = kNoop" | "id_of (SetToken _) = kSetToken" | "id_of (Jump _) = kJump"
| "id_of (JumpRelative _) = kJumpRelative" | "id_of (Call _) = kCall"
| "id_of (CallRelative _) = kCallRelative" | "id_of Return = kReturn"
| "id_of (SetBucketSize _ _) = kSetBucketSize" | "id_of (SetBucketData _ _ _ _ _) = kSetBucketData"
| "id_of (SetBucketDataImmediate _ _ _) = kSetBucketDataImmediate"
| "id_of (GetBucketSize _ _ _) = kGetBucketSize" | "id_of (GetBucketData _ _ _ _ _) = kGetBucketData"

subsection \<open>Lemmas\<close>

lemma header_roundtrip [simp]: "header_of_entry (entry_of_header h) = h"
proof -
  have "ucast (push_bit 21 (ucast (h_command h)) OR ucast (h_size h) :: u32) = h_size h"
    by (rule bit_word_eqI) (auto simp: bit_simps)
  moreover have "ucast (drop_bit 21 (push_bit 21 (ucast (h_command h)) OR ucast (h_size h) :: u32)) = h_command h"
    by (rule bit_word_eqI) (auto simp: bit_simps dest: bit_imp_le_length)
  ultimately show ?thesis by (simp add: header_of_entry_def entry_of_header_def)
qed

lemma entry_roundtrip [simp]: "entry_of_header (header_of_entry e) = e"
  unfolding header_of_entry_def entry_of_header_def
  by (rule bit_word_eqI) (auto simp: bit_simps)

lemma ComputeNumEntries_nat:
  assumes "unat n + 3 < 4294967296"
  shows "unat (ComputeNumEntries n) = (unat n + 3) div 4"
proof -
  have "ComputeNumEntries n = (n + 3) div 4" unfolding ComputeNumEntries_def by (simp add: add.commute)
  moreover have "unat (n + 3) = unat n + 3" using assms by (simp add: u32_add)
  ultimately show ?thesis by (simp add: unat_div)
qed

lemma RoundSize_bounds:
  assumes "unat n + 3 < 4294967296"
  shows "unat n \<le> unat (RoundSizeToMultipleOfEntries n)" and "unat (RoundSizeToMultipleOfEntries n) < unat n + 4"
    and "4 dvd unat (RoundSizeToMultipleOfEntries n)"
proof -
  let ?k = "(unat n + 3) div 4"
  have "unat (RoundSizeToMultipleOfEntries n) = (?k * 4) mod 4294967296"
    by (simp add: RoundSizeToMultipleOfEntries_def unat_word_ariths ComputeNumEntries_nat [OF assms])
  moreover have "?k * 4 < 4294967296" using assms by linarith
  ultimately have r: "unat (RoundSizeToMultipleOfEntries n) = ?k * 4" by simp
  show "unat n \<le> unat (RoundSizeToMultipleOfEntries n)" and "unat (RoundSizeToMultipleOfEntries n) < unat n + 4"
    and "4 dvd unat (RoundSizeToMultipleOfEntries n)"
    unfolding r by (linarith, linarith, simp)
qed

text \<open>A command whose offset fits the \<^verbatim>\<open>int32\<close> field that holds it.\<close>

fun wf_cmd :: "common_cmd \<Rightarrow> bool" where
  "wf_cmd (JumpRelative off) = (- (2 ^ 31) \<le> off \<and> off < 2 ^ 31)"
| "wf_cmd (CallRelative off) = (- (2 ^ 31) \<le> off \<and> off < 2 ^ 31)"
| "wf_cmd _ = True"

lemma SetCmd_eval:
  "SetCmd (cmd_index c) (sizeof_cmd c) =
     Some \<lparr>h_size = word_of_nat (unat (sizeof_cmd c) div 4), h_command = ucast (cmd_index c)\<rparr>"
  by (cases c) (simp_all add: SetCmd_def ComputeNumEntries_def CommandHeader_Init_def kMaxSize_def)

lemma sint_uint32: "- (2 ^ 31) \<le> i \<Longrightarrow> i < 2 ^ 31 \<Longrightarrow> sint (uint32 i) = i"
  using int32_id [of i] by (simp add: int32_def uint32_def)

lemmas SetCmd_evals =
  SetCmd_eval [of kSetToken, simplified] SetCmd_eval [of kJump, simplified]
  SetCmd_eval [of kJumpRelative, simplified] SetCmd_eval [of kCall, simplified]
  SetCmd_eval [of kCallRelative, simplified] SetCmd_eval [of kReturn, simplified]
  SetCmd_eval [of kSetBucketSize, simplified] SetCmd_eval [of kSetBucketData, simplified]
  SetCmd_eval [of kGetBucketSize, simplified] SetCmd_eval [of kGetBucketData, simplified]

lemmas cmd_Init_defs =
  Noop_Init_def SetToken_Init_def Jump_Init_def JumpRelative_Init_def Call_Init_def CallRelative_Init_def
  Return_Init_def SetBucketSize_Init_def SetBucketData_Init_def SetBucketDataImmediate_Init_def
  GetBucketSize_Init_def GetBucketData_Init_def

lemma encode_common_shape:
  assumes "encode_common c = Some es"
  shows "es \<noteq> [] \<and> h_command (header_of_entry (hd es)) = ucast (cmd_index (id_of c)) \<and>
    (wf_cmd c \<longrightarrow> decode_common (id_of c) (tl es @ data) = Some c) \<and>
    length es = unat (sizeof_cmd (id_of c)) div 4 \<and>
    (id_of c \<noteq> kSetBucketDataImmediate \<longrightarrow> unat (h_size (header_of_entry (hd es))) = length es)"
  using assms
  by (cases c) (auto simp: cmd_Init_defs SetCmd_evals SetCmdBySize_def CommandHeader_Init_def kMaxSize_def
      sint_uint32 split: if_splits)

lemma SetBucketDataImmediate_size:
  assumes "SetBucketDataImmediate_Init b off sz = Some es" and "unat sz + 19 < 4294967296"
  shows "unat (h_size (header_of_entry (hd es))) = 4 + (unat sz + 3) div 4"
proof -
  let ?n = "ComputeNumEntries (16 + sz)"
  from assms(1) have le: "sint ?n \<le> kMaxSize" and es: "hd es = entry_of_header \<lparr>h_size = word_of_int (sint ?n), h_command = 9\<rparr>"
    by (auto simp: SetBucketDataImmediate_Init_def SetCmdBySize_def CommandHeader_Init_def split: if_splits)
  have "unat (16 + sz) = 16 + unat sz" using assms(2) by (simp add: u32_add)
  then have n: "unat ?n = 4 + (unat sz + 3) div 4" using ComputeNumEntries_nat [of "16 + sz"] assms(2) by simp
  then have small: "unat ?n < 2147483648" using assms(2) by simp
  then have "sint ?n = int (unat ?n)" by (rule u32_sint)
  then have "hd es = entry_of_header \<lparr>h_size = word_of_nat (unat ?n), h_command = 9\<rparr>"
    using es by simp
  moreover have "unat ?n < 2 ^ 21" using le n \<open>sint ?n = int (unat ?n)\<close> by (simp add: kMaxSize_def)
  ultimately show ?thesis by (simp only: header_roundtrip CommandHeader.select_convs)
      (simp add: n [symmetric] unsigned_ucast_eq take_bit_nat_eq_self_iff)
qed

end
