(* ===== verification/Shared_Memory.thy ===== *)
theory Shared_Memory
  imports Prelude
begin

text \<open>
  Shared memory as the service sees it: a store of byte arrays, one per mapped object, so that two
  buffers over the same object alias. A pointer into an object is the object and a byte offset.
  The target is little-endian. An access out of the bounds of an object is \<^const>\<open>None\<close>.
  \<open>Buffer\<close> is the structure of \<^verbatim>\<open>gpu/command_buffer/common/buffer.h\<close>.
\<close>

type_synonym obj = nat
type_synonym loc = "obj \<times> nat"
type_synonym memory = "obj \<Rightarrow> u8 list"

record Buffer =
  buf_ptr :: "obj option"
  buf_size :: u32
  buf_shared_memory :: "obj option"

definition null_Buffer :: Buffer where
  "null_Buffer = \<lparr>buf_ptr = None, buf_size = 0, buf_shared_memory = None\<rparr>"

record memory_state =
  mem :: memory

definition read_bytes :: "memory \<Rightarrow> loc \<Rightarrow> nat \<Rightarrow> u8 list option" where
  "read_bytes m p n =
     (if snd p + n \<le> length (m (fst p)) then Some (take n (drop (snd p) (m (fst p)))) else None)"

definition write_bytes :: "memory \<Rightarrow> loc \<Rightarrow> u8 list \<Rightarrow> memory option" where
  "write_bytes m p bs =
     (if snd p + length bs \<le> length (m (fst p))
      then Some (m(fst p := take (snd p) (m (fst p)) @ bs @ drop (snd p + length bs) (m (fst p))))
      else None)"

fun u32_of_bytes :: "u8 list \<Rightarrow> u32" where
  "u32_of_bytes [] = 0"
| "u32_of_bytes (b # bs) = ucast b OR push_bit 8 (u32_of_bytes bs)"

definition bytes_of_u32 :: "u32 \<Rightarrow> u8 list" where
  "bytes_of_u32 w = [ucast w, ucast (drop_bit 8 w), ucast (drop_bit 16 w), ucast (drop_bit 24 w)]"

definition read_u32 :: "memory \<Rightarrow> loc \<Rightarrow> u32 option" where
  "read_u32 m p = map_option u32_of_bytes (read_bytes m p 4)"

definition write_u32 :: "memory \<Rightarrow> loc \<Rightarrow> u32 \<Rightarrow> memory option" where
  "write_u32 m p w = write_bytes m p (bytes_of_u32 w)"

lemma length_bytes_of_u32 [simp]: "length (bytes_of_u32 w) = 4"
  by (simp add: bytes_of_u32_def)

lemma u32_of_bytes_of_u32 [simp]: "u32_of_bytes (bytes_of_u32 w) = w"
proof (rule bit_word_eqI)
  fix n assume "n < LENGTH(32)"
  then consider "n < 8" | "8 \<le> n" "n < 16" | "16 \<le> n" "n < 24" | "24 \<le> n" "n < 32" by force
  then show "bit (u32_of_bytes (bytes_of_u32 w)) n = bit w n"
    by cases (auto simp: bytes_of_u32_def bit_simps)
qed

lemma read_bytes_SomeE:
  assumes "read_bytes m p n = Some bs"
  obtains "length bs = n" and "snd p + n \<le> length (m (fst p))" and "bs = take n (drop (snd p) (m (fst p)))"
  using assms by (auto simp: read_bytes_def split: if_splits)

lemma read_bytes_length: "read_bytes m p n = Some bs \<Longrightarrow> length bs = n"
  by (elim read_bytes_SomeE)

lemma write_bytes_length: "write_bytes m p bs = Some m' \<Longrightarrow> length (m' ob) = length (m ob)"
  by (auto simp: write_bytes_def split: if_splits)

lemma read_write_same: "write_bytes m p bs = Some m' \<Longrightarrow> read_bytes m' p (length bs) = Some bs"
  by (auto simp: write_bytes_def read_bytes_def split: if_splits)

lemma read_write_disjoint:
  assumes "write_bytes m p bs = Some m'"
    and "fst q \<noteq> fst p \<or> snd q + n \<le> snd p \<or> snd p + length bs \<le> snd q"
  shows "read_bytes m' q n = read_bytes m q n"
proof (cases "fst q = fst p")
  case False
  with assms(1) show ?thesis by (auto simp: write_bytes_def read_bytes_def split: if_splits)
next
  case True
  let ?o = "m (fst p)"
  from assms(1) have len: "snd p + length bs \<le> length ?o"
    and m': "m' = m(fst p := take (snd p) ?o @ bs @ drop (snd p + length bs) ?o)"
    by (auto simp: write_bytes_def split: if_splits)
  from True assms(2) consider "snd q + n \<le> snd p" | "snd p + length bs \<le> snd q" by auto
  then show ?thesis
  proof cases
    case 1
    with len have "take n (drop (snd q) (take (snd p) ?o @ bs @ drop (snd p + length bs) ?o)) = take n (drop (snd q) ?o)"
      by (simp add: drop_take)
    with True len m' show ?thesis by (simp add: read_bytes_def)
  next
    case 2
    with len have "drop (snd q) (take (snd p) ?o @ bs @ drop (snd p + length bs) ?o) = drop (snd q) ?o"
      by simp
    with True len m' show ?thesis by (simp add: read_bytes_def)
  qed
qed

lemma read_u32_write_u32: "write_u32 m p w = Some m' \<Longrightarrow> read_u32 m' p = Some w"
  using read_write_same [of m p "bytes_of_u32 w" m'] by (simp add: read_u32_def write_u32_def)

end
