(* ===== verification/Cmd_Parser.thy ===== *)
theory Cmd_Parser
  imports Cmd_Common Shared_Memory
begin

text \<open>
  The parser of the command stream, \<^verbatim>\<open>gpu/command_buffer/service/cmd_parser.cc\<close> and \<^verbatim>\<open>cmd_parser.h\<close>.
  Its state extends the memory it reads from; the components that the handler may change extend
  the parser's record. The handler, \<^verbatim>\<open>AsyncAPIInterface::DoCommand\<close>, is a parameter: it gets the
  command, the number of arguments and the address of the command, and may change the whole state
  (also the get offset); \<^const>\<open>None\<close> is a handler that does not return. The locale \<open>async_api\<close> is
  its contract.
\<close>

subsection \<open>State and operations\<close>

record CommandParser = memory_state +
  cp_get :: int
  cp_put :: int
  cp_buffer :: "loc option"
  cp_entry_count :: int

type_synonym 'w do_command = "u32 \<Rightarrow> u32 \<Rightarrow> loc \<Rightarrow> 'w \<Rightarrow> (Error \<times> 'w) option"

definition parser_init :: "'a CommandParser_scheme \<Rightarrow> 'a CommandParser_scheme" where
  "parser_init w = w\<lparr>cp_get := 0, cp_put := 0, cp_buffer := None, cp_entry_count := 0\<rparr>"

definition SetBuffer :: "obj \<Rightarrow> u32 \<Rightarrow> nat \<Rightarrow> u32 \<Rightarrow> 'a CommandParser_scheme \<Rightarrow> 'a CommandParser_scheme" where
  "SetBuffer shm_address shm_size offset sz w =
     w\<lparr>cp_get := 0, cp_put := 0, cp_buffer := Some (shm_address, offset),
       cp_entry_count := sint (sz div 4)\<rparr>"

definition set_get :: "int \<Rightarrow> 'a CommandParser_scheme \<Rightarrow> bool \<times> 'a CommandParser_scheme" where
  "set_get get w =
     (if get \<ge> 0 \<and> get < cp_entry_count w then (True, w\<lparr>cp_get := get\<rparr>) else (False, w))"

definition set_put :: "int \<Rightarrow> 'a CommandParser_scheme \<Rightarrow> 'a CommandParser_scheme" where
  "set_put put w = w\<lparr>cp_put := put\<rparr>"

definition IsEmpty :: "'a CommandParser_scheme \<Rightarrow> bool" where
  "IsEmpty w \<longleftrightarrow> cp_put w = cp_get w"

text \<open>The address of the entry with index \<open>i\<close>, and its value.\<close>

definition entry_addr :: "'a CommandParser_scheme \<Rightarrow> int \<Rightarrow> loc option" where
  "entry_addr w i =
     (case cp_buffer w of
        None \<Rightarrow> None
      | Some (ob, off) \<Rightarrow> if i \<ge> 0 then Some (ob, off + 4 * nat i) else None)"

definition read_entry :: "'a CommandParser_scheme \<Rightarrow> int \<Rightarrow> u32 option" where
  "read_entry w i = do { p \<leftarrow> entry_addr w i; read_u32 (mem w) p }"

definition ProcessCommand ::
    "'a CommandParser_scheme do_command \<Rightarrow> 'a CommandParser_scheme \<Rightarrow> (Error \<times> 'a CommandParser_scheme) option" where
  "ProcessCommand DoCommand w =
     (let get = cp_get w in
      if get = cp_put w then Some (kNoError, w)
      else do {
        e \<leftarrow> read_entry w get;
        p \<leftarrow> entry_addr w get;
        let header = header_of_entry e;
        let sz = int (unat (h_size header));
        if h_size header = 0 then Some (kInvalidSize, w)
        else if sz + get > cp_entry_count w then Some (kOutOfBounds, w)
        else do {
          (result, w1) \<leftarrow> DoCommand (ucast (h_command header)) (ucast (h_size header) - 1) p w;
          if get = cp_get w1 \<and> result \<noteq> kDeferCommandUntilSwapBuffersAck
          then if cp_entry_count w1 = 0 then None
               else Some (result, w1\<lparr>cp_get := (get + sz) mod cp_entry_count w1\<rparr>)
          else Some (result, w1)
        }
      })"

partial_function (option) ProcessAllCommands ::
    "'a CommandParser_scheme do_command \<Rightarrow> 'a CommandParser_scheme \<Rightarrow> (Error \<times> 'a CommandParser_scheme) option" where
  "ProcessAllCommands DoCommand w =
     (if IsEmpty w then Some (kNoError, w)
      else Option.bind (ProcessCommand DoCommand w)
        (\<lambda>(e, w'). if e \<noteq> kNoError then Some (e, w') else ProcessAllCommands DoCommand w'))"

subsection \<open>The invariant of the parser and the contract of its handler\<close>

text \<open>
  The get offset is an index of the buffer, and the buffer lies inside its memory object.
\<close>

definition parser_inv :: "'a CommandParser_scheme \<Rightarrow> bool" where
  "parser_inv w \<longleftrightarrow> 0 \<le> cp_get w \<and> (cp_get w < cp_entry_count w \<or> cp_get w = 0 \<and> cp_entry_count w = 0) \<and>
     (0 < cp_entry_count w \<longrightarrow>
        (\<exists>ob off. cp_buffer w = Some (ob, off) \<and> off + 4 * nat (cp_entry_count w) \<le> length (mem w ob)))"

lemma parser_init_inv: "parser_inv (parser_init w)"
  by (simp add: parser_inv_def parser_init_def)

lemma SetBuffer_inv:
  assumes "offset + unat sz \<le> length (mem w ob)"
  shows "parser_inv (SetBuffer ob shm_size offset sz w)"
proof -
  have "unat (sz div 4) = unat sz div 4" by (simp add: unat_div)
  moreover from this have "unat (sz div 4) < 2147483648" using u32_lt [of sz] by simp
  ultimately have "sint (sz div 4) = int (unat sz div 4)" by (simp only: u32_sint)
  with assms show ?thesis by (auto simp: parser_inv_def SetBuffer_def)
qed

lemma set_get_inv: "parser_inv w \<Longrightarrow> set_get g w = (ok, w') \<Longrightarrow> parser_inv w'"
  by (auto simp: set_get_def parser_inv_def split: if_splits)

lemma set_put_inv: "parser_inv w \<Longrightarrow> parser_inv (set_put p w)"
  by (simp add: set_put_def parser_inv_def)

lemma parser_inv_get: "parser_inv w \<Longrightarrow> parser_inv (w\<lparr>cp_get := g mod cp_entry_count w\<rparr>) \<or> cp_entry_count w = 0"
  by (auto simp: parser_inv_def)

lemma read_entry_in_range:
  assumes inv: "parser_inv w" and "0 \<le> i" and "i < cp_entry_count w"
  obtains e p where "read_entry w i = Some e" and "entry_addr w i = Some p"
proof -
  from assms obtain ob off where b: "cp_buffer w = Some (ob, off)"
    and len: "off + 4 * nat (cp_entry_count w) \<le> length (mem w ob)" by (auto simp: parser_inv_def)
  have "nat i < nat (cp_entry_count w)" using assms(2,3) by simp
  with len have "off + 4 * nat i + 4 \<le> length (mem w ob)" by linarith
  with b that assms(2) show thesis
    by (simp add: read_entry_def entry_addr_def read_u32_def read_bytes_def add.commute)
qed

text \<open>
  What the parser relies on, for some invariant \<open>inv\<close> of the whole state: the handler keeps the
  invariant and the size of the buffer. A jump may set the get offset, but only to an index of the
  buffer.
\<close>

locale async_api =
  fixes DoCommand :: "'a CommandParser_scheme do_command"
    and inv :: "'a CommandParser_scheme \<Rightarrow> bool"
  assumes inv_parser: "inv w \<Longrightarrow> parser_inv w"
    and inv_get: "inv w \<Longrightarrow> 0 \<le> g \<Longrightarrow> g < cp_entry_count w \<Longrightarrow> inv (w\<lparr>cp_get := g\<rparr>)"
    and DoCommand_inv: "inv w \<Longrightarrow> DoCommand c n p w = Some (e, w') \<Longrightarrow> inv w'"
    and DoCommand_entry_count: "inv w \<Longrightarrow> DoCommand c n p w = Some (e, w') \<Longrightarrow> cp_entry_count w' = cp_entry_count w"
begin

lemma ProcessCommand_entry_count:
  "inv w \<Longrightarrow> ProcessCommand DoCommand w = Some (e, w') \<Longrightarrow> cp_entry_count w' = cp_entry_count w"
  by (auto simp: ProcessCommand_def Let_def DoCommand_entry_count split: Option.bind_splits if_splits)

lemma ProcessCommand_inv:
  assumes inv: "inv w" and p: "ProcessCommand DoCommand w = Some (e, w')"
  shows "inv w'"
proof (cases "cp_get w = cp_put w")
  case True
  with inv p show ?thesis by (simp add: ProcessCommand_def)
next
  case False
  have step: "inv w2"
    if d: "DoCommand c n q w = Some (r, w1)"
      and w2: "w2 = w1 \<or> cp_entry_count w1 \<noteq> 0 \<and> w2 = w1\<lparr>cp_get := g mod cp_entry_count w1\<rparr>" for c n q r w1 w2 g
  proof -
    note i = DoCommand_inv [OF inv d]
    have "0 \<le> cp_entry_count w1" using inv_parser [OF i] by (auto simp: parser_inv_def)
    with w2 i inv_get [OF i, of "g mod cp_entry_count w1"] show ?thesis by fastforce
  qed
  from p False inv show ?thesis
    by (auto simp: ProcessCommand_def Let_def intro: step split: Option.bind_splits if_splits)
qed

text \<open>The parser itself never reads outside the buffer and never divides by zero.\<close>

lemma ProcessCommand_total:
  assumes inv: "inv w" and ec: "0 < cp_entry_count w" and n: "ProcessCommand DoCommand w = None"
  shows "\<exists>c k p. DoCommand c k p w = None"
proof (rule ccontr)
  assume "\<not> ?thesis"
  then have d: "\<And>c k p. DoCommand c k p w \<noteq> None" by auto
  note pinv = inv_parser [OF inv]
  have "0 \<le> cp_get w" "cp_get w < cp_entry_count w" using pinv ec by (auto simp: parser_inv_def)
  from read_entry_in_range [OF pinv this] obtain e p where r: "read_entry w (cp_get w) = Some e"
    "entry_addr w (cp_get w) = Some p" .
  let ?h = "header_of_entry e"
  obtain r1 w1 where d1: "DoCommand (ucast (h_command ?h)) (ucast (h_size ?h) - 1) p w = Some (r1, w1)"
    using d by (rule not_None2E)
  have "cp_entry_count w1 \<noteq> 0" using DoCommand_entry_count [OF inv d1] ec by simp
  with n r d1 show False by (auto simp: ProcessCommand_def Let_def split: if_splits)
qed

end

subsection \<open>The parser executes the stream that was written\<close>

text \<open>
  A command of the stream is the list of its entries. \<open>stream_at w p cs\<close>: the commands \<open>cs\<close> lie in
  the buffer of \<open>w\<close> from index \<open>p\<close> on, round the end of the buffer but without a command that
  crosses it; \<open>exec_stream\<close> runs the handler on them one after the other, the get offset at the
  command that runs, and stops at the first result other than \<^verbatim>\<open>kNoError\<close>.
\<close>

fun stream_at :: "'a CommandParser_scheme \<Rightarrow> int \<Rightarrow> u32 list list \<Rightarrow> bool" where
  "stream_at w p [] = True"
| "stream_at w p (c # cs) =
     (c \<noteq> [] \<and> unat (h_size (header_of_entry (hd c))) = length c \<and> p + int (length c) \<le> cp_entry_count w \<and>
      (\<forall>i < length c. read_entry w (p + int i) = Some (c ! i)) \<and>
      stream_at w ((p + int (length c)) mod cp_entry_count w) cs)"

abbreviation cmd_of :: "u32 list \<Rightarrow> u32" where
  "cmd_of c \<equiv> ucast (h_command (header_of_entry (hd c)))"

fun exec_stream ::
    "'a CommandParser_scheme do_command \<Rightarrow> u32 list list \<Rightarrow> 'a CommandParser_scheme \<Rightarrow>
     (Error \<times> 'a CommandParser_scheme) option" where
  "exec_stream DoCommand [] w = Some (kNoError, w)"
| "exec_stream DoCommand (c # cs) w = do {
     p \<leftarrow> entry_addr w (cp_get w);
     (result, w1) \<leftarrow> DoCommand (cmd_of c) (of_nat (length c - 1)) p w;
     let w2 = w1\<lparr>cp_get := (cp_get w + int (length c)) mod cp_entry_count w\<rparr>;
     if result \<noteq> kNoError then Some (result, w2) else exec_stream DoCommand cs w2
   }"

text \<open>
  A handler that is quiet on a command leaves the parser's offsets and the entries of the buffer
  alone and does not defer.
\<close>

definition quiet :: "'a CommandParser_scheme do_command \<Rightarrow> u32 list \<Rightarrow> bool" where
  "quiet DoCommand c \<longleftrightarrow>
     (\<forall>p w e w'. DoCommand (cmd_of c) (of_nat (length c - 1)) p w = Some (e, w') \<longrightarrow>
        e \<noteq> kDeferCommandUntilSwapBuffersAck \<and> cp_get w' = cp_get w \<and> cp_put w' = cp_put w \<and>
        cp_entry_count w' = cp_entry_count w \<and> entry_addr w' = entry_addr w \<and> read_entry w' = read_entry w)"

lemma quietD:
  "quiet DoCommand c \<Longrightarrow> DoCommand (cmd_of c) (of_nat (length c - 1)) p w = Some (e, w') \<Longrightarrow>
   e \<noteq> kDeferCommandUntilSwapBuffersAck \<and> cp_get w' = cp_get w \<and> cp_put w' = cp_put w \<and>
   cp_entry_count w' = cp_entry_count w \<and> entry_addr w' = entry_addr w \<and> read_entry w' = read_entry w"
  unfolding quiet_def by blast

lemma stream_at_cong:
  "read_entry w' = read_entry w \<Longrightarrow> cp_entry_count w' = cp_entry_count w \<Longrightarrow> stream_at w' p cs = stream_at w p cs"
  by (induction cs arbitrary: p) auto

lemma read_entry_get [simp]: "read_entry (w\<lparr>cp_get := g\<rparr>) = read_entry w"
  by (rule ext) (simp add: read_entry_def entry_addr_def)

lemma entry_addr_get [simp]: "entry_addr (w\<lparr>cp_get := g\<rparr>) = entry_addr w"
  by (rule ext) (simp add: entry_addr_def)

abbreviation stream_len :: "u32 list list \<Rightarrow> nat" where
  "stream_len cs \<equiv> sum_list (map length cs)"

lemma mod_ring_neq:
  assumes "0 < (k::int)" and "k < n" shows "(g + k) mod n \<noteq> g mod n"
proof
  assume "(g + k) mod n = g mod n"
  then have "n dvd k" by (metis add_diff_cancel_left' mod_eq_dvd_iff)
  with assms show False by (auto dest: zdvd_imp_le)
qed

lemma of_nat_size:
  assumes "unat (s :: 21 word) = n" and "0 < n"
  shows "ucast s - 1 = (of_nat (n - 1) :: u32)"
proof -
  have "ucast s = (of_nat n :: u32)" unfolding assms(1) [symmetric] by simp
  with assms(2) show ?thesis by (simp add: of_nat_diff)
qed

lemma ProcessCommand_stream:
  assumes s: "stream_at w (cp_get w) (c # cs)" and ne: "cp_get w \<noteq> cp_put w" and pas: "quiet DoCommand c"
    and get: "0 \<le> cp_get w"
  shows "ProcessCommand DoCommand w = do {
     p \<leftarrow> entry_addr w (cp_get w);
     (result, w1) \<leftarrow> DoCommand (cmd_of c) (of_nat (length c - 1)) p w;
     Some (result, w1\<lparr>cp_get := (cp_get w + int (length c)) mod cp_entry_count w\<rparr>)
   }"
proof -
  from s have c: "0 < length c" "unat (h_size (header_of_entry (hd c))) = length c"
    and fit: "cp_get w + int (length c) \<le> cp_entry_count w" by auto
  from s c(1) have "read_entry w (cp_get w + int 0) = Some (c ! 0)" by auto
  then have r: "read_entry w (cp_get w) = Some (hd c)" using c(1) by (simp add: hd_conv_nth)
  have nz: "h_size (header_of_entry (hd c)) \<noteq> 0" using c by auto
  note sz = of_nat_size [OF c(2) c(1)]
  have u: "uint (h_size (header_of_entry (hd c))) = int (length c)" unfolding c(2) [symmetric] by simp
  have ec: "cp_entry_count w \<noteq> 0" using fit c(1) get by linarith
  show ?thesis
  proof (cases "entry_addr w (cp_get w)")
    case None
    then show ?thesis using r by (simp add: read_entry_def)
  next
    case (Some p)
    show ?thesis
    proof (cases "DoCommand (cmd_of c) (of_nat (length c - 1)) p w")
      case None
      with Some r ne nz u fit sz show ?thesis by (simp add: ProcessCommand_def Let_def)
    next
      case d: (Some rw)
      obtain e w1 where rw: "rw = (e, w1)" by fastforce
      with quietD [OF pas] d have "e \<noteq> kDeferCommandUntilSwapBuffersAck" "cp_get w1 = cp_get w"
        "cp_entry_count w1 = cp_entry_count w" by blast+
      with Some r ne nz u fit sz d rw ec show ?thesis by (simp add: ProcessCommand_def Let_def)
    qed
  qed
qed

theorem ProcessAllCommands_exec_stream:
  assumes "stream_at w (cp_get w) cs" and "\<forall>c \<in> set cs. quiet DoCommand c"
    and "cp_put w = (cp_get w + int (stream_len cs)) mod cp_entry_count w"
    and "int (stream_len cs) < cp_entry_count w" and "0 \<le> cp_get w" and "cp_get w < cp_entry_count w"
  shows "ProcessAllCommands DoCommand w = exec_stream DoCommand cs w"
  using assms
proof (induction cs arbitrary: w)
  case Nil
  then show ?case by (subst ProcessAllCommands.simps) (simp add: IsEmpty_def)
next
  case (Cons c cs)
  let ?ec = "cp_entry_count w" and ?g = "cp_get w"
  have c: "0 < length c" using Cons.prems(1) by simp
  have ne: "?g \<noteq> cp_put w"
    using mod_ring_neq [of "int (stream_len (c # cs))" ?ec ?g] Cons.prems(3-6) c by simp
  have step: "ProcessCommand DoCommand w = do {
     p \<leftarrow> entry_addr w ?g;
     (result, w1) \<leftarrow> DoCommand (cmd_of c) (of_nat (length c - 1)) p w;
     Some (result, w1\<lparr>cp_get := (?g + int (length c)) mod ?ec\<rparr>)
   }"
    using ProcessCommand_stream [OF Cons.prems(1) ne _ Cons.prems(5)] Cons.prems(2) by simp
  have rest: "ProcessAllCommands DoCommand w2 = exec_stream DoCommand cs w2"
    if d: "DoCommand (cmd_of c) (of_nat (length c - 1)) p w = Some (e, w1)"
      and w2: "w2 = w1\<lparr>cp_get := (?g + int (length c)) mod ?ec\<rparr>" for p e w1 w2
  proof -
    from Cons.prems(2) have "quiet DoCommand c" by simp
    from quietD [OF this d] have k: "cp_put w1 = cp_put w" "cp_entry_count w1 = ?ec" "read_entry w1 = read_entry w"
      by blast+
    have pos: "0 < ?ec" using Cons.prems(5,6) by simp
    show ?thesis
    proof (rule Cons.IH)
      show "stream_at w2 (cp_get w2) cs"
        using Cons.prems(1) stream_at_cong [of w2 w] k by (simp add: w2)
      show "cp_put w2 = (cp_get w2 + int (stream_len cs)) mod cp_entry_count w2"
        using Cons.prems(3) k by (simp add: w2 mod_add_left_eq add.assoc)
    qed (use Cons.prems k pos in \<open>simp_all add: w2\<close>)
  qed
  show ?case
    by (subst ProcessAllCommands.simps)
      (use ne step in \<open>auto simp: IsEmpty_def Let_def rest split: Option.bind_splits\<close>)
qed

end
