(* ===== verification/Common_Decoder.thy ===== *)
theory Common_Decoder
  imports Cmd_Parser
begin

text \<open>
  The decoder of the common commands, \<^verbatim>\<open>gpu/command_buffer/service/common_decoder.cc\<close> and
  \<^verbatim>\<open>common_decoder.h\<close>: buckets, the call stack, and one handler per command. Its state extends the
  parser's. The engine it calls (\<^verbatim>\<open>CommandBufferEngine\<close>) is the record of functions \<open>engine\<close>; the
  locale \<open>command_buffer_engine\<close> has the laws the decoder relies on, and the theory of the scheduler
  interprets it. \<^const>\<open>None\<close> is an access outside of memory or a call that does not return.
\<close>

subsection \<open>Buckets\<close>

record Bucket =
  bk_size :: u32
  bk_data :: "u8 list"

definition new_Bucket :: Bucket where
  "new_Bucket = \<lparr>bk_size = 0, bk_data = []\<rparr>"

definition OffsetSizeValid :: "Bucket \<Rightarrow> u32 \<Rightarrow> u32 \<Rightarrow> bool" where
  "OffsetSizeValid b offset sz = (let temp = offset + sz in temp \<le> bk_size b \<and> temp \<ge> offset)"

text \<open>The section as its bytes; the data of a bucket of size zero is the null pointer.\<close>

definition GetData :: "Bucket \<Rightarrow> u32 \<Rightarrow> u32 \<Rightarrow> u8 list option" where
  "GetData b offset sz =
     (if OffsetSizeValid b offset sz \<and> bk_size b \<noteq> 0
      then Some (take (unat sz) (drop (unat offset) (bk_data b))) else None)"

definition SetSize :: "u32 \<Rightarrow> Bucket \<Rightarrow> Bucket" where
  "SetSize sz b =
     (if sz \<noteq> bk_size b then \<lparr>bk_size = sz, bk_data = replicate (unat sz) 0\<rparr> else b)"

definition SetData :: "u8 list \<Rightarrow> u32 \<Rightarrow> u32 \<Rightarrow> Bucket \<Rightarrow> bool \<times> Bucket" where
  "SetData src offset sz b =
     (if OffsetSizeValid b offset sz
      then (True, b\<lparr>bk_data := take (unat offset) (bk_data b) @ take (unat sz) src @
                              drop (unat offset + unat sz) (bk_data b)\<rparr>)
      else (False, b))"

text \<open>A C string is the list of its characters before the terminating zero.\<close>

definition SetFromString :: "u8 list option \<Rightarrow> Bucket \<Rightarrow> Bucket" where
  "SetFromString str b =
     (case str of
        None \<Rightarrow> SetSize 0 b
      | Some s \<Rightarrow> let sz = of_nat (length s) + 1 in snd (SetData (s @ [0]) 0 sz (SetSize sz b)))"

definition GetAsString :: "Bucket \<Rightarrow> u8 list option" where
  "GetAsString b = (if bk_size b = 0 then None else GetData b 0 (bk_size b - 1))"

subsection \<open>The engine and the decoder's state\<close>

record CommonDecoder = CommandParser +
  buckets :: "u32 \<rightharpoonup> Bucket"
  call_stack :: "u32 list"

record 'w engine =
  e_GetSharedMemoryBuffer :: "int \<Rightarrow> 'w \<Rightarrow> Buffer"
  e_set_token :: "int \<Rightarrow> 'w \<Rightarrow> 'w"
  e_SetGetOffset :: "int \<Rightarrow> 'w \<Rightarrow> (bool \<times> 'w) option"
  e_GetGetOffset :: "'w \<Rightarrow> int option"

definition kMaxStackDepth :: nat where
  "kMaxStackDepth = 32"

definition GetAddressAndCheckSize :: "'w engine \<Rightarrow> u32 \<Rightarrow> u32 \<Rightarrow> u32 \<Rightarrow> 'w \<Rightarrow> loc option" where
  "GetAddressAndCheckSize e shm_id offset sz w =
     (let buffer = e_GetSharedMemoryBuffer e (sint shm_id) w in
      case buf_ptr buffer of
        None \<Rightarrow> None
      | Some ob \<Rightarrow>
          let last = offset + sz in
          if last > buf_size buffer \<or> last < offset then None else Some (ob, unat offset))"

definition PushAddress ::
    "'a CommonDecoder_scheme engine \<Rightarrow> u32 \<Rightarrow> 'a CommonDecoder_scheme \<Rightarrow> (bool \<times> 'a CommonDecoder_scheme) option" where
  "PushAddress e offset w =
     (if length (call_stack w) < kMaxStackDepth
      then do {
        get \<leftarrow> e_GetGetOffset e w;
        (ok, w1) \<leftarrow> e_SetGetOffset e (sint offset) w;
        Some (if ok then (True, w1\<lparr>call_stack := uint32 get # call_stack w1\<rparr>) else (False, w1))
      }
      else Some (False, w))"

definition GetBucket :: "u32 \<Rightarrow> 'a CommonDecoder_scheme \<Rightarrow> Bucket option" where
  "GetBucket bucket_id w = buckets w bucket_id"

definition CreateBucket :: "u32 \<Rightarrow> 'a CommonDecoder_scheme \<Rightarrow> Bucket \<times> 'a CommonDecoder_scheme" where
  "CreateBucket bucket_id w =
     (case GetBucket bucket_id w of
        Some b \<Rightarrow> (b, w)
      | None \<Rightarrow> (new_Bucket, w\<lparr>buckets := (buckets w)(bucket_id \<mapsto> new_Bucket)\<rparr>))"

subsection \<open>Handlers\<close>

type_synonym 'w handler = "'w \<Rightarrow> (Error \<times> 'w) option"

definition HandleNoop :: "'w handler" where
  "HandleNoop w = Some (kNoError, w)"

definition HandleSetToken :: "'w engine \<Rightarrow> u32 \<Rightarrow> 'w handler" where
  "HandleSetToken e token w = Some (kNoError, e_set_token e (sint token) w)"

definition HandleJump :: "'w engine \<Rightarrow> u32 \<Rightarrow> 'w handler" where
  "HandleJump e offset w = do {
     (ok, w1) \<leftarrow> e_SetGetOffset e (sint offset) w;
     Some (if \<not> ok then kInvalidArguments else kNoError, w1)
   }"

definition HandleJumpRelative :: "'w engine \<Rightarrow> int \<Rightarrow> 'w handler" where
  "HandleJumpRelative e offset w = do {
     get \<leftarrow> e_GetGetOffset e w;
     (ok, w1) \<leftarrow> e_SetGetOffset e (int32 (get + offset)) w;
     Some (if \<not> ok then kInvalidArguments else kNoError, w1)
   }"

definition HandleCall :: "'a CommonDecoder_scheme engine \<Rightarrow> u32 \<Rightarrow> 'a CommonDecoder_scheme handler" where
  "HandleCall e offset w = do {
     (ok, w1) \<leftarrow> PushAddress e offset w;
     Some (if \<not> ok then kInvalidArguments else kNoError, w1)
   }"

definition HandleCallRelative :: "'a CommonDecoder_scheme engine \<Rightarrow> int \<Rightarrow> 'a CommonDecoder_scheme handler" where
  "HandleCallRelative e offset w = do {
     get \<leftarrow> e_GetGetOffset e w;
     (ok, w1) \<leftarrow> PushAddress e (uint32 (int32 (get + offset))) w;
     Some (if \<not> ok then kInvalidArguments else kNoError, w1)
   }"

definition HandleReturn :: "'a CommonDecoder_scheme engine \<Rightarrow> 'a CommonDecoder_scheme handler" where
  "HandleReturn e w =
     (case call_stack w of
        [] \<Rightarrow> Some (kInvalidArguments, w)
      | return_address # rest \<Rightarrow> do {
          (ok, w1) \<leftarrow> e_SetGetOffset e (sint return_address) (w\<lparr>call_stack := rest\<rparr>);
          Some (if \<not> ok then kInvalidArguments else kNoError, w1)
        })"

definition HandleSetBucketSize :: "u32 \<Rightarrow> u32 \<Rightarrow> 'a CommonDecoder_scheme handler" where
  "HandleSetBucketSize bucket_id sz w =
     (let (bucket, w1) = CreateBucket bucket_id w
      in Some (kNoError, w1\<lparr>buckets := (buckets w1)(bucket_id \<mapsto> SetSize sz bucket)\<rparr>))"

definition HandleSetBucketData ::
    "'a CommonDecoder_scheme engine \<Rightarrow> u32 \<Rightarrow> u32 \<Rightarrow> u32 \<Rightarrow> u32 \<Rightarrow> u32 \<Rightarrow> 'a CommonDecoder_scheme handler" where
  "HandleSetBucketData e bucket_id offset sz shared_memory_id shared_memory_offset w =
     (case GetAddressAndCheckSize e shared_memory_id shared_memory_offset sz w of
        None \<Rightarrow> Some (kInvalidArguments, w)
      | Some p \<Rightarrow>
          (case GetBucket bucket_id w of
             None \<Rightarrow> Some (kInvalidArguments, w)
           | Some bucket \<Rightarrow> do {
               data \<leftarrow> read_bytes (mem w) p (unat sz);
               let (ok, bucket') = SetData data offset sz bucket;
               Some (if \<not> ok then kInvalidArguments else kNoError,
                     w\<lparr>buckets := (buckets w)(bucket_id \<mapsto> bucket')\<rparr>)
             }))"

definition HandleSetBucketDataImmediate ::
    "u32 \<Rightarrow> loc \<Rightarrow> u32 \<Rightarrow> u32 \<Rightarrow> u32 \<Rightarrow> 'a CommonDecoder_scheme handler" where
  "HandleSetBucketDataImmediate immediate_data_size immediate_data bucket_id offset sz w =
     (if sz > immediate_data_size then Some (kInvalidArguments, w)
      else case GetBucket bucket_id w of
             None \<Rightarrow> Some (kInvalidArguments, w)
           | Some bucket \<Rightarrow> do {
               data \<leftarrow> read_bytes (mem w) immediate_data (unat sz);
               let (ok, bucket') = SetData data offset sz bucket;
               Some (if \<not> ok then kInvalidArguments else kNoError,
                     w\<lparr>buckets := (buckets w)(bucket_id \<mapsto> bucket')\<rparr>)
             })"

definition HandleGetBucketSize ::
    "'a CommonDecoder_scheme engine \<Rightarrow> u32 \<Rightarrow> u32 \<Rightarrow> u32 \<Rightarrow> 'a CommonDecoder_scheme handler" where
  "HandleGetBucketSize e bucket_id shared_memory_id shared_memory_offset w =
     (case GetAddressAndCheckSize e shared_memory_id shared_memory_offset 4 w of
        None \<Rightarrow> Some (kInvalidArguments, w)
      | Some p \<Rightarrow> do {
          data \<leftarrow> read_u32 (mem w) p;
          if data \<noteq> 0 then Some (kInvalidArguments, w)
          else case GetBucket bucket_id w of
                 None \<Rightarrow> Some (kInvalidArguments, w)
               | Some bucket \<Rightarrow> do {
                   m \<leftarrow> write_u32 (mem w) p (bk_size bucket);
                   Some (kNoError, w\<lparr>mem := m\<rparr>)
                 }
        })"

definition HandleGetBucketData ::
    "'a CommonDecoder_scheme engine \<Rightarrow> u32 \<Rightarrow> u32 \<Rightarrow> u32 \<Rightarrow> u32 \<Rightarrow> u32 \<Rightarrow> 'a CommonDecoder_scheme handler" where
  "HandleGetBucketData e bucket_id offset sz shared_memory_id shared_memory_offset w =
     (case GetAddressAndCheckSize e shared_memory_id shared_memory_offset sz w of
        None \<Rightarrow> Some (kInvalidArguments, w)
      | Some p \<Rightarrow>
          (case GetBucket bucket_id w of
             None \<Rightarrow> Some (kInvalidArguments, w)
           | Some bucket \<Rightarrow>
               (case GetData bucket offset sz of
                  None \<Rightarrow> Some (kInvalidArguments, w)
                | Some src \<Rightarrow> do {
                    m \<leftarrow> write_bytes (mem w) p src;
                    Some (kNoError, w\<lparr>mem := m\<rparr>)
                  })))"

subsection \<open>Dispatch\<close>

text \<open>The table \<^verbatim>\<open>g_command_info\<close>: how the arguments of each command are checked.\<close>

definition command_info :: "(ArgFlags \<times> u32) list" where
  "command_info = map (\<lambda>c. (kArgFlags c, sizeof_cmd c div 4 - 1)) all_command_ids"

text \<open>The entries of a command structure after its header.\<close>

fun read_args :: "memory \<Rightarrow> loc \<Rightarrow> nat \<Rightarrow> u32 list option" where
  "read_args m p 0 = Some []"
| "read_args m p (Suc n) = do {
     a \<leftarrow> read_u32 m (fst p, snd p + 4);
     rest \<leftarrow> read_args m (fst p, snd p + 4) n;
     Some (a # rest)
   }"

fun dispatch_common ::
    "'a CommonDecoder_scheme engine \<Rightarrow> u32 \<Rightarrow> loc \<Rightarrow> common_cmd \<Rightarrow> 'a CommonDecoder_scheme handler" where
  "dispatch_common e imm p Noop w = HandleNoop w"
| "dispatch_common e imm p (SetToken t) w = HandleSetToken e t w"
| "dispatch_common e imm p (Jump off) w = HandleJump e off w"
| "dispatch_common e imm p (JumpRelative off) w = HandleJumpRelative e off w"
| "dispatch_common e imm p (Call off) w = HandleCall e off w"
| "dispatch_common e imm p (CallRelative off) w = HandleCallRelative e off w"
| "dispatch_common e imm p Return w = HandleReturn e w"
| "dispatch_common e imm p (SetBucketSize b sz) w = HandleSetBucketSize b sz w"
| "dispatch_common e imm p (SetBucketData b off sz i so) w = HandleSetBucketData e b off sz i so w"
| "dispatch_common e imm p (SetBucketDataImmediate b off sz) w =
     HandleSetBucketDataImmediate imm (fst p, snd p + 16) b off sz w"
| "dispatch_common e imm p (GetBucketSize b i so) w = HandleGetBucketSize e b i so w"
| "dispatch_common e imm p (GetBucketData b off sz i so) w = HandleGetBucketData e b off sz i so w"

partial_function (option) DoCommonCommand ::
    "'a CommonDecoder_scheme engine \<Rightarrow> u32 \<Rightarrow> u32 \<Rightarrow> loc \<Rightarrow> 'a CommonDecoder_scheme handler" where
  "DoCommonCommand e command arg_count cmd_data w =
     (if unat command < length command_info
      then let (flags, info_arg_count) = command_info ! unat command in
           if flags = kFixed \<and> arg_count = info_arg_count \<or> flags = kAtLeastN \<and> arg_count \<ge> info_arg_count
           then do {
             args \<leftarrow> read_args (mem w) cmd_data (unat info_arg_count);
             cmd \<leftarrow> decode_common (all_command_ids ! unat command) args;
             dispatch_common e ((arg_count - info_arg_count) * 4) cmd_data cmd w
           }
           else Some (kInvalidArguments, w)
      else DoCommonCommand e command arg_count cmd_data w)"

subsection \<open>Buckets: bounds and round trips\<close>

definition bucket_ok :: "Bucket \<Rightarrow> bool" where
  "bucket_ok b \<longleftrightarrow> length (bk_data b) = unat (bk_size b)"

text \<open>The overflow check: a valid section lies inside the bucket.\<close>

lemma OffsetSizeValid_iff: "OffsetSizeValid b offset sz \<longleftrightarrow> unat offset + unat sz \<le> unat (bk_size b)"
proof (cases "unat offset + unat sz < 4294967296")
  case True
  then have "unat (offset + sz) = unat offset + unat sz" by (rule u32_add)
  then show ?thesis by (simp add: OffsetSizeValid_def Let_def word_le_nat_alt)
next
  case False
  have "unat (offset + sz) = unat offset + unat sz - 4294967296"
    using False u32_lt [of offset] u32_lt [of sz] by (simp add: unat_word_ariths mod_if)
  then have "unat (offset + sz) < unat offset" using False u32_lt [of sz] by simp
  with False u32_lt [of "bk_size b"] show ?thesis by (auto simp: OffsetSizeValid_def Let_def word_le_nat_alt)
qed

lemma SetSize_ok: "bucket_ok b \<Longrightarrow> bucket_ok (SetSize sz b)"
  by (simp add: bucket_ok_def SetSize_def)

lemma SetData_ok:
  "bucket_ok b \<Longrightarrow> length src = unat sz \<Longrightarrow> SetData src offset sz b = (ok, b') \<Longrightarrow>
   bucket_ok b' \<and> bk_size b' = bk_size b \<and> ok = (unat offset + unat sz \<le> unat (bk_size b))"
  by (auto simp: bucket_ok_def SetData_def OffsetSizeValid_iff split: if_splits)

lemma GetData_SetData:
  assumes "bucket_ok b" and "length src = unat sz" and "SetData src offset sz b = (True, b')" and "bk_size b \<noteq> 0"
  shows "GetData b' offset sz = Some src"
  using assms by (auto simp: bucket_ok_def SetData_def GetData_def OffsetSizeValid_iff split: if_splits)

lemma GetAsString_SetFromString:
  assumes "length s + 1 < 4294967296"
  shows "GetAsString (SetFromString (Some s) b) = Some s"
proof -
  let ?sz = "of_nat (length s) + 1 :: u32"
  have len: "unat (of_nat (length s) :: u32) = length s" using assms by (simp add: unsigned_of_nat take_bit_nat_eq_self_iff)
  have sz: "unat ?sz = length s + 1" using assms len by (simp add: u32_add)
  then have nz: "?sz \<noteq> 0" by (metis add_is_0 one_neq_zero unat_0)
  define b1 where "b1 = snd (SetData (s @ [0]) 0 ?sz (SetSize ?sz b))"
  have s1: "bk_size (SetSize ?sz b) = ?sz" by (simp add: SetSize_def)
  have b1: "bk_size b1 = ?sz" "take (length s + 1) (bk_data b1) = s @ [0]"
    using sz s1 by (simp_all add: b1_def SetData_def OffsetSizeValid_iff)
  have "unat (?sz - 1) = length s" using len by simp
  moreover have "take (length s) (bk_data b1) = s"
    using b1(2) by (metis append_eq_conv_conj le_add1 min.absorb1 take_take)
  ultimately have "GetData b1 0 (?sz - 1) = Some s"
    using b1 nz sz by (simp add: GetData_def OffsetSizeValid_iff)
  then show ?thesis using b1 nz by (simp add: GetAsString_def SetFromString_def b1_def Let_def)
qed

lemma GetAsString_null: "GetAsString (SetFromString None b) = None"
  by (simp add: GetAsString_def SetFromString_def SetSize_def)

subsection \<open>What the decoder relies on, and what it keeps\<close>

definition dec_inv :: "'a CommonDecoder_scheme \<Rightarrow> bool" where
  "dec_inv w \<longleftrightarrow> (\<forall>i b. buckets w i = Some b \<longrightarrow> bucket_ok b) \<and> length (call_stack w) \<le> kMaxStackDepth"

text \<open>
  The laws of a \<^verbatim>\<open>CommandBufferEngine\<close>, for an invariant \<open>inv\<close> of the whole state: the buffers it
  gives out lie inside memory; setting the get offset succeeds exactly for an index of the buffer.
\<close>

locale command_buffer_engine =
  fixes e :: "'a CommonDecoder_scheme engine"
    and inv :: "'a CommonDecoder_scheme \<Rightarrow> bool"
  assumes inv_parser: "inv w \<Longrightarrow> parser_inv w"
    and inv_get: "inv w \<Longrightarrow> 0 \<le> g \<Longrightarrow> g < cp_entry_count w \<Longrightarrow> inv (w\<lparr>cp_get := g\<rparr>)"
    and inv_mem: "inv w \<Longrightarrow> (\<And>ob. length (m ob) = length (mem w ob)) \<Longrightarrow> inv (w\<lparr>mem := m\<rparr>)"
    and inv_buckets: "inv w \<Longrightarrow> inv (w\<lparr>buckets := bs\<rparr>)"
    and inv_stack: "inv w \<Longrightarrow> inv (w\<lparr>call_stack := st\<rparr>)"
    and buffer_in_memory: "inv w \<Longrightarrow> buf_ptr (e_GetSharedMemoryBuffer e i w) = Some ob \<Longrightarrow>
      unat (buf_size (e_GetSharedMemoryBuffer e i w)) \<le> length (mem w ob)"
    and set_token_inv: "inv w \<Longrightarrow> inv (e_set_token e t w)"
    and set_token_frame: "cp_entry_count (e_set_token e t w) = cp_entry_count w \<and>
      buckets (e_set_token e t w) = buckets w \<and> call_stack (e_set_token e t w) = call_stack w"
    and SetGetOffset_inv: "inv w \<Longrightarrow> e_SetGetOffset e g w = Some (ok, w') \<Longrightarrow> inv w'"
    and SetGetOffset_frame: "e_SetGetOffset e g w = Some (ok, w') \<Longrightarrow> cp_entry_count w' = cp_entry_count w \<and>
      buckets w' = buckets w \<and> call_stack w' = call_stack w"
    and SetGetOffset_ok: "inv w \<Longrightarrow> \<exists>w'. e_SetGetOffset e g w = Some (0 \<le> g \<and> g < cp_entry_count w, w') \<and>
      (0 \<le> g \<and> g < cp_entry_count w \<longrightarrow> cp_get w' = g)"
    and GetGetOffset_ok: "inv w \<Longrightarrow> e_GetGetOffset e w = Some (cp_get w)"
begin

lemma GetAddressAndCheckSize_in_memory:
  assumes "inv w" and "GetAddressAndCheckSize e i off sz w = Some p"
  shows "snd p + unat sz \<le> length (mem w (fst p))"
proof -
  let ?b = "e_GetSharedMemoryBuffer e (sint i) w"
  from assms(2) obtain ob where b: "buf_ptr ?b = Some ob" and p: "p = (ob, unat off)"
    and le: "off + sz \<le> buf_size ?b" "off \<le> off + sz"
    by (auto simp: GetAddressAndCheckSize_def Let_def not_less split: option.splits if_splits)
  from le have "unat off + unat sz \<le> unat (buf_size ?b)"
    using OffsetSizeValid_iff [of "\<lparr>bk_size = buf_size ?b, bk_data = []\<rparr>" off sz] by (simp add: OffsetSizeValid_def Let_def)
  with buffer_in_memory [OF assms(1) b] p show ?thesis by simp
qed

lemma set_offset_keeps:
  "inv w \<Longrightarrow> dec_inv w \<Longrightarrow> e_SetGetOffset e g w = Some (ok, w') \<Longrightarrow>
   inv w' \<and> dec_inv w' \<and> cp_entry_count w' = cp_entry_count w"
  using SetGetOffset_inv SetGetOffset_frame by (metis dec_inv_def)

lemma PushAddress_keeps:
  assumes "inv w" and "dec_inv w" and "PushAddress e off w = Some (ok, w')"
  shows "inv w' \<and> dec_inv w' \<and> cp_entry_count w' = cp_entry_count w"
proof (cases "length (call_stack w) < kMaxStackDepth")
  case False
  with assms show ?thesis by (simp add: PushAddress_def)
next
  case True
  with assms(3) have "\<exists>ok1 w1. e_SetGetOffset e (sint off) w = Some (ok1, w1) \<and>
      (w' = w1 \<or> (\<exists>get. w' = w1\<lparr>call_stack := uint32 get # call_stack w1\<rparr>))"
    by (auto simp: PushAddress_def split: Option.bind_splits if_splits)
  then obtain ok1 w1 get where s: "e_SetGetOffset e (sint off) w = Some (ok1, w1)"
    and w': "w' = w1 \<or> w' = w1\<lparr>call_stack := uint32 get # call_stack w1\<rparr>" by blast
  note k = set_offset_keeps [OF assms(1,2) s]
  have "call_stack w1 = call_stack w" using SetGetOffset_frame [OF s] by simp
  with k w' True show ?thesis using inv_stack [of w1] by (auto simp: dec_inv_def)
qed

lemma write_mem_keeps:
  "inv w \<Longrightarrow> dec_inv w \<Longrightarrow> write_bytes (mem w) p bs = Some m \<Longrightarrow>
   inv (w\<lparr>mem := m\<rparr>) \<and> dec_inv (w\<lparr>mem := m\<rparr>) \<and> cp_entry_count (w\<lparr>mem := m\<rparr>) = cp_entry_count w"
  using inv_mem write_bytes_length by (auto simp: dec_inv_def)

lemma set_bucket_keeps:
  "inv w \<Longrightarrow> dec_inv w \<Longrightarrow> bucket_ok b \<Longrightarrow>
   inv (w\<lparr>buckets := (buckets w)(i \<mapsto> b)\<rparr>) \<and> dec_inv (w\<lparr>buckets := (buckets w)(i \<mapsto> b)\<rparr>)"
  using inv_buckets by (auto simp: dec_inv_def)

lemma SetBucket_keeps:
  assumes "inv w" and "dec_inv w" and "buckets w i = Some b" and "read_bytes (mem w) p (unat sz) = Some data"
    and "SetData data off sz b = (ok, b')"
  shows "inv (w\<lparr>buckets := (buckets w)(i \<mapsto> b')\<rparr>) \<and> dec_inv (w\<lparr>buckets := (buckets w)(i \<mapsto> b')\<rparr>)"
proof -
  have "bucket_ok b" using assms(2,3) by (auto simp: dec_inv_def)
  from SetData_ok [OF this read_bytes_length [OF assms(4)] assms(5)] set_bucket_keeps [OF assms(1,2)]
  show ?thesis by blast
qed

lemma HandleReturn_keeps:
  assumes "inv w" and "dec_inv w" and "HandleReturn e w = Some (err, w')"
  shows "inv w' \<and> dec_inv w' \<and> cp_entry_count w' = cp_entry_count w"
proof (cases "call_stack w")
  case Nil
  with assms show ?thesis by (simp add: HandleReturn_def)
next
  case (Cons r rest)
  with assms(3) obtain ok where "e_SetGetOffset e (sint r) (w\<lparr>call_stack := rest\<rparr>) = Some (ok, w')"
    by (auto simp: HandleReturn_def split: Option.bind_splits)
  moreover have "inv (w\<lparr>call_stack := rest\<rparr>)" "dec_inv (w\<lparr>call_stack := rest\<rparr>)"
    using assms(1,2) Cons inv_stack by (auto simp: dec_inv_def)
  ultimately have "inv w' \<and> dec_inv w' \<and> cp_entry_count w' = cp_entry_count (w\<lparr>call_stack := rest\<rparr>)"
    by (intro set_offset_keeps)
  then show ?thesis by simp
qed

lemma dispatch_common_keeps:
  assumes "inv w" and "dec_inv w" and "dispatch_common e imm p cmd w = Some (err, w')"
  shows "inv w' \<and> dec_inv w' \<and> cp_entry_count w' = cp_entry_count w"
proof (cases cmd)
  case Noop
  with assms show ?thesis by (simp add: HandleNoop_def)
next
  case (SetToken t)
  with assms show ?thesis
    using set_token_inv set_token_frame by (auto simp: HandleSetToken_def dec_inv_def)
next
  case (Jump off)
  with assms(3) obtain g ok where "e_SetGetOffset e g w = Some (ok, w')"
    by (auto simp: HandleJump_def split: Option.bind_splits)
  from set_offset_keeps [OF assms(1,2) this] show ?thesis .
next
  case (JumpRelative off)
  with assms(3) obtain g ok where "e_SetGetOffset e g w = Some (ok, w')"
    by (auto simp: HandleJumpRelative_def split: Option.bind_splits)
  from set_offset_keeps [OF assms(1,2) this] show ?thesis .
next
  case (Call off)
  with assms(3) obtain g ok where "PushAddress e g w = Some (ok, w')"
    by (auto simp: HandleCall_def split: Option.bind_splits)
  from PushAddress_keeps [OF assms(1,2) this] show ?thesis .
next
  case (CallRelative off)
  with assms(3) obtain g ok where "PushAddress e g w = Some (ok, w')"
    by (auto simp: HandleCallRelative_def split: Option.bind_splits)
  from PushAddress_keeps [OF assms(1,2) this] show ?thesis .
next
  case Return
  with assms(3) have "HandleReturn e w = Some (err, w')" by simp
  from HandleReturn_keeps [OF assms(1,2) this] show ?thesis .
next
  case (SetBucketSize i sz)
  have "bucket_ok new_Bucket" by (simp add: new_Bucket_def bucket_ok_def)
  with SetBucketSize assms(2,3) obtain b where "bucket_ok b"
    and w': "w' = w\<lparr>buckets := (buckets w)(i \<mapsto> SetSize sz b)\<rparr>"
    by (cases "buckets w i") (auto simp: HandleSetBucketSize_def CreateBucket_def GetBucket_def dec_inv_def)
  from set_bucket_keeps [OF assms(1,2) SetSize_ok [OF this(1)]] show ?thesis unfolding w' by simp
next
  case (SetBucketData i off sz si so)
  with assms SetBucket_keeps [OF assms(1,2), of i] show ?thesis
    by (auto simp: HandleSetBucketData_def GetBucket_def split: option.splits Option.bind_splits prod.splits)
next
  case (SetBucketDataImmediate i off sz)
  with assms SetBucket_keeps [OF assms(1,2), of i] show ?thesis
    by (auto simp: HandleSetBucketDataImmediate_def GetBucket_def
        split: option.splits Option.bind_splits prod.splits if_splits)
next
  case (GetBucketSize i si so)
  with assms write_mem_keeps [OF assms(1,2)] show ?thesis
    by (auto simp: HandleGetBucketSize_def write_u32_def split: option.splits Option.bind_splits if_splits)
next
  case (GetBucketData i off sz si so)
  with assms write_mem_keeps [OF assms(1,2)] show ?thesis
    by (auto simp: HandleGetBucketData_def split: option.splits Option.bind_splits)
qed

text \<open>No handler reads or writes outside of memory.\<close>

lemma read_in_memory:
  "inv w \<Longrightarrow> GetAddressAndCheckSize e i off sz w = Some p \<Longrightarrow> read_bytes (mem w) p (unat sz) \<noteq> None"
  using GetAddressAndCheckSize_in_memory [of w i off sz p] by (simp add: read_bytes_def)

lemma write_in_memory:
  "inv w \<Longrightarrow> GetAddressAndCheckSize e i off sz w = Some p \<Longrightarrow> length bs = unat sz \<Longrightarrow>
   write_bytes (mem w) p bs \<noteq> None"
  using GetAddressAndCheckSize_in_memory [of w i off sz p] by (simp add: write_bytes_def)

lemma SetGetOffset_total: "inv w \<Longrightarrow> e_SetGetOffset e g w \<noteq> None"
  using SetGetOffset_ok [of w g] by auto

lemma PushAddress_total: "inv w \<Longrightarrow> PushAddress e off w \<noteq> None"
  using SetGetOffset_total [of w "sint off"] by (auto simp: PushAddress_def GetGetOffset_ok)

lemma dispatch_common_total:
  assumes inv: "inv w" and dec: "dec_inv w" and imm: "\<And>i off sz. cmd = SetBucketDataImmediate i off sz \<Longrightarrow> snd p + 16 + unat imm \<le> length (mem w (fst p))"
  shows "dispatch_common e imm p cmd w \<noteq> None"
proof (cases cmd)
  case Noop
  then show ?thesis by (simp add: HandleNoop_def)
next
  case (SetToken t)
  then show ?thesis by (simp add: HandleSetToken_def)
next
  case (Jump off)
  with SetGetOffset_total [OF inv] show ?thesis
    by (simp add: HandleJump_def bind_eq_None_conv case_prod_unfold)
next
  case (JumpRelative off)
  with SetGetOffset_total [OF inv] show ?thesis
    by (simp add: HandleJumpRelative_def GetGetOffset_ok [OF inv] bind_eq_None_conv case_prod_unfold)
next
  case (Call off)
  with PushAddress_total [OF inv] show ?thesis
    by (simp add: HandleCall_def bind_eq_None_conv case_prod_unfold)
next
  case (CallRelative off)
  with PushAddress_total [OF inv] show ?thesis
    by (simp add: HandleCallRelative_def GetGetOffset_ok [OF inv] bind_eq_None_conv case_prod_unfold)
next
  case Return
  with SetGetOffset_total [OF inv_stack [OF inv]] show ?thesis
    by (cases "call_stack w") (simp_all add: HandleReturn_def bind_eq_None_conv case_prod_unfold)
next
  case (SetBucketSize i sz)
  then show ?thesis by (simp add: HandleSetBucketSize_def split: prod.splits)
next
  case (SetBucketData i off sz si so)
  with read_in_memory [OF inv, of si so sz] show ?thesis
    by (auto simp: HandleSetBucketData_def Let_def split: option.splits prod.splits)
next
  case (SetBucketDataImmediate i off sz)
  have "read_bytes (mem w) (fst p, snd p + 16) (unat sz) \<noteq> None" if "sz \<le> imm"
    using imm [OF SetBucketDataImmediate] that by (simp add: read_bytes_def word_le_nat_alt)
  with SetBucketDataImmediate show ?thesis
    by (auto simp: HandleSetBucketDataImmediate_def Let_def not_less split: option.splits prod.splits)
next
  case (GetBucketSize i si so)
  show ?thesis
  proof (cases "GetAddressAndCheckSize e si so 4 w")
    case None
    with GetBucketSize show ?thesis by (simp add: HandleGetBucketSize_def)
  next
    case (Some q)
    then have "read_u32 (mem w) q \<noteq> None" and "\<And>v. write_u32 (mem w) q v \<noteq> None"
      using read_in_memory [OF inv Some] write_in_memory [OF inv Some]
      by (simp_all add: read_u32_def write_u32_def)
    with GetBucketSize Some show ?thesis
      by (auto simp: HandleGetBucketSize_def bind_eq_None_conv simp del: not_None_eq split: option.splits)
  qed
next
  case (GetBucketData i off sz si so)
  have "length src = unat sz" if "GetBucket i w = Some b" "GetData b off sz = Some src" for b src
    using that dec by (auto simp: GetBucket_def dec_inv_def bucket_ok_def GetData_def OffsetSizeValid_iff split: if_splits)
  then have "write_bytes (mem w) q src \<noteq> None"
    if "GetAddressAndCheckSize e si so sz w = Some q" "GetBucket i w = Some b" "GetData b off sz = Some src" for q b src
    using write_in_memory [OF inv that(1)] that(2,3) by blast
  with GetBucketData show ?thesis
    by (simp add: HandleGetBucketData_def bind_eq_None_conv del: not_None_eq split: option.splits)
qed

end

subsection \<open>The dispatch of \<^verbatim>\<open>DoCommonCommand\<close>\<close>

lemma length_command_info [simp]: "length command_info = 12"
  by (simp add: command_info_def all_command_ids_def)

text \<open>An unknown command makes the function call itself with the same arguments for ever.\<close>

lemma DoCommonCommand_unknown:
  assumes "12 \<le> unat command"
  shows "DoCommonCommand e command n p w = None"
proof -
  have "unat command < 12" if "DoCommonCommand e command n p w = Some r" for r
    by (rule DoCommonCommand.raw_induct [OF _ that]) (auto split: if_splits)
  with assms show ?thesis by (cases "DoCommonCommand e command n p w") force+
qed

lemma DoCommonCommand_known:
  assumes "command_info ! unat command = (flags, info_arg_count)" and "unat command < 12"
    and "if flags = kFixed then arg_count = info_arg_count else arg_count \<ge> info_arg_count"
  shows "DoCommonCommand e command arg_count p w = do {
     args \<leftarrow> read_args (mem w) p (unat info_arg_count);
     cmd \<leftarrow> decode_common (all_command_ids ! unat command) args;
     dispatch_common e ((arg_count - info_arg_count) * 4) p cmd w
   }"
  using assms by (subst DoCommonCommand.simps) (cases flags; auto)

lemma DoCommonCommand_bad_args:
  assumes "command_info ! unat command = (flags, info_arg_count)" and "unat command < 12"
    and "\<not> (if flags = kFixed then arg_count = info_arg_count else arg_count \<ge> info_arg_count)"
  shows "DoCommonCommand e command arg_count p w = Some (kInvalidArguments, w)"
  using assms by (subst DoCommonCommand.simps) (cases flags; auto)

lemma read_args_length: "read_args m p n = Some args \<Longrightarrow> length args = n"
  by (induction n arbitrary: p args) (auto split: Option.bind_splits)

lemma read_args_total: "snd p + 4 * (n + 1) \<le> length (m (fst p)) \<Longrightarrow> read_args m p n \<noteq> None"
proof (induction n arbitrary: p)
  case (Suc n)
  have "read_u32 m (fst p, snd p + 4) \<noteq> None" using Suc.prems by (simp add: read_u32_def read_bytes_def)
  moreover have "read_args m (fst p, snd p + 4) n \<noteq> None" using Suc.IH [of "(fst p, snd p + 4)"] Suc.prems by simp
  ultimately show ?case by auto
qed simp

text \<open>The number of argument entries of each command, evaluated from the table.\<close>

fun arg_entries :: "CommandId \<Rightarrow> nat" where
  "arg_entries kNoop = 0" | "arg_entries kReturn = 0" | "arg_entries kSetBucketSize = 2"
| "arg_entries kSetBucketData = 5" | "arg_entries kSetBucketDataImmediate = 3"
| "arg_entries kGetBucketSize = 3" | "arg_entries kGetBucketData = 5" | "arg_entries _ = 1"

lemma arg_entries_sizeof: "unat (sizeof_cmd c div 4 - 1) = arg_entries c"
  by (cases c) simp_all

lemma decode_common_total: "length args = arg_entries c \<Longrightarrow> decode_common c args \<noteq> None"
  by (cases c) (auto simp: length_Suc_conv numeral_eq_Suc)

lemma command_info_nth:
  assumes "n < 12"
  shows "command_info ! n = (kArgFlags (all_command_ids ! n), sizeof_cmd (all_command_ids ! n) div 4 - 1)"
  using assms length_command_info unfolding command_info_def by (simp only: length_map nth_map)

lemma decode_common_immediate:
  "decode_common c args = Some (SetBucketDataImmediate b off sz) \<Longrightarrow> c = kSetBucketDataImmediate"
  by (cases "(c, args)" rule: decode_common.cases) auto

context command_buffer_engine
begin

lemma DoCommonCommand_keeps:
  assumes "inv w" and "dec_inv w" and d: "DoCommonCommand e c n p w = Some (err, w')"
  shows "inv w' \<and> dec_inv w' \<and> cp_entry_count w' = cp_entry_count w"
proof -
  obtain flags k where info: "command_info ! unat c = (flags, k)" by fastforce
  have c: "unat c < 12" using d DoCommonCommand_unknown [of c e n p w] by fastforce
  show ?thesis
  proof (cases "if flags = kFixed then n = k else n \<ge> k")
    case True
    from d obtain cmd where "dispatch_common e ((n - k) * 4) p cmd w = Some (err, w')"
      unfolding DoCommonCommand_known [OF info c True] by (auto split: Option.bind_splits)
    from dispatch_common_keeps [OF assms(1,2) this] show ?thesis .
  next
    case False
    with d assms show ?thesis unfolding DoCommonCommand_bad_args [OF info c False] by simp
  qed
qed

text \<open>
  A known command whose entries lie in memory is executed or refused, whatever its arguments: the
  decoder never accesses memory out of bounds.
\<close>

lemma DoCommonCommand_total:
  assumes "inv w" and "dec_inv w" and c: "unat c < 12"
    and fit: "snd p + 4 * (unat n + 1) \<le> length (mem w (fst p))" and n: "unat n < 2 ^ 21"
  shows "DoCommonCommand e c n p w \<noteq> None"
proof -
  let ?id = "all_command_ids ! unat c"
  obtain flags k where info: "command_info ! unat c = (flags, k)" by fastforce
  from command_info_nth [OF c] info have k: "unat k = arg_entries ?id" by (simp add: arg_entries_sizeof)
  show ?thesis
  proof (cases "if flags = kFixed then n = k else n \<ge> k")
    case False
    show ?thesis unfolding DoCommonCommand_bad_args [OF info c False] by simp
  next
    case True
    then have le: "k \<le> n" by (auto split: if_splits)
    then have "snd p + 4 * (arg_entries ?id + 1) \<le> length (mem w (fst p))"
      using fit k by (simp add: word_le_nat_alt)
    then obtain args where args: "read_args (mem w) p (unat k) = Some args"
      using read_args_total [of p "unat k" "mem w"] k by auto
    with read_args_length [OF args] decode_common_total [of args ?id] k
    obtain cmd where cmd: "decode_common ?id args = Some cmd" by auto
    have "dispatch_common e ((n - k) * 4) p cmd w \<noteq> None"
    proof (rule dispatch_common_total [OF assms(1,2)])
      fix i off sz
      assume "cmd = SetBucketDataImmediate i off sz"
      with decode_common_immediate cmd have "?id = kSetBucketDataImmediate" by blast
      with k have "unat k = 3" by simp
      moreover have "unat ((n - k) * 4) = (unat n - unat k) * 4"
        unfolding unat_word_ariths(2) [of "n - k"] u32_sub [OF le] using n by simp
      ultimately show "snd p + 16 + unat ((n - k) * 4) \<le> length (mem w (fst p))"
        using fit le by (simp add: word_le_nat_alt)
    qed
    then show ?thesis unfolding DoCommonCommand_known [OF info c True] using args cmd by simp
  qed
qed

end

text \<open>So the decoder of the common commands is a handler for the parser.\<close>

sublocale command_buffer_engine < async: async_api "DoCommonCommand e" "\<lambda>w. inv w \<and> dec_inv w"
proof unfold_locales
  fix w assume "inv w \<and> dec_inv w"
  then show "parser_inv w" using inv_parser by blast
next
  fix w and g :: int assume "inv w \<and> dec_inv w" "0 \<le> g" "g < cp_entry_count w"
  then show "inv (w\<lparr>cp_get := g\<rparr>) \<and> dec_inv (w\<lparr>cp_get := g\<rparr>)" using inv_get by (auto simp: dec_inv_def)
next
  fix w c n p err w' assume a: "inv w \<and> dec_inv w" and d: "DoCommonCommand e c n p w = Some (err, w')"
  from DoCommonCommand_keeps [OF _ _ d] a show "inv w' \<and> dec_inv w'" by blast
next
  fix w c n p err w' assume a: "inv w \<and> dec_inv w" and d: "DoCommonCommand e c n p w = Some (err, w')"
  from DoCommonCommand_keeps [OF _ _ d] a show "cp_entry_count w' = cp_entry_count w" by blast
qed

text \<open>The commands that move data into buckets, the token and the padding are quiet.\<close>

definition quiet_ids :: "CommandId set" where
  "quiet_ids = {kNoop, kSetToken, kSetBucketSize, kSetBucketData, kSetBucketDataImmediate}"

definition quiet_cmd :: "u32 list \<Rightarrow> bool" where
  "quiet_cmd c \<longleftrightarrow> unat (cmd_of c) < 12 \<and> all_command_ids ! unat (cmd_of c) \<in> quiet_ids"

end
