(* ===== verification/Command_Buffer_Service.thy ===== *)
theory Command_Buffer_Service
  imports Common_Decoder
begin

text \<open>
  The service side of the command buffer, \<^verbatim>\<open>gpu/command_buffer/service/command_buffer_service.cc\<close>: the
  offsets, the token and the error that client and service share, and the table of transfer
  buffers. Its state extends the decoder's. A closure that the service holds is an argument of the
  operations that run it: \<^const>\<open>None\<close> is the null closure. Mapping shared memory (\<^verbatim>\<open>base::SharedMemory\<close>)
  is the parameter \<open>map_shm\<close>; a mapping is a memory object, and unmapping leaves it empty. The
  assertions of the service are compiled out in the release build and are not guards of the model.
\<close>

subsection \<open>State\<close>

record State =
  st_num_entries :: int
  st_get_offset :: int
  st_put_offset :: int
  st_token :: int
  st_error :: Error
  st_context_lost_reason :: ContextLostReason
  st_generation :: u32

definition new_State :: State where
  "new_State = \<lparr>st_num_entries = 0, st_get_offset = 0, st_put_offset = 0, st_token = -1,
     st_error = kNoError, st_context_lost_reason = kUnknown, st_generation = 0\<rparr>"

record CommandBufferService = CommonDecoder +
  cs_ring_buffer_id :: int
  cs_ring_buffer :: Buffer
  cs_num_entries :: int
  cs_get_offset :: int
  cs_put_offset :: int
  cs_registered_objects :: "Buffer list"
  cs_unused_elements :: "int list"
  cs_token :: int
  cs_generation :: u32
  cs_error :: Error
  cs_context_lost_reason :: ContextLostReason
  cs_shared_memory_bytes_allocated :: u32

definition service_init :: "'a CommandBufferService_scheme \<Rightarrow> 'a CommandBufferService_scheme" where
  "service_init w = w\<lparr>cs_ring_buffer_id := -1, cs_ring_buffer := null_Buffer, cs_num_entries := 0,
     cs_get_offset := 0, cs_put_offset := 0, cs_registered_objects := [null_Buffer],
     cs_unused_elements := [], cs_token := 0, cs_generation := 0, cs_error := kNoError,
     cs_context_lost_reason := kUnknown, cs_shared_memory_bytes_allocated := 0\<rparr>"

subsection \<open>Offsets, token and error\<close>

definition GetState :: "'a CommandBufferService_scheme \<Rightarrow> State \<times> 'a CommandBufferService_scheme" where
  "GetState w =
     (let g = cs_generation w + 1 in
      (\<lparr>st_num_entries = cs_num_entries w, st_get_offset = cs_get_offset w, st_put_offset = cs_put_offset w,
        st_token = cs_token w, st_error = cs_error w, st_context_lost_reason = cs_context_lost_reason w,
        st_generation = g\<rparr>, w\<lparr>cs_generation := g\<rparr>))"

definition GetLastState :: "'a CommandBufferService_scheme \<Rightarrow> State \<times> 'a CommandBufferService_scheme" where
  "GetLastState w = GetState w"

definition run_closure :: "('w \<Rightarrow> 'w option) option \<Rightarrow> 'w \<Rightarrow> 'w option" where
  "run_closure cb w = (case cb of None \<Rightarrow> Some w | Some f \<Rightarrow> f w)"

type_synonym 'w closure = "('w \<Rightarrow> 'w option) option"

text \<open>The part of the state that executing commands does not change.\<close>

definition buffers_of :: "'a CommandBufferService_scheme \<Rightarrow> Buffer list \<times> int" where
  "buffers_of w = (cs_registered_objects w, cs_ring_buffer_id w)"

definition Flush ::
    "'a CommandBufferService_scheme closure \<Rightarrow> int \<Rightarrow> 'a CommandBufferService_scheme \<Rightarrow>
     'a CommandBufferService_scheme option" where
  "Flush put_offset_change put_offset w =
     (if put_offset < 0 \<or> put_offset > cs_num_entries w
      then Some (w\<lparr>cs_error := kOutOfBounds\<rparr>)
      else run_closure put_offset_change (w\<lparr>cs_put_offset := put_offset\<rparr>))"

definition FlushSync ::
    "'a CommandBufferService_scheme closure \<Rightarrow> int \<Rightarrow> int \<Rightarrow> 'a CommandBufferService_scheme \<Rightarrow>
     (State \<times> 'a CommandBufferService_scheme) option" where
  "FlushSync put_offset_change put_offset last_known_get w =
     (if put_offset < 0 \<or> put_offset > cs_num_entries w
      then Some (GetState (w\<lparr>cs_error := kOutOfBounds\<rparr>))
      else map_option GetState (run_closure put_offset_change (w\<lparr>cs_put_offset := put_offset\<rparr>)))"

definition cs_SetGetOffset :: "int \<Rightarrow> 'a CommandBufferService_scheme \<Rightarrow> 'a CommandBufferService_scheme" where
  "cs_SetGetOffset get_offset w = w\<lparr>cs_get_offset := get_offset\<rparr>"

definition cs_SetToken :: "int \<Rightarrow> 'a CommandBufferService_scheme \<Rightarrow> 'a CommandBufferService_scheme" where
  "cs_SetToken token w = w\<lparr>cs_token := token\<rparr>"

definition SetParseError ::
    "'a CommandBufferService_scheme closure \<Rightarrow> Error \<Rightarrow> 'a CommandBufferService_scheme \<Rightarrow>
     'a CommandBufferService_scheme option" where
  "SetParseError parse_error err w =
     (if cs_error w = kNoError then run_closure parse_error (w\<lparr>cs_error := err\<rparr>) else Some w)"

definition SetContextLostReason ::
    "ContextLostReason \<Rightarrow> 'a CommandBufferService_scheme \<Rightarrow> 'a CommandBufferService_scheme" where
  "SetContextLostReason reason w = w\<lparr>cs_context_lost_reason := reason\<rparr>"

subsection \<open>Transfer buffers\<close>

definition GetTransferBuffer :: "int \<Rightarrow> 'a CommandBufferService_scheme \<Rightarrow> Buffer" where
  "GetTransferBuffer handle w =
     (if handle < 0 then null_Buffer
      else if nat handle \<ge> length (cs_registered_objects w) then null_Buffer
      else cs_registered_objects w ! nat handle)"

definition SetGetBuffer ::
    "(int \<Rightarrow> 'a CommandBufferService_scheme \<Rightarrow> (bool \<times> 'a CommandBufferService_scheme) option) option \<Rightarrow> int \<Rightarrow>
     'a CommandBufferService_scheme \<Rightarrow> 'a CommandBufferService_scheme option" where
  "SetGetBuffer get_buffer_change transfer_buffer_id w =
     (let b = GetTransferBuffer transfer_buffer_id w;
          w1 = w\<lparr>cs_ring_buffer := b, cs_ring_buffer_id := transfer_buffer_id,
                 cs_num_entries := sint (buf_size b div 4), cs_put_offset := 0\<rparr>;
          w2 = cs_SetGetOffset 0 w1
      in case get_buffer_change of
           None \<Rightarrow> Some w2
         | Some f \<Rightarrow> map_option snd (f transfer_buffer_id w2))"

definition RegisterTransferBuffer ::
    "(obj \<Rightarrow> u32 \<Rightarrow> 'a CommandBufferService_scheme \<Rightarrow> (obj \<times> 'a CommandBufferService_scheme) option) \<Rightarrow>
     obj \<Rightarrow> u32 \<Rightarrow> int \<Rightarrow> 'a CommandBufferService_scheme \<Rightarrow> int \<times> 'a CommandBufferService_scheme" where
  "RegisterTransferBuffer map_shm shared_memory sz id_request w0 =
     (if cs_unused_elements w0 = [] \<and> length (cs_registered_objects w0) > 4294967295 then (-1, w0)
      else if id_request \<noteq> -1 \<and> (id_request > 100 \<or> id_request < -1) then (-1, w0)
      else case map_shm shared_memory sz w0 of
        None \<Rightarrow> (-1, w0)
      | Some (ob, w) \<Rightarrow>
          let buffer = \<lparr>buf_ptr = Some ob, buf_size = sz, buf_shared_memory = Some ob\<rparr>;
              objects = cs_registered_objects w;
              cur_size = int32 (int (length objects))
          in if id_request \<noteq> -1 \<and> cur_size \<le> id_request
             then (id_request,
                   w\<lparr>cs_registered_objects := objects @ replicate (nat (id_request - cur_size)) null_Buffer @ [buffer],
                     cs_unused_elements := fold insort_insert [cur_size .. id_request - 1] (cs_unused_elements w)\<rparr>)
             else if id_request \<noteq> -1 \<and> buf_shared_memory (objects ! nat id_request) = None
             then (id_request,
                   w\<lparr>cs_registered_objects := objects[nat id_request := buffer],
                     cs_unused_elements := removeAll id_request (cs_unused_elements w)\<rparr>)
             else case cs_unused_elements w of
               [] \<Rightarrow> (cur_size, w\<lparr>cs_registered_objects := objects @ [buffer]\<rparr>)
             | handle # rest \<Rightarrow>
                 (handle, w\<lparr>cs_registered_objects := objects[nat handle := buffer],
                            cs_unused_elements := rest\<rparr>))"

definition CreateTransferBuffer ::
    "(u32 \<Rightarrow> 'a CommandBufferService_scheme \<Rightarrow> (obj \<times> 'a CommandBufferService_scheme) option) \<Rightarrow>
     (obj \<Rightarrow> u32 \<Rightarrow> 'a CommandBufferService_scheme \<Rightarrow> (obj \<times> 'a CommandBufferService_scheme) option) \<Rightarrow>
     u32 \<Rightarrow> int \<Rightarrow> 'a CommandBufferService_scheme \<Rightarrow> int \<times> 'a CommandBufferService_scheme" where
  "CreateTransferBuffer create_anonymous map_shm sz id_request w =
     (case create_anonymous sz w of
        None \<Rightarrow> (-1, w)
      | Some (buffer, w1) \<Rightarrow>
          RegisterTransferBuffer map_shm buffer sz id_request
            (w1\<lparr>cs_shared_memory_bytes_allocated := cs_shared_memory_bytes_allocated w1 + sz\<rparr>))"

text \<open>The loop at the end of \<^verbatim>\<open>DestroyTransferBuffer\<close>.\<close>

function shrink_objects :: "Buffer list \<Rightarrow> int list \<Rightarrow> Buffer list \<times> int list" where
  "shrink_objects objects unused =
     (if length objects > 1 \<and> buf_shared_memory (last objects) = None
      then shrink_objects (butlast objects) (removeAll (int (length (butlast objects))) unused)
      else (objects, unused))"
  by pat_completeness auto
termination
  by (relation "measure (\<lambda>(objects, unused). length objects)") auto

declare shrink_objects.simps [simp del]

definition DestroyTransferBuffer :: "int \<Rightarrow> 'a CommandBufferService_scheme \<Rightarrow> 'a CommandBufferService_scheme" where
  "DestroyTransferBuffer handle w =
     (if handle \<le> 0 then w
      else if nat handle \<ge> length (cs_registered_objects w) then w
      else let b = cs_registered_objects w ! nat handle;
               w1 = w\<lparr>cs_shared_memory_bytes_allocated := cs_shared_memory_bytes_allocated w - buf_size b,
                      mem := (case buf_shared_memory b of None \<Rightarrow> mem w | Some ob \<Rightarrow> (mem w)(ob := []))\<rparr>;
               w2 = (if handle = cs_ring_buffer_id w1
                     then w1\<lparr>cs_ring_buffer_id := -1, cs_ring_buffer := null_Buffer, cs_num_entries := 0,
                             cs_get_offset := 0, cs_put_offset := 0\<rparr>
                     else w1);
               (objects, unused) = shrink_objects ((cs_registered_objects w)[nat handle := null_Buffer])
                                     (insort_insert handle (cs_unused_elements w))
           in w2\<lparr>cs_registered_objects := objects, cs_unused_elements := unused\<rparr>)"

subsection \<open>The table of transfer buffers\<close>

text \<open>
  The free list has exactly the handles of the empty elements other than zero, in increasing order;
  the vector does not end in an empty element other than element zero; an element with a buffer
  has a mapping that covers its size, and no two elements share a mapping.
\<close>

definition buffer_ok :: "memory \<Rightarrow> Buffer \<Rightarrow> bool" where
  "buffer_ok m b \<longleftrightarrow> buf_ptr b = buf_shared_memory b \<and>
     (case buf_shared_memory b of None \<Rightarrow> b = null_Buffer | Some ob \<Rightarrow> unat (buf_size b) \<le> length (m ob))"

abbreviation is_free :: "Buffer \<Rightarrow> bool" where
  "is_free b \<equiv> buf_shared_memory b = None"

definition free_list :: "Buffer list \<Rightarrow> int list \<Rightarrow> bool" where
  "free_list objects unused \<longleftrightarrow> objects \<noteq> [] \<and> sorted unused \<and> distinct unused \<and>
     (\<forall>i. i \<in> set unused \<longleftrightarrow> 0 < i \<and> nat i < length objects \<and> is_free (objects ! nat i))"

definition table_ok :: "Buffer list \<Rightarrow> int list \<Rightarrow> bool" where
  "table_ok objects unused \<longleftrightarrow> free_list objects unused \<and> (length objects > 1 \<longrightarrow> \<not> is_free (last objects))"

abbreviation mappings :: "Buffer list \<Rightarrow> obj option list" where
  "mappings objects \<equiv> map buf_shared_memory (filter (\<lambda>b. \<not> is_free b) objects)"

definition svc_inv :: "'a CommandBufferService_scheme \<Rightarrow> bool" where
  "svc_inv w \<longleftrightarrow> table_ok (cs_registered_objects w) (cs_unused_elements w) \<and>
     (\<forall>b \<in> set (cs_registered_objects w). buffer_ok (mem w) b) \<and>
     distinct (mappings (cs_registered_objects w))"

text \<open>\<^verbatim>\<open>GetTransferBuffer\<close> on the vector alone.\<close>

definition table_lookup :: "Buffer list \<Rightarrow> int \<Rightarrow> Buffer" where
  "table_lookup objects h = (if h < 0 \<or> nat h \<ge> length objects then null_Buffer else objects ! nat h)"

lemma GetTransferBuffer_lookup: "GetTransferBuffer h w = table_lookup (cs_registered_objects w) h"
  by (simp add: GetTransferBuffer_def table_lookup_def)

lemma is_free_null [simp]: "is_free null_Buffer"
  by (simp add: null_Buffer_def)

lemma fold_insort_insert:
  "sorted un \<and> distinct un \<Longrightarrow>
   sorted (fold insort_insert xs un) \<and> distinct (fold insort_insert xs un) \<and>
   set (fold insort_insert xs un) = set xs \<union> set (un :: int list)"
proof (induction xs arbitrary: un)
  case (Cons x xs)
  have "sorted (insort_insert x un) \<and> distinct (insort_insert x un)"
    using Cons.prems by (simp add: sorted_insort_insert distinct_insort_insert)
  from Cons.IH [OF this] show ?case by (auto simp: set_insort_insert)
qed simp

lemma table_ok_pad:
  assumes t: "table_ok objects unused" and r: "int (length objects) \<le> r" and b: "\<not> is_free b"
  shows "table_ok (objects @ replicate (nat (r - int (length objects))) null_Buffer @ [b])
    (fold insort_insert [int (length objects) .. r - 1] unused)"
proof -
  let ?n = "length objects" and ?o = "objects @ replicate (nat (r - int (length objects))) null_Buffer @ [b]"
  let ?un = "fold insort_insert [int (length objects) .. r - 1] unused"
  have f: "free_list objects unused" using t by (simp add: table_ok_def)
  then have un: "sorted ?un" "distinct ?un" "set ?un = {int ?n .. r - 1} \<union> set unused"
    using fold_insort_insert [of unused "[int ?n .. r - 1]"] by (auto simp: free_list_def)
  have len: "length ?o = nat r + 1" using r by simp
  have "i \<in> set ?un \<longleftrightarrow> 0 < i \<and> nat i < length ?o \<and> is_free (?o ! nat i)" for i
  proof -
    have n: "0 < ?n" using f by (simp add: free_list_def)
    consider "i < 0" | "0 \<le> i" "nat i < ?n" | "int ?n \<le> i" "i < r" | "i = r" "int ?n \<le> i" | "r < i" "int ?n \<le> i" by linarith
    then show ?thesis
    proof cases
      case 1
      then show ?thesis using un f n r by (auto simp: free_list_def)
    next
      case 2
      then have "?o ! nat i = objects ! nat i" by (simp add: nth_append)
      with 2 f len r un show ?thesis by (auto simp: free_list_def)
    next
      case 3
      then have "?o ! nat i = null_Buffer" by (simp add: nth_append nat_diff_distrib)
      moreover have "0 < i" using 3 n by linarith
      ultimately show ?thesis using 3 len un by auto
    next
      case 4
      then have "?o ! nat i = b" using r by (simp add: nth_append nat_diff_distrib)
      with 4 b f un show ?thesis by (auto simp: free_list_def)
    next
      case 5
      with f un len r show ?thesis by (auto simp: free_list_def)
    qed
  qed
  with un b f show ?thesis unfolding table_ok_def free_list_def by simp
qed

lemma table_ok_fill:
  assumes t: "table_ok objects unused" and i: "0 \<le> i" "nat i < length objects" "is_free (objects ! nat i)"
    and b: "\<not> is_free b"
  shows "table_ok (objects[nat i := b]) (removeAll i unused)"
proof -
  have "is_free (objects[nat i := b] ! nat j) \<longleftrightarrow> j \<noteq> i \<and> is_free (objects ! nat j)"
    if "0 \<le> j" "nat j < length objects" for j
    using that i b by (auto simp: nth_list_update eq_nat_nat_iff)
  then have "j \<in> set (removeAll i unused) \<longleftrightarrow> 0 < j \<and> nat j < length objects \<and> is_free (objects[nat i := b] ! nat j)" for j
    using t b by (auto simp: table_ok_def free_list_def)
  then have "free_list (objects[nat i := b]) (removeAll i unused)"
    using t by (auto simp: table_ok_def free_list_def removeAll_filter_not_eq sorted_wrt_filter)
  moreover have "\<not> is_free (last (objects[nat i := b]))" if "length objects > 1"
  proof -
    from that have "objects \<noteq> []" by auto
    with t that b show ?thesis by (simp add: table_ok_def last_list_update)
  qed
  ultimately show ?thesis by (simp add: table_ok_def)
qed

lemma table_ok_push:
  assumes "table_ok objects unused" and "\<not> is_free b"
  shows "table_ok (objects @ [b]) unused"
  using assms by (auto simp: table_ok_def free_list_def nth_append)

lemma free_list_clear:
  assumes t: "free_list objects unused" and i: "0 < i" "nat i < length objects"
  shows "free_list (objects[nat i := null_Buffer]) (insort_insert i unused)"
proof -
  have "is_free (objects[nat i := null_Buffer] ! nat j) \<longleftrightarrow> j = i \<or> is_free (objects ! nat j)"
    if "0 \<le> j" "nat j < length objects" for j
    using that i by (auto simp: nth_list_update eq_nat_nat_iff)
  with t i show ?thesis
    by (auto simp: free_list_def set_insort_insert sorted_insort_insert distinct_insort_insert)
qed

lemma shrink_objects_spec:
  "free_list objects unused \<Longrightarrow> \<forall>b \<in> set objects. is_free b \<longrightarrow> b = null_Buffer \<Longrightarrow>
   shrink_objects objects unused = (objects', unused') \<Longrightarrow>
   table_ok objects' unused' \<and> set objects' \<subseteq> set objects \<and> mappings objects' = mappings objects \<and>
   (\<forall>h. table_lookup objects' h = table_lookup objects h)"
proof (induction objects unused arbitrary: objects' unused' rule: shrink_objects.induct)
  case (1 objects unused)
  show ?case
  proof (cases "length objects > 1 \<and> is_free (last objects)")
    case False
    with "1.prems" show ?thesis by (auto simp: shrink_objects.simps [of objects] table_ok_def)
  next
    case True
    then obtain xs where xs: "objects = xs @ [null_Buffer]" and ne: "xs \<noteq> []"
      using "1.prems"(2) by (cases objects rule: rev_cases) auto
    have "free_list xs (removeAll (int (length xs)) unused)"
    proof -
      have "j \<in> set (removeAll (int (length xs)) unused) \<longleftrightarrow> 0 < j \<and> nat j < length xs \<and> is_free (xs ! nat j)" for j
      proof (cases "j = int (length xs)")
        case False
        have "j \<in> set unused \<longleftrightarrow> 0 < j \<and> nat j < Suc (length xs) \<and> is_free ((xs @ [null_Buffer]) ! nat j)"
          using "1.prems"(1) unfolding free_list_def xs by simp
        moreover have "0 < j \<Longrightarrow> nat j < Suc (length xs) \<longleftrightarrow> nat j < length xs" using False by linarith
        ultimately show ?thesis using False by (auto simp: nth_append)
      qed simp
      with ne "1.prems"(1) show ?thesis
        by (auto simp: free_list_def removeAll_filter_not_eq sorted_wrt_filter)
    qed
    moreover have "shrink_objects xs (removeAll (int (length xs)) unused) = (objects', unused')"
      using "1.prems"(3) True unfolding shrink_objects.simps [of objects unused] by (simp add: xs)
    ultimately have ih: "table_ok objects' unused'" "set objects' \<subseteq> set xs" "mappings objects' = mappings xs"
      "\<forall>h. table_lookup objects' h = table_lookup xs h"
      using "1.IH" [OF True] "1.prems"(2) xs by simp_all
    have "table_lookup xs h = table_lookup objects h" for h
      by (auto simp: table_lookup_def xs nth_append)
    with ih xs show ?thesis by auto
  qed
qed

subsection \<open>Registration\<close>

text \<open>
  What the service relies on when it maps shared memory: a successful \<^verbatim>\<open>Map(size)\<close> gives a mapping
  of at least \<open>size\<close> bytes at an address range that no live mapping uses, and changes nothing else.
\<close>

definition map_shm_ok ::
    "(obj \<Rightarrow> u32 \<Rightarrow> 'a CommandBufferService_scheme \<Rightarrow> (obj \<times> 'a CommandBufferService_scheme) option) \<Rightarrow> bool" where
  "map_shm_ok map_shm \<longleftrightarrow> (\<forall>sm sz w ob w'. map_shm sm sz w = Some (ob, w') \<longrightarrow>
     Some ob \<notin> buf_shared_memory ` set (cs_registered_objects w) \<and>
     (\<exists>bytes. unat sz \<le> length bytes \<and> w' = w\<lparr>mem := (mem w)(ob := bytes)\<rparr>))"

lemma map_shm_okE:
  assumes "map_shm_ok map_shm" and "map_shm sm sz w = Some (ob, w')"
  obtains bytes where "unat sz \<le> length bytes" and "w' = w\<lparr>mem := (mem w)(ob := bytes)\<rparr>"
    and "Some ob \<notin> buf_shared_memory ` set (cs_registered_objects w)"
  using assms unfolding map_shm_ok_def by blast

lemma svc_inv_map:
  assumes "svc_inv w" and "Some ob \<notin> buf_shared_memory ` set (cs_registered_objects w)"
  shows "\<forall>b \<in> set (cs_registered_objects w). buffer_ok ((mem w)(ob := bytes)) b"
proof
  fix b assume b: "b \<in> set (cs_registered_objects w)"
  with assms(2) have "buf_shared_memory b \<noteq> Some ob" by (metis imageI)
  with assms(1) b show "buffer_ok ((mem w)(ob := bytes)) b"
    by (auto simp: svc_inv_def buffer_ok_def split: option.splits)
qed

text \<open>A vector in which one free element, or one new element after some padding, is the new buffer.\<close>

definition table_put :: "Buffer \<Rightarrow> int \<Rightarrow> Buffer list \<Rightarrow> Buffer list \<Rightarrow> bool" where
  "table_put b h objects objects' \<longleftrightarrow> 0 \<le> h \<and>
     (int (length objects) \<le> h \<and>
        objects' = objects @ replicate (nat (h - int (length objects))) null_Buffer @ [b] \<or>
      nat h < length objects \<and> is_free (objects ! nat h) \<and> objects' = objects[nat h := b])"

lemma table_put_lookup:
  assumes "table_put b h objects objects'"
  shows "table_lookup objects' h' = (if h' = h then b else table_lookup objects h')"
    and "is_free (table_lookup objects h)"
proof -
  from assms consider
      (pad) "int (length objects) \<le> h" "objects' = objects @ replicate (nat (h - int (length objects))) null_Buffer @ [b]"
    | (fill) "0 \<le> h" "nat h < length objects" "is_free (objects ! nat h)" "objects' = objects[nat h := b]"
    by (auto simp: table_put_def)
  then show "table_lookup objects' h' = (if h' = h then b else table_lookup objects h')"
  proof cases
    case pad
    have len: "length objects' = nat h + 1" using pad by simp
    consider "h' < 0" | "0 \<le> h'" "nat h' < length objects" | "int (length objects) \<le> h'" "h' < h" | "h' = h" | "h < h'"
      by linarith
    then show ?thesis
      using pad len by cases (auto simp: table_lookup_def nth_append nat_diff_distrib)
  next
    case fill
    then show ?thesis by (auto simp: table_lookup_def nth_list_update eq_nat_nat_iff)
  qed
  show "is_free (table_lookup objects h)"
    using assms by (auto simp: table_put_def table_lookup_def)
qed

lemma table_put_mappings:
  assumes "table_put b h objects objects'" and "\<not> is_free b"
  shows "set objects' \<subseteq> insert b (insert null_Buffer (set objects))"
    and "distinct (mappings objects) \<Longrightarrow> buf_shared_memory b \<notin> buf_shared_memory ` set objects \<Longrightarrow>
         distinct (mappings objects')"
proof -
  show "set objects' \<subseteq> insert b (insert null_Buffer (set objects))"
    using assms(1) by (auto simp: table_put_def dest: set_update_subset_insert [THEN subsetD] split: if_splits)
  assume d: "distinct (mappings objects)" and fresh: "buf_shared_memory b \<notin> buf_shared_memory ` set objects"
  have "\<exists>xs ys. mappings objects = xs @ ys \<and> mappings objects' = xs @ buf_shared_memory b # ys"
  proof (cases "int (length objects) \<le> h")
    case True
    with assms have "mappings objects' = mappings objects @ [buf_shared_memory b]" by (auto simp: table_put_def)
    then show ?thesis by auto
  next
    case False
    with assms obtain xs c ys where "objects = xs @ c # ys" "nat h = length xs" "is_free c" "objects' = xs @ b # ys"
      unfolding table_put_def by (metis list_update_length nth_append_length nth_split)
    with assms(2) show ?thesis by (intro exI [of _ "mappings xs"] exI [of _ "mappings ys"]) simp
  qed
  then obtain xs ys where xs: "mappings objects = xs @ ys" "mappings objects' = xs @ buf_shared_memory b # ys"
    by (elim exE conjE)
  have "set (mappings objects) \<subseteq> buf_shared_memory ` set objects" by auto
  with fresh xs(1) have "buf_shared_memory b \<notin> set (xs @ ys)" by (metis subsetD)
  with d show "distinct (mappings objects')" unfolding xs by simp
qed

lemma RegisterTransferBuffer_table:
  assumes t: "table_ok (cs_registered_objects w) (cs_unused_elements w)"
    and len: "length (cs_registered_objects w) < 2147483648" and m: "map_shm sm sz w = Some (ob, w1)"
    and same: "cs_registered_objects w1 = cs_registered_objects w" "cs_unused_elements w1 = cs_unused_elements w"
    and r: "RegisterTransferBuffer map_shm sm sz id_request w = (h, w')"
    and req: "id_request = -1 \<or> (0 \<le> id_request \<and> id_request \<le> 100)"
  obtains objects' unused' where "w' = w1\<lparr>cs_registered_objects := objects', cs_unused_elements := unused'\<rparr>"
    and "table_put \<lparr>buf_ptr = Some ob, buf_size = sz, buf_shared_memory = Some ob\<rparr> h (cs_registered_objects w) objects'"
    and "table_ok objects' unused'"
    and "id_request \<noteq> -1 \<Longrightarrow> is_free (table_lookup (cs_registered_objects w) id_request) \<Longrightarrow> h = id_request"
proof -
  let ?o = "cs_registered_objects w" and ?u = "cs_unused_elements w"
  let ?b = "\<lparr>buf_ptr = Some ob, buf_size = sz, buf_shared_memory = Some ob\<rparr>"
  have cur: "int32 (int (length ?o)) = int (length ?o)" using len by (intro int32_id) simp_all
  have nb: "\<not> is_free ?b" by simp
  have ne: "?o \<noteq> []" using t by (simp add: table_ok_def free_list_def)
  have run: "RegisterTransferBuffer map_shm sm sz id_request w =
     (if id_request \<noteq> -1 \<and> int (length ?o) \<le> id_request
      then (id_request,
            w1\<lparr>cs_registered_objects := ?o @ replicate (nat (id_request - int (length ?o))) null_Buffer @ [?b],
              cs_unused_elements := fold insort_insert [int (length ?o) .. id_request - 1] ?u\<rparr>)
      else if id_request \<noteq> -1 \<and> is_free (?o ! nat id_request)
      then (id_request, w1\<lparr>cs_registered_objects := ?o[nat id_request := ?b],
                           cs_unused_elements := removeAll id_request ?u\<rparr>)
      else case ?u of
        [] \<Rightarrow> (int (length ?o), w1\<lparr>cs_registered_objects := ?o @ [?b]\<rparr>)
      | handle # rest \<Rightarrow>
          (handle, w1\<lparr>cs_registered_objects := ?o[nat handle := ?b], cs_unused_elements := rest\<rparr>))"
  proof -
    have g1: "\<not> (?u = [] \<and> length ?o > 4294967295)" using len by simp
    have g2: "\<not> (id_request \<noteq> -1 \<and> (id_request > 100 \<or> id_request < -1))" using req by auto
    show ?thesis
      unfolding RegisterTransferBuffer_def if_not_P [OF g1] if_not_P [OF g2] m option.case prod.case Let_def same cur
      by (rule refl)
  qed
  consider (pad) "id_request \<noteq> -1" "int (length ?o) \<le> id_request"
    | (fill) "id_request \<noteq> -1" "id_request < int (length ?o)" "is_free (?o ! nat id_request)"
    | (push) "id_request \<noteq> -1 \<longrightarrow> id_request < int (length ?o) \<and> \<not> is_free (?o ! nat id_request)" "?u = []"
    | (reuse) handle rest where "id_request \<noteq> -1 \<longrightarrow> id_request < int (length ?o) \<and> \<not> is_free (?o ! nat id_request)"
        "?u = handle # rest"
    by (cases ?u) fastforce+
  then show thesis
  proof cases
    case pad
    have "w' = w1\<lparr>cs_registered_objects := ?o @ replicate (nat (id_request - int (length ?o))) null_Buffer @ [?b],
        cs_unused_elements := fold insort_insert [int (length ?o) .. id_request - 1] ?u\<rparr>" "h = id_request"
      using r run pad by auto
    from that [OF this(1)] this(2) table_ok_pad [OF t pad(2) nb] pad show thesis by (simp add: table_put_def)
  next
    case fill
    then have i: "0 \<le> id_request" "nat id_request < length ?o" using req by auto
    have "w' = w1\<lparr>cs_registered_objects := ?o[nat id_request := ?b], cs_unused_elements := removeAll id_request ?u\<rparr>"
      "h = id_request" using r run fill by auto
    from that [OF this(1)] this(2) table_ok_fill [OF t i fill(3) nb] fill i show thesis by (simp add: table_put_def)
  next
    case push
    have w': "w' = w1\<lparr>cs_registered_objects := ?o @ [?b], cs_unused_elements := []\<rparr>" "h = int (length ?o)"
      using r run push same by auto
    have "\<not> is_free (table_lookup ?o id_request)" if "id_request \<noteq> -1"
      using push that req by (auto simp: table_lookup_def)
    with that [OF w'(1)] w'(2) table_ok_push [OF t nb] push show thesis by (simp add: table_put_def)
  next
    case (reuse handle rest)
    then have "handle \<in> set ?u" by simp
    with t have i: "0 < handle" "nat handle < length ?o" "is_free (?o ! nat handle)"
      by (simp_all add: table_ok_def free_list_def)
    have "distinct ?u" using t by (simp add: table_ok_def free_list_def)
    then have rest: "removeAll handle ?u = rest" using reuse(2) by simp
    have w': "w' = w1\<lparr>cs_registered_objects := ?o[nat handle := ?b], cs_unused_elements := rest\<rparr>" "h = handle"
      using r run reuse by (auto split: if_splits)
    have "\<not> is_free (table_lookup ?o id_request)" if "id_request \<noteq> -1"
      using reuse that req by (auto simp: table_lookup_def)
    with that [OF w'(1)] w'(2) table_ok_fill [OF t _ i(2,3) nb] i rest show thesis by (simp add: table_put_def)
  qed
qed

text \<open>A handle other than -1 was free before, names the new buffer after, and no other handle changes.\<close>

lemma RegisterTransferBuffer_cases:
  assumes inv: "svc_inv w" and len: "length (cs_registered_objects w) < 2147483648" and ok: "map_shm_ok map_shm"
    and r: "RegisterTransferBuffer map_shm sm sz id_request w = (h, w')"
  obtains (fail) "h = -1" and "w' = w"
  | (yes) ob bytes objects' unused' where "unat sz \<le> length bytes"
    and "Some ob \<notin> buf_shared_memory ` set (cs_registered_objects w)"
    and "w' = w\<lparr>mem := (mem w)(ob := bytes), cs_registered_objects := objects', cs_unused_elements := unused'\<rparr>"
    and "table_put \<lparr>buf_ptr = Some ob, buf_size = sz, buf_shared_memory = Some ob\<rparr> h (cs_registered_objects w) objects'"
    and "table_ok objects' unused'"
    and "id_request \<noteq> -1 \<Longrightarrow> is_free (table_lookup (cs_registered_objects w) id_request) \<Longrightarrow> h = id_request"
    and "map_shm sm sz w = Some (ob, w\<lparr>mem := (mem w)(ob := bytes)\<rparr>)"
proof (cases "(id_request = -1 \<or> (0 \<le> id_request \<and> id_request \<le> 100)) \<and> map_shm sm sz w \<noteq> None")
  case False
  have "h = -1 \<and> w' = w"
  proof (cases "map_shm sm sz w")
    case None
    from r show ?thesis unfolding RegisterTransferBuffer_def None by (auto split: if_splits)
  next
    case (Some _)
    with False have bad: "id_request \<noteq> -1 \<and> (id_request > 100 \<or> id_request < -1)" by auto
    from r show ?thesis unfolding RegisterTransferBuffer_def if_P [OF bad] by (auto split: if_splits)
  qed
  then show thesis using fail by blast
next
  case True
  then obtain ob w1 where m: "map_shm sm sz w = Some (ob, w1)" by auto
  from map_shm_okE [OF ok m] obtain bytes where b: "unat sz \<le> length bytes"
    "w1 = w\<lparr>mem := (mem w)(ob := bytes)\<rparr>" "Some ob \<notin> buf_shared_memory ` set (cs_registered_objects w)" .
  have t: "table_ok (cs_registered_objects w) (cs_unused_elements w)" using inv by (simp add: svc_inv_def)
  have same: "cs_registered_objects w1 = cs_registered_objects w" "cs_unused_elements w1 = cs_unused_elements w"
    using b(2) by simp_all
  show thesis
  proof (rule RegisterTransferBuffer_table [OF t len m same r])
    fix objects' unused'
    assume "w' = w1\<lparr>cs_registered_objects := objects', cs_unused_elements := unused'\<rparr>"
      and p: "table_put \<lparr>buf_ptr = Some ob, buf_size = sz, buf_shared_memory = Some ob\<rparr> h (cs_registered_objects w) objects'"
      and o: "table_ok objects' unused'"
      and i: "id_request \<noteq> -1 \<Longrightarrow> is_free (table_lookup (cs_registered_objects w) id_request) \<Longrightarrow> h = id_request"
    with b(2) have "w' = w\<lparr>mem := (mem w)(ob := bytes), cs_registered_objects := objects', cs_unused_elements := unused'\<rparr>"
      by simp
    from yes [OF b(1,3) this p o i] m b(2) show thesis by simp
  qed (use True in simp)
qed

lemma RegisterTransferBuffer_spec:
  assumes inv: "svc_inv w" and len: "length (cs_registered_objects w) < 2147483648" and ok: "map_shm_ok map_shm"
    and r: "RegisterTransferBuffer map_shm sm sz id_request w = (h, w')"
  shows "if h = -1 then w' = w
     else (\<exists>ob. GetTransferBuffer h w' = \<lparr>buf_ptr = Some ob, buf_size = sz, buf_shared_memory = Some ob\<rparr> \<and>
        unat sz \<le> length (mem w' ob)) \<and>
       is_free (GetTransferBuffer h w) \<and> (\<forall>h'. h' \<noteq> h \<longrightarrow> GetTransferBuffer h' w' = GetTransferBuffer h' w) \<and>
       (id_request \<noteq> -1 \<longrightarrow> is_free (GetTransferBuffer id_request w) \<longrightarrow> h = id_request)"
  using inv len ok r
proof (cases rule: RegisterTransferBuffer_cases)
  case fail
  then show ?thesis by simp
next
  case (yes ob bytes objects' unused')
  note l = table_put_lookup [OF yes(4)]
  have "h \<noteq> -1" using yes(4) by (auto simp: table_put_def)
  then show ?thesis using yes(1,3,6) l by (simp add: GetTransferBuffer_lookup)
qed

lemma RegisterTransferBuffer_inv:
  assumes inv: "svc_inv w" and len: "length (cs_registered_objects w) < 2147483648" and ok: "map_shm_ok map_shm"
    and r: "RegisterTransferBuffer map_shm sm sz id_request w = (h, w')"
  shows "svc_inv w'"
  using inv len ok r
proof (cases rule: RegisterTransferBuffer_cases)
  case fail
  then show ?thesis using inv by simp
next
  case (yes ob bytes objects' unused')
  let ?b = "\<lparr>buf_ptr = Some ob, buf_size = sz, buf_shared_memory = Some ob\<rparr>" and ?m = "(mem w)(ob := bytes)"
  note t = table_put_mappings [OF yes(4)]
  have "buffer_ok ?m ?b" using yes(1) by (simp add: buffer_ok_def)
  moreover have "buffer_ok ?m null_Buffer" by (simp add: buffer_ok_def null_Buffer_def)
  ultimately have "\<forall>b \<in> set objects'. buffer_ok ?m b"
    using svc_inv_map [OF inv yes(2), of bytes] t(1) by auto
  moreover have "distinct (mappings objects')"
    using t(2) inv yes(2) by (simp add: svc_inv_def)
  ultimately show ?thesis using yes(3,5) by (simp add: svc_inv_def)
qed

subsection \<open>Destruction\<close>

lemma DestroyTransferBuffer_cases:
  assumes inv: "svc_inv w"
  obtains (none) "handle \<le> 0 \<or> nat handle \<ge> length (cs_registered_objects w)" and "DestroyTransferBuffer handle w = w"
  | (yes) objects' unused' m where "0 < handle" and "nat handle < length (cs_registered_objects w)"
    and "mem (DestroyTransferBuffer handle w) = m"
    and "m = (case buf_shared_memory (cs_registered_objects w ! nat handle) of None \<Rightarrow> mem w | Some ob \<Rightarrow> (mem w)(ob := []))"
    and "cs_registered_objects (DestroyTransferBuffer handle w) = objects'"
    and "cs_unused_elements (DestroyTransferBuffer handle w) = unused'"
    and "table_ok objects' unused'" and "set objects' \<subseteq> set ((cs_registered_objects w)[nat handle := null_Buffer])"
    and "mappings objects' = mappings ((cs_registered_objects w)[nat handle := null_Buffer])"
    and "\<And>h. table_lookup objects' h = (if h = handle then null_Buffer else table_lookup (cs_registered_objects w) h)"
proof (cases "handle \<le> 0 \<or> nat handle \<ge> length (cs_registered_objects w)")
  case True
  then show thesis using none by (auto simp: DestroyTransferBuffer_def)
next
  case False
  let ?o = "(cs_registered_objects w)[nat handle := null_Buffer]"
  obtain objects' unused' where s: "shrink_objects ?o (insort_insert handle (cs_unused_elements w)) = (objects', unused')"
    by fastforce
  have f: "free_list (cs_registered_objects w) (cs_unused_elements w)" using inv by (simp add: svc_inv_def table_ok_def)
  have null: "\<forall>b \<in> set ?o. is_free b \<longrightarrow> b = null_Buffer"
    using inv by (auto simp: svc_inv_def buffer_ok_def split: option.splits dest!: set_update_subset_insert [THEN subsetD])
  from False have h: "0 < handle" "nat handle < length (cs_registered_objects w)" by auto
  note sp = shrink_objects_spec [OF free_list_clear [OF f h] null s]
  have "table_lookup ?o h = (if h = handle then null_Buffer else table_lookup (cs_registered_objects w) h)" for h
    using h by (auto simp: table_lookup_def nth_list_update eq_nat_nat_iff)
  with sp have look: "\<And>h. table_lookup objects' h = (if h = handle then null_Buffer else table_lookup (cs_registered_objects w) h)"
    by simp
  show thesis
    by (rule yes [OF h refl _ refl refl]) (use False s sp look in \<open>simp_all add: DestroyTransferBuffer_def Let_def\<close>)
qed

lemma DestroyTransferBuffer_lookup:
  assumes "svc_inv w"
  shows "GetTransferBuffer h (DestroyTransferBuffer handle w) =
     (if h = handle \<and> 0 < handle then null_Buffer else GetTransferBuffer h w)"
  using assms
proof (cases rule: DestroyTransferBuffer_cases [where handle = handle])
  case none
  then show ?thesis by (auto simp: GetTransferBuffer_def)
next
  case (yes objects' unused' m)
  then show ?thesis by (simp add: GetTransferBuffer_lookup)
qed

lemma DestroyTransferBuffer_inv:
  assumes inv: "svc_inv w"
  shows "svc_inv (DestroyTransferBuffer handle w)"
  using inv
proof (cases rule: DestroyTransferBuffer_cases [where handle = handle])
  case none
  then show ?thesis using inv by simp
next
  case (yes objects' unused' m)
  let ?o = "cs_registered_objects w" and ?b = "cs_registered_objects w ! nat handle"
  obtain xs ys where o: "?o = xs @ ?b # ys" "length xs = nat handle"
    using id_take_nth_drop [OF yes(2)] yes(2) by (intro that) auto
  have upd: "?o[nat handle := null_Buffer] = xs @ null_Buffer # ys" by (metis list_update_length o)
  have ok: "\<forall>b \<in> set (xs @ ys). buffer_ok (mem w) b" and dis: "distinct (mappings (xs @ ?b # ys))"
    using inv o(1) unfolding svc_inv_def by (metis Un_iff insert_iff list.set(2) set_append)+
  have "buffer_ok m b" if b: "b \<in> set (xs @ ys)" for b
  proof (cases "buf_shared_memory ?b")
    case None
    with yes(4) ok b show ?thesis by simp
  next
    case (Some ob)
    with dis have "Some ob \<notin> buf_shared_memory ` set (xs @ ys)"
      by (auto simp: image_iff)
    then have "buf_shared_memory b \<noteq> Some ob" using b by (metis imageI)
    moreover have "buffer_ok (mem w) b" using ok b by blast
    ultimately show ?thesis using yes(4) Some by (auto simp: buffer_ok_def split: option.splits)
  qed
  moreover have "buffer_ok m null_Buffer" by (simp add: buffer_ok_def null_Buffer_def)
  ultimately have "\<forall>b \<in> set objects'. buffer_ok m b" using yes(8) unfolding upd by auto
  moreover have "distinct (mappings objects')" using dis unfolding yes(9) upd by (auto split: if_splits)
  ultimately show ?thesis using yes(3,5,6,7) by (simp add: svc_inv_def)
qed

text \<open>Destroying a buffer that a registration just made restores every lookup.\<close>

lemma Destroy_Register_lookup:
  assumes "svc_inv w" and "length (cs_registered_objects w) < 2147483648" and "map_shm_ok map_shm"
    and r: "RegisterTransferBuffer map_shm sm sz id_request w = (h, w')" and "0 < h"
  shows "buf_ptr (GetTransferBuffer h' (DestroyTransferBuffer h w')) = buf_ptr (GetTransferBuffer h' w)"
proof -
  note spec = RegisterTransferBuffer_spec [OF assms(1-3) r] and inv = RegisterTransferBuffer_inv [OF assms(1-3) r]
  have "buf_ptr (GetTransferBuffer h w) = None" if "is_free (GetTransferBuffer h w)"
  proof (cases "h < 0 \<or> nat h \<ge> length (cs_registered_objects w)")
    case False
    then have "GetTransferBuffer h w \<in> set (cs_registered_objects w)" by (simp add: GetTransferBuffer_def)
    with assms(1) that show ?thesis by (auto simp: svc_inv_def buffer_ok_def)
  qed (auto simp: GetTransferBuffer_def null_Buffer_def)
  with spec assms(5) show ?thesis
    unfolding DestroyTransferBuffer_lookup [OF inv] by (auto simp: null_Buffer_def)
qed

subsection \<open>Flush\<close>

text \<open>A put offset outside \<open>[0, num_entries]\<close> is an error and nothing runs.\<close>

lemma Flush_out_of_range:
  assumes "put_offset < 0 \<or> cs_num_entries w < put_offset"
  shows "Flush cb put_offset w = Some (w\<lparr>cs_error := kOutOfBounds\<rparr>)"
  using assms by (auto simp: Flush_def)

lemma service_init_inv: "svc_inv (service_init w)"
  by (simp add: svc_inv_def service_init_def table_ok_def free_list_def buffer_ok_def null_Buffer_def)

end
