(* ===== verification/Gpu_Scheduler.thy ===== *)
theory Gpu_Scheduler
  imports Command_Buffer_Service
begin

text \<open>
  The scheduler of the service, \<^verbatim>\<open>gpu/command_buffer/service/gpu_scheduler.cc\<close>: it owns the parser,
  runs it when the put offset changes, and is the engine of the decoder. Its state extends the
  service's. A closure that the scheduler keeps is a number; the environment \<open>sched_env\<close> says what
  running it does. The environment also holds the code that the scheduler calls through pointers:
  the handler of the commands, the reason of a lost context, and the fences of the GL library. A
  fence is a number as well; the null fence is \<^const>\<open>None\<close>. The result \<^const>\<open>None\<close> of an operation is
  a run that does not return or that dereferences a null pointer. The task that is posted on
  Windows is the flag \<open>gs_timeout_posted\<close>: a task with an invalidated weak pointer does nothing.
\<close>

subsection \<open>State and environment\<close>

type_synonym closure_id = nat
type_synonym fence_id = nat

record GpuScheduler = CommandBufferService +
  gs_parser :: bool
  gs_unscheduled_count :: int
  gs_rescheduled_count :: int
  gs_timeout_posted :: bool
  gs_unschedule_fences :: "(fence_id option \<times> closure_id) list"
  gs_scheduled_callback :: "closure_id option"
  gs_command_processed_callback :: "closure_id option"

record 'w sched_env =
  env_DoCommand :: "'w do_command"
  env_GetContextLostReason :: "'w \<Rightarrow> ContextLostReason"
  env_run :: "closure_id \<Rightarrow> 'w \<Rightarrow> 'w option"
  env_parse_error :: "'w closure"
  env_GLFence_Create :: "'w \<Rightarrow> fence_id option \<times> 'w"
  env_HasCompleted :: "fence_id \<Rightarrow> 'w \<Rightarrow> bool"
  env_glFinish :: "'w \<Rightarrow> 'w"
  env_OS_WIN :: bool

definition scheduler_init :: "'a GpuScheduler_scheme \<Rightarrow> 'a GpuScheduler_scheme" where
  "scheduler_init w = w\<lparr>gs_parser := False, gs_unscheduled_count := 0, gs_rescheduled_count := 0,
     gs_timeout_posted := False, gs_unschedule_fences := [], gs_scheduled_callback := None,
     gs_command_processed_callback := None\<rparr>"

definition run_callback :: "'w sched_env \<Rightarrow> closure_id option \<Rightarrow> 'w \<Rightarrow> 'w option" where
  "run_callback env cb w = (case cb of None \<Rightarrow> Some w | Some c \<Rightarrow> env_run env c w)"

subsection \<open>Scheduling\<close>

definition SetScheduled ::
    "'a GpuScheduler_scheme sched_env \<Rightarrow> bool \<Rightarrow> 'a GpuScheduler_scheme \<Rightarrow> 'a GpuScheduler_scheme option" where
  "SetScheduled env scheduled w =
     (if scheduled then
        if gs_rescheduled_count w > 0
        then Some (w\<lparr>gs_rescheduled_count := gs_rescheduled_count w - 1\<rparr>)
        else let w1 = w\<lparr>gs_unscheduled_count := gs_unscheduled_count w - 1\<rparr> in
             if gs_unscheduled_count w1 = 0
             then run_callback env (gs_scheduled_callback w1) (w1\<lparr>gs_timeout_posted := False\<rparr>)
             else Some w1
      else let w1 = (if gs_unscheduled_count w = 0 \<and> env_OS_WIN env then w\<lparr>gs_timeout_posted := True\<rparr> else w)
           in Some (w1\<lparr>gs_unscheduled_count := gs_unscheduled_count w1 + 1\<rparr>))"

definition IsScheduled :: "'a GpuScheduler_scheme \<Rightarrow> bool" where
  "IsScheduled w \<longleftrightarrow> gs_unscheduled_count w = 0"

definition HasMoreWork :: "'a GpuScheduler_scheme \<Rightarrow> bool" where
  "HasMoreWork w \<longleftrightarrow> gs_unschedule_fences w \<noteq> []"

definition SetScheduledCallback :: "closure_id option \<Rightarrow> 'a GpuScheduler_scheme \<Rightarrow> 'a GpuScheduler_scheme" where
  "SetScheduledCallback cb w = w\<lparr>gs_scheduled_callback := cb\<rparr>"

definition SetCommandProcessedCallback :: "closure_id option \<Rightarrow> 'a GpuScheduler_scheme \<Rightarrow> 'a GpuScheduler_scheme" where
  "SetCommandProcessedCallback cb w = w\<lparr>gs_command_processed_callback := cb\<rparr>"

partial_function (option) reschedule_loop ::
    "'a GpuScheduler_scheme sched_env \<Rightarrow> 'a GpuScheduler_scheme \<Rightarrow> 'a GpuScheduler_scheme option" where
  "reschedule_loop env w =
     (if gs_unscheduled_count w \<noteq> 0
      then Option.bind (SetScheduled env True w) (reschedule_loop env)
      else Some w)"

definition RescheduleTimeOut ::
    "'a GpuScheduler_scheme sched_env \<Rightarrow> 'a GpuScheduler_scheme \<Rightarrow> 'a GpuScheduler_scheme option" where
  "RescheduleTimeOut env w =
     (let new_count = gs_unscheduled_count w + gs_rescheduled_count w in do {
        w1 \<leftarrow> reschedule_loop env (w\<lparr>gs_rescheduled_count := 0\<rparr>);
        Some (w1\<lparr>gs_rescheduled_count := new_count\<rparr>)
      })"

subsection \<open>Fences\<close>

definition DeferToFence ::
    "'a GpuScheduler_scheme sched_env \<Rightarrow> closure_id \<Rightarrow> 'a GpuScheduler_scheme \<Rightarrow> 'a GpuScheduler_scheme" where
  "DeferToFence env task w =
     (let (fence, w1) = env_GLFence_Create env w
      in w1\<lparr>gs_unschedule_fences := gs_unschedule_fences w1 @ [(fence, task)]\<rparr>)"

definition pop_fence :: "'a GpuScheduler_scheme \<Rightarrow> 'a GpuScheduler_scheme option" where
  "pop_fence w =
     (case gs_unschedule_fences w of [] \<Rightarrow> None | _ # rest \<Rightarrow> Some (w\<lparr>gs_unschedule_fences := rest\<rparr>))"

partial_function (option) poll_loop ::
    "'a GpuScheduler_scheme sched_env \<Rightarrow> 'a GpuScheduler_scheme \<Rightarrow> (bool \<times> 'a GpuScheduler_scheme) option" where
  "poll_loop env w =
     (case gs_unschedule_fences w of
        [] \<Rightarrow> Some (True, w)
      | (fence, task) # _ \<Rightarrow>
          (case fence of
             None \<Rightarrow> None
           | Some f \<Rightarrow>
               if env_HasCompleted env f w
               then Option.bind (Option.bind (env_run env task w) pop_fence) (poll_loop env)
               else Some (False, w)))"

partial_function (option) gl_finish_loop ::
    "'a GpuScheduler_scheme sched_env \<Rightarrow> 'a GpuScheduler_scheme \<Rightarrow> (bool \<times> 'a GpuScheduler_scheme) option" where
  "gl_finish_loop env w =
     (case gs_unschedule_fences w of
        [] \<Rightarrow> Some (True, w)
      | (fence, task) # _ \<Rightarrow>
          Option.bind (Option.bind (env_run env task w) pop_fence) (gl_finish_loop env))"

definition PollUnscheduleFences ::
    "'a GpuScheduler_scheme sched_env \<Rightarrow> 'a GpuScheduler_scheme \<Rightarrow> (bool \<times> 'a GpuScheduler_scheme) option" where
  "PollUnscheduleFences env w =
     (case gs_unschedule_fences w of
        [] \<Rightarrow> Some (True, w)
      | (Some _, _) # _ \<Rightarrow> poll_loop env w
      | (None, _) # _ \<Rightarrow> gl_finish_loop env (env_glFinish env w))"

subsection \<open>Processing commands\<close>

partial_function (option) put_loop ::
    "'a GpuScheduler_scheme sched_env \<Rightarrow> 'a GpuScheduler_scheme \<Rightarrow> 'a GpuScheduler_scheme option" where
  "put_loop env w =
     (if IsEmpty w then Some w
      else Option.bind (ProcessCommand (env_DoCommand env) w)
        (\<lambda>(err, w1).
           if err = kDeferCommandUntilSwapBuffersAck then Some w1
           else if IsError err
           then (let w2 = cs_SetGetOffset (cp_get w1) w1
                 in SetParseError (env_parse_error env) err
                      (SetContextLostReason (env_GetContextLostReason env w2) w2))
           else Option.bind
             (run_callback env (gs_command_processed_callback w1) (cs_SetGetOffset (cp_get w1) w1))
             (\<lambda>w3. if gs_unscheduled_count w3 > 0 then Some w3 else put_loop env w3)))"

definition PutChanged ::
    "'a GpuScheduler_scheme sched_env \<Rightarrow> 'a GpuScheduler_scheme \<Rightarrow> 'a GpuScheduler_scheme option" where
  "PutChanged env w0 =
     (let (state, w) = GetState w0 in
      if \<not> gs_parser w then Some w
      else let w1 = set_put (st_put_offset state) w in
        if st_error state \<noteq> kNoError then Some w1
        else do {
          (passed, w2) \<leftarrow> PollUnscheduleFences env w1;
          if \<not> passed then Some w2
          else if \<not> IsScheduled w2 then Some w2
          else put_loop env w2
        })"

subsection \<open>The engine of the decoder\<close>

definition sched_SetGetOffset :: "int \<Rightarrow> 'a GpuScheduler_scheme \<Rightarrow> (bool \<times> 'a GpuScheduler_scheme) option" where
  "sched_SetGetOffset offset w =
     (if \<not> gs_parser w then None
      else let (ok, w1) = set_get offset w in
        if ok then Some (True, cs_SetGetOffset (cp_get w1) w1) else Some (False, w1))"

definition sched_GetGetOffset :: "'a GpuScheduler_scheme \<Rightarrow> int option" where
  "sched_GetGetOffset w = (if gs_parser w then Some (cp_get w) else None)"

definition sched_SetGetBuffer :: "int \<Rightarrow> 'a GpuScheduler_scheme \<Rightarrow> (bool \<times> 'a GpuScheduler_scheme) option" where
  "sched_SetGetBuffer transfer_buffer_id w =
     (let ring_buffer = GetTransferBuffer transfer_buffer_id w in
      case buf_ptr ring_buffer of
        None \<Rightarrow> Some (False, w)
      | Some p \<Rightarrow>
          let w1 = (if gs_parser w then w else (parser_init w)\<lparr>gs_parser := True\<rparr>);
              w2 = SetBuffer p (buf_size ring_buffer) 0 (buf_size ring_buffer) w1
          in map_option (\<lambda>(_, w3). (True, w3)) (sched_SetGetOffset 0 w2))"

definition sched_engine :: "'a GpuScheduler_scheme engine" where
  "sched_engine = \<lparr>e_GetSharedMemoryBuffer = GetTransferBuffer, e_set_token = cs_SetToken,
     e_SetGetOffset = sched_SetGetOffset, e_GetGetOffset = sched_GetGetOffset\<rparr>"

text \<open>
  While commands run there is a parser; its buffer and all transfer buffers lie inside memory.
\<close>

definition sched_inv :: "'a GpuScheduler_scheme \<Rightarrow> bool" where
  "sched_inv w \<longleftrightarrow> gs_parser w \<and> parser_inv w \<and> svc_inv w"

lemma buffer_ok_cong: "(\<And>ob. length (m ob) = length (m' ob)) \<Longrightarrow> buffer_ok m b = buffer_ok m' b"
  by (simp add: buffer_ok_def split: option.splits)

lemma GetTransferBuffer_in_memory:
  assumes "svc_inv w" and "buf_ptr (GetTransferBuffer i w) = Some ob"
  shows "unat (buf_size (GetTransferBuffer i w)) \<le> length (mem w ob)"
proof -
  have "GetTransferBuffer i w \<in> set (cs_registered_objects w)"
    using assms(2) by (auto simp: GetTransferBuffer_def null_Buffer_def split: if_splits)
  with assms show ?thesis by (auto simp: svc_inv_def buffer_ok_def split: option.splits)
qed

lemma sched_SetGetOffset_cases:
  "sched_SetGetOffset g w = (if \<not> gs_parser w then None
     else if 0 \<le> g \<and> g < cp_entry_count w then Some (True, w\<lparr>cp_get := g, cs_get_offset := g\<rparr>) else Some (False, w))"
  by (simp add: sched_SetGetOffset_def set_get_def cs_SetGetOffset_def)

interpretation sched: command_buffer_engine sched_engine sched_inv
proof unfold_locales
  fix w :: "'a GpuScheduler_scheme" and m :: memory
  assume "sched_inv w" and len: "\<And>ob. length (m ob) = length (mem w ob)"
  then show "sched_inv (w\<lparr>mem := m\<rparr>)"
    using buffer_ok_cong [of m "mem w", OF len] by (simp add: sched_inv_def parser_inv_def svc_inv_def)
next
  fix w :: "'a GpuScheduler_scheme" and i ob
  assume "sched_inv w" and "buf_ptr (e_GetSharedMemoryBuffer sched_engine i w) = Some ob"
  then show "unat (buf_size (e_GetSharedMemoryBuffer sched_engine i w)) \<le> length (mem w ob)"
    by (simp add: sched_inv_def sched_engine_def GetTransferBuffer_in_memory)
qed (auto simp: sched_inv_def sched_engine_def parser_inv_def svc_inv_def cs_SetToken_def
    sched_SetGetOffset_cases sched_GetGetOffset_def split: if_splits)

subsection \<open>Setting the ring buffer\<close>

lemma sched_SetGetBuffer_spec:
  assumes inv: "svc_inv w" and b: "GetTransferBuffer i w = b"
  shows "case buf_ptr b of
     None \<Rightarrow> sched_SetGetBuffer i w = Some (False, w)
   | Some ob \<Rightarrow> \<exists>w'. sched_SetGetBuffer i w = Some (True, w') \<and> sched_inv w' \<and> cp_buffer w' = Some (ob, 0) \<and>
       cp_entry_count w' = int (unat (buf_size b) div 4) \<and> cp_get w' = 0 \<and> cp_put w' = 0"
proof (cases "buf_ptr b")
  case None
  with b show ?thesis by (simp add: sched_SetGetBuffer_def)
next
  case (Some ob)
  let ?w1 = "if gs_parser w then w else (parser_init w)\<lparr>gs_parser := True\<rparr>"
  let ?w2 = "SetBuffer ob (buf_size b) 0 (buf_size b) ?w1"
  have in_mem: "unat (buf_size b) \<le> length (mem w ob)" using GetTransferBuffer_in_memory [OF inv] b Some by auto
  then have "parser_inv ?w2" by (intro SetBuffer_inv) (simp add: parser_init_def)
  moreover have "svc_inv ?w2" using inv by (simp add: svc_inv_def SetBuffer_def parser_init_def)
  ultimately have i: "sched_inv ?w2" by (simp add: sched_inv_def SetBuffer_def)
  have "unat (buf_size b div 4) < 2147483648" using u32_lt [of "buf_size b"] by (simp add: unat_div)
  then have n: "sint (buf_size b div 4) = int (unat (buf_size b) div 4)" by (simp add: u32_sint unat_div)
  obtain ok w' where s: "sched_SetGetOffset 0 ?w2 = Some (ok, w')"
    using sched.SetGetOffset_total [OF i, of 0] unfolding sched_engine_def by (auto elim!: not_None2E)
  have "sched_inv w'" using sched.SetGetOffset_inv [OF i, of 0 ok w'] s by (simp add: sched_engine_def)
  moreover have "cp_buffer w' = Some (ob, 0) \<and> cp_entry_count w' = int (unat (buf_size b) div 4) \<and> cp_get w' = 0 \<and> cp_put w' = 0"
    using s n by (auto simp: sched_SetGetOffset_cases SetBuffer_def split: if_splits)
  moreover have "sched_SetGetBuffer i w = Some (True, w')"
    using b Some s by (simp add: sched_SetGetBuffer_def Let_def)
  ultimately show ?thesis using Some by auto
qed

subsection \<open>Counting the pauses\<close>

text \<open>
  What the scheduler relies on when it runs a callback for the counters: the callback returns and
  does not itself schedule or unschedule.
\<close>

definition keeps_schedule :: "'a GpuScheduler_scheme sched_env \<Rightarrow> bool" where
  "keeps_schedule env \<longleftrightarrow> (\<forall>c w. \<exists>w'. env_run env c w = Some w' \<and>
     gs_unscheduled_count w' = gs_unscheduled_count w \<and> gs_rescheduled_count w' = gs_rescheduled_count w \<and>
     gs_timeout_posted w' = gs_timeout_posted w)"

lemma keeps_scheduleE:
  assumes "keeps_schedule env"
  obtains w' where "run_callback env cb w = Some w'" and "gs_unscheduled_count w' = gs_unscheduled_count w"
    and "gs_rescheduled_count w' = gs_rescheduled_count w" and "gs_timeout_posted w' = gs_timeout_posted w"
proof (cases cb)
  case None
  with that [of w] show thesis by (simp add: run_callback_def)
next
  case (Some c)
  from assms obtain w' where "env_run env c w = Some w'" "gs_unscheduled_count w' = gs_unscheduled_count w"
    "gs_rescheduled_count w' = gs_rescheduled_count w" "gs_timeout_posted w' = gs_timeout_posted w"
    unfolding keeps_schedule_def by blast
  with that [of w'] Some show thesis by (simp add: run_callback_def)
qed

text \<open>
  The states that calls of \<^verbatim>\<open>SetScheduled\<close> and the posted task reach, with the number of calls with
  \<open>false\<close> that a call with \<open>true\<close> has not answered yet.
\<close>

inductive sched_reach :: "'a GpuScheduler_scheme sched_env \<Rightarrow> int \<Rightarrow> 'a GpuScheduler_scheme \<Rightarrow> bool"
  for env where
  init: "sched_reach env 0 (scheduler_init w)"
| unschedule: "sched_reach env n w \<Longrightarrow> SetScheduled env False w = Some w' \<Longrightarrow> sched_reach env (n + 1) w'"
| schedule: "sched_reach env n w \<Longrightarrow> 0 < n \<Longrightarrow> SetScheduled env True w = Some w' \<Longrightarrow> sched_reach env (n - 1) w'"
| timeout: "sched_reach env n w \<Longrightarrow> gs_timeout_posted w \<Longrightarrow> RescheduleTimeOut env w = Some w' \<Longrightarrow> sched_reach env n w'"

definition counts_ok :: "'a GpuScheduler_scheme sched_env \<Rightarrow> int \<Rightarrow> 'a GpuScheduler_scheme \<Rightarrow> bool" where
  "counts_ok env n w \<longleftrightarrow> 0 \<le> gs_unscheduled_count w \<and> 0 \<le> gs_rescheduled_count w \<and>
     gs_unscheduled_count w + gs_rescheduled_count w = n \<and>
     (gs_timeout_posted w \<longleftrightarrow> env_OS_WIN env \<and> 0 < gs_unscheduled_count w)"

lemma SetScheduled_False_counts:
  assumes "counts_ok env n w"
  shows "\<exists>w'. SetScheduled env False w = Some w' \<and> counts_ok env (n + 1) w' \<and> \<not> IsScheduled w'"
  using assms by (auto simp: SetScheduled_def counts_ok_def IsScheduled_def Let_def)

lemma SetScheduled_True_counts:
  assumes k: "keeps_schedule env" and c: "counts_ok env n w" and n: "0 < n"
  shows "\<exists>w'. SetScheduled env True w = Some w' \<and> counts_ok env (n - 1) w' \<and>
     (gs_rescheduled_count w = 0 \<longrightarrow> gs_unscheduled_count w' = gs_unscheduled_count w - 1 \<and> gs_rescheduled_count w' = 0)"
proof (cases "gs_rescheduled_count w = 0 \<and> gs_unscheduled_count w = 1")
  case True
  let ?w = "w\<lparr>gs_unscheduled_count := 0, gs_timeout_posted := False\<rparr>"
  obtain w' where "run_callback env (gs_scheduled_callback w) ?w = Some w'" "gs_unscheduled_count w' = 0"
    "gs_rescheduled_count w' = gs_rescheduled_count w" "\<not> gs_timeout_posted w'"
    by (rule keeps_scheduleE [OF k, of "gs_scheduled_callback w" ?w]) auto
  with True c show ?thesis by (simp add: SetScheduled_def counts_ok_def Let_def)
next
  case False
  with c n show ?thesis by (auto simp: SetScheduled_def counts_ok_def Let_def)
qed

lemma reschedule_loop_spec:
  assumes k: "keeps_schedule env"
  shows "counts_ok env n w \<Longrightarrow> gs_rescheduled_count w = 0 \<Longrightarrow>
    \<exists>w'. reschedule_loop env w = Some w' \<and> gs_unscheduled_count w' = 0 \<and> gs_rescheduled_count w' = 0 \<and> \<not> gs_timeout_posted w'"
proof (induction "nat n" arbitrary: n w)
  case 0
  then show ?case by (subst reschedule_loop.simps) (auto simp: counts_ok_def)
next
  case (Suc m)
  then have n: "0 < n" "m = nat (n - 1)" by linarith+
  from SetScheduled_True_counts [OF k Suc.prems(1) n(1)] Suc.prems(2) obtain w1
    where w1: "SetScheduled env True w = Some w1" "counts_ok env (n - 1) w1" "gs_rescheduled_count w1 = 0" by auto
  have "gs_unscheduled_count w \<noteq> 0" using Suc.prems n by (simp add: counts_ok_def)
  with Suc.hyps(1) [OF n(2) w1(2,3)] w1(1) show ?case by (subst reschedule_loop.simps) simp
qed

text \<open>The time-out always returns, leaves the scheduler scheduled, and every pause still to be answered is remembered.\<close>

lemma RescheduleTimeOut_spec:
  assumes k: "keeps_schedule env" and c: "counts_ok env n w"
  shows "\<exists>w'. RescheduleTimeOut env w = Some w' \<and> counts_ok env n w' \<and> IsScheduled w' \<and> gs_rescheduled_count w' = n"
proof (cases "gs_unscheduled_count w = 0")
  case True
  then show ?thesis
    using c by (auto simp: RescheduleTimeOut_def reschedule_loop.simps counts_ok_def IsScheduled_def Let_def)
next
  case False
  let ?w = "w\<lparr>gs_rescheduled_count := 0\<rparr>"
  have "counts_ok env (gs_unscheduled_count w) ?w" using c by (auto simp: counts_ok_def)
  from reschedule_loop_spec [OF k this] obtain w' where "reschedule_loop env ?w = Some w'"
    "gs_unscheduled_count w' = 0" "\<not> gs_timeout_posted w'" by auto
  with c show ?thesis by (auto simp: RescheduleTimeOut_def counts_ok_def IsScheduled_def Let_def)
qed

lemma sched_reach_counts:
  assumes "sched_reach env n w" and k: "keeps_schedule env"
  shows "counts_ok env n w"
  using assms(1)
proof induction
  case (init w)
  then show ?case by (simp add: counts_ok_def scheduler_init_def)
next
  case (unschedule n w w')
  with SetScheduled_False_counts [OF unschedule.IH] show ?case by auto
next
  case (schedule n w w')
  with SetScheduled_True_counts [OF k schedule.IH] show ?case by auto
next
  case (timeout n w w')
  with RescheduleTimeOut_spec [OF k timeout.IH] show ?case by auto
qed

subsection \<open>Processing\<close>

text \<open>When an error is set, or when the scheduler is not scheduled and waits for no fence, no command runs.\<close>

lemma PutChanged_no_parser: "\<not> gs_parser w \<Longrightarrow> PutChanged env w = Some (w\<lparr>cs_generation := cs_generation w + 1\<rparr>)"
  by (simp add: PutChanged_def GetState_def Let_def)

lemma PutChanged_stopped:
  assumes "gs_parser w" and "cs_error w \<noteq> kNoError \<or> gs_unschedule_fences w = [] \<and> \<not> IsScheduled w"
  shows "PutChanged env w = Some (w\<lparr>cs_generation := cs_generation w + 1, cp_put := cs_put_offset w\<rparr>)"
  using assms by (auto simp: PutChanged_def GetState_def Let_def set_put_def PollUnscheduleFences_def IsScheduled_def)

lemma PutChanged_runs:
  assumes "gs_parser w" and "cs_error w = kNoError" and "gs_unschedule_fences w = []" and "IsScheduled w"
  shows "PutChanged env w = put_loop env (w\<lparr>cs_generation := cs_generation w + 1, cp_put := cs_put_offset w\<rparr>)"
  using assms by (simp add: PutChanged_def GetState_def Let_def set_put_def PollUnscheduleFences_def IsScheduled_def)

text \<open>A fence that has not passed keeps its task and all later tasks waiting, in order.\<close>

lemma PollUnscheduleFences_waits:
  assumes "gs_unschedule_fences w = (Some f, task) # rest" and "\<not> env_HasCompleted env f w"
  shows "PollUnscheduleFences env w = Some (False, w)"
  using assms by (simp add: PollUnscheduleFences_def poll_loop.simps)

text \<open>
  One round of the loop that goes on, and the states the loop visits.
\<close>

inductive processing :: "'a GpuScheduler_scheme sched_env \<Rightarrow> 'a GpuScheduler_scheme \<Rightarrow> 'a GpuScheduler_scheme \<Rightarrow> bool"
  for env w0 where
  start: "processing env w0 w0"
| round: "processing env w0 w \<Longrightarrow> \<not> IsEmpty w \<Longrightarrow> ProcessCommand (env_DoCommand env) w = Some (err, w1) \<Longrightarrow>
    err \<noteq> kDeferCommandUntilSwapBuffersAck \<Longrightarrow> \<not> IsError err \<Longrightarrow>
    run_callback env (gs_command_processed_callback w1) (cs_SetGetOffset (cp_get w1) w1) = Some w2 \<Longrightarrow>
    \<not> gs_unscheduled_count w2 > 0 \<Longrightarrow> processing env w0 w2"

text \<open>What the callbacks of the environment keep: the state the decoder relies on.\<close>

definition callbacks_keep :: "'a GpuScheduler_scheme sched_env \<Rightarrow> bool" where
  "callbacks_keep env \<longleftrightarrow> (\<forall>c w w'. env_run env c w = Some w' \<longrightarrow> sched_inv w \<and> dec_inv w \<longrightarrow>
     sched_inv w' \<and> dec_inv w' \<and> cp_entry_count w' = cp_entry_count w)"

lemma callbacks_keepD:
  "callbacks_keep env \<Longrightarrow> sched_inv w \<Longrightarrow> dec_inv w \<Longrightarrow> run_callback env cb w = Some w' \<Longrightarrow>
   sched_inv w' \<and> dec_inv w' \<and> cp_entry_count w' = cp_entry_count w"
  unfolding callbacks_keep_def run_callback_def by (cases cb) (simp, force)

lemma cs_SetGetOffset_inv [simp]:
  "sched_inv (cs_SetGetOffset g w) = sched_inv w" "dec_inv (cs_SetGetOffset g w) = dec_inv w"
  "cp_entry_count (cs_SetGetOffset g w) = cp_entry_count w"
  by (simp_all add: cs_SetGetOffset_def sched_inv_def parser_inv_def svc_inv_def dec_inv_def)

lemma processing_inv:
  assumes "processing env w0 w" and D: "env_DoCommand env = DoCommonCommand sched_engine"
    and cb: "callbacks_keep env" and inv: "sched_inv w0" "dec_inv w0"
  shows "sched_inv w \<and> dec_inv w \<and> cp_entry_count w = cp_entry_count w0"
  using assms(1)
proof induction
  case start
  then show ?case using inv by simp
next
  case (round w err w1 w2)
  then have i: "sched_inv w \<and> dec_inv w" and p: "ProcessCommand (DoCommonCommand sched_engine) w = Some (err, w1)"
    by (simp_all add: D)
  from sched.async.ProcessCommand_inv [OF i p] sched.async.ProcessCommand_entry_count [OF i p]
  have "sched_inv w1" "dec_inv w1" "cp_entry_count w1 = cp_entry_count w" by simp_all
  with callbacks_keepD [OF cb _ _ round.hyps(6)] round.IH show ?case by simp
qed

text \<open>A command that is known is executed or refused: processing it never leaves the memory.\<close>

lemma ProcessCommand_common_total:
  assumes inv: "sched_inv w" "dec_inv w" and ne: "0 < cp_entry_count w"
    and known: "\<And>e. read_entry w (cp_get w) = Some e \<Longrightarrow> unat (h_command (header_of_entry e)) < 12"
  shows "ProcessCommand (DoCommonCommand sched_engine) w \<noteq> None"
proof -
  have pinv: "parser_inv w" using inv by (simp add: sched_inv_def)
  then have g: "0 \<le> cp_get w" "cp_get w < cp_entry_count w" using ne by (auto simp: parser_inv_def)
  from pinv ne obtain ob off where b: "cp_buffer w = Some (ob, off)"
    and len: "off + 4 * nat (cp_entry_count w) \<le> length (mem w ob)" by (auto simp: parser_inv_def)
  from read_entry_in_range [OF pinv g] obtain e p where r: "read_entry w (cp_get w) = Some e"
    and p: "entry_addr w (cp_get w) = Some p" .
  let ?h = "header_of_entry e" and ?D = "DoCommonCommand sched_engine"
  let ?c = "ucast (h_command ?h) :: u32" and ?n = "ucast (h_size ?h) - 1 :: u32"
  have D: "?D ?c ?n p w \<noteq> None" if "h_size ?h \<noteq> 0" and fit: "int (unat (h_size ?h)) + cp_get w \<le> cp_entry_count w"
  proof (rule sched.DoCommonCommand_total [OF inv])
    have lt: "unat (h_size ?h) < 2 ^ 21" using unsigned_less [of "h_size ?h", where ?'a = nat] by simp
    have pos: "0 < unat (h_size ?h)" using that(1) by (simp add: unat_gt_0)
    have n: "unat ?n = unat (h_size ?h) - 1"
      unfolding of_nat_size [OF refl pos] using lt by (simp add: unat_of_nat)
    with lt show "unat ?n < 2 ^ 21" by simp
    from known [OF r] show "unat ?c < 12" by (simp add: unsigned_ucast_eq take_bit_nat_eq_self)
    have "snd p = off + 4 * nat (cp_get w)" "fst p = ob" using p b g by (auto simp: entry_addr_def)
    moreover have "nat (cp_get w) + unat (h_size ?h) \<le> nat (cp_entry_count w)" using fit g by linarith
    ultimately show "snd p + 4 * (unat ?n + 1) \<le> length (mem w (fst p))" using len n pos by simp
  qed
  have ec: "cp_entry_count w1 \<noteq> 0" if "?D ?c ?n p w = Some (r1, w1)" for r1 w1
    using sched.async.DoCommand_entry_count [OF _ that] inv ne by simp
  show ?thesis
    using D ec by (auto simp: ProcessCommand_def Let_def r p split: if_splits)
qed

text \<open>How the loop ends.\<close>

definition put_exit :: "'a GpuScheduler_scheme sched_env \<Rightarrow> 'a GpuScheduler_scheme \<Rightarrow> 'a GpuScheduler_scheme \<Rightarrow> bool" where
  "put_exit env w w' \<longleftrightarrow> IsEmpty w \<and> w' = w \<or> \<not> IsEmpty w \<and> (\<exists>err w1.
     ProcessCommand (env_DoCommand env) w = Some (err, w1) \<and>
     (err = kDeferCommandUntilSwapBuffersAck \<and> w' = w1 \<or>
      IsError err \<and> SetParseError (env_parse_error env) err
        (SetContextLostReason (env_GetContextLostReason env (cs_SetGetOffset (cp_get w1) w1)) (cs_SetGetOffset (cp_get w1) w1)) = Some w' \<or>
      \<not> IsError err \<and> run_callback env (gs_command_processed_callback w1) (cs_SetGetOffset (cp_get w1) w1) = Some w' \<and>
        gs_unscheduled_count w' > 0))"

lemma processing_step:
  "\<not> IsEmpty w \<Longrightarrow> ProcessCommand (env_DoCommand env) w = Some (err, w1) \<Longrightarrow>
   err \<noteq> kDeferCommandUntilSwapBuffersAck \<Longrightarrow> \<not> IsError err \<Longrightarrow>
   run_callback env (gs_command_processed_callback w1) (cs_SetGetOffset (cp_get w1) w1) = Some w2 \<Longrightarrow>
   \<not> gs_unscheduled_count w2 > 0 \<Longrightarrow> processing env w2 w3 \<Longrightarrow> processing env w w3"
proof -
  assume a: "\<not> IsEmpty w" "ProcessCommand (env_DoCommand env) w = Some (err, w1)"
    "err \<noteq> kDeferCommandUntilSwapBuffersAck" "\<not> IsError err"
    "run_callback env (gs_command_processed_callback w1) (cs_SetGetOffset (cp_get w1) w1) = Some w2"
    "\<not> gs_unscheduled_count w2 > 0"
  assume "processing env w2 w3"
  then show ?thesis
  proof induction
    case start
    show ?case by (rule processing.round [OF processing.start a])
  qed (rule processing.round)
qed

lemma put_loop_result:
  assumes "put_loop env w = Some w'"
  shows "\<exists>w1. processing env w w1 \<and> put_exit env w1 w'"
proof (rule put_loop.raw_induct [OF _ assms])
  fix loop env w w'
  assume IH: "\<And>env w w'. loop env w = Some w' \<Longrightarrow> \<exists>w1. processing env w w1 \<and> put_exit env w1 w'"
    and run: "(if IsEmpty w then Some w
      else Option.bind (ProcessCommand (env_DoCommand env) w)
        (\<lambda>(err, w1).
           if err = kDeferCommandUntilSwapBuffersAck then Some w1
           else if IsError err
           then (let w2 = cs_SetGetOffset (cp_get w1) w1
                 in SetParseError (env_parse_error env) err
                      (SetContextLostReason (env_GetContextLostReason env w2) w2))
           else Option.bind
             (run_callback env (gs_command_processed_callback w1) (cs_SetGetOffset (cp_get w1) w1))
             (\<lambda>w3. if gs_unscheduled_count w3 > 0 then Some w3 else loop env w3))) = Some w'"
  show "\<exists>w1. processing env w w1 \<and> put_exit env w1 w'"
  proof (cases "put_exit env w w'")
    case True
    then show ?thesis using processing.start by blast
  next
    case False
    with run obtain err w1 w2 where s: "\<not> IsEmpty w" "ProcessCommand (env_DoCommand env) w = Some (err, w1)"
      "err \<noteq> kDeferCommandUntilSwapBuffersAck" "\<not> IsError err"
      "run_callback env (gs_command_processed_callback w1) (cs_SetGetOffset (cp_get w1) w1) = Some w2"
      "\<not> gs_unscheduled_count w2 > 0" and l: "loop env w2 = Some w'"
      by (auto simp: put_exit_def Let_def split: if_splits Option.bind_splits)
    from IH [OF l] processing_step [OF s] show ?thesis by blast
  qed
qed

subsection \<open>A stream without jumps is executed once and in order\<close>

text \<open>
  The reference for the loop: run the handler on the commands of a list, publish the get offset after
  each, stop with the error of the first command that fails.
\<close>

fun run_stream ::
    "'a GpuScheduler_scheme sched_env \<Rightarrow> u32 list list \<Rightarrow> 'a GpuScheduler_scheme \<Rightarrow> 'a GpuScheduler_scheme option" where
  "run_stream env [] w = Some w"
| "run_stream env (c # cs) w = do {
     p \<leftarrow> entry_addr w (cp_get w);
     (err, w1) \<leftarrow> env_DoCommand env (cmd_of c) (of_nat (length c - 1)) p w;
     let g = (cp_get w + int (length c)) mod cp_entry_count w;
     let w2 = w1\<lparr>cp_get := g, cs_get_offset := g\<rparr>;
     if IsError err
     then SetParseError (env_parse_error env) err (SetContextLostReason (env_GetContextLostReason env w2) w2)
     else if gs_unscheduled_count w2 > 0 then Some w2
     else run_stream env cs w2
   }"

text \<open>The handler also leaves the scheduler's callback alone.\<close>

definition quiet_callback :: "'a GpuScheduler_scheme sched_env \<Rightarrow> u32 list \<Rightarrow> bool" where
  "quiet_callback env c \<longleftrightarrow>
     (\<forall>p w e w'. env_DoCommand env (cmd_of c) (of_nat (length c - 1)) p w = Some (e, w') \<longrightarrow>
        gs_command_processed_callback w' = gs_command_processed_callback w)"

lemma entry_addr_frame [simp]: "entry_addr (cs_get_offset_update f w) = entry_addr w"
  by (rule ext) (simp add: entry_addr_def)

lemma read_entry_frame [simp]: "read_entry (cs_get_offset_update f w) = read_entry w"
  by (rule ext) (simp add: read_entry_def)

theorem put_loop_run_stream:
  assumes "stream_at w (cp_get w) cs" and "\<forall>c \<in> set cs. quiet (env_DoCommand env) c \<and> quiet_callback env c"
    and "cp_put w = (cp_get w + int (stream_len cs)) mod cp_entry_count w"
    and "int (stream_len cs) < cp_entry_count w" and "0 \<le> cp_get w" and "cp_get w < cp_entry_count w"
    and "gs_command_processed_callback w = None"
  shows "put_loop env w = run_stream env cs w"
  using assms
proof (induction cs arbitrary: w)
  case Nil
  then show ?case by (subst put_loop.simps) (simp add: IsEmpty_def)
next
  case (Cons c cs)
  let ?ec = "cp_entry_count w" and ?g = "cp_get w" and ?D = "env_DoCommand env"
  let ?next = "(?g + int (length c)) mod ?ec"
  have c: "0 < length c" using Cons.prems(1) by simp
  have q: "quiet ?D c" "quiet_callback env c" using Cons.prems(2) by simp_all
  have ne: "?g \<noteq> cp_put w"
    using mod_ring_neq [of "int (stream_len (c # cs))" ?ec ?g] Cons.prems(3-6) c by simp
  have step: "ProcessCommand ?D w = do {
     p \<leftarrow> entry_addr w ?g;
     (result, w1) \<leftarrow> ?D (cmd_of c) (of_nat (length c - 1)) p w;
     Some (result, w1\<lparr>cp_get := ?next\<rparr>)
   }"
    by (rule ProcessCommand_stream [OF Cons.prems(1) ne q(1) Cons.prems(5)])
  have rest: "put_loop env w2 = run_stream env cs w2"
    if d: "?D (cmd_of c) (of_nat (length c - 1)) p w = Some (e, w1)"
      and w2: "w2 = w1\<lparr>cp_get := ?next, cs_get_offset := ?next\<rparr>" for p e w1 w2
  proof -
    from quietD [OF q(1) d] have k: "cp_put w1 = cp_put w" "cp_entry_count w1 = ?ec" "read_entry w1 = read_entry w"
      by blast+
    have cb: "gs_command_processed_callback w1 = None"
      using q(2) d Cons.prems(7) unfolding quiet_callback_def by metis
    have pos: "0 < ?ec" using Cons.prems(5,6) by simp
    show ?thesis
    proof (rule Cons.IH)
      show "stream_at w2 (cp_get w2) cs"
        using Cons.prems(1) stream_at_cong [of w2 w] k by (simp add: w2)
      show "cp_put w2 = (cp_get w2 + int (stream_len cs)) mod cp_entry_count w2"
        using Cons.prems(3) k by (simp add: w2 mod_add_left_eq add.assoc)
    qed (use Cons.prems k pos cb in \<open>simp_all add: w2\<close>)
  qed
  have stop: "e \<noteq> kDeferCommandUntilSwapBuffersAck \<and> gs_command_processed_callback w1 = None"
    if "?D (cmd_of c) (of_nat (length c - 1)) p w = Some (e, w1)" for p e w1
    using quietD [OF q(1) that] q(2) that Cons.prems(7) unfolding quiet_callback_def by metis
  show ?case
    by (subst put_loop.simps)
      (use ne step in \<open>auto simp: IsEmpty_def Let_def rest stop cs_SetGetOffset_def run_callback_def split: Option.bind_splits dest: stop\<close>)
qed

lemma decode_common_id: "decode_common c args = Some cmd \<Longrightarrow> id_of cmd = c"
  by (cases "(c, args)" rule: decode_common.cases) auto

lemma dispatch_quiet:
  assumes "dispatch_common sched_engine imm p cmd w = Some (e, w')" and "id_of cmd \<in> quiet_ids"
  shows "\<exists>t bs. w' = (w :: 'a GpuScheduler_scheme)\<lparr>cs_token := t, buckets := bs\<rparr> \<and> e \<in> {kNoError, kInvalidArguments}"
proof -
  have same: "\<exists>t bs. w = w\<lparr>cs_token := t, buckets := bs\<rparr>"
    by (rule exI [of _ "cs_token w"], rule exI [of _ "buckets w"]) simp
  have b: "\<exists>t bs'. w\<lparr>buckets := bs\<rparr> = w\<lparr>cs_token := t, buckets := bs'\<rparr>" for bs
    by (rule exI [of _ "cs_token w"], rule exI [of _ bs]) simp
  have t: "\<exists>t' bs'. w\<lparr>cs_token := t\<rparr> = w\<lparr>cs_token := t', buckets := bs'\<rparr>" for t
    by (rule exI [of _ t], rule exI [of _ "buckets w"]) simp
  show ?thesis
    using assms same b t
    by (cases cmd)
      (auto simp: quiet_ids_def HandleNoop_def HandleSetToken_def sched_engine_def cs_SetToken_def
        HandleSetBucketSize_def HandleSetBucketData_def HandleSetBucketDataImmediate_def CreateBucket_def Let_def
        split: option.splits Option.bind_splits prod.splits if_splits)
qed

lemma DoCommonCommand_quiet:
  assumes c: "quiet_cmd c" and d: "DoCommonCommand sched_engine (cmd_of c) n p w = Some (e, w')"
  shows "\<exists>t bs. w' = (w :: 'a GpuScheduler_scheme)\<lparr>cs_token := t, buckets := bs\<rparr> \<and> e \<in> {kNoError, kInvalidArguments}"
proof -
  obtain flags k where info: "command_info ! unat (cmd_of c) = (flags, k)" by fastforce
  have known: "unat (cmd_of c) < 12" and id: "all_command_ids ! unat (cmd_of c) \<in> quiet_ids"
    using c by (simp_all add: quiet_cmd_def)
  show ?thesis
  proof (cases "if flags = kFixed then n = k else n \<ge> k")
    case True
    from d obtain args cmd where "decode_common (all_command_ids ! unat (cmd_of c)) args = Some cmd"
      and x: "dispatch_common sched_engine ((n - k) * 4) p cmd w = Some (e, w')"
      unfolding DoCommonCommand_known [OF info known True] by (auto split: Option.bind_splits)
    with decode_common_id id have "id_of cmd \<in> quiet_ids" by metis
    from dispatch_quiet [OF x this] show ?thesis .
  next
    case False
    with d have "w' = w" "e = kInvalidArguments" unfolding DoCommonCommand_bad_args [OF info known False] by simp_all
    then show ?thesis by (intro exI [of _ "cs_token w"] exI [of _ "buckets w"]) simp
  qed
qed

lemma quiet_common:
  assumes "quiet_cmd c" and D: "env_DoCommand env = DoCommonCommand sched_engine"
  shows "quiet (env_DoCommand env) c" and "quiet_callback env c"
proof -
  have "e \<noteq> kDeferCommandUntilSwapBuffersAck \<and> cp_get w' = cp_get w \<and> cp_put w' = cp_put w \<and>
        cp_entry_count w' = cp_entry_count w \<and> entry_addr w' = entry_addr w \<and> read_entry w' = read_entry w \<and>
        gs_command_processed_callback w' = gs_command_processed_callback w"
    if d: "env_DoCommand env (cmd_of c) n p w = Some (e, w')" for n p w e w'
  proof -
    from DoCommonCommand_quiet [OF assms(1) d [unfolded D]] obtain t bs
      where w': "w' = w\<lparr>cs_token := t, buckets := bs\<rparr>" and e: "e \<in> {kNoError, kInvalidArguments}" by blast
    have "entry_addr w' = entry_addr w" by (rule ext) (simp add: entry_addr_def w')
    moreover from this have "read_entry w' = read_entry w" by (intro ext) (simp add: read_entry_def w')
    ultimately show ?thesis using e w' by auto
  qed
  then show "quiet (env_DoCommand env) c" "quiet_callback env c"
    unfolding quiet_def quiet_callback_def by blast+
qed

text \<open>From \<^verbatim>\<open>Flush\<close> down to the commands.\<close>

theorem Flush_runs_stream:
  assumes "gs_parser w" and "cs_error w = kNoError" and "gs_unschedule_fences w = []" and "IsScheduled w"
    and "gs_command_processed_callback w = None" and "env_DoCommand env = DoCommonCommand sched_engine"
    and "stream_at w (cp_get w) cs" and "\<forall>c \<in> set cs. quiet_cmd c"
    and "put = (cp_get w + int (stream_len cs)) mod cp_entry_count w" and "int (stream_len cs) < cp_entry_count w"
    and "parser_inv w" and "cs_num_entries w = cp_entry_count w"
  shows "Flush (Some (PutChanged env)) put w =
    run_stream env cs (w\<lparr>cs_put_offset := put, cs_generation := cs_generation w + 1, cp_put := put\<rparr>)"
proof -
  let ?w = "w\<lparr>cs_put_offset := put, cs_generation := cs_generation w + 1, cp_put := put\<rparr>"
  have ec: "0 < cp_entry_count w" using assms(10) by linarith
  then have get: "0 \<le> cp_get w" "cp_get w < cp_entry_count w" using assms(11) by (auto simp: parser_inv_def)
  have "0 \<le> put" "put < cs_num_entries w" using ec assms(9,12) by simp_all
  then have "Flush (Some (PutChanged env)) put w = PutChanged env (w\<lparr>cs_put_offset := put\<rparr>)"
    by (simp add: Flush_def run_closure_def)
  also have "\<dots> = put_loop env ?w"
    using PutChanged_runs [of "w\<lparr>cs_put_offset := put\<rparr>" env] assms(1-4) by (simp add: IsScheduled_def)
  also have "\<dots> = run_stream env cs ?w"
  proof (rule put_loop_run_stream)
    have "read_entry ?w = read_entry w" by (intro ext) (simp add: read_entry_def entry_addr_def)
    then show "stream_at ?w (cp_get ?w) cs" using assms(7) stream_at_cong [of ?w w] by simp
  qed (use assms get quiet_common [OF _ assms(6)] in simp_all)
  finally show ?thesis .
qed

end
