(* ===== verification/Ring_Stream.thy ===== *)
theory Ring_Stream
  imports Common_Decoder
begin

text \<open>
  The contents of the ring buffer between the reader's and the writer's offset, as both sides see
  it: \<open>pending\<close> describes the commands that the client has written and the service has not yet
  executed. The commands lie one after the other, or they run to a jump near the end of the buffer
  and go on at its start. The theories of the client's helper and of the service meet here.
\<close>

subsection \<open>Commands in memory\<close>

definition stored :: "memory \<Rightarrow> obj \<Rightarrow> nat \<Rightarrow> u32 list \<Rightarrow> bool" where
  "stored m ob i es \<longleftrightarrow> (\<forall>k < length es. read_u32 m (ob, 4 * (i + k)) = Some (es ! k))"

definition wf_entries :: "u32 list \<Rightarrow> bool" where
  "wf_entries c \<longleftrightarrow> c \<noteq> [] \<and> unat (h_size (header_of_entry (hd c))) = length c"

fun straight :: "memory \<Rightarrow> obj \<Rightarrow> nat \<Rightarrow> u32 list list \<Rightarrow> nat \<Rightarrow> bool" where
  "straight m ob g [] p \<longleftrightarrow> g = p"
| "straight m ob g (c # cs) p \<longleftrightarrow>
     wf_entries c \<and> quiet_cmd c \<and> stored m ob g c \<and> straight m ob (g + length c) cs p"

text \<open>The jump to the start of the buffer, as the helper writes it.\<close>

definition jump0 :: "u32 list" where
  "jump0 = [entry_of_header \<lparr>h_size = 2, h_command = 2\<rparr>, 0]"

definition pending :: "memory \<Rightarrow> obj \<Rightarrow> nat \<Rightarrow> nat \<Rightarrow> nat \<Rightarrow> u32 list list \<Rightarrow> bool" where
  "pending m ob n g p cs \<longleftrightarrow> straight m ob g cs p \<or>
     (\<exists>cs1 cs2 j. cs = cs1 @ jump0 # cs2 \<and> straight m ob g cs1 j \<and> j \<le> n \<and> stored m ob j jump0 \<and>
        straight m ob 0 cs2 p \<and> p < g)"

text \<open>Where the reader is after a command.\<close>

definition next_pos :: "nat \<Rightarrow> u32 list \<Rightarrow> nat" where
  "next_pos g c = (if c = jump0 then 0 else g + length c)"

abbreviation walk :: "nat \<Rightarrow> u32 list list \<Rightarrow> nat" where
  "walk g cs \<equiv> foldl next_pos g cs"

text \<open>\<open>k\<close> entries from the writer's offset on are free, and filling them does not make a full buffer look empty.\<close>

definition free_entries :: "nat \<Rightarrow> nat \<Rightarrow> nat \<Rightarrow> nat \<Rightarrow> bool" where
  "free_entries n g p k \<longleftrightarrow> (if g \<le> p then p + k = n \<longrightarrow> 0 < g else p + k < g)"

text \<open>The tokens that a list of commands sets, in order.\<close>

definition token_of :: "u32 list \<Rightarrow> int list" where
  "token_of c = (if cmd_of c = 1 \<and> length c = 2 then [sint (c ! 1)] else [])"

abbreviation tokens :: "u32 list list \<Rightarrow> int list" where
  "tokens cs \<equiv> concat (map token_of cs)"

text \<open>The token of the service after a list of commands.\<close>

primrec token_after :: "int \<Rightarrow> u32 list list \<Rightarrow> int" where
  "token_after t [] = t"
| "token_after t (c # cs) = token_after (last (t # token_of c)) cs"

subsection \<open>Lemmas\<close>

lemma token_after_append [simp]: "token_after t (cs1 @ cs2) = token_after (token_after t cs1) cs2"
  by (induction cs1 arbitrary: t) simp_all

lemma token_after_last: "token_after t cs = last (t # tokens cs)"
proof (induction cs arbitrary: t)
  case (Cons c cs)
  show ?case unfolding token_after.simps Cons.IH by (cases "token_of c = []") (auto simp: last_append)
qed simp

lemma Jump_Init_0 [simp]: "Jump_Init 0 = Some jump0"
  by (simp add: Jump_Init_def SetCmd_evals jump0_def)

lemma jump0_simps [simp]: "length jump0 = 2" "cmd_of jump0 = 2" "wf_entries jump0" "token_of jump0 = []" "jump0 \<noteq> []"
  by (simp_all add: jump0_def wf_entries_def token_of_def)

lemma wf_entries_pos: "wf_entries c \<Longrightarrow> 0 < length c"
  by (simp add: wf_entries_def)

lemma straight_le: "straight m ob g cs p \<Longrightarrow> g \<le> p"
proof (induction cs arbitrary: g)
  case (Cons c cs)
  then have "g + length c \<le> p" by simp
  then show ?case by simp
qed simp

lemma straight_append:
  "straight m ob g (cs1 @ cs2) p \<longleftrightarrow> (\<exists>q. straight m ob g cs1 q \<and> straight m ob q cs2 p)"
  by (induction cs1 arbitrary: g) auto

lemma pending_Nil: "pending m ob n g p [] \<longleftrightarrow> g = p"
  by (simp add: pending_def)

lemma quiet_not_jump: "quiet_cmd c \<Longrightarrow> c \<noteq> jump0"
  by (auto simp: quiet_cmd_def quiet_ids_def all_command_ids_def)

text \<open>The first pending command is a quiet command or the jump.\<close>

lemma pending_Cons:
  assumes "pending m ob n g p (c # cs)" and "p \<le> n"
  shows "g \<noteq> p" and "stored m ob g c" and "wf_entries c" and "g \<le> n"
    and "quiet_cmd c \<and> g + length c \<le> n \<and> (g \<le> p \<longrightarrow> g + length c \<le> p) \<or> c = jump0 \<and> p < g"
    and "pending m ob n (next_pos g c) p cs"
proof -
  from assms consider
      (line) "wf_entries c" "quiet_cmd c" "stored m ob g c" "straight m ob (g + length c) cs p"
    | (bend) cs1 cs2 j where "wf_entries c" "quiet_cmd c" "stored m ob g c" "straight m ob (g + length c) cs1 j"
        "cs = cs1 @ jump0 # cs2" "j \<le> n" "stored m ob j jump0" "straight m ob 0 cs2 p" "p < g"
    | (jump) "c = jump0" "stored m ob g jump0" "g \<le> n" "straight m ob 0 cs p" "p < g"
  proof (cases "straight m ob g (c # cs) p")
    case True
    with line show ?thesis by simp
  next
    case False
    with assms(1) obtain cs1 cs2 j where c: "c # cs = cs1 @ jump0 # cs2" "straight m ob g cs1 j" "j \<le> n"
      "stored m ob j jump0" "straight m ob 0 cs2 p" "p < g" unfolding pending_def by blast
    show ?thesis
    proof (cases cs1)
      case Nil
      with c jump show ?thesis by simp
    next
      case (Cons d ds)
      with c bend [of ds j cs2] show ?thesis by simp
    qed
  qed
  then have "g \<noteq> p \<and> stored m ob g c \<and> wf_entries c \<and> g \<le> n \<and> pending m ob n (next_pos g c) p cs \<and>
    (quiet_cmd c \<and> g + length c \<le> n \<and> (g \<le> p \<longrightarrow> g + length c \<le> p) \<or> c = jump0 \<and> p < g)"
  proof cases
    case line
    then have "g + length c \<le> p" "0 < length c" using straight_le wf_entries_pos by blast+
    moreover have "pending m ob n (next_pos g c) p cs"
      using line(4) quiet_not_jump [OF line(2)] by (simp add: pending_def next_pos_def)
    ultimately show ?thesis using line assms(2) by auto
  next
    case bend
    then have "g + length c \<le> j" "0 < length c" using straight_le wf_entries_pos by blast+
    moreover have "pending m ob n (next_pos g c) p cs"
      unfolding pending_def next_pos_def
      by (rule disjI2, rule exI [of _ cs1], rule exI [of _ cs2], rule exI [of _ j])
        (use bend quiet_not_jump [OF bend(2)] in simp)
    ultimately show ?thesis using bend by simp
  next
    case jump
    then have "pending m ob n (next_pos g c) p cs" by (simp add: pending_def next_pos_def)
    with jump show ?thesis by simp
  qed
  then show "g \<noteq> p" and "stored m ob g c" and "wf_entries c" and "g \<le> n"
    and "quiet_cmd c \<and> g + length c \<le> n \<and> (g \<le> p \<longrightarrow> g + length c \<le> p) \<or> c = jump0 \<and> p < g"
    and "pending m ob n (next_pos g c) p cs"
    by blast+
qed

lemma pending_walk:
  "pending m ob n g p (cs1 @ cs2) \<Longrightarrow> p \<le> n \<Longrightarrow> pending m ob n (walk g cs1) p cs2"
  by (induction cs1 arbitrary: g) (auto dest: pending_Cons(6))

text \<open>The reader only moves towards the writer: free entries stay free.\<close>

lemma free_entries_walk:
  "pending m ob n g p (cs1 @ cs2) \<Longrightarrow> p \<le> n \<Longrightarrow> free_entries n g p k \<Longrightarrow> free_entries n (walk g cs1) p k"
proof (induction cs1 arbitrary: g)
  case (Cons c cs1)
  then have p: "pending m ob n g p (c # cs1 @ cs2)" by simp
  note c = pending_Cons [OF p Cons.prems(2)]
  have "free_entries n (next_pos g c) p k"
    using c(4,5) Cons.prems(3) quiet_not_jump [of c] by (auto simp: free_entries_def next_pos_def split: if_splits)
  with Cons.IH [OF c(6) Cons.prems(2)] show ?case by simp
qed simp

text \<open>Appending at the writer's end.\<close>

lemma pending_append:
  assumes "pending m ob n g p cs" and "stored m ob p c" and "wf_entries c" and "quiet_cmd c"
    and "free_entries n g p (length c)"
  shows "pending m ob n g (p + length c) (cs @ [c])"
proof -
  from assms(1) consider (line) "straight m ob g cs p"
    | (bend) cs1 cs2 j where "cs = cs1 @ jump0 # cs2" "straight m ob g cs1 j" "j \<le> n" "stored m ob j jump0"
        "straight m ob 0 cs2 p" "p < g" by (auto simp: pending_def)
  then show ?thesis
  proof cases
    case line
    then have "straight m ob g (cs @ [c]) (p + length c)" using assms by (auto simp: straight_append)
    then show ?thesis by (simp add: pending_def)
  next
    case bend
    then have "straight m ob 0 (cs2 @ [c]) (p + length c)" using assms by (auto simp: straight_append)
    moreover have "p + length c < g" using bend(6) assms(5) by (simp add: free_entries_def)
    ultimately show ?thesis
      unfolding pending_def
      by (intro disjI2, intro exI [of _ cs1] exI [of _ "cs2 @ [c]"] exI [of _ j]) (use bend in simp)
  qed
qed

lemma pending_wrap:
  assumes "pending m ob n g p cs" and "stored m ob p jump0" and "0 < g" and "g \<le> p" and "p \<le> n"
  shows "pending m ob n g 0 (cs @ [jump0])"
proof -
  have "straight m ob g cs p" using assms(1,4) by (auto simp: pending_def)
  then show ?thesis
    unfolding pending_def
    by (intro disjI2, intro exI [of _ cs] exI [of _ "[]"] exI [of _ p]) (use assms in simp)
qed

subsection \<open>Frames\<close>

text \<open>The entries that the pending commands occupy.\<close>

lemma stored_frame:
  assumes "stored m ob i es" and "\<And>k. i \<le> k \<Longrightarrow> k < i + length es \<Longrightarrow> read_u32 m' (ob, 4 * k) = read_u32 m (ob, 4 * k)"
  shows "stored m' ob i es"
  unfolding stored_def
proof (intro allI impI)
  fix k assume "k < length es"
  with assms(1) assms(2) [of "i + k"] show "read_u32 m' (ob, 4 * (i + k)) = Some (es ! k)" by (simp add: stored_def)
qed

lemma straight_frame:
  "straight m ob g cs p \<Longrightarrow> (\<And>k. g \<le> k \<Longrightarrow> k < p \<Longrightarrow> read_u32 m' (ob, 4 * k) = read_u32 m (ob, 4 * k)) \<Longrightarrow>
   straight m' ob g cs p"
proof (induction cs arbitrary: g)
  case (Cons c cs)
  then have le: "g + length c \<le> p" using straight_le by fastforce
  have "stored m' ob g c"
  proof (rule stored_frame)
    show "stored m ob g c" using Cons.prems(1) by simp
    fix k assume "g \<le> k" "k < g + length c"
    with le show "read_u32 m' (ob, 4 * k) = read_u32 m (ob, 4 * k)" by (intro Cons.prems(2)) simp_all
  qed
  moreover have "straight m' ob (g + length c) cs p"
  proof (rule Cons.IH)
    show "straight m ob (g + length c) cs p" using Cons.prems(1) by simp
    fix k assume "g + length c \<le> k" "k < p"
    then show "read_u32 m' (ob, 4 * k) = read_u32 m (ob, 4 * k)" by (intro Cons.prems(2)) simp_all
  qed
  ultimately show ?case using Cons.prems(1) by simp
qed simp

lemma pending_frame:
  assumes "pending m ob n g p cs"
    and same: "\<And>k. (if g \<le> p then g \<le> k \<and> k < p else k < p \<or> g \<le> k \<and> k < n + 2) \<Longrightarrow>
      read_u32 m' (ob, 4 * k) = read_u32 m (ob, 4 * k)"
  shows "pending m' ob n g p cs"
proof -
  from assms(1) consider (line) "straight m ob g cs p"
    | (bend) cs1 cs2 j where "cs = cs1 @ jump0 # cs2" "straight m ob g cs1 j" "j \<le> n" "stored m ob j jump0"
        "straight m ob 0 cs2 p" "p < g" by (auto simp: pending_def)
  then show ?thesis
  proof cases
    case line
    moreover from this have "g \<le> p" by (rule straight_le)
    ultimately have "straight m' ob g cs p" by (intro straight_frame [OF _ same]) simp_all
    then show ?thesis by (simp add: pending_def)
  next
    case bend
    have gj: "g \<le> j" using bend(2) straight_le by blast
    have "straight m' ob g cs1 j" using bend by (intro straight_frame [OF bend(2) same]) simp
    moreover have "straight m' ob 0 cs2 p" using bend by (intro straight_frame [OF bend(5) same]) simp
    moreover have "stored m' ob j jump0" using bend gj by (intro stored_frame [OF bend(4) same]) simp
    ultimately show ?thesis unfolding pending_def using bend by blast
  qed
qed

end
