(* ===== verification/Service_Stream.thy ===== *)
theory Service_Stream
  imports Gpu_Scheduler Ring_Stream
begin

text \<open>
  The service as the reader of the ring buffer: from any state in which it can run, a flush executes
  the pending commands in order, up to the writer's offset or to the first command it refuses. The
  service with its scheduler and the decoder of the common commands is the command buffer that the
  client's helper needs.
\<close>

subsection \<open>The state in which the service reads\<close>

definition ring_world :: "nat \<Rightarrow> obj \<Rightarrow> 'a GpuScheduler_scheme \<Rightarrow> bool" where
  "ring_world n ob w \<longleftrightarrow> sched_inv w \<and> dec_inv w \<and> cp_buffer w = Some (ob, 0) \<and>
     cp_entry_count w = int n + 2 \<and> cs_num_entries w = int n + 2 \<and> gs_unschedule_fences w = [] \<and>
     gs_unscheduled_count w = 0 \<and> gs_command_processed_callback w = None \<and> cs_get_offset w = cp_get w"

text \<open>
  The environment of the service: the handler is the decoder of the common commands, and the callback
  for a parse error (which tells the client by a message) changes nothing of the modelled state.
\<close>

definition service_env :: "'a GpuScheduler_scheme sched_env \<Rightarrow> bool" where
  "service_env env \<longleftrightarrow> env_DoCommand env = DoCommonCommand sched_engine \<and>
     (\<forall>w. run_closure (env_parse_error env) w = Some w)"

lemmas world_defs = ring_world_def sched_inv_def parser_inv_def svc_inv_def dec_inv_def

lemma buffers_of_frame [simp]:
  "buffers_of (w\<lparr>cs_error := e\<rparr>) = buffers_of w" "buffers_of (w\<lparr>cs_context_lost_reason := r\<rparr>) = buffers_of w"
  "buffers_of (w\<lparr>cs_generation := g\<rparr>) = buffers_of w" "buffers_of (w\<lparr>cs_put_offset := p\<rparr>) = buffers_of w"
  "buffers_of (w\<lparr>cp_put := p\<rparr>) = buffers_of w" "buffers_of (w\<lparr>mem := m\<rparr>) = buffers_of w"
  by (simp_all add: buffers_of_def)

lemma ring_world_frame [simp]:
  "ring_world n ob (w\<lparr>cs_error := e\<rparr>) = ring_world n ob w"
  "ring_world n ob (w\<lparr>cs_context_lost_reason := r\<rparr>) = ring_world n ob w"
  "ring_world n ob (w\<lparr>cs_generation := g\<rparr>) = ring_world n ob w"
  "ring_world n ob (w\<lparr>cs_put_offset := p\<rparr>) = ring_world n ob w"
  "ring_world n ob (w\<lparr>cp_put := p\<rparr>) = ring_world n ob w"
  by (simp_all add: world_defs)

subsection \<open>One command\<close>

lemma ring_worldD:
  assumes "ring_world n ob w"
  shows "0 \<le> cp_get w" and "cp_get w < cp_entry_count w" and "cp_entry_count w = int n + 2"
    and "entry_addr w (int g) = Some (ob, 4 * g)" and "read_entry w (int g) = read_u32 (mem w) (ob, 4 * g)"
    and "4 * (n + 2) \<le> length (mem w ob)"
proof -
  have p: "parser_inv w" and n: "cp_entry_count w = int n + 2" and b: "cp_buffer w = Some (ob, 0)"
    using assms by (simp_all add: ring_world_def sched_inv_def)
  then show "0 \<le> cp_get w" and "cp_get w < cp_entry_count w" and "cp_entry_count w = int n + 2"
    and "entry_addr w (int g) = Some (ob, 4 * g)" and "read_entry w (int g) = read_u32 (mem w) (ob, 4 * g)"
    and "4 * (n + 2) \<le> length (mem w ob)"
    by (auto simp: parser_inv_def entry_addr_def read_entry_def nat_add_distrib)
qed

lemma all_command_ids_SetToken: "k < 12 \<Longrightarrow> all_command_ids ! k = kSetToken \<longleftrightarrow> k = 1"
  unfolding all_command_ids_def by (auto simp: numeral_eq_Suc less_Suc_eq)

lemma dispatch_token:
  assumes "dispatch_common sched_engine imm p cmd w = Some (e, w')" and "id_of cmd \<in> quiet_ids"
  shows "cs_token w' = (case cmd of SetToken t \<Rightarrow> sint t | _ \<Rightarrow> cs_token w)"
  using assms
  by (cases cmd)
    (auto simp: quiet_ids_def HandleNoop_def HandleSetToken_def sched_engine_def cs_SetToken_def
      HandleSetBucketSize_def HandleSetBucketData_def HandleSetBucketDataImmediate_def CreateBucket_def Let_def
      split: option.splits Option.bind_splits prod.splits if_splits)

lemma quiet_token:
  assumes q: "quiet_cmd c" and wf: "wf_entries c" and st: "stored (mem w) ob g c"
    and d: "DoCommonCommand sched_engine (cmd_of c) (of_nat (length c - 1)) (ob, 4 * g) w = Some (e, w')"
  shows "cs_token w' = last (cs_token w # token_of c)"
proof -
  let ?n = "of_nat (length c - 1) :: u32"
  obtain flags k where info: "command_info ! unat (cmd_of c) = (flags, k)" by fastforce
  have known: "unat (cmd_of c) < 12" and id: "all_command_ids ! unat (cmd_of c) \<in> quiet_ids"
    using q by (simp_all add: quiet_cmd_def)
  have len: "length c < 2 ^ 21"
    using wf unsigned_less [of "h_size (header_of_entry (hd c))", where ?'a = nat] by (simp add: wf_entries_def)
  have arg: "?n = 1 \<longleftrightarrow> length c = 2"
  proof -
    have "unat ?n = length c - 1" using len by (simp add: unat_of_nat)
    then show ?thesis using wf by (auto simp: wf_entries_def word_unat_eq_iff)
  qed
  have one: "cmd_of c = 1 \<longleftrightarrow> all_command_ids ! unat (cmd_of c) = kSetToken"
    using all_command_ids_SetToken [OF known] by (simp add: word_unat_eq_iff)
  have set: "flags = kFixed \<and> k = 1" if "cmd_of c = 1"
    using command_info_nth [OF known] info that one by (simp add: all_command_ids_def)
  show ?thesis
  proof (cases "if flags = kFixed then ?n = k else ?n \<ge> k")
    case False
    with d have "w' = w" unfolding DoCommonCommand_bad_args [OF info known False] by simp
    moreover have "token_of c = []" using False set arg by (auto simp: token_of_def)
    ultimately show ?thesis by simp
  next
    case True
    from d obtain args cmd where args: "read_args (mem w) (ob, 4 * g) (unat k) = Some args"
      and cmd: "decode_common (all_command_ids ! unat (cmd_of c)) args = Some cmd"
      and x: "dispatch_common sched_engine ((?n - k) * 4) (ob, 4 * g) cmd w = Some (e, w')"
      unfolding DoCommonCommand_known [OF info known True] by (auto split: Option.bind_splits)
    have "id_of cmd \<in> quiet_ids" using decode_common_id [OF cmd] id by simp
    note t = dispatch_token [OF x this]
    show ?thesis
    proof (cases "cmd_of c = 1")
      case True': True
      with set arg True have "length c = 2" "k = 1" by auto
      moreover from this st have "read_u32 (mem w) (ob, 4 * g + 4) = Some (c ! 1)"
        by (auto simp: stored_def dest: spec [of _ 1])
      ultimately have "args = [c ! 1]" using args by (simp add: numeral_eq_Suc)
      with cmd one True' have "cmd = SetToken (c ! 1)" by simp
      with t True' \<open>length c = 2\<close> show ?thesis by (simp add: token_of_def)
    next
      case False
      with one decode_common_id [OF cmd] have "\<not> (\<exists>t. cmd = SetToken t)" by auto
      with t False show ?thesis by (cases cmd) (auto simp: token_of_def)
    qed
  qed
qed

text \<open>The state after a command: its token, its buckets, its offsets.\<close>

definition after_cmd :: "u32 list \<Rightarrow> (u32 \<rightharpoonup> Bucket) \<Rightarrow> int \<Rightarrow> int \<Rightarrow> 'a GpuScheduler_scheme \<Rightarrow> 'a GpuScheduler_scheme" where
  "after_cmd c bs g go w =
     w\<lparr>cs_token := last (cs_token w # token_of c), buckets := bs, cp_get := g, cs_get_offset := go\<rparr>"

lemma stream_at_single:
  assumes "ring_world n ob w" and "stored (mem w) ob g c" and "wf_entries c" and "g + length c \<le> n + 2"
  shows "stream_at w (int g) [c]"
proof -
  have "read_entry w (int g + int i) = Some (c ! i)" if "i < length c" for i
    using ring_worldD(5) [OF assms(1), of "g + i"] assms(2) that by (simp add: stored_def)
  then show ?thesis using assms ring_worldD(3) [OF assms(1)] by (simp add: wf_entries_def)
qed

lemma ProcessCommand_quiet:
  assumes rw: "ring_world n ob w" and g: "cp_get w = int g" and ne: "cp_put w \<noteq> cp_get w"
    and st: "stored (mem w) ob g c" and wf: "wf_entries c" and q: "quiet_cmd c" and fit: "g + length c \<le> n"
  shows "\<exists>e bs. ProcessCommand (DoCommonCommand sched_engine) w =
     Some (e, after_cmd c bs (int (g + length c)) (cs_get_offset w) w) \<and> e \<in> {kNoError, kInvalidArguments}"
proof -
  let ?D = "DoCommonCommand sched_engine" and ?n = "of_nat (length c - 1) :: u32"
  have D: "quiet ?D c"
    using quiet_common(1) [OF q, of "\<lparr>env_DoCommand = ?D, env_GetContextLostReason = \<lambda>_. kUnknown, env_run = \<lambda>_. Some,
      env_parse_error = None, env_GLFence_Create = \<lambda>w. (None, w), env_HasCompleted = \<lambda>_ _. True, env_glFinish = \<lambda>w. w,
      env_OS_WIN = False\<rparr>"] by simp
  have inv: "sched_inv w" "dec_inv w" using rw by (simp_all add: ring_world_def)
  have sa: "stream_at w (cp_get w) [c]" using stream_at_single [OF rw st wf] fit g by simp
  have p: "entry_addr w (cp_get w) = Some (ob, 4 * g)" using ring_worldD(4) [OF rw] g by simp
  have mod: "(cp_get w + int (length c)) mod cp_entry_count w = int (g + length c)"
    using ring_worldD(3) [OF rw] g fit by simp
  have len: "0 < length c" "length c < 2 ^ 21"
    using wf unsigned_less [of "h_size (header_of_entry (hd c))", where ?'a = nat] by (simp_all add: wf_entries_def)
  then have un: "unat ?n = length c - 1" by (simp add: unat_of_nat)
  have "?D (cmd_of c) ?n (ob, 4 * g) w \<noteq> None"
  proof (rule sched.DoCommonCommand_total [OF inv])
    show "unat (cmd_of c) < 12" using q by (simp add: quiet_cmd_def)
    show "unat ?n < 2 ^ 21" unfolding un using len by linarith
    have "4 * (g + length c) \<le> length (mem w ob)" using fit by (intro order_trans [OF _ ring_worldD(6) [OF rw]]) simp
    then show "snd (ob, 4 * g) + 4 * (unat ?n + 1) \<le> length (mem w (fst (ob, 4 * g)))"
      unfolding un fst_conv snd_conv using len(1) by simp
  qed
  then obtain e w' where d: "?D (cmd_of c) ?n (ob, 4 * g) w = Some (e, w')" by (rule not_None2E)
  from DoCommonCommand_quiet [OF q d] obtain t bs where w': "w' = w\<lparr>cs_token := t, buckets := bs\<rparr>"
    and e: "e \<in> {kNoError, kInvalidArguments}" by blast
  from quiet_token [OF q wf st d] w' have "t = last (cs_token w # token_of c)" by simp
  with ProcessCommand_stream [OF sa ne [symmetric] D ring_worldD(1) [OF rw]] p d mod w'
  have "ProcessCommand ?D w = Some (e, after_cmd c bs (int (g + length c)) (cs_get_offset w) w)"
    by (simp add: after_cmd_def)
  with e show ?thesis by blast
qed

lemma DoCommonCommand_jump0:
  assumes rw: "ring_world n ob w" and st: "stored (mem w) ob g jump0"
  shows "DoCommonCommand sched_engine 2 1 (ob, 4 * g) w = Some (kNoError, w\<lparr>cp_get := 0, cs_get_offset := 0\<rparr>)"
proof -
  have info: "command_info ! unat (2 :: u32) = (kFixed, 1)"
    by (simp add: command_info_def all_command_ids_def)
  have "read_u32 (mem w) (ob, 4 * g + 4) = Some 0"
    using st by (auto simp: stored_def jump0_def dest: spec [of _ 1])
  moreover have "sched_SetGetOffset 0 w = Some (True, w\<lparr>cp_get := 0, cs_get_offset := 0\<rparr>)"
    using rw by (simp add: sched_SetGetOffset_cases ring_world_def sched_inv_def)
  ultimately show ?thesis
    using DoCommonCommand_known [OF info, of 1 sched_engine "(ob, 4 * g)" w]
    by (simp add: all_command_ids_def HandleJump_def) (simp add: sched_engine_def)
qed

lemma ProcessCommand_jump0:
  assumes rw: "ring_world n ob w" and g: "cp_get w = int g" "0 < g" and ne: "cp_put w \<noteq> cp_get w"
    and st: "stored (mem w) ob g jump0" and fit: "g \<le> n"
  shows "ProcessCommand (DoCommonCommand sched_engine) w =
     Some (kNoError, after_cmd jump0 (buckets w) 0 0 w)"
proof -
  have "read_entry w (cp_get w) = Some (jump0 ! 0)"
    using ring_worldD(5) [OF rw, of g] st g by (auto simp: stored_def dest: spec [of _ 0])
  moreover have "entry_addr w (cp_get w) = Some (ob, 4 * g)" using ring_worldD(4) [OF rw] g by simp
  moreover have "header_of_entry (jump0 ! 0) = \<lparr>h_size = 2, h_command = 2\<rparr>" by (simp add: jump0_def)
  ultimately show ?thesis
    using DoCommonCommand_jump0 [OF rw st] g ne fit ring_worldD(3) [OF rw]
    by (simp add: ProcessCommand_def Let_def after_cmd_def)
qed

lemma ProcessCommand_pending:
  assumes rw: "ring_world n ob w" and p: "cp_put w = int p" "p \<le> n"
    and pend: "pending (mem w) ob n (nat (cp_get w)) p (c # cs)"
  shows "\<exists>e bs go. ProcessCommand (DoCommonCommand sched_engine) w =
     Some (e, after_cmd c bs (int (next_pos (nat (cp_get w)) c)) go w) \<and> e \<in> {kNoError, kInvalidArguments}"
proof -
  note get = ring_worldD(1) [OF rw] and c = pending_Cons [OF pend p(2)]
  obtain g where g: "cp_get w = int g" using get nonneg_int_cases by blast
  have ne: "cp_put w \<noteq> cp_get w" using c(1) g p by simp
  from c(5) show ?thesis
  proof
    assume q: "quiet_cmd c \<and> nat (cp_get w) + length c \<le> n \<and> (nat (cp_get w) \<le> p \<longrightarrow> nat (cp_get w) + length c \<le> p)"
    then have "stored (mem w) ob g c" "quiet_cmd c" "g + length c \<le> n" "next_pos (nat (cp_get w)) c = g + length c"
      using c(2) g quiet_not_jump [of c] by (simp_all add: next_pos_def)
    with ProcessCommand_quiet [OF rw g ne _ c(3)] show ?thesis by metis
  next
    assume j: "c = jump0 \<and> p < nat (cp_get w)"
    with ProcessCommand_jump0 [OF rw g _ ne] c(2,4) g have
      "ProcessCommand (DoCommonCommand sched_engine) w = Some (kNoError, after_cmd c (buckets w) (int 0) 0 w)" by simp
    with j show ?thesis unfolding next_pos_def by auto
  qed
qed

lemma after_cmd_simps [simp]:
  "mem (after_cmd c bs g go w) = mem w" "cp_get (after_cmd c bs g go w) = g" "cs_get_offset (after_cmd c bs g go w) = go"
  "cs_token (after_cmd c bs g go w) = last (cs_token w # token_of c)" "cp_put (after_cmd c bs g go w) = cp_put w"
  "cs_error (after_cmd c bs g go w) = cs_error w" "gs_command_processed_callback (after_cmd c bs g go w) = gs_command_processed_callback w"
  "gs_unscheduled_count (after_cmd c bs g go w) = gs_unscheduled_count w"
  "buffers_of (after_cmd c bs g go w) = buffers_of w"
  by (simp_all add: after_cmd_def buffers_of_def)

lemma ring_world_step:
  assumes rw: "ring_world n ob w" and s: "ProcessCommand (DoCommonCommand sched_engine) w = Some (e, after_cmd c bs g go w)"
  shows "ring_world n ob (after_cmd c bs g g w)"
proof -
  have i: "sched_inv w \<and> dec_inv w" using rw by (simp add: ring_world_def)
  from sched.async.ProcessCommand_inv [OF i s] have "sched_inv (after_cmd c bs g go w)" "dec_inv (after_cmd c bs g go w)"
    by simp_all
  moreover have "after_cmd c bs g g w = cs_SetGetOffset g (after_cmd c bs g go w)"
    by (simp add: after_cmd_def cs_SetGetOffset_def)
  ultimately have "sched_inv (after_cmd c bs g g w)" "dec_inv (after_cmd c bs g g w)" by simp_all
  with rw show ?thesis by (simp add: ring_world_def after_cmd_def)
qed

subsection \<open>The loop\<close>

lemma put_loop_pending:
  assumes env: "service_env env" and "p \<le> n"
  shows "ring_world n ob w \<Longrightarrow> cp_put w = int p \<Longrightarrow> cs_error w = kNoError \<Longrightarrow>
    pending (mem w) ob n (nat (cp_get w)) p cs \<Longrightarrow>
    \<exists>cs1 cs2 w'. put_loop env w = Some w' \<and> cs = cs1 @ cs2 \<and> ring_world n ob w' \<and> mem w' = mem w \<and>
      buffers_of w' = buffers_of w \<and> cs_token w' = token_after (cs_token w) cs1 \<and> cp_get w' = int (walk (nat (cp_get w)) cs1) \<and>
      (cs_error w' = kNoError \<longrightarrow> cs2 = [])"
proof (induction cs arbitrary: w)
  case Nil
  then have "IsEmpty w" using ring_worldD(1) [OF Nil.prems(1)] by (simp add: pending_Nil IsEmpty_def)
  then have "put_loop env w = Some w" by (subst put_loop.simps) simp
  with Nil.prems ring_worldD(1) [OF Nil.prems(1)] show ?case by (intro exI [of _ "[]"] exI [of _ w]) simp
next
  case (Cons c cs)
  have D: "env_DoCommand env = DoCommonCommand sched_engine" and cb: "\<And>w. run_closure (env_parse_error env) w = Some w"
    using env by (simp_all add: service_env_def)
  note get = ring_worldD(1) [OF Cons.prems(1)]
  define g where "g = next_pos (nat (cp_get w)) c"
  from ProcessCommand_pending [OF Cons.prems(1,2) assms(2) Cons.prems(4)] obtain e bs go
    where s: "ProcessCommand (DoCommonCommand sched_engine) w = Some (e, after_cmd c bs (int g) go w)"
      and e: "e \<in> {kNoError, kInvalidArguments}" unfolding g_def by blast
  have pend: "pending (mem w) ob n g p cs" unfolding g_def by (rule pending_Cons(6) [OF Cons.prems(4) assms(2)])
  let ?w1 = "after_cmd c bs (int g) (int g) w"
  have w1: "cs_SetGetOffset (int g) (after_cmd c bs (int g) go w) = ?w1"
    by (simp add: cs_SetGetOffset_def after_cmd_def)
  note rw = ring_world_step [OF Cons.prems(1) s]
  have ne: "\<not> IsEmpty w" using pending_Cons(1) [OF Cons.prems(4) assms(2)] Cons.prems(2) get by (auto simp: IsEmpty_def)
  have un: "gs_command_processed_callback w = None" "gs_unscheduled_count w = 0"
    using Cons.prems(1) by (simp_all add: ring_world_def)
  show ?case
  proof (cases "e = kNoError")
    case True
    with s un ne D w1 have "put_loop env w = put_loop env ?w1"
      by (subst put_loop.simps) (simp add: IsError_def run_callback_def)
    moreover obtain cs1 cs2 w' where "put_loop env ?w1 = Some w'" "cs = cs1 @ cs2" "ring_world n ob w'" "mem w' = mem w"
      "buffers_of w' = buffers_of w"
      "cs_token w' = token_after (last (cs_token w # token_of c)) cs1"
      "cp_get w' = int (walk g cs1)" "cs_error w' = kNoError \<longrightarrow> cs2 = []"
      using Cons.IH [OF rw] Cons.prems(2,3) pend by auto
    ultimately show ?thesis
      by (intro exI [of _ "c # cs1"] exI [of _ cs2] exI [of _ w']) (simp add: g_def)
  next
    case False
    let ?w2 = "(SetContextLostReason (env_GetContextLostReason env ?w1) ?w1)\<lparr>cs_error := e\<rparr>"
    have "ring_world n ob ?w2"
      using rw by (simp add: SetContextLostReason_def)
    moreover have "put_loop env w = Some ?w2"
      using False e s un ne D w1 Cons.prems(3) cb
      by (subst put_loop.simps) (simp add: IsError_def Let_def SetParseError_def SetContextLostReason_def)
    ultimately show ?thesis
      using False by (intro exI [of _ "[c]"] exI [of _ cs] exI [of _ ?w2]) (simp add: SetContextLostReason_def g_def)
  qed
qed

subsection \<open>The command buffer of the client\<close>

text \<open>
  \<^verbatim>\<open>Flush\<close> and \<^verbatim>\<open>FlushSync\<close> with \<^verbatim>\<open>PutChanged\<close> as the callback, the way
  \<^verbatim>\<open>content/common/gpu/gpu_command_buffer_stub.cc\<close> connects the service and the scheduler.
\<close>

lemma PutChanged_pending:
  assumes env: "service_env env" and p: "p \<le> n" and rw: "ring_world n ob w" and e: "cs_error w = kNoError"
    and put: "cs_put_offset w = int p" and pend: "pending (mem w) ob n (nat (cs_get_offset w)) p cs"
  shows "\<exists>cs1 cs2 w'. PutChanged env w = Some w' \<and> cs = cs1 @ cs2 \<and> ring_world n ob w' \<and> mem w' = mem w \<and>
    buffers_of w' = buffers_of w \<and> cs_token w' = token_after (cs_token w) cs1 \<and> cs_get_offset w' = int (walk (nat (cs_get_offset w)) cs1) \<and>
    (cs_error w' = kNoError \<longrightarrow> cs2 = [])"
proof -
  let ?w = "w\<lparr>cs_generation := cs_generation w + 1, cp_put := int p\<rparr>"
  have "PutChanged env w = put_loop env ?w"
    using PutChanged_runs [of w env] rw e put by (simp add: ring_world_def sched_inv_def IsScheduled_def)
  moreover have "cs_get_offset w = cp_get w" using rw by (simp add: ring_world_def)
  then have "ring_world n ob ?w" "cp_put ?w = int p" "cs_error ?w = kNoError"
    "pending (mem ?w) ob n (nat (cp_get ?w)) p cs"
    using rw e pend by simp_all
  note put_loop_pending [OF env p this]
  ultimately obtain cs1 cs2 w' where "PutChanged env w = Some w'" "cs = cs1 @ cs2" "ring_world n ob w'" "mem w' = mem w"
    "buffers_of w' = buffers_of w"
    "cs_token w' = token_after (cs_token w) cs1" "cp_get w' = int (walk (nat (cp_get w)) cs1)"
    "cs_error w' = kNoError \<longrightarrow> cs2 = []" by auto
  moreover have "cs_get_offset w = cp_get w" using rw by (simp add: ring_world_def)
  moreover from calculation(3) have "cs_get_offset w' = cp_get w'" by (simp add: ring_world_def)
  ultimately show ?thesis by metis
qed

lemma PutChanged_error:
  assumes "ring_world n ob w" and "cs_error w \<noteq> kNoError"
  shows "PutChanged env w = Some (w\<lparr>cs_generation := cs_generation w + 1, cp_put := cs_put_offset w\<rparr>)"
  using assms by (intro PutChanged_stopped) (simp_all add: ring_world_def sched_inv_def)

end
