(* ===== verification/Cmd_Buffer_Helper.thy ===== *)
theory Cmd_Buffer_Helper
  imports Command_Buffer_Service Ring_Stream Token_Fence "HOL-Library.Signed_Division"
begin

text \<open>
  The client side of the command stream, \<^verbatim>\<open>gpu/command_buffer/client/cmd_buffer_helper.cc\<close> and
  \<^verbatim>\<open>cmd_buffer_helper.h\<close>: it writes commands into the ring buffer, wraps with a jump, waits for space,
  and inserts and waits for tokens. \<open>hp_cb\<close> is the command buffer behind the pointer
  \<^verbatim>\<open>command_buffer_\<close>, of any type that extends the shared memory; the virtual functions of the
  interface \<^verbatim>\<open>CommandBuffer\<close> (\<^verbatim>\<open>gpu/command_buffer/common/command_buffer.h\<close>) are the record
  \<open>client_env\<close>, with the clock of the C library and whether the build is for Android. A failed
  assertion, a fatal log message, a write outside of memory, a division by zero and a wait that
  never ends are \<^const>\<open>None\<close>.
\<close>

subsection \<open>State\<close>

record 'w CommandBufferHelper =
  hp_ring_buffer_id :: int
  hp_ring_buffer_size :: int
  hp_ring_buffer :: Buffer
  hp_entries :: "loc option"
  hp_total_entry_count :: int
  hp_usable_entry_count :: int
  hp_token :: int
  hp_put :: int
  hp_last_put_sent :: int
  hp_commands_issued :: int
  hp_usable :: bool
  hp_last_flush_time :: int
  hp_cb :: 'w

record 'w client_env =
  cb_GetState :: "'w \<Rightarrow> State \<times> 'w"
  cb_GetLastState :: "'w \<Rightarrow> State \<times> 'w"
  cb_Flush :: "int \<Rightarrow> 'w \<Rightarrow> 'w option"
  cb_FlushSync :: "int \<Rightarrow> int \<Rightarrow> 'w \<Rightarrow> (State \<times> 'w) option"
  cb_SetGetBuffer :: "int \<Rightarrow> 'w \<Rightarrow> 'w option"
  cb_CreateTransferBuffer :: "u32 \<Rightarrow> int \<Rightarrow> 'w \<Rightarrow> int \<times> 'w"
  cb_DestroyTransferBuffer :: "int \<Rightarrow> 'w \<Rightarrow> 'w"
  cb_GetTransferBuffer :: "int \<Rightarrow> 'w \<Rightarrow> Buffer \<times> 'w"
  env_clock :: "'w \<Rightarrow> int"
  env_OS_ANDROID :: bool

definition kCommandsPerFlushCheck :: int where
  "kCommandsPerFlushCheck = 100"

definition CLOCKS_PER_SEC :: int where
  "CLOCKS_PER_SEC = 1000000"

definition new_CommandBufferHelper :: "'w \<Rightarrow> 'w CommandBufferHelper" where
  "new_CommandBufferHelper cb =
     \<lparr>hp_ring_buffer_id = -1, hp_ring_buffer_size = 0, hp_ring_buffer = null_Buffer, hp_entries = None,
      hp_total_entry_count = 0, hp_usable_entry_count = 0, hp_token = 0, hp_put = 0, hp_last_put_sent = 0,
      hp_commands_issued = 0, hp_usable = True, hp_last_flush_time = 0, hp_cb = cb\<rparr>"

definition HaveRingBuffer :: "'w CommandBufferHelper \<Rightarrow> bool" where
  "HaveRingBuffer h \<longleftrightarrow> hp_ring_buffer_id h \<noteq> -1"

definition ClearUsable :: "'w CommandBufferHelper \<Rightarrow> 'w CommandBufferHelper" where
  "ClearUsable h = h\<lparr>hp_usable := False\<rparr>"

definition last_token_read :: "'w client_env \<Rightarrow> 'w CommandBufferHelper \<Rightarrow> int \<times> 'w CommandBufferHelper" where
  "last_token_read env h = (let (s, w) = cb_GetLastState env (hp_cb h) in (st_token s, h\<lparr>hp_cb := w\<rparr>))"

definition get_offset :: "'w client_env \<Rightarrow> 'w CommandBufferHelper \<Rightarrow> int \<times> 'w CommandBufferHelper" where
  "get_offset env h = (let (s, w) = cb_GetLastState env (hp_cb h) in (st_get_offset s, h\<lparr>hp_cb := w\<rparr>))"

definition hp_GetError :: "'w client_env \<Rightarrow> 'w CommandBufferHelper \<Rightarrow> Error \<times> 'w CommandBufferHelper" where
  "hp_GetError env h = (let (s, w) = cb_GetState env (hp_cb h) in (st_error s, h\<lparr>hp_cb := w\<rparr>))"

subsection \<open>The ring buffer\<close>

definition kJumpEntries :: int where
  "kJumpEntries = 2"

definition AllocateRingBuffer ::
    "'w client_env \<Rightarrow> 'w CommandBufferHelper \<Rightarrow> (bool \<times> 'w CommandBufferHelper) option" where
  "AllocateRingBuffer env h =
     (if \<not> hp_usable h then Some (False, h)
      else if HaveRingBuffer h then Some (True, h)
      else let (id, w1) = cb_CreateTransferBuffer env (uint32 (hp_ring_buffer_size h)) (-1) (hp_cb h) in
        if id < 0 then Some (False, ClearUsable (h\<lparr>hp_cb := w1\<rparr>))
        else let (b, w2) = cb_GetTransferBuffer env id w1;
                 h2 = h\<lparr>hp_cb := w2, hp_ring_buffer := b\<rparr>
             in case buf_ptr b of
                  None \<Rightarrow> Some (False, ClearUsable h2)
                | Some ob \<Rightarrow> do {
                    w3 \<leftarrow> cb_SetGetBuffer env id w2;
                    let (state, w4) = cb_GetState env w3;
                    let h3 = h2\<lparr>hp_cb := w4, hp_ring_buffer_id := id, hp_entries := Some (ob, 0)\<rparr>;
                    let num_ring_buffer_entries = sint (uint32 (hp_ring_buffer_size h) div 4);
                    if num_ring_buffer_entries > st_num_entries state then Some (False, ClearUsable h3)
                    else Some (True, h3\<lparr>hp_total_entry_count := num_ring_buffer_entries,
                                        hp_usable_entry_count := num_ring_buffer_entries - kJumpEntries,
                                        hp_put := st_put_offset state\<rparr>)
                  })"

definition FreeRingBuffer :: "'w client_env \<Rightarrow> 'w CommandBufferHelper \<Rightarrow> 'w CommandBufferHelper option" where
  "FreeRingBuffer env h =
     (let (get, h1) = get_offset env h in
      if hp_put h1 \<noteq> get then None
      else if HaveRingBuffer h1
      then Some (h1\<lparr>hp_cb := cb_DestroyTransferBuffer env (hp_ring_buffer_id h1) (hp_cb h1), hp_ring_buffer_id := -1\<rparr>)
      else Some h1)"

definition hp_Initialize :: "'w client_env \<Rightarrow> int \<Rightarrow> 'w CommandBufferHelper \<Rightarrow> (bool \<times> 'w CommandBufferHelper) option" where
  "hp_Initialize env ring_buffer_size h = AllocateRingBuffer env (h\<lparr>hp_ring_buffer_size := ring_buffer_size\<rparr>)"

subsection \<open>Flushing\<close>

definition hp_FlushSync :: "'w client_env \<Rightarrow> 'w CommandBufferHelper \<Rightarrow> (bool \<times> 'w CommandBufferHelper) option" where
  "hp_FlushSync env h =
     (if \<not> hp_usable h then Some (False, h)
      else let h1 = h\<lparr>hp_last_flush_time := env_clock env (hp_cb h), hp_last_put_sent := hp_put h\<rparr>;
               (get, h2) = get_offset env h1
           in do {
             (state, w) \<leftarrow> cb_FlushSync env (hp_put h2) get (hp_cb h2);
             Some (st_error state = kNoError, h2\<lparr>hp_cb := w\<rparr>)
           })"

definition hp_Flush :: "'w client_env \<Rightarrow> 'w CommandBufferHelper \<Rightarrow> 'w CommandBufferHelper option" where
  "hp_Flush env h =
     (if hp_usable h
      then do {
        w \<leftarrow> cb_Flush env (hp_put h) (hp_cb h);
        Some (h\<lparr>hp_cb := w, hp_last_flush_time := env_clock env (hp_cb h), hp_last_put_sent := hp_put h\<rparr>)
      }
      else Some h)"

partial_function (option) flush_until_empty ::
    "'w client_env \<Rightarrow> 'w CommandBufferHelper \<Rightarrow> (bool \<times> 'w CommandBufferHelper) option" where
  "flush_until_empty env h =
     Option.bind (hp_FlushSync env h)
       (\<lambda>(ok, h1).
          if \<not> ok then Some (False, h1)
          else (case get_offset env h1 of (get, h2) \<Rightarrow>
                 if hp_put h2 \<noteq> get then flush_until_empty env h2 else Some (True, h2)))"

definition Finish :: "'w client_env \<Rightarrow> 'w CommandBufferHelper \<Rightarrow> (bool \<times> 'w CommandBufferHelper) option" where
  "Finish env h =
     (if \<not> hp_usable h then Some (False, h)
      else let (get, h1) = get_offset env h in
        if hp_put h1 = get then Some (True, h1)
        else if \<not> HaveRingBuffer h1 then None
        else flush_until_empty env h1)"

subsection \<open>Space for commands\<close>

text \<open>The remainder of C on the integers; division by zero traps.\<close>

definition c_mod :: "int \<Rightarrow> int \<Rightarrow> int option" where
  "c_mod a b = (if b = 0 then None else Some (a smod b))"

definition AvailableEntries :: "'w client_env \<Rightarrow> 'w CommandBufferHelper \<Rightarrow> (int \<times> 'w CommandBufferHelper) option" where
  "AvailableEntries env h =
     (let (get, h1) = get_offset env h in do {
        n \<leftarrow> c_mod (get - hp_put h1 - 1 + hp_usable_entry_count h1) (hp_usable_entry_count h1);
        Some (n, h1)
      })"

text \<open>Writing entries at a pointer, one after the other.\<close>

fun write_entries :: "memory \<Rightarrow> loc \<Rightarrow> u32 list \<Rightarrow> memory option" where
  "write_entries m p [] = Some m"
| "write_entries m p (e # es) = do {
     m1 \<leftarrow> write_u32 m p e;
     write_entries m1 (fst p, snd p + 4) es
   }"

definition entry_ptr :: "'w CommandBufferHelper \<Rightarrow> int \<Rightarrow> loc option" where
  "entry_ptr h i =
     (case hp_entries h of
        None \<Rightarrow> None
      | Some (ob, off) \<Rightarrow> if i \<ge> 0 then Some (ob, off + 4 * nat i) else None)"

definition put_entries ::
    "loc \<Rightarrow> u32 list \<Rightarrow> 'a memory_state_scheme CommandBufferHelper \<Rightarrow> 'a memory_state_scheme CommandBufferHelper option" where
  "put_entries p es h = do {
     m \<leftarrow> write_entries (mem (hp_cb h)) p es;
     Some (h\<lparr>hp_cb := (hp_cb h)\<lparr>mem := m\<rparr>\<rparr>)
   }"

text \<open>\<^verbatim>\<open>cmd::Jump::Set(&entries_[put_], 0)\<close> and the reset of \<^verbatim>\<open>put_\<close>, at the two places where the helper wraps.\<close>

definition wrap_put ::
    "'a memory_state_scheme CommandBufferHelper \<Rightarrow> 'a memory_state_scheme CommandBufferHelper option" where
  "wrap_put h = do {
     p \<leftarrow> entry_ptr h (hp_put h);
     es \<leftarrow> Jump_Init 0;
     h1 \<leftarrow> put_entries p es h;
     Some (h1\<lparr>hp_put := 0\<rparr>)
   }"

text \<open>
  The condition \<^verbatim>\<open>get_offset() > put_ || get_offset() == 0\<close>: the second read only takes place when the
  first comparison fails.
\<close>

definition must_wait_for_wrap :: "'w client_env \<Rightarrow> 'w CommandBufferHelper \<Rightarrow> bool \<times> 'w CommandBufferHelper" where
  "must_wait_for_wrap env h =
     (let (g1, h1) = get_offset env h in
      if g1 > hp_put h1 then (True, h1)
      else let (g2, h2) = get_offset env h1 in (g2 = 0, h2))"

text \<open>The two waits; the result says whether they ended because a flush failed.\<close>

partial_function (option) wrap_wait ::
    "'w client_env \<Rightarrow> 'w CommandBufferHelper \<Rightarrow> (bool \<times> 'w CommandBufferHelper) option" where
  "wrap_wait env h =
     (case must_wait_for_wrap env h of (busy, h1) \<Rightarrow>
       if busy
       then Option.bind (hp_FlushSync env h1) (\<lambda>(ok, h2). if \<not> ok then Some (False, h2) else wrap_wait env h2)
       else Some (True, h1))"

partial_function (option) space_wait ::
    "'w client_env \<Rightarrow> int \<Rightarrow> 'w CommandBufferHelper \<Rightarrow> (bool \<times> 'w CommandBufferHelper) option" where
  "space_wait env count h =
     Option.bind (AvailableEntries env h)
       (\<lambda>(n, h1).
          if n < count
          then Option.bind (hp_FlushSync env h1) (\<lambda>(ok, h2). if \<not> ok then Some (False, h2) else space_wait env count h2)
          else Some (True, h1))"

text \<open>The flush at the end of \<^verbatim>\<open>WaitForAvailableEntries\<close>.\<close>

definition flush_check :: "'w client_env \<Rightarrow> 'w CommandBufferHelper \<Rightarrow> 'w CommandBufferHelper option" where
  "flush_check env h = do {
     pending \<leftarrow> c_mod (hp_put h + hp_usable_entry_count h - hp_last_put_sent h) (hp_usable_entry_count h);
     let (get, h1) = get_offset env h;
     let limit = hp_usable_entry_count h1 sdiv (if get = hp_last_put_sent h1 then 16 else 2);
     if pending > limit then hp_Flush env h1
     else if hp_commands_issued h1 smod kCommandsPerFlushCheck = 0 \<and> \<not> env_OS_ANDROID env
             \<and> 300 * (env_clock env (hp_cb h1) - hp_last_flush_time h1) > CLOCKS_PER_SEC
     then hp_Flush env h1
     else Some h1
   }"

text \<open>
  The conditions in front of the two loops are the loops' own; \<^verbatim>\<open>if\<close> and \<^verbatim>\<open>while\<close> each evaluate them.
\<close>

definition WaitForAvailableEntries ::
    "'a memory_state_scheme client_env \<Rightarrow> int \<Rightarrow> 'a memory_state_scheme CommandBufferHelper \<Rightarrow>
     'a memory_state_scheme CommandBufferHelper option" where
  "WaitForAvailableEntries env count h0 = do {
     (_, h) \<leftarrow> AllocateRingBuffer env h0;
     if \<not> hp_usable h then Some h
     else if \<not> HaveRingBuffer h then None
     else if \<not> count < hp_usable_entry_count h then None
     else do {
       (go_on, h2) \<leftarrow>
         (if hp_put h + count > hp_usable_entry_count h
          then if \<not> 1 \<le> hp_put h then None
               else do {
                 (ok, h1) \<leftarrow> (case must_wait_for_wrap env h of (busy, h1) \<Rightarrow>
                                if busy then wrap_wait env h1 else Some (True, h1));
                 if \<not> ok then Some (False, h1)
                 else map_option (\<lambda>h2. (True, h2)) (wrap_put h1)
               }
          else Some (True, h));
       if \<not> go_on then Some h2
       else do {
         (n, h3) \<leftarrow> AvailableEntries env h2;
         (ok, h4) \<leftarrow> (if n < count then space_wait env count h3 else Some (True, h3));
         if \<not> ok then Some h4 else flush_check env h4
       }
     }
   }"

definition GetSpace ::
    "'a memory_state_scheme client_env \<Rightarrow> u32 \<Rightarrow> 'a memory_state_scheme CommandBufferHelper \<Rightarrow>
     (loc option \<times> 'a memory_state_scheme CommandBufferHelper) option" where
  "GetSpace env entries h0 = do {
     (_, h) \<leftarrow> AllocateRingBuffer env h0;
     if \<not> hp_usable h then Some (None, h)
     else if \<not> HaveRingBuffer h then None
     else do {
       h1 \<leftarrow> WaitForAvailableEntries env (sint entries) (h\<lparr>hp_commands_issued := int32 (hp_commands_issued h + 1)\<rparr>);
       space \<leftarrow> entry_ptr h1 (hp_put h1);
       let h2 = h1\<lparr>hp_put := int32 (hp_put h1 + int (unat entries))\<rparr>;
       if \<not> hp_put h2 \<le> hp_usable_entry_count h2 then None
       else if hp_put h2 = hp_usable_entry_count h2
       then map_option (\<lambda>h3. (Some space, h3)) (wrap_put h2)
       else Some (Some space, h2)
     }
   }"

subsection \<open>Commands\<close>

definition GetCmdSpace ::
    "'a memory_state_scheme client_env \<Rightarrow> CommandId \<Rightarrow> 'a memory_state_scheme CommandBufferHelper \<Rightarrow>
     (loc option \<times> 'a memory_state_scheme CommandBufferHelper) option" where
  "GetCmdSpace env c h = GetSpace env (ComputeNumEntries (sizeof_cmd c)) h"

definition GetImmediateCmdSpace ::
    "'a memory_state_scheme client_env \<Rightarrow> CommandId \<Rightarrow> u32 \<Rightarrow> 'a memory_state_scheme CommandBufferHelper \<Rightarrow>
     (loc option \<times> 'a memory_state_scheme CommandBufferHelper) option" where
  "GetImmediateCmdSpace env c data_space h = GetSpace env (ComputeNumEntries (sizeof_cmd c + data_space)) h"

definition GetImmediateCmdSpaceTotalSize ::
    "'a memory_state_scheme client_env \<Rightarrow> u32 \<Rightarrow> 'a memory_state_scheme CommandBufferHelper \<Rightarrow>
     (loc option \<times> 'a memory_state_scheme CommandBufferHelper) option" where
  "GetImmediateCmdSpaceTotalSize env total_space h = GetSpace env (ComputeNumEntries total_space) h"

text \<open>\<^verbatim>\<open>if (cmd) cmd->Init(...)\<close>.\<close>

definition init_cmd ::
    "u32 list option \<Rightarrow> loc option \<times> 'a memory_state_scheme CommandBufferHelper \<Rightarrow>
     'a memory_state_scheme CommandBufferHelper option" where
  "init_cmd init r =
     (case r of
        (None, h) \<Rightarrow> Some h
      | (Some p, h) \<Rightarrow> do { es \<leftarrow> init; put_entries p es h })"

definition hp_Noop where
  "hp_Noop env skip_count h = Option.bind (GetImmediateCmdSpace env kNoop (skip_count * 4) h) (init_cmd (Noop_Init skip_count))"

definition hp_SetToken where
  "hp_SetToken env token h = Option.bind (GetCmdSpace env kSetToken h) (init_cmd (SetToken_Init token))"

definition hp_Jump where
  "hp_Jump env offset h = Option.bind (GetCmdSpace env kJump h) (init_cmd (Jump_Init offset))"

definition hp_JumpRelative where
  "hp_JumpRelative env offset h = Option.bind (GetCmdSpace env kJumpRelative h) (init_cmd (JumpRelative_Init offset))"

definition hp_Call where
  "hp_Call env offset h = Option.bind (GetCmdSpace env kCall h) (init_cmd (Call_Init offset))"

definition hp_CallRelative where
  "hp_CallRelative env offset h = Option.bind (GetCmdSpace env kCallRelative h) (init_cmd (CallRelative_Init offset))"

definition hp_Return where
  "hp_Return env h = Option.bind (GetCmdSpace env kReturn h) (init_cmd Return_Init)"

definition hp_SetBucketSize where
  "hp_SetBucketSize env bucket_id sz h =
     Option.bind (GetCmdSpace env kSetBucketSize h) (init_cmd (SetBucketSize_Init bucket_id sz))"

definition hp_SetBucketData where
  "hp_SetBucketData env bucket_id offset sz shared_memory_id shared_memory_offset h =
     Option.bind (GetCmdSpace env kSetBucketData h)
       (init_cmd (SetBucketData_Init bucket_id offset sz shared_memory_id shared_memory_offset))"

definition hp_SetBucketDataImmediate where
  "hp_SetBucketDataImmediate env bucket_id offset data sz h = do {
     (p, h1) \<leftarrow> GetImmediateCmdSpace env kSetBucketDataImmediate sz h;
     h2 \<leftarrow> init_cmd (SetBucketDataImmediate_Init bucket_id offset sz) (p, h1);
     (case p of
        None \<Rightarrow> Some h2
      | Some q \<Rightarrow> do {
          m \<leftarrow> write_bytes (mem (hp_cb h2)) (fst q, snd q + 16) data;
          Some (h2\<lparr>hp_cb := (hp_cb h2)\<lparr>mem := m\<rparr>\<rparr>)
        })
   }"

definition hp_GetBucketSize where
  "hp_GetBucketSize env bucket_id shared_memory_id shared_memory_offset h =
     Option.bind (GetCmdSpace env kGetBucketSize h)
       (init_cmd (GetBucketSize_Init bucket_id shared_memory_id shared_memory_offset))"

definition hp_GetBucketData where
  "hp_GetBucketData env bucket_id offset sz shared_memory_id shared_memory_offset h =
     Option.bind (GetCmdSpace env kGetBucketData h)
       (init_cmd (GetBucketData_Init bucket_id offset sz shared_memory_id shared_memory_offset))"

subsection \<open>Tokens\<close>

definition InsertToken ::
    "'a memory_state_scheme client_env \<Rightarrow> 'a memory_state_scheme CommandBufferHelper \<Rightarrow>
     (int \<times> 'a memory_state_scheme CommandBufferHelper) option" where
  "InsertToken env h0 = do {
     (_, h) \<leftarrow> AllocateRingBuffer env h0;
     if \<not> hp_usable h then Some (hp_token h, h)
     else if \<not> HaveRingBuffer h then None
     else do {
       let h1 = h\<lparr>hp_token := (hp_token h + 1) mod 2147483648\<rparr>;
       (p, h2) \<leftarrow> GetCmdSpace env kSetToken h1;
       h3 \<leftarrow> init_cmd (SetToken_Init (uint32 (hp_token h2))) (p, h2);
       if p \<noteq> None \<and> hp_token h3 = 0
       then do {
         (_, h4) \<leftarrow> Finish env h3;
         let (t, h5) = last_token_read env h4;
         if hp_token h5 \<noteq> t then None else Some (hp_token h5, h5)
       }
       else Some (hp_token h3, h3)
     }
   }"

partial_function (option) token_wait ::
    "'w client_env \<Rightarrow> int \<Rightarrow> 'w CommandBufferHelper \<Rightarrow> 'w CommandBufferHelper option" where
  "token_wait env token h =
     (case last_token_read env h of (t, h1) \<Rightarrow>
       if t < token
       then (case get_offset env h1 of (get, h2) \<Rightarrow>
              if get = hp_put h2 then None
              else Option.bind (hp_FlushSync env h2)
                (\<lambda>(ok, h3). if \<not> ok then Some h3 else token_wait env token h3))
       else Some h1)"

definition WaitForToken ::
    "'w client_env \<Rightarrow> int \<Rightarrow> 'w CommandBufferHelper \<Rightarrow> 'w CommandBufferHelper option" where
  "WaitForToken env token h =
     (if \<not> hp_usable h then Some h
      else if \<not> HaveRingBuffer h then None
      else if token < 0 then Some h
      else if token > hp_token h then Some h
      else token_wait env token h)"

subsection \<open>The contract of the command buffer\<close>

text \<open>
  What the helper relies on, in terms of three observations of the command buffer (the get offset, the
  token, and whether no error is set) and of an invariant \<open>world n ob\<close> for a ring buffer of \<open>n + 2\<close>
  entries in the object \<open>ob\<close>. A flush lets the reader execute some of the pending commands, in
  order; a synchronous flush that reports no error has made progress. \<open>consumes\<close> is what a flush
  does to the pending commands \<open>cs\<close>, of which \<open>cs2\<close> are left.
\<close>

definition consumes ::
    "(nat \<Rightarrow> obj \<Rightarrow> 'a memory_state_scheme \<Rightarrow> bool) \<Rightarrow> ('a memory_state_scheme \<Rightarrow> int) \<Rightarrow>
     ('a memory_state_scheme \<Rightarrow> int) \<Rightarrow> nat \<Rightarrow> obj \<Rightarrow> u32 list list \<Rightarrow> u32 list list \<Rightarrow>
     'a memory_state_scheme \<Rightarrow> 'a memory_state_scheme \<Rightarrow> bool" where
  "consumes world get tok n ob cs cs2 w w' \<longleftrightarrow> world n ob w' \<and> mem w' = mem w \<and>
     (\<exists>cs1. cs = cs1 @ cs2 \<and> tok w' = token_after (tok w) cs1 \<and> nat (get w') = walk (nat (get w)) cs1)"

locale command_buffer =
  fixes env :: "'a memory_state_scheme client_env"
    and world :: "nat \<Rightarrow> obj \<Rightarrow> 'a memory_state_scheme \<Rightarrow> bool"
    and get tok :: "'a memory_state_scheme \<Rightarrow> int"
    and ok :: "'a memory_state_scheme \<Rightarrow> bool"
  assumes world_get: "world n ob w \<Longrightarrow> 0 \<le> get w"
    and world_size: "world n ob w \<Longrightarrow> 4 * (n + 2) \<le> length (mem w ob)"
    and GetLastState_law: "world n ob w \<Longrightarrow> cb_GetLastState env w = (s, w') \<Longrightarrow>
      st_get_offset s = get w \<and> st_token s = tok w \<and> world n ob w' \<and> mem w' = mem w \<and>
      get w' = get w \<and> tok w' = tok w \<and> ok w' = ok w"
    and write_law: "world n ob w \<Longrightarrow> (\<And>b. length (m b) = length (mem w b)) \<Longrightarrow>
      world n ob (w\<lparr>mem := m\<rparr>) \<and> get (w\<lparr>mem := m\<rparr>) = get w \<and> tok (w\<lparr>mem := m\<rparr>) = tok w \<and> ok (w\<lparr>mem := m\<rparr>) = ok w"
    and FlushSync_law: "world n ob w \<Longrightarrow> ok w \<Longrightarrow> p \<le> n \<Longrightarrow> pending (mem w) ob n (nat (get w)) p cs \<Longrightarrow>
      \<exists>s w' cs2. cb_FlushSync env (int p) last_get w = Some (s, w') \<and> consumes world get tok n ob cs cs2 w w' \<and>
        (st_error s = kNoError \<longleftrightarrow> ok w') \<and> (ok w' \<and> cs \<noteq> [] \<longrightarrow> cs2 \<noteq> cs)"
    and FlushSync_error: "world n ob w \<Longrightarrow> \<not> ok w \<Longrightarrow>
      \<exists>s w'. cb_FlushSync env put last_get w = Some (s, w') \<and> world n ob w' \<and> \<not> ok w' \<and> st_error s \<noteq> kNoError"
    and Flush_law: "world n ob w \<Longrightarrow> ok w \<Longrightarrow> p \<le> n \<Longrightarrow> pending (mem w) ob n (nat (get w)) p cs \<Longrightarrow>
      \<exists>w' cs2. cb_Flush env (int p) w = Some w' \<and> consumes world get tok n ob cs cs2 w w'"
    and Flush_error: "world n ob w \<Longrightarrow> \<not> ok w \<Longrightarrow> \<exists>w'. cb_Flush env put w = Some w' \<and> world n ob w' \<and> \<not> ok w'"

text \<open>
  The helper with a ring buffer of \<open>n + 2\<close> entries, \<open>n\<close> of them usable, and the commands it has written
  and the service has not executed; after an error nothing is known about the latter.
\<close>

definition helper_core ::
    "(nat \<Rightarrow> obj \<Rightarrow> 'a memory_state_scheme \<Rightarrow> bool) \<Rightarrow> ('a memory_state_scheme \<Rightarrow> int) \<Rightarrow>
     ('a memory_state_scheme \<Rightarrow> bool) \<Rightarrow> nat \<Rightarrow> obj \<Rightarrow> u32 list list \<Rightarrow> 'a memory_state_scheme CommandBufferHelper \<Rightarrow> bool" where
  "helper_core world get ok n ob cs h \<longleftrightarrow> hp_usable h \<and> HaveRingBuffer h \<and> hp_entries h = Some (ob, 0) \<and>
     hp_usable_entry_count h = int n \<and> 0 \<le> hp_put h \<and> hp_put h < int n \<and> n < 1073741824 \<and> world n ob (hp_cb h) \<and>
     (ok (hp_cb h) \<longrightarrow> pending (mem (hp_cb h)) ob n (nat (get (hp_cb h))) (nat (hp_put h)) cs)"

text \<open>From \<open>h\<close> to \<open>h'\<close> the helper only flushed, and \<open>cs'\<close> are the commands still pending of \<open>cs\<close>.\<close>

definition advanced ::
    "('a memory_state_scheme \<Rightarrow> int) \<Rightarrow> ('a memory_state_scheme \<Rightarrow> int) \<Rightarrow> ('a memory_state_scheme \<Rightarrow> bool) \<Rightarrow> u32 list list \<Rightarrow> u32 list list \<Rightarrow>
     'a memory_state_scheme CommandBufferHelper \<Rightarrow> 'a memory_state_scheme CommandBufferHelper \<Rightarrow> bool" where
  "advanced get tok ok cs cs' h h' \<longleftrightarrow>
     (\<exists>w t l. h' = h\<lparr>hp_cb := w, hp_last_flush_time := t, hp_last_put_sent := l\<rparr>) \<and>
     (ok (hp_cb h') \<longrightarrow> ok (hp_cb h) \<and> mem (hp_cb h') = mem (hp_cb h) \<and>
        (\<exists>cs1. cs = cs1 @ cs' \<and> tok (hp_cb h') = token_after (tok (hp_cb h)) cs1 \<and>
           nat (get (hp_cb h')) = walk (nat (get (hp_cb h))) cs1))"

lemma advanced_refl: "advanced get tok ok cs cs h h"
proof -
  have "h = h\<lparr>hp_cb := hp_cb h, hp_last_flush_time := hp_last_flush_time h, hp_last_put_sent := hp_last_put_sent h\<rparr>" by simp
  then show ?thesis unfolding advanced_def by (intro conjI exI impI) (assumption | simp)+
qed

lemma advanced_trans:
  assumes "advanced get tok ok cs cs' h h'" and "advanced get tok ok cs' cs'' h' h''"
  shows "advanced get tok ok cs cs'' h h''"
proof -
  from assms obtain w t l w' t' l' where
    "h' = h\<lparr>hp_cb := w, hp_last_flush_time := t, hp_last_put_sent := l\<rparr>"
    "h'' = h'\<lparr>hp_cb := w', hp_last_flush_time := t', hp_last_put_sent := l'\<rparr>" by (auto simp: advanced_def)
  then have "h'' = h\<lparr>hp_cb := w', hp_last_flush_time := t', hp_last_put_sent := l'\<rparr>" by simp
  moreover have "\<exists>cs1. cs = cs1 @ cs'' \<and> tok (hp_cb h'') = token_after (tok (hp_cb h)) cs1 \<and>
      nat (get (hp_cb h'')) = walk (nat (get (hp_cb h))) cs1" if o: "ok (hp_cb h'')"
  proof -
    from assms(2) o obtain c2 where c2: "cs' = c2 @ cs''" "tok (hp_cb h'') = token_after (tok (hp_cb h')) c2"
      "nat (get (hp_cb h'')) = walk (nat (get (hp_cb h'))) c2" and o': "ok (hp_cb h')" by (auto simp: advanced_def)
    from assms(1) o' obtain c1 where c1: "cs = c1 @ cs'" "tok (hp_cb h') = token_after (tok (hp_cb h)) c1"
      "nat (get (hp_cb h')) = walk (nat (get (hp_cb h))) c1"
      by (auto simp: advanced_def)
    with c2 show ?thesis by (intro exI [of _ "c1 @ c2"]) simp
  qed
  moreover have "ok (hp_cb h'') \<longrightarrow> ok (hp_cb h) \<and> mem (hp_cb h'') = mem (hp_cb h)"
    using assms by (auto simp: advanced_def)
  ultimately show ?thesis unfolding advanced_def by blast
qed

lemma advanced_fields:
  assumes "advanced get tok ok cs cs' h h'"
  shows "hp_put h' = hp_put h" "hp_usable h' = hp_usable h" "hp_token h' = hp_token h" "HaveRingBuffer h' = HaveRingBuffer h"
    "hp_usable_entry_count h' = hp_usable_entry_count h" "hp_entries h' = hp_entries h"
  using assms by (auto simp: advanced_def HaveRingBuffer_def)

subsection \<open>Writing entries\<close>

lemma write_u32_lengths: "write_u32 m p v = Some m' \<Longrightarrow> length (m' b) = length (m b)"
  by (simp add: write_u32_def write_bytes_length)

lemma write_entries_lengths: "write_entries m p es = Some m' \<Longrightarrow> length (m' b) = length (m b)"
  by (induction m p es rule: write_entries.induct) (auto dest: write_u32_lengths split: Option.bind_splits)

lemma write_entries_total:
  "snd p + 4 * length es \<le> length (m (fst p)) \<Longrightarrow> \<exists>m'. write_entries m p es = Some m'"
proof (induction m p es rule: write_entries.induct)
  case (2 m p e es)
  have "write_u32 m p e \<noteq> None" using "2.prems" by (simp add: write_u32_def write_bytes_def)
  then obtain m1 where m1: "write_u32 m p e = Some m1" by auto
  with "2.IH" [OF m1] "2.prems" write_u32_lengths [OF m1, of "fst p"] show ?case by simp
qed simp

lemma write_entries_frame:
  assumes "write_entries m p es = Some m'" and "snd q + 4 \<le> snd p \<or> snd p + 4 * length es \<le> snd q"
  shows "read_u32 m' q = read_u32 m q"
  using assms
proof (induction m p es rule: write_entries.induct)
  case (2 m p e es)
  then obtain m1 where m1: "write_u32 m p e = Some m1" "write_entries m1 (fst p, snd p + 4) es = Some m'"
    by (auto split: Option.bind_splits)
  have "read_u32 m1 q = read_u32 m q"
    using read_write_disjoint [OF m1(1) [unfolded write_u32_def], of q 4] "2.prems"(2) by (auto simp: read_u32_def)
  with "2.IH" [OF m1] "2.prems"(2) show ?case by auto
qed simp

lemma write_entries_stored:
  assumes "write_entries m (ob, 4 * i) es = Some m'"
  shows "stored m' ob i es"
  using assms
proof (induction es arbitrary: m i)
  case (Cons e es)
  then obtain m1 where m1: "write_u32 m (ob, 4 * i) e = Some m1" "write_entries m1 (ob, 4 * Suc i) es = Some m'"
    by (auto simp: algebra_simps split: Option.bind_splits)
  have "read_u32 m' (ob, 4 * i) = Some e"
    using write_entries_frame [OF m1(2), of "(ob, 4 * i)"] read_u32_write_u32 [OF m1(1)] by simp
  moreover have "stored m' ob (Suc i) es" by (rule Cons.IH [OF m1(2)])
  ultimately show ?case unfolding stored_def by (auto simp: less_Suc_eq_0_disj algebra_simps)
qed (simp add: stored_def)

subsection \<open>Reading the state and flushing\<close>

lemma c_mod_pos:
  assumes "0 \<le> a" and "0 < b"
  shows "c_mod a b = Some (a mod b)"
  using assms by (cases "a = 0") (auto simp: c_mod_def signed_modulo_int_def)

text \<open>The free entries between the writer and the reader.\<close>

definition room :: "nat \<Rightarrow> int \<Rightarrow> int \<Rightarrow> int" where
  "room n g p = (if g \<le> p then int n + g - p - 1 else g - p - 1)"

text \<open>
  From \<open>h\<close> to \<open>h'\<close> some of the commands \<open>cs\<close> were executed, the commands \<open>new\<close> and perhaps jumps were
  written behind them, and \<open>cs'\<close> are pending.
\<close>

definition progress ::
    "('a memory_state_scheme \<Rightarrow> int) \<Rightarrow> ('a memory_state_scheme \<Rightarrow> bool) \<Rightarrow> u32 list list \<Rightarrow> u32 list list \<Rightarrow> u32 list list \<Rightarrow>
     'a memory_state_scheme CommandBufferHelper \<Rightarrow> 'a memory_state_scheme CommandBufferHelper \<Rightarrow> bool" where
  "progress tok ok new cs cs' h h' \<longleftrightarrow> (ok (hp_cb h') \<longrightarrow> ok (hp_cb h) \<and>
     (\<exists>cs1 cs2. cs @ cs2 = cs1 @ cs' \<and> filter (\<lambda>c. c \<noteq> jump0) cs2 = new \<and>
        tok (hp_cb h') = token_after (tok (hp_cb h)) cs1))"

lemma progress_advanced: "advanced get tok ok cs cs' h h' \<Longrightarrow> progress tok ok [] cs cs' h h'"
  unfolding advanced_def progress_def by (metis append.right_neutral filter.simps(1))

lemma progress_trans:
  assumes "progress tok ok new cs cs' h h'" and "progress tok ok new' cs' cs'' h' h''"
  shows "progress tok ok (new @ new') cs cs'' h h''"
  unfolding progress_def
proof
  assume o: "ok (hp_cb h'')"
  with assms(2) obtain a b where b: "cs' @ b = a @ cs''" "filter (\<lambda>c. c \<noteq> jump0) b = new'"
    "tok (hp_cb h'') = token_after (tok (hp_cb h')) a" and o': "ok (hp_cb h')" by (auto simp: progress_def)
  from assms(1) o' obtain c d where d: "cs @ d = c @ cs'" "filter (\<lambda>c. c \<noteq> jump0) d = new"
    "tok (hp_cb h') = token_after (tok (hp_cb h)) c" and "ok (hp_cb h)" by (auto simp: progress_def)
  moreover have "cs @ (d @ b) = (c @ a) @ cs''" using b(1) d(1) by (metis append.assoc)
  ultimately show "ok (hp_cb h) \<and> (\<exists>cs1 cs2. cs @ cs2 = cs1 @ cs'' \<and> filter (\<lambda>c. c \<noteq> jump0) cs2 = new @ new' \<and>
      tok (hp_cb h'') = token_after (tok (hp_cb h)) cs1)"
    using b by (intro conjI exI [of _ "c @ a"] exI [of _ "d @ b"]) simp_all
qed

text \<open>Writing one command behind the pending ones.\<close>

lemma progress_write:
  assumes "ok (hp_cb h') = ok (hp_cb h)" and "tok (hp_cb h') = tok (hp_cb h)"
  shows "progress tok ok (filter (\<lambda>c. c \<noteq> jump0) new) cs (cs @ new) h h'"
  unfolding progress_def
proof
  assume "ok (hp_cb h')"
  with assms show "ok (hp_cb h) \<and> (\<exists>cs1 cs2. cs @ cs2 = cs1 @ cs @ new \<and>
      filter (\<lambda>c. c \<noteq> jump0) cs2 = filter (\<lambda>c. c \<noteq> jump0) new \<and> tok (hp_cb h') = token_after (tok (hp_cb h)) cs1)"
    by (intro conjI exI [of _ "[]"] exI [of _ new]) simp_all
qed

context command_buffer
begin

abbreviation core where
  "core \<equiv> helper_core world get ok"

lemma get_offset_core:
  assumes "core n ob cs h" and "get_offset env h = (g, h')"
  shows "g = get (hp_cb h) \<and> core n ob cs h' \<and> advanced get tok ok cs cs h h' \<and> get (hp_cb h') = get (hp_cb h) \<and>
    ok (hp_cb h') = ok (hp_cb h)"
proof -
  obtain s w' where s: "cb_GetLastState env (hp_cb h) = (s, w')" by fastforce
  with assms(2) have h': "h' = h\<lparr>hp_cb := w'\<rparr>" "g = st_get_offset s" by (simp_all add: get_offset_def)
  have "world n ob (hp_cb h)" using assms(1) by (simp add: helper_core_def)
  note l = GetLastState_law [OF this s]
  have "h' = h\<lparr>hp_cb := w', hp_last_flush_time := hp_last_flush_time h, hp_last_put_sent := hp_last_put_sent h\<rparr>"
    unfolding h' by simp
  then have "advanced get tok ok cs cs h h'"
    unfolding advanced_def using l h'(1) by (intro conjI exI [of _ "[]"] impI) (blast, simp_all)
  with l h' assms(1) show ?thesis by (simp add: helper_core_def HaveRingBuffer_def)
qed

lemma last_token_core:
  assumes "core n ob cs h" and "last_token_read env h = (t, h')"
  shows "t = tok (hp_cb h) \<and> tok (hp_cb h') = t \<and> core n ob cs h' \<and> advanced get tok ok cs cs h h' \<and> ok (hp_cb h') = ok (hp_cb h)"
proof -
  obtain g h1 where g: "get_offset env h = (g, h1)" by fastforce
  with assms(2) have "h' = h1" by (auto simp: get_offset_def last_token_read_def Let_def split: prod.splits)
  moreover obtain s w' where s: "cb_GetLastState env (hp_cb h) = (s, w')" by fastforce
  moreover have "world n ob (hp_cb h)" using assms(1) by (simp add: helper_core_def)
  note GetLastState_law [OF this s]
  ultimately show ?thesis
    using get_offset_core [OF assms(1) g] assms(2) by (auto simp: last_token_read_def)
qed

lemma consumes_core:
  assumes "core n ob cs h" and "ok (hp_cb h)" and "consumes world get tok n ob cs cs' (hp_cb h) w'"
  shows "core n ob cs' (h\<lparr>hp_cb := w'\<rparr>)"
proof -
  from assms(3) obtain cs1 where "cs = cs1 @ cs'" "nat (get w') = walk (nat (get (hp_cb h))) cs1"
    and w: "world n ob w'" "mem w' = mem (hp_cb h)" by (auto simp: consumes_def)
  with pending_walk [of "mem (hp_cb h)" ob n "nat (get (hp_cb h))" "nat (hp_put h)" cs1 cs'] assms(1,2)
  have "pending (mem w') ob n (nat (get w')) (nat (hp_put h)) cs'" by (auto simp: helper_core_def)
  with assms(1) w show ?thesis by (simp add: helper_core_def HaveRingBuffer_def)
qed

lemma FlushSync_core:
  assumes c: "core n ob cs h"
  shows "\<exists>b h' cs'. hp_FlushSync env h = Some (b, h') \<and> core n ob cs' h' \<and> advanced get tok ok cs cs' h h' \<and>
    (b \<longleftrightarrow> ok (hp_cb h')) \<and> (b \<and> cs \<noteq> [] \<longrightarrow> length cs' < length cs)"
proof -
  let ?h = "h\<lparr>hp_last_flush_time := env_clock env (hp_cb h), hp_last_put_sent := hp_put h\<rparr>"
  obtain g h1 where g: "get_offset env ?h = (g, h1)" by fastforce
  have c': "core n ob cs ?h" using c by (simp add: helper_core_def HaveRingBuffer_def)
  note o = get_offset_core [OF c' g]
  have use: "hp_usable h" and same: "hp_put h1 = hp_put h" and put: "hp_put h1 = int (nat (hp_put h))" "nat (hp_put h) \<le> n"
    using c o advanced_fields [of get tok ok cs cs ?h h1] by (auto simp: helper_core_def)
  have run: "hp_FlushSync env h = Option.bind (cb_FlushSync env (hp_put h1) g (hp_cb h1))
      (\<lambda>(s, w). Some (st_error s = kNoError, h1\<lparr>hp_cb := w\<rparr>))"
    using use g by (simp add: hp_FlushSync_def)
  obtain w0 t l where h1: "h1 = h\<lparr>hp_cb := w0, hp_last_flush_time := t, hp_last_put_sent := l\<rparr>"
    using o by (auto simp: advanced_def)
  have w1: "world n ob (hp_cb h1)" using o by (simp add: helper_core_def)
  show ?thesis
  proof (cases "ok (hp_cb h1)")
    case False
    from FlushSync_error [OF w1 False, of "hp_put h1" g] obtain s w' where
      s: "cb_FlushSync env (hp_put h1) g (hp_cb h1) = Some (s, w')" "world n ob w'" "\<not> ok w'" "st_error s \<noteq> kNoError" by auto
    let ?h' = "h1\<lparr>hp_cb := w'\<rparr>"
    have "core n ob cs ?h'" using o s by (simp add: helper_core_def HaveRingBuffer_def)
    moreover have "?h' = h\<lparr>hp_cb := w', hp_last_flush_time := t, hp_last_put_sent := l\<rparr>" using h1 by simp
    then have "advanced get tok ok cs cs h ?h'" unfolding advanced_def using s(3) by (intro conjI exI) (assumption, simp)
    ultimately show ?thesis using run s by auto
  next
    case True
    have p: "pending (mem (hp_cb h1)) ob n (nat (get (hp_cb h1))) (nat (hp_put h)) cs"
      using o True same by (auto simp: helper_core_def)
    from FlushSync_law [OF w1 True put(2) p, of g] obtain s w' cs' where
      s: "cb_FlushSync env (hp_put h1) g (hp_cb h1) = Some (s, w')" "consumes world get tok n ob cs cs' (hp_cb h1) w'"
        "st_error s = kNoError \<longleftrightarrow> ok w'" "ok w' \<and> cs \<noteq> [] \<longrightarrow> cs' \<noteq> cs" unfolding put(1) by auto
    let ?h' = "h1\<lparr>hp_cb := w'\<rparr>"
    have "core n ob cs' ?h'" by (rule consumes_core [OF _ True s(2)]) (use o in blast)
    moreover have "advanced get tok ok cs cs' h1 ?h'"
      unfolding advanced_def
    proof (intro conjI impI)
      show "\<exists>w t l. ?h' = h1\<lparr>hp_cb := w, hp_last_flush_time := t, hp_last_put_sent := l\<rparr>"
        by (rule exI [of _ w'], rule exI [of _ "hp_last_flush_time h1"], rule exI [of _ "hp_last_put_sent h1"]) simp
    qed (use s(2) True in \<open>auto simp: consumes_def\<close>)
    moreover have "advanced get tok ok cs cs h h1"
      using o h1 by (auto simp: advanced_def)
    ultimately have "advanced get tok ok cs cs' h ?h'" by (blast intro: advanced_trans)
    moreover have "length cs' < length cs" if "ok w'" "cs \<noteq> []"
      using s(2,4) that by (auto simp: consumes_def)
    ultimately show ?thesis using run s(1,3) \<open>core n ob cs' ?h'\<close> by auto
  qed
qed

lemma Flush_core:
  assumes c: "core n ob cs h"
  shows "\<exists>h' cs'. hp_Flush env h = Some h' \<and> core n ob cs' h' \<and> advanced get tok ok cs cs' h h'"
proof -
  have use: "hp_usable h" and put: "hp_put h = int (nat (hp_put h))" "nat (hp_put h) \<le> n" and w: "world n ob (hp_cb h)"
    using c by (auto simp: helper_core_def)
  let ?h = "\<lambda>w. h\<lparr>hp_cb := w, hp_last_flush_time := env_clock env (hp_cb h), hp_last_put_sent := hp_put h\<rparr>"
  have run: "hp_Flush env h = Option.bind (cb_Flush env (hp_put h) (hp_cb h)) (\<lambda>w. Some (?h w))"
    using use by (simp add: hp_Flush_def)
  show ?thesis
  proof (cases "ok (hp_cb h)")
    case False
    from Flush_error [OF w False, of "hp_put h"] obtain w' where
      s: "cb_Flush env (hp_put h) (hp_cb h) = Some w'" "world n ob w'" "\<not> ok w'" by auto
    have "core n ob cs (?h w')" using c s by (simp add: helper_core_def HaveRingBuffer_def)
    moreover have "advanced get tok ok cs cs h (?h w')" unfolding advanced_def using s(3) by auto
    ultimately show ?thesis using run s(1) by auto
  next
    case True
    have "pending (mem (hp_cb h)) ob n (nat (get (hp_cb h))) (nat (hp_put h)) cs" using c True by (simp add: helper_core_def)
    from Flush_law [OF w True put(2) this] obtain w' cs' where
      s: "cb_Flush env (hp_put h) (hp_cb h) = Some w'" "consumes world get tok n ob cs cs' (hp_cb h) w'"
      using put(1) by auto
    have "core n ob cs' (?h w')" using consumes_core [OF c True s(2)] by (simp add: helper_core_def HaveRingBuffer_def)
    moreover have "advanced get tok ok cs cs' h (?h w')" unfolding advanced_def using s(2) True by (auto simp: consumes_def)
    ultimately show ?thesis using run s(1) by auto
  qed
qed

lemma core_pending:
  assumes "core n ob cs h" and "ok (hp_cb h)"
  obtains g p where "get (hp_cb h) = int g" and "hp_put h = int p" and "p < n" and "pending (mem (hp_cb h)) ob n g p cs"
    and "cs = [] \<longleftrightarrow> g = p" and "g \<le> n"
proof -
  have w: "world n ob (hp_cb h)" and put: "0 \<le> hp_put h" "hp_put h < int n"
    and p: "pending (mem (hp_cb h)) ob n (nat (get (hp_cb h))) (nat (hp_put h)) cs"
    using assms by (simp_all add: helper_core_def)
  have "nat (get (hp_cb h)) \<le> n \<and> (cs = [] \<longleftrightarrow> nat (get (hp_cb h)) = nat (hp_put h))"
  proof (cases cs)
    case Nil
    with p put show ?thesis by (simp add: pending_Nil)
  next
    case (Cons c ds)
    have "nat (hp_put h) \<le> n" using put by simp
    from pending_Cons(1,4) [OF p [unfolded Cons] this] Cons show ?thesis by simp
  qed
  with that [of "nat (get (hp_cb h))" "nat (hp_put h)"] p put world_get [OF w] show thesis by simp
qed

subsubsection \<open>Waiting for the reader to wrap\<close>

lemma must_wait_core:
  assumes "core n ob cs h" and "must_wait_for_wrap env h = (busy, h')"
  shows "core n ob cs h' \<and> advanced get tok ok cs cs h h' \<and> get (hp_cb h') = get (hp_cb h) \<and> ok (hp_cb h') = ok (hp_cb h) \<and>
    (busy \<longleftrightarrow> get (hp_cb h) > hp_put h \<or> get (hp_cb h) = 0)"
proof -
  obtain g1 h1 where g1: "get_offset env h = (g1, h1)" by fastforce
  note c1 = get_offset_core [OF assms(1) g1]
  have put: "hp_put h1 = hp_put h" using c1 advanced_fields by blast
  obtain g2 h2 where g2: "get_offset env h1 = (g2, h2)" by fastforce
  note c2 = get_offset_core [OF conjunct1 [OF conjunct2 [OF c1]] g2]
  show ?thesis
    using assms(2) g1 g2 c1 c2 put by (auto simp: must_wait_for_wrap_def intro: advanced_trans split: if_splits)
qed

lemma wrap_wait_core:
  "core n ob cs h \<Longrightarrow> 1 \<le> hp_put h \<Longrightarrow>
   \<exists>b h' cs'. wrap_wait env h = Some (b, h') \<and> core n ob cs' h' \<and> advanced get tok ok cs cs' h h' \<and>
     (\<not> b \<longrightarrow> \<not> ok (hp_cb h')) \<and> (b \<longrightarrow> \<not> (get (hp_cb h') > hp_put h' \<or> get (hp_cb h') = 0))"
proof (induction "length cs" arbitrary: cs h rule: less_induct)
  case less
  obtain busy h1 where m: "must_wait_for_wrap env h = (busy, h1)" by fastforce
  note c1 = must_wait_core [OF less.prems(1) m]
  have put: "hp_put h1 = hp_put h" using c1 advanced_fields by blast
  show ?case
  proof (cases busy)
    case False
    then have "wrap_wait env h = Some (True, h1)" using m by (subst wrap_wait.simps) simp
    with False c1 put show ?thesis by auto
  next
    case True
    obtain b h2 cs2 where f: "hp_FlushSync env h1 = Some (b, h2)" and c2: "core n ob cs2 h2" "advanced get tok ok cs cs2 h1 h2"
      "b \<longleftrightarrow> ok (hp_cb h2)" "b \<and> cs \<noteq> [] \<longrightarrow> length cs2 < length cs"
      using FlushSync_core [of n ob cs h1] c1 by blast
    have step: "wrap_wait env h = (if \<not> b then Some (False, h2) else wrap_wait env h2)"
      using m f True by (subst wrap_wait.simps) simp
    have adv: "advanced get tok ok cs cs2 h h2" using c1 c2(2) by (blast intro: advanced_trans)
    show ?thesis
    proof (cases b)
      case False
      with step c2 adv show ?thesis by auto
    next
      case b: True
      then have "ok (hp_cb h1)" using c2 by (simp add: advanced_def)
      then obtain g p where "get (hp_cb h1) = int g" "hp_put h1 = int p" "cs = [] \<longleftrightarrow> g = p"
        using core_pending [of n ob cs h1] c1 by metis
      with True c1 put less.prems(2) have "cs \<noteq> []" by auto
      with c2(4) b have "length cs2 < length cs" by simp
      from less.hyps [OF this c2(1)] put less.prems(2) advanced_fields(1) [OF c2(2)] obtain b' h' cs' where
        "wrap_wait env h2 = Some (b', h')" "core n ob cs' h'" "advanced get tok ok cs2 cs' h2 h'"
        "\<not> b' \<longrightarrow> \<not> ok (hp_cb h')" "b' \<longrightarrow> \<not> (get (hp_cb h') > hp_put h' \<or> get (hp_cb h') = 0)" by auto
      with step b adv show ?thesis by (auto intro: advanced_trans)
    qed
  qed
qed

subsubsection \<open>Waiting for space\<close>

lemma AvailableEntries_core:
  assumes c: "core n ob cs h"
  shows "\<exists>k h'. AvailableEntries env h = Some (k, h') \<and> core n ob cs h' \<and> advanced get tok ok cs cs h h' \<and>
    get (hp_cb h') = get (hp_cb h) \<and> ok (hp_cb h') = ok (hp_cb h) \<and>
    (ok (hp_cb h) \<longrightarrow> k = room n (get (hp_cb h)) (hp_put h))"
proof -
  obtain g h1 where g: "get_offset env h = (g, h1)" by fastforce
  note c1 = get_offset_core [OF c g]
  have n: "hp_usable_entry_count h1 = int n" "0 < int n" and put: "hp_put h1 = hp_put h"
    using c1 advanced_fields(1) by (auto simp: helper_core_def)
  have pos: "0 \<le> g - hp_put h - 1 + int n"
    using c1 put world_get [of n ob "hp_cb h"] c by (auto simp: helper_core_def)
  have mod: "(g - hp_put h - 1 + int n) mod int n = room n g (hp_put h)"
    if "ok (hp_cb h)"
  proof -
    from core_pending [OF c that] c1 obtain q p where "g = int q" "hp_put h = int p" "p < n" "q \<le> n" by metis
    then show ?thesis
    proof (cases "q \<le> p")
      case True
      then have "(g - hp_put h - 1 + int n) mod int n = g - hp_put h - 1 + int n"
        using \<open>g = int q\<close> \<open>hp_put h = int p\<close> \<open>p < n\<close> by (intro mod_pos_pos_trivial) simp_all
      with True \<open>g = int q\<close> \<open>hp_put h = int p\<close> show ?thesis by (simp add: room_def)
    next
      case False
      have "(g - hp_put h - 1 + int n) mod int n = (g - hp_put h - 1) mod int n" by (rule mod_add_self2)
      with False \<open>g = int q\<close> \<open>hp_put h = int p\<close> \<open>q \<le> n\<close> show ?thesis by (simp add: room_def)
    qed
  qed
  have "AvailableEntries env h = Some ((g - hp_put h - 1 + int n) mod int n, h1)"
    using g n put c_mod_pos [OF pos n(2)] by (simp add: AvailableEntries_def)
  with c1 mod show ?thesis by auto
qed

lemma space_wait_core:
  "core n ob cs h \<Longrightarrow> count < int n \<Longrightarrow>
   \<exists>b h' cs'. space_wait env count h = Some (b, h') \<and> core n ob cs' h' \<and> advanced get tok ok cs cs' h h' \<and>
     (\<not> b \<longrightarrow> \<not> ok (hp_cb h')) \<and> (b \<and> ok (hp_cb h') \<longrightarrow>
       count \<le> room n (get (hp_cb h')) (hp_put h'))"
proof (induction "length cs" arbitrary: cs h rule: less_induct)
  case less
  obtain k h1 where a: "AvailableEntries env h = Some (k, h1)" and c1: "core n ob cs h1" "advanced get tok ok cs cs h h1"
    "get (hp_cb h1) = get (hp_cb h)" "ok (hp_cb h1) = ok (hp_cb h)"
    "ok (hp_cb h) \<longrightarrow> k = room n (get (hp_cb h)) (hp_put h)"
    using AvailableEntries_core [OF less.prems(1)] by blast
  have put: "hp_put h1 = hp_put h" using c1 advanced_fields by blast
  show ?case
  proof (cases "k < count")
    case False
    then have "space_wait env count h = Some (True, h1)" using a by (subst space_wait.simps) simp
    moreover have "ok (hp_cb h1) \<longrightarrow> count \<le> room n (get (hp_cb h1)) (hp_put h1)"
      using False c1(3-5) put by auto
    ultimately show ?thesis using c1(1,2) by blast
  next
    case True
    obtain b h2 cs2 where f: "hp_FlushSync env h1 = Some (b, h2)" and c2: "core n ob cs2 h2" "advanced get tok ok cs cs2 h1 h2"
      "b \<longleftrightarrow> ok (hp_cb h2)" "b \<and> cs \<noteq> [] \<longrightarrow> length cs2 < length cs"
      using FlushSync_core [OF c1(1)] by blast
    have step: "space_wait env count h = (if \<not> b then Some (False, h2) else space_wait env count h2)"
      using a f True by (subst space_wait.simps) simp
    have adv: "advanced get tok ok cs cs2 h h2" using c1(2) c2(2) by (blast intro: advanced_trans)
    show ?thesis
    proof (cases b)
      case False
      with step c2 adv show ?thesis by auto
    next
      case b: True
      then have o: "ok (hp_cb h)" using c2 c1(4) by (simp add: advanced_def)
      from core_pending [OF less.prems(1) this] obtain g p where "get (hp_cb h) = int g" "hp_put h = int p" "cs = [] \<longleftrightarrow> g = p"
        by metis
      with True c1(5) o less.prems(2) have "cs \<noteq> []" by (auto simp: room_def)
      with c2(4) b have "length cs2 < length cs" by simp
      from less.hyps [OF this c2(1) less.prems(2)] obtain b' h' cs' where
        "space_wait env count h2 = Some (b', h')" "core n ob cs' h'" "advanced get tok ok cs2 cs' h2 h'"
        "\<not> b' \<longrightarrow> \<not> ok (hp_cb h')" "b' \<and> ok (hp_cb h') \<longrightarrow> count \<le> room n (get (hp_cb h')) (hp_put h')" by auto
      with step b adv show ?thesis by (auto intro: advanced_trans)
    qed
  qed
qed

text \<open>A flush never takes space away: the reader only moves towards the writer.\<close>

lemma flush_check_core:
  assumes c: "core n ob cs h"
  shows "\<exists>h' cs'. flush_check env h = Some h' \<and> core n ob cs' h' \<and> advanced get tok ok cs cs' h h'"
proof -
  obtain g h1 where g: "get_offset env h = (g, h1)" by fastforce
  note c1 = get_offset_core [OF c g]
  have n: "hp_usable_entry_count h = int n" "int n \<noteq> 0" using c by (auto simp: helper_core_def)
  then obtain k where k: "c_mod (hp_put h + hp_usable_entry_count h - hp_last_put_sent h) (hp_usable_entry_count h) = Some k"
    by (simp add: c_mod_def)
  obtain h2 cs2 where f: "hp_Flush env h1 = Some h2" "core n ob cs2 h2" "advanced get tok ok cs cs2 h1 h2"
    using Flush_core [of n ob cs h1] c1 by blast
  have "advanced get tok ok cs cs2 h h2" using c1 f(3) by (blast intro: advanced_trans)
  moreover have "flush_check env h \<in> {Some h1, Some h2}" using g k f(1) by (simp add: flush_check_def Let_def)
  ultimately show ?thesis using c1 f(2) by blast
qed

subsubsection \<open>Writing at the put offset\<close>

text \<open>Entries written into free space leave the pending commands alone.\<close>

lemma put_entries_core:
  assumes w: "world n ob (hp_cb h)" and fit: "q + length es \<le> n + 2"
  shows "\<exists>h' m'. put_entries (ob, 4 * q) es h = Some h' \<and> h' = h\<lparr>hp_cb := (hp_cb h)\<lparr>mem := m'\<rparr>\<rparr> \<and> stored m' ob q es \<and>
    (\<forall>k. k < q \<or> q + length es \<le> k \<longrightarrow> read_u32 m' (ob, 4 * k) = read_u32 (mem (hp_cb h)) (ob, 4 * k)) \<and>
    world n ob (hp_cb h') \<and> get (hp_cb h') = get (hp_cb h) \<and> tok (hp_cb h') = tok (hp_cb h) \<and> ok (hp_cb h') = ok (hp_cb h)"
proof -
  have "4 * q + 4 * length es \<le> length (mem (hp_cb h) ob)"
    using fit world_size [OF w] by (metis add_mult_distrib2 mult_le_mono2 order_trans)
  then obtain m' where m': "write_entries (mem (hp_cb h)) (ob, 4 * q) es = Some m'"
    using write_entries_total [of "(ob, 4 * q)" es "mem (hp_cb h)"] by auto
  note l = write_law [OF w write_entries_lengths [OF m']]
  have "read_u32 m' (ob, 4 * k) = read_u32 (mem (hp_cb h)) (ob, 4 * k)" if "k < q \<or> q + length es \<le> k" for k
    using write_entries_frame [OF m', of "(ob, 4 * k)"] that by auto
  with m' l write_entries_stored [OF m'] show ?thesis
    by (intro exI [of _ "h\<lparr>hp_cb := (hp_cb h)\<lparr>mem := m'\<rparr>\<rparr>"] exI [of _ m']) (simp add: put_entries_def)
qed

lemma put_entriesE:
  assumes "world n ob (hp_cb h)" and "q + length es \<le> n + 2"
  obtains h' m' where "put_entries (ob, 4 * q) es h = Some h'" and "h' = h\<lparr>hp_cb := (hp_cb h)\<lparr>mem := m'\<rparr>\<rparr>"
    and "mem (hp_cb h') = m'" and "stored m' ob q es"
    and "\<forall>k. k < q \<or> q + length es \<le> k \<longrightarrow> read_u32 m' (ob, 4 * k) = read_u32 (mem (hp_cb h)) (ob, 4 * k)"
    and "world n ob (hp_cb h')" and "get (hp_cb h') = get (hp_cb h)" and "tok (hp_cb h') = tok (hp_cb h)"
    and "ok (hp_cb h') = ok (hp_cb h)"
proof -
  from put_entries_core [OF assms] obtain h' m' where "put_entries (ob, 4 * q) es h = Some h'"
    and h': "h' = h\<lparr>hp_cb := (hp_cb h)\<lparr>mem := m'\<rparr>\<rparr>" and "stored m' ob q es"
    "\<forall>k. k < q \<or> q + length es \<le> k \<longrightarrow> read_u32 m' (ob, 4 * k) = read_u32 (mem (hp_cb h)) (ob, 4 * k)"
    "world n ob (hp_cb h')" "get (hp_cb h') = get (hp_cb h)" "tok (hp_cb h') = tok (hp_cb h)" "ok (hp_cb h') = ok (hp_cb h)"
    by blast
  moreover have "mem (hp_cb h') = m'" unfolding h' by simp
  ultimately show thesis by (intro that)
qed

lemma wrap_put_core:
  assumes c: "core n ob cs h" and g: "ok (hp_cb h) \<longrightarrow> 0 < get (hp_cb h) \<and> get (hp_cb h) \<le> hp_put h"
  shows "\<exists>h'. wrap_put h = Some h' \<and> core n ob (cs @ [jump0]) h' \<and> hp_put h' = 0 \<and>
    h' = h\<lparr>hp_put := 0, hp_cb := hp_cb h'\<rparr> \<and>
    get (hp_cb h') = get (hp_cb h) \<and> tok (hp_cb h') = tok (hp_cb h) \<and> ok (hp_cb h') = ok (hp_cb h)"
proof -
  define p where "p = nat (hp_put h)"
  have w: "world n ob (hp_cb h)" and put: "hp_put h = int p" "p < n" and e: "hp_entries h = Some (ob, 0)"
    using c by (auto simp: helper_core_def p_def)
  have ptr: "entry_ptr h (hp_put h) = Some (ob, 4 * p)" using e put by (simp add: entry_ptr_def)
  from put_entries_core [OF w, of p jump0] put(2) obtain h1 m' where
    h1: "put_entries (ob, 4 * p) jump0 h = Some h1" "h1 = h\<lparr>hp_cb := (hp_cb h)\<lparr>mem := m'\<rparr>\<rparr>" "stored m' ob p jump0"
    "\<forall>k. k < p \<or> p + length jump0 \<le> k \<longrightarrow> read_u32 m' (ob, 4 * k) = read_u32 (mem (hp_cb h)) (ob, 4 * k)"
    "world n ob (hp_cb h1)" "get (hp_cb h1) = get (hp_cb h)" "tok (hp_cb h1) = tok (hp_cb h)" "ok (hp_cb h1) = ok (hp_cb h)"
    by auto
  let ?h = "h1\<lparr>hp_put := 0\<rparr>"
  have "wrap_put h = Some ?h" using ptr h1(1) by (simp add: wrap_put_def)
  moreover have "pending m' ob n (nat (get (hp_cb h))) 0 (cs @ [jump0])" if o: "ok (hp_cb h)"
  proof (rule pending_wrap [OF _ h1(3)])
    have "pending (mem (hp_cb h)) ob n (nat (get (hp_cb h))) p cs" using c o by (simp add: helper_core_def p_def)
    then show "pending m' ob n (nat (get (hp_cb h))) p cs"
      by (rule pending_frame) (use h1(4) g o put in auto)
  qed (use g o put in auto)
  then have "core n ob (cs @ [jump0]) ?h" using c h1 by (auto simp: helper_core_def HaveRingBuffer_def)
  moreover have "?h = h\<lparr>hp_put := 0, hp_cb := hp_cb ?h\<rparr>" using h1(2) by simp
  ultimately show ?thesis using h1(6-8) by (intro exI [of _ ?h]) simp
qed

subsubsection \<open>Making room\<close>

lemma AllocateRingBuffer_core: "core n ob cs h \<Longrightarrow> AllocateRingBuffer env h = Some (True, h)"
  by (simp add: AllocateRingBuffer_def helper_core_def)

text \<open>
  The part of \<^verbatim>\<open>WaitForAvailableEntries\<close> that wraps, and the whole. After it the helper has not failed
  or \<open>count\<close> entries from the put offset on are free.
\<close>

lemma wrap_core:
  assumes c: "core n ob cs h" and put: "1 \<le> hp_put h"
  shows "\<exists>b h' cs'. (do {
       (ok, h1) \<leftarrow> (case must_wait_for_wrap env h of (busy, h1) \<Rightarrow> if busy then wrap_wait env h1 else Some (True, h1));
       if \<not> ok then Some (False, h1) else map_option (\<lambda>h2. (True, h2)) (wrap_put h1)
     }) = Some (b, h') \<and> core n ob cs' h' \<and> (\<not> b \<longrightarrow> \<not> ok (hp_cb h')) \<and> (b \<longrightarrow> hp_put h' = 0) \<and>
     progress tok ok [] cs cs' h h' \<and> hp_token h' = hp_token h"
proof -
  obtain busy h1 where m: "must_wait_for_wrap env h = (busy, h1)" by fastforce
  note c1 = must_wait_core [OF c m]
  have put1: "hp_put h1 = hp_put h" using c1 advanced_fields(1) by blast
  obtain b h2 cs2 where b: "(if busy then wrap_wait env h1 else Some (True, h1)) = Some (b, h2)"
    and c2: "core n ob cs2 h2" "advanced get tok ok cs cs2 h1 h2" "\<not> b \<longrightarrow> \<not> ok (hp_cb h2)"
      "b \<longrightarrow> \<not> (get (hp_cb h2) > hp_put h2 \<or> get (hp_cb h2) = 0)"
  proof (cases busy)
    case True
    with wrap_wait_core [of n ob cs h1] c1 put1 put that show ?thesis by (auto simp del: split_paired_Ex)
  next
    case False
    with c1 put1 show ?thesis by (intro that [of True h1 cs] advanced_refl) auto
  qed
  have adv: "advanced get tok ok cs cs2 h h2" using c1 c2(2) by (blast intro: advanced_trans)
  note f = advanced_fields [OF adv]
  show ?thesis
  proof (cases b)
    case False
    with m b c2 progress_advanced [OF adv] f show ?thesis by (intro exI [of _ False] exI [of _ h2] exI [of _ cs2]) simp
  next
    case True
    have "world n ob (hp_cb h2)" using c2(1) by (simp add: helper_core_def)
    from world_get [OF this] True c2(4) have "0 < get (hp_cb h2) \<and> get (hp_cb h2) \<le> hp_put h2" by auto
    with wrap_put_core [OF c2(1)] obtain h3 where h3: "wrap_put h2 = Some h3" "core n ob (cs2 @ [jump0]) h3" "hp_put h3 = 0"
      "h3 = h2\<lparr>hp_put := 0, hp_cb := hp_cb h3\<rparr>" "tok (hp_cb h3) = tok (hp_cb h2)" "ok (hp_cb h3) = ok (hp_cb h2)" by blast
    have "hp_token h3 = hp_token (h2\<lparr>hp_put := 0, hp_cb := hp_cb h3\<rparr>)" using h3(4) by (rule arg_cong)
    then have "hp_token h3 = hp_token h" using f(3) by simp
    moreover have "progress tok ok [] cs (cs2 @ [jump0]) h h3"
      using progress_trans [OF progress_advanced [OF adv] progress_write [OF h3(6,5), of "[jump0]"]] by simp
    ultimately show ?thesis
      using m b True h3(1-3) by (intro exI [of _ True] exI [of _ h3] exI [of _ "cs2 @ [jump0]"]) simp
  qed
qed

lemma free_entries_room:
  assumes "int k \<le> room n (int g) (int p)" and "p + k \<le> n"
  shows "free_entries n g p k"
  using assms by (auto simp: room_def free_entries_def split: if_splits)

lemma free_entries_advanced:
  assumes c: "core n ob cs h" and adv: "advanced get tok ok cs cs' h h'"
    and free: "ok (hp_cb h) \<longrightarrow> free_entries n (nat (get (hp_cb h))) (nat (hp_put h)) k"
  shows "ok (hp_cb h') \<longrightarrow> free_entries n (nat (get (hp_cb h'))) (nat (hp_put h')) k"
proof
  assume "ok (hp_cb h')"
  with adv obtain cs1 where o: "ok (hp_cb h)" and cs: "cs = cs1 @ cs'"
    and g: "nat (get (hp_cb h')) = walk (nat (get (hp_cb h))) cs1" by (auto simp: advanced_def)
  have "pending (mem (hp_cb h)) ob n (nat (get (hp_cb h))) (nat (hp_put h)) (cs1 @ cs')" "nat (hp_put h) \<le> n"
    using c o cs by (auto simp: helper_core_def)
  from free_entries_walk [OF this] free o show "free_entries n (nat (get (hp_cb h'))) (nat (hp_put h')) k"
    unfolding g advanced_fields(1) [OF adv] by blast
qed

lemma space_core:
  assumes c: "core n ob cs h" and count: "count < int n" "0 \<le> count" "hp_put h + count \<le> int n"
  shows "\<exists>h' cs'. (do {
       (k, h3) \<leftarrow> AvailableEntries env h;
       (ok, h4) \<leftarrow> (if k < count then space_wait env count h3 else Some (True, h3));
       if \<not> ok then Some h4 else flush_check env h4
     }) = Some h' \<and> core n ob cs' h' \<and> advanced get tok ok cs cs' h h' \<and>
     (ok (hp_cb h') \<longrightarrow> free_entries n (nat (get (hp_cb h'))) (nat (hp_put h')) (nat count))"
proof -
  obtain k h3 where a: "AvailableEntries env h = Some (k, h3)" and c3: "core n ob cs h3" "advanced get tok ok cs cs h h3"
    "get (hp_cb h3) = get (hp_cb h)" "ok (hp_cb h3) = ok (hp_cb h)" "ok (hp_cb h) \<longrightarrow> k = room n (get (hp_cb h)) (hp_put h)"
    using AvailableEntries_core [OF c] by blast
  obtain b h4 cs4 where b: "(if k < count then space_wait env count h3 else Some (True, h3)) = Some (b, h4)"
    and c4: "core n ob cs4 h4" "advanced get tok ok cs cs4 h3 h4" "\<not> b \<longrightarrow> \<not> ok (hp_cb h4)"
      "b \<and> ok (hp_cb h4) \<longrightarrow> count \<le> room n (get (hp_cb h4)) (hp_put h4)"
  proof (cases "k < count")
    case True
    with space_wait_core [OF c3(1) count(1)] that show ?thesis by auto
  next
    case False
    then have "ok (hp_cb h3) \<longrightarrow> count \<le> room n (get (hp_cb h3)) (hp_put h3)"
      using c3(3-5) advanced_fields(1) [OF c3(2)] by auto
    with False c3(1) show ?thesis by (intro that [of True h3 cs] advanced_refl) auto
  qed
  have adv4: "advanced get tok ok cs cs4 h h4" by (rule advanced_trans [OF c3(2) c4(2)])
  show ?thesis
  proof (cases b)
    case False
    with a b c4(1,3) adv4 show ?thesis by (intro exI [of _ h4] exI [of _ cs4]) simp
  next
    case True
    obtain h5 cs5 where f: "flush_check env h4 = Some h5" "core n ob cs5 h5" "advanced get tok ok cs4 cs5 h4 h5"
      using flush_check_core [OF c4(1)] by blast
    have "free_entries n (nat (get (hp_cb h4))) (nat (hp_put h4)) (nat count)" if o: "ok (hp_cb h4)"
    proof -
      from core_pending [OF c4(1) o] obtain g p where gp: "get (hp_cb h4) = int g" "hp_put h4 = int p" by metis
      then have "p + nat count \<le> n" using count advanced_fields(1) [OF adv4] by linarith
      moreover have "int (nat count) \<le> room n (int g) (int p)" using c4(4) True o count(2) gp by simp
      ultimately show ?thesis using free_entries_room [of "nat count" n g p] gp by simp
    qed
    with free_entries_advanced [OF c4(1) f(3)]
    have "ok (hp_cb h5) \<longrightarrow> free_entries n (nat (get (hp_cb h5))) (nat (hp_put h5)) (nat count)" by blast
    with a b True f advanced_trans [OF adv4 f(3)] show ?thesis by (intro exI [of _ h5] exI [of _ cs5]) simp
  qed
qed

lemma WaitForAvailableEntries_core:
  assumes c: "core n ob cs h" and count: "0 < count" "count < int n"
  shows "\<exists>h' cs'. WaitForAvailableEntries env count h = Some h' \<and> core n ob cs' h' \<and> progress tok ok [] cs cs' h h' \<and>
    hp_token h' = hp_token h \<and> (ok (hp_cb h') \<longrightarrow> hp_put h' + count \<le> int n \<and>
      free_entries n (nat (get (hp_cb h'))) (nat (hp_put h')) (nat count))"
proof -
  have h: "hp_usable h" "HaveRingBuffer h" "hp_usable_entry_count h = int n" using c by (simp_all add: helper_core_def)
  let ?wrap = "if hp_put h + count > hp_usable_entry_count h
    then if \<not> 1 \<le> hp_put h then None
         else do {
           (ok, h1) \<leftarrow> (case must_wait_for_wrap env h of (busy, h1) \<Rightarrow> if busy then wrap_wait env h1 else Some (True, h1));
           if \<not> ok then Some (False, h1) else map_option (\<lambda>h2. (True, h2)) (wrap_put h1)
         }
    else Some (True, h)"
  obtain b h2 cs2 where w: "?wrap = Some (b, h2)" and c2: "core n ob cs2 h2" "\<not> b \<longrightarrow> \<not> ok (hp_cb h2)"
    "b \<longrightarrow> hp_put h2 + count \<le> int n" "progress tok ok [] cs cs2 h h2" "hp_token h2 = hp_token h"
  proof (cases "hp_put h + count > int n")
    case True
    with count have "1 \<le> hp_put h" by simp
    from wrap_core [OF c this] obtain b h2 cs2 where "?wrap = Some (b, h2)" "core n ob cs2 h2" "\<not> b \<longrightarrow> \<not> ok (hp_cb h2)"
      "b \<longrightarrow> hp_put h2 = 0" "progress tok ok [] cs cs2 h h2" "hp_token h2 = hp_token h"
      using True h(3) \<open>1 \<le> hp_put h\<close> by auto
    with count show ?thesis by (intro that [of b h2 cs2]) auto
  next
    case False
    with c h(3) progress_advanced [OF advanced_refl] show ?thesis by (intro that [of True h cs]) auto
  qed
  have run: "WaitForAvailableEntries env count h = (if \<not> b then Some h2 else do {
       (k, h3) \<leftarrow> AvailableEntries env h2;
       (ok, h4) \<leftarrow> (if k < count then space_wait env count h3 else Some (True, h3));
       if \<not> ok then Some h4 else flush_check env h4
     })"
    unfolding WaitForAvailableEntries_def AllocateRingBuffer_core [OF c] using h count(2) w by simp
  show ?thesis
  proof (cases b)
    case False
    with run c2 show ?thesis by auto
  next
    case True
    from space_core [OF c2(1) count(2)] count(1) c2(3) True obtain h' cs' where
      s: "WaitForAvailableEntries env count h = Some h'" "core n ob cs' h'" "advanced get tok ok cs2 cs' h2 h'"
        "ok (hp_cb h') \<longrightarrow> free_entries n (nat (get (hp_cb h'))) (nat (hp_put h')) (nat count)" unfolding run by auto
    have "progress tok ok [] cs cs' h h'"
      using progress_trans [OF c2(4) progress_advanced [OF s(3)]] by simp
    with s c2(3,5) True advanced_fields(1,3) [OF s(3)] show ?thesis by auto
  qed
qed

subsubsection \<open>Issuing a command\<close>

text \<open>\<open>GetSpace\<close> and the \<open>Init\<close> of a command whose header has the size of the command.\<close>

lemma pending_issue:
  assumes p: "pending m ob n g q cs" and f: "free_entries n g q (length es)" and fit: "q + length es \<le> n"
    and es: "wf_entries es" "quiet_cmd es" and st: "stored m' ob q es"
    and same: "\<And>k. k < q \<or> q + length es \<le> k \<and> k < n \<or> n \<le> k \<and> q + length es < n \<Longrightarrow> read_u32 m' (ob, 4 * k) = read_u32 m (ob, 4 * k)"
    and jump: "q + length es = n \<Longrightarrow> stored m' ob n jump0"
  shows "if q + length es = n then pending m' ob n g 0 (cs @ [es, jump0]) else pending m' ob n g (q + length es) (cs @ [es])"
proof -
  have len: "0 < length es" using es(1) by (rule wf_entries_pos)
  have gn: "g \<le> n"
  proof (cases cs)
    case Nil
    with p fit show ?thesis by (simp add: pending_Nil)
  next
    case (Cons c ds)
    with pending_Cons(4) [of m ob n g q c ds] p fit show ?thesis by simp
  qed
  have "pending m' ob n g q cs"
    by (rule pending_frame [OF p], rule same) (use f fit gn len in \<open>auto simp: free_entries_def split: if_splits\<close>)
  note a = pending_append [OF this st es f]
  show ?thesis
  proof (cases "q + length es = n")
    case True
    have "0 < g" "g \<le> n" using f True gn by (auto simp: free_entries_def split: if_splits)
    with pending_wrap [of m' ob n g n "cs @ [es]"] a jump True show ?thesis by simp
  qed (use a in simp)
qed

lemma core_put:
  assumes "core n ob cs h" and "h' = h\<lparr>hp_put := int p, hp_cb := hp_cb h'\<rparr>" and "p < n" and "world n ob (hp_cb h')"
    and "ok (hp_cb h') \<Longrightarrow> pending (mem (hp_cb h')) ob n (nat (get (hp_cb h'))) p cs'"
  shows "core n ob cs' h'"
proof -
  have "helper_core world get ok n ob cs' (h\<lparr>hp_put := int p, hp_cb := hp_cb h'\<rparr>)"
    using assms(1,3-5) by (simp add: helper_core_def HaveRingBuffer_def)
  then show ?thesis unfolding assms(2) [symmetric] .
qed

lemma GetSpace_core:
  assumes c: "core n ob cs h" and es: "wf_entries es" "quiet_cmd es" and len: "length es < n"
  shows "case GetSpace env (of_nat (length es)) h of
      None \<Rightarrow> \<exists>h'. WaitForAvailableEntries env (int (length es)) (h\<lparr>hp_commands_issued := int32 (hp_commands_issued h + 1)\<rparr>) = Some h' \<and>
        \<not> ok (hp_cb h')
    | Some (space, h2) \<Rightarrow> space \<noteq> None \<and> hp_token h2 = hp_token h \<and>
        (\<exists>h' cs'. init_cmd (Some es) (space, h2) = Some h' \<and> core n ob cs' h' \<and> progress tok ok [es] cs cs' h h' \<and>
           hp_token h' = hp_token h)"
proof -
  let ?k = "length es" and ?h = "h\<lparr>hp_commands_issued := int32 (hp_commands_issued h + 1)\<rparr>"
  have n: "n < 1073741824" using c by (simp add: helper_core_def)
  then have k: "unat (of_nat ?k :: u32) = ?k" "sint (of_nat ?k :: u32) = int ?k"
    using len u32_sint [of "of_nat ?k"] by (simp_all add: unat_of_nat)
  have c': "core n ob cs ?h" using c by (simp add: helper_core_def HaveRingBuffer_def)
  have "0 < int ?k" using wf_entries_pos [OF es(1)] by simp
  from WaitForAvailableEntries_core [OF c' this] len obtain h1 cs1 where
    wt: "WaitForAvailableEntries env (int ?k) ?h = Some h1" and c1: "core n ob cs1 h1" "progress tok ok [] cs cs1 ?h h1"
      "hp_token h1 = hp_token h" "ok (hp_cb h1) \<longrightarrow> hp_put h1 + int ?k \<le> int n \<and>
        free_entries n (nat (get (hp_cb h1))) (nat (hp_put h1)) ?k" by auto
  define q where "q = nat (hp_put h1)"
  have h1: "hp_put h1 = int q" "q < n" "hp_entries h1 = Some (ob, 0)" "hp_usable_entry_count h1 = int n" "world n ob (hp_cb h1)"
    using c1(1) by (auto simp: helper_core_def q_def)
  have put: "int32 (int q + int ?k) = int (q + ?k)" using h1(2) len n by (intro trans [OF int32_id]) auto
  have ptr: "entry_ptr h1 (hp_put h1) = Some (ob, 4 * q)" using h1(1,3) by (simp add: entry_ptr_def)
  let ?h2 = "h1\<lparr>hp_put := int (q + ?k)\<rparr>"
  have run: "GetSpace env (of_nat ?k) h =
     (if n < q + ?k then None
      else if q + ?k = n then map_option (\<lambda>h3. (Some (ob, 4 * q), h3)) (wrap_put ?h2) else Some (Some (ob, 4 * q), ?h2))"
    unfolding GetSpace_def AllocateRingBuffer_core [OF c] using c wt k put ptr h1(1,4) by (auto simp: helper_core_def)
  have pr: "progress tok ok [es] cs (cs1 @ es # js) h h'"
    if "ok (hp_cb h') = ok (hp_cb h1)" "tok (hp_cb h') = tok (hp_cb h1)" "set js \<subseteq> {jump0}" for h' js
  proof -
    have a: "progress tok ok [] cs cs1 h h1" using c1(2) by (simp add: progress_def)
    have "filter (\<lambda>c. c \<noteq> jump0) (es # js) = [es]" using that(3) quiet_not_jump [OF es(2)] by (auto simp: filter_empty_conv)
    with progress_trans [OF a progress_write [OF that(1,2), of "es # js" cs1]] show ?thesis by simp
  qed
  have pend: "pending (mem (hp_cb h1)) ob n (nat (get (hp_cb h1))) q cs1" if "ok (hp_cb h1)"
    using c1(1) that by (simp add: helper_core_def q_def)
  have free: "free_entries n (nat (get (hp_cb h1))) q ?k" if "ok (hp_cb h1)" using c1(4) that by (simp add: q_def)
  consider "n < q + ?k" | "q + ?k = n" | "q + ?k < n" by linarith
  then show ?thesis
  proof cases
    case 1
    then have "\<not> ok (hp_cb h1)" using c1(4) h1(1) by auto
    with 1 wt run show ?thesis by simp
  next
    case 2
    have "world n ob (hp_cb ?h2)" "n + length jump0 \<le> n + 2" using h1(5) by simp_all
    from put_entriesE [OF this] obtain h3 m3 where h3: "put_entries (ob, 4 * n) jump0 ?h2 = Some h3"
      "h3 = ?h2\<lparr>hp_cb := (hp_cb ?h2)\<lparr>mem := m3\<rparr>\<rparr>" "mem (hp_cb h3) = m3" "stored m3 ob n jump0"
      "\<forall>k. k < n \<or> n + length jump0 \<le> k \<longrightarrow> read_u32 m3 (ob, 4 * k) = read_u32 (mem (hp_cb ?h2)) (ob, 4 * k)"
      "world n ob (hp_cb h3)" "get (hp_cb h3) = get (hp_cb ?h2)" "tok (hp_cb h3) = tok (hp_cb ?h2)" "ok (hp_cb h3) = ok (hp_cb ?h2)" .
    let ?h3 = "h3\<lparr>hp_put := 0\<rparr>"
    have wrap: "wrap_put ?h2 = Some ?h3" using h1(3) h3(1) 2 by (simp add: wrap_put_def entry_ptr_def)
    have "world n ob (hp_cb ?h3)" "q + length es \<le> n + 2" using h3(6) 2 by simp_all
    from put_entriesE [OF this] obtain h4 m4 where h4: "put_entries (ob, 4 * q) es ?h3 = Some h4"
      "h4 = ?h3\<lparr>hp_cb := (hp_cb ?h3)\<lparr>mem := m4\<rparr>\<rparr>" "mem (hp_cb h4) = m4" "stored m4 ob q es"
      "\<forall>k. k < q \<or> q + length es \<le> k \<longrightarrow> read_u32 m4 (ob, 4 * k) = read_u32 (mem (hp_cb ?h3)) (ob, 4 * k)"
      "world n ob (hp_cb h4)" "get (hp_cb h4) = get (hp_cb ?h3)" "tok (hp_cb h4) = tok (hp_cb ?h3)" "ok (hp_cb h4) = ok (hp_cb ?h3)" .
    have obs: "get (hp_cb h4) = get (hp_cb h1)" "tok (hp_cb h4) = tok (hp_cb h1)" "ok (hp_cb h4) = ok (hp_cb h1)"
      using h3(7-9) h4(7-9) by simp_all
    have "stored m4 ob n jump0" by (rule stored_frame [OF h3(4)]) (use h4(5) h3(3) 2 in simp)
    moreover have same: "read_u32 m4 (ob, 4 * k) = read_u32 (mem (hp_cb h1)) (ob, 4 * k)"
      if "k < q \<or> q + length es \<le> k \<and> k < n \<or> n \<le> k \<and> q + length es < n" for k
      using h4(5) h3(3,5) that 2 by auto
    ultimately have "pending m4 ob n (nat (get (hp_cb h1))) 0 (cs1 @ [es, jump0])" if "ok (hp_cb h1)"
      using pending_issue [OF pend [OF that] free [OF that] _ es h4(4) same] 2 by simp
    then have "core n ob (cs1 @ [es, jump0]) h4"
      using core_put [OF c1(1), of h4 0] h4(2,3,6) h3(2) h1(2) obs by simp
    moreover have "hp_token h4 = hp_token h" using h4(2) h3(2) c1(3) by simp
    moreover have "init_cmd (Some es) (Some (ob, 4 * q), ?h3) = Some h4" using h4(1) by (simp add: init_cmd_def)
    moreover have "GetSpace env (of_nat ?k) h = Some (Some (ob, 4 * q), ?h3)" "hp_token ?h3 = hp_token h"
      using run 2 wrap h3(2) c1(3) by simp_all
    ultimately show ?thesis using pr [OF obs(3,2), of "[jump0]"] by auto
  next
    case 3
    have "world n ob (hp_cb ?h2)" "q + length es \<le> n + 2" using h1(5) 3 by simp_all
    from put_entriesE [OF this] obtain h4 m4 where h4: "put_entries (ob, 4 * q) es ?h2 = Some h4"
      "h4 = ?h2\<lparr>hp_cb := (hp_cb ?h2)\<lparr>mem := m4\<rparr>\<rparr>" "mem (hp_cb h4) = m4" "stored m4 ob q es"
      "\<forall>k. k < q \<or> q + length es \<le> k \<longrightarrow> read_u32 m4 (ob, 4 * k) = read_u32 (mem (hp_cb ?h2)) (ob, 4 * k)"
      "world n ob (hp_cb h4)" "get (hp_cb h4) = get (hp_cb ?h2)" "tok (hp_cb h4) = tok (hp_cb ?h2)" "ok (hp_cb h4) = ok (hp_cb ?h2)" .
    have obs: "get (hp_cb h4) = get (hp_cb h1)" "tok (hp_cb h4) = tok (hp_cb h1)" "ok (hp_cb h4) = ok (hp_cb h1)"
      using h4(7-9) by simp_all
    have same: "read_u32 m4 (ob, 4 * k) = read_u32 (mem (hp_cb h1)) (ob, 4 * k)"
      if "k < q \<or> q + length es \<le> k \<and> k < n \<or> n \<le> k \<and> q + length es < n" for k
      using h4(5) that 3 by auto
    have "pending m4 ob n (nat (get (hp_cb h1))) (q + ?k) (cs1 @ [es])" if "ok (hp_cb h1)"
      using pending_issue [OF pend [OF that] free [OF that] _ es h4(4) same] 3 by simp
    then have "core n ob (cs1 @ [es]) h4"
      using core_put [OF c1(1), of h4 "q + ?k"] h4(2,3,6) 3 obs by simp
    moreover have "hp_token h4 = hp_token h" using h4(2) c1(3) by simp
    moreover have "init_cmd (Some es) (Some (ob, 4 * q), ?h2) = Some h4" using h4(1) by (simp add: init_cmd_def)
    moreover have "GetSpace env (of_nat ?k) h = Some (Some (ob, 4 * q), ?h2)" "hp_token ?h2 = hp_token h"
      using run 3 c1(3) by simp_all
    ultimately show ?thesis using pr [OF obs(3,2), of "[]"] by auto
  qed
qed

subsubsection \<open>Tokens\<close>

text \<open>
  The tokens of the pending commands increase from the service's token up to the newest token.
\<close>

abbreviation tokens_ok where
  "tokens_ok cs h \<equiv> ok (hp_cb h) \<longrightarrow> sorted (tok (hp_cb h) # tokens cs) \<and> token_after (tok (hp_cb h)) cs = hp_token h"

lemma sorted_last: "sorted (t # xs @ ys) \<Longrightarrow> (t :: int) \<le> last (t # xs) \<and> sorted (last (t # xs) # ys)"
  by (cases xs rule: rev_cases) (auto simp: sorted_append)

lemma sorted_last_max: "sorted (xs :: int list) \<Longrightarrow> x \<in> set xs \<Longrightarrow> x \<le> last xs"
  by (cases xs rule: rev_cases) (auto simp: sorted_append)

lemma sorted_token_after:
  "sorted (t # tokens (cs1 @ cs2)) \<Longrightarrow> sorted (token_after t cs1 # tokens cs2) \<and> t \<le> token_after t cs1"
proof (induction cs1 arbitrary: t)
  case (Cons c cs1)
  have "t \<le> last (t # token_of c) \<and> sorted (last (t # token_of c) # tokens (cs1 @ cs2))"
    using Cons.prems sorted_last [of t "token_of c" "tokens (cs1 @ cs2)"] by simp
  with Cons.IH [of "last (t # token_of c)"] show ?case by auto
qed simp

lemma tokens_ok_advanced:
  assumes "tokens_ok cs h" and adv: "advanced get tok ok cs cs' h h'"
  shows "tokens_ok cs' h' \<and> (ok (hp_cb h') \<longrightarrow> tok (hp_cb h) \<le> tok (hp_cb h'))"
proof -
  have "sorted (tok (hp_cb h') # tokens cs') \<and> token_after (tok (hp_cb h')) cs' = hp_token h' \<and> tok (hp_cb h) \<le> tok (hp_cb h')"
    if "ok (hp_cb h')"
  proof -
    from adv that obtain cs1 where o: "ok (hp_cb h)" and "cs = cs1 @ cs'" "tok (hp_cb h') = token_after (tok (hp_cb h)) cs1"
      by (auto simp: advanced_def)
    with assms(1) sorted_token_after [of "tok (hp_cb h)" cs1 cs'] advanced_fields(3) [OF adv] show ?thesis by auto
  qed
  then show ?thesis by blast
qed

lemma token_wait_core:
  "core n ob cs h \<Longrightarrow> tokens_ok cs h \<Longrightarrow> token \<le> hp_token h \<Longrightarrow> ok (hp_cb h) \<Longrightarrow>
   \<exists>h' cs'. token_wait env token h = Some h' \<and> core n ob cs' h' \<and> advanced get tok ok cs cs' h h' \<and>
     (ok (hp_cb h') \<longrightarrow> token \<le> tok (hp_cb h'))"
proof (induction "length cs" arbitrary: cs h rule: less_induct)
  case less
  obtain t h1 where t: "last_token_read env h = (t, h1)" by fastforce
  note c1 = last_token_core [OF less.prems(1) t]
  show ?case
  proof (cases "t < token")
    case False
    then have "token_wait env token h = Some h1" using t by (subst token_wait.simps) simp
    with False c1 show ?thesis by (intro exI [of _ h1] exI [of _ cs]) auto
  next
    case True
    obtain g h2 where g: "get_offset env h1 = (g, h2)" by fastforce
    have c1': "core n ob cs h1" "ok (hp_cb h1)" using c1 less.prems(4) by blast+
    note c2 = get_offset_core [OF c1'(1) g]
    have adv2: "advanced get tok ok cs cs h h2" using c1 c2 advanced_trans by blast
    obtain b h3 cs3 where f: "hp_FlushSync env h2 = Some (b, h3)" and c3: "core n ob cs3 h3" "advanced get tok ok cs cs3 h2 h3"
      "b \<longleftrightarrow> ok (hp_cb h3)" "b \<and> cs \<noteq> [] \<longrightarrow> length cs3 < length cs"
      using FlushSync_core [of n ob cs h2] c2 by blast
    have adv3: "advanced get tok ok cs cs3 h h3" by (rule advanced_trans [OF adv2 c3(2)])
    have ne: "cs \<noteq> []" using less.prems(2-4) True c1 by auto
    from core_pending [OF c1'] obtain q p where "get (hp_cb h1) = int q" "hp_put h1 = int p" "cs = [] \<longleftrightarrow> q = p" by metis
    moreover have "hp_put h2 = hp_put h1" using c2 advanced_fields(1) by blast
    ultimately have "g \<noteq> hp_put h2" using c2 ne by simp
    then have step: "token_wait env token h = (if \<not> b then Some h3 else token_wait env token h3)"
      using t g f True by (subst token_wait.simps) simp
    show ?thesis
    proof (cases b)
      case False
      with step c3 adv3 show ?thesis by (intro exI [of _ h3] exI [of _ cs3]) simp
    next
      case b: True
      have "length cs3 < length cs" "ok (hp_cb h3)" "token \<le> hp_token h3"
        using c3(3,4) b ne less.prems(3) advanced_fields(3) [OF adv3] by simp_all
      moreover have "tokens_ok cs3 h3" using tokens_ok_advanced [OF less.prems(2) adv3] by blast
      ultimately obtain h' cs' where "token_wait env token h3 = Some h'" "core n ob cs' h'" "advanced get tok ok cs3 cs' h3 h'"
        "ok (hp_cb h') \<longrightarrow> token \<le> tok (hp_cb h')"
        using less.hyps [OF _ c3(1)] by blast
      with step b advanced_trans [OF adv3] show ?thesis by (intro exI [of _ h'] exI [of _ cs']) simp
    qed
  qed
qed

lemma WaitForToken_core:
  assumes c: "core n ob cs h" and t: "tokens_ok cs h" and o: "ok (hp_cb h)"
  shows "\<exists>h' cs'. WaitForToken env token h = Some h' \<and> core n ob cs' h' \<and> tokens_ok cs' h' \<and> advanced get tok ok cs cs' h h' \<and>
    (ok (hp_cb h') \<longrightarrow> token < 0 \<or> hp_token h' < token \<or> token \<le> tok (hp_cb h'))"
proof (cases "token < 0 \<or> token > hp_token h")
  case True
  then have "WaitForToken env token h = Some h" using c by (auto simp: WaitForToken_def helper_core_def)
  with True c t advanced_refl show ?thesis by blast
next
  case False
  then have "WaitForToken env token h = token_wait env token h" using c by (auto simp: WaitForToken_def helper_core_def)
  moreover from False token_wait_core [OF c t _ o] obtain h' cs' where "token_wait env token h = Some h'" "core n ob cs' h'"
    and adv: "advanced get tok ok cs cs' h h'" and "ok (hp_cb h') \<longrightarrow> token \<le> tok (hp_cb h')" by (metis not_less)
  moreover have "tokens_ok cs' h'" using tokens_ok_advanced [OF t adv] by blast
  ultimately show ?thesis by auto
qed

text \<open>After an error a wait returns after at most one flush, or stops at the assertion that the buffer is not empty.\<close>

lemma token_wait_error:
  assumes c: "core n ob cs h" and nok: "\<not> ok (hp_cb h)" and w: "token_wait env token h = Some h'"
  shows "\<exists>cs'. core n ob cs' h' \<and> advanced get tok ok cs cs' h h'"
proof -
  obtain t h1 where t: "last_token_read env h = (t, h1)" by fastforce
  note c1 = last_token_core [OF c t]
  obtain g h2 where g: "get_offset env h1 = (g, h2)" by fastforce
  have c1': "core n ob cs h1" using c1 by blast
  note c2 = get_offset_core [OF c1' g]
  have adv2: "advanced get tok ok cs cs h h2" using c1 c2 advanced_trans by blast
  obtain b h3 cs3 where f: "hp_FlushSync env h2 = Some (b, h3)" and c3: "core n ob cs3 h3" "advanced get tok ok cs cs3 h2 h3"
    "b \<longleftrightarrow> ok (hp_cb h3)" using FlushSync_core [of n ob cs h2] c2 by blast
  have adv3: "advanced get tok ok cs cs3 h h3" by (rule advanced_trans [OF adv2 c3(2)])
  then have "\<not> b" using nok c3(3) by (auto simp: advanced_def)
  with w t g f have "h' = h1 \<or> h' = h3" by (subst (asm) token_wait.simps) (auto split: if_splits)
  then show ?thesis using c1 c3(1) adv3 by blast
qed

lemma WaitForToken_result:
  assumes c: "core n ob cs h" and t: "tokens_ok cs h" and w: "WaitForToken env token h = Some h'"
  shows "\<exists>cs'. core n ob cs' h' \<and> tokens_ok cs' h' \<and> advanced get tok ok cs cs' h h' \<and>
    (ok (hp_cb h') \<longrightarrow> token < 0 \<or> hp_token h' < token \<or> token \<le> tok (hp_cb h'))"
proof (cases "ok (hp_cb h)")
  case True
  from WaitForToken_core [OF c t this, of token] w show ?thesis by auto
next
  case False
  have "\<exists>cs'. core n ob cs' h' \<and> advanced get tok ok cs cs' h h'"
  proof (cases "token < 0 \<or> token > hp_token h")
    case True
    then have "h' = h" using c w by (auto simp: WaitForToken_def helper_core_def split: if_splits)
    with c advanced_refl show ?thesis by blast
  next
    case False': False
    then have "token_wait env token h = Some h'" using c w by (auto simp: WaitForToken_def helper_core_def)
    from token_wait_error [OF c False this] show ?thesis .
  qed
  then obtain cs' where cs': "core n ob cs' h'" "advanced get tok ok cs cs' h h'" by blast
  then have "\<not> ok (hp_cb h')" using False by (auto simp: advanced_def)
  with cs' show ?thesis by blast
qed

subsubsection \<open>Finishing\<close>

lemma flush_until_empty_core:
  "core n ob cs h \<Longrightarrow> cs \<noteq> [] \<Longrightarrow>
   \<exists>b h' cs'. flush_until_empty env h = Some (b, h') \<and> core n ob cs' h' \<and> advanced get tok ok cs cs' h h' \<and>
     (b \<longleftrightarrow> ok (hp_cb h')) \<and> (b \<longrightarrow> cs' = [])"
proof (induction "length cs" arbitrary: cs h rule: less_induct)
  case less
  obtain b h1 cs1 where f: "hp_FlushSync env h = Some (b, h1)" and c1: "core n ob cs1 h1" "advanced get tok ok cs cs1 h h1"
    "b \<longleftrightarrow> ok (hp_cb h1)" "b \<and> cs \<noteq> [] \<longrightarrow> length cs1 < length cs"
    using FlushSync_core [OF less.prems(1)] by blast
  show ?case
  proof (cases b)
    case False
    then have "flush_until_empty env h = Some (False, h1)" using f by (subst flush_until_empty.simps) simp
    with False c1 show ?thesis by (intro exI [of _ False] exI [of _ h1] exI [of _ cs1]) simp
  next
    case True
    obtain g h2 where g: "get_offset env h1 = (g, h2)" by fastforce
    note c2 = get_offset_core [OF c1(1) g]
    have adv: "advanced get tok ok cs cs1 h h2" using c1(2) c2 advanced_trans by blast
    have step: "flush_until_empty env h = (if hp_put h2 \<noteq> g then flush_until_empty env h2 else Some (True, h2))"
      using f g True by (subst flush_until_empty.simps) simp
    have "ok (hp_cb h1)" using c1(3) True by simp
    from core_pending [OF c1(1) this] obtain q p where "get (hp_cb h1) = int q" "hp_put h1 = int p" "cs1 = [] \<longleftrightarrow> q = p" by metis
    moreover have "hp_put h2 = hp_put h1" using c2 advanced_fields(1) by blast
    ultimately have e: "hp_put h2 = g \<longleftrightarrow> cs1 = []" using c2 by auto
    show ?thesis
    proof (cases "cs1 = []")
      case True
      with step e c2 adv \<open>ok (hp_cb h1)\<close> show ?thesis by (intro exI [of _ True] exI [of _ h2] exI [of _ "[]"]) simp
    next
      case False
      have "length cs1 < length cs" "core n ob cs1 h2" using c1(4) True less.prems(2) c2 by blast+
      from less.hyps [OF this False] obtain b' h' cs' where "flush_until_empty env h2 = Some (b', h')" "core n ob cs' h'"
        "advanced get tok ok cs1 cs' h2 h'" "b' \<longleftrightarrow> ok (hp_cb h')" "b' \<longrightarrow> cs' = []" by blast
      with step e False advanced_trans [OF adv] show ?thesis by (intro exI [of _ b'] exI [of _ h'] exI [of _ cs']) simp
    qed
  qed
qed

text \<open>\<^verbatim>\<open>Finish\<close> returns; unless the command buffer has failed, every pending command has been executed.\<close>

lemma Finish_core:
  assumes c: "core n ob cs h"
  shows "\<exists>b h' cs'. Finish env h = Some (b, h') \<and> core n ob cs' h' \<and> advanced get tok ok cs cs' h h' \<and>
    (ok (hp_cb h') \<longrightarrow> b \<and> cs' = []) \<and> (ok (hp_cb h) \<and> b \<longrightarrow> ok (hp_cb h'))"
proof -
  obtain g h1 where g: "get_offset env h = (g, h1)" by fastforce
  note c1 = get_offset_core [OF c g]
  have adv: "advanced get tok ok cs cs h h1" and c1': "core n ob cs h1" using c1 by blast+
  have run: "Finish env h = (if hp_put h1 = g then Some (True, h1) else flush_until_empty env h1)"
    using c c1' g by (simp add: Finish_def helper_core_def)
  show ?thesis
  proof (cases "ok (hp_cb h)")
    case ok: True
    from core_pending [OF c ok] obtain q p where "get (hp_cb h) = int q" "hp_put h = int p" "cs = [] \<longleftrightarrow> q = p" by metis
    with c1 advanced_fields(1) [OF adv] have e: "hp_put h1 = g \<longleftrightarrow> cs = []" by auto
    show ?thesis
    proof (cases "cs = []")
      case True
      with run e c1 adv ok show ?thesis by (intro exI [of _ True] exI [of _ h1] exI [of _ "[]"]) simp
    next
      case False
      from flush_until_empty_core [OF c1' False] obtain b h' cs' where "flush_until_empty env h1 = Some (b, h')" "core n ob cs' h'"
        "advanced get tok ok cs cs' h1 h'" "b \<longleftrightarrow> ok (hp_cb h')" "b \<longrightarrow> cs' = []" by blast
      with run e False advanced_trans [OF adv] show ?thesis by (intro exI [of _ b] exI [of _ h'] exI [of _ cs']) simp
    qed
  next
    case False
    obtain b h2 cs2 where f: "hp_FlushSync env h1 = Some (b, h2)" and c2: "core n ob cs2 h2" "advanced get tok ok cs cs2 h1 h2"
      "b \<longleftrightarrow> ok (hp_cb h2)" using FlushSync_core [OF c1'] by blast
    have adv2: "advanced get tok ok cs cs2 h h2" by (rule advanced_trans [OF adv c2(2)])
    then have nok: "\<not> ok (hp_cb h2)" using False by (auto simp: advanced_def)
    then have "flush_until_empty env h1 = Some (False, h2)" using f c2(3) by (subst flush_until_empty.simps) simp
    with run False c1 c2(1) adv adv2 nok show ?thesis by (cases "hp_put h1 = g") auto
  qed
qed

subsubsection \<open>Inserting a token\<close>

abbreviation set_token :: "int \<Rightarrow> u32 list" where
  "set_token t \<equiv> [entry_of_header \<lparr>h_size = 2, h_command = 1\<rparr>, uint32 t]"

lemma set_token_simps:
  "SetToken_Init (uint32 t) = Some (set_token t)" "wf_entries (set_token t)" "quiet_cmd (set_token t)"
  by (simp_all add: SetToken_Init_def SetCmd_evals wf_entries_def quiet_cmd_def quiet_ids_def all_command_ids_def)

lemma token_of_set_token: "0 \<le> t \<Longrightarrow> t < 2147483648 \<Longrightarrow> token_of (set_token t) = [t]"
  using sint_uint32 [of t] by (simp add: token_of_def)

lemma tokens_filter_jump: "tokens cs = tokens (filter (\<lambda>c. c \<noteq> jump0) cs)"
  by (induction cs) auto

lemma InsertToken_run:
  assumes c: "core n ob cs h" and n: "2 < n"
  shows "case GetSpace env 2 (h\<lparr>hp_token := (hp_token h + 1) mod 2147483648\<rparr>) of
      None \<Rightarrow> InsertToken env h = None
    | Some (space, h2) \<Rightarrow> InsertToken env h = do {
        h3 \<leftarrow> init_cmd (SetToken_Init (uint32 (hp_token h2))) (space, h2);
        if space \<noteq> None \<and> hp_token h3 = 0
        then do {
          (_, h4) \<leftarrow> Finish env h3;
          let (t, h5) = last_token_read env h4;
          if hp_token h5 \<noteq> t then None else Some (hp_token h5, h5)
        }
        else Some (hp_token h3, h3)
      }"
proof -
  have "ComputeNumEntries (sizeof_cmd kSetToken) = 2" by (simp add: ComputeNumEntries_def)
  with c show ?thesis
    unfolding InsertToken_def AllocateRingBuffer_core [OF c]
    by (auto simp: helper_core_def GetCmdSpace_def split: option.splits)
qed

text \<open>
  Unless the command buffer has failed, the new token is the newest one and its command is behind all
  others. When the number wraps around to zero, every token has passed before the call returns.
\<close>

lemma InsertToken_core:
  assumes c: "core n ob cs h" and t: "tokens_ok cs h" and n: "2 < n" and tk: "0 \<le> hp_token h" "hp_token h < 2147483648"
  shows "case InsertToken env h of
      None \<Rightarrow> \<exists>h0 h'. \<not> ok (hp_cb h') \<and> (WaitForAvailableEntries env 2 h0 = Some h' \<or> (\<exists>b. Finish env h0 = Some (b, h')))
    | Some (token, h') \<Rightarrow> token = (hp_token h + 1) mod 2147483648 \<and> hp_token h' = token \<and>
        (\<exists>cs'. core n ob cs' h' \<and> tokens_ok cs' h' \<and> (token = 0 \<and> ok (hp_cb h') \<longrightarrow> cs' = []) \<and>
           progress tok ok [set_token token] cs cs' h h')"
proof -
  let ?t = "(hp_token h + 1) mod 2147483648"
  let ?h = "h\<lparr>hp_token := ?t\<rparr>" and ?es = "set_token ?t"
  have c': "core n ob cs ?h" using c by (simp add: helper_core_def HaveRingBuffer_def)
  have tk': "0 \<le> ?t" "?t < 2147483648" by simp_all
  note es = set_token_simps [of ?t] and tok_es = token_of_set_token [OF tk']
  note run = InsertToken_run [OF c n]
  have two: "of_nat (length ?es) = (2 :: u32)" "int (length ?es) = 2" by simp_all
  note sp = GetSpace_core [OF c' es(2,3), unfolded two]
  show ?thesis
  proof (cases "GetSpace env 2 ?h")
    case None
    with run sp n show ?thesis by auto
  next
    case (Some r)
    obtain space h2 where r: "r = (space, h2)" by fastforce
    with sp Some n obtain h3 cs3 where h3: "space \<noteq> None" "hp_token h2 = ?t" "init_cmd (Some ?es) (space, h2) = Some h3"
      "core n ob cs3 h3" "progress tok ok [?es] cs cs3 ?h h3" "hp_token h3 = ?t" by auto
    have run': "InsertToken env h = (if ?t = 0 then do {
          (_, h4) \<leftarrow> Finish env h3;
          let (t, h5) = last_token_read env h4;
          if hp_token h5 \<noteq> t then None else Some (hp_token h5, h5)
        } else Some (?t, h3))"
      using run Some r h3 es(1) by simp
    have after: "token_after (tok (hp_cb h3)) cs3 = ?t \<and> (?t \<noteq> 0 \<longrightarrow> sorted (tok (hp_cb h3) # tokens cs3))"
      if o: "ok (hp_cb h3)"
    proof -
      from h3(5) o obtain cs1 cs2 where cs: "cs @ cs2 = cs1 @ cs3" "filter (\<lambda>c. c \<noteq> jump0) cs2 = [?es]"
        "tok (hp_cb h3) = token_after (tok (hp_cb h)) cs1" and "ok (hp_cb h)" by (auto simp: progress_def)
      with t have s: "sorted (tok (hp_cb h) # tokens cs)" "token_after (tok (hp_cb h)) cs = hp_token h" by auto
      have t2: "tokens cs2 = [?t]" using tokens_filter_jump [of cs2] cs(2) tok_es by simp
      have "token_after (tok (hp_cb h3)) cs3 = token_after (tok (hp_cb h)) (cs @ cs2)" unfolding cs(1) using cs(3) by simp
      then have a: "token_after (tok (hp_cb h3)) cs3 = ?t" using t2 by (simp add: token_after_last [of _ cs2])
      have "sorted (tok (hp_cb h) # tokens (cs @ cs2))" if "?t \<noteq> 0"
      proof -
        have "hp_token h + 1 \<noteq> 2147483648" using that by auto
        then have "?t = hp_token h + 1" using tk by (intro mod_pos_pos_trivial) simp_all
        moreover have "\<forall>x \<in> set (tok (hp_cb h) # tokens cs). x \<le> hp_token h"
          using sorted_last_max [OF s(1)] s(2) unfolding token_after_last by metis
        ultimately show ?thesis using s(1) t2 by (fastforce simp: sorted_append)
      qed
      with a sorted_token_after [of "tok (hp_cb h)" cs1 cs3] cs(1,3) show ?thesis by metis
    qed
    have pr3: "progress tok ok [?es] cs cs3 h h3" using h3(5) by (simp add: progress_def)
    show ?thesis
    proof (cases "?t = 0")
      case False
      with run' h3(4,6) after pr3 show ?thesis by auto
    next
      case True
      obtain b h4 cs4 where f: "Finish env h3 = Some (b, h4)" "core n ob cs4 h4" "advanced get tok ok cs3 cs4 h3 h4"
        "ok (hp_cb h4) \<longrightarrow> b \<and> cs4 = []" using Finish_core [OF h3(4)] by blast
      obtain t5 h5 where l: "last_token_read env h4 = (t5, h5)" by fastforce
      note c5 = last_token_core [OF f(2) l]
      have tk5: "hp_token h5 = 0" using c5 advanced_fields(3) f(3) h3(6) True by metis
      have res: "InsertToken env h = (if t5 \<noteq> 0 then None else Some (0, h5))"
        using run' True f(1) l tk5 by simp
      have "t5 = 0 \<and> cs4 = []" if o: "ok (hp_cb h4)"
      proof -
        from f(3,4) o have "ok (hp_cb h3)" "tok (hp_cb h4) = token_after (tok (hp_cb h3)) cs3" "cs4 = []" by (auto simp: advanced_def)
        with after True c5 show ?thesis by simp
      qed
      moreover have "progress tok ok [?es] cs cs4 h h5"
        using progress_trans [OF pr3 progress_advanced [OF advanced_trans [OF f(3)]], of cs4 h5] c5 by simp
      ultimately show ?thesis using res f(1) c5 tk5 True by (cases "t5 = 0") auto
    qed
  qed
qed

end

subsection \<open>The helper as a token fence\<close>

text \<open>
  A token counts as passed when the service has set it or a newer one, when the helper never issued it
  (a negative number, or one above the newest: then the numbers have wrapped around, and every older
  token had passed), and when the command buffer has failed, since nothing is executed any more.
\<close>

definition token_passed ::
    "('a memory_state_scheme \<Rightarrow> int) \<Rightarrow> ('a memory_state_scheme \<Rightarrow> bool) \<Rightarrow> int \<Rightarrow> 'a memory_state_scheme CommandBufferHelper \<Rightarrow> bool" where
  "token_passed tok ok t h \<longleftrightarrow> \<not> ok (hp_cb h) \<or> t < 0 \<or> hp_token h < t \<or> t \<le> tok (hp_cb h)"

definition fence_inv ::
    "(nat \<Rightarrow> obj \<Rightarrow> 'a memory_state_scheme \<Rightarrow> bool) \<Rightarrow> ('a memory_state_scheme \<Rightarrow> int) \<Rightarrow> ('a memory_state_scheme \<Rightarrow> int) \<Rightarrow>
     ('a memory_state_scheme \<Rightarrow> bool) \<Rightarrow> 'a memory_state_scheme CommandBufferHelper \<Rightarrow> bool" where
  "fence_inv world get tok ok h \<longleftrightarrow> (\<exists>n ob cs. helper_core world get ok n ob cs h \<and>
     (ok (hp_cb h) \<longrightarrow> sorted (tok (hp_cb h) # tokens cs) \<and> token_after (tok (hp_cb h)) cs = hp_token h))"

sublocale command_buffer \<subseteq> fence: token_fence "WaitForToken env" "last_token_read env" "token_passed tok ok"
  "fence_inv world get tok ok"
proof unfold_locales
  fix h h' and t t' r :: int
  assume "fence_inv world get tok ok h"
  then obtain n ob cs where c: "core n ob cs h" and tk: "tokens_ok cs h" unfolding fence_inv_def by blast
  {
    assume "WaitForToken env t h = Some h'"
    from WaitForToken_result [OF c tk this] obtain cs' where cs': "core n ob cs' h'" "tokens_ok cs' h'"
      "advanced get tok ok cs cs' h h'" "ok (hp_cb h') \<longrightarrow> t < 0 \<or> hp_token h' < t \<or> t \<le> tok (hp_cb h')" by blast
    then show "fence_inv world get tok ok h'" unfolding fence_inv_def by blast
    show "token_passed tok ok t h'" using cs'(4) by (auto simp: token_passed_def)
  }
  show "token_passed tok ok t h'" if "token_passed tok ok t h" "WaitForToken env t' h = Some h'"
  proof -
    from WaitForToken_result [OF c tk that(2)] obtain cs' where adv: "advanced get tok ok cs cs' h h'" by blast
    from tokens_ok_advanced [OF tk this] that(1) advanced_fields(3) [OF adv] adv show ?thesis
      by (auto simp: token_passed_def advanced_def)
  qed
  show "token_passed tok ok t h'" if "last_token_read env h = (r, h')" "t \<le> r"
    using last_token_core [OF c that(1)] that(2) by (auto simp: token_passed_def)
qed

end
