(* ===== verification/Fenced_Allocator.thy ===== *)
theory Fenced_Allocator
  imports Token_Fence
begin

text \<open>
  The client's shared memory allocator, \<^verbatim>\<open>gpu/command_buffer/client/fenced_allocator.cc\<close> and
  \<^verbatim>\<open>fenced_allocator.h\<close>: a vector of adjacent blocks that covers the buffer, first-fit allocation,
  and blocks that are freed only once the service has passed a token.

  The operations the allocator calls on its \<^verbatim>\<open>CommandBufferHelper\<close> are parameters: \<open>wait\<close> is
  \<^verbatim>\<open>WaitForToken\<close> and \<open>last_token_read\<close> is \<^verbatim>\<open>last_token_read\<close>; the helper's state, of any type
  \<open>'h\<close>, is threaded through. The fencing guarantee is proved under the laws of the locale
  \<open>token_fence\<close>.
\<close>

subsection \<open>State\<close>

datatype fa_state = IN_USE | FREE | FREE_PENDING_TOKEN

record Block =
  b_state :: fa_state
  b_offset :: u32
  b_size :: u32
  b_token :: int

definition kInvalidOffset :: u32 where
  "kInvalidOffset = 0xffffffff"

definition kUnusedToken :: int where
  "kUnusedToken = 0"

definition FencedAllocator :: "u32 \<Rightarrow> Block list" where
  "FencedAllocator sz = [\<lparr>b_state = FREE, b_offset = 0, b_size = sz, b_token = kUnusedToken\<rparr>]"

subsection \<open>Private operations\<close>

definition CollapseFreeBlock :: "nat \<Rightarrow> Block list \<Rightarrow> nat \<times> Block list" where
  "CollapseFreeBlock index blocks =
     (let blocks1 =
        (if index + 1 < length blocks \<and> b_state (blocks ! (index + 1)) = FREE
         then erase_at (index + 1)
                (blocks[index := (blocks ! index)
                   \<lparr>b_size := b_size (blocks ! index) + b_size (blocks ! (index + 1))\<rparr>])
         else blocks)
      in if index > 0 \<and> b_state (blocks1 ! (index - 1)) = FREE
         then (index - 1,
               erase_at index
                 (blocks1[index - 1 := (blocks1 ! (index - 1))
                    \<lparr>b_size := b_size (blocks1 ! (index - 1)) + b_size (blocks1 ! index)\<rparr>]))
         else (index, blocks1))"

definition WaitForTokenAndFreeBlock ::
    "(int \<Rightarrow> 'h \<Rightarrow> 'h option) \<Rightarrow> nat \<Rightarrow> Block list \<Rightarrow> 'h \<Rightarrow> (nat \<times> Block list \<times> 'h) option" where
  "WaitForTokenAndFreeBlock wait index blocks h =
     (if index < length blocks \<and> b_state (blocks ! index) = FREE_PENDING_TOKEN
      then do {
        h' \<leftarrow> wait (b_token (blocks ! index)) h;
        let (index', blocks') =
          CollapseFreeBlock index (blocks[index := (blocks ! index)\<lparr>b_state := FREE\<rparr>]);
        Some (index', blocks', h')
      }
      else None)"

definition AllocInBlock :: "nat \<Rightarrow> u32 \<Rightarrow> Block list \<Rightarrow> (u32 \<times> Block list) option" where
  "AllocInBlock index sz blocks =
     (if index < length blocks \<and> b_size (blocks ! index) \<ge> sz \<and> b_state (blocks ! index) = FREE
      then let block = blocks ! index; offset = b_offset block
        in if b_size block = sz
           then Some (offset, blocks[index := block\<lparr>b_state := IN_USE\<rparr>])
           else let newblock = \<lparr>b_state = FREE, b_offset = offset + sz,
                                b_size = b_size block - sz, b_token = kUnusedToken\<rparr>
             in Some (offset, insert_at (index + 1) newblock
                  (blocks[index := block\<lparr>b_state := IN_USE, b_size := sz\<rparr>]))
      else None)"

definition GetBlockByOffset :: "u32 \<Rightarrow> Block list \<Rightarrow> nat option" where
  "GetBlockByOffset offset blocks =
     (let it = lower_bound (\<lambda>b. b_offset b < offset) blocks
      in if it < length blocks \<and> b_offset (blocks ! it) = offset then Some it else None)"

subsection \<open>Allocation\<close>

text \<open>The first loop of \<^verbatim>\<open>Alloc\<close>: the first FREE block, from index \<open>i\<close> on, that is big enough.\<close>

function alloc_find_free :: "u32 \<Rightarrow> Block list \<Rightarrow> nat \<Rightarrow> nat option" where
  "alloc_find_free sz blocks i =
     (if i < length blocks
      then if b_state (blocks ! i) = FREE \<and> b_size (blocks ! i) \<ge> sz then Some i
           else alloc_find_free sz blocks (Suc i)
      else None)"
  by pat_completeness auto
termination
  by (relation "measure (\<lambda>(sz, blocks, i). length blocks - i)") auto

declare alloc_find_free.simps [simp del]

text \<open>
  The number of blocks that wait for a token: what the second loop of \<^verbatim>\<open>Alloc\<close>, \<^verbatim>\<open>FreeUnused\<close>
  and the destructor use up.
\<close>

abbreviation pending_blocks :: "Block list \<Rightarrow> Block list" where
  "pending_blocks \<equiv> filter (\<lambda>b. b_state b = FREE_PENDING_TOKEN)"

text \<open>
  Collapsing the block between \<open>xs\<close> and \<open>ys\<close> swallows at most one neighbour on each side, and
  swallows it exactly when it is FREE.
\<close>

lemma CollapseFreeBlock_cases:
  obtains ls rs xs' ys' b'
  where "CollapseFreeBlock (length xs) (xs @ b # ys) = (length xs', xs' @ b' # ys')"
    and "xs = xs' @ ls" and "ys = rs @ ys'"
    and "ls = [] \<and> (xs' = [] \<or> b_state (last xs') \<noteq> FREE) \<or> (\<exists>p. ls = [p] \<and> b_state p = FREE)"
    and "rs = [] \<and> (ys' = [] \<or> b_state (hd ys') \<noteq> FREE) \<or> (\<exists>n. rs = [n] \<and> b_state n = FREE)"
    and "b' = (hd (ls @ [b]))\<lparr>b_size := sum_list (map b_size (ls @ b # rs))\<rparr>"
proof -
  define rs where "rs = (case ys of y # _ \<Rightarrow> if b_state y = FREE then [y] else [] | [] \<Rightarrow> [])"
  define ys' where "ys' = drop (length rs) ys"
  define b1 where "b1 = b\<lparr>b_size := sum_list (map b_size (b # rs))\<rparr>"
  have rs: "ys = rs @ ys'"
      "rs = [] \<and> (ys' = [] \<or> b_state (hd ys') \<noteq> FREE) \<or> (\<exists>n. rs = [n] \<and> b_state n = FREE)"
    by (auto simp: rs_def ys'_def split: list.splits)
  have step1: "(if length xs + 1 < length (xs @ b # ys) \<and> b_state ((xs @ b # ys) ! (length xs + 1)) = FREE
      then erase_at (length xs + 1) ((xs @ b # ys)[length xs := ((xs @ b # ys) ! length xs)
             \<lparr>b_size := b_size ((xs @ b # ys) ! length xs) + b_size ((xs @ b # ys) ! (length xs + 1))\<rparr>])
      else xs @ b # ys) = xs @ b1 # ys'"
    by (cases ys) (auto simp: b1_def rs_def ys'_def)
  show thesis
  proof (cases "xs = [] \<or> b_state (last xs) \<noteq> FREE")
    case True
    then have "\<not> (length xs > 0 \<and> b_state ((xs @ b1 # ys') ! (length xs - 1)) = FREE)"
      by (auto simp: nth_append last_conv_nth)
    then have "CollapseFreeBlock (length xs) (xs @ b # ys) = (length xs, xs @ b1 # ys')"
      unfolding CollapseFreeBlock_def step1 Let_def by (simp only: if_False)
    from that [OF this, of "[]" rs] True rs show thesis by (auto simp: b1_def)
  next
    case False
    then obtain us l where xs: "xs = us @ [l]" and l: "b_state l = FREE"
      by (metis append_butlast_last_id)
    have "CollapseFreeBlock (length xs) (xs @ b # ys)
        = (length us, us @ l\<lparr>b_size := b_size l + b_size b1\<rparr> # ys')"
      unfolding CollapseFreeBlock_def step1 Let_def using l by (simp add: xs erase_at_def nth_append)
    from that [OF this, of "[l]" rs] xs l rs show thesis by (auto simp: b1_def)
  qed
qed

lemma pending_CollapseFreeBlock:
  assumes "b_state b = FREE"
  shows "pending_blocks (snd (CollapseFreeBlock (length xs) (xs @ b # ys))) = pending_blocks (xs @ ys)"
  by (rule CollapseFreeBlock_cases [of xs b ys]) (use assms in auto)

lemma WaitForTokenAndFreeBlock_pending:
  assumes "WaitForTokenAndFreeBlock wait i blocks h = Some (i', blocks', h')"
  shows "length (pending_blocks blocks') < length (pending_blocks blocks)"
proof -
  from assms have i: "i < length blocks" and p: "b_state (blocks ! i) = FREE_PENDING_TOKEN"
    by (auto simp: WaitForTokenAndFreeBlock_def split: if_splits)
  from nth_split [OF i] obtain xs b ys where xs: "blocks = xs @ b # ys" "i = length xs" .
  from assms p xs have "blocks' = snd (CollapseFreeBlock (length xs) (xs @ b\<lparr>b_state := FREE\<rparr> # ys))"
    by (auto simp: WaitForTokenAndFreeBlock_def Let_def split: Option.bind_splits prod.splits)
  then have "pending_blocks blocks' = pending_blocks (xs @ ys)"
    by (simp add: pending_CollapseFreeBlock)
  with p xs show ?thesis by simp
qed

text \<open>The second loop of \<^verbatim>\<open>Alloc\<close>, from index \<open>i\<close> on.\<close>

function alloc_pending_loop ::
    "(int \<Rightarrow> 'h \<Rightarrow> 'h option) \<Rightarrow> u32 \<Rightarrow> Block list \<Rightarrow> 'h \<Rightarrow> nat \<Rightarrow> (u32 \<times> Block list \<times> 'h) option" where
  "alloc_pending_loop wait sz blocks h i =
     (if i < length blocks
      then if b_state (blocks ! i) \<noteq> FREE_PENDING_TOKEN
           then alloc_pending_loop wait sz blocks h (Suc i)
           else do {
             (i', blocks', h') \<leftarrow> WaitForTokenAndFreeBlock wait i blocks h;
             if b_size (blocks' ! i') \<ge> sz
             then do {
               (offset, blocks'') \<leftarrow> AllocInBlock i' sz blocks';
               Some (offset, blocks'', h')
             }
             else alloc_pending_loop wait sz blocks' h' (Suc i')
           }
      else Some (kInvalidOffset, blocks, h))"
  by pat_completeness auto
termination
  by (relation "measures [\<lambda>(wait, sz, blocks, h, i). length (pending_blocks blocks),
                          \<lambda>(wait, sz, blocks, h, i). length blocks - i]")
    (auto dest: WaitForTokenAndFreeBlock_pending)

declare alloc_pending_loop.simps [simp del]

definition Alloc ::
    "(int \<Rightarrow> 'h \<Rightarrow> 'h option) \<Rightarrow> u32 \<Rightarrow> Block list \<Rightarrow> 'h \<Rightarrow> (u32 \<times> Block list \<times> 'h) option" where
  "Alloc wait size0 blocks h =
     (let sz = (if size0 = 0 then 1 else size0)
      in case alloc_find_free sz blocks 0 of
           Some i \<Rightarrow> do {
             (offset, blocks') \<leftarrow> AllocInBlock i sz blocks;
             Some (offset, blocks', h)
           }
         | None \<Rightarrow> alloc_pending_loop wait sz blocks h 0)"

subsection \<open>Freeing\<close>

definition Free :: "u32 \<Rightarrow> Block list \<Rightarrow> Block list option" where
  "Free offset blocks = do {
     index \<leftarrow> GetBlockByOffset offset blocks;
     if b_state (blocks ! index) \<noteq> FREE
     then Some (snd (CollapseFreeBlock index (blocks[index := (blocks ! index)\<lparr>b_state := FREE\<rparr>])))
     else None
   }"

definition FreePendingToken :: "u32 \<Rightarrow> int \<Rightarrow> Block list \<Rightarrow> Block list option" where
  "FreePendingToken offset token blocks = do {
     index \<leftarrow> GetBlockByOffset offset blocks;
     Some (blocks[index := (blocks ! index)\<lparr>b_state := FREE_PENDING_TOKEN, b_token := token\<rparr>])
   }"

function free_unused_loop :: "int \<Rightarrow> Block list \<Rightarrow> nat \<Rightarrow> Block list" where
  "free_unused_loop last_token blocks i =
     (if i < length blocks
      then if b_state (blocks ! i) = FREE_PENDING_TOKEN \<and> b_token (blocks ! i) \<le> last_token
           then let (i', blocks') =
                  CollapseFreeBlock i (blocks[i := (blocks ! i)\<lparr>b_state := FREE\<rparr>])
                in free_unused_loop last_token blocks' i'
           else free_unused_loop last_token blocks (Suc i)
      else blocks)"
  by pat_completeness auto
termination
proof (relation "measures [\<lambda>(lt, blocks, i). length (pending_blocks blocks),
                           \<lambda>(lt, blocks, i). length blocks - i]", goal_cases)
  case (2 lt blocks i x i' blocks')
  then obtain xs b ys where xs: "blocks = xs @ b # ys" "i = length xs"
    using nth_split by blast
  with 2 have "blocks' = snd (CollapseFreeBlock (length xs) (xs @ b\<lparr>b_state := FREE\<rparr> # ys))"
    by (metis list_update_length nth_append_length snd_conv)
  then have "pending_blocks blocks' = pending_blocks (xs @ ys)"
    by (simp add: pending_CollapseFreeBlock)
  with 2 xs show ?case by simp
qed auto

declare free_unused_loop.simps [simp del]

definition FreeUnused ::
    "('h \<Rightarrow> int \<times> 'h) \<Rightarrow> Block list \<Rightarrow> 'h \<Rightarrow> Block list \<times> 'h" where
  "FreeUnused last_token_read blocks h =
     (let (last_token, h') = last_token_read h
      in (free_unused_loop last_token blocks 0, h'))"

text \<open>The destructor waits for every pending block.\<close>

function destroy_loop ::
    "(int \<Rightarrow> 'h \<Rightarrow> 'h option) \<Rightarrow> Block list \<Rightarrow> 'h \<Rightarrow> nat \<Rightarrow> (Block list \<times> 'h) option" where
  "destroy_loop wait blocks h i =
     (if i < length blocks
      then if b_state (blocks ! i) = FREE_PENDING_TOKEN
           then do {
             (i', blocks', h') \<leftarrow> WaitForTokenAndFreeBlock wait i blocks h;
             destroy_loop wait blocks' h' (Suc i')
           }
           else destroy_loop wait blocks h (Suc i)
      else Some (blocks, h))"
  by pat_completeness auto
termination
  by (relation "measures [\<lambda>(wait, blocks, h, i). length (pending_blocks blocks),
                          \<lambda>(wait, blocks, h, i). length blocks - i]")
    (auto dest: WaitForTokenAndFreeBlock_pending)

declare destroy_loop.simps [simp del]

subsection \<open>Queries\<close>

fun GetLargestFreeSize_loop :: "u32 \<Rightarrow> Block list \<Rightarrow> u32" where
  "GetLargestFreeSize_loop max_size [] = max_size"
| "GetLargestFreeSize_loop max_size (b # bs) =
     GetLargestFreeSize_loop (if b_state b = FREE then max max_size (b_size b) else max_size) bs"

definition GetLargestFreeSize :: "Block list \<Rightarrow> u32" where
  "GetLargestFreeSize blocks = GetLargestFreeSize_loop 0 blocks"

fun GetLargestFreeOrPendingSize_loop :: "u32 \<Rightarrow> u32 \<Rightarrow> Block list \<Rightarrow> u32" where
  "GetLargestFreeOrPendingSize_loop max_size current_size [] = max max_size current_size"
| "GetLargestFreeOrPendingSize_loop max_size current_size (b # bs) =
     (if b_state b = IN_USE
      then GetLargestFreeOrPendingSize_loop (max max_size current_size) 0 bs
      else GetLargestFreeOrPendingSize_loop max_size (current_size + b_size b) bs)"

definition GetLargestFreeOrPendingSize :: "Block list \<Rightarrow> u32" where
  "GetLargestFreeOrPendingSize blocks = GetLargestFreeOrPendingSize_loop 0 0 blocks"

fun CheckConsistency_loop :: "Block list \<Rightarrow> bool" where
  "CheckConsistency_loop (current # next # bs) =
     (if b_offset next \<le> b_offset current then False
      else if b_offset next \<noteq> b_offset current + b_size current then False
      else if b_state current = FREE \<and> b_state next = FREE then False
      else CheckConsistency_loop (next # bs))"
| "CheckConsistency_loop bs = True"

definition CheckConsistency :: "Block list \<Rightarrow> bool" where
  "CheckConsistency blocks = (if length blocks < 1 then False else CheckConsistency_loop blocks)"

definition InUse :: "Block list \<Rightarrow> bool" where
  "InUse blocks = (length blocks \<noteq> 1 \<or> b_state (blocks ! 0) \<noteq> FREE)"

subsection \<open>The invariant: the blocks tile the buffer\<close>

fun blocks_cover :: "nat \<Rightarrow> Block list \<Rightarrow> nat \<Rightarrow> bool" where
  "blocks_cover start [] stop = (start = stop)"
| "blocks_cover start (b # bs) stop =
     (unat (b_offset b) = start \<and> 0 < unat (b_size b) \<and>
      blocks_cover (start + unat (b_size b)) bs stop)"

abbreviation not_both_free :: "Block \<Rightarrow> Block \<Rightarrow> bool" where
  "not_both_free a b \<equiv> \<not> (b_state a = FREE \<and> b_state b = FREE)"

definition fa_inv :: "u32 \<Rightarrow> Block list \<Rightarrow> bool" where
  "fa_inv tot blocks \<longleftrightarrow>
     blocks \<noteq> [] \<and> blocks_cover 0 blocks (unat tot) \<and> successively not_both_free blocks"

abbreviation in_use_blocks :: "Block list \<Rightarrow> Block list" where
  "in_use_blocks \<equiv> filter (\<lambda>b. b_state b = IN_USE)"

abbreviation block_bytes :: "Block list \<Rightarrow> nat" where
  "block_bytes bs \<equiv> sum_list (map (\<lambda>b. unat (b_size b)) bs)"

lemma blocks_cover_append:
  "blocks_cover s (xs @ ys) t \<longleftrightarrow>
     blocks_cover s xs (s + block_bytes xs) \<and> blocks_cover (s + block_bytes xs) ys t"
  by (induction xs arbitrary: s) (auto simp: algebra_simps)

lemma blocks_cover_trans: "blocks_cover s xs m \<Longrightarrow> blocks_cover m ys t \<Longrightarrow> blocks_cover s (xs @ ys) t"
  by (induction xs arbitrary: s) auto

lemma blocks_cover_bytes: "blocks_cover s bs t \<Longrightarrow> t = s + block_bytes bs"
  by (induction bs arbitrary: s) fastforce+

lemma blocks_cover_offset_ge: "blocks_cover s bs t \<Longrightarrow> b \<in> set bs \<Longrightarrow> s \<le> unat (b_offset b)"
  by (induction bs arbitrary: s) (auto dest: add_leD1)

lemma blocks_cover_offset_less:
  "blocks_cover s bs t \<Longrightarrow> b \<in> set bs \<Longrightarrow> unat (b_offset b) + unat (b_size b) \<le> t"
proof (induction bs arbitrary: s)
  case (Cons a bs)
  then show ?case by (auto dest: blocks_cover_bytes)
qed simp

lemma blocks_cover_sorted: "blocks_cover s bs t \<Longrightarrow> sorted_wrt (\<lambda>a b. unat (b_offset a) + unat (b_size a) \<le> unat (b_offset b)) bs"
  by (induction bs arbitrary: s) (auto dest: blocks_cover_offset_ge)

lemma unat_sum_sizes:
  "block_bytes bs < 4294967296 \<Longrightarrow> unat (sum_list (map b_size bs)) = block_bytes bs"
  by (induction bs) (auto simp: u32_add)

lemma blocks_cover_merge:
  assumes "blocks_cover s zs t" and "zs \<noteq> []" and "t < 4294967296"
  shows "blocks_cover s [(hd zs)\<lparr>b_size := sum_list (map b_size zs)\<rparr>] t"
proof -
  from assms(1) have t: "t = s + block_bytes zs" by (rule blocks_cover_bytes)
  with assms(3) have "unat (sum_list (map b_size zs)) = block_bytes zs"
    by (intro unat_sum_sizes) simp
  with assms t show ?thesis by (cases zs) auto
qed

lemma CollapseFreeBlock_inv:
  assumes cover: "blocks_cover 0 (xs @ b # ys) t" and t: "t < 4294967296"
    and free: "b_state b = FREE"
    and xs: "successively not_both_free xs" and ys: "successively not_both_free ys"
  shows "blocks_cover 0 (snd (CollapseFreeBlock (length xs) (xs @ b # ys))) t"
    and "successively not_both_free (snd (CollapseFreeBlock (length xs) (xs @ b # ys)))"
    and "in_use_blocks (snd (CollapseFreeBlock (length xs) (xs @ b # ys))) = in_use_blocks (xs @ ys)"
proof -
  obtain ls rs xs' ys' b'
    where c: "CollapseFreeBlock (length xs) (xs @ b # ys) = (length xs', xs' @ b' # ys')"
      and xs': "xs = xs' @ ls" and ys': "ys = rs @ ys'"
      and ls: "ls = [] \<and> (xs' = [] \<or> b_state (last xs') \<noteq> FREE) \<or> (\<exists>p. ls = [p] \<and> b_state p = FREE)"
      and rs: "rs = [] \<and> (ys' = [] \<or> b_state (hd ys') \<noteq> FREE) \<or> (\<exists>n. rs = [n] \<and> b_state n = FREE)"
      and b': "b' = (hd (ls @ [b]))\<lparr>b_size := sum_list (map b_size (ls @ b # rs))\<rparr>"
    by (rule CollapseFreeBlock_cases)
  let ?m = "ls @ b # rs"
  have b'_eq: "b' = (hd ?m)\<lparr>b_size := sum_list (map b_size ?m)\<rparr>"
    using b' by (cases ls) auto
  have all: "xs @ b # ys = xs' @ ?m @ ys'" using xs' ys' by simp
  from cover have cx: "blocks_cover 0 xs' (block_bytes xs')"
    and cm: "blocks_cover (block_bytes xs') ?m (block_bytes xs' + block_bytes ?m)"
    and cy: "blocks_cover (block_bytes xs' + block_bytes ?m) ys' t"
    unfolding all blocks_cover_append by simp_all
  have "block_bytes xs' + block_bytes ?m < 4294967296"
    using blocks_cover_bytes [OF cy] t by simp
  then have cb: "blocks_cover (block_bytes xs') [b'] (block_bytes xs' + block_bytes ?m)"
    unfolding b'_eq by (intro blocks_cover_merge [OF cm]) simp_all
  show "blocks_cover 0 (snd (CollapseFreeBlock (length xs) (xs @ b # ys))) t"
    unfolding c using blocks_cover_trans [OF cx blocks_cover_trans [OF cb cy]] by simp
  have b'_free: "b_state b' = FREE" using b' ls free by auto
  from xs xs' ls have 1: "successively not_both_free xs'" "xs' = [] \<or> b_state (last xs') \<noteq> FREE"
    by (auto simp: successively_append_iff)
  from ys ys' rs have 2: "successively not_both_free ys'" "ys' = [] \<or> b_state (hd ys') \<noteq> FREE"
    by (auto simp: successively_append_iff successively_Cons)
  from 1 2 show "successively not_both_free (snd (CollapseFreeBlock (length xs) (xs @ b # ys)))"
    unfolding c by (auto simp: successively_append_iff successively_Cons)
  show "in_use_blocks (snd (CollapseFreeBlock (length xs) (xs @ b # ys))) = in_use_blocks (xs @ ys)"
    unfolding c using xs' ys' ls rs b'_free free by auto
qed

text \<open>What it is to free the block at an index: the step that \<^verbatim>\<open>Free\<close>, the waits and
  \<^verbatim>\<open>FreeUnused\<close> share.\<close>

lemma free_block_inv:
  assumes "fa_inv tot (xs @ b # ys)"
  shows "fa_inv tot (snd (CollapseFreeBlock (length xs) (xs @ b\<lparr>b_state := FREE\<rparr> # ys)))"
    and "in_use_blocks (snd (CollapseFreeBlock (length xs) (xs @ b\<lparr>b_state := FREE\<rparr> # ys)))
       = in_use_blocks (xs @ ys)"
proof -
  have c: "blocks_cover 0 (xs @ b\<lparr>b_state := FREE\<rparr> # ys) (unat tot)"
    and s: "successively not_both_free xs" "successively not_both_free ys"
    using assms by (auto simp: fa_inv_def blocks_cover_append successively_append_iff successively_Cons)
  note k = CollapseFreeBlock_inv [OF c u32_lt _ s, simplified]
  have "0 < unat tot" using assms by (cases xs) (auto simp: fa_inv_def dest: blocks_cover_bytes)
  with k show "fa_inv tot (snd (CollapseFreeBlock (length xs) (xs @ b\<lparr>b_state := FREE\<rparr> # ys)))"
    by (auto simp: fa_inv_def)
  from k show "in_use_blocks (snd (CollapseFreeBlock (length xs) (xs @ b\<lparr>b_state := FREE\<rparr> # ys)))
       = in_use_blocks (xs @ ys)" by simp
qed

lemma WaitForTokenAndFreeBlock_inv:
  assumes "fa_inv tot blocks" and "WaitForTokenAndFreeBlock wait i blocks h = Some (i', blocks', h')"
  shows "fa_inv tot blocks'" and "in_use_blocks blocks' = in_use_blocks blocks"
    and "i' < length blocks'" and "b_state (blocks' ! i') = FREE" and "i' \<le> i"
proof -
  from assms(2) have i: "i < length blocks" and p: "b_state (blocks ! i) = FREE_PENDING_TOKEN"
    by (auto simp: WaitForTokenAndFreeBlock_def split: if_splits)
  from nth_split [OF i] obtain xs b ys where xs: "blocks = xs @ b # ys" "i = length xs" .
  from assms(2) p xs have eq: "CollapseFreeBlock (length xs) (xs @ b\<lparr>b_state := FREE\<rparr> # ys) = (i', blocks')"
    by (auto simp: WaitForTokenAndFreeBlock_def Let_def split: Option.bind_splits prod.splits)
  from free_block_inv [of tot xs b ys] assms(1) eq xs p
  show "fa_inv tot blocks'" "in_use_blocks blocks' = in_use_blocks blocks" by simp_all
  show "i' < length blocks'" "b_state (blocks' ! i') = FREE" "i' \<le> i"
    by (rule CollapseFreeBlock_cases [of xs "b\<lparr>b_state := FREE\<rparr>" ys]; use eq xs in auto)+
qed

lemma alloc_find_free_Some:
  "alloc_find_free sz blocks i = Some j \<Longrightarrow>
     j < length blocks \<and> b_state (blocks ! j) = FREE \<and> sz \<le> b_size (blocks ! j)"
  by (induction sz blocks i rule: alloc_find_free.induct)
    (subst (asm) (2) alloc_find_free.simps, auto split: if_splits)

lemma alloc_find_free_None:
  "alloc_find_free sz blocks i = None \<Longrightarrow> i \<le> j \<Longrightarrow> j < length blocks \<Longrightarrow>
     b_state (blocks ! j) = FREE \<Longrightarrow> \<not> sz \<le> b_size (blocks ! j)"
proof (induction sz blocks i rule: alloc_find_free.induct)
  case (1 sz blocks i)
  from "1.prems" have i: "i < length blocks" by simp
  with "1.prems" have no: "\<not> (b_state (blocks ! i) = FREE \<and> sz \<le> b_size (blocks ! i))"
    and rec: "alloc_find_free sz blocks (Suc i) = None"
    by (auto simp: alloc_find_free.simps [of sz blocks i] split: if_splits)
  show ?case
  proof (cases "i = j")
    case True
    with no "1.prems" show ?thesis by simp
  next
    case False
    with "1.prems" have "Suc i \<le> j" by simp
    with "1.IH" [OF i no rec] "1.prems" show ?thesis by simp
  qed
qed

text \<open>Allocating in a FREE block adds one block of the requested size to the blocks in use.\<close>

lemma AllocInBlock_inv:
  assumes inv: "fa_inv tot blocks" and "AllocInBlock i sz blocks = Some (off, blocks')" and sz: "0 < unat sz"
  shows "fa_inv tot blocks'"
    and "\<exists>us vs b. in_use_blocks blocks = us @ vs \<and> in_use_blocks blocks' = us @ b # vs \<and>
           b_offset b = off \<and> b_size b = sz"
proof -
  from assms(2) have i: "i < length blocks" by (auto simp: AllocInBlock_def split: if_splits)
  from nth_split [OF i] obtain xs b ys where xs: "blocks = xs @ b # ys" "i = length xs" .
  from assms(2) xs have free: "b_state b = FREE" and le: "sz \<le> b_size b" and off: "off = b_offset b"
    by (auto simp: AllocInBlock_def Let_def split: if_splits)
  define rest where "rest = (if b_size b = sz then []
    else [\<lparr>b_state = FREE, b_offset = b_offset b + sz, b_size = b_size b - sz, b_token = kUnusedToken\<rparr>])"
  define b1 where "b1 = b\<lparr>b_state := IN_USE, b_size := sz\<rparr>"
  have "b_size b = sz \<Longrightarrow> b\<lparr>b_state := IN_USE\<rparr> = b\<lparr>b_state := IN_USE, b_size := sz\<rparr>" by auto
  with assms(2) xs have blocks': "blocks' = xs @ b1 # rest @ ys"
    by (auto simp: AllocInBlock_def Let_def rest_def b1_def split: if_splits)
  from inv have cover: "blocks_cover 0 (xs @ b # ys) (unat tot)"
    and succ: "successively not_both_free (xs @ b # ys)"
    by (auto simp: fa_inv_def xs)
  from cover have cb: "unat (b_offset b) = block_bytes xs"
    and cy: "blocks_cover (block_bytes xs + unat (b_size b)) ys (unat tot)"
    and cx: "blocks_cover 0 xs (block_bytes xs)"
    by (auto simp: blocks_cover_append)
  have "block_bytes xs + unat (b_size b) < 4294967296"
    using blocks_cover_bytes [OF cy] u32_lt [of tot] by simp
  with le have "blocks_cover (block_bytes xs) (b1 # rest) (block_bytes xs + unat (b_size b))"
    using cb sz by (auto simp: b1_def rest_def u32_arith u32_eq)
  from blocks_cover_trans [OF cx blocks_cover_trans [OF this cy]]
  have "blocks_cover 0 blocks' (unat tot)" by (simp add: blocks')
  moreover have "successively not_both_free blocks'"
    using succ free by (auto simp: blocks' successively_append_iff successively_Cons rest_def b1_def)
  ultimately show "fa_inv tot blocks'" by (simp add: fa_inv_def blocks')
  have "in_use_blocks blocks = in_use_blocks xs @ in_use_blocks ys"
    and "in_use_blocks blocks' = in_use_blocks xs @ b1 # in_use_blocks ys"
    using free by (auto simp: xs blocks' rest_def b1_def)
  then show "\<exists>us vs b. in_use_blocks blocks = us @ vs \<and> in_use_blocks blocks' = us @ b # vs \<and>
           b_offset b = off \<and> b_size b = sz"
    by (intro exI [of _ "in_use_blocks xs"] exI [of _ "in_use_blocks ys"] exI [of _ b1])
      (simp add: b1_def off)
qed

subsection \<open>Correctness of the operations\<close>

definition adds_block :: "u32 \<Rightarrow> u32 \<Rightarrow> Block list \<Rightarrow> Block list \<Rightarrow> bool" where
  "adds_block sz off blocks blocks' \<longleftrightarrow>
     (\<exists>us vs b. in_use_blocks blocks = us @ vs \<and> in_use_blocks blocks' = us @ b # vs \<and>
        b_offset b = off \<and> b_size b = sz)"

text \<open>
  The size of the largest run of blocks that are not in use, without wrap-around, with \<open>c\<close> bytes
  of the run already seen.
\<close>

fun max_run :: "nat \<Rightarrow> Block list \<Rightarrow> nat" where
  "max_run c [] = c"
| "max_run c (b # bs) =
     (if b_state b = IN_USE then max c (max_run 0 bs) else max_run (c + unat (b_size b)) bs)"

lemma max_run_not_in_use:
  "\<forall>b \<in> set zs. b_state b \<noteq> IN_USE \<Longrightarrow> max_run c (zs @ ys) = max_run (c + block_bytes zs) ys"
  by (induction zs arbitrary: c) (auto simp: algebra_simps)

lemma max_run_cong: "(\<And>c. max_run c ys = max_run c zs) \<Longrightarrow> max_run c (xs @ ys) = max_run c (xs @ zs)"
  by (induction xs arbitrary: c) auto

lemma max_run_ge_start: "c \<le> max_run c bs"
  by (induction bs arbitrary: c) (auto intro: add_leD1)

lemma max_run_ge: "b \<in> set bs \<Longrightarrow> b_state b \<noteq> IN_USE \<Longrightarrow> unat (b_size b) \<le> max_run c bs"
proof (induction bs arbitrary: c)
  case (Cons a bs)
  show ?case
  proof (cases "a = b")
    case True
    with Cons.prems show ?thesis using max_run_ge_start [of "c + unat (b_size a)" bs] by simp
  next
    case False
    with Cons show ?thesis by (simp add: le_max_iff_disj)
  qed
qed simp

lemma max_run_free_only:
  "\<forall>b \<in> set bs. b_state b \<noteq> FREE_PENDING_TOKEN \<Longrightarrow> successively not_both_free bs \<Longrightarrow>
   \<forall>b \<in> set bs. b_state b = FREE \<longrightarrow> unat (b_size b) < n \<Longrightarrow> c < n \<Longrightarrow>
   c = 0 \<or> bs = [] \<or> b_state (hd bs) \<noteq> FREE \<Longrightarrow> max_run c bs < n"
proof (induction bs arbitrary: c)
  case (Cons b bs)
  from Cons.prems(2) have tl: "successively not_both_free bs" by (cases bs) auto
  show ?case
  proof (cases "b_state b = IN_USE")
    case True
    with Cons tl show ?thesis by auto
  next
    case False
    with Cons.prems have free: "b_state b = FREE" and c: "c = 0"
      by (cases "b_state b"; auto)+
    from Cons.prems free have "bs = [] \<or> b_state (hd bs) \<noteq> FREE"
      by (auto simp: successively_Cons)
    with Cons tl free c show ?thesis by auto
  qed
qed simp

lemma max_run_CollapseFreeBlock:
  assumes "blocks_cover 0 (xs @ b # ys) t" and "t < 4294967296" and "b_state b = FREE"
  shows "max_run c (snd (CollapseFreeBlock (length xs) (xs @ b # ys))) = max_run c (xs @ b # ys)"
proof -
  obtain ls rs xs' ys' b'
    where c: "CollapseFreeBlock (length xs) (xs @ b # ys) = (length xs', xs' @ b' # ys')"
      and eq: "xs = xs' @ ls" "ys = rs @ ys'"
      and ls: "ls = [] \<and> (xs' = [] \<or> b_state (last xs') \<noteq> FREE) \<or> (\<exists>p. ls = [p] \<and> b_state p = FREE)"
      and rs: "rs = [] \<and> (ys' = [] \<or> b_state (hd ys') \<noteq> FREE) \<or> (\<exists>n. rs = [n] \<and> b_state n = FREE)"
      and b': "b' = (hd (ls @ [b]))\<lparr>b_size := sum_list (map b_size (ls @ b # rs))\<rparr>"
    by (rule CollapseFreeBlock_cases)
  let ?m = "ls @ b # rs"
  have all: "xs @ b # ys = xs' @ ?m @ ys'" using eq by simp
  from assms(1,2) have "block_bytes ?m < 4294967296"
    unfolding all by (auto dest!: blocks_cover_bytes)
  then have sz: "unat (b_size b') = block_bytes ?m"
    unfolding b' by (simp add: unat_sum_sizes del: sum_list.append map_append)
  have st: "b_state b' = FREE" "\<forall>z \<in> set ?m. b_state z \<noteq> IN_USE"
    using b' ls rs assms(3) by auto
  have "max_run c (xs' @ ?m @ ys') = max_run c (xs' @ b' # ys')"
    by (rule max_run_cong) (use st sz in \<open>simp add: max_run_not_in_use del: append.simps append_assoc\<close>)
  then show ?thesis by (simp add: c) (simp add: eq)
qed

lemma GetLargestFreeOrPendingSize_loop_nat:
  "blocks_cover s bs t \<Longrightarrow> t < 4294967296 \<Longrightarrow> unat c \<le> s \<Longrightarrow>
     unat (GetLargestFreeOrPendingSize_loop m c bs) = max (unat m) (max_run (unat c) bs)"
proof (induction bs arbitrary: s m c)
  case Nil
  then show ?case by (simp add: max_def word_le_nat_alt)
next
  case (Cons b bs)
  have "s + unat (b_size b) \<le> t" using Cons.prems(1) by (auto dest: blocks_cover_bytes)
  with Cons.prems have add: "unat (c + b_size b) = unat c + unat (b_size b)"
    by (intro u32_add) linarith
  show ?case
  proof (cases "b_state b = IN_USE")
    case True
    with Cons.IH [of "s + unat (b_size b)" 0 "max m c"] Cons.prems show ?thesis
      by (simp add: max_def word_le_nat_alt)
  next
    case False
    with Cons.IH [of "s + unat (b_size b)" "c + b_size b" m] Cons.prems add show ?thesis
      by simp
  qed
qed

lemma GetLargestFreeOrPendingSize_nat:
  "fa_inv tot blocks \<Longrightarrow> unat (GetLargestFreeOrPendingSize blocks) = max_run 0 blocks"
  using GetLargestFreeOrPendingSize_loop_nat [of 0 blocks "unat tot" 0 0] u32_lt [of tot]
  by (simp add: fa_inv_def GetLargestFreeOrPendingSize_def)

lemma max_run_WaitForTokenAndFreeBlock:
  assumes "fa_inv tot blocks" and "WaitForTokenAndFreeBlock wait i blocks h = Some (i', blocks', h')"
  shows "max_run c blocks' = max_run c blocks"
proof -
  from assms(2) have i: "i < length blocks" and p: "b_state (blocks ! i) = FREE_PENDING_TOKEN"
    by (auto simp: WaitForTokenAndFreeBlock_def split: if_splits)
  from nth_split [OF i] obtain xs b ys where xs: "blocks = xs @ b # ys" "i = length xs" .
  from assms(2) p xs have eq: "blocks' = snd (CollapseFreeBlock (length xs) (xs @ b\<lparr>b_state := FREE\<rparr> # ys))"
    by (auto simp: WaitForTokenAndFreeBlock_def Let_def split: Option.bind_splits prod.splits)
  from assms(1) xs have "blocks_cover 0 (xs @ b\<lparr>b_state := FREE\<rparr> # ys) (unat tot)"
    by (auto simp: fa_inv_def blocks_cover_append)
  from max_run_CollapseFreeBlock [OF this u32_lt] eq
  have "max_run c blocks' = max_run c (xs @ b\<lparr>b_state := FREE\<rparr> # ys)" by simp
  also have "\<dots> = max_run c (xs @ b # ys)"
    by (rule max_run_cong) (use p xs in simp)
  finally show ?thesis using xs by simp
qed

lemma adds_block_wait:
  "in_use_blocks blocks1 = in_use_blocks blocks \<Longrightarrow> adds_block sz off blocks1 blocks' \<Longrightarrow>
     adds_block sz off blocks blocks'"
  by (simp add: adds_block_def)

lemma AllocInBlock_total:
  "i < length blocks \<Longrightarrow> sz \<le> b_size (blocks ! i) \<Longrightarrow> b_state (blocks ! i) = FREE \<Longrightarrow>
     \<exists>off blocks'. AllocInBlock i sz blocks = Some (off, blocks')"
  by (simp add: AllocInBlock_def Let_def)

lemma alloc_pending_loop_total:
  "(\<And>t h. wait t h \<noteq> None) \<Longrightarrow> fa_inv tot blocks \<Longrightarrow> alloc_pending_loop wait sz blocks h i \<noteq> None"
proof (induction wait sz blocks h i rule: alloc_pending_loop.induct)
  case (1 wait sz blocks h i)
  show ?case
  proof (cases "i < length blocks \<and> b_state (blocks ! i) = FREE_PENDING_TOKEN")
    case True
    from "1.prems"(1) obtain h1 where h1: "wait (b_token (blocks ! i)) h = Some h1" by fastforce
    with True obtain i' blocks' h' where
      w: "WaitForTokenAndFreeBlock wait i blocks h = Some (i', blocks', h')"
      by (auto simp: WaitForTokenAndFreeBlock_def case_prod_beta)
    note k = WaitForTokenAndFreeBlock_inv [OF "1.prems"(2) w]
    have "sz \<le> b_size (blocks' ! i') \<Longrightarrow> \<exists>off bs. AllocInBlock i' sz blocks' = Some (off, bs)"
      using k by (intro AllocInBlock_total)
    moreover have "\<not> sz \<le> b_size (blocks' ! i') \<Longrightarrow> alloc_pending_loop wait sz blocks' h' (Suc i') \<noteq> None"
      using True w k by (intro "1.IH"(2) [OF _ _ _ _ _ _ "1.prems"(1)]) auto
    ultimately show ?thesis
      using True w by (auto simp: alloc_pending_loop.simps [of wait sz blocks h i])
  next
    case False
    with "1.IH"(1) "1.prems" show ?thesis
      by (auto simp: alloc_pending_loop.simps [of wait sz blocks h i])
  qed
qed

lemma WaitForTokenAndFreeBlock_shape:
  assumes "WaitForTokenAndFreeBlock wait i blocks h = Some (i', blocks', h')"
  obtains xs b ys where "blocks = xs @ b # ys" "i = length xs" "b_state b = FREE_PENDING_TOKEN"
    "wait (b_token b) h = Some h'"
    "CollapseFreeBlock (length xs) (xs @ b\<lparr>b_state := FREE\<rparr> # ys) = (i', blocks')"
proof -
  from assms have i: "i < length blocks" and p: "b_state (blocks ! i) = FREE_PENDING_TOKEN"
    by (auto simp: WaitForTokenAndFreeBlock_def split: if_splits)
  from nth_split [OF i] obtain xs b ys where xs: "blocks = xs @ b # ys" "i = length xs" .
  with assms p that show thesis
    by (auto simp: WaitForTokenAndFreeBlock_def case_prod_beta split: Option.bind_splits)
qed

text \<open>A wait leaves no pending block before the freed one, and any block but the freed one is old.\<close>

lemma WaitForTokenAndFreeBlock_prefix:
  assumes "WaitForTokenAndFreeBlock wait i blocks h = Some (i', blocks', h')"
  shows "set (take (Suc i') blocks') \<subseteq> set (take i blocks) \<union> {blocks' ! i'}"
    and "set blocks' \<subseteq> set blocks \<union> {blocks' ! i'}"
proof -
  obtain xs b ys where xs: "blocks = xs @ b # ys" "i = length xs"
    and c: "CollapseFreeBlock (length xs) (xs @ b\<lparr>b_state := FREE\<rparr> # ys) = (i', blocks')"
    using WaitForTokenAndFreeBlock_shape [OF assms] by metis
  show "set (take (Suc i') blocks') \<subseteq> set (take i blocks) \<union> {blocks' ! i'}"
    and "set blocks' \<subseteq> set blocks \<union> {blocks' ! i'}"
    by (rule CollapseFreeBlock_cases [of xs "b\<lparr>b_state := FREE\<rparr>" ys]; use c xs in auto)+
qed

lemma alloc_pending_loop_spec:
  "alloc_pending_loop wait sz blocks h i = Some (off, blocks', h') \<Longrightarrow> fa_inv tot blocks \<Longrightarrow>
   0 < unat sz \<Longrightarrow> \<forall>b \<in> set (take i blocks). b_state b \<noteq> FREE_PENDING_TOKEN \<Longrightarrow>
   \<forall>b \<in> set blocks. b_state b = FREE \<longrightarrow> unat (b_size b) < unat sz \<Longrightarrow>
   fa_inv tot blocks' \<and>
   (if unat sz \<le> max_run 0 blocks then adds_block sz off blocks blocks'
    else off = kInvalidOffset \<and> in_use_blocks blocks' = in_use_blocks blocks)"
proof (induction wait sz blocks h i arbitrary: off blocks' h' rule: alloc_pending_loop.induct)
  case (1 wait sz blocks h i)
  note unfold = alloc_pending_loop.simps [of wait sz blocks h i]
  consider (stop) "\<not> i < length blocks"
    | (skip) "i < length blocks" "b_state (blocks ! i) \<noteq> FREE_PENDING_TOKEN"
    | (pend) "i < length blocks" "b_state (blocks ! i) = FREE_PENDING_TOKEN" by blast
  then show ?case
  proof cases
    case stop
    with "1.prems" have "max_run 0 blocks < unat sz"
      by (intro max_run_free_only) (auto simp: fa_inv_def)
    with stop "1.prems" show ?thesis by (simp add: unfold)
  next
    case skip
    with "1.prems" have "\<forall>b \<in> set (take (Suc i) blocks). b_state b \<noteq> FREE_PENDING_TOKEN"
      by (auto simp: take_Suc_conv_app_nth)
    moreover from skip "1.prems"(1) have "alloc_pending_loop wait sz blocks h (Suc i) = Some (off, blocks', h')"
      by (simp add: unfold)
    ultimately show ?thesis using "1.IH"(1) [OF skip] "1.prems" by blast
  next
    case pend
    with "1.prems"(1) obtain i1 blocks1 h1 where
      w: "WaitForTokenAndFreeBlock wait i blocks h = Some (i1, blocks1, h1)"
      by (auto simp: unfold split: Option.bind_splits)
    note k = WaitForTokenAndFreeBlock_inv [OF "1.prems"(2) w]
    note m = max_run_WaitForTokenAndFreeBlock [OF "1.prems"(2) w]
    show ?thesis
    proof (cases "sz \<le> b_size (blocks1 ! i1)")
      case True
      with "1.prems"(1) pend w have a: "AllocInBlock i1 sz blocks1 = Some (off, blocks')"
        by (auto simp: unfold split: Option.bind_splits)
      have "unat sz \<le> max_run 0 blocks"
        using max_run_ge [of "blocks1 ! i1" blocks1 0] k(3,4) True m
        by (simp add: word_le_nat_alt)
      with AllocInBlock_inv [OF k(1) a "1.prems"(3)] k(2) show ?thesis
        by (simp add: adds_block_def)
    next
      case False
      with "1.prems"(1) pend w have l: "alloc_pending_loop wait sz blocks1 h1 (Suc i1) = Some (off, blocks', h')"
        by (simp add: unfold)
      have p: "\<forall>b \<in> set (take (Suc i1) blocks1). b_state b \<noteq> FREE_PENDING_TOKEN"
        "\<forall>b \<in> set blocks1. b_state b = FREE \<longrightarrow> unat (b_size b) < unat sz"
        using WaitForTokenAndFreeBlock_prefix [OF w] "1.prems"(4,5) k(4) False
        by (auto simp: word_le_nat_alt)
      from pend have np: "\<not> b_state (blocks ! i) \<noteq> FREE_PENDING_TOKEN" by simp
      have "fa_inv tot blocks' \<and> (if unat sz \<le> max_run 0 blocks1 then adds_block sz off blocks1 blocks'
          else off = kInvalidOffset \<and> in_use_blocks blocks' = in_use_blocks blocks1)"
        by (rule "1.IH"(2) [OF pend(1) np w refl refl False l k(1) "1.prems"(3) p])
      with k(2) m show ?thesis by (auto simp: adds_block_def)
    qed
  qed
qed

text \<open>The bytes of a block.\<close>

definition region :: "Block \<Rightarrow> nat set" where
  "region b = {unat (b_offset b) ..< unat (b_offset b) + unat (b_size b)}"

lemma in_use_sorted:
  "fa_inv tot blocks \<Longrightarrow>
     sorted_wrt (\<lambda>a b. unat (b_offset a) + unat (b_size a) \<le> unat (b_offset b)) (filter P blocks)"
  by (auto simp: fa_inv_def intro!: sorted_wrt_filter dest: blocks_cover_sorted)

lemma adds_block_disjoint:
  assumes inv: "fa_inv tot blocks'" and add: "adds_block sz off blocks blocks'"
    and b: "b \<in> set blocks" "b_state b = IN_USE"
  shows "region b \<inter> {unat off ..< unat off + unat sz} = {}"
proof -
  from add obtain us vs n where 1: "in_use_blocks blocks = us @ vs" "in_use_blocks blocks' = us @ n # vs"
    and n: "b_offset n = off" "b_size n = sz" by (auto simp: adds_block_def)
  from b have "b \<in> set (in_use_blocks blocks)" by simp
  then have "b \<in> set us \<union> set vs" using 1 by simp
  with in_use_sorted [OF inv, of "\<lambda>b. b_state b = IN_USE"] show ?thesis
    unfolding 1 by (auto simp: sorted_wrt_append region_def n)
qed

lemma adds_block_in_buffer:
  assumes inv: "fa_inv tot blocks'" and add: "adds_block sz off blocks blocks'"
  shows "unat off + unat sz \<le> unat tot"
proof -
  from add obtain us vs n where n: "in_use_blocks blocks' = us @ n # vs" "b_offset n = off" "b_size n = sz"
    by (auto simp: adds_block_def)
  then have "n \<in> set (in_use_blocks blocks')" by simp
  then have "n \<in> set blocks'" by (meson filter_is_subset subset_iff)
  with inv n show ?thesis
    by (auto simp: fa_inv_def dest: blocks_cover_offset_less)
qed

lemma kInvalidOffset_outside: "unat off + unat sz \<le> unat (tot :: u32) \<Longrightarrow> 0 < unat sz \<Longrightarrow> off \<noteq> kInvalidOffset"
  using u32_lt [of tot] by (auto simp: kInvalidOffset_def)

lemma max_1: "(if sz = 0 then 1 else sz) = max 1 (sz :: u32)"
  by (auto simp: max_def word_le_nat_alt u32_eq)

lemma Alloc_spec:
  assumes inv: "fa_inv tot blocks" and "Alloc wait sz blocks h = Some (off, blocks', h')"
  shows "fa_inv tot blocks'"
    and "if max 1 sz \<le> GetLargestFreeOrPendingSize blocks
         then off \<noteq> kInvalidOffset \<and> adds_block (max 1 sz) off blocks blocks'
         else off = kInvalidOffset \<and> in_use_blocks blocks' = in_use_blocks blocks"
proof -
  let ?sz = "max 1 sz"
  have pos: "0 < unat ?sz" by (auto simp: max_def word_le_nat_alt)
  have ge: "?sz \<le> GetLargestFreeOrPendingSize blocks \<longleftrightarrow> unat ?sz \<le> max_run 0 blocks"
    using GetLargestFreeOrPendingSize_nat [OF inv] by (simp add: word_le_nat_alt)
  have "fa_inv tot blocks' \<and> (if unat ?sz \<le> max_run 0 blocks then adds_block ?sz off blocks blocks'
      else off = kInvalidOffset \<and> in_use_blocks blocks' = in_use_blocks blocks)"
  proof (cases "alloc_find_free ?sz blocks 0")
    case (Some i)
    with assms(2) have a: "AllocInBlock i ?sz blocks = Some (off, blocks')"
      by (auto simp: Alloc_def max_1 split: Option.bind_splits)
    from alloc_find_free_Some [OF Some] have "unat ?sz \<le> max_run 0 blocks"
      using max_run_ge [of "blocks ! i" blocks 0] by (auto simp: word_le_nat_alt)
    with AllocInBlock_inv [OF inv a pos] show ?thesis by (simp add: adds_block_def)
  next
    case None
    with assms(2) have l: "alloc_pending_loop wait ?sz blocks h 0 = Some (off, blocks', h')"
      by (simp add: Alloc_def max_1)
    from alloc_find_free_None [OF None]
    have "\<forall>b \<in> set blocks. b_state b = FREE \<longrightarrow> unat (b_size b) < unat ?sz"
      by (auto simp: in_set_conv_nth word_le_nat_alt not_le)
    with alloc_pending_loop_spec [OF l inv pos] show ?thesis by simp
  qed
  with ge show "fa_inv tot blocks'" "if ?sz \<le> GetLargestFreeOrPendingSize blocks
         then off \<noteq> kInvalidOffset \<and> adds_block ?sz off blocks blocks'
         else off = kInvalidOffset \<and> in_use_blocks blocks' = in_use_blocks blocks"
    using adds_block_in_buffer [of tot blocks' ?sz off blocks] kInvalidOffset_outside [OF _ pos, of off tot]
    by (auto split: if_splits)
qed

lemma Alloc_total:
  assumes inv: "fa_inv tot blocks" and wait: "\<And>t h. wait t h \<noteq> None"
  shows "Alloc wait sz blocks h \<noteq> None"
proof (cases "alloc_find_free (max 1 sz) blocks 0")
  case (Some i)
  then obtain off blocks' where "AllocInBlock i (max 1 sz) blocks = Some (off, blocks')"
    using alloc_find_free_Some [OF Some] AllocInBlock_total by blast
  with Some show ?thesis by (simp add: Alloc_def max_1)
next
  case None
  with alloc_pending_loop_total [OF wait inv] show ?thesis by (simp add: Alloc_def max_1)
qed

lemma GetBlockByOffset_at:
  assumes "blocks_cover s (xs @ b # ys) t"
  shows "GetBlockByOffset (b_offset b) (xs @ b # ys) = Some (length xs)"
proof -
  have "sorted_wrt (\<lambda>a b. unat (b_offset a) + unat (b_size a) \<le> unat (b_offset b)) (xs @ b # ys)"
    using assms by (rule blocks_cover_sorted)
  moreover from assms have "\<forall>x \<in> set xs. 0 < unat (b_size x)"
    by (induction xs arbitrary: s) auto
  ultimately have "\<forall>x \<in> set xs. b_offset x < b_offset b"
    by (fastforce simp: sorted_wrt_append word_less_nat_alt)
  then have "lower_bound (\<lambda>x. b_offset x < b_offset b) (xs @ b # ys) = length xs"
    by (intro lower_bound_append) auto
  then show ?thesis by (simp add: GetBlockByOffset_def)
qed

lemma GetBlockByOffset_Some:
  "GetBlockByOffset off blocks = Some i \<Longrightarrow> i < length blocks \<and> b_offset (blocks ! i) = off"
  by (auto simp: GetBlockByOffset_def Let_def split: if_splits)

lemma Free_spec:
  assumes "fa_inv tot (xs @ b # ys)" and "b_state b \<noteq> FREE"
  obtains blocks' where "Free (b_offset b) (xs @ b # ys) = Some blocks'" and "fa_inv tot blocks'"
    and "in_use_blocks blocks' = in_use_blocks (xs @ ys)"
    and "pending_blocks blocks' = pending_blocks (xs @ ys)"
proof -
  have "GetBlockByOffset (b_offset b) (xs @ b # ys) = Some (length xs)"
    using assms(1) by (auto simp: fa_inv_def intro: GetBlockByOffset_at)
  then have "Free (b_offset b) (xs @ b # ys)
      = Some (snd (CollapseFreeBlock (length xs) (xs @ b\<lparr>b_state := FREE\<rparr> # ys)))"
    using assms(2) by (simp add: Free_def)
  with that free_block_inv [OF assms(1)] pending_CollapseFreeBlock show thesis by simp
qed

lemma FreePendingToken_spec:
  assumes "fa_inv tot (xs @ b # ys)"
  shows "FreePendingToken (b_offset b) t (xs @ b # ys)
       = Some (xs @ b\<lparr>b_state := FREE_PENDING_TOKEN, b_token := t\<rparr> # ys)"
    and "fa_inv tot (xs @ b\<lparr>b_state := FREE_PENDING_TOKEN, b_token := t\<rparr> # ys)"
proof -
  have "GetBlockByOffset (b_offset b) (xs @ b # ys) = Some (length xs)"
    using assms by (auto simp: fa_inv_def intro: GetBlockByOffset_at)
  then show "FreePendingToken (b_offset b) t (xs @ b # ys)
       = Some (xs @ b\<lparr>b_state := FREE_PENDING_TOKEN, b_token := t\<rparr> # ys)"
    by (simp add: FreePendingToken_def)
  show "fa_inv tot (xs @ b\<lparr>b_state := FREE_PENDING_TOKEN, b_token := t\<rparr> # ys)"
    using assms by (auto simp: fa_inv_def blocks_cover_append successively_append_iff successively_Cons)
qed

lemma free_unused_loop_spec:
  "fa_inv tot blocks \<Longrightarrow>
   \<forall>b \<in> set (take i blocks). b_state b = FREE_PENDING_TOKEN \<longrightarrow> lt < b_token b \<Longrightarrow>
   fa_inv tot (free_unused_loop lt blocks i) \<and>
   in_use_blocks (free_unused_loop lt blocks i) = in_use_blocks blocks \<and>
   pending_blocks (free_unused_loop lt blocks i) = filter (\<lambda>b. lt < b_token b) (pending_blocks blocks)"
proof (induction lt blocks i rule: free_unused_loop.induct)
  case (1 lt blocks i)
  note unfold = free_unused_loop.simps [of lt blocks i]
  consider (stop) "\<not> i < length blocks"
    | (skip) "i < length blocks" "\<not> (b_state (blocks ! i) = FREE_PENDING_TOKEN \<and> b_token (blocks ! i) \<le> lt)"
    | (free) "i < length blocks" "b_state (blocks ! i) = FREE_PENDING_TOKEN \<and> b_token (blocks ! i) \<le> lt"
    by blast
  then show ?case
  proof cases
    case stop
    with "1.prems" have "pending_blocks blocks = filter (\<lambda>b. lt < b_token b) (pending_blocks blocks)"
      by (auto simp: filter_filter intro: filter_cong)
    with stop "1.prems" show ?thesis by (simp add: unfold)
  next
    case skip
    with "1.prems" have "\<forall>b \<in> set (take (Suc i) blocks). b_state b = FREE_PENDING_TOKEN \<longrightarrow> lt < b_token b"
      by (auto simp: take_Suc_conv_app_nth)
    moreover have "free_unused_loop lt blocks i = free_unused_loop lt blocks (Suc i)"
      by (simp only: unfold if_P [OF skip(1)] if_not_P [OF skip(2)])
    ultimately show ?thesis using "1.IH"(2) [OF skip "1.prems"(1)] by simp
  next
    case free
    from nth_split [OF free(1)] obtain xs b ys where xs: "blocks = xs @ b # ys" "i = length xs" .
    obtain i1 blocks1 where c: "CollapseFreeBlock (length xs) (xs @ b\<lparr>b_state := FREE\<rparr> # ys) = (i1, blocks1)"
      by fastforce
    then have ci: "(i1, blocks1) = CollapseFreeBlock i (blocks[i := (blocks ! i)\<lparr>b_state := FREE\<rparr>])"
      using xs by simp
    have b: "b_state b = FREE_PENDING_TOKEN" "b_token b \<le> lt" using free xs by auto
    have eq: "free_unused_loop lt blocks i = free_unused_loop lt blocks1 i1"
      by (simp only: unfold if_P [OF free(1)] if_P [OF free(2)] ci [symmetric] Let_def case_prod_conv)
    have inv: "fa_inv tot blocks1" and use: "in_use_blocks blocks1 = in_use_blocks blocks"
      using free_block_inv [of tot xs b ys] "1.prems"(1) b xs c by auto
    have pend: "pending_blocks blocks1 = pending_blocks (xs @ ys)"
      using pending_CollapseFreeBlock [of "b\<lparr>b_state := FREE\<rparr>" xs ys] c by simp
    have "\<forall>z \<in> set (take i1 blocks1). b_state z = FREE_PENDING_TOKEN \<longrightarrow> lt < b_token z"
      by (rule CollapseFreeBlock_cases [of xs "b\<lparr>b_state := FREE\<rparr>" ys])
        (use "1.prems"(2) xs c in auto)
    from "1.IH"(1) [OF free ci refl inv this] show ?thesis
      unfolding eq using use pend b xs by simp
  qed
qed

lemma FreeUnused_spec:
  assumes "fa_inv tot blocks" and "FreeUnused last_token_read blocks h = (blocks', h')"
  shows "fa_inv tot blocks'" and "in_use_blocks blocks' = in_use_blocks blocks"
    and "pending_blocks blocks' = filter (\<lambda>b. fst (last_token_read h) < b_token b) (pending_blocks blocks)"
    and "h' = snd (last_token_read h)"
  using assms free_unused_loop_spec [OF assms(1), of 0 "fst (last_token_read h)"]
  by (auto simp: FreeUnused_def case_prod_beta)

text \<open>\<^verbatim>\<open>CheckConsistency\<close> accepts every state that satisfies the invariant.\<close>

lemma CheckConsistency_loop_complete:
  "blocks_cover s blocks t \<Longrightarrow> t < 4294967296 \<Longrightarrow> successively not_both_free blocks \<Longrightarrow>
     CheckConsistency_loop blocks"
proof (induction blocks arbitrary: s rule: CheckConsistency_loop.induct)
  case (1 a b bs)
  from "1.prems"(1) have a: "unat (b_offset a) = s" "0 < unat (b_size a)"
    and b: "unat (b_offset b) = s + unat (b_size a)"
    and rest: "blocks_cover (s + unat (b_size a)) (b # bs) t" by auto
  have "s + unat (b_size a) \<le> t" using blocks_cover_bytes [OF rest] by simp
  with "1.prems"(2) a have add: "unat (b_offset a + b_size a) = s + unat (b_size a)"
    by (simp add: u32_add)
  have 1: "\<not> b_offset b \<le> b_offset a" "\<not> b_offset b \<noteq> b_offset a + b_size a"
    using a b add by (auto simp: word_le_nat_alt u32_eq)
  moreover have 2: "\<not> (b_state a = FREE \<and> b_state b = FREE)" using "1.prems"(3) by auto
  ultimately show ?case using "1.IH" [OF 1 2 rest "1.prems"(2)] "1.prems"(3) by auto
qed auto

lemma fa_inv_CheckConsistency: "fa_inv tot blocks \<Longrightarrow> CheckConsistency blocks"
  unfolding CheckConsistency_def fa_inv_def
  by (auto intro!: CheckConsistency_loop_complete [OF _ u32_lt] simp: Suc_le_eq)

lemma blocks_cover_partition:
  "blocks_cover s blocks t \<Longrightarrow> s \<le> x \<Longrightarrow> x < t \<Longrightarrow> \<exists>!i. i < length blocks \<and> x \<in> region (blocks ! i)"
proof (induction blocks arbitrary: s)
  case (Cons b bs)
  then have b: "unat (b_offset b) = s" and rest: "blocks_cover (s + unat (b_size b)) bs t" by auto
  have out: "x \<notin> region (bs ! i)" if "x < s + unat (b_size b)" "i < length bs" for i
    using blocks_cover_offset_ge [OF rest, of "bs ! i"] that by (auto simp: region_def)
  show ?case
  proof (cases "x < s + unat (b_size b)")
    case True
    with b Cons.prems(2) out show ?thesis
      by (intro ex1I [of _ 0]) (auto simp: region_def less_Suc_eq_0_disj)
  next
    case False
    then have "\<exists>!i. i < length bs \<and> x \<in> region (bs ! i)"
      using Cons.IH [OF rest _ Cons.prems(3)] by simp
    then obtain i where i: "i < length bs \<and> x \<in> region (bs ! i)"
      and u: "\<forall>j. j < length bs \<and> x \<in> region (bs ! j) \<longrightarrow> j = i" by (rule ex1E)
    from False b have "x \<notin> region b" by (simp add: region_def)
    then have "j = Suc i" if "j < length (b # bs) \<and> x \<in> region ((b # bs) ! j)" for j
      using that u by (cases j) auto
    with i show ?thesis by (intro ex1I [of _ "Suc i"]) simp_all
  qed
qed simp

lemma fa_inv_partition:
  "fa_inv tot blocks \<Longrightarrow> \<forall>x < unat tot. \<exists>!i. i < length blocks \<and> x \<in> region (blocks ! i)"
  using blocks_cover_partition [of 0 blocks "unat tot"] by (simp add: fa_inv_def)

lemma fa_inv_all_free:
  assumes "fa_inv tot blocks" and "\<forall>b \<in> set blocks. b_state b = FREE"
  obtains b where "blocks = [b]" and "b_state b = FREE" and "b_offset b = 0" and "b_size b = tot"
proof (cases blocks)
  case Nil
  with assms show thesis by (simp add: fa_inv_def)
next
  case (Cons b bs)
  have free: "b_state x = FREE" if "x \<in> set blocks" for x using assms(2) that by blast
  have adj: "successively not_both_free blocks" and cover: "blocks_cover 0 blocks (unat tot)"
    using assms(1) by (simp_all add: fa_inv_def)
  have "bs = []"
  proof (rule ccontr)
    assume "bs \<noteq> []"
    then obtain c cs where bs: "bs = c # cs" by (cases bs) auto
    from adj have "not_both_free b c" unfolding Cons bs successively.simps by (rule conjunct1)
    moreover have "b_state b = FREE" "b_state c = FREE" by (rule free, simp add: Cons bs)+
    ultimately show False by blast
  qed
  with Cons cover have "unat (b_offset b) = 0" "unat (b_size b) = unat tot" by auto
  then have "b_offset b = 0" "b_size b = tot" by (simp_all only: u32_eq unat_0)
  with Cons \<open>bs = []\<close> that free [of b] show thesis by simp
qed

lemma InUse_iff: "fa_inv tot blocks \<Longrightarrow> InUse blocks \<longleftrightarrow> (\<exists>b \<in> set blocks. b_state b \<noteq> FREE)"
proof
  assume inv: "fa_inv tot blocks" and use: "InUse blocks"
  show "\<exists>b \<in> set blocks. b_state b \<noteq> FREE"
    by (rule ccontr) (use inv use in \<open>auto simp: InUse_def elim!: fa_inv_all_free\<close>)
next
  assume "fa_inv tot blocks" and "\<exists>b \<in> set blocks. b_state b \<noteq> FREE"
  then show "InUse blocks"
    by (cases blocks; cases "tl blocks") (auto simp: InUse_def fa_inv_def)
qed

lemma destroy_loop_spec:
  "destroy_loop wait blocks h i = Some (blocks', h') \<Longrightarrow> fa_inv tot blocks \<Longrightarrow>
   \<forall>b \<in> set (take i blocks). b_state b \<noteq> FREE_PENDING_TOKEN \<Longrightarrow>
   fa_inv tot blocks' \<and> in_use_blocks blocks' = in_use_blocks blocks \<and> pending_blocks blocks' = []"
proof (induction wait blocks h i arbitrary: blocks' h' rule: destroy_loop.induct)
  case (1 wait blocks h i)
  note unfold = destroy_loop.simps [of wait blocks h i]
  consider (stop) "\<not> i < length blocks"
    | (skip) "i < length blocks" "b_state (blocks ! i) \<noteq> FREE_PENDING_TOKEN"
    | (pend) "i < length blocks" "b_state (blocks ! i) = FREE_PENDING_TOKEN" by blast
  then show ?case
  proof cases
    case stop
    with "1.prems" show ?thesis by (auto simp: unfold filter_empty_conv)
  next
    case skip
    with "1.prems" have "\<forall>b \<in> set (take (Suc i) blocks). b_state b \<noteq> FREE_PENDING_TOKEN"
      by (auto simp: take_Suc_conv_app_nth)
    with skip "1.IH"(2) "1.prems" show ?thesis by (simp add: unfold)
  next
    case pend
    with "1.prems"(1) obtain i1 blocks1 h1 where
      w: "WaitForTokenAndFreeBlock wait i blocks h = Some (i1, blocks1, h1)"
      and l: "destroy_loop wait blocks1 h1 (Suc i1) = Some (blocks', h')"
      by (auto simp: unfold split: Option.bind_splits)
    note k = WaitForTokenAndFreeBlock_inv [OF "1.prems"(2) w]
    have "\<forall>b \<in> set (take (Suc i1) blocks1). b_state b \<noteq> FREE_PENDING_TOKEN"
      using WaitForTokenAndFreeBlock_prefix [OF w] "1.prems"(3) k(4) by auto
    with "1.IH"(1) [OF pend w refl refl l k(1)] k(2) show ?thesis by simp
  qed
qed

subsection \<open>Reachable states\<close>

text \<open>
  The states of an allocator for \<open>tot\<close> bytes, together with the state of its helper: any sequence
  of calls that do not abort, with the helper free to change between the calls.
\<close>

inductive fa_reachable ::
    "(int \<Rightarrow> 'h \<Rightarrow> 'h option) \<Rightarrow> ('h \<Rightarrow> int \<times> 'h) \<Rightarrow> u32 \<Rightarrow> Block list \<Rightarrow> 'h \<Rightarrow> bool"
  for wait last_token_read tot where
  init: "0 < tot \<Longrightarrow> fa_reachable wait last_token_read tot (FencedAllocator tot) h"
| alloc: "fa_reachable wait last_token_read tot blocks h \<Longrightarrow>
    Alloc wait sz blocks h = Some (off, blocks', h') \<Longrightarrow> fa_reachable wait last_token_read tot blocks' h'"
| free: "fa_reachable wait last_token_read tot blocks h \<Longrightarrow> Free off blocks = Some blocks' \<Longrightarrow>
    fa_reachable wait last_token_read tot blocks' h"
| free_pending: "fa_reachable wait last_token_read tot blocks h \<Longrightarrow>
    FreePendingToken off t blocks = Some blocks' \<Longrightarrow> fa_reachable wait last_token_read tot blocks' h"
| free_unused: "fa_reachable wait last_token_read tot blocks h \<Longrightarrow>
    FreeUnused last_token_read blocks h = (blocks', h') \<Longrightarrow> fa_reachable wait last_token_read tot blocks' h'"
| helper: "fa_reachable wait last_token_read tot blocks h \<Longrightarrow> fa_reachable wait last_token_read tot blocks h'"

lemma Free_inv: "fa_inv tot blocks \<Longrightarrow> Free off blocks = Some blocks' \<Longrightarrow> fa_inv tot blocks'"
proof -
  assume inv: "fa_inv tot blocks" and f: "Free off blocks = Some blocks'"
  then obtain i where i: "GetBlockByOffset off blocks = Some i"
    by (auto simp: Free_def split: Option.bind_splits)
  then obtain xs b ys where xs: "blocks = xs @ b # ys" "i = length xs"
    using nth_split GetBlockByOffset_Some by blast
  with f i have "b_state b \<noteq> FREE" "off = b_offset b"
    by (auto simp: Free_def dest: GetBlockByOffset_Some split: if_splits)
  with inv f xs show ?thesis by (auto elim: Free_spec)
qed

lemma FreePendingToken_inv:
  "fa_inv tot blocks \<Longrightarrow> FreePendingToken off t blocks = Some blocks' \<Longrightarrow> fa_inv tot blocks'"
proof -
  assume inv: "fa_inv tot blocks" and f: "FreePendingToken off t blocks = Some blocks'"
  then obtain i where i: "GetBlockByOffset off blocks = Some i"
    by (auto simp: FreePendingToken_def split: Option.bind_splits)
  then obtain xs b ys where xs: "blocks = xs @ b # ys" "i = length xs"
    using nth_split GetBlockByOffset_Some by blast
  with i have "off = b_offset b" by (auto dest: GetBlockByOffset_Some)
  with inv f xs FreePendingToken_spec [of tot xs b ys t] show ?thesis by simp
qed

lemma FencedAllocator_inv: "0 < tot \<Longrightarrow> fa_inv tot (FencedAllocator tot)"
  by (simp add: fa_inv_def FencedAllocator_def u32_pos)

lemmas fa_op_invs [inv_intros] =
  FencedAllocator_inv Alloc_spec(1) Free_inv FreePendingToken_inv FreeUnused_spec(1)

lemma fa_reachable_inv: "fa_reachable wait last_token_read tot blocks h \<Longrightarrow> fa_inv tot blocks"
  by (induction rule: fa_reachable.induct) (blast intro: inv_intros)+

subsection \<open>The fencing contract\<close>

text \<open>
  A pending block of the state before is, in the state after, still pending or its token satisfies
  \<open>Q\<close> (that it has passed).
\<close>

definition fenced :: "(int \<Rightarrow> bool) \<Rightarrow> Block list \<Rightarrow> Block list \<Rightarrow> bool" where
  "fenced Q blocks blocks' \<longleftrightarrow>
     (\<forall>p \<in> set (pending_blocks blocks). p \<in> set (pending_blocks blocks') \<or> Q (b_token p))"

lemma fenced_trans:
  "fenced P blocks blocks1 \<Longrightarrow> fenced Q blocks1 blocks2 \<Longrightarrow> (\<And>t. P t \<Longrightarrow> Q t) \<Longrightarrow> fenced Q blocks blocks2"
  unfolding fenced_def by blast

lemma AllocInBlock_fenced: "AllocInBlock i sz blocks = Some (off, blocks') \<Longrightarrow> fenced Q blocks blocks'"
proof -
  assume a: "AllocInBlock i sz blocks = Some (off, blocks')"
  from a have i: "i < length blocks" by (auto simp: AllocInBlock_def split: if_splits)
  from nth_split [OF i] obtain xs b ys where xs: "blocks = xs @ b # ys" "i = length xs" .
  with a show ?thesis by (auto simp: fenced_def AllocInBlock_def Let_def split: if_splits)
qed

lemma WaitForTokenAndFreeBlock_fenced:
  assumes "WaitForTokenAndFreeBlock wait i blocks h = Some (i', blocks', h')"
    and "\<And>t. wait t h = Some h' \<Longrightarrow> Q t"
  shows "fenced Q blocks blocks'"
proof -
  obtain xs b ys where xs: "blocks = xs @ b # ys" and w: "wait (b_token b) h = Some h'"
    and c: "CollapseFreeBlock (length xs) (xs @ b\<lparr>b_state := FREE\<rparr> # ys) = (i', blocks')"
    using WaitForTokenAndFreeBlock_shape [OF assms(1)] by metis
  have "pending_blocks blocks' = pending_blocks (xs @ ys)"
    using pending_CollapseFreeBlock [of "b\<lparr>b_state := FREE\<rparr>" xs ys] c by simp
  with xs assms(2) [OF w] show ?thesis by (auto simp: fenced_def split: if_splits)
qed

lemma alloc_pending_loop_fenced:
  "alloc_pending_loop wait sz blocks h i = Some (off, blocks', h') \<Longrightarrow>
   \<forall>t h h'. I h \<longrightarrow> wait t h = Some h' \<longrightarrow> I h' \<and> passed t h' \<Longrightarrow>
   \<forall>t t' h h'. I h \<longrightarrow> passed t h \<longrightarrow> wait t' h = Some h' \<longrightarrow> passed t h' \<Longrightarrow> I h \<Longrightarrow>
   fenced (\<lambda>t. passed t h') blocks blocks' \<and> (\<forall>t. passed t h \<longrightarrow> passed t h')"
proof (induction wait sz blocks h i arbitrary: off blocks' h' rule: alloc_pending_loop.induct)
  case (1 wait sz blocks h i)
  note unfold = alloc_pending_loop.simps [of wait sz blocks h i]
  consider (stop) "\<not> i < length blocks"
    | (skip) "i < length blocks" "b_state (blocks ! i) \<noteq> FREE_PENDING_TOKEN"
    | (pend) "i < length blocks" "b_state (blocks ! i) = FREE_PENDING_TOKEN" by blast
  then show ?case
  proof cases
    case stop
    with "1.prems"(1) show ?thesis by (auto simp: unfold fenced_def)
  next
    case skip
    with "1.prems"(1) have "alloc_pending_loop wait sz blocks h (Suc i) = Some (off, blocks', h')"
      by (simp add: unfold)
    from "1.IH"(1) [OF skip this "1.prems"(2-4)] show ?thesis .
  next
    case pend
    with "1.prems"(1) obtain i1 blocks1 h1 where
      w: "WaitForTokenAndFreeBlock wait i blocks h = Some (i1, blocks1, h1)"
      by (auto simp: unfold split: Option.bind_splits)
    from w "1.prems"(3,4) have mono: "\<And>t. passed t h \<Longrightarrow> passed t h1"
      by (elim WaitForTokenAndFreeBlock_shape) blast
    from w "1.prems"(2,4) have inv1: "I h1" by (elim WaitForTokenAndFreeBlock_shape) blast
    have f: "fenced (\<lambda>t. passed t h1) blocks blocks1"
      by (rule WaitForTokenAndFreeBlock_fenced [OF w]) (use "1.prems"(2,4) in blast)
    show ?thesis
    proof (cases "sz \<le> b_size (blocks1 ! i1)")
      case True
      with "1.prems"(1) pend w have "AllocInBlock i1 sz blocks1 = Some (off, blocks')" and "h' = h1"
        by (auto simp: unfold split: Option.bind_splits)
      then have "fenced (\<lambda>t. passed t h1) blocks1 blocks'" and "h' = h1"
        by (simp_all add: AllocInBlock_fenced)
      with fenced_trans [OF f] mono show ?thesis by blast
    next
      case False
      with "1.prems"(1) pend w have l: "alloc_pending_loop wait sz blocks1 h1 (Suc i1) = Some (off, blocks', h')"
        by (simp add: unfold)
      from pend have np: "\<not> b_state (blocks ! i) \<noteq> FREE_PENDING_TOKEN" by simp
      from "1.IH"(2) [OF pend(1) np w refl refl False l "1.prems"(2,3) inv1] fenced_trans [OF f] mono
      show ?thesis by blast
    qed
  qed
qed

text \<open>Under the laws of the helper, memory freed pending a token stays pending until it passed.\<close>

context token_fence
begin

lemma Alloc_fenced:
  assumes "Alloc wait sz blocks h = Some (off, blocks', h')" and inv: "inv h"
  shows "fenced (\<lambda>t. passed t h') blocks blocks'"
proof (cases "alloc_find_free (max 1 sz) blocks 0")
  case (Some i)
  with assms(1) AllocInBlock_fenced show ?thesis
    by (auto simp: Alloc_def max_1 split: Option.bind_splits)
next
  case None
  with assms(1) have "alloc_pending_loop wait (max 1 sz) blocks h 0 = Some (off, blocks', h')"
    by (simp add: Alloc_def max_1)
  then show ?thesis
    using alloc_pending_loop_fenced [of wait "max 1 sz" blocks h 0 off blocks' h' inv passed]
      wait_inv wait_passed wait_mono inv by blast
qed

lemma FreeUnused_fenced:
  assumes "fa_inv tot blocks" and "FreeUnused last_token_read blocks h = (blocks', h')" and inv: "inv h"
  shows "fenced (\<lambda>t. passed t h') blocks blocks'"
proof -
  have "set (pending_blocks blocks') = {p \<in> set (pending_blocks blocks). fst (last_token_read h) < b_token p}"
    unfolding FreeUnused_spec(3) [OF assms(1,2)] by auto
  moreover have "\<And>t. t \<le> fst (last_token_read h) \<Longrightarrow> passed t h'"
    using read_passed [OF inv, of _ h'] FreeUnused_spec(4) [OF assms(1,2)] by (metis prod.collapse)
  ultimately show ?thesis by (auto simp: fenced_def not_less)
qed

end

subsection \<open>The wrapper with pointers\<close>

text \<open>\<^verbatim>\<open>FencedAllocatorWrapper\<close>: the same allocator with addresses relative to \<^verbatim>\<open>base_\<close>.\<close>

record FencedAllocatorWrapper =
  w_allocator :: "Block list"
  w_base :: ptr

definition GetPointer :: "FencedAllocatorWrapper \<Rightarrow> u32 \<Rightarrow> ptr" where
  "GetPointer w offset = (if offset = kInvalidOffset then NULL else w_base w + offset)"

definition GetOffset :: "FencedAllocatorWrapper \<Rightarrow> ptr \<Rightarrow> u32" where
  "GetOffset w p = (if p \<noteq> NULL then p - w_base w else kInvalidOffset)"

definition Wrapper_Alloc ::
    "(int \<Rightarrow> 'h \<Rightarrow> 'h option) \<Rightarrow> u32 \<Rightarrow> FencedAllocatorWrapper \<Rightarrow> 'h \<Rightarrow>
     (ptr \<times> FencedAllocatorWrapper \<times> 'h) option" where
  "Wrapper_Alloc wait sz w h = do {
     (offset, blocks, h') \<leftarrow> Alloc wait sz (w_allocator w) h;
     let w' = w\<lparr>w_allocator := blocks\<rparr>;
     Some (GetPointer w' offset, w', h')
   }"

definition Wrapper_Free :: "ptr \<Rightarrow> FencedAllocatorWrapper \<Rightarrow> FencedAllocatorWrapper option" where
  "Wrapper_Free p w =
     (if p \<noteq> NULL
      then do {
        blocks \<leftarrow> Free (GetOffset w p) (w_allocator w);
        Some (w\<lparr>w_allocator := blocks\<rparr>)
      }
      else None)"

definition Wrapper_FreePendingToken ::
    "ptr \<Rightarrow> int \<Rightarrow> FencedAllocatorWrapper \<Rightarrow> FencedAllocatorWrapper option" where
  "Wrapper_FreePendingToken p token w =
     (if p \<noteq> NULL
      then do {
        blocks \<leftarrow> FreePendingToken (GetOffset w p) token (w_allocator w);
        Some (w\<lparr>w_allocator := blocks\<rparr>)
      }
      else None)"

definition Wrapper_FreeUnused ::
    "('h \<Rightarrow> int \<times> 'h) \<Rightarrow> FencedAllocatorWrapper \<Rightarrow> 'h \<Rightarrow> FencedAllocatorWrapper \<times> 'h" where
  "Wrapper_FreeUnused last_token_read w h =
     (let (blocks, h') = FreeUnused last_token_read (w_allocator w) h
      in (w\<lparr>w_allocator := blocks\<rparr>, h'))"

lemma GetOffset_GetPointer:
  assumes "w_base w \<noteq> NULL" and "unat (w_base w) + unat off < 4294967296" and "off \<noteq> kInvalidOffset"
  shows "GetPointer w off \<noteq> NULL" and "GetOffset w (GetPointer w off) = off"
proof -
  have "unat (w_base w + off) = unat (w_base w) + unat off" using assms(2) by (rule u32_add)
  moreover have "0 < unat (w_base w)" using assms(1) by (simp add: u32_pos [symmetric] word_neq_0_conv)
  ultimately show "GetPointer w off \<noteq> NULL"
    using assms(3) by (auto simp: GetPointer_def)
  then show "GetOffset w (GetPointer w off) = off"
    using assms(3) by (simp add: GetOffset_def GetPointer_def)
qed

end
