(* ===== verification/Client_Service.thy ===== *)
theory Client_Service
  imports Service_Stream Cmd_Buffer_Helper Ring_Buffer Fenced_Allocator
begin

text \<open>
  The client on the service in one process: the callbacks of \<^verbatim>\<open>CommandBufferService\<close> are bound to the
  scheduler the way \<^verbatim>\<open>gpu/demos/framework/window.cc\<close> binds them, and the helper calls the service
  through the interface \<^verbatim>\<open>CommandBuffer\<close>. The service keeps the contract \<open>command_buffer\<close> of the
  helper, and the helper on it the contract \<open>token_fence\<close> of the allocators.
\<close>

subsection \<open>The connection\<close>

definition service_sched_env :: "'a GpuScheduler_scheme sched_env \<Rightarrow> 'a GpuScheduler_scheme sched_env" where
  "service_sched_env e = e\<lparr>env_DoCommand := DoCommonCommand sched_engine, env_parse_error := None\<rparr>"

definition service_cb ::
    "'a GpuScheduler_scheme sched_env \<Rightarrow>
     (u32 \<Rightarrow> 'a GpuScheduler_scheme \<Rightarrow> (obj \<times> 'a GpuScheduler_scheme) option) \<Rightarrow>
     (obj \<Rightarrow> u32 \<Rightarrow> 'a GpuScheduler_scheme \<Rightarrow> (obj \<times> 'a GpuScheduler_scheme) option) \<Rightarrow>
     ('a GpuScheduler_scheme \<Rightarrow> int) \<Rightarrow> bool \<Rightarrow> 'a GpuScheduler_scheme client_env" where
  "service_cb e create_anonymous map_shm clock android =
     \<lparr>cb_GetState = GetState, cb_GetLastState = GetLastState,
      cb_Flush = Flush (Some (PutChanged (service_sched_env e))),
      cb_FlushSync = FlushSync (Some (PutChanged (service_sched_env e))),
      cb_SetGetBuffer = SetGetBuffer (Some sched_SetGetBuffer),
      cb_CreateTransferBuffer = CreateTransferBuffer create_anonymous map_shm,
      cb_DestroyTransferBuffer = DestroyTransferBuffer,
      cb_GetTransferBuffer = (\<lambda>i w. (GetTransferBuffer i w, w)),
      env_clock = clock, env_OS_ANDROID = android\<rparr>"

lemma service_env_sched [simp]: "service_env (service_sched_env e)"
  by (simp add: service_env_def service_sched_env_def run_closure_def)

subsection \<open>The service keeps the helper's contract\<close>

lemma Flush_PutChanged:
  assumes "ring_world n ob w" and "p \<le> n"
  shows "Flush (Some f) (int p) w = f (w\<lparr>cs_put_offset := int p\<rparr>)"
    and "FlushSync (Some f) (int p) last_get w = map_option GetState (f (w\<lparr>cs_put_offset := int p\<rparr>))"
  using assms by (simp_all add: ring_world_def Flush_def FlushSync_def run_closure_def)

lemma GetState_world:
  assumes "GetState w = (s, w')"
  shows "st_get_offset s = cs_get_offset w" and "st_token s = cs_token w" and "st_error s = cs_error w"
    and "w' = w\<lparr>cs_generation := cs_generation w + 1\<rparr>"
  using assms by (auto simp: GetState_def Let_def)

text \<open>The states of the service with the transfer buffers \<open>bufs\<close>, which executing commands does not change.\<close>

definition service_world :: "Buffer list \<times> int \<Rightarrow> nat \<Rightarrow> obj \<Rightarrow> 'a GpuScheduler_scheme \<Rightarrow> bool" where
  "service_world bufs n ob w \<longleftrightarrow> ring_world n ob w \<and> buffers_of w = bufs"

lemma PutChanged_consumes:
  assumes rw: "service_world bufs n ob w" and e: "cs_error w = kNoError" and p: "p \<le> n"
    and pend: "pending (mem w) ob n (nat (cs_get_offset w)) p cs"
  shows "\<exists>w' cs2. PutChanged (service_sched_env env) (w\<lparr>cs_put_offset := int p\<rparr>) = Some w' \<and>
    consumes (service_world bufs) cs_get_offset cs_token n ob cs cs2 w w' \<and> (cs_error w' = kNoError \<longrightarrow> cs2 = [])"
proof -
  from PutChanged_pending [OF service_env_sched p, of ob "w\<lparr>cs_put_offset := int p\<rparr>" cs env] rw e pend
  obtain cs1 cs2 w' where "PutChanged (service_sched_env env) (w\<lparr>cs_put_offset := int p\<rparr>) = Some w'"
    "cs = cs1 @ cs2" "ring_world n ob w'" "mem w' = mem w" "buffers_of w' = bufs"
    "cs_token w' = token_after (cs_token w) cs1"
    "cs_get_offset w' = int (walk (nat (cs_get_offset w)) cs1)" "cs_error w' = kNoError \<longrightarrow> cs2 = []"
    by (auto simp: service_world_def)
  then show ?thesis unfolding consumes_def service_world_def by (intro exI [of _ w'] exI [of _ cs2]) auto
qed

lemma GetState_consumes:
  assumes "GetState w1 = (s, w')"
  shows "consumes (service_world bufs) cs_get_offset cs_token n ob cs cs2 w w' =
    consumes (service_world bufs) cs_get_offset cs_token n ob cs cs2 w w1"
  using GetState_world(4) [OF assms] by (simp add: consumes_def service_world_def)

lemma ring_world_write:
  assumes "ring_world n ob w" and "\<And>b. length (m b) = length (mem w b)"
  shows "ring_world n ob (w\<lparr>mem := m\<rparr>)"
proof -
  have "buffer_ok m b" if "buffer_ok (mem w) b" for b
    using that assms(2) by (simp add: buffer_ok_def split: option.splits)
  with assms show ?thesis by (auto simp: world_defs split: option.splits)
qed

interpretation svc: command_buffer "service_cb e create_anonymous map_shm clock android" "service_world bufs"
  cs_get_offset cs_token "\<lambda>w. cs_error w = kNoError"
proof unfold_locales
  let ?cb = "service_cb e create_anonymous map_shm clock android"
  fix n ob and w w' :: "'a GpuScheduler_scheme" and s p cs last_get put
  assume sw: "service_world bufs n ob w"
  then have rw: "ring_world n ob w" by (simp add: service_world_def)
  show "0 \<le> cs_get_offset w" using rw ring_worldD(1) [OF rw] by (simp add: ring_world_def)
  show "4 * (n + 2) \<le> length (mem w ob)" by (rule ring_worldD(6) [OF rw])
  show "st_get_offset s = cs_get_offset w \<and> st_token s = cs_token w \<and> service_world bufs n ob w' \<and> mem w' = mem w \<and>
      cs_get_offset w' = cs_get_offset w \<and> cs_token w' = cs_token w \<and> (cs_error w' = kNoError) = (cs_error w = kNoError)"
    if "cb_GetLastState ?cb w = (s, w')"
    using GetState_world [of w s w'] that sw by (simp add: service_cb_def GetLastState_def service_world_def)
  show "service_world bufs n ob (w\<lparr>mem := m\<rparr>) \<and> cs_get_offset (w\<lparr>mem := m\<rparr>) = cs_get_offset w \<and>
      cs_token (w\<lparr>mem := m\<rparr>) = cs_token w \<and> (cs_error (w\<lparr>mem := m\<rparr>) = kNoError) = (cs_error w = kNoError)"
    if "\<And>b. length (m b) = length (mem w b)" for m
    using ring_world_write [OF rw that] sw by (simp add: service_world_def)
  show "\<exists>w' cs2. cb_Flush ?cb (int p) w = Some w' \<and> consumes (service_world bufs) cs_get_offset cs_token n ob cs cs2 w w'"
    if "cs_error w = kNoError" "p \<le> n" "pending (mem w) ob n (nat (cs_get_offset w)) p cs"
    using PutChanged_consumes [OF sw that, of e] Flush_PutChanged(1) [OF rw that(2)] by (auto simp: service_cb_def)
  show "\<exists>s w' cs2. cb_FlushSync ?cb (int p) last_get w = Some (s, w') \<and>
      consumes (service_world bufs) cs_get_offset cs_token n ob cs cs2 w w' \<and> (st_error s = kNoError \<longleftrightarrow> cs_error w' = kNoError) \<and>
      (cs_error w' = kNoError \<and> cs \<noteq> [] \<longrightarrow> cs2 \<noteq> cs)"
    if "cs_error w = kNoError" "p \<le> n" "pending (mem w) ob n (nat (cs_get_offset w)) p cs"
  proof -
    from PutChanged_consumes [OF sw that] obtain w1 cs2 where
      w1: "PutChanged (service_sched_env e) (w\<lparr>cs_put_offset := int p\<rparr>) = Some w1"
      "consumes (service_world bufs) cs_get_offset cs_token n ob cs cs2 w w1" "cs_error w1 = kNoError \<longrightarrow> cs2 = []" by blast
    obtain s w' where s: "GetState w1 = (s, w')" by fastforce
    with w1 GetState_world [OF s] GetState_consumes [OF s] Flush_PutChanged(2) [OF rw that(2)] show ?thesis
      by (intro exI [of _ s] exI [of _ w'] exI [of _ cs2]) (auto simp: service_cb_def)
  qed
  show "\<exists>s w'. cb_FlushSync ?cb put last_get w = Some (s, w') \<and> service_world bufs n ob w' \<and> \<not> cs_error w' = kNoError \<and>
      st_error s \<noteq> kNoError" if "\<not> cs_error w = kNoError"
    using sw that PutChanged_error [of n ob "w\<lparr>cs_put_offset := put\<rparr>"]
    by (auto simp: service_cb_def FlushSync_def run_closure_def GetState_def Let_def service_world_def)
  show "\<exists>w'. cb_Flush ?cb put w = Some w' \<and> service_world bufs n ob w' \<and> \<not> cs_error w' = kNoError" if "\<not> cs_error w = kNoError"
    using sw that PutChanged_error [of n ob "w\<lparr>cs_put_offset := put\<rparr>"]
    by (auto simp: service_cb_def Flush_def run_closure_def service_world_def)
qed

subsection \<open>Starting\<close>

text \<open>
  What is relied on of the operating system: a new shared memory object is none of the registered
  ones, and creating it changes nothing else.
\<close>

definition create_ok :: "(u32 \<Rightarrow> 'a CommandBufferService_scheme \<Rightarrow> (obj \<times> 'a CommandBufferService_scheme) option) \<Rightarrow> bool" where
  "create_ok create_anonymous \<longleftrightarrow> (\<forall>sz w sm w'. create_anonymous sz w = Some (sm, w') \<longrightarrow>
     Some sm \<notin> buf_shared_memory ` set (cs_registered_objects w) \<and> (\<exists>bytes. w' = w\<lparr>mem := (mem w)(sm := bytes)\<rparr>))"

text \<open>A service on which nothing has run yet, and which is not paused.\<close>

definition idle_service :: "'a GpuScheduler_scheme \<Rightarrow> bool" where
  "idle_service w \<longleftrightarrow> svc_inv w \<and> dec_inv w \<and> gs_unschedule_fences w = [] \<and> gs_unscheduled_count w = 0 \<and>
     gs_command_processed_callback w = None \<and> cs_error w = kNoError \<and> cs_token w = 0 \<and>
     length (cs_registered_objects w) < 2147483648"

lemma RegisterTransferBuffer_pos:
  assumes inv: "svc_inv w" and len: "length (cs_registered_objects w) < 2147483648" and ok: "map_shm_ok map_shm"
    and r: "RegisterTransferBuffer map_shm sm sz (-1) w = (h, w')" and "h \<noteq> -1"
  shows "0 < h \<and> nat h \<le> length (cs_registered_objects w)"
proof (cases "map_shm sm sz w")
  case None
  with r assms(5) show ?thesis by (auto simp: RegisterTransferBuffer_def split: if_splits)
next
  case (Some x)
  obtain ob w1 where x: "x = (ob, w1)" by fastforce
  from map_shm_okE [OF ok Some [unfolded x]] obtain bytes where "w1 = w\<lparr>mem := (mem w)(ob := bytes)\<rparr>" .
  then have same: "cs_registered_objects w1 = cs_registered_objects w" "cs_unused_elements w1 = cs_unused_elements w" by simp_all
  have t: "free_list (cs_registered_objects w) (cs_unused_elements w)" using inv by (simp add: svc_inv_def table_ok_def)
  then have "0 < length (cs_registered_objects w)" by (simp add: free_list_def)
  moreover have "int32 (int (length (cs_registered_objects w))) = int (length (cs_registered_objects w))"
    using len by (intro int32_id) simp_all
  moreover have "0 < i \<and> nat i \<le> length (cs_registered_objects w)" if "i \<in> set (cs_unused_elements w)" for i
    using t that by (auto simp: free_list_def)
  moreover have "h = (case cs_unused_elements w of [] \<Rightarrow> int32 (int (length (cs_registered_objects w))) | handle # _ \<Rightarrow> handle)"
    using r len unfolding RegisterTransferBuffer_def Some x by (cases "cs_unused_elements w") (simp_all add: same Let_def)
  ultimately show ?thesis by (cases "cs_unused_elements w") simp_all
qed

lemma CreateTransferBuffer_idle:
  assumes i: "idle_service w" and ok: "create_ok create" "map_shm_ok map_shm"
    and c: "CreateTransferBuffer create map_shm sz (-1) w = (h, w')"
  shows "svc_inv w' \<and> dec_inv w' \<and> gs_unschedule_fences w' = [] \<and> gs_unscheduled_count w' = 0 \<and>
     gs_command_processed_callback w' = None \<and> cs_error w' = kNoError \<and> cs_token w' = 0 \<and>
     (h = -1 \<or> 0 < h \<and> (\<exists>ob. GetTransferBuffer h w' = \<lparr>buf_ptr = Some ob, buf_size = sz, buf_shared_memory = Some ob\<rparr> \<and>
        unat sz \<le> length (mem w' ob)))"
proof (cases "create sz w")
  case None
  with c i show ?thesis by (simp add: CreateTransferBuffer_def idle_service_def)
next
  case (Some r)
  obtain sm w1 where r: "r = (sm, w1)" by fastforce
  with Some ok(1) obtain bytes where f: "Some sm \<notin> buf_shared_memory ` set (cs_registered_objects w)"
    and w1: "w1 = w\<lparr>mem := (mem w)(sm := bytes)\<rparr>" unfolding create_ok_def by blast
  let ?w2 = "w1\<lparr>cs_shared_memory_bytes_allocated := cs_shared_memory_bytes_allocated w1 + sz\<rparr>"
  have inv: "svc_inv ?w2" "length (cs_registered_objects ?w2) < 2147483648"
    using i svc_inv_map [OF _ f, of bytes] by (simp_all add: svc_inv_def idle_service_def w1)
  have reg: "RegisterTransferBuffer map_shm sm sz (-1) ?w2 = (h, w')"
    using c Some r by (simp add: CreateTransferBuffer_def)
  have "svc_inv w'" by (rule RegisterTransferBuffer_inv [OF inv ok(2) reg])
  moreover have "dec_inv w' \<and> gs_unschedule_fences w' = [] \<and> gs_unscheduled_count w' = 0 \<and>
     gs_command_processed_callback w' = None \<and> cs_error w' = kNoError \<and> cs_token w' = 0 \<and> (h = -1 \<or> 0 < h)"
    using inv ok(2) reg
  proof (cases rule: RegisterTransferBuffer_cases)
    case fail
    with i show ?thesis by (simp add: w1 idle_service_def dec_inv_def)
  next
    case (yes ob bytes objects' unused')
    with i RegisterTransferBuffer_pos [OF inv ok(2) reg] show ?thesis by (auto simp: w1 idle_service_def dec_inv_def)
  qed
  ultimately show ?thesis using RegisterTransferBuffer_spec [OF inv ok(2) reg] by (auto split: if_splits)
qed

lemma sched_SetGetBuffer_frame:
  assumes "sched_SetGetBuffer i w = Some (b, w')" and "cs_get_offset w = 0"
  shows "buckets w' = buckets w \<and> call_stack w' = call_stack w \<and> mem w' = mem w \<and>
    gs_unschedule_fences w' = gs_unschedule_fences w \<and> gs_unscheduled_count w' = gs_unscheduled_count w \<and>
    gs_command_processed_callback w' = gs_command_processed_callback w \<and> cs_error w' = cs_error w \<and>
    cs_token w' = cs_token w \<and> cs_num_entries w' = cs_num_entries w \<and> cs_put_offset w' = cs_put_offset w \<and> cs_get_offset w' = 0 \<and>
    cs_registered_objects w' = cs_registered_objects w \<and> cs_ring_buffer_id w' = cs_ring_buffer_id w"
  using assms
  by (auto simp: sched_SetGetBuffer_def Let_def sched_SetGetOffset_cases SetBuffer_def parser_init_def
      split: option.splits if_splits)

lemma SetGetBuffer_world:
  assumes inv: "svc_inv w" "dec_inv w" and gs: "gs_unschedule_fences w = []" "gs_unscheduled_count w = 0"
      "gs_command_processed_callback w = None"
    and b: "GetTransferBuffer i w = \<lparr>buf_ptr = Some ob, buf_size = sz, buf_shared_memory = sm\<rparr>"
    and n: "unat sz div 4 = n + 2"
  shows "\<exists>w'. SetGetBuffer (Some sched_SetGetBuffer) i w = Some w' \<and> ring_world n ob w' \<and> cs_error w' = cs_error w \<and>
    cs_token w' = cs_token w \<and> cs_get_offset w' = 0 \<and> cs_put_offset w' = 0 \<and> cs_num_entries w' = int n + 2 \<and>
    cs_registered_objects w' = cs_registered_objects w \<and> cs_ring_buffer_id w' = i"
proof -
  let ?w = "cs_SetGetOffset 0 (w\<lparr>cs_ring_buffer := GetTransferBuffer i w, cs_ring_buffer_id := i,
     cs_num_entries := int n + 2, cs_put_offset := 0\<rparr>)"
  have "unat (sz div 4) = n + 2" "unat (sz div 4) < 2147483648" using n u32_lt [of sz] by (simp_all add: unat_div)
  then have k: "sint (sz div 4) = int n + 2" by (simp add: u32_sint)
  have i: "svc_inv ?w" using inv(1) by (simp add: svc_inv_def cs_SetGetOffset_def)
  have "GetTransferBuffer i ?w = \<lparr>buf_ptr = Some ob, buf_size = sz, buf_shared_memory = sm\<rparr>"
    using b by (auto simp: GetTransferBuffer_lookup cs_SetGetOffset_def)
  from sched_SetGetBuffer_spec [OF i this] n obtain w' where s: "sched_SetGetBuffer i ?w = Some (True, w')" "sched_inv w'"
    "cp_buffer w' = Some (ob, 0)" "cp_entry_count w' = int (n + 2)" "cp_get w' = 0" "cp_put w' = 0" by auto
  have "cs_get_offset ?w = 0" by (simp add: cs_SetGetOffset_def)
  note f = sched_SetGetBuffer_frame [OF s(1) this]
  have "ring_world n ob w'"
    using f s inv(2) gs by (simp add: ring_world_def cs_SetGetOffset_def dec_inv_def)
  moreover have "SetGetBuffer (Some sched_SetGetBuffer) i w = Some w'"
    using s(1) b k by (simp add: SetGetBuffer_def Let_def)
  ultimately show ?thesis using f by (intro exI [of _ w']) (simp add: cs_SetGetOffset_def)
qed

text \<open>
  The helper and the service while they run: a ring buffer of \<open>n + 2\<close> entries in the registered object
  \<open>ob\<close>, and \<open>cs\<close> the commands that are written and not executed.
\<close>

abbreviation svc_ok :: "'a GpuScheduler_scheme \<Rightarrow> bool" where
  "svc_ok w \<equiv> cs_error w = kNoError"

abbreviation client_core :: "nat \<Rightarrow> obj \<Rightarrow> u32 list list \<Rightarrow> 'a GpuScheduler_scheme CommandBufferHelper \<Rightarrow> bool" where
  "client_core n ob cs h \<equiv> helper_core (service_world (buffers_of (hp_cb h))) cs_get_offset svc_ok n ob cs h"

definition client_inv :: "nat \<Rightarrow> obj \<Rightarrow> u32 list list \<Rightarrow> 'a GpuScheduler_scheme CommandBufferHelper \<Rightarrow> bool" where
  "client_inv n ob cs h \<longleftrightarrow> client_core n ob cs h \<and>
     (svc_ok (hp_cb h) \<longrightarrow> sorted (cs_token (hp_cb h) # tokens cs) \<and> token_after (cs_token (hp_cb h)) cs = hp_token h) \<and>
     0 \<le> hp_token h \<and> hp_token h < 2147483648 \<and> buf_shared_memory (GetTransferBuffer (cs_ring_buffer_id (hp_cb h)) (hp_cb h)) = Some ob"

lemma GetTransferBuffer_in:
  assumes "GetTransferBuffer i w = b" and "buf_shared_memory b = Some ob"
  shows "Some ob \<in> buf_shared_memory ` set (cs_registered_objects w)"
proof -
  have "\<not> i < 0" "nat i < length (cs_registered_objects w)" "b = cs_registered_objects w ! nat i"
    using assms by (auto simp: GetTransferBuffer_def null_Buffer_def split: if_splits)
  then show ?thesis using assms(2) by (metis image_eqI nth_mem)
qed

lemma Initialize_client:
  assumes i: "idle_service w" and ok: "create_ok create" "map_shm_ok map_shm" and sz: "12 \<le> sz" "sz < 2147483648"
  shows "\<exists>r h. hp_Initialize (service_cb e create map_shm clock android) sz (new_CommandBufferHelper w) = Some (r, h) \<and>
    (if r then (\<exists>ob. client_inv (nat sz div 4 - 2) ob [] h) \<and> svc_ok (hp_cb h) \<and> hp_token h = 0 else \<not> hp_usable h)"
proof -
  let ?cb = "service_cb e create map_shm clock android" and ?n = "nat sz div 4 - 2" and ?sz = "uint32 sz"
  obtain id w1 where c: "CreateTransferBuffer create map_shm ?sz (-1) w = (id, w1)" by fastforce
  note c1 = CreateTransferBuffer_idle [OF i ok c]
  have u: "unat ?sz = nat sz" using sz by (simp add: uint32_def unsigned_of_int take_bit_int_eq_self)
  have n: "nat sz div 4 = ?n + 2" "0 < ?n" "?n < 1073741824" using sz by auto
  show ?thesis
  proof (cases "id = -1")
    case True
    with c show ?thesis
      by (intro exI [of _ False])
        (simp add: hp_Initialize_def AllocateRingBuffer_def new_CommandBufferHelper_def HaveRingBuffer_def service_cb_def ClearUsable_def)
  next
    case False
    with c1 obtain ob where b: "0 < id" "GetTransferBuffer id w1 = \<lparr>buf_ptr = Some ob, buf_size = ?sz, buf_shared_memory = Some ob\<rparr>"
      by auto
    from SetGetBuffer_world [OF _ _ _ _ _ b(2), of ?n] c1 u n(1) obtain w2 where
      w2: "SetGetBuffer (Some sched_SetGetBuffer) id w1 = Some w2" "ring_world ?n ob w2" "cs_error w2 = kNoError"
        "cs_token w2 = 0" "cs_get_offset w2 = 0" "cs_put_offset w2 = 0" "cs_num_entries w2 = int ?n + 2"
        "cs_registered_objects w2 = cs_registered_objects w1" "cs_ring_buffer_id w2 = id" by auto
    obtain s w3 where s: "GetState w2 = (s, w3)" by fastforce
    have s': "st_put_offset s = 0" "st_num_entries s = int ?n + 2" "w3 = w2\<lparr>cs_generation := cs_generation w2 + 1\<rparr>"
      using s w2 by (auto simp: GetState_def Let_def)
    have k: "sint (?sz div 4) = int ?n + 2"
    proof -
      have "unat (?sz div 4) = ?n + 2" using u n(1) by (simp add: unat_div)
      then show ?thesis using n(3) by (simp add: u32_sint)
    qed
    have g: "GetTransferBuffer (cs_ring_buffer_id w3) w3 = GetTransferBuffer id w1"
      using s'(3) w2(8,9) by (simp add: GetTransferBuffer_lookup)
    let ?h = "(new_CommandBufferHelper w3)\<lparr>hp_ring_buffer_size := sz, hp_ring_buffer := GetTransferBuffer id w1,
      hp_ring_buffer_id := id, hp_entries := Some (ob, 0), hp_total_entry_count := int ?n + 2, hp_usable_entry_count := int ?n\<rparr>"
    have run: "hp_Initialize ?cb sz (new_CommandBufferHelper w) = Some (True, ?h)"
      using c b w2(1) s s'(1,2) k
      by (simp add: hp_Initialize_def AllocateRingBuffer_def new_CommandBufferHelper_def HaveRingBuffer_def service_cb_def
          kJumpEntries_def Let_def)
    have "pending (mem w3) ob ?n 0 0 []" by (simp add: pending_Nil)
    then have "client_inv ?n ob [] ?h"
      using b w2 s'(3) n(2,3) g
      by (simp add: client_inv_def helper_core_def HaveRingBuffer_def new_CommandBufferHelper_def service_world_def)
    with run w2(3) s'(3) show ?thesis by (intro exI [of _ True] exI [of _ ?h]) (auto simp: new_CommandBufferHelper_def)
  qed
qed

subsection \<open>The helper's operations on the service\<close>

lemma client_coreD:
  assumes "client_inv n ob cs h"
  shows "client_core n ob cs h"
    and "svc_ok (hp_cb h) \<longrightarrow> sorted (cs_token (hp_cb h) # tokens cs) \<and> token_after (cs_token (hp_cb h)) cs = hp_token h"
  using assms by (simp_all add: client_inv_def)

text \<open>
  A helper operation ends in a state of the same kind when it keeps the contract's invariant and the range
  of the tokens.
\<close>

lemma client_invI:
  assumes inv: "client_inv n ob cs h"
    and c: "helper_core (service_world (buffers_of (hp_cb h))) cs_get_offset svc_ok n ob cs' h'"
    and t: "svc_ok (hp_cb h') \<longrightarrow> sorted (cs_token (hp_cb h') # tokens cs') \<and> token_after (cs_token (hp_cb h')) cs' = hp_token h'"
    and k: "0 \<le> hp_token h'" "hp_token h' < 2147483648"
  shows "client_inv n ob cs' h'"
proof -
  have "buffers_of (hp_cb h') = buffers_of (hp_cb h)"
    using c by (simp add: helper_core_def service_world_def)
  with inv c t k show ?thesis by (simp add: client_inv_def buffers_of_def GetTransferBuffer_lookup)
qed

lemma client_advanced:
  assumes inv: "client_inv n ob cs h"
    and c: "helper_core (service_world (buffers_of (hp_cb h))) cs_get_offset svc_ok n ob cs' h'"
    and adv: "advanced cs_get_offset cs_token svc_ok cs cs' h h'"
  shows "client_inv n ob cs' h'"
  using inv svc.tokens_ok_advanced [OF client_coreD(2) [OF inv] adv] advanced_fields(3) [OF adv]
  by (intro client_invI [OF inv c]) (simp_all add: client_inv_def)

text \<open>
  Waiting for a token returns on a service without error; afterwards the token has passed, or the
  service has stopped with an error.
\<close>

lemma client_WaitForToken:
  assumes inv: "client_inv n ob cs h" and ok: "svc_ok (hp_cb h)"
  shows "\<exists>h' cs1 cs'. WaitForToken (service_cb e create map_shm clock android) token h = Some h' \<and> client_inv n ob cs' h' \<and>
    hp_put h' = hp_put h \<and> hp_token h' = hp_token h \<and>
    (svc_ok (hp_cb h') \<longrightarrow> cs = cs1 @ cs' \<and> cs_token (hp_cb h') = token_after (cs_token (hp_cb h)) cs1 \<and>
       (0 \<le> token \<and> token \<le> hp_token h \<longrightarrow> token \<le> cs_token (hp_cb h')))"
proof -
  from svc.WaitForToken_core [OF client_coreD [OF inv] ok, of e create map_shm clock android token]
  obtain h' cs' where w: "WaitForToken (service_cb e create map_shm clock android) token h = Some h'"
    and c: "helper_core (service_world (buffers_of (hp_cb h))) cs_get_offset svc_ok n ob cs' h'"
    and adv: "advanced cs_get_offset cs_token svc_ok cs cs' h h'"
    and t: "svc_ok (hp_cb h') \<longrightarrow> token < 0 \<or> hp_token h' < token \<or> token \<le> cs_token (hp_cb h')" by blast
  note f = advanced_fields [OF adv]
  obtain cs1 where "svc_ok (hp_cb h') \<longrightarrow> cs = cs1 @ cs' \<and> cs_token (hp_cb h') = token_after (cs_token (hp_cb h)) cs1"
    using adv by (auto simp: advanced_def)
  with w client_advanced [OF inv c adv] t f(1,3) show ?thesis
    by (intro exI [of _ h'] exI [of _ cs1] exI [of _ cs']) auto
qed

text \<open>\<^verbatim>\<open>Finish\<close> returns, and it succeeds exactly when every command that was written has been executed without error.\<close>

lemma client_Finish:
  assumes inv: "client_inv n ob cs h" and ok: "svc_ok (hp_cb h)"
  shows "\<exists>b h' cs'. Finish (service_cb e create map_shm clock android) h = Some (b, h') \<and> client_inv n ob cs' h' \<and>
    (b \<longleftrightarrow> svc_ok (hp_cb h')) \<and>
    (b \<longrightarrow> cs' = [] \<and> cs_get_offset (hp_cb h') = hp_put h' \<and> cs_token (hp_cb h') = token_after (cs_token (hp_cb h)) cs)"
proof -
  from svc.Finish_core [OF client_coreD(1) [OF inv], of e create map_shm clock android]
  obtain b h' cs' where f: "Finish (service_cb e create map_shm clock android) h = Some (b, h')"
    and c: "helper_core (service_world (buffers_of (hp_cb h))) cs_get_offset svc_ok n ob cs' h'"
    and adv: "advanced cs_get_offset cs_token svc_ok cs cs' h h'"
    and b: "svc_ok (hp_cb h') \<longrightarrow> b \<and> cs' = []" "svc_ok (hp_cb h) \<and> b \<longrightarrow> svc_ok (hp_cb h')" by blast
  have inv': "client_inv n ob cs' h'" by (rule client_advanced [OF inv c adv])
  have "cs' = [] \<and> cs_get_offset (hp_cb h') = hp_put h' \<and> cs_token (hp_cb h') = token_after (cs_token (hp_cb h)) cs" if b
  proof -
    have o: "svc_ok (hp_cb h')" using b(2) ok that by blast
    then have e: "cs' = []" using b(1) by blast
    from svc.core_pending [OF c o] e have "cs_get_offset (hp_cb h') = hp_put h'" by metis
    moreover from adv o e have "cs_token (hp_cb h') = token_after (cs_token (hp_cb h)) cs" by (auto simp: advanced_def)
    ultimately show ?thesis using e by blast
  qed
  with f inv' b ok show ?thesis by blast
qed

text \<open>
  Reserving space for a command and writing it there appends it to the pending commands: no pending
  command is overwritten, and the write stays inside of the ring buffer. The reservation can only fail
  after an error of the service.
\<close>

lemma client_issue:
  assumes inv: "client_inv n ob cs h" and es: "wf_entries es" "quiet_cmd es" and len: "length es < n"
    and sp: "GetSpace (service_cb e create map_shm clock android) (of_nat (length es)) h = Some (space, h2)"
  shows "\<exists>p h' cs'. space = Some p \<and> put_entries p es h2 = Some h' \<and> hp_token h' = hp_token h \<and>
    helper_core (service_world (buffers_of (hp_cb h))) cs_get_offset svc_ok n ob cs' h' \<and>
    progress cs_token svc_ok [es] cs cs' h h'"
  using svc.GetSpace_core [OF client_coreD(1) [OF inv] es len, of e create map_shm clock android] sp
  by (auto simp: init_cmd_def)

text \<open>
  Inserting a token: the new number is one above the newest, modulo \<open>2 ^ 31\<close>. When it wraps around to
  zero, all commands have been executed.
\<close>

lemma client_InsertToken:
  assumes inv: "client_inv n ob cs h" and n: "2 < n"
    and i: "InsertToken (service_cb e create map_shm clock android) h = Some (token, h')"
  shows "token = (hp_token h + 1) mod 2147483648" and "hp_token h' = token"
    and "\<exists>cs'. client_inv n ob cs' h' \<and> (token = 0 \<and> svc_ok (hp_cb h') \<longrightarrow> cs' = []) \<and>
      progress cs_token svc_ok [[entry_of_header \<lparr>h_size = 2, h_command = 1\<rparr>, uint32 token]] cs cs' h h'"
proof -
  have tk: "0 \<le> hp_token h" "hp_token h < 2147483648" using inv by (simp_all add: client_inv_def)
  from svc.InsertToken_core [OF client_coreD [OF inv] n tk, of e create map_shm clock android, unfolded i option.case prod.case]
  obtain cs' where t: "token = (hp_token h + 1) mod 2147483648" "hp_token h' = token"
    and c: "helper_core (service_world (buffers_of (hp_cb h))) cs_get_offset svc_ok n ob cs' h'"
    and s: "svc_ok (hp_cb h') \<longrightarrow> sorted (cs_token (hp_cb h') # tokens cs') \<and> token_after (cs_token (hp_cb h')) cs' = hp_token h'"
    and z: "token = 0 \<and> svc_ok (hp_cb h') \<longrightarrow> cs' = []"
    and p: "progress cs_token svc_ok [[entry_of_header \<lparr>h_size = 2, h_command = 1\<rparr>, uint32 token]] cs cs' h h'"
    by blast
  show "token = (hp_token h + 1) mod 2147483648" "hp_token h' = token" by (fact t)+
  have "client_inv n ob cs' h'" by (rule client_invI [OF inv c s]) (simp_all add: t)
  with z p show "\<exists>cs'. client_inv n ob cs' h' \<and> (token = 0 \<and> svc_ok (hp_cb h') \<longrightarrow> cs' = []) \<and>
      progress cs_token svc_ok [[entry_of_header \<lparr>h_size = 2, h_command = 1\<rparr>, uint32 token]] cs cs' h h'" by blast
qed

text \<open>
  The fencing guarantee of the allocators on the service: memory that was freed pending a token is
  given out again only after the service has executed all commands up to that token, or has stopped.
\<close>

lemma client_fence_inv: "client_inv n ob cs h \<Longrightarrow> fence_inv (service_world (buffers_of (hp_cb h))) cs_get_offset cs_token svc_ok h"
  unfolding fence_inv_def using client_coreD [of n ob cs h] by blast

lemma client_Alloc_fenced:
  assumes "client_inv n ob cs h"
    and "Alloc (WaitForToken (service_cb e create map_shm clock android)) sz blocks h = Some (off, blocks', h')"
  shows "fenced (\<lambda>t. token_passed cs_token svc_ok t h') blocks blocks'"
  by (rule svc.fence.Alloc_fenced [OF assms(2) client_fence_inv [OF assms(1)]])

lemma client_FreeUnused_fenced:
  assumes "client_inv n ob cs h" and "fa_inv tot blocks"
    and "FreeUnused (last_token_read (service_cb e create map_shm clock android)) blocks h = (blocks', h')"
  shows "fenced (\<lambda>t. token_passed cs_token svc_ok t h') blocks blocks'"
  by (rule svc.fence.FreeUnused_fenced [OF assms(2,3) client_fence_inv [OF assms(1)]])

lemma client_RingBuffer_Alloc_fenced:
  assumes "client_inv n ob cs h" and "rb_inv rb"
    and "RingBuffer_Alloc (WaitForToken (service_cb e create map_shm clock android)) sz rb h = Some (off, rb', h')"
  shows "rb_fenced (\<lambda>t. token_passed cs_token svc_ok t h') rb rb'"
  by (rule svc.fence.RingBuffer_Alloc_fenced [OF assms(2,3) client_fence_inv [OF assms(1)]])

end
