(* ===== verification/Mapped_Memory.thy ===== *)
theory Mapped_Memory
  imports Fenced_Allocator "HOL-Library.Multiset"
begin

text \<open>
  \<^verbatim>\<open>MemoryChunk\<close> and \<^verbatim>\<open>MappedMemoryManager\<close> of \<^verbatim>\<open>gpu/command_buffer/client/mapped_memory.cc\<close> and \<^verbatim>\<open>mapped_memory.h\<close>: an
  allocator over any number of transfer buffers, each with a fenced allocator of its own. The helper
  and its command buffer are the state \<open>'h\<close>; \<open>memory_env\<close> holds their operations. A pointer is an
  address. A failed assertion and a division by zero are \<^const>\<open>None\<close>.
\<close>

subsection \<open>State\<close>

record 'h memory_env =
  me_WaitForToken :: "int \<Rightarrow> 'h \<Rightarrow> 'h option"
  me_last_token_read :: "'h \<Rightarrow> int \<times> 'h"
  me_CreateTransferBuffer :: "u32 \<Rightarrow> int \<Rightarrow> 'h \<Rightarrow> int \<times> 'h"
  me_GetTransferBuffer :: "int \<Rightarrow> 'h \<Rightarrow> (ptr \<times> u32) \<times> 'h"
  me_DestroyTransferBuffer :: "int \<Rightarrow> 'h \<Rightarrow> 'h"

record MemoryChunk =
  mc_shm_id :: int
  mc_shm_ptr :: ptr
  mc_shm_size :: u32
  mc_allocator :: FencedAllocatorWrapper

definition new_MemoryChunk :: "int \<Rightarrow> ptr \<times> u32 \<Rightarrow> MemoryChunk" where
  "new_MemoryChunk shm_id shm =
     \<lparr>mc_shm_id = shm_id, mc_shm_ptr = fst shm, mc_shm_size = snd shm,
      mc_allocator = \<lparr>w_allocator = FencedAllocator (snd shm), w_base = fst shm\<rparr>\<rparr>"

abbreviation chunk_blocks :: "MemoryChunk \<Rightarrow> Block list" where
  "chunk_blocks c \<equiv> w_allocator (mc_allocator c)"

definition GetLargestFreeSizeWithoutWaiting :: "MemoryChunk \<Rightarrow> u32" where
  "GetLargestFreeSizeWithoutWaiting c = GetLargestFreeSize (chunk_blocks c)"

definition GetLargestFreeSizeWithWaiting :: "MemoryChunk \<Rightarrow> u32" where
  "GetLargestFreeSizeWithWaiting c = GetLargestFreeOrPendingSize (chunk_blocks c)"

definition mc_Alloc :: "'h memory_env \<Rightarrow> u32 \<Rightarrow> MemoryChunk \<Rightarrow> 'h \<Rightarrow> (ptr \<times> MemoryChunk \<times> 'h) option" where
  "mc_Alloc env sz c h = do {
     (p, a, h1) \<leftarrow> Wrapper_Alloc (me_WaitForToken env) sz (mc_allocator c) h;
     Some (p, c\<lparr>mc_allocator := a\<rparr>, h1)
   }"

definition mc_GetOffset :: "ptr \<Rightarrow> MemoryChunk \<Rightarrow> u32" where
  "mc_GetOffset p c = GetOffset (mc_allocator c) p"

definition mc_Free :: "ptr \<Rightarrow> MemoryChunk \<Rightarrow> MemoryChunk option" where
  "mc_Free p c = map_option (\<lambda>a. c\<lparr>mc_allocator := a\<rparr>) (Wrapper_Free p (mc_allocator c))"

text \<open>The token is converted to \<^verbatim>\<open>unsigned int\<close> on the way, and back.\<close>

definition mc_FreePendingToken :: "ptr \<Rightarrow> u32 \<Rightarrow> MemoryChunk \<Rightarrow> MemoryChunk option" where
  "mc_FreePendingToken p token c =
     map_option (\<lambda>a. c\<lparr>mc_allocator := a\<rparr>) (Wrapper_FreePendingToken p (sint token) (mc_allocator c))"

definition mc_FreeUnused :: "'h memory_env \<Rightarrow> MemoryChunk \<Rightarrow> 'h \<Rightarrow> MemoryChunk \<times> 'h" where
  "mc_FreeUnused env c h =
     (let (a, h1) = Wrapper_FreeUnused (me_last_token_read env) (mc_allocator c) h
      in (c\<lparr>mc_allocator := a\<rparr>, h1))"

definition IsInChunk :: "ptr \<Rightarrow> MemoryChunk \<Rightarrow> bool" where
  "IsInChunk p c \<longleftrightarrow> p \<ge> mc_shm_ptr c \<and> p < mc_shm_ptr c + mc_shm_size c"

definition mc_InUse :: "MemoryChunk \<Rightarrow> bool" where
  "mc_InUse c \<longleftrightarrow> InUse (chunk_blocks c)"

record MappedMemoryManager =
  mm_chunk_size_multiple :: u32
  mm_chunks :: "MemoryChunk list"

definition new_MappedMemoryManager :: MappedMemoryManager where
  "new_MappedMemoryManager = \<lparr>mm_chunk_size_multiple = 1, mm_chunks = []\<rparr>"

subsection \<open>Operations\<close>

text \<open>
  The loop of \<^verbatim>\<open>Alloc\<close> over the chunks. A result is the pointer with \<^verbatim>\<open>*shm_id\<close> and \<^verbatim>\<open>*shm_offset\<close>;
  \<^const>\<open>None\<close> inside of it is the pointer \<^verbatim>\<open>NULL\<close>, or that the loop found nothing.
\<close>

fun mm_alloc_loop ::
    "'h memory_env \<Rightarrow> u32 \<Rightarrow> MemoryChunk list \<Rightarrow> 'h \<Rightarrow> ((ptr \<times> int \<times> u32) option \<times> MemoryChunk list \<times> 'h) option" where
  "mm_alloc_loop env sz [] h = Some (None, [], h)"
| "mm_alloc_loop env sz (chunk # rest) h =
     (let (c, h1) = mc_FreeUnused env chunk h in
      if GetLargestFreeSizeWithoutWaiting c \<ge> sz
      then do {
        (mem, c1, h2) \<leftarrow> mc_Alloc env sz c h1;
        if mem = NULL then None
        else Some (Some (mem, mc_shm_id c1, mc_GetOffset mem c1), c1 # rest, h2)
      }
      else do {
        (r, rest1, h2) \<leftarrow> mm_alloc_loop env sz rest h1;
        Some (r, c # rest1, h2)
      })"

definition mm_Alloc ::
    "'h memory_env \<Rightarrow> u32 \<Rightarrow> MappedMemoryManager \<Rightarrow> 'h \<Rightarrow>
     ((ptr \<times> int \<times> u32) option \<times> MappedMemoryManager \<times> 'h) option" where
  "mm_Alloc env sz m h = do {
     (r, chunks, h1) \<leftarrow> mm_alloc_loop env sz (mm_chunks m) h;
     let m1 = m\<lparr>mm_chunks := chunks\<rparr>;
     case r of
       Some _ \<Rightarrow> Some (r, m1, h1)
     | None \<Rightarrow>
         if mm_chunk_size_multiple m = 0 then None
         else
           let chunk_size = ((sz + mm_chunk_size_multiple m - 1) div mm_chunk_size_multiple m) * mm_chunk_size_multiple m;
               (id, h2) = me_CreateTransferBuffer env chunk_size (-1) h1
           in if id = -1 then Some (None, m1, h2)
              else let (shm, h3) = me_GetTransferBuffer env id h2 in do {
                (mem, mc, h4) \<leftarrow> mc_Alloc env sz (new_MemoryChunk id shm) h3;
                if mem = NULL then None
                else Some (Some (mem, mc_shm_id mc, mc_GetOffset mem mc), m1\<lparr>mm_chunks := chunks @ [mc]\<rparr>, h4)
              }
   }"

fun mm_free_loop :: "(MemoryChunk \<Rightarrow> MemoryChunk option) \<Rightarrow> ptr \<Rightarrow> MemoryChunk list \<Rightarrow> MemoryChunk list option" where
  "mm_free_loop f p [] = None"
| "mm_free_loop f p (c # rest) =
     (if IsInChunk p c then map_option (\<lambda>c'. c' # rest) (f c)
      else map_option (\<lambda>rest'. c # rest') (mm_free_loop f p rest))"

definition mm_Free :: "ptr \<Rightarrow> MappedMemoryManager \<Rightarrow> MappedMemoryManager option" where
  "mm_Free p m = map_option (\<lambda>cs. m\<lparr>mm_chunks := cs\<rparr>) (mm_free_loop (mc_Free p) p (mm_chunks m))"

definition mm_FreePendingToken :: "ptr \<Rightarrow> int \<Rightarrow> MappedMemoryManager \<Rightarrow> MappedMemoryManager option" where
  "mm_FreePendingToken p token m =
     map_option (\<lambda>cs. m\<lparr>mm_chunks := cs\<rparr>) (mm_free_loop (mc_FreePendingToken p (uint32 token)) p (mm_chunks m))"

fun mm_free_unused_loop :: "'h memory_env \<Rightarrow> MemoryChunk list \<Rightarrow> 'h \<Rightarrow> MemoryChunk list \<times> 'h" where
  "mm_free_unused_loop env [] h = ([], h)"
| "mm_free_unused_loop env (chunk # rest) h =
     (let (c, h1) = mc_FreeUnused env chunk h in
      if \<not> mc_InUse c
      then mm_free_unused_loop env rest (me_DestroyTransferBuffer env (mc_shm_id c) h1)
      else let (rest1, h2) = mm_free_unused_loop env rest h1 in (c # rest1, h2))"

definition mm_FreeUnused :: "'h memory_env \<Rightarrow> MappedMemoryManager \<Rightarrow> 'h \<Rightarrow> MappedMemoryManager \<times> 'h" where
  "mm_FreeUnused env m h = (let (cs, h1) = mm_free_unused_loop env (mm_chunks m) h in (m\<lparr>mm_chunks := cs\<rparr>, h1))"

text \<open>The destructor deletes the chunks, and with each its allocator.\<close>

fun mm_destroy_loop :: "'h memory_env \<Rightarrow> MemoryChunk list \<Rightarrow> 'h \<Rightarrow> 'h option" where
  "mm_destroy_loop env [] h = Some h"
| "mm_destroy_loop env (c # rest) h = do {
     (_, h1) \<leftarrow> destroy_loop (me_WaitForToken env) (chunk_blocks c) h 0;
     mm_destroy_loop env rest h1
   }"

subsection \<open>One chunk\<close>

definition chunk_ok :: "MemoryChunk \<Rightarrow> bool" where
  "chunk_ok c \<longleftrightarrow> fa_inv (mc_shm_size c) (chunk_blocks c) \<and> w_base (mc_allocator c) = mc_shm_ptr c \<and>
     mc_shm_ptr c \<noteq> NULL \<and> unat (mc_shm_ptr c) + unat (mc_shm_size c) < 4294967296"

definition chunk_use :: "MemoryChunk \<Rightarrow> (int \<times> u32 \<times> u32) list" where
  "chunk_use c = map (\<lambda>b. (mc_shm_id c, b_offset b, b_size b)) (in_use_blocks (chunk_blocks c))"

definition same_shm :: "MemoryChunk \<Rightarrow> MemoryChunk \<Rightarrow> bool" where
  "same_shm c c' \<longleftrightarrow> mc_shm_id c' = mc_shm_id c \<and> mc_shm_ptr c' = mc_shm_ptr c \<and> mc_shm_size c' = mc_shm_size c"

lemma same_shm_refl [simp]: "same_shm c c"
  by (simp add: same_shm_def)

lemma same_shm_trans: "same_shm a b \<Longrightarrow> same_shm b c \<Longrightarrow> same_shm a c"
  by (simp add: same_shm_def)

lemma mc_FreeUnused_ok:
  assumes "chunk_ok c" and "mc_FreeUnused env c h = (c', h')"
  shows "chunk_ok c'" and "same_shm c c'" and "chunk_use c' = chunk_use c" and "h' = snd (me_last_token_read env h)"
proof -
  obtain bs h1 where f: "FreeUnused (me_last_token_read env) (chunk_blocks c) h = (bs, h1)" by fastforce
  have c': "c' = c\<lparr>mc_allocator := (mc_allocator c)\<lparr>w_allocator := bs\<rparr>\<rparr>" "h' = h1"
    using assms(2) f by (simp_all add: mc_FreeUnused_def Wrapper_FreeUnused_def)
  have "fa_inv (mc_shm_size c) (chunk_blocks c)" using assms(1) by (simp add: chunk_ok_def)
  note s = FreeUnused_spec [OF this f]
  show "chunk_ok c'" using assms(1) s(1) c' by (simp add: chunk_ok_def)
  show "same_shm c c'" using c' by (simp add: same_shm_def)
  show "chunk_use c' = chunk_use c" using s(2) c' by (simp add: chunk_use_def)
  show "h' = snd (me_last_token_read env h)" using s(4) c' by simp
qed

lemma mset_chunk_use_add:
  assumes "adds_block sz off blocks blocks'"
  shows "mset (map (\<lambda>b. (i, b_offset b, b_size b)) (in_use_blocks blocks')) =
     add_mset (i, off, sz) (mset (map (\<lambda>b. (i, b_offset b, b_size b)) (in_use_blocks blocks)))"
proof -
  from assms obtain us vs b where *: "in_use_blocks blocks = us @ vs" "in_use_blocks blocks' = us @ b # vs"
    "b_offset b = off" "b_size b = sz" unfolding adds_block_def by blast
  show ?thesis unfolding *(1,2) using *(3,4) by simp
qed

lemma mc_Alloc_ok:
  assumes c: "chunk_ok c" and a: "mc_Alloc env sz c h = Some (p, c', h')"
  shows "chunk_ok c'" and "same_shm c c'"
    and "p = NULL \<Longrightarrow> chunk_use c' = chunk_use c"
    and "p \<noteq> NULL \<Longrightarrow> p = mc_shm_ptr c' + mc_GetOffset p c' \<and> unat (mc_GetOffset p c') + unat (max 1 sz) \<le> unat (mc_shm_size c') \<and>
       mset (chunk_use c') = add_mset (mc_shm_id c', mc_GetOffset p c', max 1 sz) (mset (chunk_use c))"
proof -
  have inv: "fa_inv (mc_shm_size c) (chunk_blocks c)" using c by (simp add: chunk_ok_def)
  from a obtain off bs where al: "Alloc (me_WaitForToken env) sz (chunk_blocks c) h = Some (off, bs, h')"
    and c': "c' = c\<lparr>mc_allocator := (mc_allocator c)\<lparr>w_allocator := bs\<rparr>\<rparr>"
    and p: "p = GetPointer (mc_allocator c') off"
    by (auto simp: mc_Alloc_def Wrapper_Alloc_def Let_def split: Option.bind_splits)
  note s = Alloc_spec [OF inv al]
  show ok': "chunk_ok c'" using c s(1) c' by (simp add: chunk_ok_def)
  show "same_shm c c'" using c' by (simp add: same_shm_def)
  have base: "w_base (mc_allocator c') = mc_shm_ptr c'" "mc_shm_ptr c' \<noteq> NULL"
    "unat (mc_shm_ptr c') + unat (mc_shm_size c') < 4294967296" using ok' by (simp_all add: chunk_ok_def)
  have blocks: "chunk_blocks c' = bs" and eqs: "mc_shm_size c' = mc_shm_size c" "mc_shm_id c' = mc_shm_id c" using c' by simp_all
  have yes: "p \<noteq> NULL \<and> p = mc_shm_ptr c' + off \<and> mc_GetOffset p c' = off \<and> unat off + unat (max 1 sz) \<le> unat (mc_shm_size c')"
    if "off \<noteq> kInvalidOffset" "adds_block (max 1 sz) off (chunk_blocks c) bs"
  proof -
    have in_b: "unat off + unat (max 1 sz) \<le> unat (mc_shm_size c')" using adds_block_in_buffer [OF s(1) that(2)] eqs(1) by simp
    then have "unat (w_base (mc_allocator c')) + unat off < 4294967296" using base by simp
    from GetOffset_GetPointer [OF _ this that(1)] base(1,2) p that(1) in_b show ?thesis
      by (simp add: mc_GetOffset_def GetPointer_def)
  qed
  have no: "p = NULL" if "off = kInvalidOffset" using that p by (simp add: GetPointer_def)
  show "p = NULL \<Longrightarrow> chunk_use c' = chunk_use c"
    using s(2) yes eqs(2) blocks by (auto simp: chunk_use_def split: if_splits)
  show "p \<noteq> NULL \<Longrightarrow> p = mc_shm_ptr c' + mc_GetOffset p c' \<and> unat (mc_GetOffset p c') + unat (max 1 sz) \<le> unat (mc_shm_size c') \<and>
       mset (chunk_use c') = add_mset (mc_shm_id c', mc_GetOffset p c', max 1 sz) (mset (chunk_use c))"
    using s(2) yes no eqs(2) blocks mset_chunk_use_add [of "max 1 sz" off "chunk_blocks c" bs "mc_shm_id c'"]
    by (auto simp: chunk_use_def split: if_splits)
qed

lemma GetLargestFreeSize_loop_iff:
  "sz \<le> GetLargestFreeSize_loop m bs \<longleftrightarrow> sz \<le> m \<or> (\<exists>b \<in> set bs. b_state b = FREE \<and> sz \<le> b_size b)"
proof (induction bs arbitrary: m)
  case (Cons b bs)
  then show ?case by (auto simp: le_max_iff_disj)
qed simp

text \<open>
  When a free block is large enough, the allocator does not wait: the helper keeps its state.
\<close>

lemma mc_Alloc_free:
  assumes c: "chunk_ok c" and free: "GetLargestFreeSizeWithoutWaiting c \<ge> sz" and sz: "0 < sz"
  shows "\<exists>p c'. mc_Alloc env sz c h = Some (p, c', h) \<and> p \<noteq> NULL"
proof -
  have one: "max 1 sz = sz" "\<not> sz \<le> 0" using u32_max_1 [OF sz] sz by simp_all
  then obtain b where "b \<in> set (chunk_blocks c)" "b_state b = FREE" "sz \<le> b_size b"
    using free unfolding GetLargestFreeSizeWithoutWaiting_def GetLargestFreeSize_def GetLargestFreeSize_loop_iff by blast
  then have "alloc_find_free sz (chunk_blocks c) 0 \<noteq> None"
    using alloc_find_free_None [of sz "chunk_blocks c" 0] by (auto simp: in_set_conv_nth)
  then obtain i where i: "alloc_find_free sz (chunk_blocks c) 0 = Some i" by blast
  then obtain off bs where ab: "AllocInBlock i sz (chunk_blocks c) = Some (off, bs)"
    using alloc_find_free_Some [OF i] AllocInBlock_total by blast
  with i one have al: "Alloc (me_WaitForToken env) sz (chunk_blocks c) h = Some (off, bs, h)"
    by (simp add: Alloc_def max_1)
  have inv: "fa_inv (mc_shm_size c) (chunk_blocks c)" using c by (simp add: chunk_ok_def)
  let ?c = "c\<lparr>mc_allocator := (mc_allocator c)\<lparr>w_allocator := bs\<rparr>\<rparr>"
  let ?p = "GetPointer (mc_allocator ?c) off"
  have run: "mc_Alloc env sz c h = Some (?p, ?c, h)"
    using al by (simp add: mc_Alloc_def Wrapper_Alloc_def GetPointer_def)
  have "adds_block sz off (chunk_blocks c) bs"
    using AllocInBlock_inv [OF inv ab] sz by (auto simp: adds_block_def u32_pos)
  moreover have "fa_inv (mc_shm_size c) bs" by (rule Alloc_spec(1) [OF inv al])
  ultimately have "unat off + unat sz \<le> unat (mc_shm_size c)" by (rule adds_block_in_buffer [rotated])
  then have "off \<noteq> kInvalidOffset" "unat (w_base (mc_allocator ?c)) + unat off < 4294967296"
    using kInvalidOffset_outside [of off sz "mc_shm_size c"] sz c by (auto simp: u32_pos chunk_ok_def)
  moreover have "w_base (mc_allocator ?c) \<noteq> NULL" using c by (simp add: chunk_ok_def)
  ultimately have "?p \<noteq> NULL" by (intro GetOffset_GetPointer(1))
  with run show ?thesis by blast
qed

text \<open>A pointer to a block in use lies in its chunk, and the operations that free it find the block.\<close>

lemma chunk_useE:
  assumes c: "chunk_ok c" and u: "(i, off, s) \<in> set (chunk_use c)"
  obtains xs b ys where "chunk_blocks c = xs @ b # ys" and "b_state b = IN_USE" and "b_offset b = off" and "b_size b = s"
    and "i = mc_shm_id c" and "IsInChunk (mc_shm_ptr c + off) c" and "mc_shm_ptr c + off \<noteq> NULL"
    and "GetOffset (mc_allocator c) (mc_shm_ptr c + off) = off"
proof -
  from u obtain b where b: "b \<in> set (chunk_blocks c)" "b_state b = IN_USE" "b_offset b = off" "b_size b = s" "i = mc_shm_id c"
    by (auto simp: chunk_use_def)
  from split_list [OF b(1)] obtain xs ys where xs: "chunk_blocks c = xs @ b # ys" by blast
  have base: "w_base (mc_allocator c) = mc_shm_ptr c" "mc_shm_ptr c \<noteq> NULL"
    "unat (mc_shm_ptr c) + unat (mc_shm_size c) < 4294967296" and inv: "fa_inv (mc_shm_size c) (chunk_blocks c)"
    using c by (simp_all add: chunk_ok_def)
  have cov: "blocks_cover 0 (chunk_blocks c) (unat (mc_shm_size c))" using inv by (simp add: fa_inv_def)
  have "unat off + unat s \<le> unat (mc_shm_size c)" "0 < unat s"
    using blocks_cover_offset_less [OF cov b(1)] b(3,4) cov b(1) xs by (auto simp: blocks_cover_append)
  then have lt: "unat off < unat (mc_shm_size c)" by simp
  have add: "unat (mc_shm_ptr c + off) = unat (mc_shm_ptr c) + unat off"
    "unat (mc_shm_ptr c + mc_shm_size c) = unat (mc_shm_ptr c) + unat (mc_shm_size c)"
    using lt base(3) by (simp_all add: u32_add)
  have pos: "0 < unat (mc_shm_ptr c)" using base(2) by (simp add: u32_pos [symmetric] word_neq_0_conv)
  have "IsInChunk (mc_shm_ptr c + off) c" using add lt by (simp add: IsInChunk_def word_le_nat_alt word_less_nat_alt)
  moreover have nn: "mc_shm_ptr c + off \<noteq> NULL"
  proof
    assume "mc_shm_ptr c + off = NULL"
    then have "unat (mc_shm_ptr c + off) = 0" by simp
    with add(1) pos show False by simp
  qed
  moreover have "GetOffset (mc_allocator c) (mc_shm_ptr c + off) = off" using nn base(1) by (simp add: GetOffset_def)
  ultimately show thesis by (intro that [OF xs b(2-5)])
qed

lemma mc_Free_ok:
  assumes c: "chunk_ok c" and u: "(i, off, s) \<in> set (chunk_use c)"
  shows "\<exists>c'. mc_Free (mc_shm_ptr c + off) c = Some c' \<and> chunk_ok c' \<and> same_shm c c' \<and>
     mset (chunk_use c) = add_mset (i, off, s) (mset (chunk_use c'))"
  using c u
proof (cases rule: chunk_useE)
  case (1 xs b ys)
  have "fa_inv (mc_shm_size c) (xs @ b # ys)" "b_state b \<noteq> FREE" using c 1(1,2) by (simp_all add: chunk_ok_def)
  from Free_spec [OF this] obtain bs where f: "Free (b_offset b) (xs @ b # ys) = Some bs" "fa_inv (mc_shm_size c) bs"
    "in_use_blocks bs = in_use_blocks (xs @ ys)" by metis
  let ?c = "c\<lparr>mc_allocator := (mc_allocator c)\<lparr>w_allocator := bs\<rparr>\<rparr>"
  have "mc_Free (mc_shm_ptr c + off) c = Some ?c"
    using 1 f(1) by (simp add: mc_Free_def Wrapper_Free_def)
  moreover have "chunk_ok ?c" using c f(2) by (simp add: chunk_ok_def)
  moreover have "mset (chunk_use c) = add_mset (i, off, s) (mset (chunk_use ?c))"
    using 1 f(3) by (simp add: chunk_use_def)
  ultimately show ?thesis by (intro exI [of _ ?c]) (simp add: same_shm_def)
qed

lemma mc_FreePendingToken_ok:
  assumes c: "chunk_ok c" and u: "(i, off, s) \<in> set (chunk_use c)"
  shows "\<exists>c'. mc_FreePendingToken (mc_shm_ptr c + off) t c = Some c' \<and> chunk_ok c' \<and> same_shm c c' \<and>
     mset (chunk_use c) = add_mset (i, off, s) (mset (chunk_use c')) \<and>
     (\<exists>b \<in> set (pending_blocks (chunk_blocks c')). b_offset b = off \<and> b_size b = s \<and> b_token b = sint t)"
  using c u
proof (cases rule: chunk_useE)
  case (1 xs b ys)
  have "fa_inv (mc_shm_size c) (xs @ b # ys)" using c 1(1) by (simp add: chunk_ok_def)
  note f = FreePendingToken_spec [OF this, of "sint t"]
  let ?c = "c\<lparr>mc_allocator := (mc_allocator c)\<lparr>w_allocator := xs @ b\<lparr>b_state := FREE_PENDING_TOKEN, b_token := sint t\<rparr> # ys\<rparr>\<rparr>"
  have "mc_FreePendingToken (mc_shm_ptr c + off) t c = Some ?c"
    using 1 f(1) by (simp add: mc_FreePendingToken_def Wrapper_FreePendingToken_def)
  moreover have "chunk_ok ?c" using c f(2) by (simp add: chunk_ok_def)
  moreover have "mset (chunk_use c) = add_mset (i, off, s) (mset (chunk_use ?c))"
    using 1 by (simp add: chunk_use_def)
  ultimately show ?thesis using 1 by (intro exI [of _ ?c]) (simp add: same_shm_def)
qed

subsection \<open>The provider of the shared memory\<close>

text \<open>
  What the manager relies on. \<open>bufs h\<close> are the transfer buffers that exist, with the addresses at which
  they are mapped: a new buffer gets an unused id and addresses that overlap with no other, and only
  the operations that create and destroy buffers change them.
\<close>

abbreviation overlap :: "ptr \<times> u32 \<Rightarrow> ptr \<times> u32 \<Rightarrow> bool" where
  "overlap a b \<equiv> {unat (fst a) ..< unat (fst a) + unat (snd a)} \<inter> {unat (fst b) ..< unat (fst b) + unat (snd b)} \<noteq> {}"

locale memory_provider =
  fixes env :: "'h memory_env"
    and bufs :: "'h \<Rightarrow> int \<Rightarrow> (ptr \<times> u32) option"
    and good :: "'h \<Rightarrow> bool"
  assumes get_law: "good h \<Longrightarrow> bufs h i = Some b \<Longrightarrow> me_GetTransferBuffer env i h = (b', h') \<Longrightarrow> b' = b \<and> good h' \<and> bufs h' = bufs h"
    and create_law: "good h \<Longrightarrow> me_CreateTransferBuffer env sz (-1) h = (i, h') \<Longrightarrow> good h' \<and>
      (i = -1 \<and> bufs h' = bufs h \<or> 0 < i \<and> bufs h i = None \<and>
        (\<exists>p. p \<noteq> NULL \<and> unat p + unat sz < 4294967296 \<and> bufs h' = (bufs h)(i \<mapsto> (p, sz)) \<and>
           (\<forall>j b. bufs h j = Some b \<longrightarrow> \<not> overlap (p, sz) b)))"
    and destroy_law: "good h \<Longrightarrow> 0 < i \<Longrightarrow> bufs h i = Some b \<Longrightarrow> good (me_DestroyTransferBuffer env i h) \<and>
      bufs (me_DestroyTransferBuffer env i h) = (bufs h)(i := None)"
    and wait_law: "good h \<Longrightarrow> me_WaitForToken env t h = Some h' \<Longrightarrow> good h' \<and> bufs h' = bufs h"
    and read_law: "good h \<Longrightarrow> me_last_token_read env h = (t, h') \<Longrightarrow> good h' \<and> bufs h' = bufs h"

definition chunk_in :: "(int \<Rightarrow> (ptr \<times> u32) option) \<Rightarrow> MemoryChunk \<Rightarrow> bool" where
  "chunk_in bs c \<longleftrightarrow> chunk_ok c \<and> 0 < mc_shm_id c \<and> bs (mc_shm_id c) = Some (mc_shm_ptr c, mc_shm_size c)"

definition disjoint_chunks :: "MemoryChunk \<Rightarrow> MemoryChunk \<Rightarrow> bool" where
  "disjoint_chunks c d \<longleftrightarrow> mc_shm_id c \<noteq> mc_shm_id d \<and> \<not> overlap (mc_shm_ptr c, mc_shm_size c) (mc_shm_ptr d, mc_shm_size d)"

definition mm_inv :: "(int \<Rightarrow> (ptr \<times> u32) option) \<Rightarrow> MemoryChunk list \<Rightarrow> bool" where
  "mm_inv bs cs \<longleftrightarrow> (\<forall>c \<in> set cs. chunk_in bs c) \<and> sorted_wrt disjoint_chunks cs"

definition mm_use :: "MemoryChunk list \<Rightarrow> (int \<times> u32 \<times> u32) list" where
  "mm_use cs = concat (map chunk_use cs)"

lemma mm_inv_Cons: "mm_inv bs (c # cs) \<longleftrightarrow> chunk_in bs c \<and> (\<forall>d \<in> set cs. disjoint_chunks c d) \<and> mm_inv bs cs"
  by (auto simp: mm_inv_def)

lemma mm_use_Cons [simp]: "mm_use (c # cs) = chunk_use c @ mm_use cs"
  by (simp add: mm_use_def)

lemma mm_use_Nil [simp]: "mm_use [] = []"
  by (simp add: mm_use_def)

lemma chunk_in_same: "chunk_in bs c \<Longrightarrow> chunk_ok c' \<Longrightarrow> same_shm c c' \<Longrightarrow> chunk_in bs c'"
  by (simp add: chunk_in_def same_shm_def)

lemma disjoint_same: "same_shm c c' \<Longrightarrow> disjoint_chunks c d = disjoint_chunks c' d" "same_shm c c' \<Longrightarrow> disjoint_chunks d c = disjoint_chunks d c'"
  by (simp_all add: disjoint_chunks_def same_shm_def)

text \<open>The chunks after an operation are those before, one for one, with other blocks.\<close>

lemma mm_inv_same:
  assumes "mm_inv bs cs" and "list_all2 same_shm cs cs'" and "\<forall>c \<in> set cs'. chunk_ok c"
  shows "mm_inv bs cs'"
  using assms(2,1,3)
proof (induction rule: list_all2_induct)
  case (Cons c cs c' cs')
  have "\<forall>d \<in> set cs'. disjoint_chunks c d" using Cons.hyps(2) Cons.prems(1)
  proof (induction rule: list_all2_induct)
    case (Cons d ds d' ds')
    then show ?case using disjoint_same(2) [OF Cons.hyps(1), of c] by (simp add: mm_inv_Cons)
  qed simp
  with Cons chunk_in_same [of bs c c'] disjoint_same(1) [OF Cons.hyps(1)] show ?case by (simp add: mm_inv_Cons)
qed simp

definition placed ::
    "u32 \<Rightarrow> (ptr \<times> int \<times> u32) option \<Rightarrow> MemoryChunk list \<Rightarrow> MemoryChunk list \<Rightarrow> bool" where
  "placed sz r cs cs' \<longleftrightarrow>
     (case r of
        None \<Rightarrow> mset (mm_use cs') = mset (mm_use cs)
      | Some (p, i, off) \<Rightarrow> p \<noteq> NULL \<and>
          (\<exists>c \<in> set cs'. mc_shm_id c = i \<and> p = mc_shm_ptr c + off \<and> unat off + unat sz \<le> unat (mc_shm_size c)) \<and>
          mset (mm_use cs') = add_mset (i, off, sz) (mset (mm_use cs)))"

lemma placed_Cons:
  assumes "placed sz r cs cs'" and "chunk_use c' = chunk_use c"
  shows "placed sz r (c # cs) (c' # cs')"
  using assms by (auto simp: placed_def split: option.splits)

lemma placed_chunk:
  assumes c: "chunk_ok c" and a: "mc_Alloc env sz c h = Some (p, c', h')" "p \<noteq> NULL"
  shows "placed (max 1 sz) (Some (p, mc_shm_id c', mc_GetOffset p c')) [c] [c']"
proof -
  define off where "off = mc_GetOffset p c'"
  from mc_Alloc_ok(4) [OF c a] a(2) show ?thesis unfolding placed_def off_def [symmetric] by simp
qed

lemma placed_first:
  assumes "placed sz (Some r) [c] [c']" and "chunk_use c = chunk_use d"
  shows "placed sz (Some r) (d # cs) (c' # cs)"
  using assms by (cases r) (simp add: placed_def)

lemma placed_last:
  assumes "placed sz (Some r) [c] [c']" and "chunk_use c = []" and "placed sz None ds cs"
  shows "placed sz (Some r) ds (cs @ [c'])"
  using assms by (cases r) (auto simp: placed_def mm_use_def)

lemma chunk_size_ge:
  fixes sz m :: u32
  assumes "0 < m" and "unat sz + unat m \<le> 4294967296"
  shows "sz \<le> ((sz + m - 1) div m) * m"
proof -
  have m: "0 < unat m" "unat (m - 1) = unat m - 1" using assms(1) u32_sub [of 1 m] u32_ge_1 [of m] by (auto simp: u32_pos)
  have eq: "sz + m - 1 = sz + (m - 1)" by simp
  have t: "unat (sz + m - 1) = unat sz + unat m - 1"
    unfolding eq using m assms(2) u32_add [of sz "m - 1"] by simp
  have le: "(unat sz + unat m - 1) div unat m * unat m < 4294967296"
  proof (rule le_less_trans)
    show "(unat sz + unat m - 1) div unat m * unat m \<le> unat sz + unat m - 1" by (rule div_times_less_eq_dividend)
    show "unat sz + unat m - 1 < 4294967296" using m(1) assms(2) by linarith
  qed
  have "unat ((sz + m - 1) div m * m) = (unat sz + unat m - 1) div unat m * unat m"
    using le m(1) assms(2) t by (subst unat_mult_lem [THEN iffD1]) (auto simp: unat_div)
  with ceil_ge [OF m(1), of "unat sz"] show ?thesis by (simp add: word_le_nat_alt)
qed

context memory_provider
begin

lemma FreeUnused_law:
  assumes "good h" and "chunk_ok c" and "mc_FreeUnused env c h = (c', h')"
  shows "good h' \<and> bufs h' = bufs h"
  using mc_FreeUnused_ok(4) [OF assms(2,3)] read_law [OF assms(1)] by (metis prod.collapse)

lemma mm_alloc_loop_ok:
  "good h \<Longrightarrow> \<forall>c \<in> set cs. chunk_ok c \<Longrightarrow> 0 < sz \<Longrightarrow>
   \<exists>r cs' h'. mm_alloc_loop env sz cs h = Some (r, cs', h') \<and> good h' \<and> bufs h' = bufs h \<and> list_all2 same_shm cs cs' \<and>
     (\<forall>c \<in> set cs'. chunk_ok c) \<and> placed sz r cs cs'"
proof (induction cs arbitrary: h)
  case Nil
  then show ?case by (simp add: placed_def)
next
  case (Cons c cs)
  obtain c1 h1 where f: "mc_FreeUnused env c h = (c1, h1)" by fastforce
  have c: "chunk_ok c" using Cons.prems(2) by simp
  note c1 = mc_FreeUnused_ok [OF c f] and h1 = FreeUnused_law [OF Cons.prems(1) c f]
  show ?case
  proof (cases "GetLargestFreeSizeWithoutWaiting c1 \<ge> sz")
    case True
    from mc_Alloc_free [OF c1(1) True Cons.prems(3), of env h1]
    obtain p c2 where a: "mc_Alloc env sz c1 h1 = Some (p, c2, h1)" "p \<noteq> NULL" by auto
    note c2 = mc_Alloc_ok [OF c1(1) a(1)]
    have "placed sz (Some (p, mc_shm_id c2, mc_GetOffset p c2)) (c # cs) (c2 # cs)"
      using placed_first [OF placed_chunk [OF c1(1) a] c1(3)] unfolding u32_max_1 [OF Cons.prems(3)] .
    moreover have "list_all2 same_shm (c # cs) (c2 # cs)"
      using same_shm_trans [OF c1(2) c2(2)] by (simp add: list_all2_refl)
    ultimately show ?thesis using f True a h1 c2(1) Cons.prems(2) by simp
  next
    case False
    from Cons.IH [of h1] h1 Cons.prems(2,3) obtain r cs' h' where "mm_alloc_loop env sz cs h1 = Some (r, cs', h')" "good h'"
      "bufs h' = bufs h" "list_all2 same_shm cs cs'" "\<forall>c \<in> set cs'. chunk_ok c" "placed sz r cs cs'" by auto
    with f False c1 placed_Cons [of sz r cs cs' c1 c] show ?thesis by simp
  qed
qed

text \<open>
  An allocation returns. It yields memory that lies in the transfer buffer whose id and offset it
  reports and that overlaps with no block in use, or, when no transfer buffer can be created, nothing.
\<close>

lemma mm_Alloc_ok:
  assumes g: "good h" and inv: "mm_inv (bufs h) (mm_chunks m)" and sz: "0 < sz"
    and mult: "0 < mm_chunk_size_multiple m" "unat sz + unat (mm_chunk_size_multiple m) \<le> 4294967296"
  shows "\<exists>r m' h'. mm_Alloc env sz m h = Some (r, m', h') \<and> good h' \<and> mm_inv (bufs h') (mm_chunks m') \<and>
    mm_chunk_size_multiple m' = mm_chunk_size_multiple m \<and> placed sz r (mm_chunks m) (mm_chunks m')"
proof -
  let ?m = "mm_chunk_size_multiple m"
  have "\<forall>c \<in> set (mm_chunks m). chunk_ok c" using inv by (auto simp: mm_inv_def chunk_in_def)
  from mm_alloc_loop_ok [OF g this sz] obtain r cs h1 where l: "mm_alloc_loop env sz (mm_chunks m) h = Some (r, cs, h1)"
    and h1: "good h1" "bufs h1 = bufs h" and cs: "list_all2 same_shm (mm_chunks m) cs" "\<forall>c \<in> set cs. chunk_ok c"
    and pl: "placed sz r (mm_chunks m) cs" by blast
  have inv1: "mm_inv (bufs h) cs" by (rule mm_inv_same [OF inv cs])
  show ?thesis
  proof (cases r)
    case (Some _)
    with l h1 inv1 pl show ?thesis by (simp add: mm_Alloc_def)
  next
    case None
    let ?n = "((sz + ?m - 1) div ?m) * ?m"
    obtain i h2 where c: "me_CreateTransferBuffer env ?n (-1) h1 = (i, h2)" by fastforce
    note h2 = create_law [OF h1(1) c]
    show ?thesis
    proof (cases "i = -1")
      case True
      with None l c mult(1) h1 h2 inv1 pl show ?thesis by (simp add: mm_Alloc_def Let_def)
    next
      case False
      with h2 obtain p where p: "0 < i" "bufs h1 i = None" "p \<noteq> NULL" "unat p + unat ?n < 4294967296"
        "bufs h2 = (bufs h1)(i \<mapsto> (p, ?n))" "\<forall>j b. bufs h1 j = Some b \<longrightarrow> \<not> overlap (p, ?n) b" and g2: "good h2" by auto
      obtain b h3 where b: "me_GetTransferBuffer env i h2 = (b, h3)" by fastforce
      have "bufs h2 i = Some (p, ?n)" using p(5) by simp
      note h3 = get_law [OF g2 this b]
      let ?c = "new_MemoryChunk i (p, ?n)"
      have ge: "sz \<le> ?n" by (rule chunk_size_ge [OF mult])
      have n0: "0 < ?n" using sz ge by (rule order.strict_trans2)
      have ok: "chunk_ok ?c" using FencedAllocator_inv [OF n0] p(3,4) by (simp add: chunk_ok_def new_MemoryChunk_def)
      have "GetLargestFreeSizeWithoutWaiting ?c = ?n"
        by (simp add: GetLargestFreeSizeWithoutWaiting_def new_MemoryChunk_def FencedAllocator_def GetLargestFreeSize_def)
      with mc_Alloc_free [OF ok _ sz] ge obtain q c' where a: "mc_Alloc env sz ?c h3 = Some (q, c', h3)" "q \<noteq> NULL" by metis
      note c' = mc_Alloc_ok [OF ok a(1)]
      have same: "mc_shm_id c' = i" "mc_shm_ptr c' = p" "mc_shm_size c' = ?n"
        using c'(2) by (simp_all add: same_shm_def new_MemoryChunk_def)
      have "chunk_use ?c = []" by (simp add: chunk_use_def new_MemoryChunk_def FencedAllocator_def)
      moreover have "max 1 sz = sz" by (rule u32_max_1 [OF sz])
      ultimately have "placed sz (Some (q, i, mc_GetOffset q c')) (mm_chunks m) (cs @ [c'])"
        using placed_last [OF placed_chunk [OF ok a]] same(1) pl None by simp
      moreover have "mm_inv (bufs h3) (cs @ [c'])"
      proof -
        have "chunk_in (bufs h3) c" "disjoint_chunks c c'" if "c \<in> set cs" for c
          using that inv1 h1(2) p(2,5,6) h3 same by (auto simp: mm_inv_def chunk_in_def disjoint_chunks_def)
        moreover have "chunk_in (bufs h3) c'" using c'(1) same p(1,5) h3 by (simp add: chunk_in_def)
        ultimately show ?thesis using inv1 by (auto simp: mm_inv_def sorted_wrt_append)
      qed
      ultimately show ?thesis
        using None l c b False mult(1) a h3 same(1) by (simp add: mm_Alloc_def Let_def)
    qed
  qed
qed

end

subsection \<open>Freeing\<close>

lemma IsInChunk_iff:
  assumes "chunk_ok c"
  shows "IsInChunk p c \<longleftrightarrow> unat p \<in> {unat (mc_shm_ptr c) ..< unat (mc_shm_ptr c) + unat (mc_shm_size c)}"
proof -
  have "unat (mc_shm_ptr c + mc_shm_size c) = unat (mc_shm_ptr c) + unat (mc_shm_size c)"
    using assms by (simp add: chunk_ok_def u32_add)
  then show ?thesis by (simp add: IsInChunk_def word_le_nat_alt word_less_nat_alt)
qed

lemma not_in_disjoint:
  assumes "chunk_ok c" and "chunk_ok d" and "disjoint_chunks c d" and "IsInChunk p d"
  shows "\<not> IsInChunk p c"
  using assms by (auto simp: IsInChunk_iff disjoint_chunks_def)

lemma mm_free_loop_ok:
  assumes f: "\<And>c. chunk_ok c \<Longrightarrow> (i, off, s) \<in> set (chunk_use c) \<Longrightarrow> p = mc_shm_ptr c + off \<Longrightarrow>
      \<exists>c'. f c = Some c' \<and> chunk_ok c' \<and> same_shm c c' \<and> mset (chunk_use c) = add_mset (i, off, s) (mset (chunk_use c'))"
    and c: "(i, off, s) \<in> set (chunk_use c)" "p = mc_shm_ptr c + off"
  shows "mm_inv bs cs \<Longrightarrow> c \<in> set cs \<Longrightarrow> \<exists>cs'. mm_free_loop f p cs = Some cs' \<and> list_all2 same_shm cs cs' \<and>
    (\<forall>c \<in> set cs'. chunk_ok c) \<and> mset (mm_use cs) = add_mset (i, off, s) (mset (mm_use cs'))"
proof (induction cs)
  case (Cons d cs)
  have ok: "chunk_ok d" "chunk_ok c" using Cons.prems by (auto simp: mm_inv_def chunk_in_def)
  have in_c: "IsInChunk p c" using chunk_useE [OF ok(2) c(1)] c(2) by metis
  show ?case
  proof (cases "c = d")
    case True
    with in_c f [OF ok(2) c] obtain c' where "f d = Some c'" "chunk_ok c'" "same_shm d c'"
      "mset (chunk_use d) = add_mset (i, off, s) (mset (chunk_use c'))" by auto
    with True in_c Cons.prems(1) show ?thesis by (auto simp: mm_inv_def chunk_in_def intro: list_all2_refl)
  next
    case False
    with Cons.prems have "c \<in> set cs" "disjoint_chunks d c" "mm_inv bs cs" by (auto simp: mm_inv_Cons)
    with Cons.IH not_in_disjoint [OF ok(1) ok(2) _ in_c] ok(1) show ?thesis by auto
  qed
qed simp

text \<open>
  \<open>mm_ptr\<close> is the pointer that the manager has given out for a block in use; freeing it takes exactly
  this block out of use.
\<close>

definition mm_ptr :: "MemoryChunk list \<Rightarrow> int \<Rightarrow> u32 \<Rightarrow> ptr option" where
  "mm_ptr cs i off = map_option (\<lambda>c. mc_shm_ptr c + off) (find (\<lambda>c. mc_shm_id c = i) cs)"

lemma mm_useE:
  assumes "mm_inv bs cs" and "(i, off, s) \<in> set (mm_use cs)" and "mm_ptr cs i off = Some p"
  obtains c where "c \<in> set cs" and "(i, off, s) \<in> set (chunk_use c)" and "p = mc_shm_ptr c + off"
proof -
  from assms(2) obtain c where c: "c \<in> set cs" "(i, off, s) \<in> set (chunk_use c)" by (auto simp: mm_use_def)
  then have "mc_shm_id c = i" by (auto simp: chunk_use_def)
  moreover obtain d where d: "d \<in> set cs" "mc_shm_id d = i" "p = mc_shm_ptr d + off"
  proof -
    from assms(3) obtain d where "find (\<lambda>c. mc_shm_id c = i) cs = Some d" and p: "p = mc_shm_ptr d + off"
      by (auto simp: mm_ptr_def)
    then have "d \<in> set cs" "mc_shm_id d = i" by (auto simp: find_Some_iff)
    with p that show thesis by blast
  qed
  moreover have "bs (mc_shm_id c) = Some (mc_shm_ptr c, mc_shm_size c)" "bs (mc_shm_id d) = Some (mc_shm_ptr d, mc_shm_size d)"
    using assms(1) c(1) d(1) by (auto simp: mm_inv_def chunk_in_def)
  ultimately have "mc_shm_ptr d = mc_shm_ptr c" by auto
  with c d(3) that show thesis by simp
qed

lemma mm_Free_ok:
  assumes inv: "mm_inv bs (mm_chunks m)" and u: "(i, off, s) \<in> set (mm_use (mm_chunks m))" "mm_ptr (mm_chunks m) i off = Some p"
  shows "\<exists>m'. mm_Free p m = Some m' \<and> mm_inv bs (mm_chunks m') \<and>
    mset (mm_use (mm_chunks m)) = add_mset (i, off, s) (mset (mm_use (mm_chunks m')))"
proof -
  from mm_useE [OF inv u] obtain c where c: "c \<in> set (mm_chunks m)" "(i, off, s) \<in> set (chunk_use c)" "p = mc_shm_ptr c + off" .
  have "\<exists>cs'. mm_free_loop (mc_Free p) p (mm_chunks m) = Some cs' \<and> list_all2 same_shm (mm_chunks m) cs' \<and>
      (\<forall>c \<in> set cs'. chunk_ok c) \<and> mset (mm_use (mm_chunks m)) = add_mset (i, off, s) (mset (mm_use cs'))"
    by (rule mm_free_loop_ok [OF _ c(2,3) inv c(1)]) (use mc_Free_ok in blast)
  with mm_inv_same [OF inv] show ?thesis by (auto simp: mm_Free_def)
qed

lemma mm_FreePendingToken_ok:
  assumes inv: "mm_inv bs (mm_chunks m)" and u: "(i, off, s) \<in> set (mm_use (mm_chunks m))" "mm_ptr (mm_chunks m) i off = Some p"
  shows "\<exists>m'. mm_FreePendingToken p t m = Some m' \<and> mm_inv bs (mm_chunks m') \<and>
    mset (mm_use (mm_chunks m)) = add_mset (i, off, s) (mset (mm_use (mm_chunks m')))"
proof -
  from mm_useE [OF inv u] obtain c where c: "c \<in> set (mm_chunks m)" "(i, off, s) \<in> set (chunk_use c)" "p = mc_shm_ptr c + off" .
  have "\<exists>cs'. mm_free_loop (mc_FreePendingToken p (uint32 t)) p (mm_chunks m) = Some cs' \<and> list_all2 same_shm (mm_chunks m) cs' \<and>
      (\<forall>c \<in> set cs'. chunk_ok c) \<and> mset (mm_use (mm_chunks m)) = add_mset (i, off, s) (mset (mm_use cs'))"
    by (rule mm_free_loop_ok [OF _ c(2,3) inv c(1)]) (use mc_FreePendingToken_ok in blast)
  with mm_inv_same [OF inv] show ?thesis by (auto simp: mm_FreePendingToken_def)
qed

context memory_provider
begin

lemma mm_free_unused_loop_ok:
  "good h \<Longrightarrow> mm_inv (bufs h) cs \<Longrightarrow> mm_free_unused_loop env cs h = (cs', h') \<Longrightarrow>
   good h' \<and> mm_inv (bufs h') cs' \<and> mm_use cs' = mm_use cs \<and> (\<forall>c \<in> set cs'. mc_InUse c) \<and>
   mc_shm_id ` set cs' \<subseteq> mc_shm_id ` set cs \<and>
   (\<forall>d. (\<forall>c \<in> set cs. disjoint_chunks d c) \<longrightarrow> (\<forall>c \<in> set cs'. disjoint_chunks d c)) \<and>
   (\<forall>i. bufs h' i = (if i \<in> mc_shm_id ` set cs - mc_shm_id ` set cs' then None else bufs h i))"
proof (induction cs arbitrary: h cs' h')
  case Nil
  then show ?case by simp
next
  case (Cons c cs)
  obtain c1 h1 where f: "mc_FreeUnused env c h = (c1, h1)" by fastforce
  have c: "chunk_in (bufs h) c" "\<forall>d \<in> set cs. disjoint_chunks c d" "mm_inv (bufs h) cs" using Cons.prems(2) by (simp_all add: mm_inv_Cons)
  then have ok: "chunk_ok c" by (simp add: chunk_in_def)
  note c1 = mc_FreeUnused_ok [OF ok f] and h1 = FreeUnused_law [OF Cons.prems(1) ok f]
  have eq: "mc_shm_id c1 = mc_shm_id c" using c1(2) by (simp add: same_shm_def)
  show ?case
  proof (cases "mc_InUse c1")
    case False
    let ?h = "me_DestroyTransferBuffer env (mc_shm_id c1) h1"
    have run: "mm_free_unused_loop env cs ?h = (cs', h')" using Cons.prems(3) f False by simp
    have "0 < mc_shm_id c1" "bufs h1 (mc_shm_id c1) = Some (mc_shm_ptr c, mc_shm_size c)"
      using c(1) eq h1 by (simp_all add: chunk_in_def)
    with destroy_law h1 have h2: "good ?h" "bufs ?h = (bufs h)(mc_shm_id c := None)" using eq by auto
    have "mm_inv (bufs ?h) cs"
      using c(2,3) unfolding h2(2) by (auto simp: mm_inv_def chunk_in_def disjoint_chunks_def)
    note IH = Cons.IH [OF h2(1) this run]
    have inv1: "fa_inv (mc_shm_size c1) (chunk_blocks c1)" using c1(1) by (simp add: chunk_ok_def)
    have "chunk_use c1 = []"
      using False InUse_iff [OF inv1] by (auto simp: chunk_use_def mc_InUse_def filter_empty_conv)
    then have use: "mm_use cs' = mm_use (c # cs)" using IH c1(3) by simp
    have nin: "mc_shm_id c \<notin> mc_shm_id ` set cs" using c(2) by (auto simp: disjoint_chunks_def)
    have ids: "mc_shm_id ` set cs' \<subseteq> mc_shm_id ` set cs" using IH by blast
    have "bufs h' i = (if i \<in> mc_shm_id ` set (c # cs) - mc_shm_id ` set cs' then None else bufs h i)" for i
    proof -
      have "bufs h' i = (if i \<in> mc_shm_id ` set cs - mc_shm_id ` set cs' then None else ((bufs h)(mc_shm_id c := None)) i)"
        using IH unfolding h2(2) by blast
      then show ?thesis using nin ids by (cases "i = mc_shm_id c") auto
    qed
    with IH use ids show ?thesis by (intro conjI allI impI) (blast, blast, simp, blast, auto)
  next
    case True
    obtain cs1 h2 where run: "mm_free_unused_loop env cs h1 = (cs1, h2)" by fastforce
    then have r: "cs' = c1 # cs1" "h' = h2" using Cons.prems(3) f True by simp_all
    have "mm_inv (bufs h1) cs" using c(3) h1 by simp
    note IH = Cons.IH [OF _ this run]
    have h2: "good h2" "mm_inv (bufs h2) cs1" "mm_use cs1 = mm_use cs" "\<forall>c \<in> set cs1. mc_InUse c"
      "mc_shm_id ` set cs1 \<subseteq> mc_shm_id ` set cs" "\<forall>c' \<in> set cs1. disjoint_chunks c c'"
      "\<forall>i. bufs h2 i = (if i \<in> mc_shm_id ` set cs - mc_shm_id ` set cs1 then None else bufs h i)"
      "\<forall>d. (\<forall>c \<in> set cs. disjoint_chunks d c) \<longrightarrow> (\<forall>c \<in> set cs1. disjoint_chunks d c)"
      using IH h1 c(2) by auto
    have nin: "mc_shm_id c \<notin> mc_shm_id ` set cs" using c(2) by (auto simp: disjoint_chunks_def)
    then have "bufs h2 (mc_shm_id c) = bufs h (mc_shm_id c)" using h2(7) by auto
    then have "chunk_in (bufs h2) c1" using chunk_in_same [OF _ c1(1,2), of "bufs h2"] c(1) by (simp add: chunk_in_def)
    moreover have "\<forall>d \<in> set cs1. disjoint_chunks c1 d" using h2(6) disjoint_same(1) [OF c1(2)] by blast
    ultimately have inv': "mm_inv (bufs h') cs'" unfolding r using h2(2) by (simp add: mm_inv_Cons)
    have "disjoint_chunks d c1 = disjoint_chunks d c" for d using disjoint_same(2) [OF c1(2)] by simp
    then have "good h' \<and> mm_use cs' = mm_use (c # cs) \<and> (\<forall>c \<in> set cs'. mc_InUse c) \<and>
        mc_shm_id ` set cs' \<subseteq> mc_shm_id ` set (c # cs) \<and>
        (\<forall>d. (\<forall>c \<in> set (c # cs). disjoint_chunks d c) \<longrightarrow> (\<forall>c \<in> set cs'. disjoint_chunks d c))"
      unfolding r using h2(1,3-5,8) True c1(3) eq by auto
    moreover have "\<forall>i. bufs h' i = (if i \<in> mc_shm_id ` set (c # cs) - mc_shm_id ` set cs' then None else bufs h i)"
      unfolding r using h2(7) eq nin by auto
    ultimately show ?thesis using inv' by blast
  qed
qed

text \<open>
  \<^verbatim>\<open>FreeUnused\<close> destroys the transfer buffers of exactly the chunks in which no block is in use or pending.
\<close>

lemma mm_FreeUnused_ok:
  assumes "good h" and "mm_inv (bufs h) (mm_chunks m)" and "mm_FreeUnused env m h = (m', h')"
  shows "good h'" and "mm_inv (bufs h') (mm_chunks m')" and "mm_use (mm_chunks m') = mm_use (mm_chunks m)"
    and "\<forall>c \<in> set (mm_chunks m'). mc_InUse c"
    and "bufs h' i = (if i \<in> mc_shm_id ` set (mm_chunks m) - mc_shm_id ` set (mm_chunks m') then None else bufs h i)"
proof -
  obtain cs1 where l: "mm_free_unused_loop env (mm_chunks m) h = (cs1, h')" and m': "m' = m\<lparr>mm_chunks := cs1\<rparr>"
    using assms(3) by (auto simp: mm_FreeUnused_def split: prod.splits)
  from mm_free_unused_loop_ok [OF assms(1,2) l] m'
  show "good h'" "mm_inv (bufs h') (mm_chunks m')" "mm_use (mm_chunks m') = mm_use (mm_chunks m)"
    "\<forall>c \<in> set (mm_chunks m'). mc_InUse c"
    "bufs h' i = (if i \<in> mc_shm_id ` set (mm_chunks m) - mc_shm_id ` set (mm_chunks m') then None else bufs h i)"
    by simp_all
qed

end

end
