(* ===== verification/Client_Memory.thy ===== *)
theory Client_Memory
  imports Client_Service Mapped_Memory
begin

text \<open>
  The mapped memory of the client on the service: the helper and its command buffer provide the
  manager with transfer buffers. \<open>addr\<close> is the address at which the system maps an object.
\<close>

subsection \<open>The operations the manager uses\<close>

definition helper_memory ::
    "'w client_env \<Rightarrow> (obj \<Rightarrow> ptr) \<Rightarrow> 'w CommandBufferHelper memory_env" where
  "helper_memory cb addr =
     \<lparr>me_WaitForToken = WaitForToken cb,
      me_last_token_read = last_token_read cb,
      me_CreateTransferBuffer = (\<lambda>sz i h. let (r, w) = cb_CreateTransferBuffer cb sz i (hp_cb h) in (r, h\<lparr>hp_cb := w\<rparr>)),
      me_GetTransferBuffer = (\<lambda>i h. let (b, w) = cb_GetTransferBuffer cb i (hp_cb h)
         in ((case buf_ptr b of None \<Rightarrow> NULL | Some ob \<Rightarrow> addr ob, buf_size b), h\<lparr>hp_cb := w\<rparr>)),
      me_DestroyTransferBuffer = (\<lambda>i h. h\<lparr>hp_cb := cb_DestroyTransferBuffer cb i (hp_cb h)\<rparr>)\<rparr>"

text \<open>The transfer buffers other than the ring buffer.\<close>

definition service_bufs :: "(obj \<Rightarrow> ptr) \<Rightarrow> 'a GpuScheduler_scheme CommandBufferHelper \<Rightarrow> int \<Rightarrow> (ptr \<times> u32) option" where
  "service_bufs addr h i =
     (let b = GetTransferBuffer i (hp_cb h) in
      case buf_ptr b of
        None \<Rightarrow> None
      | Some ob \<Rightarrow> if hp_entries h = Some (ob, 0) then None else Some (addr ob, buf_size b))"

text \<open>
  What is relied on of the system: a mapping gets addresses that are not null, do not wrap around and
  do not overlap with those of another mapping, and the table of the buffers does not fill the address
  space.
\<close>

definition map_addr_ok ::
    "(obj \<Rightarrow> ptr) \<Rightarrow> (obj \<Rightarrow> u32 \<Rightarrow> 'a CommandBufferService_scheme \<Rightarrow> (obj \<times> 'a CommandBufferService_scheme) option) \<Rightarrow> bool" where
  "map_addr_ok addr map_shm \<longleftrightarrow> (\<forall>sm sz w ob w'. map_shm sm sz w = Some (ob, w') \<longrightarrow>
     addr ob \<noteq> NULL \<and> unat (addr ob) + unat sz < 4294967296 \<and> length (cs_registered_objects w) < 2147483647 \<and>
     (\<forall>b \<in> set (cs_registered_objects w). \<forall>ob'. buf_ptr b = Some ob' \<longrightarrow> \<not> overlap (addr ob, sz) (addr ob', buf_size b)))"

definition memory_good :: "'a GpuScheduler_scheme CommandBufferHelper \<Rightarrow> bool" where
  "memory_good h \<longleftrightarrow> (\<exists>n ob cs. 2 < n \<and> client_inv n ob cs h) \<and> length (cs_registered_objects (hp_cb h)) < 2147483648"

subsection \<open>Other transfer buffers do not disturb the ring buffer\<close>

abbreviation with_objects where
  "with_objects w m objs un x \<equiv>
     w\<lparr>mem := m, cs_registered_objects := objs, cs_unused_elements := un, cs_shared_memory_bytes_allocated := x\<rparr>"

lemma ring_world_objects:
  assumes "ring_world n ob w" and "m ob = mem w ob" and "svc_inv (with_objects w m objs un x)"
  shows "ring_world n ob (with_objects w m objs un x)"
  using assms by (auto simp: ring_world_def sched_inv_def parser_inv_def dec_inv_def)

lemma client_inv_objects:
  assumes inv: "client_inv n ob cs h" and m: "m ob = mem (hp_cb h) ob"
    and s: "svc_inv (with_objects (hp_cb h) m objs un x)"
    and r: "buf_shared_memory (table_lookup objs (cs_ring_buffer_id (hp_cb h))) = Some ob"
  shows "client_inv n ob cs (h\<lparr>hp_cb := with_objects (hp_cb h) m objs un x\<rparr>)"
proof -
  have "ring_world n ob (hp_cb h)" using inv by (simp add: client_inv_def helper_core_def service_world_def)
  from ring_world_objects [where m = m, OF this m s]
  have "ring_world n ob (with_objects (hp_cb h) m objs un x)" .
  moreover have "pending m ob n g p cs" if "pending (mem (hp_cb h)) ob n g p cs" for g p
    by (rule pending_frame [OF that]) (simp add: read_u32_def read_bytes_def m)
  ultimately show ?thesis
    using inv r by (simp add: client_inv_def helper_core_def service_world_def HaveRingBuffer_def GetTransferBuffer_lookup)
qed

lemma client_invD:
  assumes "client_inv n ob cs h"
  shows "hp_entries h = Some (ob, 0)" and "svc_inv (hp_cb h)"
    and "buf_shared_memory (GetTransferBuffer (cs_ring_buffer_id (hp_cb h)) (hp_cb h)) = Some ob"
    and "Some ob \<in> buf_shared_memory ` set (cs_registered_objects (hp_cb h))"
  using assms GetTransferBuffer_in [of "cs_ring_buffer_id (hp_cb h)" "hp_cb h", OF refl]
  by (simp_all add: client_inv_def helper_core_def service_world_def ring_world_def sched_inv_def)

text \<open>The buffers that a table holds, other than the one in \<open>ob\<close>.\<close>

definition table_bufs :: "(obj \<Rightarrow> ptr) \<Rightarrow> obj \<Rightarrow> Buffer \<Rightarrow> (ptr \<times> u32) option" where
  "table_bufs addr ob b =
     (case buf_ptr b of None \<Rightarrow> None | Some ob' \<Rightarrow> if ob' = ob then None else Some (addr ob', buf_size b))"

lemma service_bufs_table:
  "hp_entries h = Some (ob, 0) \<Longrightarrow> service_bufs addr h i = table_bufs addr ob (table_lookup (cs_registered_objects (hp_cb h)) i)"
  by (auto simp: service_bufs_def table_bufs_def GetTransferBuffer_lookup Let_def split: option.splits)

lemma service_bufs_cong:
  "buffers_of (hp_cb h') = buffers_of (hp_cb h) \<Longrightarrow> hp_entries h' = hp_entries h \<Longrightarrow> service_bufs addr h' = service_bufs addr h"
  by (intro ext) (auto simp: service_bufs_def GetTransferBuffer_lookup buffers_of_def Let_def split: option.split)

lemma buffer_ptr_shm:
  assumes "svc_inv w"
  shows "buf_ptr (table_lookup (cs_registered_objects w) i) = buf_shared_memory (table_lookup (cs_registered_objects w) i)"
  using assms by (auto simp: table_lookup_def null_Buffer_def svc_inv_def buffer_ok_def)

lemma table_lookup_in: "table_lookup objs i \<noteq> null_Buffer \<Longrightarrow> table_lookup objs i \<in> set objs"
  by (auto simp: table_lookup_def)

text \<open>Creating a transfer buffer.\<close>

lemma service_create:
  assumes g: "client_inv n ob cs h" "length (cs_registered_objects (hp_cb h)) < 2147483648"
    and ok: "create_ok create" "map_shm_ok map_shm" "map_addr_ok addr map_shm"
    and c: "CreateTransferBuffer create map_shm sz (-1) (hp_cb h) = (i, w')"
  shows "client_inv n ob cs (h\<lparr>hp_cb := w'\<rparr>) \<and> length (cs_registered_objects w') < 2147483648 \<and>
    (i = -1 \<and> service_bufs addr (h\<lparr>hp_cb := w'\<rparr>) = service_bufs addr h \<or> 0 < i \<and> service_bufs addr h i = None \<and>
      (\<exists>p. p \<noteq> NULL \<and> unat p + unat sz < 4294967296 \<and> service_bufs addr (h\<lparr>hp_cb := w'\<rparr>) = (service_bufs addr h)(i \<mapsto> (p, sz)) \<and>
         (\<forall>j b. service_bufs addr h j = Some b \<longrightarrow> \<not> overlap (p, sz) b)))"
proof (cases "create sz (hp_cb h)")
  case None
  then have "i = -1" "w' = hp_cb h" using c by (simp_all add: CreateTransferBuffer_def)
  with g show ?thesis by simp
next
  case (Some r)
  note ents = client_invD [OF g(1)]
  obtain sm w1 where r: "r = (sm, w1)" by fastforce
  with Some ok(1) obtain bytes where f: "Some sm \<notin> buf_shared_memory ` set (cs_registered_objects (hp_cb h))"
    and w1: "w1 = (hp_cb h)\<lparr>mem := (mem (hp_cb h))(sm := bytes)\<rparr>" unfolding create_ok_def by blast
  let ?x = "cs_shared_memory_bytes_allocated (hp_cb h) + sz" and ?m = "(mem (hp_cb h))(sm := bytes)"
  let ?w2 = "(hp_cb h)\<lparr>mem := ?m, cs_shared_memory_bytes_allocated := ?x\<rparr>"
  have ob: "sm \<noteq> ob" using f ents(4) by auto
  have inv2: "svc_inv ?w2" "length (cs_registered_objects ?w2) < 2147483648"
    using g(2) svc_inv_map [OF _ f, of bytes] ents(2) by (simp_all add: svc_inv_def)
  have reg: "RegisterTransferBuffer map_shm sm sz (-1) ?w2 = (i, w')" using c Some r w1 by (simp add: CreateTransferBuffer_def)
  have inv': "svc_inv w'" by (rule RegisterTransferBuffer_inv [OF inv2 ok(2) reg])
  show ?thesis
    using inv2 ok(2) reg
  proof (cases rule: RegisterTransferBuffer_cases)
    case fail
    have eq: "w' = with_objects (hp_cb h) ?m (cs_registered_objects (hp_cb h)) (cs_unused_elements (hp_cb h)) ?x"
      using fail(2) by simp
    have "client_inv n ob cs (h\<lparr>hp_cb := w'\<rparr>)"
      unfolding eq using ob inv' ents(3) eq by (intro client_inv_objects [OF g(1)]) (simp_all add: GetTransferBuffer_lookup)
    moreover have "service_bufs addr (h\<lparr>hp_cb := w'\<rparr>) = service_bufs addr h"
      by (rule service_bufs_cong) (simp_all add: fail(2) buffers_of_def)
    ultimately show ?thesis using fail g(2) by simp
  next
    case (yes ob' bytes' objects' unused')
    let ?b = "\<lparr>buf_ptr = Some ob', buf_size = sz, buf_shared_memory = Some ob'\<rparr>" and ?o = "cs_registered_objects (hp_cb h)"
    have put: "table_put ?b i ?o objects'" using yes(4) by simp
    note look = table_put_lookup [OF put]
    have i1: "i \<noteq> -1" using put by (auto simp: table_put_def)
    have pos: "0 < i" "nat i \<le> length ?o" using RegisterTransferBuffer_pos [OF inv2 ok(2) reg i1] by simp_all
    have ob': "ob' \<noteq> ob" using yes(2) ents(4) by auto
    from ok(3) yes(7) have a: "addr ob' \<noteq> NULL" "unat (addr ob') + unat sz < 4294967296" "length ?o < 2147483647"
      "\<forall>b \<in> set ?o. \<forall>ob2. buf_ptr b = Some ob2 \<longrightarrow> \<not> overlap (addr ob', sz) (addr ob2, buf_size b)"
      unfolding map_addr_ok_def by fastforce+
    have eq: "w' = with_objects (hp_cb h) (?m(ob' := bytes')) objects' unused' ?x" using yes(3) by simp
    have ri: "cs_ring_buffer_id (hp_cb h) \<noteq> i" using look(2) ents(3) by (auto simp: GetTransferBuffer_lookup)
    then have "client_inv n ob cs (h\<lparr>hp_cb := w'\<rparr>)"
      unfolding eq using ob ob' inv' ents(3) eq look(1) by (intro client_inv_objects [OF g(1)]) (simp_all add: GetTransferBuffer_lookup)
    moreover have "length (cs_registered_objects w') < 2147483648" using put a(3) pos(2) by (auto simp: table_put_def eq)
    moreover have "service_bufs addr (h\<lparr>hp_cb := w'\<rparr>) = (service_bufs addr h)(i \<mapsto> (addr ob', sz))"
      using ents(1) look(1) ob' by (auto simp: fun_eq_iff service_bufs_table eq table_bufs_def)
    moreover have "service_bufs addr h i = None"
      using buffer_ptr_shm [OF ents(2), of i] look(2) by (simp add: service_bufs_table [OF ents(1)] table_bufs_def)
    moreover have "\<not> overlap (addr ob', sz) b" if "service_bufs addr h j = Some b" for j b
      using that a(4) table_lookup_in [of ?o j]
      by (fastforce simp: service_bufs_table [OF ents(1)] table_bufs_def null_Buffer_def split: option.splits if_splits)
    ultimately show ?thesis using pos(1) a(1,2) by blast
  qed
qed

text \<open>Destroying one.\<close>

lemma shrink_objects_length: "length (fst (shrink_objects objects unused)) \<le> length objects"
proof (induction objects unused rule: shrink_objects.induct)
  case (1 objects unused)
  show ?case
  proof (cases "length objects > 1 \<and> buf_shared_memory (last objects) = None")
    case True
    have "length (butlast objects) \<le> length objects" by simp
    with "1.IH" [OF True] show ?thesis
      unfolding shrink_objects.simps [of objects unused] if_P [OF True] by (rule order_trans)
  next
    case False
    then show ?thesis unfolding shrink_objects.simps [of objects unused] if_not_P [OF False] by simp
  qed
qed

lemma DestroyTransferBuffer_frame:
  assumes "handle \<noteq> cs_ring_buffer_id w"
  shows "\<exists>m objs un x. DestroyTransferBuffer handle w = with_objects w m objs un x \<and> length objs \<le> length (cs_registered_objects w)"
proof (cases "handle \<le> 0 \<or> nat handle \<ge> length (cs_registered_objects w)")
  case True
  then have "DestroyTransferBuffer handle w = w" by (auto simp: DestroyTransferBuffer_def)
  then show ?thesis
    by (intro exI [of _ "mem w"] exI [of _ "cs_registered_objects w"] exI [of _ "cs_unused_elements w"]
        exI [of _ "cs_shared_memory_bytes_allocated w"]) simp
next
  case False
  let ?o = "(cs_registered_objects w)[nat handle := null_Buffer]" and ?b = "cs_registered_objects w ! nat handle"
  obtain objects unused where s: "shrink_objects ?o (insort_insert handle (cs_unused_elements w)) = (objects, unused)" by fastforce
  have "DestroyTransferBuffer handle w =
      with_objects w (case buf_shared_memory ?b of None \<Rightarrow> mem w | Some ob \<Rightarrow> (mem w)(ob := [])) objects unused
        (cs_shared_memory_bytes_allocated w - buf_size ?b)"
    using False assms s by (simp add: DestroyTransferBuffer_def Let_def)
  with shrink_objects_length [of ?o "insort_insert handle (cs_unused_elements w)"] s show ?thesis by (intro exI conjI) (assumption, simp)
qed

lemma service_destroy:
  assumes g: "client_inv n ob cs h" "length (cs_registered_objects (hp_cb h)) < 2147483648"
    and b: "service_bufs addr h i = Some b" and pos: "0 < i"
  shows "client_inv n ob cs (h\<lparr>hp_cb := DestroyTransferBuffer i (hp_cb h)\<rparr>) \<and>
    length (cs_registered_objects (DestroyTransferBuffer i (hp_cb h))) < 2147483648 \<and>
    service_bufs addr (h\<lparr>hp_cb := DestroyTransferBuffer i (hp_cb h)\<rparr>) = (service_bufs addr h)(i := None)"
proof -
  let ?w = "DestroyTransferBuffer i (hp_cb h)" and ?o = "cs_registered_objects (hp_cb h)"
  note ents = client_invD [OF g(1)]
  obtain ob' where ob': "buf_shared_memory (table_lookup ?o i) = Some ob'" "ob' \<noteq> ob"
    using b buffer_ptr_shm [OF ents(2), of i]
    by (auto simp: service_bufs_table [OF ents(1)] table_bufs_def split: option.splits if_splits)
  have ri: "i \<noteq> cs_ring_buffer_id (hp_cb h)" using ob' ents(3) by (auto simp: GetTransferBuffer_lookup)
  from DestroyTransferBuffer_frame [OF ri] obtain m objs un x where w: "?w = with_objects (hp_cb h) m objs un x"
    and len: "length objs \<le> length ?o" by blast
  have look: "table_lookup (cs_registered_objects ?w) j = (if j = i then null_Buffer else table_lookup ?o j)" for j
    using DestroyTransferBuffer_lookup [OF ents(2), of j i] pos by (simp add: GetTransferBuffer_lookup)
  have s: "svc_inv ?w" by (rule DestroyTransferBuffer_inv [OF ents(2)])
  have m: "mem ?w ob = mem (hp_cb h) ob"
    using ents(2)
  proof (cases rule: DestroyTransferBuffer_cases [where handle = i])
    case (yes objects' unused' m)
    have "cs_registered_objects (hp_cb h) ! nat i = table_lookup ?o i" using yes(1,2) by (simp add: table_lookup_def)
    with ob' yes(3,4) show ?thesis by simp
  qed simp
  have "service_bufs addr (h\<lparr>hp_cb := ?w\<rparr>) = (service_bufs addr h)(i := None)"
    using ents(1) look by (auto simp: fun_eq_iff service_bufs_table table_bufs_def null_Buffer_def)
  moreover have "client_inv n ob cs (h\<lparr>hp_cb := with_objects (hp_cb h) m objs un x\<rparr>)"
    using m s ents(3) look [of "cs_ring_buffer_id (hp_cb h)"] ri unfolding w
    by (intro client_inv_objects [OF g(1)]) (simp_all add: GetTransferBuffer_lookup)
  ultimately show ?thesis using len g(2) unfolding w by simp
qed

subsection \<open>The provider\<close>

lemma good_advanced:
  assumes inv: "client_inv n ob cs h" and n: "2 < n"
    and c: "helper_core (service_world (buffers_of (hp_cb h))) cs_get_offset svc_ok n ob cs' h'"
    and adv: "advanced cs_get_offset cs_token svc_ok cs cs' h h'" and len: "length (cs_registered_objects (hp_cb h)) < 2147483648"
  shows "memory_good h' \<and> service_bufs addr h' = service_bufs addr h"
proof -
  have eq: "buffers_of (hp_cb h') = buffers_of (hp_cb h)" using c by (simp add: helper_core_def service_world_def)
  with n client_advanced [OF inv c adv] len service_bufs_cong [OF eq advanced_fields(6) [OF adv]] show ?thesis
    by (auto simp: memory_good_def buffers_of_def)
qed

locale service_memory =
  fixes e :: "'a GpuScheduler_scheme sched_env"
    and create :: "u32 \<Rightarrow> 'a GpuScheduler_scheme \<Rightarrow> (obj \<times> 'a GpuScheduler_scheme) option"
    and map_shm :: "obj \<Rightarrow> u32 \<Rightarrow> 'a GpuScheduler_scheme \<Rightarrow> (obj \<times> 'a GpuScheduler_scheme) option"
    and clock :: "'a GpuScheduler_scheme \<Rightarrow> int" and android :: bool and addr :: "obj \<Rightarrow> ptr"
  assumes create: "create_ok create" and map_shm: "map_shm_ok map_shm" and map_addr: "map_addr_ok addr map_shm"

sublocale service_memory \<subseteq> memory_provider "helper_memory (service_cb e create map_shm clock android) addr" "service_bufs addr" memory_good
proof unfold_locales
  let ?cb = "service_cb e create map_shm clock android"
  fix h h' :: "'a GpuScheduler_scheme CommandBufferHelper" and i t :: int and b b' :: "ptr \<times> u32" and sz :: u32
  assume "memory_good h"
  then obtain n ob cs where inv: "client_inv n ob cs h" and n: "2 < n" and len: "length (cs_registered_objects (hp_cb h)) < 2147483648"
    by (auto simp: memory_good_def)
  show "b' = b \<and> memory_good h' \<and> service_bufs addr h' = service_bufs addr h"
    if "service_bufs addr h i = Some b" "me_GetTransferBuffer (helper_memory ?cb addr) i h = (b', h')"
    using that \<open>memory_good h\<close>
    by (auto simp: helper_memory_def service_cb_def service_bufs_def split: option.splits if_splits)
  show "memory_good h' \<and> (i = -1 \<and> service_bufs addr h' = service_bufs addr h \<or> 0 < i \<and> service_bufs addr h i = None \<and>
      (\<exists>p. p \<noteq> NULL \<and> unat p + unat sz < 4294967296 \<and> service_bufs addr h' = (service_bufs addr h)(i \<mapsto> (p, sz)) \<and>
         (\<forall>j b. service_bufs addr h j = Some b \<longrightarrow> \<not> overlap (p, sz) b)))"
    if "me_CreateTransferBuffer (helper_memory ?cb addr) sz (-1) h = (i, h')"
  proof -
    obtain r w' where c': "CreateTransferBuffer create map_shm sz (-1) (hp_cb h) = (r, w')" by fastforce
    then have "r = i" and h': "h' = h\<lparr>hp_cb := w'\<rparr>" using that by (simp_all add: helper_memory_def service_cb_def)
    then have c: "CreateTransferBuffer create map_shm sz (-1) (hp_cb h) = (i, w')" using c' by simp
    from service_create [OF inv len create map_shm map_addr c] n show ?thesis
      unfolding h' memory_good_def by auto
  qed
  show "memory_good (me_DestroyTransferBuffer (helper_memory ?cb addr) i h) \<and>
      service_bufs addr (me_DestroyTransferBuffer (helper_memory ?cb addr) i h) = (service_bufs addr h)(i := None)"
    if "0 < i" "service_bufs addr h i = Some b"
    using service_destroy [OF inv len that(2,1)] n by (auto simp: helper_memory_def service_cb_def memory_good_def)
  show "memory_good h' \<and> service_bufs addr h' = service_bufs addr h"
    if "me_WaitForToken (helper_memory ?cb addr) t h = Some h'"
  proof -
    have "WaitForToken ?cb t h = Some h'" using that by (simp add: helper_memory_def)
    from svc.WaitForToken_result [OF client_coreD [OF inv] this] good_advanced [OF inv n _ _ len] show ?thesis by blast
  qed
  show "memory_good h' \<and> service_bufs addr h' = service_bufs addr h"
    if "me_last_token_read (helper_memory ?cb addr) h = (t, h')"
  proof -
    have "last_token_read ?cb h = (t, h')" using that by (simp add: helper_memory_def)
    from svc.last_token_core [OF client_coreD(1) [OF inv] this] good_advanced [OF inv n _ _ len] show ?thesis by blast
  qed
qed

subsection \<open>An instance\<close>

text \<open>
  A system that meets what is relied on: an object gets a number that no registered buffer has, and a
  mapping is refused unless its addresses are free.
\<close>

definition fresh_obj :: "'a CommandBufferService_scheme \<Rightarrow> obj" where
  "fresh_obj w = Suc (fold max (map (\<lambda>b. case buf_shared_memory b of None \<Rightarrow> 0 | Some ob \<Rightarrow> ob) (cs_registered_objects w)) 0)"

definition os_create :: "u32 \<Rightarrow> 'a CommandBufferService_scheme \<Rightarrow> (obj \<times> 'a CommandBufferService_scheme) option" where
  "os_create sz w = Some (fresh_obj w, w\<lparr>mem := (mem w)(fresh_obj w := replicate (unat sz) 0)\<rparr>)"

definition os_map ::
    "(obj \<Rightarrow> ptr) \<Rightarrow> obj \<Rightarrow> u32 \<Rightarrow> 'a CommandBufferService_scheme \<Rightarrow> (obj \<times> 'a CommandBufferService_scheme) option" where
  "os_map addr sm sz w =
     (if (\<forall>b \<in> set (cs_registered_objects w). buf_shared_memory b \<noteq> Some sm) \<and> unat sz \<le> length (mem w sm) \<and>
         addr sm \<noteq> NULL \<and> unat (addr sm) + unat sz < 4294967296 \<and> length (cs_registered_objects w) < 2147483647 \<and>
         (\<forall>b \<in> set (cs_registered_objects w).
            case buf_ptr b of None \<Rightarrow> True | Some ob \<Rightarrow> \<not> overlap (addr sm, sz) (addr ob, buf_size b))
      then Some (sm, w) else None)"

lemma fold_max_nat_ge: "(y :: nat) \<le> x \<Longrightarrow> y \<le> fold max xs x"
  by (induction xs arbitrary: x) (auto intro: le_max_iff_disj [THEN iffD2])

lemma fold_max_member: "y \<in> set xs \<Longrightarrow> (y :: nat) \<le> fold max xs x"
  by (induction xs arbitrary: x) (auto intro: fold_max_nat_ge)

lemma os_create_ok: "create_ok os_create"
proof -
  have "buf_shared_memory b \<noteq> Some (fresh_obj w)" if "b \<in> set (cs_registered_objects w)" for b and w :: "'a CommandBufferService_scheme"
    using fold_max_member [of "case buf_shared_memory b of None \<Rightarrow> 0 | Some ob \<Rightarrow> ob" "map (\<lambda>b. case buf_shared_memory b of None \<Rightarrow> 0 | Some ob \<Rightarrow> ob) (cs_registered_objects w)" 0] that
    by (auto simp: fresh_obj_def split: option.splits)
  then show ?thesis unfolding create_ok_def os_create_def by (auto simp: image_iff) (metis+)
qed

lemma os_map_shm_ok: "map_shm_ok (os_map addr)"
proof -
  have "w = w\<lparr>mem := (mem w)(ob := mem w ob)\<rparr>" for w :: "'a CommandBufferService_scheme" and ob by simp
  then show ?thesis
    unfolding map_shm_ok_def os_map_def by (auto simp: image_iff split: if_splits)
qed

lemma os_map_addr_ok: "map_addr_ok addr (os_map addr)"
  unfolding map_addr_ok_def os_map_def by (fastforce split: if_splits)

interpretation os: service_memory e os_create "os_map addr" clock android addr
  for e clock android addr
  by unfold_locales (rule os_create_ok os_map_shm_ok os_map_addr_ok)+

end
