(* ===== verification/Transfer_Buffer.thy ===== *)
theory Transfer_Buffer
  imports Ring_Buffer Mapped_Memory
begin

text \<open>
  \<^verbatim>\<open>TransferBuffer\<close>, \<^verbatim>\<open>AlignedRingBuffer\<close> and \<^verbatim>\<open>ScopedTransferBufferPtr\<close> of \<^verbatim>\<open>gpu/command_buffer/client/transfer_buffer.cc\<close>
  and \<^verbatim>\<open>transfer_buffer.h\<close>: one transfer buffer that starts with an area for results, with a ring allocator over the
  rest, and that is replaced by a larger one when a request needs it. The helper and its command buffer are the state \<open>'h\<close>.
  A failed assertion, a shift by the width of the type and a call that does not return are \<^const>\<open>None\<close>.
\<close>

subsection \<open>The aligned ring buffer\<close>

record AlignedRingBuffer =
  ar_wrapper :: RingBufferWrapper
  ar_alignment :: u32
  ar_shm_id :: int

definition new_AlignedRingBuffer :: "u32 \<Rightarrow> int \<Rightarrow> u32 \<Rightarrow> u32 \<Rightarrow> ptr \<Rightarrow> AlignedRingBuffer" where
  "new_AlignedRingBuffer alignment shm_id base_offset sz base =
     \<lparr>ar_wrapper = new_RingBufferWrapper base_offset sz base, ar_alignment = alignment, ar_shm_id = shm_id\<rparr>"

unbundle bit_operations_syntax

definition RoundToAlignment :: "u32 \<Rightarrow> u32 \<Rightarrow> u32" where
  "RoundToAlignment alignment sz = (sz + alignment - 1) AND NOT (alignment - 1)"

definition ar_Alloc ::
    "(int \<Rightarrow> 'h \<Rightarrow> 'h option) \<Rightarrow> u32 \<Rightarrow> AlignedRingBuffer \<Rightarrow> 'h \<Rightarrow> (ptr \<times> AlignedRingBuffer \<times> 'h) option" where
  "ar_Alloc wait sz a h = do {
     (p, w, h1) \<leftarrow> rw_Alloc wait (RoundToAlignment (ar_alignment a) sz) (ar_wrapper a) h;
     Some (p, a\<lparr>ar_wrapper := w\<rparr>, h1)
   }"

definition ar_GetLargestFreeOrPendingSize :: "AlignedRingBuffer \<Rightarrow> u32" where
  "ar_GetLargestFreeOrPendingSize a = RingBuffer_GetLargestFreeOrPendingSize (rw_allocator (ar_wrapper a))"

subsection \<open>Powers of two\<close>

text \<open>The loop of \<^verbatim>\<open>Log2Floor\<close> over the shifts 16, 8, 4, 2 and 1.\<close>

fun log2_loop :: "nat list \<Rightarrow> u32 \<Rightarrow> int \<Rightarrow> u32 \<times> int" where
  "log2_loop [] v l = (v, l)"
| "log2_loop (shift # rest) v l =
     (let x = drop_bit shift v in if x \<noteq> 0 then log2_loop rest x (l + int shift) else log2_loop rest v l)"

definition Log2Floor :: "u32 \<Rightarrow> int option" where
  "Log2Floor n =
     (if n = 0 then Some (-1)
      else case log2_loop [16, 8, 4, 2, 1] n 0 of (v, l) \<Rightarrow> if v = 1 then Some l else None)"

definition Log2Ceiling :: "u32 \<Rightarrow> int option" where
  "Log2Ceiling n = (if n = 0 then Some (-1) else map_option (\<lambda>l. 1 + l) (Log2Floor (n - 1)))"

definition ComputePOTSize :: "u32 \<Rightarrow> u32 option" where
  "ComputePOTSize dimension =
     (if dimension = 0 then Some 0
      else case Log2Ceiling dimension of
             None \<Rightarrow> None
           | Some l \<Rightarrow> if 0 \<le> l \<and> l < 32 then Some (push_bit (nat l) 1) else None)"

subsection \<open>State and operations\<close>

record 'h transfer_env =
  te_memory :: "'h memory_env"
  te_Finish :: "'h \<Rightarrow> (bool \<times> 'h) option"
  te_InsertToken :: "'h \<Rightarrow> (int \<times> 'h) option"

record TransferBuffer =
  tb_ring_buffer :: "AlignedRingBuffer option"
  tb_result_size :: u32
  tb_min_buffer_size :: u32
  tb_max_buffer_size :: u32
  tb_alignment :: u32
  tb_buffer :: "ptr \<times> u32"
  tb_buffer_id :: int
  tb_result_buffer :: ptr
  tb_result_shm_offset :: u32
  tb_usable :: bool

definition new_TransferBuffer :: TransferBuffer where
  "new_TransferBuffer =
     \<lparr>tb_ring_buffer = None, tb_result_size = 0, tb_min_buffer_size = 0, tb_max_buffer_size = 0, tb_alignment = 0,
      tb_buffer = (NULL, 0), tb_buffer_id = -1, tb_result_buffer = NULL, tb_result_shm_offset = 0, tb_usable = True\<rparr>"

definition HaveBuffer :: "TransferBuffer \<Rightarrow> bool" where
  "HaveBuffer tb \<longleftrightarrow> tb_buffer_id tb \<noteq> -1"

text \<open>\<^verbatim>\<open>scoped_ptr::reset\<close> runs the destructor of the ring buffer that it held.\<close>

definition reset_ring ::
    "'h transfer_env \<Rightarrow> AlignedRingBuffer option \<Rightarrow> TransferBuffer \<Rightarrow> 'h \<Rightarrow> (TransferBuffer \<times> 'h) option" where
  "reset_ring env r tb h =
     (case tb_ring_buffer tb of
        None \<Rightarrow> Some (tb\<lparr>tb_ring_buffer := r\<rparr>, h)
      | Some a \<Rightarrow>
          map_option (\<lambda>(_, h1). (tb\<lparr>tb_ring_buffer := r\<rparr>, h1))
            (RingBuffer_destroy (me_WaitForToken (te_memory env)) (rw_allocator (ar_wrapper a)) h))"

definition tb_Free :: "'h transfer_env \<Rightarrow> TransferBuffer \<Rightarrow> 'h \<Rightarrow> (TransferBuffer \<times> 'h) option" where
  "tb_Free env tb h =
     (if HaveBuffer tb
      then do {
        (_, h1) \<leftarrow> te_Finish env h;
        let h2 = me_DestroyTransferBuffer (te_memory env) (tb_buffer_id tb) h1;
        reset_ring env None
          (tb\<lparr>tb_buffer_id := -1, tb_buffer := (NULL, 0), tb_result_buffer := NULL, tb_result_shm_offset := 0\<rparr>) h2
      }
      else Some (tb, h))"

text \<open>The loop of \<^verbatim>\<open>AllocateRingBuffer\<close> and its end.\<close>

partial_function (option) tb_AllocateRingBuffer ::
    "'h transfer_env \<Rightarrow> u32 \<Rightarrow> TransferBuffer \<Rightarrow> 'h \<Rightarrow> (TransferBuffer \<times> 'h) option" where
  "tb_AllocateRingBuffer env sz tb h =
     (if sz \<ge> tb_min_buffer_size tb
      then (case me_CreateTransferBuffer (te_memory env) sz (-1) h of (i, h1) \<Rightarrow>
        if i \<noteq> -1
        then (case me_GetTransferBuffer (te_memory env) i h1 of (b, h2) \<Rightarrow>
          Option.bind
            (reset_ring env
              (Some (new_AlignedRingBuffer (tb_alignment tb) i (tb_result_size tb) (snd b - tb_result_size tb)
                (fst b + tb_result_size tb)))
              (tb\<lparr>tb_buffer := b\<rparr>) h2)
            (\<lambda>(tb1, h3). Some (tb1\<lparr>tb_buffer_id := i, tb_result_buffer := fst b, tb_result_shm_offset := 0\<rparr>, h3)))
        else tb_AllocateRingBuffer env (sz div 2) (tb\<lparr>tb_max_buffer_size := sz div 2\<rparr>) h1)
      else Some (tb\<lparr>tb_usable := False\<rparr>, h))"

definition ReallocateRingBuffer :: "'h transfer_env \<Rightarrow> u32 \<Rightarrow> TransferBuffer \<Rightarrow> 'h \<Rightarrow> (TransferBuffer \<times> 'h) option" where
  "ReallocateRingBuffer env sz tb h = do {
     pot \<leftarrow> ComputePOTSize (sz + tb_result_size tb);
     let needed_buffer_size = min (max pot (tb_min_buffer_size tb)) (tb_max_buffer_size tb);
     if tb_usable tb \<and> (\<not> HaveBuffer tb \<or> needed_buffer_size > snd (tb_buffer tb))
     then do {
       (tb1, h1) \<leftarrow> (if HaveBuffer tb then tb_Free env tb h else Some (tb, h));
       tb_AllocateRingBuffer env needed_buffer_size tb1 h1
     }
     else Some (tb, h)
   }"

definition tb_Initialize ::
    "'h transfer_env \<Rightarrow> u32 \<Rightarrow> u32 \<Rightarrow> u32 \<Rightarrow> u32 \<Rightarrow> u32 \<Rightarrow> TransferBuffer \<Rightarrow> 'h \<Rightarrow> (bool \<times> TransferBuffer \<times> 'h) option" where
  "tb_Initialize env starting_buffer_size result_size min_buffer_size max_buffer_size alignment tb h = do {
     (tb1, h1) \<leftarrow> ReallocateRingBuffer env (starting_buffer_size - result_size)
       (tb\<lparr>tb_result_size := result_size, tb_min_buffer_size := min_buffer_size, tb_max_buffer_size := max_buffer_size,
           tb_alignment := alignment\<rparr>) h;
     Some (HaveBuffer tb1, tb1, h1)
   }"

definition tb_GetOffset :: "ptr \<Rightarrow> TransferBuffer \<Rightarrow> u32 option" where
  "tb_GetOffset p tb = map_option (\<lambda>a. rw_GetOffset (ar_wrapper a) p) (tb_ring_buffer tb)"

definition tb_FreePendingToken :: "ptr \<Rightarrow> u32 \<Rightarrow> TransferBuffer \<Rightarrow> TransferBuffer option" where
  "tb_FreePendingToken p token tb = do {
     a \<leftarrow> tb_ring_buffer tb;
     w \<leftarrow> rw_FreePendingToken p token (ar_wrapper a);
     Some (tb\<lparr>tb_ring_buffer := Some (a\<lparr>ar_wrapper := w\<rparr>)\<rparr>)
   }"

text \<open>\<^verbatim>\<open>ring_buffer_->Alloc\<close>.\<close>

definition ring_Alloc :: "'h transfer_env \<Rightarrow> u32 \<Rightarrow> TransferBuffer \<Rightarrow> 'h \<Rightarrow> (ptr \<times> TransferBuffer \<times> 'h) option" where
  "ring_Alloc env sz tb h = do {
     a \<leftarrow> tb_ring_buffer tb;
     (p, a1, h1) \<leftarrow> ar_Alloc (me_WaitForToken (te_memory env)) sz a h;
     Some (p, tb\<lparr>tb_ring_buffer := Some a1\<rparr>, h1)
   }"

text \<open>\<open>old_size\<close> is what \<^verbatim>\<open>*size_allocated\<close> holds before; it stays when there is no buffer.\<close>

definition tb_AllocUpTo ::
    "'h transfer_env \<Rightarrow> u32 \<Rightarrow> u32 \<Rightarrow> TransferBuffer \<Rightarrow> 'h \<Rightarrow> (ptr \<times> u32 \<times> TransferBuffer \<times> 'h) option" where
  "tb_AllocUpTo env sz old_size tb h = do {
     (tb1, h1) \<leftarrow> ReallocateRingBuffer env sz tb h;
     if \<not> HaveBuffer tb1 then Some (NULL, old_size, tb1, h1)
     else do {
       a \<leftarrow> tb_ring_buffer tb1;
       let size_allocated = min (ar_GetLargestFreeOrPendingSize a) sz;
       (p, tb2, h2) \<leftarrow> ring_Alloc env size_allocated tb1 h1;
       Some (p, size_allocated, tb2, h2)
     }
   }"

definition tb_Alloc :: "'h transfer_env \<Rightarrow> u32 \<Rightarrow> TransferBuffer \<Rightarrow> 'h \<Rightarrow> (ptr \<times> TransferBuffer \<times> 'h) option" where
  "tb_Alloc env sz tb h = do {
     (tb1, h1) \<leftarrow> ReallocateRingBuffer env sz tb h;
     if \<not> HaveBuffer tb1 then Some (NULL, tb1, h1)
     else do {
       a \<leftarrow> tb_ring_buffer tb1;
       if sz > ar_GetLargestFreeOrPendingSize a then Some (NULL, tb1, h1) else ring_Alloc env sz tb1 h1
     }
   }"

definition GetResultBuffer :: "'h transfer_env \<Rightarrow> TransferBuffer \<Rightarrow> 'h \<Rightarrow> (ptr \<times> TransferBuffer \<times> 'h) option" where
  "GetResultBuffer env tb h = do {
     (tb1, h1) \<leftarrow> ReallocateRingBuffer env (tb_result_size tb) tb h;
     Some (tb_result_buffer tb1, tb1, h1)
   }"

definition GetResultOffset :: "'h transfer_env \<Rightarrow> TransferBuffer \<Rightarrow> 'h \<Rightarrow> (int \<times> TransferBuffer \<times> 'h) option" where
  "GetResultOffset env tb h = do {
     (tb1, h1) \<leftarrow> ReallocateRingBuffer env (tb_result_size tb) tb h;
     Some (sint (tb_result_shm_offset tb1), tb1, h1)
   }"

definition GetShmId :: "'h transfer_env \<Rightarrow> TransferBuffer \<Rightarrow> 'h \<Rightarrow> (int \<times> TransferBuffer \<times> 'h) option" where
  "GetShmId env tb h = do {
     (tb1, h1) \<leftarrow> ReallocateRingBuffer env (tb_result_size tb) tb h;
     Some (tb_buffer_id tb1, tb1, h1)
   }"

definition GetCurrentMaxAllocationWithoutRealloc :: "TransferBuffer \<Rightarrow> u32 option" where
  "GetCurrentMaxAllocationWithoutRealloc tb =
     (if HaveBuffer tb then map_option ar_GetLargestFreeOrPendingSize (tb_ring_buffer tb) else Some 0)"

definition GetMaxAllocation :: "TransferBuffer \<Rightarrow> u32" where
  "GetMaxAllocation tb = (if HaveBuffer tb then tb_max_buffer_size tb - tb_result_size tb else 0)"

subsection \<open>Scoped pointers\<close>

record ScopedTransferBufferPtr =
  sp_buffer :: ptr
  sp_size :: u32

definition sp_Release ::
    "'h transfer_env \<Rightarrow> ScopedTransferBufferPtr \<Rightarrow> TransferBuffer \<Rightarrow> 'h \<Rightarrow> (ScopedTransferBufferPtr \<times> TransferBuffer \<times> 'h) option" where
  "sp_Release env s tb h =
     (if sp_buffer s \<noteq> NULL
      then do {
        (token, h1) \<leftarrow> te_InsertToken env h;
        tb1 \<leftarrow> tb_FreePendingToken (sp_buffer s) (uint32 token) tb;
        Some (s\<lparr>sp_buffer := NULL, sp_size := 0\<rparr>, tb1, h1)
      }
      else Some (s, tb, h))"

definition sp_Reset ::
    "'h transfer_env \<Rightarrow> u32 \<Rightarrow> ScopedTransferBufferPtr \<Rightarrow> TransferBuffer \<Rightarrow> 'h \<Rightarrow>
     (ScopedTransferBufferPtr \<times> TransferBuffer \<times> 'h) option" where
  "sp_Reset env new_size s tb h = do {
     (s1, tb1, h1) \<leftarrow> sp_Release env s tb h;
     (p, sz, tb2, h2) \<leftarrow> tb_AllocUpTo env new_size (sp_size s1) tb1 h1;
     Some (s1\<lparr>sp_buffer := p, sp_size := sz\<rparr>, tb2, h2)
   }"

definition new_ScopedTransferBufferPtr ::
    "'h transfer_env \<Rightarrow> u32 \<Rightarrow> TransferBuffer \<Rightarrow> 'h \<Rightarrow> (ScopedTransferBufferPtr \<times> TransferBuffer \<times> 'h) option" where
  "new_ScopedTransferBufferPtr env sz tb h = sp_Reset env sz \<lparr>sp_buffer = NULL, sp_size = 0\<rparr> tb h"

definition sp_valid :: "ScopedTransferBufferPtr \<Rightarrow> bool" where
  "sp_valid s \<longleftrightarrow> sp_buffer s \<noteq> NULL"

definition sp_offset :: "ScopedTransferBufferPtr \<Rightarrow> TransferBuffer \<Rightarrow> u32 option" where
  "sp_offset s tb = tb_GetOffset (sp_buffer s) tb"

text \<open>\<^verbatim>\<open>ScopedTransferBufferArray\<close> of elements of \<open>sizeof_T\<close> bytes.\<close>

definition new_ScopedTransferBufferArray ::
    "'h transfer_env \<Rightarrow> u32 \<Rightarrow> u32 \<Rightarrow> TransferBuffer \<Rightarrow> 'h \<Rightarrow> (ScopedTransferBufferPtr \<times> TransferBuffer \<times> 'h) option" where
  "new_ScopedTransferBufferArray env sizeof_T num_elements tb h = new_ScopedTransferBufferPtr env (num_elements * sizeof_T) tb h"

definition sp_num_elements :: "u32 \<Rightarrow> ScopedTransferBufferPtr \<Rightarrow> u32" where
  "sp_num_elements sizeof_T s = sp_size s div sizeof_T"

subsection \<open>Powers of two: correctness\<close>

lemma unat_drop_bit_div: "unat (drop_bit k (v :: u32)) = unat v div 2 ^ k"
  unfolding unat_drop_bit_eq by (simp add: drop_bit_eq_div)

text \<open>After the shifts \<open>2 ^ (j - 1)\<close>, ..., 2, 1 one is left, and the shifts taken add up to the logarithm.\<close>

lemma log2_loop_pow:
  "0 < unat v \<Longrightarrow> unat v < 2 ^ (2 ^ j) \<Longrightarrow>
   \<exists>k. log2_loop (map (\<lambda>i. 2 ^ i) (rev [0 ..< j])) v l = (1, l + int k) \<and> k < 2 ^ j \<and> unat v div 2 ^ k = 1"
proof (induction j arbitrary: v l)
  case 0
  then have "unat v = 1" by simp
  then have "v = 1" by (metis unat_1 unsigned_word_eqI)
  then show ?case by simp
next
  case (Suc j)
  let ?x = "drop_bit (2 ^ j) v"
  have x: "unat ?x = unat v div 2 ^ (2 ^ j)" by (rule unat_drop_bit_div)
  have p: "(2 :: nat) ^ (2 ^ Suc j) = 2 ^ (2 ^ j) * 2 ^ (2 ^ j)" by (simp add: power_add [symmetric] mult_2)
  show ?case
  proof (cases "?x = 0")
    case True
    then have "unat v < 2 ^ (2 ^ j)" using x by (metis div_eq_0_iff power_eq_0_iff unat_0 zero_neq_numeral)
    from Suc.IH [OF Suc.prems(1) this, of l] True show ?thesis by (fastforce simp: Let_def)
  next
    case False
    have "unat ?x < 2 ^ (2 ^ j)" unfolding x using Suc.prems(2) p by (simp add: div_less_iff_less_mult)
    moreover have "0 < unat ?x" using False by (simp add: unat_gt_0)
    ultimately obtain k where k: "log2_loop (map (\<lambda>i. 2 ^ i) (rev [0 ..< j])) ?x (l + int (2 ^ j)) = (1, l + int (2 ^ j) + int k)"
      "k < 2 ^ j" "unat ?x div 2 ^ k = 1" using Suc.IH by blast
    have "unat v div 2 ^ (2 ^ j + k) = 1" using k(3) unfolding x by (simp add: power_add div_mult2_eq)
    with k(1,2) False show ?thesis by (intro exI [of _ "2 ^ j + k"]) (simp add: Let_def)
  qed
qed

lemma Log2Floor_spec:
  assumes "n \<noteq> 0"
  shows "\<exists>k < 32. Log2Floor n = Some (int k) \<and> 2 ^ k \<le> unat n \<and> unat n < 2 ^ (k + 1)"
proof -
  have s: "map (\<lambda>i. 2 ^ i) (rev [0 ..< 5]) = [16, 8, 4, 2, 1 :: nat]" by (simp add: upt_rec)
  have "0 < unat n" "unat n < 2 ^ (2 ^ 5)" using assms u32_lt [of n] by (simp_all add: unat_gt_0)
  from log2_loop_pow [OF this, of 0, unfolded s] obtain k where
    k: "log2_loop [16, 8, 4, 2, 1] n 0 = (1, int k)" "k < 32" "unat n div 2 ^ k = 1" by auto
  have "unat n mod 2 ^ k < 2 ^ k" by simp
  moreover have "2 ^ k + unat n mod 2 ^ k = unat n" using mult_div_mod_eq [of "2 ^ k" "unat n"] k(3) by simp
  moreover have "(2 :: nat) ^ (k + 1) = 2 * 2 ^ k" by simp
  ultimately have "2 ^ k \<le> unat n" "unat n < 2 ^ (k + 1)" by linarith+
  with k assms show ?thesis by (auto simp: Log2Floor_def)
qed

text \<open>\<^verbatim>\<open>ComputePOTSize\<close> is the least power of two that is not smaller; above \<open>2 ^ 31\<close> the shift is undefined.\<close>

lemma ComputePOTSize_spec:
  assumes "0 < unat d"
  shows "if unat d \<le> 2147483648
    then \<exists>k r. ComputePOTSize d = Some r \<and> unat r = 2 ^ k \<and> unat d \<le> 2 ^ k \<and> 2 ^ k < 2 * unat d
    else ComputePOTSize d = None"
proof (cases "d = 1")
  case True
  then show ?thesis by (auto simp: ComputePOTSize_def Log2Ceiling_def Log2Floor_def intro: exI [of _ 0])
next
  case False
  have d: "d \<noteq> 0" "d - 1 \<noteq> 0" using assms False by auto
  have u: "unat (d - 1) = unat d - 1" using u32_sub [of 1 d] assms by (simp add: word_le_nat_alt)
  from Log2Floor_spec [OF d(2)] obtain k where k: "k < 32" "Log2Floor (d - 1) = Some (int k)" "2 ^ k \<le> unat d - 1" "unat d - 1 < 2 ^ (k + 1)"
    unfolding u by blast
  have run: "ComputePOTSize d = (if k + 1 < 32 then Some (push_bit (k + 1) 1) else None)"
    using d k(2) by (auto simp: ComputePOTSize_def Log2Ceiling_def nat_add_distrib)
  show ?thesis
  proof (cases "k + 1 < 32")
    case True
    then have "(2 :: nat) ^ (k + 1) < 2 ^ 32" by (intro power_strict_increasing) simp_all
    then have "unat (of_nat (2 ^ (k + 1)) :: u32) = 2 ^ (k + 1)" by (simp add: unat_of_nat del: of_nat_power power_Suc)
    then have r: "unat (push_bit (k + 1) (1 :: u32)) = 2 ^ (k + 1)" by (simp add: push_bit_eq_mult)
    have "(2 :: nat) ^ (k + 1) \<le> 2 ^ 31" using True by (intro power_increasing) simp_all
    with k(4) have "unat d \<le> 2147483648" by simp
    moreover have "unat d \<le> 2 ^ (k + 1)" "2 ^ (k + 1) < 2 * unat d" using k(3,4) assms by simp_all
    moreover have "ComputePOTSize d = Some (push_bit (k + 1) 1)" using run True by simp
    ultimately show ?thesis using r
      unfolding if_P [OF \<open>unat d \<le> 2147483648\<close>] by (intro exI [of _ "k + 1"] exI [of _ "push_bit (k + 1) 1"] conjI)
  next
    case False
    then have "k = 31" using k(1) by simp
    with run k(3) assms False show ?thesis by auto
  qed
qed


subsection \<open>Rounding\<close>

text \<open>For an alignment that is a power of two, the least multiple of it that is not smaller.\<close>

lemma and_not_mask_sub: "(x :: u32) AND NOT (mask k) = x - take_bit k x"
proof -
  have "x AND NOT (mask k) = push_bit k (drop_bit k x)" by (rule bit_eqI) (auto simp: bit_simps)
  with bits_ident [of k x] show ?thesis by (simp add: algebra_simps)
qed

lemma RoundToAlignment_spec:
  assumes a: "unat alignment = 2 ^ k" and "k < 32" and sz: "unat sz + 2 ^ k \<le> 4294967296"
  shows "unat (RoundToAlignment alignment sz) = (unat sz + 2 ^ k - 1) div 2 ^ k * 2 ^ k"
proof -
  let ?x = "sz + alignment - 1"
  have p: "(0 :: nat) < 2 ^ k" by simp
  have "(2 :: nat) ^ k < 2 ^ 32" using assms(2) by (intro power_strict_increasing) simp_all
  then have "unat (of_nat (2 ^ k) :: u32) = 2 ^ k" by (simp add: unat_of_nat del: of_nat_power)
  then have "alignment = of_nat (2 ^ k)" using a by (simp add: word_unat_eq_iff del: of_nat_power)
  then have m: "alignment - 1 = mask k" by (simp add: mask_eq_exp_minus_1)
  have "unat (alignment - 1) = 2 ^ k - 1" using u32_sub [of 1 alignment] a p by (simp add: word_le_nat_alt)
  then have x: "unat ?x = unat sz + 2 ^ k - 1"
    using u32_add [of sz "alignment - 1"] sz p by (simp add: add_diff_eq)
  have t: "unat (take_bit k ?x) = unat ?x mod 2 ^ k" unfolding unsigned_take_bit_eq by (simp add: take_bit_eq_mod)
  have "take_bit k ?x \<le> ?x" unfolding word_le_nat_alt t by (rule mod_less_eq_dividend)
  then have "unat (?x - take_bit k ?x) = unat ?x - unat ?x mod 2 ^ k" using u32_sub t by metis
  then show ?thesis
    unfolding RoundToAlignment_def m and_not_mask_sub x by (simp add: minus_mod_eq_div_mult)
qed

subsection \<open>Invariant\<close>

text \<open>
  What the class relies on of the helper: the transfer buffers as in the mapped memory, and that finishing, when it
  returns, leaves them alone.
\<close>

locale transfer_provider = memory_provider "te_memory tenv" bufs good
  for tenv :: "'h transfer_env" and bufs :: "'h \<Rightarrow> int \<Rightarrow> (ptr \<times> u32) option" and good :: "'h \<Rightarrow> bool" +
  assumes finish_law: "good h \<Longrightarrow> te_Finish tenv h = Some (b, h') \<Longrightarrow> good h' \<and> bufs h' = bufs h"
    and insert_law: "good h \<Longrightarrow> te_InsertToken tenv h = Some (t, h') \<Longrightarrow> good h' \<and> bufs h' = bufs h"

text \<open>The sizes that a client may configure.\<close>

definition sizes_ok :: "TransferBuffer \<Rightarrow> bool" where
  "sizes_ok tb \<longleftrightarrow> tb_result_size tb < tb_min_buffer_size tb \<and> unat (tb_max_buffer_size tb) \<le> 2147483648"

text \<open>The ring buffer covers the buffer behind the result area.\<close>

fun ring_ok :: "AlignedRingBuffer option \<Rightarrow> TransferBuffer \<Rightarrow> bool" where
  "ring_ok None tb \<longleftrightarrow> False"
| "ring_ok (Some a) tb \<longleftrightarrow>
     ar_shm_id a = tb_buffer_id tb \<and> ar_alignment a = tb_alignment tb \<and> rw_base (ar_wrapper a) = fst (tb_buffer tb) \<and>
     rb_inv (rw_allocator (ar_wrapper a)) \<and> rb_base_offset (rw_allocator (ar_wrapper a)) = tb_result_size tb \<and>
     rb_total (rw_allocator (ar_wrapper a)) = snd (tb_buffer tb) - tb_result_size tb"

definition tb_inv :: "(int \<Rightarrow> (ptr \<times> u32) option) \<Rightarrow> TransferBuffer \<Rightarrow> bool" where
  "tb_inv bs tb \<longleftrightarrow> sizes_ok tb \<and>
     (if HaveBuffer tb
      then 0 < tb_buffer_id tb \<and> bs (tb_buffer_id tb) = Some (tb_buffer tb) \<and> tb_result_size tb < snd (tb_buffer tb) \<and>
        unat (fst (tb_buffer tb)) + unat (snd (tb_buffer tb)) < 4294967296 \<and> fst (tb_buffer tb) \<noteq> NULL \<and>
        tb_result_buffer tb = fst (tb_buffer tb) \<and> tb_result_shm_offset tb = 0 \<and> ring_ok (tb_ring_buffer tb) tb
      else tb_ring_buffer tb = None)"

text \<open>What holds of the helper and is kept by waiting is kept by the ring allocator.\<close>

lemma FreeOldestBlock_keeps:
  assumes "\<And>t h h'. P h \<Longrightarrow> wait t h = Some h' \<Longrightarrow> P h'" and "P h" and "FreeOldestBlock wait rb h = Some (rb', h')"
  shows "P h'"
  using assms(2,3) by (auto simp: FreeOldestBlock_def Let_def split: list.splits if_splits Option.bind_splits prod.splits dest: assms(1))


lemma rb_make_room_keeps:
  assumes w: "\<And>t h h'. P h \<Longrightarrow> wait t h = Some h' \<Longrightarrow> P h'"
  shows "P h \<Longrightarrow> rb_make_room wait sz rb h = Some (rb', h') \<Longrightarrow> P h'"
  using w
proof (induction wait sz rb h rule: rb_make_room.induct)
  case (1 wait sz rb h)
  from "1.prems"(2) obtain room where r: "GetLargestFreeSizeNoWaiting rb = Some room"
    by (subst (asm) rb_make_room.simps) (auto split: Option.bind_splits)
  show ?case
  proof (cases "sz > room")
    case True
    with "1.prems"(2) r obtain rb1 h1 where f: "FreeOldestBlock wait rb h = Some (rb1, h1)" "rb_make_room wait sz rb1 h1 = Some (rb', h')"
      by (subst (asm) rb_make_room.simps) (auto split: Option.bind_splits)
    have "P h1" by (rule FreeOldestBlock_keeps [where P = P, OF "1.prems"(3,1) f(1)])
    then show ?thesis by (rule "1.IH" [OF r True f(1) refl _ f(2)]) (rule "1.prems"(3))
  next
    case False
    with "1.prems"(1,2) r show ?thesis by (subst (asm) rb_make_room.simps) auto
  qed
qed

lemma RingBuffer_Alloc_keeps:
  assumes "\<And>t h h'. P h \<Longrightarrow> wait t h = Some h' \<Longrightarrow> P h'" and "P h" and "RingBuffer_Alloc wait sz rb h = Some (off, rb', h')"
  shows "P h'"
  using assms(3) rb_make_room_keeps [where P = P, OF assms(1,2)]
  by (auto simp: RingBuffer_Alloc_def Let_def split: if_splits Option.bind_splits prod.splits)

lemma RingBuffer_destroy_keeps:
  assumes w: "\<And>t h h'. P h \<Longrightarrow> wait t h = Some h' \<Longrightarrow> P h'"
  shows "P h \<Longrightarrow> RingBuffer_destroy wait rb h = Some (rb', h') \<Longrightarrow> P h'"
  using w
proof (induction wait rb h rule: RingBuffer_destroy.induct)
  case (1 wait rb h)
  show ?case
  proof (cases "rb_blocks rb = []")
    case False
    with "1.prems"(2) obtain rb1 h1 where f: "FreeOldestBlock wait rb h = Some (rb1, h1)" "RingBuffer_destroy wait rb1 h1 = Some (rb', h')"
      by (subst (asm) RingBuffer_destroy.simps) (auto split: Option.bind_splits)
    have "P h1" by (rule FreeOldestBlock_keeps [where P = P, OF "1.prems"(3,1) f(1)])
    then show ?thesis by (rule "1.IH" [OF False f(1) refl _ f(2)]) (rule "1.prems"(3))
  next
    case True
    with "1.prems"(1,2) show ?thesis by (subst (asm) RingBuffer_destroy.simps) auto
  qed
qed


lemma unat_max_1: "unat (max 1 (x :: u32)) = max 1 (unat x)"
  by (simp add: max_def word_le_nat_alt)

subsection \<open>The operations keep the invariant\<close>

definition same_config :: "TransferBuffer \<Rightarrow> TransferBuffer \<Rightarrow> bool" where
  "same_config tb tb' \<longleftrightarrow> tb_result_size tb' = tb_result_size tb \<and> tb_min_buffer_size tb' = tb_min_buffer_size tb \<and>
     tb_alignment tb' = tb_alignment tb"

text \<open>
  The ring allocator of the object: the piece lies behind the result area, inside the transfer buffer, and apart from
  the pieces that are pending a token.
\<close>

definition piece :: "ptr \<Rightarrow> u32 \<Rightarrow> TransferBuffer \<Rightarrow> bool" where
  "piece p sz tb \<longleftrightarrow> p \<noteq> NULL \<and> HaveBuffer tb \<and>
     (\<exists>a kept new off. tb_ring_buffer tb = Some a \<and> rb_blocks (rw_allocator (ar_wrapper a)) = kept @ [new] \<and>
        rb_state new = RB_IN_USE \<and> (\<forall>b \<in> set kept. rb_region new \<inter> rb_region b = {}) \<and>
        tb_GetOffset p tb = Some off \<and> p = fst (tb_buffer tb) + off \<and> off = rb_offset new + tb_result_size tb \<and>
        unat (tb_result_size tb) \<le> unat off \<and>
        unat off + max 1 (unat (RoundToAlignment (tb_alignment tb) sz)) \<le> unat (snd (tb_buffer tb)))"

context transfer_provider
begin

abbreviation keeps :: "'h \<Rightarrow> 'h \<Rightarrow> bool" where
  "keeps h h' \<equiv> good h' \<and> bufs h' = bufs h"

lemma ring_waits_keep:
  assumes "good h"
  shows "RingBuffer_destroy (me_WaitForToken (te_memory tenv)) rb h = Some (rb', h') \<Longrightarrow> keeps h h'"
    and "RingBuffer_Alloc (me_WaitForToken (te_memory tenv)) sz rb h = Some (off, rb', h') \<Longrightarrow> keeps h h'"
  using RingBuffer_destroy_keeps [where P = "keeps h" and wait = "me_WaitForToken (te_memory tenv)"]
    RingBuffer_Alloc_keeps [where P = "keeps h" and wait = "me_WaitForToken (te_memory tenv)"] wait_law assms by metis+

lemma reset_ring_ok:
  assumes "good h" and "reset_ring tenv r tb h = Some (tb', h')"
  shows "keeps h h' \<and> tb' = tb\<lparr>tb_ring_buffer := r\<rparr>"
  using assms ring_waits_keep(1) [OF assms(1)] by (auto simp: reset_ring_def split: option.splits)

lemma tb_Free_ok:
  assumes g: "good h" and inv: "tb_inv (bufs h) tb" and f: "tb_Free tenv tb h = Some (tb', h')"
  shows "good h' \<and> tb_inv (bufs h') tb' \<and> \<not> HaveBuffer tb' \<and> same_config tb tb' \<and> tb_usable tb' = tb_usable tb \<and>
    tb_max_buffer_size tb' = tb_max_buffer_size tb \<and>
    bufs h' = (if HaveBuffer tb then (bufs h)(tb_buffer_id tb := None) else bufs h)"
proof (cases "HaveBuffer tb")
  case False
  with assms show ?thesis by (simp add: tb_Free_def same_config_def)
next
  case True
  let ?tb = "tb\<lparr>tb_buffer_id := -1, tb_buffer := (NULL, 0), tb_result_buffer := NULL, tb_result_shm_offset := 0\<rparr>"
  from True f obtain b h1 where fin: "te_Finish tenv h = Some (b, h1)"
    and r: "reset_ring tenv None ?tb (me_DestroyTransferBuffer (te_memory tenv) (tb_buffer_id tb) h1) = Some (tb', h')"
    by (auto simp: tb_Free_def Let_def split: Option.bind_splits)
  from finish_law [OF g fin] have h1: "good h1" "bufs h1 = bufs h" by simp_all
  have id: "0 < tb_buffer_id tb" "bufs h1 (tb_buffer_id tb) = Some (tb_buffer tb)" using inv True h1 by (simp_all add: tb_inv_def)
  note d = destroy_law [OF h1(1) id]
  from reset_ring_ok [OF _ r] d have "good h'" "bufs h' = (bufs h)(tb_buffer_id tb := None)" "tb' = ?tb\<lparr>tb_ring_buffer := None\<rparr>"
    using h1(2) by simp_all
  with True inv show ?thesis by (simp add: tb_inv_def HaveBuffer_def sizes_ok_def same_config_def)
qed

text \<open>
  The loop over smaller and smaller buffers ends, since the smallest size that it tries is not zero. The buffer it ends with is not
  larger than asked for and not smaller than the minimum; without one the object is marked unusable.
\<close>

lemma tb_AllocateRingBuffer_ok:
  "good h \<Longrightarrow> tb_inv (bufs h) tb \<Longrightarrow> \<not> HaveBuffer tb \<Longrightarrow> unat sz \<le> 2147483648 \<Longrightarrow>
   \<exists>tb' h'. tb_AllocateRingBuffer tenv sz tb h = Some (tb', h') \<and> good h' \<and> tb_inv (bufs h') tb' \<and> same_config tb tb' \<and>
     (if HaveBuffer tb' then tb_usable tb' = tb_usable tb \<and> tb_min_buffer_size tb \<le> snd (tb_buffer tb') \<and> snd (tb_buffer tb') \<le> sz \<and>
        bufs h' = (bufs h)(tb_buffer_id tb' \<mapsto> tb_buffer tb') \<and> bufs h (tb_buffer_id tb') = None
      else \<not> tb_usable tb' \<and> bufs h' = bufs h)"
proof (induction "unat sz" arbitrary: sz tb h rule: less_induct)
  case less
  have sz: "sizes_ok tb" and ring: "tb_ring_buffer tb = None" using less.prems(2,3) by (simp_all add: tb_inv_def)
  show ?case
  proof (cases "sz \<ge> tb_min_buffer_size tb")
    case False
    with less.prems show ?thesis
      by (subst tb_AllocateRingBuffer.simps) (auto simp: tb_inv_def HaveBuffer_def sizes_ok_def same_config_def)
  next
    case True
    obtain i h1 where c: "me_CreateTransferBuffer (te_memory tenv) sz (-1) h = (i, h1)" by fastforce
    note cr = create_law [OF less.prems(1) c]
    have pos: "0 < unat sz" using True sz by (auto simp: sizes_ok_def word_le_nat_alt word_less_nat_alt)
    show ?thesis
    proof (cases "i = -1")
      case True
      let ?tb = "tb\<lparr>tb_max_buffer_size := sz div 2\<rparr>"
      have half: "unat (sz div 2) = unat sz div 2" by (simp add: unat_div)
      with pos have "unat (sz div 2) < unat sz" by simp
      moreover have "good h1" "bufs h1 = bufs h" using cr True by auto
      moreover have "tb_inv (bufs h1) ?tb" "\<not> HaveBuffer ?tb" "unat (sz div 2) \<le> 2147483648"
        using less.prems(2-4) calculation(3) half by (simp_all add: tb_inv_def HaveBuffer_def sizes_ok_def)
      ultimately obtain tb' h' where "tb_AllocateRingBuffer tenv (sz div 2) ?tb h1 = Some (tb', h')" "good h'" "tb_inv (bufs h') tb'" "same_config ?tb tb'"
        "if HaveBuffer tb' then tb_usable tb' = tb_usable ?tb \<and> tb_min_buffer_size ?tb \<le> snd (tb_buffer tb') \<and> snd (tb_buffer tb') \<le> sz div 2 \<and>
          bufs h' = (bufs h1)(tb_buffer_id tb' \<mapsto> tb_buffer tb') \<and> bufs h1 (tb_buffer_id tb') = None else \<not> tb_usable tb' \<and> bufs h' = bufs h1"
        using less.hyps [of "sz div 2" h1 ?tb] by blast
      moreover have "sz div 2 \<le> sz" using half by (simp add: word_le_nat_alt)
      ultimately show ?thesis
        using c True \<open>tb_min_buffer_size tb \<le> sz\<close> \<open>bufs h1 = bufs h\<close>
        by (subst tb_AllocateRingBuffer.simps) (auto simp: same_config_def split: if_splits)
    next
      case False
      with cr obtain p where p: "good h1" "0 < i" "bufs h i = None" "p \<noteq> NULL" "unat p + unat sz < 4294967296"
        "bufs h1 = (bufs h)(i \<mapsto> (p, sz))" by auto
      obtain b h2 where gt: "me_GetTransferBuffer (te_memory tenv) i h1 = (b, h2)" by fastforce
      have b: "b = (p, sz)" "good h2" "bufs h2 = bufs h1" using get_law [OF p(1) _ gt] p(6) by simp_all
      let ?r = "new_AlignedRingBuffer (tb_alignment tb) i (tb_result_size tb) (sz - tb_result_size tb) (p + tb_result_size tb)"
      let ?tb = "tb\<lparr>tb_buffer := (p, sz), tb_ring_buffer := Some ?r, tb_buffer_id := i, tb_result_buffer := p, tb_result_shm_offset := 0\<rparr>"
      have run: "tb_AllocateRingBuffer tenv sz tb h = Some (?tb, h2)"
        using c False True gt b(1) ring by (subst tb_AllocateRingBuffer.simps) (simp add: reset_ring_def)
      have res: "tb_result_size tb < sz" using True sz by (auto simp: sizes_ok_def)
      then have "unat (sz - tb_result_size tb) = unat sz - unat (tb_result_size tb)" "unat (tb_result_size tb) < unat sz"
        using u32_sub [of "tb_result_size tb" sz] by (simp_all add: word_less_nat_alt word_le_nat_alt)
      with less.prems(4) have "rb_inv (new_RingBuffer (tb_result_size tb) (sz - tb_result_size tb))"
        by (intro new_RingBuffer_inv) (simp_all add: word_less_nat_alt)
      then have "tb_inv (bufs h2) ?tb"
        using sz p b res False
        by (simp add: tb_inv_def HaveBuffer_def sizes_ok_def new_AlignedRingBuffer_def new_RingBufferWrapper_def new_RingBuffer_def)
      with run b p False True show ?thesis by (intro exI [of _ ?tb] exI [of _ h2]) (simp add: HaveBuffer_def same_config_def)
    qed
  qed
qed

lemma ReallocateRingBuffer_ok:
  assumes g: "good h" and inv: "tb_inv (bufs h) tb" and r: "ReallocateRingBuffer tenv sz tb h = Some (tb', h')"
  shows "good h' \<and> tb_inv (bufs h') tb' \<and> same_config tb tb'"
proof -
  from r obtain pot where pot: "ComputePOTSize (sz + tb_result_size tb) = Some pot"
    by (auto simp: ReallocateRingBuffer_def split: Option.bind_splits)
  define needed where "needed = min (max pot (tb_min_buffer_size tb)) (tb_max_buffer_size tb)"
  have n: "unat needed \<le> 2147483648"
    using inv by (auto simp: needed_def tb_inv_def sizes_ok_def min_def max_def word_le_nat_alt)
  show ?thesis
  proof (cases "tb_usable tb \<and> (\<not> HaveBuffer tb \<or> needed > snd (tb_buffer tb))")
    case False
    with r pot g inv show ?thesis by (auto simp: ReallocateRingBuffer_def needed_def Let_def same_config_def)
  next
    case True
    with r pot obtain tb1 h1 where f: "(if HaveBuffer tb then tb_Free tenv tb h else Some (tb, h)) = Some (tb1, h1)"
      and a: "tb_AllocateRingBuffer tenv needed tb1 h1 = Some (tb', h')"
      by (auto simp: ReallocateRingBuffer_def needed_def Let_def split: Option.bind_splits)
    have f1: "good h1 \<and> tb_inv (bufs h1) tb1 \<and> \<not> HaveBuffer tb1 \<and> same_config tb tb1"
      using f tb_Free_ok [OF g inv] g inv by (auto simp: same_config_def split: if_splits)
    from tb_AllocateRingBuffer_ok [of h1 tb1 needed] f1 n a show ?thesis by (auto simp: same_config_def)
  qed
qed

lemma ring_Alloc_ok:
  assumes g: "good h" and inv: "tb_inv (bufs h) tb" and hb: "HaveBuffer tb" and a: "ring_Alloc tenv sz tb h = Some (p, tb', h')"
  shows "good h' \<and> tb_inv (bufs h') tb' \<and> same_config tb tb' \<and> piece p sz tb'"
proof -
  from a obtain ar off rb where ar: "tb_ring_buffer tb = Some ar"
    and al: "RingBuffer_Alloc (me_WaitForToken (te_memory tenv)) (RoundToAlignment (ar_alignment ar) sz) (rw_allocator (ar_wrapper ar)) h = Some (off, rb, h')"
    and p: "p = rw_base (ar_wrapper ar) + off"
    and tb': "tb' = tb\<lparr>tb_ring_buffer := Some (ar\<lparr>ar_wrapper := (ar_wrapper ar)\<lparr>rw_allocator := rb\<rparr>\<rparr>)\<rparr>"
    by (auto simp: ring_Alloc_def ar_Alloc_def rw_Alloc_def rw_GetPointer_def Let_def split: Option.bind_splits)
  have i: "ring_ok (Some ar) tb" "tb_result_size tb < snd (tb_buffer tb)" "fst (tb_buffer tb) \<noteq> NULL"
    "unat (fst (tb_buffer tb)) + unat (snd (tb_buffer tb)) < 4294967296"
    using inv hb ar by (simp_all add: tb_inv_def)
  let ?res = "tb_result_size tb" and ?len = "max 1 (RoundToAlignment (tb_alignment tb) sz)"
  have k: "keeps h h'" by (rule ring_waits_keep(2) [OF g al])
  have rb0: "rb_inv (rw_allocator (ar_wrapper ar))" and al0: "ar_alignment ar = tb_alignment tb"
    "rb_base_offset (rw_allocator (ar_wrapper ar)) = ?res" "rb_total (rw_allocator (ar_wrapper ar)) = snd (tb_buffer tb) - ?res"
    using i(1) by simp_all
  obtain kept0 pad where bl: "rb_blocks rb = (kept0 @ pad) @ [RB_make_Block (off - ?res) ?len RB_IN_USE]"
    and rb: "rb_inv rb" "rb_total rb = snd (tb_buffer tb) - ?res" "rb_base_offset rb = ?res"
    by (rule RingBuffer_Alloc_spec [OF rb0 al]) (simp add: al0)
  define new where "new = RB_make_Block (off - ?res) ?len RB_IN_USE"
  have inbuf: "rb_region new \<subseteq> {0 ..< unat (rb_total rb)}" using rb_inv_in_buffer [OF rb(1)] bl by (simp add: new_def)
  have dis: "\<forall>b \<in> set (kept0 @ pad). rb_region new \<inter> rb_region b = {}" using rb_inv_disjoint [OF rb(1) bl] by (simp add: new_def)
  have len: "0 < unat ?len" by (simp add: unat_max_1)
  have tot: "unat (rb_total rb) = unat (snd (tb_buffer tb)) - unat ?res"
    using u32_sub [of ?res "snd (tb_buffer tb)"] i(2) rb(2) by (simp add: word_less_nat_alt word_le_nat_alt)
  have end_new: "unat (off - ?res) + unat ?len \<le> unat (rb_total rb)"
    using inbuf len by (auto simp: new_def rb_region_def RB_make_Block_def)
  have res: "unat ?res < unat (snd (tb_buffer tb))" using i(2) by (simp add: word_less_nat_alt)
  have "unat (off - ?res) + unat ?res < 4294967296" using end_new tot res u32_lt [of "snd (tb_buffer tb)"] len by linarith
  then have off: "unat off = unat (off - ?res) + unat ?res" using u32_add [of "off - ?res" ?res] by simp
  then have bound: "unat off + unat ?len \<le> unat (snd (tb_buffer tb))" using end_new tot res by linarith
  have base: "rw_base (ar_wrapper ar) = fst (tb_buffer tb)" using i(1) by simp
  have "unat p = unat (fst (tb_buffer tb)) + unat off"
    unfolding p base using u32_add [of "fst (tb_buffer tb)" off] i(4) bound by simp
  moreover have "0 < unat (fst (tb_buffer tb))" using i(3) by (simp add: unat_gt_0)
  ultimately have nn: "p \<noteq> NULL" by auto
  have "tb_inv (bufs h') tb'" using inv hb ar rb i(1) k unfolding tb' by (simp add: tb_inv_def HaveBuffer_def sizes_ok_def)
  moreover have "piece p sz tb'"
    unfolding piece_def tb'
    using nn hb dis bl off bound base p i(1) unat_max_1 [of "RoundToAlignment (tb_alignment tb) sz"]
    by (intro conjI exI [of _ "ar\<lparr>ar_wrapper := (ar_wrapper ar)\<lparr>rw_allocator := rb\<rparr>\<rparr>"] exI [of _ "kept0 @ pad"] exI [of _ new] exI [of _ off])
      (simp_all add: HaveBuffer_def new_def RB_make_Block_def tb_GetOffset_def rw_GetOffset_def)
  ultimately show ?thesis using k unfolding tb' by (simp add: same_config_def)
qed

lemma tb_Alloc_ok:
  assumes g: "good h" and inv: "tb_inv (bufs h) tb" and a: "tb_Alloc tenv sz tb h = Some (p, tb', h')"
  shows "good h' \<and> tb_inv (bufs h') tb' \<and> same_config tb tb' \<and>
    (p = NULL \<and> (\<not> HaveBuffer tb' \<or> unat (snd (tb_buffer tb')) < unat sz + unat (tb_result_size tb)) \<or> piece p sz tb')"
proof -
  from a obtain tb1 h1 where r: "ReallocateRingBuffer tenv sz tb h = Some (tb1, h1)"
    by (auto simp: tb_Alloc_def split: Option.bind_splits)
  from ReallocateRingBuffer_ok [OF g inv r] have i: "good h1" "tb_inv (bufs h1) tb1" "same_config tb tb1" by simp_all
  show ?thesis
  proof (cases "HaveBuffer tb1")
    case False
    with a r i show ?thesis by (simp add: tb_Alloc_def)
  next
    case True
    then obtain ar where ar: "tb_ring_buffer tb1 = Some ar" and ro: "ring_ok (Some ar) tb1" and lt: "tb_result_size tb1 < snd (tb_buffer tb1)"
      using i(2) by (cases "tb_ring_buffer tb1") (auto simp: tb_inv_def)
    let ?tot = "ar_GetLargestFreeOrPendingSize ar"
    have tot: "?tot = snd (tb_buffer tb1) - tb_result_size tb"
      using ro i(3) by (simp add: ar_GetLargestFreeOrPendingSize_def RingBuffer_GetLargestFreeOrPendingSize_def same_config_def)
    show ?thesis
    proof (cases "sz > ?tot")
      case c: True
      then have "p = NULL" "tb' = tb1" "h' = h1" using a r True ar by (simp_all add: tb_Alloc_def)
      moreover have "unat (snd (tb_buffer tb1)) < unat sz + unat (tb_result_size tb)"
        using c tot lt i(3) u32_sub [of "tb_result_size tb" "snd (tb_buffer tb1)"]
        by (simp add: same_config_def word_less_nat_alt word_le_nat_alt)
      ultimately show ?thesis using i by simp
    next
      case False
      then have "ring_Alloc tenv sz tb1 h1 = Some (p, tb', h')" using a r True ar by (simp add: tb_Alloc_def)
      from ring_Alloc_ok [OF i(1,2) True this] i(3) show ?thesis by (simp add: same_config_def)
    qed
  qed
qed

text \<open>The best effort: a piece of the size returned, which is not larger than asked for.\<close>

lemma tb_AllocUpTo_ok:
  assumes g: "good h" and inv: "tb_inv (bufs h) tb" and a: "tb_AllocUpTo tenv sz old tb h = Some (p, n, tb', h')"
  shows "good h' \<and> tb_inv (bufs h') tb' \<and> same_config tb tb' \<and>
    (if p = NULL then \<not> HaveBuffer tb' \<and> n = old
     else piece p n tb' \<and> n = min sz (snd (tb_buffer tb') - tb_result_size tb))"
proof -
  from a obtain tb1 h1 where r: "ReallocateRingBuffer tenv sz tb h = Some (tb1, h1)"
    by (auto simp: tb_AllocUpTo_def split: Option.bind_splits)
  from ReallocateRingBuffer_ok [OF g inv r] have i: "good h1" "tb_inv (bufs h1) tb1" "same_config tb tb1" by simp_all
  show ?thesis
  proof (cases "HaveBuffer tb1")
    case False
    with a r i show ?thesis by (simp add: tb_AllocUpTo_def)
  next
    case True
    then obtain ar where ar: "tb_ring_buffer tb1 = Some ar" and ro: "ring_ok (Some ar) tb1"
      using i(2) by (cases "tb_ring_buffer tb1") (auto simp: tb_inv_def)
    have tot: "ar_GetLargestFreeOrPendingSize ar = snd (tb_buffer tb1) - tb_result_size tb"
      using ro i(3) by (simp add: ar_GetLargestFreeOrPendingSize_def RingBuffer_GetLargestFreeOrPendingSize_def same_config_def)
    from a r True ar tot have n: "n = min sz (snd (tb_buffer tb1) - tb_result_size tb)" and ra: "ring_Alloc tenv n tb1 h1 = Some (p, tb', h')"
      by (auto simp: tb_AllocUpTo_def Let_def min.commute split: Option.bind_splits)
    note al = ring_Alloc_ok [OF i(1,2) True ra]
    have "tb_buffer tb' = tb_buffer tb1" using ra by (auto simp: ring_Alloc_def split: Option.bind_splits)
    with al n i(3) show ?thesis by (auto simp: same_config_def piece_def)
  qed
qed

text \<open>
  A scoped pointer can be released: the piece it holds is the newest of the ring and in use, so the ring takes it back, pending
  the token.
\<close>

lemma sp_Release_ok:
  assumes g: "good h" and inv: "tb_inv (bufs h) tb" and pc: "piece (sp_buffer s) n tb" and t: "te_InsertToken tenv h = Some (t, h1)"
  shows "\<exists>tb' a kept b. sp_Release tenv s tb h = Some (s\<lparr>sp_buffer := NULL, sp_size := 0\<rparr>, tb', h1) \<and> good h1 \<and>
    tb_inv (bufs h1) tb' \<and> same_config tb tb' \<and> tb_ring_buffer tb' = Some a \<and>
    rb_blocks (rw_allocator (ar_wrapper a)) = kept @ [b] \<and> rb_state b = RB_FREE_PENDING_TOKEN \<and> rb_token b = uint32 t"
proof -
  from pc obtain a kept new off where a: "tb_ring_buffer tb = Some a" "rb_blocks (rw_allocator (ar_wrapper a)) = kept @ [new]"
    "rb_state new = RB_IN_USE" "sp_buffer s = fst (tb_buffer tb) + off" "off = rb_offset new + tb_result_size tb"
    and nn: "sp_buffer s \<noteq> NULL" and hb: "HaveBuffer tb" by (auto simp: piece_def)
  let ?rb = "rw_allocator (ar_wrapper a)"
  let ?rb' = "?rb\<lparr>rb_blocks := kept @ [new\<lparr>rb_token := uint32 t, rb_state := RB_FREE_PENDING_TOKEN\<rparr>]\<rparr>"
  have ro: "ring_ok (Some a) tb" using inv hb a(1) by (simp add: tb_inv_def)
  have "rw_GetOffset (ar_wrapper a) (sp_buffer s) = rb_offset new + rb_base_offset ?rb"
    using ro a(4,5) by (simp add: rw_GetOffset_def)
  then have f: "RingBuffer_FreePendingToken (rw_GetOffset (ar_wrapper a) (sp_buffer s)) (uint32 t) ?rb = Some ?rb'"
    using RingBuffer_FreePendingToken_newest [OF a(2,3)] by simp
  have "rb_inv ?rb'" using RingBuffer_FreePendingToken_inv [OF _ f] ro by simp
  let ?tb = "tb\<lparr>tb_ring_buffer := Some (a\<lparr>ar_wrapper := (ar_wrapper a)\<lparr>rw_allocator := ?rb'\<rparr>\<rparr>)\<rparr>"
  have k: "keeps h h1" using insert_law [OF g t] .
  have "tb_inv (bufs h1) ?tb" using inv hb ro k \<open>rb_inv ?rb'\<close> a(1) by (simp add: tb_inv_def HaveBuffer_def sizes_ok_def)
  moreover have "sp_Release tenv s tb h = Some (s\<lparr>sp_buffer := NULL, sp_size := 0\<rparr>, ?tb, h1)"
    using t f nn a(1) by (simp add: sp_Release_def tb_FreePendingToken_def rw_FreePendingToken_def)
  ultimately show ?thesis using k
    by (intro exI [of _ ?tb] exI [of _ "a\<lparr>ar_wrapper := (ar_wrapper a)\<lparr>rw_allocator := ?rb'\<rparr>\<rparr>"] exI [of _ kept]
        exI [of _ "new\<lparr>rb_token := uint32 t, rb_state := RB_FREE_PENDING_TOKEN\<rparr>"]) (simp add: same_config_def)
qed

end

text \<open>With a minimum size of zero the loop runs forever when no buffer can be created.\<close>

lemma tb_AllocateRingBuffer_diverges:
  assumes "\<And>sz h. fst (me_CreateTransferBuffer (te_memory env) sz (-1) h) = -1" and "tb_min_buffer_size tb = 0"
  shows "tb_AllocateRingBuffer env sz tb h = None"
proof -
  have "False" if "tb_AllocateRingBuffer env sz tb h = Some r" for r
    using that assms
  proof (induction rule: tb_AllocateRingBuffer.raw_induct [rotated, consumes 1, case_names step])
    case (step rec env sz tb h r)
    obtain h1 where c: "me_CreateTransferBuffer (te_memory env) sz (-1) h = (-1, h1)"
      using step(3) [of sz h] by (cases "me_CreateTransferBuffer (te_memory env) sz (-1) h") simp
    with step(2,4) have "rec env (sz div 2) (tb\<lparr>tb_max_buffer_size := sz div 2\<rparr>) h1 = Some r" by simp
    from step(1) [OF this step(3)] step(4) show ?case by simp
  qed
  then show ?thesis by (cases "tb_AllocateRingBuffer env sz tb h") auto
qed

end
