(* ===== verification/Client_Transfer.thy ===== *)
theory Client_Transfer
  imports Client_Memory Transfer_Buffer
begin

text \<open>The transfer buffer of the client on the helper and the service.\<close>

definition helper_transfer ::
    "'a GpuScheduler_scheme client_env \<Rightarrow> (obj \<Rightarrow> ptr) \<Rightarrow> 'a GpuScheduler_scheme CommandBufferHelper transfer_env" where
  "helper_transfer cb addr = \<lparr>te_memory = helper_memory cb addr, te_Finish = Finish cb, te_InsertToken = InsertToken cb\<rparr>"

lemma helper_transfer_simps [simp]:
  "te_memory (helper_transfer cb addr) = helper_memory cb addr" "te_Finish (helper_transfer cb addr) = Finish cb"
  "te_InsertToken (helper_transfer cb addr) = InsertToken cb"
  by (simp_all add: helper_transfer_def)

text \<open>An operation of the helper leaves the table of the buffers alone.\<close>

lemma client_inv_bufs:
  assumes "client_inv n ob cs h" and "client_inv n ob cs' h'" and "buffers_of (hp_cb h') = buffers_of (hp_cb h)"
  shows "service_bufs addr h' = service_bufs addr h"
  using client_invD(1) [OF assms(1)] client_invD(1) [OF assms(2)] by (intro service_bufs_cong assms(3)) simp

sublocale service_memory \<subseteq> transfer: transfer_provider "helper_transfer (service_cb e create map_shm clock android) addr"
  "service_bufs addr" memory_good
proof (rule transfer_provider.intro)
  show "memory_provider (te_memory (helper_transfer (service_cb e create map_shm clock android) addr)) (service_bufs addr) memory_good"
    by (simp add: memory_provider_axioms)
  show "transfer_provider_axioms (helper_transfer (service_cb e create map_shm clock android) addr) (service_bufs addr) memory_good"
  proof (unfold_locales, simp_all)
    let ?cb = "service_cb e create map_shm clock android"
    fix h h' :: "'a GpuScheduler_scheme CommandBufferHelper" and b :: bool and t :: int
    assume "memory_good h"
    then obtain n ob cs where inv: "client_inv n ob cs h" and n: "2 < n" and len: "length (cs_registered_objects (hp_cb h)) < 2147483648"
      by (auto simp: memory_good_def)
    show "memory_good h' \<and> service_bufs addr h' = service_bufs addr h" if "Finish ?cb h = Some (b, h')"
      using svc.Finish_core [OF client_coreD(1) [OF inv], of e create map_shm clock android, unfolded that]
        good_advanced [OF inv n _ _ len] by blast
    show "memory_good h' \<and> service_bufs addr h' = service_bufs addr h" if "InsertToken ?cb h = Some (t, h')"
    proof -
      have tk: "0 \<le> hp_token h" "hp_token h < 2147483648" using inv by (simp_all add: client_inv_def)
      from svc.InsertToken_core [OF client_coreD [OF inv] n tk, of e create map_shm clock android, unfolded that option.case prod.case]
      obtain cs' where "helper_core (service_world (buffers_of (hp_cb h))) cs_get_offset svc_ok n ob cs' h'" by blast
      then have eq: "buffers_of (hp_cb h') = buffers_of (hp_cb h)" by (simp add: helper_core_def service_world_def)
      from client_InsertToken(3) [OF inv n that] obtain cs2 where inv': "client_inv n ob cs2 h'" by blast
      from client_inv_bufs [OF inv inv' eq] inv' n eq len show ?thesis by (auto simp: memory_good_def buffers_of_def)
    qed
  qed
qed

end
