(* ===== verification/Client_Runs.thy ===== *)
theory Client_Runs
  imports Client_Transfer
begin

text \<open>
  The client and the service as a whole, seen as a queue: whatever the client issues between calls
  that wait, flush or insert tokens is executed once, in the order in which it was issued.
\<close>

subsection \<open>Runs of the client\<close>

text \<open>
  The commands issued so far and the client after them. A command of the application is a sequence of
  entries that fits the ring, does not jump and sets no token; tokens come from \<^verbatim>\<open>InsertToken\<close>.
\<close>

inductive client_run ::
    "'a GpuScheduler_scheme client_env \<Rightarrow> nat \<Rightarrow> u32 list list \<Rightarrow> 'a GpuScheduler_scheme CommandBufferHelper \<Rightarrow> bool"
  for cb n where
  start: "idle_service w \<Longrightarrow> 20 \<le> sz \<Longrightarrow> sz < 2147483648 \<Longrightarrow> n = nat sz div 4 - 2 \<Longrightarrow>
    hp_Initialize cb sz (new_CommandBufferHelper w) = Some (True, h) \<Longrightarrow> client_run cb n [] h"
| issue: "client_run cb n issued h \<Longrightarrow> wf_entries es \<Longrightarrow> quiet_cmd es \<Longrightarrow> token_of es = [] \<Longrightarrow> length es < n \<Longrightarrow>
    GetSpace cb (of_nat (length es)) h = Some (Some p, h1) \<Longrightarrow> put_entries p es h1 = Some h2 \<Longrightarrow>
    client_run cb n (issued @ [es]) h2"
| token: "client_run cb n issued h \<Longrightarrow> InsertToken cb h = Some (t, h') \<Longrightarrow> SetToken_Init (uint32 t) = Some es \<Longrightarrow>
    client_run cb n (issued @ [es]) h'"
| wait: "client_run cb n issued h \<Longrightarrow> WaitForToken cb t h = Some h' \<Longrightarrow> client_run cb n issued h'"
| finish: "client_run cb n issued h \<Longrightarrow> Finish cb h = Some (b, h') \<Longrightarrow> client_run cb n issued h'"
| flush: "client_run cb n issued h \<Longrightarrow> hp_Flush cb h = Some h' \<Longrightarrow> client_run cb n issued h'"
| flush_sync: "client_run cb n issued h \<Longrightarrow> hp_FlushSync cb h = Some (b, h') \<Longrightarrow> client_run cb n issued h'"

text \<open>
  The abstraction: the commands that the service has executed, and those that wait in the ring. The
  jumps to the start of the ring belong to the ring, not to the queue.
\<close>

definition queue_abs ::
    "nat \<Rightarrow> u32 list list \<Rightarrow> u32 list list \<Rightarrow> u32 list list \<Rightarrow> 'a GpuScheduler_scheme CommandBufferHelper \<Rightarrow> bool" where
  "queue_abs n issued executed waiting h \<longleftrightarrow> (\<exists>ob. client_inv n ob waiting h) \<and>
     (svc_ok (hp_cb h) \<longrightarrow> filter (\<lambda>c. c \<noteq> jump0) (executed @ waiting) = issued \<and>
        cs_token (hp_cb h) = token_after 0 executed)"

lemma queue_abs_progress:
  assumes q: "queue_abs n issued executed cs h" and inv: "client_inv n ob cs' h'"
    and p: "progress cs_token svc_ok new cs cs' h h'"
  shows "\<exists>executed' waiting. queue_abs n (issued @ new) executed' waiting h'"
proof (cases "svc_ok (hp_cb h')")
  case True
  with p obtain cs1 cs2 where cs: "cs @ cs2 = cs1 @ cs'" "filter (\<lambda>c. c \<noteq> jump0) cs2 = new"
    "cs_token (hp_cb h') = token_after (cs_token (hp_cb h)) cs1" and "svc_ok (hp_cb h)" by (auto simp: progress_def)
  with q have a: "filter (\<lambda>c. c \<noteq> jump0) (executed @ cs) = issued" "cs_token (hp_cb h) = token_after 0 executed"
    by (auto simp: queue_abs_def)
  have "filter (\<lambda>c. c \<noteq> jump0) ((executed @ cs1) @ cs') = filter (\<lambda>c. c \<noteq> jump0) (executed @ (cs @ cs2))"
    unfolding cs(1) by simp
  also have "\<dots> = issued @ new" using a(1) cs(2) by simp
  finally show ?thesis
    using inv cs(3) a(2) by (intro exI [of _ "executed @ cs1"] exI [of _ cs']) (auto simp: queue_abs_def)
next
  case False
  with inv show ?thesis unfolding queue_abs_def by blast
qed

text \<open>An operation that only lets the service go on, and one that issues a command without a token.\<close>

lemma queue_abs_advanced:
  assumes q: "queue_abs n issued executed cs h" and inv: "client_inv n ob cs h"
    and c: "helper_core (service_world (buffers_of (hp_cb h))) cs_get_offset svc_ok n ob cs' h'"
    and adv: "advanced cs_get_offset cs_token svc_ok cs cs' h h'"
  shows "\<exists>executed' waiting. queue_abs n issued executed' waiting h'"
  using queue_abs_progress [OF q client_advanced [OF inv c adv] progress_advanced [OF adv]] by simp

lemma tokens_ok_progress:
  assumes inv: "client_inv n ob cs h" and p: "progress cs_token svc_ok [es] cs cs' h h'" and es: "token_of es = []"
    and o: "svc_ok (hp_cb h')"
  shows "sorted (cs_token (hp_cb h') # tokens cs') \<and> token_after (cs_token (hp_cb h')) cs' = hp_token h"
proof -
  from p o obtain cs1 cs2 where cs: "cs @ cs2 = cs1 @ cs'" "filter (\<lambda>c. c \<noteq> jump0) cs2 = [es]"
    "cs_token (hp_cb h') = token_after (cs_token (hp_cb h)) cs1" and "svc_ok (hp_cb h)" by (auto simp: progress_def)
  with client_coreD(2) [OF inv] have t: "sorted (cs_token (hp_cb h) # tokens cs)"
    "token_after (cs_token (hp_cb h)) cs = hp_token h" by blast+
  have none: "tokens cs2 = []" using svc.tokens_filter_jump [of cs2] cs(2) es by simp
  have "token_after (cs_token (hp_cb h')) cs' = token_after (cs_token (hp_cb h)) (cs @ cs2)"
    unfolding cs(1) using cs(3) by simp
  also have "\<dots> = hp_token h" using t(2) none by (simp add: token_after_last [of _ cs2])
  finally have a: "token_after (cs_token (hp_cb h')) cs' = hp_token h" .
  have "sorted (cs_token (hp_cb h) # tokens (cs1 @ cs'))" using t(1) unfolding cs(1) [symmetric] map_append concat_append none by simp
  from svc.sorted_token_after [OF this] cs(3) a show ?thesis by simp
qed

lemma client_run_queue:
  assumes run: "client_run (service_cb e create map_shm clock android) n issued h"
    and ok: "create_ok create" "map_shm_ok map_shm"
  shows "2 < n \<and> (\<exists>executed waiting. queue_abs n issued executed waiting h)"
  using run
proof (induction rule: client_run.induct)
  case (start w sz h)
  then have "12 \<le> sz" by simp
  from Initialize_client [OF start(1) ok this start(3), of e clock android] start(5)
  obtain ob where "client_inv (nat sz div 4 - 2) ob [] h" "svc_ok (hp_cb h)" "hp_token h = 0" by auto
  moreover from this have "cs_token (hp_cb h) = 0" by (simp add: client_inv_def)
  moreover have "20 div 4 \<le> nat sz div 4" using start(2) by (intro div_le_mono) simp
  ultimately show ?case using start(4)
    by (intro conjI exI [of _ "[]"]) (auto simp: queue_abs_def)
next
  case (issue issued h es p h1 h2)
  then obtain executed cs ob where q: "queue_abs n issued executed cs h" "client_inv n ob cs h"
    by (auto simp: queue_abs_def)
  from client_issue [OF q(2) issue(2,3,5,6)] issue(7) obtain cs' where
    c: "helper_core (service_world (buffers_of (hp_cb h))) cs_get_offset svc_ok n ob cs' h2" "hp_token h2 = hp_token h"
    and p: "progress cs_token svc_ok [es] cs cs' h h2" by auto
  have "client_inv n ob cs' h2"
  proof (rule client_invI [OF q(2) c(1)])
    show "svc_ok (hp_cb h2) \<longrightarrow> sorted (cs_token (hp_cb h2) # tokens cs') \<and> token_after (cs_token (hp_cb h2)) cs' = hp_token h2"
      using tokens_ok_progress [OF q(2) p issue(4)] c(2) by simp
  qed (use q(2) c(2) in \<open>simp_all add: client_inv_def\<close>)
  from queue_abs_progress [OF q(1) this p] issue.IH show ?case by blast
next
  case (token issued h t h' es)
  then obtain executed cs ob where q: "queue_abs n issued executed cs h" "client_inv n ob cs h"
    by (auto simp: queue_abs_def)
  have "es = [entry_of_header \<lparr>h_size = 2, h_command = 1\<rparr>, uint32 t]"
    using token(3) svc.set_token_simps(1) [of t] by simp
  with client_InsertToken(3) [OF q(2) _ token(2)] token.IH queue_abs_progress [OF q(1)] show ?case by blast
next
  case (wait issued h t h')
  then obtain executed cs ob where q: "queue_abs n issued executed cs h" "client_inv n ob cs h"
    by (auto simp: queue_abs_def)
  from svc.WaitForToken_result [OF client_coreD [OF q(2)] wait(2)] queue_abs_advanced [OF q] wait.IH show ?case by blast
next
  case (finish issued h b h')
  then obtain executed cs ob where q: "queue_abs n issued executed cs h" "client_inv n ob cs h"
    by (auto simp: queue_abs_def)
  from svc.Finish_core [OF client_coreD(1) [OF q(2)], of e create map_shm clock android, unfolded finish(2)]
    queue_abs_advanced [OF q] finish.IH show ?case by blast
next
  case (flush issued h h')
  then obtain executed cs ob where q: "queue_abs n issued executed cs h" "client_inv n ob cs h"
    by (auto simp: queue_abs_def)
  from svc.Flush_core [OF client_coreD(1) [OF q(2)], of e create map_shm clock android, unfolded flush(2)]
    queue_abs_advanced [OF q] flush.IH show ?case by blast
next
  case (flush_sync issued h b h')
  then obtain executed cs ob where q: "queue_abs n issued executed cs h" "client_inv n ob cs h"
    by (auto simp: queue_abs_def)
  from svc.FlushSync_core [OF client_coreD(1) [OF q(2)], of e create map_shm clock android, unfolded flush_sync(2)]
    queue_abs_advanced [OF q] flush_sync.IH show ?case by blast
qed

text \<open>
  When \<^verbatim>\<open>Finish\<close> reports success the queue is empty: the service has executed exactly the commands
  issued, and its token is the last one issued.
\<close>

lemma token_after_filter_jump: "token_after t (filter (\<lambda>c. c \<noteq> jump0) cs) = token_after t cs"
  using svc.tokens_filter_jump [of cs] by (simp add: token_after_last)

lemma client_run_finished:
  assumes run: "client_run (service_cb e create map_shm clock android) n issued h"
    and ok: "create_ok create" "map_shm_ok map_shm" "svc_ok (hp_cb h)"
  shows "\<exists>b h'. Finish (service_cb e create map_shm clock android) h = Some (b, h') \<and> (b \<longleftrightarrow> svc_ok (hp_cb h')) \<and>
    (b \<longrightarrow> cs_get_offset (hp_cb h') = hp_put h' \<and> cs_token (hp_cb h') = token_after 0 issued)"
proof -
  from client_run_queue [OF run ok(1,2)] ok(3) obtain executed cs ob where inv: "client_inv n ob cs h"
    and q: "filter (\<lambda>c. c \<noteq> jump0) (executed @ cs) = issued" "cs_token (hp_cb h) = token_after 0 executed"
    by (auto simp: queue_abs_def)
  have "token_after (cs_token (hp_cb h)) cs = token_after 0 issued"
    unfolding q(1) [symmetric] token_after_filter_jump q(2) by simp
  moreover obtain b h' cs' where f: "Finish (service_cb e create map_shm clock android) h = Some (b, h')"
    "b \<longleftrightarrow> svc_ok (hp_cb h')" "b \<longrightarrow> cs_get_offset (hp_cb h') = hp_put h' \<and>
       cs_token (hp_cb h') = token_after (cs_token (hp_cb h)) cs"
    using client_Finish [OF inv ok(3), of e create map_shm clock android] by blast
  ultimately have "b \<longrightarrow> cs_get_offset (hp_cb h') = hp_put h' \<and> cs_token (hp_cb h') = token_after 0 issued" by simp
  with f(1,2) show ?thesis by blast
qed

text \<open>
  A client that the service accepts can always issue: either there is room, after waiting, for the
  command, or the service has stopped with an error while the client waited (then the checks of the
  debug build end the client).
\<close>

lemma client_run_issue:
  assumes run: "client_run (service_cb e create map_shm clock android) n issued h"
    and ok: "create_ok create" "map_shm_ok map_shm"
    and es: "wf_entries es" "quiet_cmd es" "length es < n"
  shows "(\<exists>p h1 h2. GetSpace (service_cb e create map_shm clock android) (of_nat (length es)) h = Some (Some p, h1) \<and>
      put_entries p es h1 = Some h2) \<or>
    (\<exists>h'. WaitForAvailableEntries (service_cb e create map_shm clock android) (int (length es))
        (h\<lparr>hp_commands_issued := int32 (hp_commands_issued h + 1)\<rparr>) = Some h' \<and> \<not> svc_ok (hp_cb h'))"
proof -
  from client_run_queue [OF run ok] obtain cs ob where inv: "client_inv n ob cs h" by (auto simp: queue_abs_def)
  show ?thesis
  proof (cases "GetSpace (service_cb e create map_shm clock android) (of_nat (length es)) h")
    case None
    with svc.GetSpace_core [OF client_coreD(1) [OF inv] es, of e create map_shm clock android] show ?thesis by auto
  next
    case (Some r)
    obtain space h1 where "r = (space, h1)" by fastforce
    with client_issue [OF inv es, of e create map_shm clock android space h1] Some show ?thesis by blast
  qed
qed

subsection \<open>A sample service\<close>

text \<open>A service that has just started, on the system of the instance above, and a client with a ring of 64 bytes.\<close>

definition sample_service :: GpuScheduler where
  "sample_service = service_init (scheduler_init
     \<lparr>mem = (\<lambda>_. []), cp_get = 0, cp_put = 0, cp_buffer = None, cp_entry_count = 0, buckets = Map.empty, call_stack = [],
      cs_ring_buffer_id = -1, cs_ring_buffer = null_Buffer, cs_num_entries = 0, cs_get_offset = 0, cs_put_offset = 0,
      cs_registered_objects = [], cs_unused_elements = [], cs_token = 0, cs_generation = 0, cs_error = kNoError,
      cs_context_lost_reason = kUnknown, cs_shared_memory_bytes_allocated = 0, gs_parser = False, gs_unscheduled_count = 0,
      gs_rescheduled_count = 0, gs_timeout_posted = False, gs_unschedule_fences = [], gs_scheduled_callback = None,
      gs_command_processed_callback = None\<rparr>)"

definition sample_env :: "GpuScheduler sched_env" where
  "sample_env = \<lparr>env_DoCommand = (\<lambda>_ _ _ w. Some (kNoError, w)), env_GetContextLostReason = (\<lambda>_. kUnknown),
     env_run = (\<lambda>_ w. Some w), env_parse_error = None, env_GLFence_Create = (\<lambda>w. (None, w)),
     env_HasCompleted = (\<lambda>_ _. True), env_glFinish = id, env_OS_WIN = False\<rparr>"

definition sample_addr :: "obj \<Rightarrow> ptr" where
  "sample_addr ob = of_nat (65536 * ob)"

definition sample_cb :: "GpuScheduler client_env" where
  "sample_cb = service_cb sample_env os_create (os_map sample_addr) (\<lambda>_. 0) False"

definition sample_tb :: TransferBuffer where
  "sample_tb = new_TransferBuffer\<lparr>tb_result_size := 8, tb_min_buffer_size := 64, tb_max_buffer_size := 64, tb_alignment := 4\<rparr>"

lemma sample_idle: "idle_service sample_service"
proof -
  have "svc_inv sample_service" unfolding sample_service_def by (rule service_init_inv)
  then show ?thesis
    by (simp add: idle_service_def sample_service_def scheduler_init_def service_init_def dec_inv_def)
qed

lemma sample_create:
  "CreateTransferBuffer os_create (os_map sample_addr) 64 (-1) sample_service =
     (1, sample_service\<lparr>mem := (\<lambda>_. [])(1 := replicate 64 0),
        cs_registered_objects := [null_Buffer, \<lparr>buf_ptr = Some 1, buf_size = 64, buf_shared_memory = Some 1\<rparr>],
        cs_shared_memory_bytes_allocated := 64\<rparr>)"
  by (simp add: sample_service_def service_init_def scheduler_init_def CreateTransferBuffer_def os_create_def
      fresh_obj_def RegisterTransferBuffer_def os_map_def null_Buffer_def sample_addr_def int32_def)

lemma sample_start:
  "\<exists>h. hp_Initialize sample_cb 64 (new_CommandBufferHelper sample_service) = Some (True, h) \<and>
     cs_registered_objects (hp_cb h) = [null_Buffer, \<lparr>buf_ptr = Some 1, buf_size = 64, buf_shared_memory = Some 1\<rparr>] \<and> cs_unused_elements (hp_cb h) = [] \<and>
     hp_put h = 0 \<and> hp_last_put_sent h = 0 \<and> hp_commands_issued h = 0 \<and>
     cs_get_offset (hp_cb h) = 0"
proof -
  have "uint32 64 = 64" by (simp add: uint32_def)
  then show ?thesis
    unfolding hp_Initialize_def AllocateRingBuffer_def
    by (simp add: sample_create sample_cb_def service_cb_def new_CommandBufferHelper_def HaveRingBuffer_def
      GetTransferBuffer_lookup table_lookup_def SetGetBuffer_def cs_SetGetOffset_def sched_SetGetBuffer_def
      parser_init_def SetBuffer_def sched_SetGetOffset_def set_get_def GetState_def Let_def sample_service_def [THEN arg_cong [where f = cs_unused_elements]] service_init_def scheduler_init_def)
qed

lemma sample_client:
  obtains h ob where "hp_Initialize sample_cb 64 (new_CommandBufferHelper sample_service) = Some (True, h)"
    and "client_run sample_cb 14 [] h" and "client_inv 14 ob [] h" and "svc_ok (hp_cb h)" and "hp_token h = 0"
proof -
  from sample_start obtain h where h: "hp_Initialize sample_cb 64 (new_CommandBufferHelper sample_service) = Some (True, h)" by blast
  have "client_run sample_cb 14 [] h" by (rule client_run.start [OF sample_idle _ _ _ h]) simp_all
  moreover obtain ob where "client_inv 14 ob [] h" "svc_ok (hp_cb h)" "hp_token h = 0"
    using Initialize_client [OF sample_idle os_create_ok os_map_shm_ok [of sample_addr], of 64 sample_env "\<lambda>_. 0" False] h
    by (auto simp: sample_cb_def)
  ultimately show thesis using that h by blast
qed

lemma sample_good:
  assumes "hp_Initialize sample_cb 64 (new_CommandBufferHelper sample_service) = Some (True, h)"
  shows "memory_good h"
proof -
  obtain ob where "client_inv 14 ob [] h" using assms by (metis option.inject prod.inject sample_client)
  moreover have "length (cs_registered_objects (hp_cb h)) = 2"
    using assms sample_start by auto
  moreover have "(2 :: nat) < 14" by simp
  ultimately show ?thesis unfolding memory_good_def by fastforce
qed

lemma sample_wait:
  assumes "client_core 14 ob [] h" and "hp_put h = 0" "hp_last_put_sent h = 0" "hp_commands_issued h = 1" "cs_get_offset (hp_cb h) = 0"
  shows "\<exists>g. WaitForAvailableEntries sample_cb 2 h = Some (h\<lparr>hp_cb := (hp_cb h)\<lparr>cs_generation := g\<rparr>\<rparr>)"
proof -
  have c: "hp_usable h" "HaveRingBuffer h" "hp_usable_entry_count h = 14"
    using assms(1) by (simp_all add: helper_core_def)
  have g: "get_offset sample_cb h = (cs_get_offset (hp_cb h), h\<lparr>hp_cb := (hp_cb h)\<lparr>cs_generation := cs_generation (hp_cb h) + 1\<rparr>\<rparr>)" for h
    by (simp add: get_offset_def sample_cb_def service_cb_def GetLastState_def GetState_def Let_def)
  moreover have "(1 :: int) smod 100 = 1" by (simp add: signed_modulo_int_def)
  ultimately show ?thesis using c assms
    by (auto simp: WaitForAvailableEntries_def AllocateRingBuffer_def AvailableEntries_def c_mod_def flush_check_def kCommandsPerFlushCheck_def)
qed

lemma sample_insert:
  assumes h: "hp_Initialize sample_cb 64 (new_CommandBufferHelper sample_service) = Some (True, h)" and i: "client_inv 14 ob [] h" "hp_token h = 0" "svc_ok (hp_cb h)"
  shows "\<exists>h'. InsertToken sample_cb h = Some (1, h')"
proof -
  have f: "hp_put h = 0" "hp_last_put_sent h = 0" "hp_commands_issued h = 0" "cs_get_offset (hp_cb h) = 0"
    using sample_start h by auto
  note c = client_coreD(1) [OF i(1)]
  let ?h = "h\<lparr>hp_token := 1\<rparr>" let ?h1 = "?h\<lparr>hp_commands_issued := 1\<rparr>"
  have c1: "client_core 14 ob [] ?h" "client_core 14 ob [] ?h1"
    using c by (simp_all add: helper_core_def HaveRingBuffer_def)
  from sample_wait [OF c1(2)] f obtain g where w: "WaitForAvailableEntries sample_cb 2 ?h1 = Some (?h1\<lparr>hp_cb := (hp_cb h)\<lparr>cs_generation := g\<rparr>\<rparr>)"
    by auto
  let ?es = "[entry_of_header \<lparr>h_size = 2, h_command = 1\<rparr>, uint32 1]"
  note sp = svc.GetSpace_core [OF c1(1) svc.set_token_simps(2,3) [of 1], of sample_env os_create "os_map sample_addr" "\<lambda>_. 0" False,
      folded sample_cb_def]
  have "GetSpace sample_cb 2 ?h \<noteq> None" using sp w f(3) i(3) by (cases "GetSpace sample_cb 2 ?h") (auto simp: int32_def)
  with sp obtain space h2 h3 where s: "GetSpace sample_cb 2 ?h = Some (space, h2)" "hp_token h2 = 1"
    "init_cmd (Some ?es) (space, h2) = Some h3" "hp_token h3 = 1" by auto
  then show ?thesis
    using svc.InsertToken_run [OF c, of sample_env os_create "os_map sample_addr" "\<lambda>_. 0" False, folded sample_cb_def] i(2)
      svc.set_token_simps(1) [of 1] by simp
qed

lemma sample_second:
  assumes h: "hp_Initialize sample_cb 64 (new_CommandBufferHelper sample_service) = Some (True, h)"
  shows "\<exists>w. me_CreateTransferBuffer (helper_memory sample_cb sample_addr) 64 (-1) h = (2, h\<lparr>hp_cb := w\<rparr>) \<and>
     GetTransferBuffer 2 w = \<lparr>buf_ptr = Some 2, buf_size = 64, buf_shared_memory = Some 2\<rparr>"
proof -
  have f: "cs_registered_objects (hp_cb h) = [null_Buffer, \<lparr>buf_ptr = Some 1, buf_size = 64, buf_shared_memory = Some 1\<rparr>]" "cs_unused_elements (hp_cb h) = []"
    using sample_start h by auto
  let ?w = "(hp_cb h)\<lparr>mem := (mem (hp_cb h))(2 := replicate 64 0),
    cs_shared_memory_bytes_allocated := cs_shared_memory_bytes_allocated (hp_cb h) + 64,
    cs_registered_objects := cs_registered_objects (hp_cb h) @ [\<lparr>buf_ptr = Some 2, buf_size = 64, buf_shared_memory = Some 2\<rparr>]\<rparr>"
  have fr: "fresh_obj (hp_cb h) = 2" using f by (simp add: fresh_obj_def null_Buffer_def)
  from f show ?thesis
    by (intro exI [of _ ?w]) (simp add: helper_memory_def sample_cb_def service_cb_def CreateTransferBuffer_def os_create_def fr
       RegisterTransferBuffer_def os_map_def null_Buffer_def sample_addr_def int32_def GetTransferBuffer_lookup table_lookup_def)
qed

lemma sample_tb_alloc:
  assumes h: "hp_Initialize sample_cb 64 (new_CommandBufferHelper sample_service) = Some (True, h)"
  shows "\<exists>tb' h'. tb_Alloc (helper_transfer sample_cb sample_addr) 5 sample_tb h = Some (131080, tb', h')"
proof -
  from sample_second [OF h] obtain w where w: "me_CreateTransferBuffer (helper_memory sample_cb sample_addr) 64 (-1) h = (2, h\<lparr>hp_cb := w\<rparr>)"
     "GetTransferBuffer 2 w = \<lparr>buf_ptr = Some 2, buf_size = 64, buf_shared_memory = Some 2\<rparr>" by blast
  have g: "me_GetTransferBuffer (helper_memory sample_cb sample_addr) 2 (h\<lparr>hp_cb := w\<rparr>) = ((131072, 64), h\<lparr>hp_cb := w\<rparr>)"
    using w(2) by (simp add: helper_memory_def sample_cb_def service_cb_def sample_addr_def)
  have p: "ComputePOTSize 13 = Some 16" by code_simp
  let ?tb = "sample_tb\<lparr>tb_ring_buffer := Some (new_AlignedRingBuffer 4 2 8 56 131080), tb_buffer := (131072, 64), tb_buffer_id := 2, tb_result_buffer := 131072\<rparr>"
  have r: "ReallocateRingBuffer (helper_transfer sample_cb sample_addr) 5 sample_tb h = Some (?tb, h\<lparr>hp_cb := w\<rparr>)"
    using w(1) g by (simp add: ReallocateRingBuffer_def sample_tb_def new_TransferBuffer_def p HaveBuffer_def min_def max_def tb_AllocateRingBuffer.simps reset_ring_def)
  have "RoundToAlignment 4 5 = 8" by code_simp
  then show ?thesis unfolding tb_Alloc_def r
    by (simp add: HaveBuffer_def ar_GetLargestFreeOrPendingSize_def RingBuffer_GetLargestFreeOrPendingSize_def new_AlignedRingBuffer_def new_RingBufferWrapper_def
     new_RingBuffer_def ring_Alloc_def ar_Alloc_def rw_Alloc_def RingBuffer_Alloc_def rb_make_room.simps GetLargestFreeSizeNoWaiting_def Let_def rw_GetPointer_def)
qed

lemma sample_tb_inv: "tb_inv bs sample_tb"
  by (simp add: tb_inv_def sample_tb_def new_TransferBuffer_def HaveBuffer_def sizes_ok_def)

end
