(* ===== verification/Gl_Enums.thy ===== *)
theory Gl_Enums
  imports Prelude
begin

text \<open>
  The enumerants of the GL headers that the modelled code names (\<^verbatim>\<open>GLES2/gl2.h\<close>, \<^verbatim>\<open>GLES2/gl2ext.h\<close> and
  \<^verbatim>\<open>gpu/command_buffer/service/gl_utils.h\<close>), for any numeric type: the code passes them as \<^verbatim>\<open>int\<close>, \<^verbatim>\<open>uint32\<close>
  and \<^verbatim>\<open>GLenum\<close>.
\<close>

abbreviation (input) GL_ACTIVE_ATTRIBUTES :: "'a :: {zero, numeral}" where
  "GL_ACTIVE_ATTRIBUTES \<equiv> 0x8B89"

abbreviation (input) GL_ACTIVE_ATTRIBUTE_MAX_LENGTH :: "'a :: {zero, numeral}" where
  "GL_ACTIVE_ATTRIBUTE_MAX_LENGTH \<equiv> 0x8B8A"

abbreviation (input) GL_ACTIVE_TEXTURE :: "'a :: {zero, numeral}" where
  "GL_ACTIVE_TEXTURE \<equiv> 0x84E0"

abbreviation (input) GL_ACTIVE_UNIFORMS :: "'a :: {zero, numeral}" where
  "GL_ACTIVE_UNIFORMS \<equiv> 0x8B86"

abbreviation (input) GL_ACTIVE_UNIFORM_MAX_LENGTH :: "'a :: {zero, numeral}" where
  "GL_ACTIVE_UNIFORM_MAX_LENGTH \<equiv> 0x8B87"

abbreviation (input) GL_ALIASED_LINE_WIDTH_RANGE :: "'a :: {zero, numeral}" where
  "GL_ALIASED_LINE_WIDTH_RANGE \<equiv> 0x846E"

abbreviation (input) GL_ALIASED_POINT_SIZE_RANGE :: "'a :: {zero, numeral}" where
  "GL_ALIASED_POINT_SIZE_RANGE \<equiv> 0x846D"

abbreviation (input) GL_ALPHA :: "'a :: {zero, numeral}" where
  "GL_ALPHA \<equiv> 0x1906"

abbreviation (input) GL_ALPHA16F_EXT :: "'a :: {zero, numeral}" where
  "GL_ALPHA16F_EXT \<equiv> 0x881C"

abbreviation (input) GL_ALPHA32F_EXT :: "'a :: {zero, numeral}" where
  "GL_ALPHA32F_EXT \<equiv> 0x8816"

abbreviation (input) GL_ALPHA8_EXT :: "'a :: {zero, numeral}" where
  "GL_ALPHA8_EXT \<equiv> 0x803C"

abbreviation (input) GL_ALPHA_BITS :: "'a :: {zero, numeral}" where
  "GL_ALPHA_BITS \<equiv> 0xD55"

abbreviation (input) GL_ARRAY_BUFFER :: "'a :: {zero, numeral}" where
  "GL_ARRAY_BUFFER \<equiv> 0x8892"

abbreviation (input) GL_ARRAY_BUFFER_BINDING :: "'a :: {zero, numeral}" where
  "GL_ARRAY_BUFFER_BINDING \<equiv> 0x8894"

abbreviation (input) GL_ATTACHED_SHADERS :: "'a :: {zero, numeral}" where
  "GL_ATTACHED_SHADERS \<equiv> 0x8B85"

abbreviation (input) GL_BGRA8_EXT :: "'a :: {zero, numeral}" where
  "GL_BGRA8_EXT \<equiv> 0x93A1"

abbreviation (input) GL_BGRA_EXT :: "'a :: {zero, numeral}" where
  "GL_BGRA_EXT \<equiv> 0x80E1"

abbreviation (input) GL_BLEND :: "'a :: {zero, numeral}" where
  "GL_BLEND \<equiv> 0xBE2"

abbreviation (input) GL_BLEND_COLOR :: "'a :: {zero, numeral}" where
  "GL_BLEND_COLOR \<equiv> 0x8005"

abbreviation (input) GL_BLEND_DST_ALPHA :: "'a :: {zero, numeral}" where
  "GL_BLEND_DST_ALPHA \<equiv> 0x80CA"

abbreviation (input) GL_BLEND_DST_RGB :: "'a :: {zero, numeral}" where
  "GL_BLEND_DST_RGB \<equiv> 0x80C8"

abbreviation (input) GL_BLEND_EQUATION_ALPHA :: "'a :: {zero, numeral}" where
  "GL_BLEND_EQUATION_ALPHA \<equiv> 0x883D"

abbreviation (input) GL_BLEND_EQUATION_RGB :: "'a :: {zero, numeral}" where
  "GL_BLEND_EQUATION_RGB \<equiv> 0x8009"

abbreviation (input) GL_BLEND_SRC_ALPHA :: "'a :: {zero, numeral}" where
  "GL_BLEND_SRC_ALPHA \<equiv> 0x80CB"

abbreviation (input) GL_BLEND_SRC_RGB :: "'a :: {zero, numeral}" where
  "GL_BLEND_SRC_RGB \<equiv> 0x80C9"

abbreviation (input) GL_BLUE_BITS :: "'a :: {zero, numeral}" where
  "GL_BLUE_BITS \<equiv> 0xD54"

abbreviation (input) GL_BOOL :: "'a :: {zero, numeral}" where
  "GL_BOOL \<equiv> 0x8B56"

abbreviation (input) GL_BOOL_VEC2 :: "'a :: {zero, numeral}" where
  "GL_BOOL_VEC2 \<equiv> 0x8B57"

abbreviation (input) GL_BOOL_VEC3 :: "'a :: {zero, numeral}" where
  "GL_BOOL_VEC3 \<equiv> 0x8B58"

abbreviation (input) GL_BOOL_VEC4 :: "'a :: {zero, numeral}" where
  "GL_BOOL_VEC4 \<equiv> 0x8B59"

abbreviation (input) GL_BUFFER_SIZE :: "'a :: {zero, numeral}" where
  "GL_BUFFER_SIZE \<equiv> 0x8764"

abbreviation (input) GL_BUFFER_USAGE :: "'a :: {zero, numeral}" where
  "GL_BUFFER_USAGE \<equiv> 0x8765"

abbreviation (input) GL_BYTE :: "'a :: {zero, numeral}" where
  "GL_BYTE \<equiv> 0x1400"

abbreviation (input) GL_CLAMP_TO_EDGE :: "'a :: {zero, numeral}" where
  "GL_CLAMP_TO_EDGE \<equiv> 0x812F"

abbreviation (input) GL_COLOR_CLEAR_VALUE :: "'a :: {zero, numeral}" where
  "GL_COLOR_CLEAR_VALUE \<equiv> 0xC22"

abbreviation (input) GL_COLOR_WRITEMASK :: "'a :: {zero, numeral}" where
  "GL_COLOR_WRITEMASK \<equiv> 0xC23"

abbreviation (input) GL_COMPILE_STATUS :: "'a :: {zero, numeral}" where
  "GL_COMPILE_STATUS \<equiv> 0x8B81"

abbreviation (input) GL_COMPRESSED_TEXTURE_FORMATS :: "'a :: {zero, numeral}" where
  "GL_COMPRESSED_TEXTURE_FORMATS \<equiv> 0x86A3"

abbreviation (input) GL_CULL_FACE :: "'a :: {zero, numeral}" where
  "GL_CULL_FACE \<equiv> 0xB44"

abbreviation (input) GL_CULL_FACE_MODE :: "'a :: {zero, numeral}" where
  "GL_CULL_FACE_MODE \<equiv> 0xB45"

abbreviation (input) GL_CURRENT_PROGRAM :: "'a :: {zero, numeral}" where
  "GL_CURRENT_PROGRAM \<equiv> 0x8B8D"

abbreviation (input) GL_CURRENT_VERTEX_ATTRIB :: "'a :: {zero, numeral}" where
  "GL_CURRENT_VERTEX_ATTRIB \<equiv> 0x8626"

abbreviation (input) GL_DELETE_STATUS :: "'a :: {zero, numeral}" where
  "GL_DELETE_STATUS \<equiv> 0x8B80"

abbreviation (input) GL_DEPTH24_STENCIL8_OES :: "'a :: {zero, numeral}" where
  "GL_DEPTH24_STENCIL8_OES \<equiv> 0x88F0"

abbreviation (input) GL_DEPTH_BITS :: "'a :: {zero, numeral}" where
  "GL_DEPTH_BITS \<equiv> 0xD56"

abbreviation (input) GL_DEPTH_CLEAR_VALUE :: "'a :: {zero, numeral}" where
  "GL_DEPTH_CLEAR_VALUE \<equiv> 0xB73"

abbreviation (input) GL_DEPTH_COMPONENT :: "'a :: {zero, numeral}" where
  "GL_DEPTH_COMPONENT \<equiv> 0x1902"

abbreviation (input) GL_DEPTH_COMPONENT16 :: "'a :: {zero, numeral}" where
  "GL_DEPTH_COMPONENT16 \<equiv> 0x81A5"

abbreviation (input) GL_DEPTH_COMPONENT24_OES :: "'a :: {zero, numeral}" where
  "GL_DEPTH_COMPONENT24_OES \<equiv> 0x81A6"

abbreviation (input) GL_DEPTH_FUNC :: "'a :: {zero, numeral}" where
  "GL_DEPTH_FUNC \<equiv> 0xB74"

abbreviation (input) GL_DEPTH_RANGE :: "'a :: {zero, numeral}" where
  "GL_DEPTH_RANGE \<equiv> 0xB70"

abbreviation (input) GL_DEPTH_STENCIL_OES :: "'a :: {zero, numeral}" where
  "GL_DEPTH_STENCIL_OES \<equiv> 0x84F9"

abbreviation (input) GL_DEPTH_TEST :: "'a :: {zero, numeral}" where
  "GL_DEPTH_TEST \<equiv> 0xB71"

abbreviation (input) GL_DEPTH_WRITEMASK :: "'a :: {zero, numeral}" where
  "GL_DEPTH_WRITEMASK \<equiv> 0xB72"

abbreviation (input) GL_DITHER :: "'a :: {zero, numeral}" where
  "GL_DITHER \<equiv> 0xBD0"

abbreviation (input) GL_DYNAMIC_DRAW :: "'a :: {zero, numeral}" where
  "GL_DYNAMIC_DRAW \<equiv> 0x88E8"

abbreviation (input) GL_ELEMENT_ARRAY_BUFFER :: "'a :: {zero, numeral}" where
  "GL_ELEMENT_ARRAY_BUFFER \<equiv> 0x8893"

abbreviation (input) GL_ELEMENT_ARRAY_BUFFER_BINDING :: "'a :: {zero, numeral}" where
  "GL_ELEMENT_ARRAY_BUFFER_BINDING \<equiv> 0x8895"

abbreviation (input) GL_FIXED :: "'a :: {zero, numeral}" where
  "GL_FIXED \<equiv> 0x140C"

abbreviation (input) GL_FLOAT :: "'a :: {zero, numeral}" where
  "GL_FLOAT \<equiv> 0x1406"

abbreviation (input) GL_FLOAT_MAT2 :: "'a :: {zero, numeral}" where
  "GL_FLOAT_MAT2 \<equiv> 0x8B5A"

abbreviation (input) GL_FLOAT_MAT3 :: "'a :: {zero, numeral}" where
  "GL_FLOAT_MAT3 \<equiv> 0x8B5B"

abbreviation (input) GL_FLOAT_MAT4 :: "'a :: {zero, numeral}" where
  "GL_FLOAT_MAT4 \<equiv> 0x8B5C"

abbreviation (input) GL_FLOAT_VEC2 :: "'a :: {zero, numeral}" where
  "GL_FLOAT_VEC2 \<equiv> 0x8B50"

abbreviation (input) GL_FLOAT_VEC3 :: "'a :: {zero, numeral}" where
  "GL_FLOAT_VEC3 \<equiv> 0x8B51"

abbreviation (input) GL_FLOAT_VEC4 :: "'a :: {zero, numeral}" where
  "GL_FLOAT_VEC4 \<equiv> 0x8B52"

abbreviation (input) GL_FRAGMENT_SHADER_DERIVATIVE_HINT_OES :: "'a :: {zero, numeral}" where
  "GL_FRAGMENT_SHADER_DERIVATIVE_HINT_OES \<equiv> 0x8B8B"

abbreviation (input) GL_FRAMEBUFFER_ATTACHMENT_ANGLE :: "'a :: {zero, numeral}" where
  "GL_FRAMEBUFFER_ATTACHMENT_ANGLE \<equiv> 0x93A3"

abbreviation (input) GL_FRAMEBUFFER_ATTACHMENT_OBJECT_NAME :: "'a :: {zero, numeral}" where
  "GL_FRAMEBUFFER_ATTACHMENT_OBJECT_NAME \<equiv> 0x8CD1"

abbreviation (input) GL_FRAMEBUFFER_ATTACHMENT_OBJECT_TYPE :: "'a :: {zero, numeral}" where
  "GL_FRAMEBUFFER_ATTACHMENT_OBJECT_TYPE \<equiv> 0x8CD0"

abbreviation (input) GL_FRAMEBUFFER_ATTACHMENT_TEXTURE_CUBE_MAP_FACE :: "'a :: {zero, numeral}" where
  "GL_FRAMEBUFFER_ATTACHMENT_TEXTURE_CUBE_MAP_FACE \<equiv> 0x8CD3"

abbreviation (input) GL_FRAMEBUFFER_ATTACHMENT_TEXTURE_LEVEL :: "'a :: {zero, numeral}" where
  "GL_FRAMEBUFFER_ATTACHMENT_TEXTURE_LEVEL \<equiv> 0x8CD2"

abbreviation (input) GL_FRAMEBUFFER_BINDING :: "'a :: {zero, numeral}" where
  "GL_FRAMEBUFFER_BINDING \<equiv> 0x8CA6"

abbreviation (input) GL_FRONT_FACE :: "'a :: {zero, numeral}" where
  "GL_FRONT_FACE \<equiv> 0xB46"

abbreviation (input) GL_GENERATE_MIPMAP_HINT :: "'a :: {zero, numeral}" where
  "GL_GENERATE_MIPMAP_HINT \<equiv> 0x8192"

abbreviation (input) GL_GREEN_BITS :: "'a :: {zero, numeral}" where
  "GL_GREEN_BITS \<equiv> 0xD53"

abbreviation (input) GL_HALF_FLOAT_OES :: "'a :: {zero, numeral}" where
  "GL_HALF_FLOAT_OES \<equiv> 0x8D61"

abbreviation (input) GL_IMPLEMENTATION_COLOR_READ_FORMAT :: "'a :: {zero, numeral}" where
  "GL_IMPLEMENTATION_COLOR_READ_FORMAT \<equiv> 0x8B9B"

abbreviation (input) GL_IMPLEMENTATION_COLOR_READ_TYPE :: "'a :: {zero, numeral}" where
  "GL_IMPLEMENTATION_COLOR_READ_TYPE \<equiv> 0x8B9A"

abbreviation (input) GL_INFO_LOG_LENGTH :: "'a :: {zero, numeral}" where
  "GL_INFO_LOG_LENGTH \<equiv> 0x8B84"

abbreviation (input) GL_INT :: "'a :: {zero, numeral}" where
  "GL_INT \<equiv> 0x1404"

abbreviation (input) GL_INT_VEC2 :: "'a :: {zero, numeral}" where
  "GL_INT_VEC2 \<equiv> 0x8B53"

abbreviation (input) GL_INT_VEC3 :: "'a :: {zero, numeral}" where
  "GL_INT_VEC3 \<equiv> 0x8B54"

abbreviation (input) GL_INT_VEC4 :: "'a :: {zero, numeral}" where
  "GL_INT_VEC4 \<equiv> 0x8B55"

abbreviation (input) GL_INVALID_ENUM :: "'a :: {zero, numeral}" where
  "GL_INVALID_ENUM \<equiv> 0x500"

abbreviation (input) GL_INVALID_FRAMEBUFFER_OPERATION :: "'a :: {zero, numeral}" where
  "GL_INVALID_FRAMEBUFFER_OPERATION \<equiv> 0x506"

abbreviation (input) GL_INVALID_OPERATION :: "'a :: {zero, numeral}" where
  "GL_INVALID_OPERATION \<equiv> 0x502"

abbreviation (input) GL_INVALID_VALUE :: "'a :: {zero, numeral}" where
  "GL_INVALID_VALUE \<equiv> 0x501"

abbreviation (input) GL_LINEAR :: "'a :: {zero, numeral}" where
  "GL_LINEAR \<equiv> 0x2601"

abbreviation (input) GL_LINEAR_MIPMAP_LINEAR :: "'a :: {zero, numeral}" where
  "GL_LINEAR_MIPMAP_LINEAR \<equiv> 0x2703"

abbreviation (input) GL_LINEAR_MIPMAP_NEAREST :: "'a :: {zero, numeral}" where
  "GL_LINEAR_MIPMAP_NEAREST \<equiv> 0x2701"

abbreviation (input) GL_LINE_WIDTH :: "'a :: {zero, numeral}" where
  "GL_LINE_WIDTH \<equiv> 0xB21"

abbreviation (input) GL_LINK_STATUS :: "'a :: {zero, numeral}" where
  "GL_LINK_STATUS \<equiv> 0x8B82"

abbreviation (input) GL_LUMINANCE :: "'a :: {zero, numeral}" where
  "GL_LUMINANCE \<equiv> 0x1909"

abbreviation (input) GL_LUMINANCE16F_EXT :: "'a :: {zero, numeral}" where
  "GL_LUMINANCE16F_EXT \<equiv> 0x881E"

abbreviation (input) GL_LUMINANCE32F_EXT :: "'a :: {zero, numeral}" where
  "GL_LUMINANCE32F_EXT \<equiv> 0x8818"

abbreviation (input) GL_LUMINANCE8_ALPHA8_EXT :: "'a :: {zero, numeral}" where
  "GL_LUMINANCE8_ALPHA8_EXT \<equiv> 0x8045"

abbreviation (input) GL_LUMINANCE8_EXT :: "'a :: {zero, numeral}" where
  "GL_LUMINANCE8_EXT \<equiv> 0x8040"

abbreviation (input) GL_LUMINANCE_ALPHA :: "'a :: {zero, numeral}" where
  "GL_LUMINANCE_ALPHA \<equiv> 0x190A"

abbreviation (input) GL_LUMINANCE_ALPHA16F_EXT :: "'a :: {zero, numeral}" where
  "GL_LUMINANCE_ALPHA16F_EXT \<equiv> 0x881F"

abbreviation (input) GL_LUMINANCE_ALPHA32F_EXT :: "'a :: {zero, numeral}" where
  "GL_LUMINANCE_ALPHA32F_EXT \<equiv> 0x8819"

abbreviation (input) GL_MAX_COMBINED_TEXTURE_IMAGE_UNITS :: "'a :: {zero, numeral}" where
  "GL_MAX_COMBINED_TEXTURE_IMAGE_UNITS \<equiv> 0x8B4D"

abbreviation (input) GL_MAX_CUBE_MAP_TEXTURE_SIZE :: "'a :: {zero, numeral}" where
  "GL_MAX_CUBE_MAP_TEXTURE_SIZE \<equiv> 0x851C"

abbreviation (input) GL_MAX_FRAGMENT_UNIFORM_VECTORS :: "'a :: {zero, numeral}" where
  "GL_MAX_FRAGMENT_UNIFORM_VECTORS \<equiv> 0x8DFD"

abbreviation (input) GL_MAX_RENDERBUFFER_SIZE :: "'a :: {zero, numeral}" where
  "GL_MAX_RENDERBUFFER_SIZE \<equiv> 0x84E8"

abbreviation (input) GL_MAX_SAMPLES_EXT :: "'a :: {zero, numeral}" where
  "GL_MAX_SAMPLES_EXT \<equiv> 0x8D57"

abbreviation (input) GL_MAX_TEXTURE_IMAGE_UNITS :: "'a :: {zero, numeral}" where
  "GL_MAX_TEXTURE_IMAGE_UNITS \<equiv> 0x8872"

abbreviation (input) GL_MAX_TEXTURE_SIZE :: "'a :: {zero, numeral}" where
  "GL_MAX_TEXTURE_SIZE \<equiv> 0xD33"

abbreviation (input) GL_MAX_VARYING_VECTORS :: "'a :: {zero, numeral}" where
  "GL_MAX_VARYING_VECTORS \<equiv> 0x8DFC"

abbreviation (input) GL_MAX_VERTEX_ATTRIBS :: "'a :: {zero, numeral}" where
  "GL_MAX_VERTEX_ATTRIBS \<equiv> 0x8869"

abbreviation (input) GL_MAX_VERTEX_TEXTURE_IMAGE_UNITS :: "'a :: {zero, numeral}" where
  "GL_MAX_VERTEX_TEXTURE_IMAGE_UNITS \<equiv> 0x8B4C"

abbreviation (input) GL_MAX_VERTEX_UNIFORM_VECTORS :: "'a :: {zero, numeral}" where
  "GL_MAX_VERTEX_UNIFORM_VECTORS \<equiv> 0x8DFB"

abbreviation (input) GL_MAX_VIEWPORT_DIMS :: "'a :: {zero, numeral}" where
  "GL_MAX_VIEWPORT_DIMS \<equiv> 0xD3A"

abbreviation (input) GL_MIRRORED_REPEAT :: "'a :: {zero, numeral}" where
  "GL_MIRRORED_REPEAT \<equiv> 0x8370"

abbreviation (input) GL_NEAREST :: "'a :: {zero, numeral}" where
  "GL_NEAREST \<equiv> 0x2600"

abbreviation (input) GL_NEAREST_MIPMAP_LINEAR :: "'a :: {zero, numeral}" where
  "GL_NEAREST_MIPMAP_LINEAR \<equiv> 0x2702"

abbreviation (input) GL_NEAREST_MIPMAP_NEAREST :: "'a :: {zero, numeral}" where
  "GL_NEAREST_MIPMAP_NEAREST \<equiv> 0x2700"

abbreviation (input) GL_NONE :: "'a :: {zero, numeral}" where
  "GL_NONE \<equiv> 0"

abbreviation (input) GL_NO_ERROR :: "'a :: {zero, numeral}" where
  "GL_NO_ERROR \<equiv> 0"

abbreviation (input) GL_NUM_COMPRESSED_TEXTURE_FORMATS :: "'a :: {zero, numeral}" where
  "GL_NUM_COMPRESSED_TEXTURE_FORMATS \<equiv> 0x86A2"

abbreviation (input) GL_NUM_SHADER_BINARY_FORMATS :: "'a :: {zero, numeral}" where
  "GL_NUM_SHADER_BINARY_FORMATS \<equiv> 0x8DF9"

abbreviation (input) GL_OUT_OF_MEMORY :: "'a :: {zero, numeral}" where
  "GL_OUT_OF_MEMORY \<equiv> 0x505"

abbreviation (input) GL_PACK_ALIGNMENT :: "'a :: {zero, numeral}" where
  "GL_PACK_ALIGNMENT \<equiv> 0xD05"

abbreviation (input) GL_PACK_REVERSE_ROW_ORDER_ANGLE :: "'a :: {zero, numeral}" where
  "GL_PACK_REVERSE_ROW_ORDER_ANGLE \<equiv> 0x93A4"

abbreviation (input) GL_POLYGON_OFFSET_FACTOR :: "'a :: {zero, numeral}" where
  "GL_POLYGON_OFFSET_FACTOR \<equiv> 0x8038"

abbreviation (input) GL_POLYGON_OFFSET_FILL :: "'a :: {zero, numeral}" where
  "GL_POLYGON_OFFSET_FILL \<equiv> 0x8037"

abbreviation (input) GL_POLYGON_OFFSET_UNITS :: "'a :: {zero, numeral}" where
  "GL_POLYGON_OFFSET_UNITS \<equiv> 0x2A00"

abbreviation (input) GL_RED_BITS :: "'a :: {zero, numeral}" where
  "GL_RED_BITS \<equiv> 0xD52"

abbreviation (input) GL_RENDERBUFFER_ALPHA_SIZE :: "'a :: {zero, numeral}" where
  "GL_RENDERBUFFER_ALPHA_SIZE \<equiv> 0x8D53"

abbreviation (input) GL_RENDERBUFFER_BINDING :: "'a :: {zero, numeral}" where
  "GL_RENDERBUFFER_BINDING \<equiv> 0x8CA7"

abbreviation (input) GL_RENDERBUFFER_BLUE_SIZE :: "'a :: {zero, numeral}" where
  "GL_RENDERBUFFER_BLUE_SIZE \<equiv> 0x8D52"

abbreviation (input) GL_RENDERBUFFER_DEPTH_SIZE :: "'a :: {zero, numeral}" where
  "GL_RENDERBUFFER_DEPTH_SIZE \<equiv> 0x8D54"

abbreviation (input) GL_RENDERBUFFER_GREEN_SIZE :: "'a :: {zero, numeral}" where
  "GL_RENDERBUFFER_GREEN_SIZE \<equiv> 0x8D51"

abbreviation (input) GL_RENDERBUFFER_HEIGHT :: "'a :: {zero, numeral}" where
  "GL_RENDERBUFFER_HEIGHT \<equiv> 0x8D43"

abbreviation (input) GL_RENDERBUFFER_INTERNAL_FORMAT :: "'a :: {zero, numeral}" where
  "GL_RENDERBUFFER_INTERNAL_FORMAT \<equiv> 0x8D44"

abbreviation (input) GL_RENDERBUFFER_RED_SIZE :: "'a :: {zero, numeral}" where
  "GL_RENDERBUFFER_RED_SIZE \<equiv> 0x8D50"

abbreviation (input) GL_RENDERBUFFER_STENCIL_SIZE :: "'a :: {zero, numeral}" where
  "GL_RENDERBUFFER_STENCIL_SIZE \<equiv> 0x8D55"

abbreviation (input) GL_RENDERBUFFER_WIDTH :: "'a :: {zero, numeral}" where
  "GL_RENDERBUFFER_WIDTH \<equiv> 0x8D42"

abbreviation (input) GL_REPEAT :: "'a :: {zero, numeral}" where
  "GL_REPEAT \<equiv> 0x2901"

abbreviation (input) GL_RGB :: "'a :: {zero, numeral}" where
  "GL_RGB \<equiv> 0x1907"

abbreviation (input) GL_RGB16F_ARB :: "'a :: {zero, numeral}" where
  "GL_RGB16F_ARB \<equiv> 0x881B"

abbreviation (input) GL_RGB16F_EXT :: "'a :: {zero, numeral}" where
  "GL_RGB16F_EXT \<equiv> 0x881B"

abbreviation (input) GL_RGB32F_ARB :: "'a :: {zero, numeral}" where
  "GL_RGB32F_ARB \<equiv> 0x8815"

abbreviation (input) GL_RGB32F_EXT :: "'a :: {zero, numeral}" where
  "GL_RGB32F_EXT \<equiv> 0x8815"

abbreviation (input) GL_RGB565 :: "'a :: {zero, numeral}" where
  "GL_RGB565 \<equiv> 0x8D62"

abbreviation (input) GL_RGB5_A1 :: "'a :: {zero, numeral}" where
  "GL_RGB5_A1 \<equiv> 0x8057"

abbreviation (input) GL_RGB8_OES :: "'a :: {zero, numeral}" where
  "GL_RGB8_OES \<equiv> 0x8051"

abbreviation (input) GL_RGBA :: "'a :: {zero, numeral}" where
  "GL_RGBA \<equiv> 0x1908"

abbreviation (input) GL_RGBA16F_ARB :: "'a :: {zero, numeral}" where
  "GL_RGBA16F_ARB \<equiv> 0x881A"

abbreviation (input) GL_RGBA16F_EXT :: "'a :: {zero, numeral}" where
  "GL_RGBA16F_EXT \<equiv> 0x881A"

abbreviation (input) GL_RGBA32F_ARB :: "'a :: {zero, numeral}" where
  "GL_RGBA32F_ARB \<equiv> 0x8814"

abbreviation (input) GL_RGBA32F_EXT :: "'a :: {zero, numeral}" where
  "GL_RGBA32F_EXT \<equiv> 0x8814"

abbreviation (input) GL_RGBA4 :: "'a :: {zero, numeral}" where
  "GL_RGBA4 \<equiv> 0x8056"

abbreviation (input) GL_RGBA8 :: "'a :: {zero, numeral}" where
  "GL_RGBA8 \<equiv> 0x8058"

abbreviation (input) GL_RGBA8_OES :: "'a :: {zero, numeral}" where
  "GL_RGBA8_OES \<equiv> 0x8058"

abbreviation (input) GL_SAMPLER_2D :: "'a :: {zero, numeral}" where
  "GL_SAMPLER_2D \<equiv> 0x8B5E"

abbreviation (input) GL_SAMPLER_2D_RECT_ARB :: "'a :: {zero, numeral}" where
  "GL_SAMPLER_2D_RECT_ARB \<equiv> 0x8B63"

abbreviation (input) GL_SAMPLER_CUBE :: "'a :: {zero, numeral}" where
  "GL_SAMPLER_CUBE \<equiv> 0x8B60"

abbreviation (input) GL_SAMPLER_EXTERNAL_OES :: "'a :: {zero, numeral}" where
  "GL_SAMPLER_EXTERNAL_OES \<equiv> 0x8D66"

abbreviation (input) GL_SAMPLES :: "'a :: {zero, numeral}" where
  "GL_SAMPLES \<equiv> 0x80A9"

abbreviation (input) GL_SAMPLE_BUFFERS :: "'a :: {zero, numeral}" where
  "GL_SAMPLE_BUFFERS \<equiv> 0x80A8"

abbreviation (input) GL_SAMPLE_COVERAGE_INVERT :: "'a :: {zero, numeral}" where
  "GL_SAMPLE_COVERAGE_INVERT \<equiv> 0x80AB"

abbreviation (input) GL_SAMPLE_COVERAGE_VALUE :: "'a :: {zero, numeral}" where
  "GL_SAMPLE_COVERAGE_VALUE \<equiv> 0x80AA"

abbreviation (input) GL_SCISSOR_BOX :: "'a :: {zero, numeral}" where
  "GL_SCISSOR_BOX \<equiv> 0xC10"

abbreviation (input) GL_SCISSOR_TEST :: "'a :: {zero, numeral}" where
  "GL_SCISSOR_TEST \<equiv> 0xC11"

abbreviation (input) GL_SHADER_BINARY_FORMATS :: "'a :: {zero, numeral}" where
  "GL_SHADER_BINARY_FORMATS \<equiv> 0x8DF8"

abbreviation (input) GL_SHADER_COMPILER :: "'a :: {zero, numeral}" where
  "GL_SHADER_COMPILER \<equiv> 0x8DFA"

abbreviation (input) GL_SHADER_SOURCE_LENGTH :: "'a :: {zero, numeral}" where
  "GL_SHADER_SOURCE_LENGTH \<equiv> 0x8B88"

abbreviation (input) GL_SHADER_TYPE :: "'a :: {zero, numeral}" where
  "GL_SHADER_TYPE \<equiv> 0x8B4F"

abbreviation (input) GL_SHORT :: "'a :: {zero, numeral}" where
  "GL_SHORT \<equiv> 0x1402"

abbreviation (input) GL_STATIC_DRAW :: "'a :: {zero, numeral}" where
  "GL_STATIC_DRAW \<equiv> 0x88E4"

abbreviation (input) GL_STENCIL_BACK_FAIL :: "'a :: {zero, numeral}" where
  "GL_STENCIL_BACK_FAIL \<equiv> 0x8801"

abbreviation (input) GL_STENCIL_BACK_FUNC :: "'a :: {zero, numeral}" where
  "GL_STENCIL_BACK_FUNC \<equiv> 0x8800"

abbreviation (input) GL_STENCIL_BACK_PASS_DEPTH_FAIL :: "'a :: {zero, numeral}" where
  "GL_STENCIL_BACK_PASS_DEPTH_FAIL \<equiv> 0x8802"

abbreviation (input) GL_STENCIL_BACK_PASS_DEPTH_PASS :: "'a :: {zero, numeral}" where
  "GL_STENCIL_BACK_PASS_DEPTH_PASS \<equiv> 0x8803"

abbreviation (input) GL_STENCIL_BACK_REF :: "'a :: {zero, numeral}" where
  "GL_STENCIL_BACK_REF \<equiv> 0x8CA3"

abbreviation (input) GL_STENCIL_BACK_VALUE_MASK :: "'a :: {zero, numeral}" where
  "GL_STENCIL_BACK_VALUE_MASK \<equiv> 0x8CA4"

abbreviation (input) GL_STENCIL_BACK_WRITEMASK :: "'a :: {zero, numeral}" where
  "GL_STENCIL_BACK_WRITEMASK \<equiv> 0x8CA5"

abbreviation (input) GL_STENCIL_BITS :: "'a :: {zero, numeral}" where
  "GL_STENCIL_BITS \<equiv> 0xD57"

abbreviation (input) GL_STENCIL_CLEAR_VALUE :: "'a :: {zero, numeral}" where
  "GL_STENCIL_CLEAR_VALUE \<equiv> 0xB91"

abbreviation (input) GL_STENCIL_FAIL :: "'a :: {zero, numeral}" where
  "GL_STENCIL_FAIL \<equiv> 0xB94"

abbreviation (input) GL_STENCIL_FUNC :: "'a :: {zero, numeral}" where
  "GL_STENCIL_FUNC \<equiv> 0xB92"

abbreviation (input) GL_STENCIL_INDEX8 :: "'a :: {zero, numeral}" where
  "GL_STENCIL_INDEX8 \<equiv> 0x8D48"

abbreviation (input) GL_STENCIL_PASS_DEPTH_FAIL :: "'a :: {zero, numeral}" where
  "GL_STENCIL_PASS_DEPTH_FAIL \<equiv> 0xB95"

abbreviation (input) GL_STENCIL_PASS_DEPTH_PASS :: "'a :: {zero, numeral}" where
  "GL_STENCIL_PASS_DEPTH_PASS \<equiv> 0xB96"

abbreviation (input) GL_STENCIL_REF :: "'a :: {zero, numeral}" where
  "GL_STENCIL_REF \<equiv> 0xB97"

abbreviation (input) GL_STENCIL_TEST :: "'a :: {zero, numeral}" where
  "GL_STENCIL_TEST \<equiv> 0xB90"

abbreviation (input) GL_STENCIL_VALUE_MASK :: "'a :: {zero, numeral}" where
  "GL_STENCIL_VALUE_MASK \<equiv> 0xB93"

abbreviation (input) GL_STENCIL_WRITEMASK :: "'a :: {zero, numeral}" where
  "GL_STENCIL_WRITEMASK \<equiv> 0xB98"

abbreviation (input) GL_STREAM_DRAW :: "'a :: {zero, numeral}" where
  "GL_STREAM_DRAW \<equiv> 0x88E0"

abbreviation (input) GL_SUBPIXEL_BITS :: "'a :: {zero, numeral}" where
  "GL_SUBPIXEL_BITS \<equiv> 0xD50"

abbreviation (input) GL_TEXTURE0 :: "'a :: {zero, numeral}" where
  "GL_TEXTURE0 \<equiv> 0x84C0"

abbreviation (input) GL_TEXTURE_2D :: "'a :: {zero, numeral}" where
  "GL_TEXTURE_2D \<equiv> 0xDE1"

abbreviation (input) GL_TEXTURE_BINDING_2D :: "'a :: {zero, numeral}" where
  "GL_TEXTURE_BINDING_2D \<equiv> 0x8069"

abbreviation (input) GL_TEXTURE_BINDING_CUBE_MAP :: "'a :: {zero, numeral}" where
  "GL_TEXTURE_BINDING_CUBE_MAP \<equiv> 0x8514"

abbreviation (input) GL_TEXTURE_BINDING_EXTERNAL_OES :: "'a :: {zero, numeral}" where
  "GL_TEXTURE_BINDING_EXTERNAL_OES \<equiv> 0x8D67"

abbreviation (input) GL_TEXTURE_BINDING_RECTANGLE_ARB :: "'a :: {zero, numeral}" where
  "GL_TEXTURE_BINDING_RECTANGLE_ARB \<equiv> 0x84F6"

abbreviation (input) GL_TEXTURE_CUBE_MAP :: "'a :: {zero, numeral}" where
  "GL_TEXTURE_CUBE_MAP \<equiv> 0x8513"

abbreviation (input) GL_TEXTURE_CUBE_MAP_NEGATIVE_X :: "'a :: {zero, numeral}" where
  "GL_TEXTURE_CUBE_MAP_NEGATIVE_X \<equiv> 0x8516"

abbreviation (input) GL_TEXTURE_CUBE_MAP_NEGATIVE_Y :: "'a :: {zero, numeral}" where
  "GL_TEXTURE_CUBE_MAP_NEGATIVE_Y \<equiv> 0x8518"

abbreviation (input) GL_TEXTURE_CUBE_MAP_NEGATIVE_Z :: "'a :: {zero, numeral}" where
  "GL_TEXTURE_CUBE_MAP_NEGATIVE_Z \<equiv> 0x851A"

abbreviation (input) GL_TEXTURE_CUBE_MAP_POSITIVE_X :: "'a :: {zero, numeral}" where
  "GL_TEXTURE_CUBE_MAP_POSITIVE_X \<equiv> 0x8515"

abbreviation (input) GL_TEXTURE_CUBE_MAP_POSITIVE_Y :: "'a :: {zero, numeral}" where
  "GL_TEXTURE_CUBE_MAP_POSITIVE_Y \<equiv> 0x8517"

abbreviation (input) GL_TEXTURE_CUBE_MAP_POSITIVE_Z :: "'a :: {zero, numeral}" where
  "GL_TEXTURE_CUBE_MAP_POSITIVE_Z \<equiv> 0x8519"

abbreviation (input) GL_TEXTURE_EXTERNAL_OES :: "'a :: {zero, numeral}" where
  "GL_TEXTURE_EXTERNAL_OES \<equiv> 0x8D65"

abbreviation (input) GL_TEXTURE_MAG_FILTER :: "'a :: {zero, numeral}" where
  "GL_TEXTURE_MAG_FILTER \<equiv> 0x2800"

abbreviation (input) GL_TEXTURE_MAX_ANISOTROPY_EXT :: "'a :: {zero, numeral}" where
  "GL_TEXTURE_MAX_ANISOTROPY_EXT \<equiv> 0x84FE"

abbreviation (input) GL_TEXTURE_MIN_FILTER :: "'a :: {zero, numeral}" where
  "GL_TEXTURE_MIN_FILTER \<equiv> 0x2801"

abbreviation (input) GL_TEXTURE_RECTANGLE_ARB :: "'a :: {zero, numeral}" where
  "GL_TEXTURE_RECTANGLE_ARB \<equiv> 0x84F5"

abbreviation (input) GL_TEXTURE_USAGE_ANGLE :: "'a :: {zero, numeral}" where
  "GL_TEXTURE_USAGE_ANGLE \<equiv> 0x93A2"

abbreviation (input) GL_TEXTURE_WRAP_S :: "'a :: {zero, numeral}" where
  "GL_TEXTURE_WRAP_S \<equiv> 0x2802"

abbreviation (input) GL_TEXTURE_WRAP_T :: "'a :: {zero, numeral}" where
  "GL_TEXTURE_WRAP_T \<equiv> 0x2803"

abbreviation (input) GL_TRANSLATED_SHADER_SOURCE_LENGTH_ANGLE :: "'a :: {zero, numeral}" where
  "GL_TRANSLATED_SHADER_SOURCE_LENGTH_ANGLE \<equiv> 0x93A0"

abbreviation (input) GL_UNPACK_ALIGNMENT :: "'a :: {zero, numeral}" where
  "GL_UNPACK_ALIGNMENT \<equiv> 0xCF5"

abbreviation (input) GL_UNSIGNED_BYTE :: "'a :: {zero, numeral}" where
  "GL_UNSIGNED_BYTE \<equiv> 0x1401"

abbreviation (input) GL_UNSIGNED_INT :: "'a :: {zero, numeral}" where
  "GL_UNSIGNED_INT \<equiv> 0x1405"

abbreviation (input) GL_UNSIGNED_INT_24_8_OES :: "'a :: {zero, numeral}" where
  "GL_UNSIGNED_INT_24_8_OES \<equiv> 0x84FA"

abbreviation (input) GL_UNSIGNED_SHORT :: "'a :: {zero, numeral}" where
  "GL_UNSIGNED_SHORT \<equiv> 0x1403"

abbreviation (input) GL_UNSIGNED_SHORT_4_4_4_4 :: "'a :: {zero, numeral}" where
  "GL_UNSIGNED_SHORT_4_4_4_4 \<equiv> 0x8033"

abbreviation (input) GL_UNSIGNED_SHORT_5_5_5_1 :: "'a :: {zero, numeral}" where
  "GL_UNSIGNED_SHORT_5_5_5_1 \<equiv> 0x8034"

abbreviation (input) GL_UNSIGNED_SHORT_5_6_5 :: "'a :: {zero, numeral}" where
  "GL_UNSIGNED_SHORT_5_6_5 \<equiv> 0x8363"

abbreviation (input) GL_VALIDATE_STATUS :: "'a :: {zero, numeral}" where
  "GL_VALIDATE_STATUS \<equiv> 0x8B83"

abbreviation (input) GL_VERTEX_ATTRIB_ARRAY_BUFFER_BINDING :: "'a :: {zero, numeral}" where
  "GL_VERTEX_ATTRIB_ARRAY_BUFFER_BINDING \<equiv> 0x889F"

abbreviation (input) GL_VERTEX_ATTRIB_ARRAY_ENABLED :: "'a :: {zero, numeral}" where
  "GL_VERTEX_ATTRIB_ARRAY_ENABLED \<equiv> 0x8622"

abbreviation (input) GL_VERTEX_ATTRIB_ARRAY_NORMALIZED :: "'a :: {zero, numeral}" where
  "GL_VERTEX_ATTRIB_ARRAY_NORMALIZED \<equiv> 0x886A"

abbreviation (input) GL_VERTEX_ATTRIB_ARRAY_SIZE :: "'a :: {zero, numeral}" where
  "GL_VERTEX_ATTRIB_ARRAY_SIZE \<equiv> 0x8623"

abbreviation (input) GL_VERTEX_ATTRIB_ARRAY_STRIDE :: "'a :: {zero, numeral}" where
  "GL_VERTEX_ATTRIB_ARRAY_STRIDE \<equiv> 0x8624"

abbreviation (input) GL_VERTEX_ATTRIB_ARRAY_TYPE :: "'a :: {zero, numeral}" where
  "GL_VERTEX_ATTRIB_ARRAY_TYPE \<equiv> 0x8625"

abbreviation (input) GL_VIEWPORT :: "'a :: {zero, numeral}" where
  "GL_VIEWPORT \<equiv> 0xBA2"

end
