(* ===== verification/Gles2_Utils.thy ===== *)
theory Gles2_Utils
  imports Gl_Enums
begin

text \<open>
  The arithmetic and the tables that the GLES2 client and service share,
  \<^verbatim>\<open>gpu/command_buffer/common/gles2_cmd_utils.h\<close> and \<^verbatim>\<open>gles2_cmd_utils.cc\<close>: overflow-checked arithmetic, the
  size of image data, the sizes of the GL types, the number of values of a query, and the mapping
  between GL errors and bits. An \<^verbatim>\<open>int\<close> is an \<^typ>\<open>int\<close>; where the code converts it to \<^verbatim>\<open>uint32\<close>, so does the
  model. A \<^verbatim>\<open>switch\<close> on the enumerants is a chain of conditions or, when it is long, an association list.
\<close>

subsection \<open>Checked arithmetic\<close>

text \<open>The result and what is stored in \<^verbatim>\<open>*dst\<close>. \<^verbatim>\<open>v / b\<close> is only evaluated for a \<^verbatim>\<open>b\<close> other than zero.\<close>

definition SafeMultiplyUint32 :: "u32 \<Rightarrow> u32 \<Rightarrow> bool \<times> u32" where
  "SafeMultiplyUint32 a b =
     (if b = 0 then (True, 0)
      else let v = a * b in if v div b \<noteq> a then (False, 0) else (True, v))"

definition SafeAddUint32 :: "u32 \<Rightarrow> u32 \<Rightarrow> bool \<times> u32" where
  "SafeAddUint32 a b = (if a + b < a then (False, 0) else (True, a + b))"

lemma SafeAddUint32_exact:
  "SafeAddUint32 a b =
     (if unat a + unat b < 4294967296 then (True, of_nat (unat a + unat b)) else (False, 0))"
proof -
  have "a + b < a \<longleftrightarrow> \<not> unat a + unat b < 4294967296"
  proof (cases "unat a + unat b < 4294967296")
    case True
    then show ?thesis by (simp add: word_less_nat_alt u32_add)
  next
    case False
    then have "unat (a + b) = unat a + unat b - 4294967296"
      using u32_lt [of a] u32_lt [of b] by (simp add: unat_word_ariths mod_if)
    with False show ?thesis using u32_lt [of b] by (simp add: word_less_nat_alt)
  qed
  then show ?thesis by (simp add: SafeAddUint32_def)
qed

lemma SafeMultiplyUint32_exact:
  "SafeMultiplyUint32 a b =
     (if unat a * unat b < 4294967296 then (True, of_nat (unat a * unat b)) else (False, 0))"
proof (cases "b = 0")
  case False
  then have b: "0 < unat b" using u32_zero [of b] by auto
  have "a * b div b = a \<longleftrightarrow> unat a * unat b < 4294967296"
  proof
    assume eq: "a * b div b = a"
    have "unat a * unat b = unat (a * b) div unat b * unat b" using arg_cong [OF eq, of unat] by (simp add: unat_div)
    also have "\<dots> \<le> unat (a * b)" by simp
    also have "\<dots> < 4294967296" by (rule u32_lt)
    finally show "unat a * unat b < 4294967296" .
  next
    assume "unat a * unat b < 4294967296"
    then have "unat (a * b) = unat a * unat b" by (simp add: unat_word_ariths)
    with b show "a * b div b = a" by (simp add: u32_eq unat_div)
  qed
  with False show ?thesis by (simp add: SafeMultiplyUint32_def Let_def)
qed (simp add: SafeMultiplyUint32_def)

subsection \<open>The number of values of a query\<close>

record GLES2Util =
  num_compressed_texture_formats :: int
  num_shader_binary_formats :: int

definition new_GLES2Util :: GLES2Util where
  "new_GLES2Util = \<lparr>num_compressed_texture_formats = 0, num_shader_binary_formats = 0\<rparr>"

text \<open>The labels of the \<^verbatim>\<open>switch\<close> with what is returned, by the groups that the comments of the code make.\<close>

definition get_values_A_L :: "GLES2Util \<Rightarrow> (int \<times> int) list" where
  "get_values_A_L u =
    [(GL_ACTIVE_TEXTURE, 1), (GL_ALIASED_LINE_WIDTH_RANGE, 2), (GL_ALIASED_POINT_SIZE_RANGE, 2),
     (GL_ALPHA_BITS, 1), (GL_ARRAY_BUFFER_BINDING, 1), (GL_BLEND, 1), (GL_BLEND_COLOR, 4),
     (GL_BLEND_DST_ALPHA, 1), (GL_BLEND_DST_RGB, 1), (GL_BLEND_EQUATION_ALPHA, 1),
     (GL_BLEND_EQUATION_RGB, 1), (GL_BLEND_SRC_ALPHA, 1), (GL_BLEND_SRC_RGB, 1), (GL_BLUE_BITS, 1),
     (GL_COLOR_CLEAR_VALUE, 4), (GL_COLOR_WRITEMASK, 4),
     (GL_COMPRESSED_TEXTURE_FORMATS, num_compressed_texture_formats u), (GL_CULL_FACE, 1),
     (GL_CULL_FACE_MODE, 1), (GL_CURRENT_PROGRAM, 1), (GL_DEPTH_BITS, 1), (GL_DEPTH_CLEAR_VALUE, 1),
     (GL_DEPTH_FUNC, 1), (GL_DEPTH_RANGE, 2), (GL_DEPTH_TEST, 1), (GL_DEPTH_WRITEMASK, 1),
     (GL_DITHER, 1), (GL_ELEMENT_ARRAY_BUFFER_BINDING, 1), (GL_FRAMEBUFFER_BINDING, 1),
     (GL_FRONT_FACE, 1), (GL_GENERATE_MIPMAP_HINT, 1), (GL_GREEN_BITS, 1),
     (GL_IMPLEMENTATION_COLOR_READ_FORMAT, 1), (GL_IMPLEMENTATION_COLOR_READ_TYPE, 1),
     (GL_LINE_WIDTH, 1)]"

definition get_values_M_R :: "GLES2Util \<Rightarrow> (int \<times> int) list" where
  "get_values_M_R u =
    [(GL_MAX_COMBINED_TEXTURE_IMAGE_UNITS, 1), (GL_MAX_CUBE_MAP_TEXTURE_SIZE, 1),
     (GL_MAX_FRAGMENT_UNIFORM_VECTORS, 1), (GL_MAX_RENDERBUFFER_SIZE, 1),
     (GL_MAX_TEXTURE_IMAGE_UNITS, 1), (GL_MAX_TEXTURE_SIZE, 1), (GL_MAX_VARYING_VECTORS, 1),
     (GL_MAX_VERTEX_ATTRIBS, 1), (GL_MAX_VERTEX_TEXTURE_IMAGE_UNITS, 1),
     (GL_MAX_VERTEX_UNIFORM_VECTORS, 1), (GL_MAX_VIEWPORT_DIMS, 2),
     (GL_NUM_COMPRESSED_TEXTURE_FORMATS, 1), (GL_NUM_SHADER_BINARY_FORMATS, 1), (GL_PACK_ALIGNMENT, 1),
     (GL_PACK_REVERSE_ROW_ORDER_ANGLE, 1), (GL_POLYGON_OFFSET_FACTOR, 1), (GL_POLYGON_OFFSET_FILL, 1),
     (GL_POLYGON_OFFSET_UNITS, 1), (GL_RED_BITS, 1), (GL_RENDERBUFFER_BINDING, 1),
     (GL_SAMPLE_BUFFERS, 1), (GL_SAMPLE_COVERAGE_INVERT, 1), (GL_SAMPLE_COVERAGE_VALUE, 1),
     (GL_SAMPLES, 1), (GL_SCISSOR_BOX, 4), (GL_SCISSOR_TEST, 1),
     (GL_SHADER_BINARY_FORMATS, num_shader_binary_formats u), (GL_SHADER_COMPILER, 1)]"

definition get_values_S_V :: "(int \<times> int) list" where
  "get_values_S_V =
    [(GL_STENCIL_BACK_FAIL, 1), (GL_STENCIL_BACK_FUNC, 1), (GL_STENCIL_BACK_PASS_DEPTH_FAIL, 1),
     (GL_STENCIL_BACK_PASS_DEPTH_PASS, 1), (GL_STENCIL_BACK_REF, 1), (GL_STENCIL_BACK_VALUE_MASK, 1),
     (GL_STENCIL_BACK_WRITEMASK, 1), (GL_STENCIL_BITS, 1), (GL_STENCIL_CLEAR_VALUE, 1),
     (GL_STENCIL_FAIL, 1), (GL_STENCIL_FUNC, 1), (GL_STENCIL_PASS_DEPTH_FAIL, 1),
     (GL_STENCIL_PASS_DEPTH_PASS, 1), (GL_STENCIL_REF, 1), (GL_STENCIL_TEST, 1),
     (GL_STENCIL_VALUE_MASK, 1), (GL_STENCIL_WRITEMASK, 1), (GL_SUBPIXEL_BITS, 1),
     (GL_TEXTURE_BINDING_2D, 1), (GL_TEXTURE_BINDING_CUBE_MAP, 1), (GL_TEXTURE_BINDING_EXTERNAL_OES, 1),
     (GL_TEXTURE_BINDING_RECTANGLE_ARB, 1), (GL_UNPACK_ALIGNMENT, 1), (GL_VIEWPORT, 4)]"

definition get_buffer_values :: "(int \<times> int) list" where
  "get_buffer_values =
    [(GL_MAX_SAMPLES_EXT, 1), (GL_BUFFER_SIZE, 1), (GL_BUFFER_USAGE, 1)]"

definition get_framebuffer_values :: "(int \<times> int) list" where
  "get_framebuffer_values =
    [(GL_FRAMEBUFFER_ATTACHMENT_OBJECT_TYPE, 1), (GL_FRAMEBUFFER_ATTACHMENT_OBJECT_NAME, 1),
     (GL_FRAMEBUFFER_ATTACHMENT_TEXTURE_LEVEL, 1), (GL_FRAMEBUFFER_ATTACHMENT_TEXTURE_CUBE_MAP_FACE, 1)]"

definition get_program_values :: "(int \<times> int) list" where
  "get_program_values =
    [(GL_DELETE_STATUS, 1), (GL_LINK_STATUS, 1), (GL_VALIDATE_STATUS, 1), (GL_INFO_LOG_LENGTH, 1),
     (GL_ATTACHED_SHADERS, 1), (GL_ACTIVE_ATTRIBUTES, 1), (GL_ACTIVE_ATTRIBUTE_MAX_LENGTH, 1),
     (GL_ACTIVE_UNIFORMS, 1), (GL_ACTIVE_UNIFORM_MAX_LENGTH, 1)]"

definition get_renderbuffer_values :: "(int \<times> int) list" where
  "get_renderbuffer_values =
    [(GL_RENDERBUFFER_WIDTH, 1), (GL_RENDERBUFFER_HEIGHT, 1), (GL_RENDERBUFFER_INTERNAL_FORMAT, 1),
     (GL_RENDERBUFFER_RED_SIZE, 1), (GL_RENDERBUFFER_GREEN_SIZE, 1), (GL_RENDERBUFFER_BLUE_SIZE, 1),
     (GL_RENDERBUFFER_ALPHA_SIZE, 1), (GL_RENDERBUFFER_DEPTH_SIZE, 1),
     (GL_RENDERBUFFER_STENCIL_SIZE, 1)]"

definition get_shader_values :: "(int \<times> int) list" where
  "get_shader_values =
    [(GL_SHADER_TYPE, 1), (GL_COMPILE_STATUS, 1), (GL_SHADER_SOURCE_LENGTH, 1),
     (GL_TRANSLATED_SHADER_SOURCE_LENGTH_ANGLE, 1)]"

definition get_texture_values :: "(int \<times> int) list" where
  "get_texture_values =
    [(GL_TEXTURE_MAG_FILTER, 1), (GL_TEXTURE_MIN_FILTER, 1), (GL_TEXTURE_WRAP_S, 1),
     (GL_TEXTURE_WRAP_T, 1)]"

definition get_vertex_attrib_values :: "(int \<times> int) list" where
  "get_vertex_attrib_values =
    [(GL_VERTEX_ATTRIB_ARRAY_BUFFER_BINDING, 1), (GL_VERTEX_ATTRIB_ARRAY_ENABLED, 1),
     (GL_VERTEX_ATTRIB_ARRAY_SIZE, 1), (GL_VERTEX_ATTRIB_ARRAY_STRIDE, 1),
     (GL_VERTEX_ATTRIB_ARRAY_TYPE, 1), (GL_VERTEX_ATTRIB_ARRAY_NORMALIZED, 1),
     (GL_CURRENT_VERTEX_ATTRIB, 4), (GL_FRAGMENT_SHADER_DERIVATIVE_HINT_OES, 1)]"

definition GLGetNumValuesReturned :: "GLES2Util \<Rightarrow> int \<Rightarrow> int" where
  "GLGetNumValuesReturned u i =
     (case map_of (get_values_A_L u @ get_values_M_R u @ get_values_S_V @ get_buffer_values @ get_framebuffer_values @
             get_program_values @ get_renderbuffer_values @ get_shader_values @ get_texture_values @
             get_vertex_attrib_values) i of
        None \<Rightarrow> 0
      | Some n \<Rightarrow> n)"

lemmas get_tables = get_values_A_L_def get_values_M_R_def get_values_S_V_def get_buffer_values_def
  get_framebuffer_values_def get_program_values_def get_renderbuffer_values_def get_shader_values_def
  get_texture_values_def get_vertex_attrib_values_def

text \<open>Only the two lists of formats have a number of values that is not fixed.\<close>

lemma GLGetNumValuesReturned_bound:
  assumes "i \<noteq> GL_COMPRESSED_TEXTURE_FORMATS" and "i \<noteq> GL_SHADER_BINARY_FORMATS"
  shows "GLGetNumValuesReturned u i \<in> {0, 1, 2, 4}"
proof -
  define t where "t = get_values_A_L u @ get_values_M_R u @ get_values_S_V @ get_buffer_values @ get_framebuffer_values @
    get_program_values @ get_renderbuffer_values @ get_shader_values @ get_texture_values @ get_vertex_attrib_values"
  have range: "\<forall>(k, n) \<in> set t. k = GL_COMPRESSED_TEXTURE_FORMATS \<or> k = GL_SHADER_BINARY_FORMATS \<or> n \<in> {1, 2, 4}"
    unfolding t_def by (simp add: get_tables)
  have eq: "GLGetNumValuesReturned u i = (case map_of t i of None \<Rightarrow> 0 | Some n \<Rightarrow> n)"
    by (simp only: GLGetNumValuesReturned_def t_def)
  show ?thesis
  proof (cases "map_of t i")
    case (Some n)
    with range assms have "n \<in> {1, 2, 4}" by (auto dest: map_of_SomeD)
    with eq Some show ?thesis by simp
  qed (simp add: eq)
qed

subsection \<open>The size of image data\<close>

definition ElementsPerGroup :: "int \<Rightarrow> int \<Rightarrow> int" where
  "ElementsPerGroup format type =
     (if type \<in> {GL_UNSIGNED_SHORT_5_6_5, GL_UNSIGNED_SHORT_4_4_4_4, GL_UNSIGNED_SHORT_5_5_5_1, GL_UNSIGNED_INT_24_8_OES}
      then 1
      else if format = GL_RGB then 3
      else if format = GL_LUMINANCE_ALPHA then 2
      else if format \<in> {GL_RGBA, GL_BGRA_EXT} then 4
      else if format \<in> {GL_ALPHA, GL_LUMINANCE, GL_DEPTH_COMPONENT, GL_DEPTH_STENCIL_OES} then 1
      else 0)"

definition BytesPerElement :: "int \<Rightarrow> int" where
  "BytesPerElement type =
     (if type \<in> {GL_FLOAT, GL_UNSIGNED_INT_24_8_OES, GL_UNSIGNED_INT} then 4
      else if type \<in> {GL_HALF_FLOAT_OES, GL_UNSIGNED_SHORT, GL_SHORT, GL_UNSIGNED_SHORT_5_6_5,
                      GL_UNSIGNED_SHORT_4_4_4_4, GL_UNSIGNED_SHORT_5_5_5_1} then 2
      else if type \<in> {GL_UNSIGNED_BYTE, GL_BYTE} then 1
      else 0)"

text \<open>
  \<^const>\<open>None\<close> is the division by an alignment of zero. The second component is \<^verbatim>\<open>*size\<close>, where the call
  sets it.
\<close>

definition ComputeImageDataSize :: "int \<Rightarrow> int \<Rightarrow> int \<Rightarrow> int \<Rightarrow> int \<Rightarrow> (bool \<times> u32 option) option" where
  "ComputeImageDataSize width height format type unpack_alignment =
     (let bytes_per_group = uint32 (BytesPerElement type * ElementsPerGroup format type);
          (ok1, row_size) = SafeMultiplyUint32 (uint32 width) bytes_per_group
      in if \<not> ok1 then Some (False, None)
         else if height > 1 then
           let (ok2, temp) = SafeAddUint32 row_size (uint32 (unpack_alignment - 1))
           in if \<not> ok2 then Some (False, None)
              else if uint32 unpack_alignment = 0 then None
              else let padded_row_size = (temp div uint32 unpack_alignment) * uint32 unpack_alignment;
                       (ok3, size_of_all_but_last_row) = SafeMultiplyUint32 (uint32 (height - 1)) padded_row_size
                   in if \<not> ok3 then Some (False, None)
                      else let (ok4, sz) = SafeAddUint32 size_of_all_but_last_row row_size
                           in Some (ok4, Some sz)
         else let (ok2, sz) = SafeMultiplyUint32 (uint32 height) row_size in Some (ok2, Some sz))"

subsection \<open>What the computation of the size promises\<close>

text \<open>
  The size of \<open>h\<close> rows of \<open>w\<close> groups of \<open>k\<close> bytes, each row but the last padded to a multiple of \<open>a\<close>, over
  the natural numbers.
\<close>

definition image_size :: "nat \<Rightarrow> nat \<Rightarrow> nat \<Rightarrow> nat \<Rightarrow> nat" where
  "image_size w h k a = (if h = 0 then 0 else (h - 1) * ((w * k + a - 1) div a * a) + w * k)"

definition bytes_per_group :: "int \<Rightarrow> int \<Rightarrow> nat" where
  "bytes_per_group format type = nat (BytesPerElement type * ElementsPerGroup format type)"

lemma uint32_unat: "0 \<le> i \<Longrightarrow> i < 4294967296 \<Longrightarrow> unat (uint32 i) = nat i"
  by (simp add: uint32_def unsigned_of_int take_bit_int_eq_self)

lemma bytes_per_group_range: "0 \<le> BytesPerElement type * ElementsPerGroup format type"
  "BytesPerElement type * ElementsPerGroup format type \<le> 16"
  by (auto simp: BytesPerElement_def ElementsPerGroup_def)

lemma unat_of_nat_u32: "n < 4294967296 \<Longrightarrow> unat (of_nat n :: u32) = n"
  by (simp add: unat_of_nat)

text \<open>
  For an image with at least one row the computation fails exactly when the size does not fit into
  32 bits, although it checks the padding of a row before it adds up the rows.
\<close>

lemma ComputeImageDataSize_exact:
  assumes w: "0 \<le> width" "width < 2147483648" and h: "0 < height" "height < 2147483648"
    and a: "0 < unpack_alignment" "unpack_alignment < 2147483648"
    and S: "S = image_size (nat width) (nat height) (bytes_per_group format type) (nat unpack_alignment)"
  shows "\<exists>ok sz. ComputeImageDataSize width height format type unpack_alignment = Some (ok, sz) \<and>
    (ok \<longleftrightarrow> S < 4294967296) \<and> (ok \<longrightarrow> sz = Some (of_nat S))"
proof -
  define k where "k = bytes_per_group format type"
  define r where "r = nat width * k"
  define A where "A = nat unpack_alignment"
  define H where "H = nat height"
  define pad where "pad = (r + A - 1) div A * A"
  note defs = ComputeImageDataSize_def Let_def SafeMultiplyUint32_exact SafeAddUint32_exact
  have u: "unat (uint32 width) = nat width" "unat (uint32 height) = H" "unat (uint32 unpack_alignment) = A"
    "unat (uint32 (BytesPerElement type * ElementsPerGroup format type)) = k"
    using w h a bytes_per_group_range [of type format] uint32_unat
    by (simp_all add: H_def A_def k_def bytes_per_group_def)
  have u1: "unat (uint32 (unpack_alignment - 1)) = A - 1" "unat (uint32 (height - 1)) = H - 1"
    using a h uint32_unat [of "unpack_alignment - 1"] uint32_unat [of "height - 1"] by (simp_all add: A_def H_def)
  have A: "0 < A" "A < 2147483648" "uint32 unpack_alignment \<noteq> 0" and H: "0 < H" "1 < height \<longleftrightarrow> 1 < H"
    using a h u(3) by (auto simp: A_def H_def)
  have S': "S = (H - 1) * pad + r" using S H(1) by (simp add: image_size_def H_def pad_def r_def k_def A_def)
  have pad: "r \<le> pad" using ceil_ge [OF A(1), of r] by (simp add: pad_def)
  consider (row) "4294967296 \<le> r" | (one) "r < 4294967296" "\<not> 1 < H"
    | (temp) "r < 4294967296" "1 < H" "4294967296 \<le> r + (A - 1)" | (many) "r + (A - 1) < 4294967296" "1 < H" by linarith
  then show ?thesis
  proof cases
    case row
    then show ?thesis using S' u by (intro exI [of _ False] exI [of _ None]) (simp add: defs r_def)
  next
    case one
    with H have "H = 1" by simp
    with one show ?thesis using S' u H(2)
      by (intro exI [of _ True]) (simp add: defs unat_of_nat_u32 flip: r_def)
  next
    case temp
    then have "4294967296 \<le> pad + r" using pad A(2) by linarith
    also have "\<dots> \<le> S" using temp(2) S' by (simp add: Suc_leI)
    finally show ?thesis using temp u u1 H(2)
      by (intro exI [of _ False] exI [of _ None]) (simp add: defs unat_of_nat_u32 flip: r_def)
  next
    case many
    define t where "t = r + (A - 1)"
    have t: "t < 4294967296" "pad = t div A * A" using many(1) A(1) by (simp_all add: t_def pad_def)
    have "t div A \<le> t" "t div A * A \<le> t" by simp_all
    then have "t div A < 4294967296" "t div A * A < 4294967296" using t(1) by (blast intro: le_less_trans)+
    then have p: "unat (of_nat t div uint32 unpack_alignment * uint32 unpack_alignment :: u32) = pad"
      using t u(3) by (simp add: unat_word_ariths unat_div unat_of_nat_u32)
    have r: "r < 4294967296" "r + (A - 1) = t" using many(1) by (simp_all add: t_def)
    define X where "X = (H - 1) * pad"
    define P where "P = of_nat t div uint32 unpack_alignment * uint32 unpack_alignment"
    have 1: "SafeMultiplyUint32 (uint32 width) (uint32 (BytesPerElement type * ElementsPerGroup format type)) = (True, of_nat r)"
      using r(1) u by (simp add: SafeMultiplyUint32_exact r_def)
    have 2: "SafeAddUint32 (of_nat r) (uint32 (unpack_alignment - 1)) = (True, of_nat t)"
      using r t(1) u1(1) by (simp only: SafeAddUint32_exact unat_of_nat_u32 if_True)
    have 3: "SafeMultiplyUint32 (uint32 (height - 1)) P = (if X < 4294967296 then (True, of_nat X) else (False, 0))"
      unfolding SafeMultiplyUint32_exact u1(2) P_def p X_def ..
    have 4: "SafeAddUint32 (of_nat X) (of_nat r) = (if X + r < 4294967296 then (True, of_nat (X + r)) else (False, 0))"
      if "X < 4294967296"
      using r(1) that by (simp only: SafeAddUint32_exact unat_of_nat_u32)
    have S'': "S = X + r" using S' by (simp add: X_def)
    have run: "ComputeImageDataSize width height format type unpack_alignment =
       (let (ok3, x) = SafeMultiplyUint32 (uint32 (height - 1)) P in
        if \<not> ok3 then Some (False, None) else let (ok4, sz) = SafeAddUint32 x (of_nat r) in Some (ok4, Some sz))"
      using many(2) H(2) A(3) by (simp add: ComputeImageDataSize_def 1 2 flip: P_def)
    show ?thesis
      using 4 unfolding run 3 S'' by (cases "X < 4294967296") auto
  qed
qed

subsection \<open>Sizes and channels\<close>

definition RenderbufferBytesPerPixel :: "int \<Rightarrow> u32" where
  "RenderbufferBytesPerPixel format =
     (if format = GL_STENCIL_INDEX8 then 1
      else if format \<in> {GL_RGBA4, GL_RGB565, GL_RGB5_A1, GL_DEPTH_COMPONENT16} then 2
      else if format \<in> {GL_RGB, GL_RGBA, GL_DEPTH24_STENCIL8_OES, GL_RGB8_OES, GL_RGBA8_OES, GL_DEPTH_COMPONENT24_OES}
      then 4
      else 0)"

definition GetGLDataTypeSizeForUniforms :: "int \<Rightarrow> u32" where
  "GetGLDataTypeSizeForUniforms type =
     (if type = GL_FLOAT then 4
      else if type = GL_FLOAT_VEC2 then 4 * 2
      else if type = GL_FLOAT_VEC3 then 4 * 3
      else if type = GL_FLOAT_VEC4 then 4 * 4
      else if type = GL_INT then 4
      else if type = GL_INT_VEC2 then 4 * 2
      else if type = GL_INT_VEC3 then 4 * 3
      else if type = GL_INT_VEC4 then 4 * 4
      else if type = GL_BOOL then 4
      else if type = GL_BOOL_VEC2 then 4 * 2
      else if type = GL_BOOL_VEC3 then 4 * 3
      else if type = GL_BOOL_VEC4 then 4 * 4
      else if type = GL_FLOAT_MAT2 then 4 * 2 * 2
      else if type = GL_FLOAT_MAT3 then 4 * 3 * 3
      else if type = GL_FLOAT_MAT4 then 4 * 4 * 4
      else if type = GL_SAMPLER_2D then 4
      else if type = GL_SAMPLER_CUBE then 4
      else if type = GL_SAMPLER_EXTERNAL_OES then 4
      else 0)"

definition GetGLTypeSizeForTexturesAndBuffers :: "u32 \<Rightarrow> u32" where
  "GetGLTypeSizeForTexturesAndBuffers type =
     (if type = GL_BYTE then 1
      else if type = GL_UNSIGNED_BYTE then 1
      else if type = GL_SHORT then 2
      else if type = GL_UNSIGNED_SHORT then 2
      else if type = GL_INT then 4
      else if type = GL_UNSIGNED_INT then 4
      else if type = GL_FLOAT then 4
      else if type = GL_FIXED then 4
      else 0)"

definition GetChannelsForFormat :: "int \<Rightarrow> u32" where
  "GetChannelsForFormat format =
     (if format = GL_ALPHA then 0x0008
      else if format = GL_LUMINANCE then 0x0007
      else if format = GL_LUMINANCE_ALPHA then 0x000F
      else if format \<in> {GL_RGB, GL_RGB8_OES, GL_RGB565} then 0x0007
      else if format \<in> {GL_BGRA_EXT, GL_RGBA, GL_RGBA8_OES, GL_RGBA4, GL_RGB5_A1} then 0x000F
      else 0x0000)"

definition IsNPOT :: "u32 \<Rightarrow> bool" where
  "IsNPOT v \<longleftrightarrow> v > 0 \<and> and v (v - 1) \<noteq> 0"

subsection \<open>Errors as bits\<close>

text \<open>\<^verbatim>\<open>namespace gl_error_bit\<close>. An unknown value is \<^verbatim>\<open>GPU_NOTREACHED\<close>.\<close>

definition kInvalidEnum_bit :: u32 where "kInvalidEnum_bit = 1"
definition kInvalidValue_bit :: u32 where "kInvalidValue_bit = 2"
definition kInvalidOperation_bit :: u32 where "kInvalidOperation_bit = 4"
definition kOutOfMemory_bit :: u32 where "kOutOfMemory_bit = 8"
definition kInvalidFrameBufferOperation_bit :: u32 where "kInvalidFrameBufferOperation_bit = 16"

lemmas error_bits = kInvalidEnum_bit_def kInvalidValue_bit_def kInvalidOperation_bit_def kOutOfMemory_bit_def
  kInvalidFrameBufferOperation_bit_def

definition GLErrorToErrorBit :: "u32 \<Rightarrow> u32 option" where
  "GLErrorToErrorBit err =
     (if err = GL_INVALID_ENUM then Some kInvalidEnum_bit
      else if err = GL_INVALID_VALUE then Some kInvalidValue_bit
      else if err = GL_INVALID_OPERATION then Some kInvalidOperation_bit
      else if err = GL_OUT_OF_MEMORY then Some kOutOfMemory_bit
      else if err = GL_INVALID_FRAMEBUFFER_OPERATION then Some kInvalidFrameBufferOperation_bit
      else None)"

definition GLErrorBitToGLError :: "u32 \<Rightarrow> u32 option" where
  "GLErrorBitToGLError error_bit =
     (if error_bit = kInvalidEnum_bit then Some GL_INVALID_ENUM
      else if error_bit = kInvalidValue_bit then Some GL_INVALID_VALUE
      else if error_bit = kInvalidOperation_bit then Some GL_INVALID_OPERATION
      else if error_bit = kOutOfMemory_bit then Some GL_OUT_OF_MEMORY
      else if error_bit = kInvalidFrameBufferOperation_bit then Some GL_INVALID_FRAMEBUFFER_OPERATION
      else None)"

lemma GLError_bit_inverse:
  "GLErrorToErrorBit err = Some error_bit \<longleftrightarrow> GLErrorBitToGLError error_bit = Some err"
  by (auto simp: GLErrorToErrorBit_def GLErrorBitToGLError_def error_bits)

lemma GLErrorToErrorBit_single: "GLErrorToErrorBit err = Some error_bit \<Longrightarrow> \<not> IsNPOT error_bit \<and> error_bit \<noteq> 0"
  by (auto simp: GLErrorToErrorBit_def error_bits IsNPOT_def split: if_splits)

text \<open>The faces of a cube map; an index outside of the array is undefined.\<close>

definition IndexToGLFaceTarget :: "int \<Rightarrow> u32 option" where
  "IndexToGLFaceTarget index =
     (let faces = [GL_TEXTURE_CUBE_MAP_POSITIVE_X, GL_TEXTURE_CUBE_MAP_NEGATIVE_X, GL_TEXTURE_CUBE_MAP_POSITIVE_Y,
                   GL_TEXTURE_CUBE_MAP_NEGATIVE_Y, GL_TEXTURE_CUBE_MAP_POSITIVE_Z, GL_TEXTURE_CUBE_MAP_NEGATIVE_Z]
      in if 0 \<le> index \<and> index < 6 then Some (faces ! nat index) else None)"

subsection \<open>Names of the enumerants\<close>

text \<open>
  \<^verbatim>\<open>enum_to_string_table_\<close> is an argument: its file is generated. The formats \<^verbatim>\<open>0x%04x\<close> and \<^verbatim>\<open>0x%08x\<close> print a
  value with at least four or eight digits, and the value fits.
\<close>

definition hex_digit :: "nat \<Rightarrow> char" where
  "hex_digit d = ''0123456789abcdef'' ! d"

fun hex_digits :: "nat \<Rightarrow> nat \<Rightarrow> string" where
  "hex_digits 0 v = []"
| "hex_digits (Suc n) v = hex_digits n (v div 16) @ [hex_digit (v mod 16)]"

fun find_name :: "(u32 \<times> string) list \<Rightarrow> u32 \<Rightarrow> string option" where
  "find_name [] v = None"
| "find_name ((x, name) # table) v = (if v = x then Some name else find_name table v)"

definition GetStringEnum :: "(u32 \<times> string) list \<Rightarrow> u32 \<Rightarrow> string" where
  "GetStringEnum enum_to_string_table v =
     (case find_name enum_to_string_table v of
        Some name \<Rightarrow> name
      | None \<Rightarrow> ''0x'' @ (if v < 0x10000 then hex_digits 4 (unat v) else hex_digits 8 (unat v)))"

definition GetQualifiedEnumString :: "(u32 \<times> string) list \<Rightarrow> (u32 \<times> string) list \<Rightarrow> u32 \<Rightarrow> string" where
  "GetQualifiedEnumString enum_to_string_table table v =
     (case find_name table v of Some name \<Rightarrow> name | None \<Rightarrow> GetStringEnum enum_to_string_table v)"

definition GetStringError :: "(u32 \<times> string) list \<Rightarrow> u32 \<Rightarrow> string" where
  "GetStringError enum_to_string_table v = GetQualifiedEnumString enum_to_string_table [(0, ''GL_NONE'')] v"

definition GetStringBool :: "u32 \<Rightarrow> string" where
  "GetStringBool v = (if v \<noteq> 0 then ''true'' else ''false'')"

lemma hex_digit_inject: "d < 16 \<Longrightarrow> e < 16 \<Longrightarrow> hex_digit d = hex_digit e \<Longrightarrow> d = e"
  unfolding hex_digit_def by (subst (asm) nth_eq_iff_index_eq) auto

lemma length_hex_digits [simp]: "length (hex_digits n v) = n"
  by (induction n v rule: hex_digits.induct) simp_all

lemma hex_digits_inject:
  "v < 16 ^ n \<Longrightarrow> w < 16 ^ n \<Longrightarrow> hex_digits n v = hex_digits n w \<Longrightarrow> v = w"
proof (induction n arbitrary: v w)
  case (Suc n)
  then have "v div 16 = w div 16" by (intro Suc.IH) (simp_all add: div_less_iff_less_mult mult.commute)
  moreover have "v mod 16 = w mod 16" using Suc.prems(3) by (intro hex_digit_inject) simp_all
  ultimately show ?case by (metis div_mult_mod_eq)
qed simp

text \<open>The text of an unnamed value determines the value.\<close>

lemma GetStringEnum_inject:
  assumes "find_name table v = None" and "find_name table w = None" and "GetStringEnum table v = GetStringEnum table w"
  shows "v = w"
proof -
  have "(v < 0x10000) = (w < 0x10000)"
    using arg_cong [OF assms(3), of length] assms(1,2) by (simp add: GetStringEnum_def split: if_splits)
  moreover have "unat v < 16 ^ 8" "unat w < 16 ^ 8" using u32_lt [of v] u32_lt [of w] by simp_all
  moreover have "unat v < 16 ^ 4" if "v < 0x10000" for v :: u32 using that by (simp add: word_less_nat_alt)
  ultimately have "unat v = unat w"
    using assms hex_digits_inject [of "unat v" 4 "unat w"] hex_digits_inject [of "unat v" 8 "unat w"]
    by (auto simp: GetStringEnum_def split: if_splits)
  then show ?thesis by (simp add: u32_eq)
qed

end
