(* ===== verification/Buffer_Info.thy ===== *)
theory Buffer_Info
  imports Gles2_Utils Shared_Memory
begin

text \<open>
  \<^verbatim>\<open>BufferManager::BufferInfo\<close> of \<^verbatim>\<open>gpu/command_buffer/service/buffer_manager.h\<close> and \<^verbatim>\<open>buffer_manager.cc\<close>: what the
  service knows about a GL buffer. An index buffer is shadowed: a copy of its data is kept, from which
  the largest index of a range is computed and cached, so that a draw call with an index out of range
  can be refused. \<^verbatim>\<open>GLintptr\<close> and \<^verbatim>\<open>GLsizeiptr\<close> are 32-bit signed; the sum of two of them wraps.
  \<^const>\<open>None\<close> is an access out of bounds or an allocation of a negative size.
\<close>

subsection \<open>State\<close>

text \<open>A \<^verbatim>\<open>Range\<close> is the offset, the count and the type; the key of the cache.\<close>

type_synonym Range = "u32 \<times> int \<times> u32"

record BufferInfo =
  bi_ref_count :: nat
  bi_deleted :: bool
  bi_service_id :: u32
  bi_target :: u32
  bi_size :: int
  bi_usage :: u32
  bi_shadowed :: bool
  bi_shadow :: "u8 list"
  bi_range_set :: "(Range \<times> u32) list"

definition new_BufferInfo :: "u32 \<Rightarrow> BufferInfo" where
  "new_BufferInfo service_id =
     \<lparr>bi_ref_count = 0, bi_deleted = False, bi_service_id = service_id, bi_target = 0, bi_size = 0,
      bi_usage = GL_STATIC_DRAW, bi_shadowed = False, bi_shadow = [], bi_range_set = []\<rparr>"

definition bi_IsDeleted :: "BufferInfo \<Rightarrow> bool" where
  "bi_IsDeleted b \<longleftrightarrow> bi_deleted b"

definition bi_IsValid :: "BufferInfo \<Rightarrow> bool" where
  "bi_IsValid b \<longleftrightarrow> bi_target b \<noteq> 0 \<and> \<not> bi_IsDeleted b"

definition bi_set_target :: "u32 \<Rightarrow> BufferInfo \<Rightarrow> BufferInfo" where
  "bi_set_target target b = b\<lparr>bi_target := target\<rparr>"

definition bi_MarkAsDeleted :: "BufferInfo \<Rightarrow> BufferInfo" where
  "bi_MarkAsDeleted b = b\<lparr>bi_deleted := True\<rparr>"

definition ClearCache :: "BufferInfo \<Rightarrow> BufferInfo" where
  "ClearCache b = b\<lparr>bi_range_set := []\<rparr>"

definition bi_SetInfo :: "int \<Rightarrow> u32 \<Rightarrow> bool \<Rightarrow> BufferInfo \<Rightarrow> BufferInfo option" where
  "bi_SetInfo sz usage shadow b0 =
     (let b = b0\<lparr>bi_usage := usage\<rparr> in
      if sz \<noteq> bi_size b \<or> shadow \<noteq> bi_shadowed b
      then let b1 = ClearCache (b\<lparr>bi_shadowed := shadow, bi_size := sz\<rparr>) in
           if shadow
           then if sz < 0 then None else Some (b1\<lparr>bi_shadow := replicate (nat sz) 0\<rparr>)
           else Some b1
      else Some b)"

definition bad_range :: "int \<Rightarrow> int \<Rightarrow> BufferInfo \<Rightarrow> bool" where
  "bad_range offset sz b \<longleftrightarrow> offset < 0 \<or> int32 (offset + sz) < offset \<or> int32 (offset + sz) > bi_size b"

text \<open>\<^verbatim>\<open>memcpy\<close> into the shadow.\<close>

definition copy_into :: "nat \<Rightarrow> nat \<Rightarrow> u8 list \<Rightarrow> u8 list \<Rightarrow> u8 list option" where
  "copy_into offset n data shadow =
     (if offset + n \<le> length shadow \<and> n \<le> length data
      then Some (take offset shadow @ take n data @ drop (offset + n) shadow)
      else None)"

definition bi_SetRange :: "int \<Rightarrow> int \<Rightarrow> u8 list \<Rightarrow> BufferInfo \<Rightarrow> (bool \<times> BufferInfo) option" where
  "bi_SetRange offset sz data b =
     (if bad_range offset sz b then Some (False, b)
      else if bi_shadowed b
      then map_option (\<lambda>s. (True, ClearCache (b\<lparr>bi_shadow := s\<rparr>))) (copy_into (nat offset) (nat sz) data (bi_shadow b))
      else Some (True, b))"

text \<open>A pointer into the shadow is its offset.\<close>

definition bi_GetRange :: "int \<Rightarrow> int \<Rightarrow> BufferInfo \<Rightarrow> nat option" where
  "bi_GetRange offset sz b =
     (if \<not> bi_shadowed b then None
      else if bad_range offset sz b then None
      else Some (nat offset))"

subsection \<open>The largest index\<close>

text \<open>
  \<^verbatim>\<open>GetMaxValue<T>\<close> for a type \<^verbatim>\<open>T\<close> of \<open>k\<close> bytes. The loop compares a little-endian element after the other.
\<close>

definition element_at :: "nat \<Rightarrow> u8 list \<Rightarrow> nat \<Rightarrow> u32 option" where
  "element_at k data p = (if p + k \<le> length data then Some (u32_of_bytes (take k (drop p data))) else None)"

fun max_value_loop :: "nat \<Rightarrow> u8 list \<Rightarrow> nat \<Rightarrow> nat \<Rightarrow> u32 \<Rightarrow> u32 option" where
  "max_value_loop k data p 0 max_value = Some max_value"
| "max_value_loop k data p (Suc n) max_value =
     (case element_at k data p of
        None \<Rightarrow> None
      | Some e \<Rightarrow> max_value_loop k data (p + k) n (if e > max_value then e else max_value))"

definition GetMaxValue :: "nat \<Rightarrow> u8 list \<Rightarrow> u32 \<Rightarrow> int \<Rightarrow> u32 option" where
  "GetMaxValue k data offset count = max_value_loop k data (unat offset) (nat count) 0"

text \<open>The result, \<^verbatim>\<open>*max_value\<close> where the call sets it, and the buffer with its cache.\<close>

definition GetMaxValueForRange :: "u32 \<Rightarrow> int \<Rightarrow> u32 \<Rightarrow> BufferInfo \<Rightarrow> (u32 option \<times> BufferInfo) option" where
  "GetMaxValueForRange offset count type b =
     (let range = (offset, count, type) in
      case map_of (bi_range_set b) range of
        Some v \<Rightarrow> Some (Some v, b)
      | None \<Rightarrow>
          let (ok1, bytes) = SafeMultiplyUint32 (uint32 count) (GetGLTypeSizeForTexturesAndBuffers type) in
          if \<not> ok1 then Some (None, b)
          else let (ok2, sz) = SafeAddUint32 offset bytes in
          if \<not> ok2 then Some (None, b)
          else if sz > uint32 (bi_size b) then Some (None, b)
          else if \<not> bi_shadowed b then Some (None, b)
          else let store = (\<lambda>v. (Some v, b\<lparr>bi_range_set := (range, v) # bi_range_set b\<rparr>)) in
          if type = GL_UNSIGNED_BYTE then map_option store (GetMaxValue 1 (bi_shadow b) offset count)
          else if type = GL_UNSIGNED_SHORT then
            if and offset 1 \<noteq> 0 then Some (None, b)
            else map_option store (GetMaxValue 2 (bi_shadow b) offset count)
          else if type = GL_UNSIGNED_INT then
            if and offset 3 \<noteq> 0 then Some (None, b)
            else map_option store (GetMaxValue 4 (bi_shadow b) offset count)
          else Some (store 0))"

subsection \<open>What the largest index is\<close>

text \<open>The elements of a range, without a cache and without a loop.\<close>

definition elements :: "nat \<Rightarrow> u8 list \<Rightarrow> nat \<Rightarrow> nat \<Rightarrow> u32 list" where
  "elements k data p n = map (\<lambda>i. u32_of_bytes (take k (drop (p + i * k) data))) [0..<n]"

definition index_size :: "u32 \<Rightarrow> nat" where
  "index_size type = (if type = GL_UNSIGNED_BYTE then 1 else if type = GL_UNSIGNED_SHORT then 2 else 4)"

definition max_element :: "u32 list \<Rightarrow> u32" where
  "max_element es = fold max es 0"

lemma elements_Suc: "elements k data p (Suc n) = u32_of_bytes (take k (drop p data)) # elements k data (p + k) n"
  unfolding elements_def
  by (simp only: upt_conv_Cons [of 0 "Suc n"] map_Suc_upt [symmetric] list.map map_map o_def) (simp add: algebra_simps)

lemma max_value_loop_elements:
  "p + n * k \<le> length data \<Longrightarrow> max_value_loop k data p n m = Some (fold max (elements k data p n) m)"
proof (induction n arbitrary: p m)
  case 0
  then show ?case by (simp add: elements_def)
next
  case (Suc n)
  have e: "element_at k data p = Some (u32_of_bytes (take k (drop p data)))" using Suc.prems by (simp add: element_at_def)
  have "(if e > m then e else m) = max e m" for e by (auto simp: max_def)
  with e Suc show ?case by (simp add: elements_Suc)
qed

lemma fold_max_ge: "m \<le> fold max es m \<and> (\<forall>e \<in> set es. e \<le> fold max es (m :: u32))"
proof (induction es arbitrary: m)
  case (Cons e es)
  from Cons [of "max e m"] show ?case by auto
qed simp

lemma max_element_ge: "e \<in> set es \<Longrightarrow> e \<le> max_element es"
  using fold_max_ge by (simp add: max_element_def)

text \<open>
  The invariant of a buffer: the shadow has the size of the buffer, and a cached value is the largest
  index of its range in the data as they are now.
\<close>

definition cache_ok :: "BufferInfo \<Rightarrow> bool" where
  "cache_ok b \<longleftrightarrow> (\<forall>((offset, count, type), v) \<in> set (bi_range_set b).
     bi_shadowed b \<and> (type \<in> {GL_UNSIGNED_BYTE, GL_UNSIGNED_SHORT, GL_UNSIGNED_INT} \<longrightarrow>
       0 \<le> count \<and> unat offset + nat count * index_size type \<le> length (bi_shadow b) \<and>
       v = max_element (elements (index_size type) (bi_shadow b) (unat offset) (nat count))))"

definition info_ok :: "BufferInfo \<Rightarrow> bool" where
  "info_ok b \<longleftrightarrow> 0 \<le> bi_size b \<and> bi_size b < 2147483648 \<and>
     (bi_shadowed b \<longrightarrow> length (bi_shadow b) = nat (bi_size b)) \<and> cache_ok b"

lemma info_ok_new: "info_ok (new_BufferInfo i)"
  by (simp add: info_ok_def cache_ok_def new_BufferInfo_def)

lemma info_ok_frame [simp]:
  "info_ok (b\<lparr>bi_ref_count := c\<rparr>) = info_ok b" "info_ok (b\<lparr>bi_deleted := d\<rparr>) = info_ok b"
  "info_ok (b\<lparr>bi_target := t\<rparr>) = info_ok b" "info_ok (b\<lparr>bi_usage := u\<rparr>) = info_ok b"
  by (simp_all add: info_ok_def cache_ok_def)

lemma bi_SetInfo_ok:
  assumes ok: "info_ok b" and sz: "0 \<le> sz" "sz < 2147483648"
  shows "\<exists>b'. bi_SetInfo sz usage shadow b = Some b' \<and> info_ok b' \<and> bi_size b' = sz \<and> bi_shadowed b' = shadow \<and>
    bi_ref_count b' = bi_ref_count b \<and> bi_service_id b' = bi_service_id b \<and> bi_deleted b' = bi_deleted b \<and> bi_target b' = bi_target b"
proof (cases "sz \<noteq> bi_size b \<or> shadow \<noteq> bi_shadowed b")
  case False
  then have "bi_SetInfo sz usage shadow b = Some (b\<lparr>bi_usage := usage\<rparr>)" by (simp add: bi_SetInfo_def)
  with False ok show ?thesis by (intro exI [of _ "b\<lparr>bi_usage := usage\<rparr>"]) simp
next
  case True
  let ?b = "b\<lparr>bi_usage := usage, bi_shadowed := shadow, bi_size := sz, bi_range_set := [],
    bi_shadow := if shadow then replicate (nat sz) 0 else bi_shadow b\<rparr>"
  have "bi_SetInfo sz usage shadow b = Some ?b"
    using True sz by (cases shadow) (simp_all add: bi_SetInfo_def ClearCache_def Let_def)
  moreover have "info_ok ?b" using sz by (simp add: info_ok_def cache_ok_def)
  ultimately show ?thesis by (intro exI [of _ ?b]) simp
qed

lemma int32_sum:
  assumes "0 \<le> offset" and "offset < 2147483648" and "- 2147483648 \<le> sz" and "sz < 2147483648"
  shows "int32 (offset + sz) = (if offset + sz < 2147483648 then offset + sz else offset + sz - 4294967296)"
proof (cases "offset + sz < 2147483648")
  case True
  with assms show ?thesis by (simp add: int32_id)
next
  case False
  have "word_of_int (offset + sz - 4294967296) = (word_of_int (offset + sz) :: u32)"
    by (simp add: word_of_int_eq_iff take_bit_eq_mod)
  then have "int32 (offset + sz) = int32 (offset + sz - 4294967296)" unfolding int32_def by (simp only:)
  also have "\<dots> = offset + sz - 4294967296" by (rule int32_id) (use assms False in simp_all)
  finally show ?thesis using False by simp
qed

text \<open>The check of a range accepts exactly the ranges inside of the buffer, in spite of the wrap-around.\<close>

lemma bad_range_iff:
  assumes "info_ok b" and "- 2147483648 \<le> offset" "offset < 2147483648" and "- 2147483648 \<le> sz" "sz < 2147483648"
  shows "bad_range offset sz b \<longleftrightarrow> \<not> (0 \<le> offset \<and> 0 \<le> sz \<and> offset + sz \<le> bi_size b)"
proof (cases "0 \<le> offset")
  case True
  with int32_sum [OF True assms(3,4,5)] assms show ?thesis by (auto simp: bad_range_def info_ok_def)
qed (simp add: bad_range_def)

lemma bi_SetRange_ok:
  assumes ok: "info_ok b" and r: "- 2147483648 \<le> offset" "offset < 2147483648" "- 2147483648 \<le> sz" "sz < 2147483648"
    and data: "sz \<le> int (length data)"
  shows "if 0 \<le> offset \<and> 0 \<le> sz \<and> offset + sz \<le> bi_size b
     then \<exists>b'. bi_SetRange offset sz data b = Some (True, b') \<and> info_ok b' \<and> bi_size b' = bi_size b \<and>
       (bi_shadowed b \<longrightarrow> bi_shadow b' = take (nat offset) (bi_shadow b) @ take (nat sz) data @ drop (nat (offset + sz)) (bi_shadow b))
     else bi_SetRange offset sz data b = Some (False, b)"
proof (cases "0 \<le> offset \<and> 0 \<le> sz \<and> offset + sz \<le> bi_size b")
  case True
  then have nb: "\<not> bad_range offset sz b" using bad_range_iff [OF ok r] by blast
  show ?thesis
  proof (cases "bi_shadowed b")
    case shadowed: True
    then have len: "length (bi_shadow b) = nat (bi_size b)" using ok by (simp add: info_ok_def)
    have n: "nat offset + nat sz = nat (offset + sz)" "nat (offset + sz) \<le> length (bi_shadow b)" "nat sz \<le> length data"
      using True data len by auto
    then have "copy_into (nat offset) (nat sz) data (bi_shadow b) =
        Some (take (nat offset) (bi_shadow b) @ take (nat sz) data @ drop (nat (offset + sz)) (bi_shadow b))"
      by (simp add: copy_into_def)
    moreover have "length (take (nat offset) (bi_shadow b) @ take (nat sz) data @ drop (nat (offset + sz)) (bi_shadow b)) = nat (bi_size b)"
      using n(2,3) unfolding n(1) [symmetric] len [symmetric] by simp
    ultimately show ?thesis
      using True nb shadowed ok by (simp add: bi_SetRange_def ClearCache_def info_ok_def cache_ok_def)
  qed (use True nb ok in \<open>simp add: bi_SetRange_def\<close>)
next
  case False
  then have "bad_range offset sz b" using bad_range_iff [OF ok r] by blast
  with False show ?thesis by (simp add: bi_SetRange_def)
qed

subsection \<open>The cached computation\<close>

lemma index_size_gl:
  "type \<in> {GL_UNSIGNED_BYTE, GL_UNSIGNED_SHORT, GL_UNSIGNED_INT} \<Longrightarrow>
   unat (GetGLTypeSizeForTexturesAndBuffers type) = index_size type \<and> 0 < index_size type"
  by (auto simp: GetGLTypeSizeForTexturesAndBuffers_def index_size_def)

definition aligned :: "u32 \<Rightarrow> u32 \<Rightarrow> bool" where
  "aligned type offset \<longleftrightarrow> (type = GL_UNSIGNED_SHORT \<longrightarrow> and offset 1 = 0) \<and> (type = GL_UNSIGNED_INT \<longrightarrow> and offset 3 = 0)"

lemma range_check:
  assumes ok: "info_ok b" and count: "- 2147483648 \<le> count" "count < 2147483648"
    and type: "type \<in> {GL_UNSIGNED_BYTE, GL_UNSIGNED_SHORT, GL_UNSIGNED_INT}"
  shows "(\<exists>bytes sz. SafeMultiplyUint32 (uint32 count) (GetGLTypeSizeForTexturesAndBuffers type) = (True, bytes) \<and>
      SafeAddUint32 offset bytes = (True, sz) \<and> \<not> sz > uint32 (bi_size b)) \<longleftrightarrow>
    0 \<le> count \<and> unat offset + nat count * index_size type \<le> nat (bi_size b)"
proof -
  define k where "k = index_size type"
  define c where "c = unat (uint32 count)"
  have k: "unat (GetGLTypeSizeForTexturesAndBuffers type) = k" "0 < k" using index_size_gl [OF type] by (simp_all add: k_def)
  have s: "unat (uint32 (bi_size b)) = nat (bi_size b)" "nat (bi_size b) < 2147483648"
    using ok uint32_unat [of "bi_size b"] by (auto simp: info_ok_def)
  have c: "c = nat count" if "0 \<le> count" using that count uint32_unat by (simp add: c_def)
  have neg: "2147483648 \<le> c" if "count < 0"
  proof -
    have "uint32 count = uint32 (count + 4294967296)"
      by (simp add: uint32_def word_of_int_eq_iff take_bit_eq_mod)
    then show ?thesis using that count uint32_unat [of "count + 4294967296"] by (simp add: c_def)
  qed
  have m: "SafeMultiplyUint32 (uint32 count) (GetGLTypeSizeForTexturesAndBuffers type) =
      (if c * k < 4294967296 then (True, of_nat (c * k)) else (False, 0))"
    unfolding SafeMultiplyUint32_exact k(1) c_def ..
  have a: "SafeAddUint32 offset (of_nat x) = (if unat offset + x < 4294967296 then (True, of_nat (unat offset + x)) else (False, 0))"
    if "x < 4294967296" for x
    unfolding SafeAddUint32_exact unat_of_nat_u32 [OF that] ..
  have "(\<exists>bytes sz. SafeMultiplyUint32 (uint32 count) (GetGLTypeSizeForTexturesAndBuffers type) = (True, bytes) \<and>
      SafeAddUint32 offset bytes = (True, sz) \<and> \<not> sz > uint32 (bi_size b)) \<longleftrightarrow> unat offset + c * k \<le> nat (bi_size b)"
  proof (cases "unat offset + c * k < 4294967296")
    case True
    then have x: "c * k < 4294967296" by simp
    have "\<not> of_nat (unat offset + c * k) > uint32 (bi_size b) \<longleftrightarrow> unat offset + c * k \<le> nat (bi_size b)"
      unfolding word_less_nat_alt unat_of_nat_u32 [OF True] s(1) by auto
    with True x show ?thesis unfolding m using a [OF x] by auto
  next
    case False
    with s(2) show ?thesis unfolding m using a [of "c * k"] by auto
  qed
  moreover have "unat offset + c * k \<le> nat (bi_size b) \<longleftrightarrow> 0 \<le> count \<and> unat offset + nat count * k \<le> nat (bi_size b)"
  proof (cases "0 \<le> count")
    case False
    then have "2147483648 \<le> c * k" using neg k(2) by (metis less_le_not_le linorder_not_le mult_le_mono nat_mult_1_right Suc_leI One_nat_def)
    with False s(2) show ?thesis by simp
  qed (simp add: c)
  ultimately show ?thesis by (simp add: k_def)
qed

text \<open>
  The largest index is computed exactly for the aligned ranges inside of a shadowed buffer, and it is
  the maximum over the current data; the invariant is kept. A range that is in the cache is one for
  which the computation has succeeded before.
\<close>

lemma GetMaxValueForRange_ok:
  assumes ok: "info_ok b" and count: "- 2147483648 \<le> count" "count < 2147483648"
    and type: "type \<in> {GL_UNSIGNED_BYTE, GL_UNSIGNED_SHORT, GL_UNSIGNED_INT}"
  shows "\<exists>r b'. GetMaxValueForRange offset count type b = Some (r, b') \<and> info_ok b' \<and> bi_shadow b' = bi_shadow b \<and>
     (\<forall>v. r = Some v \<longrightarrow> 0 \<le> count \<and> unat offset + nat count * index_size type \<le> nat (bi_size b) \<and>
        v = max_element (elements (index_size type) (bi_shadow b) (unat offset) (nat count))) \<and>
     (r = None \<longrightarrow> \<not> (bi_shadowed b \<and> aligned type offset \<and> 0 \<le> count \<and>
        unat offset + nat count * index_size type \<le> nat (bi_size b)))"
proof (cases "map_of (bi_range_set b) (offset, count, type)")
  case (Some v)
  from map_of_SomeD [OF this] ok type have "bi_shadowed b" "0 \<le> count"
    "unat offset + nat count * index_size type \<le> length (bi_shadow b)"
    "v = max_element (elements (index_size type) (bi_shadow b) (unat offset) (nat count))"
    unfolding info_ok_def cache_ok_def by auto
  with Some ok show ?thesis by (auto simp: GetMaxValueForRange_def info_ok_def)
next
  case None
  let ?k = "index_size type"
  let ?in = "0 \<le> count \<and> unat offset + nat count * ?k \<le> nat (bi_size b)"
  define v where "v = max_element (elements ?k (bi_shadow b) (unat offset) (nat count))"
  show ?thesis
  proof (cases "?in \<and> bi_shadowed b \<and> aligned type offset")
    case False
    have "GetMaxValueForRange offset count type b = Some (None, b)"
    proof (cases ?in)
      case True
      with range_check [OF ok count type, of offset] obtain bytes sz where
        "SafeMultiplyUint32 (uint32 count) (GetGLTypeSizeForTexturesAndBuffers type) = (True, bytes)"
        "SafeAddUint32 offset bytes = (True, sz)" "\<not> sz > uint32 (bi_size b)" by blast
      with None True False type show ?thesis by (auto simp: GetMaxValueForRange_def aligned_def)
    next
      case out: False
      obtain ok1 bytes where m: "SafeMultiplyUint32 (uint32 count) (GetGLTypeSizeForTexturesAndBuffers type) = (ok1, bytes)" by fastforce
      obtain ok2 sz where a: "SafeAddUint32 offset bytes = (ok2, sz)" by fastforce
      have "\<not> ok1 \<or> \<not> ok2 \<or> sz > uint32 (bi_size b)"
        using out range_check [OF ok count type, of offset] m a by auto
      with None m a show ?thesis by (auto simp: GetMaxValueForRange_def)
    qed
    with False ok show ?thesis by auto
  next
    case True
    then have len: "unat offset + nat count * ?k \<le> length (bi_shadow b)" using ok by (simp add: info_ok_def)
    have get: "GetMaxValue ?k (bi_shadow b) offset count = Some v"
      unfolding GetMaxValue_def max_value_loop_elements [OF len] by (simp add: v_def max_element_def)
    let ?b = "b\<lparr>bi_range_set := ((offset, count, type), v) # bi_range_set b\<rparr>"
    from True range_check [OF ok count type, of offset] obtain bytes sz where
      "SafeMultiplyUint32 (uint32 count) (GetGLTypeSizeForTexturesAndBuffers type) = (True, bytes)"
      "SafeAddUint32 offset bytes = (True, sz)" "\<not> sz > uint32 (bi_size b)" by blast
    with None True type get have "GetMaxValueForRange offset count type b = Some (Some v, ?b)"
      by (auto simp: GetMaxValueForRange_def aligned_def index_size_def)
    moreover have "info_ok ?b"
      using ok True len v_def by (auto simp: info_ok_def cache_ok_def)
    ultimately show ?thesis using True v_def by auto
  qed
qed

end
