(* ===== verification/Buffer_Manager.thy ===== *)
theory Buffer_Manager
  imports Buffer_Info
begin

text \<open>
  \<^verbatim>\<open>BufferManager\<close> of \<^verbatim>\<open>gpu/command_buffer/service/buffer_manager.cc\<close>: the table from client ids to reference
  counted \<^verbatim>\<open>BufferInfo\<close>s, and the accounting of their number and their memory. The infos live in a
  heap, \<open>bm_heap\<close>; a reference is an index, and a freed info is \<^const>\<open>None\<close>. \<^verbatim>\<open>scoped_refptr\<close> is the pair
  \<open>bm_AddRef\<close> and \<open>bm_Release\<close>; the last release runs the destructor. The table is a hash map whose order
  is not specified; here it is an association list. \<open>bm_gl_deleted\<close> are the ids given to
  \<^verbatim>\<open>glDeleteBuffersARB\<close>. Following a reference to a freed info is \<^const>\<open>None\<close>.
\<close>

subsection \<open>State\<close>

type_synonym info_ref = nat

record BufferManager =
  bm_buffer_infos :: "(u32 \<times> info_ref) list"
  bm_allow_buffers_on_multiple_targets :: bool
  bm_mem_represented :: u32
  bm_last_reported_mem_represented :: u32
  bm_buffer_info_count :: u32
  bm_have_context :: bool
  bm_heap :: "BufferInfo option list"
  bm_gl_deleted :: "u32 list"

definition UpdateMemRepresented :: "BufferManager \<Rightarrow> BufferManager" where
  "UpdateMemRepresented m =
     (if bm_mem_represented m \<noteq> bm_last_reported_mem_represented m
      then m\<lparr>bm_last_reported_mem_represented := bm_mem_represented m\<rparr>
      else m)"

definition new_BufferManager :: BufferManager where
  "new_BufferManager = UpdateMemRepresented
     \<lparr>bm_buffer_infos = [], bm_allow_buffers_on_multiple_targets = False, bm_mem_represented = 0,
      bm_last_reported_mem_represented = 1, bm_buffer_info_count = 0, bm_have_context = True,
      bm_heap = [], bm_gl_deleted = []\<rparr>"

definition bm_deref :: "info_ref \<Rightarrow> BufferManager \<Rightarrow> BufferInfo option" where
  "bm_deref r m = (if r < length (bm_heap m) then bm_heap m ! r else None)"

definition bm_store :: "info_ref \<Rightarrow> BufferInfo option \<Rightarrow> BufferManager \<Rightarrow> BufferManager" where
  "bm_store r b m = m\<lparr>bm_heap := (bm_heap m)[r := b]\<rparr>"

subsection \<open>References\<close>

definition StartTracking :: "BufferManager \<Rightarrow> BufferManager" where
  "StartTracking m = m\<lparr>bm_buffer_info_count := bm_buffer_info_count m + 1\<rparr>"

definition StopTracking :: "BufferInfo \<Rightarrow> BufferManager \<Rightarrow> BufferManager" where
  "StopTracking b m =
     UpdateMemRepresented (m\<lparr>bm_mem_represented := bm_mem_represented m - uint32 (bi_size b),
                             bm_buffer_info_count := bm_buffer_info_count m - 1\<rparr>)"

text \<open>\<^verbatim>\<open>BufferInfo::~BufferInfo\<close>.\<close>

definition destroy_BufferInfo :: "BufferInfo \<Rightarrow> BufferManager \<Rightarrow> BufferManager" where
  "destroy_BufferInfo b m =
     StopTracking b (if bm_have_context m then m\<lparr>bm_gl_deleted := bm_gl_deleted m @ [bi_service_id b]\<rparr> else m)"

definition bm_AddRef :: "info_ref \<Rightarrow> BufferManager \<Rightarrow> BufferManager option" where
  "bm_AddRef r m = do {
     b \<leftarrow> bm_deref r m;
     Some (bm_store r (Some (b\<lparr>bi_ref_count := bi_ref_count b + 1\<rparr>)) m)
   }"

definition bm_Release :: "info_ref \<Rightarrow> BufferManager \<Rightarrow> BufferManager option" where
  "bm_Release r m = do {
     b \<leftarrow> bm_deref r m;
     if bi_ref_count b = 1 then Some (bm_store r None (destroy_BufferInfo b m))
     else Some (bm_store r (Some (b\<lparr>bi_ref_count := bi_ref_count b - 1\<rparr>)) m)
   }"

text \<open>\<^verbatim>\<open>BufferInfo::Ref buffer(new BufferInfo(this, service_id))\<close>.\<close>

definition make_BufferInfo :: "u32 \<Rightarrow> BufferManager \<Rightarrow> info_ref \<times> BufferManager" where
  "make_BufferInfo service_id m =
     (length (bm_heap m),
      StartTracking (m\<lparr>bm_heap := bm_heap m @ [Some ((new_BufferInfo service_id)\<lparr>bi_ref_count := 1\<rparr>)]\<rparr>))"

subsection \<open>The table\<close>

text \<open>
  \<^verbatim>\<open>insert\<close> keeps an entry that is there. The local reference is released at the end of the function.
\<close>

definition CreateBufferInfo :: "u32 \<Rightarrow> u32 \<Rightarrow> BufferManager \<Rightarrow> BufferManager option" where
  "CreateBufferInfo client_id service_id m =
     (let (r, m1) = make_BufferInfo service_id m in
      if map_of (bm_buffer_infos m1) client_id = None
      then do {
        m2 \<leftarrow> bm_AddRef r m1;
        bm_Release r (m2\<lparr>bm_buffer_infos := (client_id, r) # bm_buffer_infos m2\<rparr>)
      }
      else bm_Release r m1)"

definition GetBufferInfo :: "u32 \<Rightarrow> BufferManager \<Rightarrow> info_ref option" where
  "GetBufferInfo client_id m = map_of (bm_buffer_infos m) client_id"

definition RemoveBufferInfo :: "u32 \<Rightarrow> BufferManager \<Rightarrow> BufferManager option" where
  "RemoveBufferInfo client_id m =
     (case map_of (bm_buffer_infos m) client_id of
        None \<Rightarrow> Some m
      | Some r \<Rightarrow> do {
          b \<leftarrow> bm_deref r m;
          let m1 = bm_store r (Some (bi_MarkAsDeleted b)) m;
          bm_Release r (m1\<lparr>bm_buffer_infos := filter (\<lambda>(c, _). c \<noteq> client_id) (bm_buffer_infos m1)\<rparr>)
        })"

fun clear_infos :: "(u32 \<times> info_ref) list \<Rightarrow> BufferManager \<Rightarrow> BufferManager option" where
  "clear_infos [] m = Some (m\<lparr>bm_buffer_infos := []\<rparr>)"
| "clear_infos ((_, r) # rest) m = do {
     m1 \<leftarrow> bm_Release r (m\<lparr>bm_buffer_infos := rest\<rparr>);
     clear_infos rest m1
   }"

definition bm_Destroy :: "bool \<Rightarrow> BufferManager \<Rightarrow> BufferManager option" where
  "bm_Destroy have_context m =
     map_option UpdateMemRepresented (clear_infos (bm_buffer_infos m) (m\<lparr>bm_have_context := have_context\<rparr>))"

text \<open>\<^verbatim>\<open>GetClientId\<close>: the first entry with the service id, in the order of the table.\<close>

fun find_client :: "u32 \<Rightarrow> (u32 \<times> info_ref) list \<Rightarrow> BufferManager \<Rightarrow> u32 option option" where
  "find_client service_id [] m = Some None"
| "find_client service_id ((c, r) # rest) m = do {
     b \<leftarrow> bm_deref r m;
     if bi_service_id b = service_id then Some (Some c) else find_client service_id rest m
   }"

definition bm_GetClientId :: "u32 \<Rightarrow> BufferManager \<Rightarrow> u32 option option" where
  "bm_GetClientId service_id m = find_client service_id (bm_buffer_infos m) m"

definition bm_SetInfo :: "info_ref \<Rightarrow> int \<Rightarrow> u32 \<Rightarrow> BufferManager \<Rightarrow> BufferManager option" where
  "bm_SetInfo r sz usage m = do {
     b \<leftarrow> bm_deref r m;
     let m1 = m\<lparr>bm_mem_represented := bm_mem_represented m - uint32 (bi_size b)\<rparr>;
     b' \<leftarrow> bi_SetInfo sz usage (bi_target b = GL_ELEMENT_ARRAY_BUFFER \<or> bm_allow_buffers_on_multiple_targets m) b;
     Some ((bm_store r (Some b') m1)\<lparr>bm_mem_represented := bm_mem_represented m1 + uint32 (bi_size b')\<rparr>)
   }"

definition bm_SetTarget :: "info_ref \<Rightarrow> u32 \<Rightarrow> BufferManager \<Rightarrow> (bool \<times> BufferManager) option" where
  "bm_SetTarget r target m = do {
     b \<leftarrow> bm_deref r m;
     if bi_target b \<noteq> 0 \<and> bi_target b \<noteq> target \<and> \<not> bm_allow_buffers_on_multiple_targets m then Some (False, m)
     else if bi_target b = 0 then Some (True, bm_store r (Some (bi_set_target target b)) m)
     else Some (True, m)
   }"

subsection \<open>Accounting\<close>

text \<open>
  \<open>ext r\<close> is the number of references that code outside of the manager holds. The manager never loses
  or leaks an info: a live info is one with an owner, and its reference count is the number of its
  owners. The two counters agree with the heap.
\<close>

definition owners :: "BufferManager \<Rightarrow> (info_ref \<Rightarrow> nat) \<Rightarrow> info_ref \<Rightarrow> nat" where
  "owners m ext r = count_list (map snd (bm_buffer_infos m)) r + ext r"

definition mem_of :: "BufferInfo option \<Rightarrow> u32" where
  "mem_of b = (case b of None \<Rightarrow> 0 | Some b \<Rightarrow> uint32 (bi_size b))"

definition live_of :: "BufferInfo option \<Rightarrow> u32" where
  "live_of b = (case b of None \<Rightarrow> 0 | Some _ \<Rightarrow> 1)"

fun ref_ok :: "BufferInfo option \<Rightarrow> nat \<Rightarrow> bool" where
  "ref_ok None n \<longleftrightarrow> n = 0"
| "ref_ok (Some b) n \<longleftrightarrow> 0 < n \<and> bi_ref_count b = n \<and> info_ok b"

definition heap_ok :: "BufferManager \<Rightarrow> (info_ref \<Rightarrow> nat) \<Rightarrow> bool" where
  "heap_ok m ext \<longleftrightarrow> (\<forall>r. ref_ok (bm_deref r m) (owners m ext r))"

definition bm_inv :: "BufferManager \<Rightarrow> (info_ref \<Rightarrow> nat) \<Rightarrow> bool" where
  "bm_inv m ext \<longleftrightarrow> heap_ok m ext \<and> distinct (map fst (bm_buffer_infos m)) \<and>
     bm_mem_represented m = sum_list (map mem_of (bm_heap m)) \<and>
     bm_buffer_info_count m = sum_list (map live_of (bm_heap m))"

lemma UpdateMem_simps [simp]:
  "bm_buffer_infos (UpdateMemRepresented m) = bm_buffer_infos m" "bm_heap (UpdateMemRepresented m) = bm_heap m"
  "bm_mem_represented (UpdateMemRepresented m) = bm_mem_represented m"
  "bm_buffer_info_count (UpdateMemRepresented m) = bm_buffer_info_count m"
  "bm_gl_deleted (UpdateMemRepresented m) = bm_gl_deleted m" "bm_have_context (UpdateMemRepresented m) = bm_have_context m"
  by (simp_all add: UpdateMemRepresented_def)

lemma bm_derefE:
  assumes "bm_deref r m = Some b"
  obtains "r < length (bm_heap m)" and "bm_heap m ! r = Some b"
  using assms by (auto simp: bm_deref_def split: if_splits)

lemma bm_deref_store:
  "bm_deref r' (bm_store r b m) = (if r' = r \<and> r < length (bm_heap m) then b else bm_deref r' m)"
  by (auto simp: bm_deref_def bm_store_def)

lemma bm_deref_frame [simp]:
  "bm_deref r (m\<lparr>bm_buffer_infos := infos\<rparr>) = bm_deref r m" "bm_deref r (m\<lparr>bm_have_context := c\<rparr>) = bm_deref r m"
  "bm_deref r (m\<lparr>bm_mem_represented := x\<rparr>) = bm_deref r m" "bm_deref r (UpdateMemRepresented m) = bm_deref r m"
  "bm_deref r (m\<lparr>bm_allow_buffers_on_multiple_targets := a\<rparr>) = bm_deref r m"
  by (simp_all add: bm_deref_def)

lemma bm_store_simps [simp]:
  "bm_buffer_infos (bm_store r b m) = bm_buffer_infos m" "bm_mem_represented (bm_store r b m) = bm_mem_represented m"
  "bm_buffer_info_count (bm_store r b m) = bm_buffer_info_count m" "bm_have_context (bm_store r b m) = bm_have_context m"
  "bm_heap (bm_store r b m) = (bm_heap m)[r := b]" "bm_gl_deleted (bm_store r b m) = bm_gl_deleted m"
  "bm_allow_buffers_on_multiple_targets (bm_store r b m) = bm_allow_buffers_on_multiple_targets m"
  by (simp_all add: bm_store_def)

lemma new_BufferManager_inv: "bm_inv new_BufferManager (\<lambda>_. 0)"
  by (simp add: bm_inv_def heap_ok_def new_BufferManager_def bm_deref_def owners_def)

text \<open>Replacing a live info by one with the same size, or with the counters adapted.\<close>

lemma bm_inv_heap_ok: "bm_inv m ext \<Longrightarrow> heap_ok m ext"
  by (simp add: bm_inv_def)

lemma heap_okD:
  assumes "heap_ok m ext" and "bm_deref r m = Some b"
  shows "0 < owners m ext r" and "bi_ref_count b = owners m ext r" and "info_ok b"
  using spec [OF assms(1) [unfolded heap_ok_def], of r] assms(2) by simp_all

lemma heap_ok_live: "heap_ok m ext \<Longrightarrow> 0 < owners m ext r \<Longrightarrow> \<exists>b. bm_deref r m = Some b"
  unfolding heap_ok_def by (cases "bm_deref r m") (auto dest: spec [of _ r])

lemma heap_ok_upd:
  assumes "heap_ok m ext" and "\<And>r'. r' \<noteq> r \<Longrightarrow> bm_deref r' m' = bm_deref r' m"
    "\<And>r'. r' \<noteq> r \<Longrightarrow> owners m' ext' r' = owners m ext r'" and "ref_ok (bm_deref r m') (owners m' ext' r)"
  shows "heap_ok m' ext'"
  using assms unfolding heap_ok_def by metis

text \<open>
  Releasing one of the owners. \<open>m\<close> is the state in which the owner is already gone from the table or
  from \<open>ext\<close>, so that the count of the info is one too high.
\<close>

definition almost_ok :: "info_ref \<Rightarrow> BufferManager \<Rightarrow> (info_ref \<Rightarrow> nat) \<Rightarrow> bool" where
  "almost_ok r m ext \<longleftrightarrow> bm_inv m (ext(r := Suc (ext r)))"

lemma Release_inv:
  assumes a: "almost_ok r m ext"
  shows "\<exists>m'. bm_Release r m = Some m' \<and> bm_inv m' ext \<and> bm_buffer_infos m' = bm_buffer_infos m \<and>
    bm_have_context m' = bm_have_context m \<and> length (bm_heap m') = length (bm_heap m) \<and>
    (\<forall>r'. r' \<noteq> r \<longrightarrow> bm_deref r' m' = bm_deref r' m) \<and> (bm_deref r m' = None \<longleftrightarrow> owners m ext r = 0) \<and>
    (\<forall>b b'. bm_deref r m = Some b \<longrightarrow> bm_deref r m' = Some b' \<longrightarrow> b' = b\<lparr>bi_ref_count := bi_ref_count b - 1\<rparr>)"
proof -
  let ?ext = "ext(r := Suc (ext r))"
  have h: "heap_ok m ?ext" and d: "distinct (map fst (bm_buffer_infos m))"
    and mem: "bm_mem_represented m = sum_list (map mem_of (bm_heap m))"
    and cnt: "bm_buffer_info_count m = sum_list (map live_of (bm_heap m))"
    using a by (simp_all add: almost_ok_def bm_inv_def)
  have o: "owners m ?ext r = Suc (owners m ext r)" "\<And>r'. r' \<noteq> r \<Longrightarrow> owners m ?ext r' = owners m ext r'"
    by (simp_all add: owners_def)
  obtain b where b: "bm_deref r m = Some b" using heap_ok_live [OF h, of r] o(1) by auto
  from b have r: "r < length (bm_heap m)" "bm_heap m ! r = Some b" by (elim bm_derefE; simp)+
  note hb = heap_okD [OF h b]
  show ?thesis
  proof (cases "bi_ref_count b = 1")
    case True
    let ?m = "bm_store r None (destroy_BufferInfo b m)"
    have inf: "bm_buffer_infos ?m = bm_buffer_infos m" "bm_heap ?m = (bm_heap m)[r := None]"
      "bm_have_context ?m = bm_have_context m"
      "bm_mem_represented ?m = bm_mem_represented m - uint32 (bi_size b)" "bm_buffer_info_count ?m = bm_buffer_info_count m - 1"
      by (simp_all add: destroy_BufferInfo_def StopTracking_def)
    have own: "owners ?m ext r' = owners m ext r'" for r' by (simp only: owners_def inf)
    have der: "bm_deref r' ?m = (if r' = r then None else bm_deref r' m)" for r'
      unfolding bm_deref_def inf using r(1) by auto
    have z: "owners m ext r = 0" using hb(2) True o(1) by simp
    have "heap_ok ?m ext" by (rule heap_ok_upd [OF h, of r]) (unfold der own, simp_all add: o z)
    then have "bm_inv ?m ext"
      unfolding bm_inv_def inf using d mem cnt r by (simp add: sum_list_map_update mem_of_def live_of_def)
    moreover have "bm_Release r m = Some ?m" using b True by (simp add: bm_Release_def)
    ultimately show ?thesis using inf der z by (intro exI [of _ ?m]) simp
  next
    case False
    let ?b = "b\<lparr>bi_ref_count := bi_ref_count b - 1\<rparr>"
    let ?m = "bm_store r (Some ?b) m"
    have own: "owners ?m ext r' = owners m ext r'" for r' by (simp add: owners_def)
    have der: "bm_deref r' ?m = (if r' = r then Some ?b else bm_deref r' m)" for r'
      using r(1) by (simp add: bm_deref_store)
    have nz: "0 < owners m ext r" using hb(2) False o(1) by simp
    have "heap_ok ?m ext" by (rule heap_ok_upd [OF h, of r]) (unfold der own, simp_all add: o nz hb)
    then have "bm_inv ?m ext"
      unfolding bm_inv_def using d mem cnt r by (simp add: sum_list_map_update mem_of_def live_of_def)
    moreover have "bm_Release r m = Some ?m" using b False by (simp add: bm_Release_def)
    ultimately show ?thesis using b der nz by (intro exI [of _ ?m]) simp
  qed
qed

subsection \<open>Every operation keeps the accounting\<close>

lemma bm_inv_store:
  assumes inv: "bm_inv m ext" and b: "bm_deref r m = Some b" and b': "bi_ref_count b' = bi_ref_count b" "info_ok b'"
  shows "bm_inv ((bm_store r (Some b') m)\<lparr>bm_mem_represented := bm_mem_represented m - uint32 (bi_size b) + uint32 (bi_size b')\<rparr>) ext"
proof -
  let ?m = "(bm_store r (Some b') m)\<lparr>bm_mem_represented := bm_mem_represented m - uint32 (bi_size b) + uint32 (bi_size b')\<rparr>"
  from b have r: "r < length (bm_heap m)" "bm_heap m ! r = Some b" by (elim bm_derefE; simp)+
  have own: "owners ?m ext r' = owners m ext r'" for r' by (simp add: owners_def)
  have der: "bm_deref r' ?m = (if r' = r then Some b' else bm_deref r' m)" for r'
    using r(1) by (auto simp: bm_deref_def)
  have h: "heap_ok m ext" by (rule bm_inv_heap_ok [OF inv])
  note hb = heap_okD [OF h b]
  have "heap_ok ?m ext" by (rule heap_ok_upd [OF h, of r]) (unfold der own, simp_all add: hb b')
  then show ?thesis
    using inv r by (simp add: bm_inv_def sum_list_map_update mem_of_def live_of_def)
qed

lemma bm_inv_store_same:
  assumes "bm_inv m ext" and "bm_deref r m = Some b" and "bi_ref_count b' = bi_ref_count b" "info_ok b'" "bi_size b' = bi_size b"
  shows "bm_inv (bm_store r (Some b') m) ext"
proof -
  have "(bm_store r (Some b') m)\<lparr>bm_mem_represented := bm_mem_represented m - uint32 (bi_size b) + uint32 (bi_size b')\<rparr> =
      bm_store r (Some b') m" using assms(5) by (simp add: bm_store_def)
  with bm_inv_store [OF assms(1-4)] show ?thesis by simp
qed

lemma AddRef_inv:
  assumes inv: "bm_inv m ext" and b: "bm_deref r m = Some b"
  shows "\<exists>m'. bm_AddRef r m = Some m' \<and> bm_inv m' (ext(r := Suc (ext r))) \<and> bm_buffer_infos m' = bm_buffer_infos m \<and>
    length (bm_heap m') = length (bm_heap m) \<and> bm_have_context m' = bm_have_context m \<and>
    (\<forall>r'. bm_deref r' m' = (if r' = r then Some (b\<lparr>bi_ref_count := Suc (bi_ref_count b)\<rparr>) else bm_deref r' m))"
proof -
  let ?ext = "ext(r := Suc (ext r))" and ?b = "b\<lparr>bi_ref_count := Suc (bi_ref_count b)\<rparr>"
  let ?m = "bm_store r (Some ?b) m"
  from b have r: "r < length (bm_heap m)" "bm_heap m ! r = Some b" by (elim bm_derefE; simp)+
  have own: "owners ?m ?ext r' = (if r' = r then Suc (owners m ext r') else owners m ext r')" for r' by (simp add: owners_def)
  have der: "bm_deref r' ?m = (if r' = r then Some ?b else bm_deref r' m)" for r'
    using r(1) by (simp add: bm_deref_store)
  have h: "heap_ok m ext" by (rule bm_inv_heap_ok [OF inv])
  note hb = heap_okD [OF h b]
  have "heap_ok ?m ?ext" by (rule heap_ok_upd [OF h, of r]) (unfold der own, simp_all add: hb)
  then have "bm_inv ?m ?ext"
    using inv r by (simp add: bm_inv_def sum_list_map_update mem_of_def live_of_def)
  moreover have "bm_AddRef r m = Some ?m" using b by (simp add: bm_AddRef_def)
  ultimately show ?thesis using der by (intro exI [of _ ?m]) simp
qed

lemma make_BufferInfo_inv:
  assumes inv: "bm_inv m ext" and f: "make_BufferInfo service_id m = (r, m')"
  shows "bm_inv m' (ext(r := Suc (ext r))) \<and> r = length (bm_heap m) \<and> bm_buffer_infos m' = bm_buffer_infos m \<and> ext r = 0 \<and>
    r \<notin> snd ` set (bm_buffer_infos m) \<and> length (bm_heap m') = Suc r \<and> bm_have_context m' = bm_have_context m \<and>
    (\<forall>r'. bm_deref r' m' = (if r' = r then Some ((new_BufferInfo service_id)\<lparr>bi_ref_count := 1\<rparr>) else bm_deref r' m))"
proof -
  let ?b = "(new_BufferInfo service_id)\<lparr>bi_ref_count := 1\<rparr>" and ?ext = "ext(r := Suc (ext r))"
  have r: "r = length (bm_heap m)" and m': "m' = StartTracking (m\<lparr>bm_heap := bm_heap m @ [Some ?b]\<rparr>)"
    using f by (simp_all add: make_BufferInfo_def)
  have h: "heap_ok m ext" by (rule bm_inv_heap_ok [OF inv])
  have "bm_deref r m = None" by (simp add: bm_deref_def r)
  with spec [OF h [unfolded heap_ok_def], of r] have o: "owners m ext r = 0" by simp
  then have e: "ext r = 0" "r \<notin> snd ` set (bm_buffer_infos m)" by (auto simp: owners_def count_list_0_iff)
  have der: "bm_deref r' m' = (if r' = r then Some ?b else bm_deref r' m)" for r'
    by (auto simp: bm_deref_def m' StartTracking_def r nth_append)
  have own: "owners m' ?ext r' = (if r' = r then 1 else owners m ext r')" for r'
    using o by (simp add: owners_def m' StartTracking_def)
  have "heap_ok m' ?ext" by (rule heap_ok_upd [OF h, of r]) (unfold der own, simp_all add: info_ok_new)
  moreover have "bi_size ?b = 0" by (simp add: new_BufferInfo_def)
  ultimately have "bm_inv m' ?ext"
    using inv by (simp add: bm_inv_def m' StartTracking_def mem_of_def live_of_def uint32_def)
  with r e der m' show ?thesis by (simp add: StartTracking_def)
qed

text \<open>Moving a reference between the table and the outside.\<close>

lemma bm_inv_owners_cong:
  assumes "bm_inv m ext" and "\<And>r. owners (m\<lparr>bm_buffer_infos := infos\<rparr>) ext' r = owners m ext r" and "distinct (map fst infos)"
  shows "bm_inv (m\<lparr>bm_buffer_infos := infos\<rparr>) ext'"
  using assms unfolding bm_inv_def heap_ok_def by simp

lemma CreateBufferInfo_inv:
  assumes inv: "bm_inv m ext"
  shows "\<exists>m'. CreateBufferInfo client_id service_id m = Some m' \<and> bm_inv m' ext \<and>
    (if GetBufferInfo client_id m = None
     then \<exists>b. bm_buffer_infos m' = (client_id, length (bm_heap m)) # bm_buffer_infos m \<and>
       bm_deref (length (bm_heap m)) m' = Some b \<and> bi_service_id b = service_id \<and> \<not> bi_deleted b \<and> bi_size b = 0
     else bm_buffer_infos m' = bm_buffer_infos m)"
proof -
  obtain r m1 where f: "make_BufferInfo service_id m = (r, m1)" by fastforce
  note i1 = make_BufferInfo_inv [OF inv f]
  let ?ext = "ext(r := Suc (ext r))"
  have inv1: "bm_inv m1 ?ext" and d1: "bm_deref r m1 = Some ((new_BufferInfo service_id)\<lparr>bi_ref_count := 1\<rparr>)"
    using i1 by blast (use i1 in simp)
  show ?thesis
  proof (cases "GetBufferInfo client_id m = None")
    case False
    from Release_inv [of r m1 ext] inv1 obtain m' where "bm_Release r m1 = Some m'" "bm_inv m' ext"
      "bm_buffer_infos m' = bm_buffer_infos m1" by (auto simp: almost_ok_def)
    with False f i1 show ?thesis by (auto simp: CreateBufferInfo_def GetBufferInfo_def)
  next
    case True
    from AddRef_inv [OF inv1 d1] obtain m2 where a: "bm_AddRef r m1 = Some m2" "bm_inv m2 (?ext(r := Suc (?ext r)))"
      "bm_buffer_infos m2 = bm_buffer_infos m1"
      "bm_deref r m2 = Some ((new_BufferInfo service_id)\<lparr>bi_ref_count := Suc 1\<rparr>)" by auto
    let ?m3 = "m2\<lparr>bm_buffer_infos := (client_id, r) # bm_buffer_infos m2\<rparr>"
    have "client_id \<notin> fst ` set (bm_buffer_infos m2)"
      using True a(3) i1 by (auto simp: GetBufferInfo_def map_of_eq_None_iff)
    then have "bm_inv ?m3 ?ext"
      using a(2) by (intro bm_inv_owners_cong [OF a(2)]) (auto simp: owners_def bm_inv_def)
    then have al: "almost_ok r ?m3 ext" by (simp add: almost_ok_def)
    have d3: "bm_deref r ?m3 = Some ((new_BufferInfo service_id)\<lparr>bi_ref_count := 2\<rparr>)" using a(4) by (simp add: numeral_2_eq_2)
    have "owners ?m3 ext r \<noteq> 0" by (simp add: owners_def)
    with Release_inv [OF al] d3 obtain m' where m': "bm_Release r ?m3 = Some m'" "bm_inv m' ext"
      "bm_buffer_infos m' = bm_buffer_infos ?m3" "bm_deref r m' = Some ((new_BufferInfo service_id)\<lparr>bi_ref_count := 1\<rparr>)"
      by (auto simp del: split_paired_All)
    with True f i1 a(1,3) show ?thesis
      by (simp add: CreateBufferInfo_def GetBufferInfo_def new_BufferInfo_def)
  qed
qed

lemma RemoveBufferInfo_inv:
  assumes inv: "bm_inv m ext"
  shows "\<exists>m'. RemoveBufferInfo client_id m = Some m' \<and> bm_inv m' ext \<and>
    bm_buffer_infos m' = filter (\<lambda>(c, _). c \<noteq> client_id) (bm_buffer_infos m) \<and>
    (\<forall>r b. GetBufferInfo client_id m = Some r \<longrightarrow> bm_deref r m' = Some b \<longrightarrow> bi_deleted b)"
proof (cases "map_of (bm_buffer_infos m) client_id")
  case None
  then have "\<forall>x \<in> set (bm_buffer_infos m). (\<lambda>(c, _). c \<noteq> client_id) x" by (auto simp: map_of_eq_None_iff rev_image_eqI)
  then have "filter (\<lambda>(c, _). c \<noteq> client_id) (bm_buffer_infos m) = bm_buffer_infos m" by (rule filter_True)
  with None inv show ?thesis by (simp add: RemoveBufferInfo_def GetBufferInfo_def)
next
  case (Some r)
  let ?infos = "filter (\<lambda>(c, _). c \<noteq> client_id) (bm_buffer_infos m)"
  have d: "distinct (map fst (bm_buffer_infos m))" using inv by (simp add: bm_inv_def)
  have cnt: "owners m ext r' = count_list (map snd ?infos) r' + (if r' = r then 1 else 0) + ext r'" for r'
    using count_list_filter_fst [OF d Some, of r'] by (simp add: owners_def)
  then obtain b where b: "bm_deref r m = Some b" using heap_ok_live [OF bm_inv_heap_ok [OF inv], of r] by auto
  let ?m1 = "bm_store r (Some (bi_MarkAsDeleted b)) m"
  have i1: "bm_inv ?m1 ext"
    using heap_okD(3) [OF bm_inv_heap_ok [OF inv] b] by (intro bm_inv_store_same [OF inv b]) (simp_all add: bi_MarkAsDeleted_def)
  have "distinct (map fst ?infos)" using d by (simp add: distinct_map_filter)
  moreover have "owners (?m1\<lparr>bm_buffer_infos := ?infos\<rparr>) (ext(r := Suc (ext r))) r' = owners ?m1 ext r'" for r'
    using cnt [of r'] by (simp add: owners_def)
  ultimately have al: "almost_ok r (?m1\<lparr>bm_buffer_infos := ?infos\<rparr>) ext"
    unfolding almost_ok_def by (intro bm_inv_owners_cong [OF i1])
  have r: "r < length (bm_heap m)" using b by (elim bm_derefE)
  have d1: "bm_deref r (?m1\<lparr>bm_buffer_infos := ?infos\<rparr>) = Some (bi_MarkAsDeleted b)"
    using r by (simp add: bm_deref_store)
  from Release_inv [OF al] d1 obtain m' where m': "bm_Release r (?m1\<lparr>bm_buffer_infos := ?infos\<rparr>) = Some m'" "bm_inv m' ext"
    "bm_buffer_infos m' = ?infos" "\<forall>b'. bm_deref r m' = Some b' \<longrightarrow> bi_deleted b'"
    by (auto simp: bi_MarkAsDeleted_def)
  have "RemoveBufferInfo client_id m = Some m'" using Some b m'(1) by (simp add: RemoveBufferInfo_def Let_def)
  with m' Some show ?thesis by (simp add: GetBufferInfo_def)
qed

lemma clear_infos_inv:
  "bm_inv m ext \<Longrightarrow> bm_buffer_infos m = infos \<Longrightarrow> \<exists>m'. clear_infos infos m = Some m' \<and> bm_inv m' ext \<and> bm_buffer_infos m' = []"
proof (induction infos arbitrary: m)
  case Nil
  then have "bm_inv (m\<lparr>bm_buffer_infos := []\<rparr>) ext" by (intro bm_inv_owners_cong) (auto simp: owners_def)
  then show ?case by simp
next
  case (Cons x infos)
  obtain c r where x: "x = (c, r)" by fastforce
  have "almost_ok r (m\<lparr>bm_buffer_infos := infos\<rparr>) ext"
    unfolding almost_ok_def using Cons.prems x
    by (intro bm_inv_owners_cong [OF Cons.prems(1)]) (auto simp: owners_def bm_inv_def)
  from Release_inv [OF this] obtain m1 where "bm_Release r (m\<lparr>bm_buffer_infos := infos\<rparr>) = Some m1" "bm_inv m1 ext"
    "bm_buffer_infos m1 = infos" by auto
  with Cons.IH [of m1] x show ?case by simp
qed

text \<open>When nobody else holds a reference, destroying the manager frees every info.\<close>

lemma Destroy_inv:
  assumes inv: "bm_inv m ext"
  shows "\<exists>m'. bm_Destroy have_context m = Some m' \<and> bm_inv m' ext \<and> bm_buffer_infos m' = [] \<and>
    ((\<forall>r. ext r = 0) \<longrightarrow> (\<forall>r. bm_deref r m' = None) \<and> bm_mem_represented m' = 0 \<and> bm_buffer_info_count m' = 0)"
proof -
  have "bm_inv (m\<lparr>bm_have_context := have_context\<rparr>) ext"
    using inv by (simp add: bm_inv_def heap_ok_def owners_def)
  from clear_infos_inv [OF this] obtain m1 where m1: "clear_infos (bm_buffer_infos m) (m\<lparr>bm_have_context := have_context\<rparr>) = Some m1"
    "bm_inv m1 ext" "bm_buffer_infos m1 = []" by auto
  let ?m = "UpdateMemRepresented m1"
  have i: "bm_inv ?m ext" "bm_buffer_infos ?m = []" using m1(2,3) by (simp_all add: bm_inv_def heap_ok_def owners_def)
  have "bm_deref r ?m = None" if "\<forall>r. ext r = 0" for r
    using that i heap_okD(1) [OF bm_inv_heap_ok [OF i(1)], of r] by (cases "bm_deref r ?m") (auto simp: owners_def)
  moreover have "bm_heap ?m = replicate (length (bm_heap ?m)) None" if "\<forall>r. bm_deref r ?m = None"
    using that by (intro nth_equalityI) (auto simp: bm_deref_def split: if_splits)
  then have "bm_mem_represented ?m = 0 \<and> bm_buffer_info_count ?m = 0" if "\<forall>r. bm_deref r ?m = None"
    using that i(1) unfolding bm_inv_def by (metis (no_types, lifting) live_of_def map_replicate mem_of_def option.simps(4) sum_list_replicate mult_zero_right)
  ultimately show ?thesis using m1(1) i by (intro exI [of _ ?m]) (auto simp: bm_Destroy_def)
qed

lemma SetInfo_inv:
  assumes inv: "bm_inv m ext" and b: "bm_deref r m = Some b" and sz: "0 \<le> sz" "sz < 2147483648"
  shows "\<exists>m' b'. bm_SetInfo r sz usage m = Some m' \<and> bm_inv m' ext \<and> bm_deref r m' = Some b' \<and> bi_size b' = sz \<and>
    (bi_shadowed b' \<longleftrightarrow> bi_target b = GL_ELEMENT_ARRAY_BUFFER \<or> bm_allow_buffers_on_multiple_targets m)"
proof -
  let ?s = "bi_target b = GL_ELEMENT_ARRAY_BUFFER \<or> bm_allow_buffers_on_multiple_targets m"
  have "info_ok b" by (rule heap_okD(3) [OF bm_inv_heap_ok [OF inv] b])
  from bi_SetInfo_ok [OF this sz, of usage ?s] obtain b' where b': "bi_SetInfo sz usage ?s b = Some b'" "info_ok b'"
    "bi_size b' = sz" "bi_shadowed b' = ?s" "bi_ref_count b' = bi_ref_count b" by blast
  let ?m = "(bm_store r (Some b') m)\<lparr>bm_mem_represented := bm_mem_represented m - uint32 (bi_size b) + uint32 (bi_size b')\<rparr>"
  have "bm_SetInfo r sz usage m = Some ?m" using b b'(1) by (simp add: bm_SetInfo_def bm_store_def)
  moreover have "bm_inv ?m ext" by (rule bm_inv_store [OF inv b b'(5,2)])
  moreover have "bm_deref r ?m = Some b'" using b by (elim bm_derefE) (simp add: bm_deref_store)
  ultimately show ?thesis using b'(3,4) by blast
qed

text \<open>A target, once set, stays unless buffers may be bound to several targets.\<close>

lemma SetTarget_inv:
  assumes inv: "bm_inv m ext" and b: "bm_deref r m = Some b"
  shows "\<exists>ok m' b'. bm_SetTarget r target m = Some (ok, m') \<and> bm_inv m' ext \<and> bm_deref r m' = Some b' \<and>
    (bi_target b \<noteq> 0 \<longrightarrow> bi_target b' = bi_target b) \<and>
    (ok \<longleftrightarrow> bi_target b = 0 \<or> bi_target b = target \<or> bm_allow_buffers_on_multiple_targets m) \<and>
    (ok \<and> \<not> bm_allow_buffers_on_multiple_targets m \<longrightarrow> bi_target b' = target)"
proof -
  let ?m = "bm_store r (Some (bi_set_target target b)) m"
  have "info_ok b" by (rule heap_okD(3) [OF bm_inv_heap_ok [OF inv] b])
  then have i: "bm_inv ?m ext" by (intro bm_inv_store_same [OF inv b]) (simp_all add: bi_set_target_def)
  have d: "bm_deref r ?m = Some (bi_set_target target b)" using b by (elim bm_derefE) (simp add: bm_deref_store)
  show ?thesis
  proof (cases "bi_target b = 0")
    case True
    then have "bm_SetTarget r target m = Some (True, ?m)" using b by (simp add: bm_SetTarget_def)
    with True i d show ?thesis by (intro exI [of _ True] exI [of _ ?m]) (simp add: bi_set_target_def)
  next
    case False
    with inv b show ?thesis by (auto simp: bm_SetTarget_def)
  qed
qed

subsection \<open>Reachable managers\<close>

text \<open>
  Any order of the calls of the decoders that share a manager, with the arguments their checks let
  through: a size is not negative, and a reference that is given up was held.
\<close>

inductive bm_reach :: "BufferManager \<Rightarrow> (info_ref \<Rightarrow> nat) \<Rightarrow> bool" where
  init: "bm_reach new_BufferManager (\<lambda>_. 0)"
| create: "bm_reach m ext \<Longrightarrow> CreateBufferInfo client_id service_id m = Some m' \<Longrightarrow> bm_reach m' ext"
| remove: "bm_reach m ext \<Longrightarrow> RemoveBufferInfo client_id m = Some m' \<Longrightarrow> bm_reach m' ext"
| add_ref: "bm_reach m ext \<Longrightarrow> bm_AddRef r m = Some m' \<Longrightarrow> bm_reach m' (ext(r := Suc (ext r)))"
| release: "bm_reach m ext \<Longrightarrow> 0 < ext r \<Longrightarrow> bm_Release r m = Some m' \<Longrightarrow> bm_reach m' (ext(r := ext r - 1))"
| set_info: "bm_reach m ext \<Longrightarrow> 0 \<le> sz \<Longrightarrow> sz < 2147483648 \<Longrightarrow> bm_SetInfo r sz usage m = Some m' \<Longrightarrow> bm_reach m' ext"
| set_target: "bm_reach m ext \<Longrightarrow> bm_SetTarget r target m = Some (ok, m') \<Longrightarrow> bm_reach m' ext"
| set_range: "bm_reach m ext \<Longrightarrow> bm_deref r m = Some b \<Longrightarrow> - 2147483648 \<le> offset \<Longrightarrow> offset < 2147483648 \<Longrightarrow>
    - 2147483648 \<le> sz \<Longrightarrow> sz < 2147483648 \<Longrightarrow> sz \<le> int (length data) \<Longrightarrow>
    bi_SetRange offset sz data b = Some (ok, b') \<Longrightarrow> bm_reach (bm_store r (Some b') m) ext"
| max_value: "bm_reach m ext \<Longrightarrow> bm_deref r m = Some b \<Longrightarrow> - 2147483648 \<le> count \<Longrightarrow> count < 2147483648 \<Longrightarrow>
    type \<in> {GL_UNSIGNED_BYTE, GL_UNSIGNED_SHORT, GL_UNSIGNED_INT} \<Longrightarrow>
    GetMaxValueForRange start count type b = Some (v, b') \<Longrightarrow> bm_reach (bm_store r (Some b') m) ext"
| allow: "bm_reach m ext \<Longrightarrow> bm_reach (m\<lparr>bm_allow_buffers_on_multiple_targets := allow\<rparr>) ext"
| destroy: "bm_reach m ext \<Longrightarrow> bm_Destroy have_context m = Some m' \<Longrightarrow> bm_reach m' ext"

lemma bi_SetRange_keeps:
  "bi_SetRange offset sz data b = Some (ok, b') \<Longrightarrow> bi_ref_count b' = bi_ref_count b \<and> bi_size b' = bi_size b"
  by (auto simp: bi_SetRange_def ClearCache_def split: if_splits)

lemma GetMaxValueForRange_keeps:
  "GetMaxValueForRange offset count type b = Some (v, b') \<Longrightarrow> bi_ref_count b' = bi_ref_count b \<and> bi_size b' = bi_size b"
  by (auto simp: GetMaxValueForRange_def Let_def split: if_splits option.splits prod.splits)

lemma bm_deref_SomeI: "bm_AddRef r m = Some m' \<Longrightarrow> \<exists>b. bm_deref r m = Some b"
  by (auto simp: bm_AddRef_def split: Option.bind_splits)

lemma bm_SetInfo_deref: "bm_SetInfo r sz usage m = Some m' \<Longrightarrow> \<exists>b. bm_deref r m = Some b"
  by (auto simp: bm_SetInfo_def split: Option.bind_splits)

lemma bm_SetTarget_deref: "bm_SetTarget r target m = Some (ok, m') \<Longrightarrow> \<exists>b. bm_deref r m = Some b"
  by (auto simp: bm_SetTarget_def split: Option.bind_splits)

lemma bm_reach_inv: "bm_reach m ext \<Longrightarrow> bm_inv m ext"
proof (induction rule: bm_reach.induct)
  case init
  show ?case by (rule new_BufferManager_inv)
next
  case (create m ext client_id service_id m')
  from CreateBufferInfo_inv [OF create.IH, of client_id service_id] create.hyps(2) show ?case by auto
next
  case (remove m ext client_id m')
  from RemoveBufferInfo_inv [OF remove.IH, of client_id] remove.hyps(2) show ?case by auto
next
  case (add_ref m ext r m')
  from bm_deref_SomeI [OF add_ref.hyps(2)] obtain b where "bm_deref r m = Some b" ..
  from AddRef_inv [OF add_ref.IH this] add_ref.hyps(2) show ?case by (auto simp: fun_upd_def)
next
  case (release m ext r m')
  have "(ext(r := ext r - 1))(r := Suc ((ext(r := ext r - 1)) r)) = ext" using release.hyps(2) by (auto simp: fun_eq_iff)
  with release.IH have "almost_ok r m (ext(r := ext r - 1))" by (simp add: almost_ok_def)
  from Release_inv [OF this] release.hyps(3) show ?case by (auto simp: fun_upd_def)
next
  case (set_info m ext sz r usage m')
  from bm_SetInfo_deref [OF set_info.hyps(4)] obtain b where "bm_deref r m = Some b" ..
  from SetInfo_inv [OF set_info.IH this set_info.hyps(2,3), of usage] set_info.hyps(4) show ?case by auto
next
  case (set_target m ext r target ok m')
  from bm_SetTarget_deref [OF set_target.hyps(2)] obtain b where "bm_deref r m = Some b" ..
  from SetTarget_inv [OF set_target.IH this, of target] set_target.hyps(2) show ?case by auto
next
  case (set_range m ext r b offset sz data ok b')
  have i: "info_ok b" by (rule heap_okD(3) [OF bm_inv_heap_ok [OF set_range.IH] set_range.hyps(2)])
  have "info_ok b'"
    using bi_SetRange_ok [OF i set_range.hyps(3-7)] set_range.hyps(8) i by (auto split: if_splits)
  with bi_SetRange_keeps [OF set_range.hyps(8)] show ?case
    by (intro bm_inv_store_same [OF set_range.IH set_range.hyps(2)]) simp_all
next
  case (max_value m ext r b count type start v b')
  have i: "info_ok b" by (rule heap_okD(3) [OF bm_inv_heap_ok [OF max_value.IH] max_value.hyps(2)])
  have "info_ok b'" using GetMaxValueForRange_ok [OF i max_value.hyps(3-5), of start] max_value.hyps(6) by auto
  with GetMaxValueForRange_keeps [OF max_value.hyps(6)] show ?case
    by (intro bm_inv_store_same [OF max_value.IH max_value.hyps(2)]) simp_all
next
  case (allow m ext allow)
  then show ?case by (simp add: bm_inv_def heap_ok_def owners_def)
next
  case (destroy m ext have_context m')
  from Destroy_inv [OF destroy.IH, of have_context] destroy.hyps(2) show ?case by auto
qed

end
