(* ===== verification/Vertex_Attrib_Manager.thy ===== *)
theory Vertex_Attrib_Manager
  imports Buffer_Manager
begin

text \<open>
  \<^verbatim>\<open>VertexAttribManager\<close> of \<^verbatim>\<open>gpu/command_buffer/service/vertex_attrib_manager.h\<close> and \<^verbatim>\<open>vertex_attrib_manager.cc\<close>: what
  is bound to each vertex attribute, so that a draw call that reads past the end of a buffer can be
  refused. The attributes are an array; a pointer to one is its index, and the two \<^verbatim>\<open>std::list\<close>s of
  pointers are lists of indices. \<^verbatim>\<open>BufferInfo::Ref buffer_\<close> is a counted reference into the
  \<^typ>\<open>BufferManager\<close>, which the operations therefore also change. The floats of the current value are
  their bit patterns.
\<close>

subsection \<open>Counted references\<close>

text \<open>Assignment to a \<^verbatim>\<open>scoped_refptr\<close>: the new info is referenced before the old one is released.\<close>

definition assign_ref :: "info_ref option \<Rightarrow> info_ref option \<Rightarrow> BufferManager \<Rightarrow> BufferManager option" where
  "assign_ref old new m = do {
     m1 \<leftarrow> (case new of None \<Rightarrow> Some m | Some r \<Rightarrow> bm_AddRef r m);
     (case old of None \<Rightarrow> Some m1 | Some r \<Rightarrow> bm_Release r m1)
   }"

subsection \<open>One attribute\<close>

datatype attrib_list = Enabled_list | Disabled_list

record VertexAttribInfo =
  va_index :: u32
  va_enabled :: bool
  va_size :: int
  va_type :: u32
  va_offset :: int
  va_normalized :: bool
  va_gl_stride :: int
  va_real_stride :: int
  va_value :: "u32 list"
  va_buffer :: "info_ref option"
  va_list :: "attrib_list option"

definition new_VertexAttribInfo :: VertexAttribInfo where
  "new_VertexAttribInfo =
     \<lparr>va_index = 0, va_enabled = False, va_size = 4, va_type = GL_FLOAT, va_offset = 0, va_normalized = False,
      va_gl_stride = 0, va_real_stride = 16, va_value = [0, 0, 0, 0x3F800000], va_buffer = None, va_list = None\<rparr>"

definition va_elem_size :: "VertexAttribInfo \<Rightarrow> u32" where
  "va_elem_size v = GetGLTypeSizeForTexturesAndBuffers (va_type v) * uint32 (va_size v)"

definition CanAccess :: "u32 \<Rightarrow> VertexAttribInfo \<Rightarrow> BufferManager \<Rightarrow> bool option" where
  "CanAccess index v m =
     (if \<not> va_enabled v then Some True
      else case va_buffer v of
        None \<Rightarrow> Some False
      | Some r \<Rightarrow> do {
          b \<leftarrow> bm_deref r m;
          if bi_IsDeleted b then Some False
          else let buffer_size = bi_size b in
          if va_offset v > buffer_size \<or> va_real_stride v = 0 then Some False
          else let usable_size = uint32 (buffer_size - va_offset v);
                   num_elements = usable_size div uint32 (va_real_stride v) +
                     (if usable_size mod uint32 (va_real_stride v) \<ge> va_elem_size v then 1 else 0)
               in Some (index < num_elements)
        })"

definition va_SetInfo ::
  "info_ref option \<Rightarrow> int \<Rightarrow> u32 \<Rightarrow> bool \<Rightarrow> int \<Rightarrow> int \<Rightarrow> int \<Rightarrow> VertexAttribInfo \<Rightarrow> BufferManager \<Rightarrow>
   (VertexAttribInfo \<times> BufferManager) option" where
  "va_SetInfo buffer sz type normalized gl_stride real_stride offset v m = do {
     m1 \<leftarrow> assign_ref (va_buffer v) buffer m;
     Some (v\<lparr>va_buffer := buffer, va_size := sz, va_type := type, va_normalized := normalized,
             va_gl_stride := gl_stride, va_real_stride := real_stride, va_offset := offset\<rparr>, m1)
   }"

definition va_Unbind :: "info_ref \<Rightarrow> VertexAttribInfo \<Rightarrow> BufferManager \<Rightarrow> (VertexAttribInfo \<times> BufferManager) option" where
  "va_Unbind buffer v m =
     (if va_buffer v = Some buffer
      then do { m1 \<leftarrow> assign_ref (va_buffer v) None m; Some (v\<lparr>va_buffer := None\<rparr>, m1) }
      else Some (v, m))"

subsection \<open>The manager\<close>

record VertexAttribManager =
  vm_max_vertex_attribs :: u32
  vm_num_fixed_attribs :: int
  vm_vertex_attrib_infos :: "VertexAttribInfo list"
  vm_enabled_vertex_attribs :: "nat list"
  vm_disabled_vertex_attribs :: "nat list"

definition new_VertexAttribManager :: VertexAttribManager where
  "new_VertexAttribManager =
     \<lparr>vm_max_vertex_attribs = 0, vm_num_fixed_attribs = 0, vm_vertex_attrib_infos = [],
      vm_enabled_vertex_attribs = [], vm_disabled_vertex_attribs = []\<rparr>"

fun on_list :: "attrib_list \<Rightarrow> (nat list \<Rightarrow> nat list) \<Rightarrow> VertexAttribManager \<Rightarrow> VertexAttribManager" where
  "on_list Enabled_list f vm = vm\<lparr>vm_enabled_vertex_attribs := f (vm_enabled_vertex_attribs vm)\<rparr>"
| "on_list Disabled_list f vm = vm\<lparr>vm_disabled_vertex_attribs := f (vm_disabled_vertex_attribs vm)\<rparr>"

text \<open>\<^verbatim>\<open>VertexAttribInfo::SetList\<close> for the attribute with index \<open>i\<close>; the iterator points at its only entry.\<close>

definition SetList :: "nat \<Rightarrow> attrib_list \<Rightarrow> VertexAttribManager \<Rightarrow> VertexAttribManager" where
  "SetList i new_list vm =
     (let v = vm_vertex_attrib_infos vm ! i;
          vm1 = (case va_list v of None \<Rightarrow> vm | Some l \<Rightarrow> on_list l (remove1 i) vm);
          vm2 = on_list new_list (\<lambda>xs. xs @ [i]) vm1
      in vm2\<lparr>vm_vertex_attrib_infos := (vm_vertex_attrib_infos vm2)[i := v\<lparr>va_list := Some new_list\<rparr>]\<rparr>)"

fun init_loop :: "nat list \<Rightarrow> VertexAttribManager \<Rightarrow> VertexAttribManager" where
  "init_loop [] vm = vm"
| "init_loop (vv # vvs) vm =
     (let v = vm_vertex_attrib_infos vm ! vv in
      init_loop vvs (SetList vv Disabled_list
        (vm\<lparr>vm_vertex_attrib_infos := (vm_vertex_attrib_infos vm)[vv := v\<lparr>va_index := of_nat vv\<rparr>]\<rparr>)))"

text \<open>
  The decoder calls \<^verbatim>\<open>Initialize\<close> once, on a new manager. A second call would leave pointers into the
  freed array on the lists: \<^const>\<open>None\<close>.
\<close>

definition vm_Initialize :: "u32 \<Rightarrow> VertexAttribManager \<Rightarrow> VertexAttribManager option" where
  "vm_Initialize max_vertex_attribs vm =
     (if vm_vertex_attrib_infos vm \<noteq> [] then None
      else Some (init_loop [0..<unat max_vertex_attribs]
        (vm\<lparr>vm_max_vertex_attribs := max_vertex_attribs,
            vm_vertex_attrib_infos := replicate (unat max_vertex_attribs) new_VertexAttribInfo\<rparr>)))"

definition vm_Enable :: "u32 \<Rightarrow> bool \<Rightarrow> VertexAttribManager \<Rightarrow> bool \<times> VertexAttribManager" where
  "vm_Enable index enable vm =
     (if index \<ge> vm_max_vertex_attribs vm then (False, vm)
      else let i = unat index; v = vm_vertex_attrib_infos vm ! i in
      if va_enabled v \<noteq> enable
      then (True, SetList i (if enable then Enabled_list else Disabled_list)
              (vm\<lparr>vm_vertex_attrib_infos := (vm_vertex_attrib_infos vm)[i := v\<lparr>va_enabled := enable\<rparr>]\<rparr>))
      else (True, vm))"

definition HaveFixedAttribs :: "VertexAttribManager \<Rightarrow> bool" where
  "HaveFixedAttribs vm \<longleftrightarrow> vm_num_fixed_attribs vm \<noteq> 0"

definition GetVertexAttribInfo :: "u32 \<Rightarrow> VertexAttribManager \<Rightarrow> nat option" where
  "GetVertexAttribInfo index vm = (if index < vm_max_vertex_attribs vm then Some (unat index) else None)"

definition SetAttribInfo ::
  "u32 \<Rightarrow> info_ref option \<Rightarrow> int \<Rightarrow> u32 \<Rightarrow> bool \<Rightarrow> int \<Rightarrow> int \<Rightarrow> int \<Rightarrow> VertexAttribManager \<Rightarrow> BufferManager \<Rightarrow>
   (VertexAttribManager \<times> BufferManager) option" where
  "SetAttribInfo index buffer sz type normalized gl_stride real_stride offset vm m =
     (case GetVertexAttribInfo index vm of
        None \<Rightarrow> Some (vm, m)
      | Some i \<Rightarrow>
          let v = vm_vertex_attrib_infos vm ! i;
              n1 = (if va_type v = GL_FIXED then vm_num_fixed_attribs vm - 1 else vm_num_fixed_attribs vm);
              n2 = (if type = GL_FIXED then n1 + 1 else n1)
          in do {
            (v', m') \<leftarrow> va_SetInfo buffer sz type normalized gl_stride real_stride offset v m;
            Some (vm\<lparr>vm_num_fixed_attribs := n2, vm_vertex_attrib_infos := (vm_vertex_attrib_infos vm)[i := v']\<rparr>, m')
          })"

fun unbind_loop :: "info_ref \<Rightarrow> VertexAttribInfo list \<Rightarrow> BufferManager \<Rightarrow> (VertexAttribInfo list \<times> BufferManager) option" where
  "unbind_loop buffer [] m = Some ([], m)"
| "unbind_loop buffer (v # vs) m = do {
     (v', m1) \<leftarrow> va_Unbind buffer v m;
     (vs', m2) \<leftarrow> unbind_loop buffer vs m1;
     Some (v' # vs', m2)
   }"

definition vm_Unbind :: "info_ref \<Rightarrow> VertexAttribManager \<Rightarrow> BufferManager \<Rightarrow> (VertexAttribManager \<times> BufferManager) option" where
  "vm_Unbind buffer vm m = do {
     (vs, m') \<leftarrow> unbind_loop buffer (vm_vertex_attrib_infos vm) m;
     Some (vm\<lparr>vm_vertex_attrib_infos := vs\<rparr>, m')
   }"

subsection \<open>An attribute can be read exactly where its data are\<close>

lemma elements_in_range:
  fixes u s e i :: nat
  assumes "0 < e" and "e \<le> s"
  shows "i < u div s + (if e \<le> u mod s then 1 else 0) \<longleftrightarrow> i * s + e \<le> u"
proof -
  have u: "u = u div s * s + u mod s" by simp
  have r: "u mod s < s" using assms by simp
  consider "i < u div s" | "i = u div s" | "u div s < i" by linarith
  then show ?thesis
  proof cases
    case 1
    then have "Suc i * s \<le> u div s * s" by (intro mult_le_mono1) simp
    with 1 u assms(2) show ?thesis by (simp, linarith)
  next
    case 2
    then show ?thesis using u by (simp, linarith)
  next
    case 3
    then have "Suc (u div s) * s \<le> i * s" by (intro mult_le_mono1) simp
    with 3 u r show ?thesis by (simp, linarith)
  qed
qed

text \<open>
  \<open>attrib_ok\<close> is what the decoder's checks leave. The byte range of an element is \<open>offset + index * stride\<close>
  and the size of the element behind it.
\<close>

definition attrib_ok :: "VertexAttribInfo \<Rightarrow> bool" where
  "attrib_ok v \<longleftrightarrow> 0 \<le> va_offset v \<and> va_offset v < 2147483648 \<and> 1 \<le> va_size v \<and> va_size v \<le> 4 \<and>
     0 < va_real_stride v \<and> va_real_stride v \<le> 255 \<and> GetGLTypeSizeForTexturesAndBuffers (va_type v) \<noteq> 0"

definition elem_bytes :: "VertexAttribInfo \<Rightarrow> nat" where
  "elem_bytes v = unat (GetGLTypeSizeForTexturesAndBuffers (va_type v)) * nat (va_size v)"

definition reads_inside :: "nat \<Rightarrow> VertexAttribInfo \<Rightarrow> BufferInfo \<Rightarrow> bool" where
  "reads_inside index v b \<longleftrightarrow>
     va_offset v + int index * va_real_stride v + int (elem_bytes v) \<le> bi_size b"

lemma type_size_le: "unat (GetGLTypeSizeForTexturesAndBuffers t) \<le> 4"
  by (simp add: GetGLTypeSizeForTexturesAndBuffers_def)

lemma va_elem_size_unat:
  assumes "attrib_ok v"
  shows "unat (va_elem_size v) = elem_bytes v" and "0 < elem_bytes v" and "elem_bytes v \<le> 16"
proof -
  let ?t = "unat (GetGLTypeSizeForTexturesAndBuffers (va_type v))"
  have s: "unat (uint32 (va_size v)) = nat (va_size v)" "1 \<le> nat (va_size v)" "nat (va_size v) \<le> 4"
    using assms uint32_unat [of "va_size v"] by (auto simp: attrib_ok_def)
  have t: "?t \<le> 4" "0 < ?t" using type_size_le assms u32_zero by (auto simp: attrib_ok_def)
  have p: "?t * nat (va_size v) \<le> 4 * 4" using s t by (intro mult_le_mono) simp_all
  show "unat (va_elem_size v) = elem_bytes v"
    unfolding va_elem_size_def elem_bytes_def using p s(1) by (simp add: unat_word_ariths)
  show "0 < elem_bytes v" "elem_bytes v \<le> 16" using p s t by (simp_all add: elem_bytes_def)
qed

lemma CanAccess_exact:
  assumes v: "attrib_ok v" "va_enabled v" "va_buffer v = Some r" and stride: "int (elem_bytes v) \<le> va_real_stride v"
    and b: "bm_deref r m = Some b" "info_ok b"
  shows "CanAccess index v m = Some (\<not> bi_deleted b \<and> reads_inside (unat index) v b)"
proof (cases "va_offset v > bi_size b")
  case True
  have "0 \<le> int (unat index) * va_real_stride v" using v(1) by (simp add: attrib_ok_def)
  with True have "\<not> reads_inside (unat index) v b" unfolding reads_inside_def by linarith
  with True v(2,3) b(1) show ?thesis by (simp add: CanAccess_def bi_IsDeleted_def)
next
  case False
  define u where "u = nat (bi_size b - va_offset v)"
  define s where "s = nat (va_real_stride v)"
  define e where "e = elem_bytes v"
  have e: "unat (va_elem_size v) = e" "0 < e" using va_elem_size_unat [OF v(1)] by (simp_all add: e_def)
  have s: "unat (uint32 (va_real_stride v)) = s" "e \<le> s" "int s = va_real_stride v" "va_real_stride v \<noteq> 0"
    using v(1) stride uint32_unat [of "va_real_stride v"] by (auto simp: attrib_ok_def s_def e_def)
  have u: "unat (uint32 (bi_size b - va_offset v)) = u" "u < 2147483648" "int u = bi_size b - va_offset v"
    using v(1) b(2) False uint32_unat [of "bi_size b - va_offset v"] by (auto simp: attrib_ok_def info_ok_def u_def)
  let ?q = "uint32 (bi_size b - va_offset v) div uint32 (va_real_stride v)"
  let ?c = "uint32 (bi_size b - va_offset v) mod uint32 (va_real_stride v) \<ge> va_elem_size v"
  have q: "unat ?q = u div s" "?c \<longleftrightarrow> e \<le> u mod s"
    using u(1) s(1) e(1) by (simp_all add: unat_div unat_mod word_le_nat_alt)
  have "u div s < 2147483648" using u(2) div_le_dividend [of u s] by linarith
  then have "unat (?q + (if ?c then 1 else 0)) = u div s + (if e \<le> u mod s then 1 else 0)"
    using q by (subst u32_add) auto
  then have "index < ?q + (if ?c then 1 else 0) \<longleftrightarrow> unat index * s + e \<le> u"
    using elements_in_range [OF e(2) s(2)] by (simp add: word_less_nat_alt)
  also have "\<dots> \<longleftrightarrow> int (unat index) * int s + int e \<le> int u" by (simp only: of_nat_mult [symmetric] of_nat_add [symmetric] of_nat_le_iff)
  also have "\<dots> \<longleftrightarrow> reads_inside (unat index) v b" using s(3) u(3) by (auto simp: reads_inside_def e_def)
  finally show ?thesis
    using v(2,3) b(1) s(4) False by (simp add: CanAccess_def bi_IsDeleted_def Let_def)
qed

lemma reads_inside_mono:
  assumes "attrib_ok v" and "reads_inside n v b" and "j \<le> n"
  shows "reads_inside j v b"
proof -
  have "int j * va_real_stride v \<le> int n * va_real_stride v" using assms(1,3) by (intro mult_right_mono) (simp_all add: attrib_ok_def)
  with assms(2) show ?thesis unfolding reads_inside_def by linarith
qed

text \<open>
  With a stride below the size of an element the check lets elements through that end behind the
  buffer: four floats with a stride of four bytes, in a buffer of 20 bytes.
\<close>

lemma CanAccess_overlapping_overread:
  fixes v b m
  defines "v \<equiv> new_VertexAttribInfo\<lparr>va_enabled := True, va_gl_stride := 4, va_real_stride := 4, va_buffer := Some 0\<rparr>"
    and "b \<equiv> (new_BufferInfo 1)\<lparr>bi_size := 20, bi_ref_count := 1\<rparr>"
    and "m \<equiv> new_BufferManager\<lparr>bm_heap := [Some b]\<rparr>"
  shows "attrib_ok v" and "CanAccess 4 v m = Some True" and "\<not> reads_inside 4 v b"
  unfolding assms
  by (simp_all add: attrib_ok_def new_VertexAttribInfo_def CanAccess_def bm_deref_def new_BufferInfo_def bi_IsDeleted_def
      reads_inside_def elem_bytes_def va_elem_size_def uint32_def GetGLTypeSizeForTexturesAndBuffers_def Let_def)

subsection \<open>The lists and the counter\<close>

definition fixed_count :: "VertexAttribInfo list \<Rightarrow> int" where
  "fixed_count vs = sum_list (map (\<lambda>v. if va_type v = GL_FIXED then 1 else 0) vs)"

definition slot_ok :: "VertexAttribInfo list \<Rightarrow> nat \<Rightarrow> bool" where
  "slot_ok vs i \<longleftrightarrow> va_index (vs ! i) = of_nat i \<and> attrib_ok (vs ! i) \<and>
     va_list (vs ! i) = Some (if va_enabled (vs ! i) then Enabled_list else Disabled_list)"

definition vm_inv :: "VertexAttribManager \<Rightarrow> bool" where
  "vm_inv vm \<longleftrightarrow> (let vs = vm_vertex_attrib_infos vm in
     length vs = unat (vm_max_vertex_attribs vm) \<and> (\<forall>i < length vs. slot_ok vs i) \<and>
     distinct (vm_enabled_vertex_attribs vm) \<and> distinct (vm_disabled_vertex_attribs vm) \<and>
     set (vm_enabled_vertex_attribs vm) = {i. i < length vs \<and> va_enabled (vs ! i)} \<and>
     set (vm_disabled_vertex_attribs vm) = {i. i < length vs \<and> \<not> va_enabled (vs ! i)} \<and>
     vm_num_fixed_attribs vm = fixed_count vs)"

lemma fixed_count_update:
  "i < length vs \<Longrightarrow> fixed_count (vs[i := v]) =
     fixed_count vs - (if va_type (vs ! i) = GL_FIXED then 1 else 0) + (if va_type v = GL_FIXED then 1 else 0)"
  unfolding fixed_count_def by (simp only: sum_list_map_update)

lemma slot_ok_update: "i < length vs \<Longrightarrow> slot_ok (vs[i := v]) j =
  (if i = j then va_index v = of_nat i \<and> attrib_ok v \<and> va_list v = Some (if va_enabled v then Enabled_list else Disabled_list)
   else slot_ok vs j)"
  by (simp add: slot_ok_def)

definition fresh_info :: "nat \<Rightarrow> VertexAttribInfo" where
  "fresh_info i = new_VertexAttribInfo\<lparr>va_index := of_nat i, va_list := Some Disabled_list\<rparr>"

lemma init_loop_append: "init_loop (xs @ ys) vm = init_loop ys (init_loop xs vm)"
  by (induction xs arbitrary: vm) (simp_all add: Let_def)

lemma init_loop_upt:
  assumes "vm_vertex_attrib_infos vm = replicate n new_VertexAttribInfo" and "vm_disabled_vertex_attribs vm = []" and "k \<le> n"
  shows "init_loop [0..<k] vm =
    vm\<lparr>vm_vertex_attrib_infos := map fresh_info [0..<k] @ replicate (n - k) new_VertexAttribInfo, vm_disabled_vertex_attribs := [0..<k]\<rparr>"
  using assms(3)
proof (induction k)
  case 0
  with assms(1,2) show ?case by simp
next
  case (Suc k)
  then have k: "n - k = Suc (n - Suc k)" by simp
  have "init_loop [0..<Suc k] vm = init_loop [k] (init_loop [0..<k] vm)" by (simp add: init_loop_append)
  with Suc show ?case
    by (simp add: k SetList_def Let_def nth_append list_update_append fresh_info_def new_VertexAttribInfo_def)
qed

lemma vm_Initialize_inv:
  "\<exists>vm. vm_Initialize n new_VertexAttribManager = Some vm \<and> vm_inv vm \<and> vm_max_vertex_attribs vm = n \<and>
     vm_vertex_attrib_infos vm = map fresh_info [0..<unat n]"
proof -
  have ok: "attrib_ok (fresh_info i)" for i
    by (simp add: fresh_info_def new_VertexAttribInfo_def attrib_ok_def GetGLTypeSizeForTexturesAndBuffers_def)
  have "fixed_count (map fresh_info xs) = 0" for xs
    by (simp add: fixed_count_def o_def fresh_info_def new_VertexAttribInfo_def)
  with ok show ?thesis
    unfolding vm_Initialize_def
    by (subst init_loop_upt [where n = "unat n"])
      (auto simp: new_VertexAttribManager_def vm_inv_def slot_ok_def Let_def fresh_info_def new_VertexAttribInfo_def)
qed

lemma vm_Enable_inv:
  assumes inv: "vm_inv vm"
  shows "let (ok, vm') = vm_Enable index enable vm in vm_inv vm' \<and> (ok \<longleftrightarrow> unat index < length (vm_vertex_attrib_infos vm)) \<and>
    map va_buffer (vm_vertex_attrib_infos vm') = map va_buffer (vm_vertex_attrib_infos vm) \<and>
    vm_max_vertex_attribs vm' = vm_max_vertex_attribs vm \<and>
    (\<forall>j < length (vm_vertex_attrib_infos vm). va_enabled (vm_vertex_attrib_infos vm' ! j) =
       (if j = unat index then enable else va_enabled (vm_vertex_attrib_infos vm ! j)))"
proof (cases "index \<ge> vm_max_vertex_attribs vm")
  case True
  with inv show ?thesis by (auto simp: vm_Enable_def vm_inv_def Let_def word_le_nat_alt)
next
  case False
  define i where "i = unat index"
  let ?vs = "vm_vertex_attrib_infos vm"
  have i: "i < length ?vs" using False inv by (simp add: i_def vm_inv_def Let_def word_le_nat_alt)
  have s: "slot_ok ?vs i" using inv i by (simp add: vm_inv_def Let_def)
  show ?thesis
  proof (cases "va_enabled (?vs ! i) = enable")
    case True
    then have "vm_Enable index enable vm = (True, vm)" using False by (simp add: vm_Enable_def i_def Let_def)
    with inv i True show ?thesis by (simp add: i_def)
  next
    case change: False
    define v where "v = (?vs ! i)\<lparr>va_enabled := enable, va_list := Some (if enable then Enabled_list else Disabled_list)\<rparr>"
    have vs: "vm_vertex_attrib_infos (snd (vm_Enable index enable vm)) = ?vs[i := v]"
      using False change i s
      by (cases enable) (simp_all add: vm_Enable_def SetList_def Let_def i_def [symmetric] slot_ok_def v_def)
    have lists: "vm_enabled_vertex_attribs (snd (vm_Enable index enable vm)) =
        (if enable then vm_enabled_vertex_attribs vm @ [i] else remove1 i (vm_enabled_vertex_attribs vm))"
      "vm_disabled_vertex_attribs (snd (vm_Enable index enable vm)) =
        (if enable then remove1 i (vm_disabled_vertex_attribs vm) else vm_disabled_vertex_attribs vm @ [i])"
      using False change i s
      by (cases enable; simp add: vm_Enable_def SetList_def Let_def i_def [symmetric] slot_ok_def)+
    have rest: "vm_max_vertex_attribs (snd (vm_Enable index enable vm)) = vm_max_vertex_attribs vm"
      "vm_num_fixed_attribs (snd (vm_Enable index enable vm)) = vm_num_fixed_attribs vm" "fst (vm_Enable index enable vm)"
      using False change i s
      by (cases enable; simp add: vm_Enable_def SetList_def Let_def i_def [symmetric] slot_ok_def)+
    have "attrib_ok v" using s by (simp add: slot_ok_def v_def attrib_ok_def)
    then have "vm_inv (snd (vm_Enable index enable vm))"
      using inv i s change unfolding vm_inv_def vs lists rest Let_def
      by (auto simp: slot_ok_update fixed_count_update nth_list_update v_def slot_ok_def set_remove1_eq)
    moreover have "map va_buffer (?vs[i := v]) = map va_buffer ?vs"
      using i by (simp add: map_update v_def list_update_same_conv)
    ultimately show ?thesis
      using vs rest i by (auto simp: i_def nth_list_update v_def split: prod.splits)
  qed
qed

subsection \<open>The references to the buffers\<close>

definition opt_count :: "info_ref option \<Rightarrow> info_ref \<Rightarrow> nat" where
  "opt_count x r = (if x = Some r then 1 else 0)"

definition attrib_refs :: "VertexAttribInfo list \<Rightarrow> info_ref \<Rightarrow> nat" where
  "attrib_refs vs r = sum_list (map (\<lambda>v. opt_count (va_buffer v) r) vs)"

text \<open>\<open>only_counts m m'\<close>: from \<open>m\<close> to \<open>m'\<close> only reference counts change, and infos that are not referenced go away.\<close>

definition only_counts :: "BufferManager \<Rightarrow> BufferManager \<Rightarrow> bool" where
  "only_counts m m' \<longleftrightarrow> bm_buffer_infos m' = bm_buffer_infos m \<and>
     (\<forall>r b'. bm_deref r m' = Some b' \<longrightarrow> (\<exists>b. bm_deref r m = Some b \<and> b'\<lparr>bi_ref_count := 0\<rparr> = b\<lparr>bi_ref_count := 0\<rparr>))"

lemma only_counts_refl: "only_counts m m"
  by (simp add: only_counts_def)

lemma only_counts_trans: "only_counts m m1 \<Longrightarrow> only_counts m1 m2 \<Longrightarrow> only_counts m m2"
  unfolding only_counts_def by metis

lemma opt_count_None [simp]: "opt_count None r = 0"
  by (simp add: opt_count_def)

lemma fun_upd_opt_count: "ext(r := Suc (ext r)) = (\<lambda>r'. ext r' + opt_count (Some r) r')"
  by (auto simp: opt_count_def)

lemma AddRef_counts:
  assumes "bm_inv m ext" and "bm_deref r m = Some b"
  shows "\<exists>m'. bm_AddRef r m = Some m' \<and> bm_inv m' (\<lambda>r'. ext r' + opt_count (Some r) r') \<and> only_counts m m'"
proof -
  from AddRef_inv [OF assms] obtain m' where m': "bm_AddRef r m = Some m'" "bm_inv m' (ext(r := Suc (ext r)))"
    "bm_buffer_infos m' = bm_buffer_infos m"
    "\<forall>r'. bm_deref r' m' = (if r' = r then Some (b\<lparr>bi_ref_count := Suc (bi_ref_count b)\<rparr>) else bm_deref r' m)" by blast
  from m'(3,4) assms(2) have "only_counts m m'" by (simp add: only_counts_def)
  with m'(1,2) show ?thesis unfolding fun_upd_opt_count by blast
qed

lemma Release_counts:
  assumes inv: "bm_inv m (\<lambda>r'. ext r' + opt_count (Some r) r')"
  shows "\<exists>m'. bm_Release r m = Some m' \<and> bm_inv m' ext \<and> only_counts m m'"
proof -
  have "almost_ok r m ext" using inv by (simp only: almost_ok_def fun_upd_opt_count)
  from Release_inv [OF this] obtain m' where m': "bm_Release r m = Some m'" "bm_inv m' ext" "bm_buffer_infos m' = bm_buffer_infos m"
    "\<forall>r'. r' \<noteq> r \<longrightarrow> bm_deref r' m' = bm_deref r' m"
    "\<forall>b b'. bm_deref r m = Some b \<longrightarrow> bm_deref r m' = Some b' \<longrightarrow> b' = b\<lparr>bi_ref_count := bi_ref_count b - 1\<rparr>" by blast
  have "0 < owners m (\<lambda>r'. ext r' + opt_count (Some r) r') r" by (simp add: owners_def opt_count_def)
  from heap_ok_live [OF bm_inv_heap_ok [OF inv] this] obtain b where b: "bm_deref r m = Some b" ..
  have "\<exists>b0. bm_deref r' m = Some b0 \<and> b'\<lparr>bi_ref_count := 0\<rparr> = b0\<lparr>bi_ref_count := 0\<rparr>" if "bm_deref r' m' = Some b'" for r' b'
    using that m'(4,5) b by (cases "r' = r") auto
  then have "only_counts m m'" using m'(3) by (simp add: only_counts_def)
  with m'(1,2) show ?thesis by blast
qed

lemma assign_ref_inv:
  assumes inv: "bm_inv m (\<lambda>r. ext r + opt_count old r)" and new: "\<And>r. new = Some r \<Longrightarrow> bm_deref r m \<noteq> None"
  shows "\<exists>m'. assign_ref old new m = Some m' \<and> bm_inv m' (\<lambda>r. ext r + opt_count new r) \<and> only_counts m m'"
proof -
  obtain m1 where m1: "(case new of None \<Rightarrow> Some m | Some r \<Rightarrow> bm_AddRef r m) = Some m1"
    "bm_inv m1 (\<lambda>r. ext r + opt_count new r + opt_count old r)" "only_counts m m1"
  proof (cases new)
    case None
    with inv that [of m] show ?thesis by (simp add: only_counts_refl)
  next
    case (Some r)
    with new obtain b where "bm_deref r m = Some b" by auto
    from AddRef_counts [OF inv this] that Some show ?thesis by (auto simp: add.commute add.left_commute)
  qed
  show ?thesis
  proof (cases old)
    case None
    with m1 show ?thesis by (simp add: assign_ref_def)
  next
    case (Some r)
    with m1(2) Release_counts [of m1 "\<lambda>r. ext r + opt_count new r" r] obtain m' where
      "bm_Release r m1 = Some m'" "bm_inv m' (\<lambda>r. ext r + opt_count new r)" "only_counts m1 m'" by auto
    with Some m1(1,3) only_counts_trans show ?thesis by (auto simp: assign_ref_def)
  qed
qed

lemma attrib_refs_update:
  "i < length vs \<Longrightarrow> attrib_refs (vs[i := v]) r = attrib_refs (vs[i := (vs ! i)\<lparr>va_buffer := None\<rparr>]) r + opt_count (va_buffer v) r"
  unfolding attrib_refs_def by (induction vs arbitrary: i) (auto simp: nth_Cons split: nat.splits)

lemma SetAttribInfo_inv:
  assumes vm: "vm_inv vm" and m: "bm_inv m (\<lambda>r. ext r + attrib_refs (vm_vertex_attrib_infos vm) r)"
    and live: "bm_deref r m \<noteq> None"
    and ok: "\<And>v. attrib_ok (v\<lparr>va_size := sz, va_type := type, va_real_stride := real_stride, va_offset := offset\<rparr>)"
  shows "\<exists>vm' m'. SetAttribInfo index (Some r) sz type normalized gl_stride real_stride offset vm m = Some (vm', m') \<and>
    vm_inv vm' \<and> bm_inv m' (\<lambda>r. ext r + attrib_refs (vm_vertex_attrib_infos vm') r) \<and> only_counts m m' \<and>
    vm_max_vertex_attribs vm' = vm_max_vertex_attribs vm"
proof (cases "index < vm_max_vertex_attribs vm")
  case False
  with vm m show ?thesis by (simp add: SetAttribInfo_def GetVertexAttribInfo_def only_counts_refl)
next
  case True
  define i where "i = unat index"
  let ?vs = "vm_vertex_attrib_infos vm"
  have i: "i < length ?vs" using True vm by (simp add: i_def vm_inv_def Let_def word_less_nat_alt)
  have s: "slot_ok ?vs i" using vm i by (simp add: vm_inv_def Let_def)
  let ?rest = "attrib_refs (?vs[i := (?vs ! i)\<lparr>va_buffer := None\<rparr>])"
  have r: "attrib_refs ?vs r = ?rest r + opt_count (va_buffer (?vs ! i)) r" for r
    using attrib_refs_update [OF i, of "?vs ! i" r] by simp
  have "bm_inv m (\<lambda>r. (ext r + ?rest r) + opt_count (va_buffer (?vs ! i)) r)"
    using m unfolding r by (simp add: add.assoc)
  from assign_ref_inv [OF this, of "Some r"] live obtain m' where m': "assign_ref (va_buffer (?vs ! i)) (Some r) m = Some m'"
    "bm_inv m' (\<lambda>r'. (ext r' + ?rest r') + opt_count (Some r) r')" "only_counts m m'" by auto
  define v where "v = (?vs ! i)\<lparr>va_buffer := Some r, va_size := sz, va_type := type, va_normalized := normalized,
             va_gl_stride := gl_stride, va_real_stride := real_stride, va_offset := offset\<rparr>"
  have v: "attrib_ok v" "va_index v = of_nat i" "va_list v = Some (if va_enabled v then Enabled_list else Disabled_list)"
    "va_enabled v = va_enabled (?vs ! i)"
    using ok [of v] s by (simp_all add: v_def attrib_ok_def slot_ok_def)
  let ?vm = "vm\<lparr>vm_num_fixed_attribs := fixed_count (?vs[i := v]), vm_vertex_attrib_infos := ?vs[i := v]\<rparr>"
  have "SetAttribInfo index (Some r) sz type normalized gl_stride real_stride offset vm m = Some (?vm, m')"
    using True m'(1) vm fixed_count_update [OF i, of v]
    by (simp add: SetAttribInfo_def GetVertexAttribInfo_def va_SetInfo_def i_def [symmetric] Let_def v_def vm_inv_def)
  moreover have "vm_inv ?vm"
    using vm i v unfolding vm_inv_def Let_def by (auto simp: slot_ok_update nth_list_update)
  moreover have "bm_inv m' (\<lambda>r. ext r + attrib_refs (?vs[i := v]) r)"
    using m'(2) unfolding attrib_refs_update [OF i, of v] by (simp add: v_def add.assoc)
  ultimately show ?thesis using m'(3) by simp
qed

definition unbound :: "info_ref \<Rightarrow> VertexAttribInfo \<Rightarrow> VertexAttribInfo" where
  "unbound r v = (if va_buffer v = Some r then v\<lparr>va_buffer := None\<rparr> else v)"

lemma unbind_loop_inv:
  "bm_inv m (\<lambda>r. ext r + attrib_refs vs r) \<Longrightarrow>
   \<exists>m'. unbind_loop buffer vs m = Some (map (unbound buffer) vs, m') \<and>
     bm_inv m' (\<lambda>r. ext r + attrib_refs (map (unbound buffer) vs) r) \<and> only_counts m m'"
proof (induction vs arbitrary: m ext)
  case Nil
  then show ?case by (simp add: only_counts_refl)
next
  case (Cons v vs)
  have refs: "attrib_refs (w # ws) r = attrib_refs ws r + opt_count (va_buffer w) r" for w ws r by (simp add: attrib_refs_def)
  have inv: "bm_inv m (\<lambda>r. (ext r + attrib_refs vs r) + opt_count (va_buffer v) r)"
    using Cons.prems unfolding refs by (simp add: add.assoc)
  obtain m1 where m1: "va_Unbind buffer v m = Some (unbound buffer v, m1)" "only_counts m m1"
    "bm_inv m1 (\<lambda>r. (ext r + attrib_refs vs r) + opt_count (va_buffer (unbound buffer v)) r)"
  proof (cases "va_buffer v = Some buffer")
    case True
    from assign_ref_inv [OF inv, of None] that True show ?thesis by (auto simp: va_Unbind_def unbound_def)
  next
    case False
    with inv that [of m] show ?thesis by (simp add: va_Unbind_def unbound_def only_counts_refl)
  qed
  have "bm_inv m1 (\<lambda>r. (ext r + opt_count (va_buffer (unbound buffer v)) r) + attrib_refs vs r)"
    using m1(3) by (simp add: add.assoc add.commute add.left_commute)
  from Cons.IH [OF this] obtain m2 where m2: "unbind_loop buffer vs m1 = Some (map (unbound buffer) vs, m2)" "only_counts m1 m2"
    "bm_inv m2 (\<lambda>r. (ext r + opt_count (va_buffer (unbound buffer v)) r) + attrib_refs (map (unbound buffer) vs) r)" by blast
  have "bm_inv m2 (\<lambda>r. ext r + attrib_refs (map (unbound buffer) (v # vs)) r)"
    using m2(3) unfolding list.map refs by (simp add: add.assoc add.commute add.left_commute)
  with m1 m2 only_counts_trans show ?case by (auto simp del: split_paired_All)
qed

lemma vm_Unbind_inv:
  assumes vm: "vm_inv vm" and m: "bm_inv m (\<lambda>r. ext r + attrib_refs (vm_vertex_attrib_infos vm) r)"
  shows "\<exists>vm' m'. vm_Unbind buffer vm m = Some (vm', m') \<and> vm_inv vm' \<and> only_counts m m' \<and>
    vm_vertex_attrib_infos vm' = map (unbound buffer) (vm_vertex_attrib_infos vm) \<and>
    vm_max_vertex_attribs vm' = vm_max_vertex_attribs vm \<and>
    bm_inv m' (\<lambda>r. ext r + attrib_refs (vm_vertex_attrib_infos vm') r)"
proof -
  let ?vs = "vm_vertex_attrib_infos vm"
  from unbind_loop_inv [OF m] obtain m' where m': "unbind_loop buffer ?vs m = Some (map (unbound buffer) ?vs, m')"
    "bm_inv m' (\<lambda>r. ext r + attrib_refs (map (unbound buffer) ?vs) r)" "only_counts m m'" by blast
  have fields: "va_enabled (unbound buffer v) = va_enabled v" "va_type (unbound buffer v) = va_type v" "va_list (unbound buffer v) = va_list v"
    "va_index (unbound buffer v) = va_index v" "attrib_ok (unbound buffer v) = attrib_ok v" for v
    by (simp_all add: unbound_def attrib_ok_def)
  have "fixed_count (map (unbound buffer) ?vs) = fixed_count ?vs" by (simp add: fixed_count_def o_def fields)
  then have "vm_inv (vm\<lparr>vm_vertex_attrib_infos := map (unbound buffer) ?vs\<rparr>)"
    using vm by (auto simp: vm_inv_def Let_def slot_ok_def fields)
  with m' show ?thesis by (simp add: vm_Unbind_def)
qed

end
