(* ===== verification/Vertex_Decoder.thy ===== *)
theory Vertex_Decoder
  imports Vertex_Attrib_Manager Id_Allocator
begin

text \<open>
  The handlers of \<^verbatim>\<open>GLES2DecoderImpl\<close> (\<^verbatim>\<open>gpu/command_buffer/service/gles2_cmd_decoder.cc\<close>) for buffers and vertex
  attributes, and the check \<^verbatim>\<open>IsDrawValid\<close> that every draw call passes through. The state has the
  members of the decoder that these handlers use. The GL driver is outside: the calls made to it are
  appended to \<open>vd_gl\<close>; \<open>raises\<close> gives the errors it raises in answer to the last of the calls so far, \<open>gen\<close> the ids that it makes up
  (\<^verbatim>\<open>glGenBuffersARB\<close>), and \<open>vd_gl_errors\<close> are the errors that \<^verbatim>\<open>glGetError\<close> has yet to report. The text of an
  error message, which is only logged, is left out.
\<close>

subsection \<open>State\<close>

datatype gl_call =
    GlGenBuffers int
  | GlBindBuffer u32 u32
  | GlBufferData u32 int "u8 list" u32
  | GlBufferSubData u32 int int "u8 list"
  | GlEnableVertexAttribArray u32
  | GlDisableVertexAttribArray u32
  | GlVertexAttribPointer u32 int u32 bool int int
  | GlGenTextures int
  | GlDeleteTextures u32
  | GlActiveTexture u32
  | GlBindTexture u32 u32
  | GlTexParameteri u32 u32 int
  | GlGenerateMipmap u32
  | GlTexImage2D u32 int u32 int int int u32 u32 "u8 list option"
  | GlTexSubImage2D u32 int int int int int u32 u32 "u8 list option"
  | GlCompressedTexImage2D u32 int u32 int int int int "u8 list"
  | GlCompressedTexSubImage2D u32 int int int int int u32 int "u8 list"
  | GlTexStorage2D u32 int u32 int int
  | GlPixelStorei u32 u32

text \<open>\<open>vd_current_program\<close> is the \<^verbatim>\<open>attrib_location_to_index_map_\<close> of the program in use.\<close>

record VertexDecoder =
  vd_buffers :: BufferManager
  vd_attribs :: VertexAttribManager
  vd_bound_array_buffer :: "info_ref option"
  vd_bound_element_array_buffer :: "info_ref option"
  vd_current_program :: "int list option"
  vd_max_vertex_attribs :: u32
  vd_bind_generates_resource :: bool
  vd_bufferdata_faster_than_buffersubdata :: bool
  vd_buffer_ids :: IdAllocator
  vd_vertex_attrib_type :: "u32 list"
  vd_error_bits :: u32
  vd_gl :: "gl_call list"
  vd_gl_errors :: "u32 list"

subsection \<open>Validators\<close>

definition valid_buffer_target_table :: "u32 list" where
  "valid_buffer_target_table = [GL_ARRAY_BUFFER, GL_ELEMENT_ARRAY_BUFFER]"

definition valid_buffer_usage_table :: "u32 list" where
  "valid_buffer_usage_table = [GL_STREAM_DRAW, GL_STATIC_DRAW, GL_DYNAMIC_DRAW]"

definition valid_vertex_attrib_size_table :: "int list" where
  "valid_vertex_attrib_size_table = [1, 2, 3, 4]"

definition valid_vertex_attrib_type_table :: "u32 list" where
  "valid_vertex_attrib_type_table = [GL_BYTE, GL_UNSIGNED_BYTE, GL_SHORT, GL_UNSIGNED_SHORT, GL_FLOAT]"

definition IsValid :: "'a list \<Rightarrow> 'a \<Rightarrow> bool" where
  "IsValid valid_values v \<longleftrightarrow> v \<in> set valid_values"

definition AddValue :: "'a \<Rightarrow> 'a list \<Rightarrow> 'a list" where
  "AddValue v valid_values = (if \<not> IsValid valid_values v then valid_values @ [v] else valid_values)"

subsection \<open>Errors\<close>

definition SetGLError :: "u32 \<Rightarrow> VertexDecoder \<Rightarrow> VertexDecoder" where
  "SetGLError err d =
     d\<lparr>vd_error_bits := or (vd_error_bits d) (case GLErrorToErrorBit err of Some e \<Rightarrow> e | None \<Rightarrow> 0)\<rparr>"

definition gl :: "(gl_call list \<Rightarrow> u32 list) \<Rightarrow> gl_call \<Rightarrow> VertexDecoder \<Rightarrow> VertexDecoder" where
  "gl raises c d =
     d\<lparr>vd_gl := vd_gl d @ [c], vd_gl_errors := vd_gl_errors d @ raises (vd_gl d @ [c])\<rparr>"

definition glGetError :: "VertexDecoder \<Rightarrow> u32 \<times> VertexDecoder" where
  "glGetError d =
     (case vd_gl_errors d of [] \<Rightarrow> (GL_NO_ERROR, d) | e # es \<Rightarrow> (e, d\<lparr>vd_gl_errors := es\<rparr>))"

definition PeekGLError :: "VertexDecoder \<Rightarrow> u32 \<times> VertexDecoder" where
  "PeekGLError d =
     (let (err, d1) = glGetError d in
      (err, if err \<noteq> GL_NO_ERROR then SetGLError err d1 else d1))"

function CopyRealGLErrorsToWrapper :: "VertexDecoder \<Rightarrow> VertexDecoder" where
  "CopyRealGLErrorsToWrapper d =
     (case glGetError d of (err, d1) \<Rightarrow>
        if err \<noteq> GL_NO_ERROR then CopyRealGLErrorsToWrapper (SetGLError err d1) else d1)"
  by auto
termination
  by (relation "measure (\<lambda>d. length (vd_gl_errors d))")
    (auto simp: glGetError_def SetGLError_def split: list.splits)

declare CopyRealGLErrorsToWrapper.simps [simp del]

subsection \<open>Buffers\<close>

definition GetBufferInfoForTarget :: "u32 \<Rightarrow> VertexDecoder \<Rightarrow> info_ref option" where
  "GetBufferInfoForTarget target d =
     (if target = GL_ARRAY_BUFFER then vd_bound_array_buffer d else vd_bound_element_array_buffer d)"

fun create_infos :: "(u32 \<times> u32) list \<Rightarrow> BufferManager \<Rightarrow> BufferManager option" where
  "create_infos [] m = Some m"
| "create_infos ((client_id, service_id) # rest) m = do {
     m1 \<leftarrow> CreateBufferInfo client_id service_id m;
     create_infos rest m1
   }"

text \<open>A negative \<open>n\<close> does not get here: the handlers check it.\<close>

definition GenBuffersHelper ::
  "(gl_call list \<Rightarrow> u32 list) \<Rightarrow> (gl_call list \<Rightarrow> nat \<Rightarrow> u32) \<Rightarrow> u32 list \<Rightarrow> VertexDecoder \<Rightarrow> (bool \<times> VertexDecoder) option" where
  "GenBuffersHelper raises gen client_ids d =
     (if \<exists>c \<in> set client_ids. GetBufferInfo c (vd_buffers d) \<noteq> None then Some (False, d)
      else let d1 = gl raises (GlGenBuffers (int (length client_ids))) d;
               service_ids = map (gen (vd_gl d1)) [0..<length client_ids]
      in do {
        m \<leftarrow> create_infos (zip client_ids service_ids) (vd_buffers d1);
        Some (True, d1\<lparr>vd_buffers := m\<rparr>)
      })"

definition set_bound_array :: "info_ref option \<Rightarrow> VertexDecoder \<Rightarrow> VertexDecoder option" where
  "set_bound_array new d = do {
     m \<leftarrow> assign_ref (vd_bound_array_buffer d) new (vd_buffers d);
     Some (d\<lparr>vd_bound_array_buffer := new, vd_buffers := m\<rparr>)
   }"

definition set_bound_element_array :: "info_ref option \<Rightarrow> VertexDecoder \<Rightarrow> VertexDecoder option" where
  "set_bound_element_array new d = do {
     m \<leftarrow> assign_ref (vd_bound_element_array_buffer d) new (vd_buffers d);
     Some (d\<lparr>vd_bound_element_array_buffer := new, vd_buffers := m\<rparr>)
   }"

definition delete_buffer :: "u32 \<Rightarrow> info_ref \<Rightarrow> VertexDecoder \<Rightarrow> VertexDecoder option" where
  "delete_buffer client_id r d = do {
     (vm, m) \<leftarrow> vm_Unbind r (vd_attribs d) (vd_buffers d);
     let d1 = d\<lparr>vd_attribs := vm, vd_buffers := m\<rparr>;
     d2 \<leftarrow> (if vd_bound_array_buffer d1 = Some r then set_bound_array None d1 else Some d1);
     d3 \<leftarrow> (if vd_bound_element_array_buffer d2 = Some r then set_bound_element_array None d2 else Some d2);
     m3 \<leftarrow> RemoveBufferInfo client_id (vd_buffers d3);
     Some (d3\<lparr>vd_buffers := m3\<rparr>)
   }"

fun DeleteBuffersHelper :: "u32 list \<Rightarrow> VertexDecoder \<Rightarrow> VertexDecoder option" where
  "DeleteBuffersHelper [] d = Some d"
| "DeleteBuffersHelper (client_id # client_ids) d = do {
     d1 \<leftarrow> (case GetBufferInfo client_id (vd_buffers d) of
              None \<Rightarrow> Some d
            | Some r \<Rightarrow> do {
                b \<leftarrow> bm_deref r (vd_buffers d);
                if \<not> bi_IsDeleted b then delete_buffer client_id r d else Some d
              });
     DeleteBuffersHelper client_ids d1
   }"

text \<open>\<^const>\<open>None\<close> inside is \<^verbatim>\<open>return\<close> after an error; the info otherwise.\<close>

definition bind_lookup ::
  "(gl_call list \<Rightarrow> u32 list) \<Rightarrow> (gl_call list \<Rightarrow> nat \<Rightarrow> u32) \<Rightarrow> u32 \<Rightarrow> VertexDecoder \<Rightarrow> (info_ref option option \<times> VertexDecoder) option" where
  "bind_lookup raises gen client_id d =
     (if client_id = 0 then Some (Some None, d)
      else case GetBufferInfo client_id (vd_buffers d) of
        Some r \<Rightarrow> Some (Some (Some r), d)
      | None \<Rightarrow>
          if \<not> vd_bind_generates_resource d then Some (None, SetGLError GL_INVALID_VALUE d)
          else let d1 = gl raises (GlGenBuffers 1) d in do {
            m \<leftarrow> CreateBufferInfo client_id (gen (vd_gl d1) 0) (vd_buffers d1);
            Some (Some (GetBufferInfo client_id m),
                  d1\<lparr>vd_buffers := m, vd_buffer_ids := snd (MarkAsUsed client_id (vd_buffer_ids d1))\<rparr>)
          })"

definition bind_info :: "(gl_call list \<Rightarrow> u32 list) \<Rightarrow> u32 \<Rightarrow> info_ref option \<Rightarrow> u32 \<Rightarrow> VertexDecoder \<Rightarrow> VertexDecoder option" where
  "bind_info raises target info service_id d = do {
     d1 \<leftarrow> (if target = GL_ARRAY_BUFFER then set_bound_array info d
            else if target = GL_ELEMENT_ARRAY_BUFFER then set_bound_element_array info d
            else Some d);
     Some (gl raises (GlBindBuffer target service_id) d1)
   }"

definition DoBindBuffer ::
  "(gl_call list \<Rightarrow> u32 list) \<Rightarrow> (gl_call list \<Rightarrow> nat \<Rightarrow> u32) \<Rightarrow> u32 \<Rightarrow> u32 \<Rightarrow> VertexDecoder \<Rightarrow> VertexDecoder option" where
  "DoBindBuffer raises gen target client_id d = do {
     (found, d1) \<leftarrow> bind_lookup raises gen client_id d;
     (case found of
        None \<Rightarrow> Some d1
      | Some None \<Rightarrow> bind_info raises target None 0 d1
      | Some (Some r) \<Rightarrow> do {
          (ok, m) \<leftarrow> bm_SetTarget r target (vd_buffers d1);
          if \<not> ok then Some (SetGLError GL_INVALID_OPERATION d1)
          else do {
            b \<leftarrow> bm_deref r m;
            bind_info raises target (Some r) (bi_service_id b) (d1\<lparr>vd_buffers := m\<rparr>)
          }
        })
   }"

definition HandleBindBuffer ::
  "(gl_call list \<Rightarrow> u32 list) \<Rightarrow> (gl_call list \<Rightarrow> nat \<Rightarrow> u32) \<Rightarrow> u32 \<Rightarrow> u32 \<Rightarrow> VertexDecoder \<Rightarrow> VertexDecoder option" where
  "HandleBindBuffer raises gen target buffer d =
     (if \<not> IsValid valid_buffer_target_table target then Some (SetGLError GL_INVALID_ENUM d)
      else DoBindBuffer raises gen target buffer d)"

definition set_range :: "info_ref \<Rightarrow> int \<Rightarrow> int \<Rightarrow> u8 list \<Rightarrow> BufferManager \<Rightarrow> (bool \<times> BufferManager) option" where
  "set_range r offset sz data m = do {
     b \<leftarrow> bm_deref r m;
     (ok, b') \<leftarrow> bi_SetRange offset sz data b;
     Some (ok, bm_store r (Some b') m)
   }"

text \<open>\<open>data\<close> is \<^const>\<open>None\<close> for a null pointer; otherwise the bytes behind the pointer.\<close>

definition DoBufferData ::
  "(gl_call list \<Rightarrow> u32 list) \<Rightarrow> u32 \<Rightarrow> int \<Rightarrow> u8 list option \<Rightarrow> u32 \<Rightarrow> VertexDecoder \<Rightarrow> VertexDecoder option" where
  "DoBufferData raises target sz data usage d =
     (if \<not> IsValid valid_buffer_target_table target then Some (SetGLError GL_INVALID_ENUM d)
      else if \<not> IsValid valid_buffer_usage_table usage then Some (SetGLError GL_INVALID_ENUM d)
      else if sz < 0 then Some (SetGLError GL_INVALID_VALUE d)
      else case GetBufferInfoForTarget target d of
        None \<Rightarrow> Some (SetGLError GL_INVALID_VALUE d)
      | Some r \<Rightarrow>
          let bytes = (case data of None \<Rightarrow> replicate (nat sz) 0 | Some bs \<Rightarrow> bs) in do {
            b \<leftarrow> bm_deref r (vd_buffers d);
            if \<not> vd_bufferdata_faster_than_buffersubdata d \<and> sz = bi_size b \<and> usage = bi_usage b
            then do {
              let d1 = gl raises (GlBufferSubData target 0 sz bytes) d;
              (_, m) \<leftarrow> set_range r 0 sz bytes (vd_buffers d1);
              Some (d1\<lparr>vd_buffers := m\<rparr>)
            }
            else do {
              let d1 = gl raises (GlBufferData target sz bytes usage) (CopyRealGLErrorsToWrapper d);
              let (err, d2) = PeekGLError d1;
              if err = GL_NO_ERROR
              then do {
                m1 \<leftarrow> bm_SetInfo r sz usage (vd_buffers d2);
                (_, m2) \<leftarrow> set_range r 0 sz bytes m1;
                Some (d2\<lparr>vd_buffers := m2\<rparr>)
              }
              else Some d2
            }
          })"

definition DoBufferSubData ::
  "(gl_call list \<Rightarrow> u32 list) \<Rightarrow> u32 \<Rightarrow> int \<Rightarrow> int \<Rightarrow> u8 list \<Rightarrow> VertexDecoder \<Rightarrow> VertexDecoder option" where
  "DoBufferSubData raises target offset sz data d =
     (case GetBufferInfoForTarget target d of
        None \<Rightarrow> Some (SetGLError GL_INVALID_VALUE d)
      | Some r \<Rightarrow> do {
          (ok, m) \<leftarrow> set_range r offset sz data (vd_buffers d);
          if \<not> ok then Some (SetGLError GL_INVALID_VALUE d)
          else do {
            b \<leftarrow> bm_deref r m;
            if vd_bufferdata_faster_than_buffersubdata d \<and> offset = 0 \<and> sz = bi_size b
            then Some (gl raises (GlBufferData target sz data (bi_usage b)) (d\<lparr>vd_buffers := m\<rparr>))
            else Some (gl raises (GlBufferSubData target offset sz data) (d\<lparr>vd_buffers := m\<rparr>))
          }
        })"

subsection \<open>Vertex attributes\<close>

text \<open>\<open>egl\<close>: the GL implementation is \<^verbatim>\<open>kGLImplementationEGLGLES2\<close>.\<close>

definition DoDisableVertexAttribArray :: "(gl_call list \<Rightarrow> u32 list) \<Rightarrow> bool \<Rightarrow> u32 \<Rightarrow> VertexDecoder \<Rightarrow> VertexDecoder" where
  "DoDisableVertexAttribArray raises egl index d =
     (let (ok, vm) = vm_Enable index False (vd_attribs d) in
      if ok then
        let d1 = d\<lparr>vd_attribs := vm\<rparr> in
        if index \<noteq> 0 \<or> egl then gl raises (GlDisableVertexAttribArray index) d1 else d1
      else SetGLError GL_INVALID_VALUE d)"

definition DoEnableVertexAttribArray :: "(gl_call list \<Rightarrow> u32 list) \<Rightarrow> u32 \<Rightarrow> VertexDecoder \<Rightarrow> VertexDecoder" where
  "DoEnableVertexAttribArray raises index d =
     (let (ok, vm) = vm_Enable index True (vd_attribs d) in
      if ok then gl raises (GlEnableVertexAttribArray index) (d\<lparr>vd_attribs := vm\<rparr>)
      else SetGLError GL_INVALID_VALUE d)"

text \<open>The fields of the command. Division by a component size of zero is \<^const>\<open>None\<close>.\<close>

definition HandleVertexAttribPointer ::
  "(gl_call list \<Rightarrow> u32 list) \<Rightarrow> u32 \<Rightarrow> int \<Rightarrow> u32 \<Rightarrow> bool \<Rightarrow> int \<Rightarrow> int \<Rightarrow> VertexDecoder \<Rightarrow> VertexDecoder option" where
  "HandleVertexAttribPointer raises indx sz type normalized stride offset d =
     (case vd_bound_array_buffer d of
        None \<Rightarrow> Some (SetGLError GL_INVALID_VALUE d)
      | Some r \<Rightarrow> do {
          b \<leftarrow> bm_deref r (vd_buffers d);
          if bi_IsDeleted b then Some (SetGLError GL_INVALID_VALUE d)
          else if \<not> IsValid (vd_vertex_attrib_type d) type then Some (SetGLError GL_INVALID_ENUM d)
          else if \<not> IsValid valid_vertex_attrib_size_table sz then Some (SetGLError GL_INVALID_VALUE d)
          else if indx \<ge> vd_max_vertex_attribs d then Some (SetGLError GL_INVALID_VALUE d)
          else if stride < 0 then Some (SetGLError GL_INVALID_VALUE d)
          else if stride > 255 then Some (SetGLError GL_INVALID_VALUE d)
          else if offset < 0 then Some (SetGLError GL_INVALID_VALUE d)
          else let component_size = uint (GetGLTypeSizeForTexturesAndBuffers type) in
          if component_size = 0 then None
          else if offset mod component_size > 0 then Some (SetGLError GL_INVALID_OPERATION d)
          else if stride mod component_size > 0 then Some (SetGLError GL_INVALID_OPERATION d)
          else do {
            (vm, m) \<leftarrow> SetAttribInfo indx (Some r) sz type normalized stride
                        (if stride \<noteq> 0 then stride else component_size * sz) offset (vd_attribs d) (vd_buffers d);
            let d1 = d\<lparr>vd_attribs := vm, vd_buffers := m\<rparr>;
            if type \<noteq> GL_FIXED then Some (gl raises (GlVertexAttribPointer indx sz type normalized stride offset) d1)
            else Some d1
          }
        })"

text \<open>The branch of \<^verbatim>\<open>HandleEnableFeatureCHROMIUM\<close> for \<^verbatim>\<open>pepper3d_support_fixed_attribs\<close>.\<close>

definition support_fixed_attribs :: "VertexDecoder \<Rightarrow> VertexDecoder" where
  "support_fixed_attribs d =
     d\<lparr>vd_buffers := (vd_buffers d)\<lparr>bm_allow_buffers_on_multiple_targets := True\<rparr>,
       vd_vertex_attrib_type := AddValue GL_FIXED (vd_vertex_attrib_type d)\<rparr>"

subsection \<open>Draw calls\<close>

text \<open>\<^verbatim>\<open>ProgramInfo::GetAttribInfoByLocation\<close>: the index of the attribute's info, if the program uses the location.\<close>

definition GetAttribInfoByLocation :: "u32 \<Rightarrow> int list \<Rightarrow> int option" where
  "GetAttribInfoByLocation location location_to_index =
     (if unat location < length location_to_index
      then let index = location_to_index ! unat location in if index \<ge> 0 then Some index else None
      else None)"

fun check_attribs :: "u32 \<Rightarrow> int list \<Rightarrow> nat list \<Rightarrow> VertexDecoder \<Rightarrow> (bool \<times> VertexDecoder) option" where
  "check_attribs max_vertex_accessed program [] d = Some (True, d)"
| "check_attribs max_vertex_accessed program (i # is) d =
     (let v = vm_vertex_attrib_infos (vd_attribs d) ! i in
      case GetAttribInfoByLocation (va_index v) program of
        Some _ \<Rightarrow> do {
          ok \<leftarrow> CanAccess max_vertex_accessed v (vd_buffers d);
          if \<not> ok then Some (False, SetGLError GL_INVALID_OPERATION d)
          else check_attribs max_vertex_accessed program is d
        }
      | None \<Rightarrow>
          if va_buffer v = None then Some (False, SetGLError GL_INVALID_OPERATION d)
          else check_attribs max_vertex_accessed program is d)"

definition IsDrawValid :: "u32 \<Rightarrow> VertexDecoder \<Rightarrow> (bool \<times> VertexDecoder) option" where
  "IsDrawValid max_vertex_accessed d =
     (case vd_current_program d of
        None \<Rightarrow> Some (False, d)
      | Some program \<Rightarrow> check_attribs max_vertex_accessed program (vm_enabled_vertex_attribs (vd_attribs d)) d)"

definition DoGetMaxValueInBufferCHROMIUM :: "u32 \<Rightarrow> int \<Rightarrow> u32 \<Rightarrow> u32 \<Rightarrow> VertexDecoder \<Rightarrow> (u32 \<times> VertexDecoder) option" where
  "DoGetMaxValueInBufferCHROMIUM buffer_id count type offset d =
     (case GetBufferInfo buffer_id (vd_buffers d) of
        None \<Rightarrow> Some (0, SetGLError GL_INVALID_VALUE d)
      | Some r \<Rightarrow> do {
          b \<leftarrow> bm_deref r (vd_buffers d);
          (v, b') \<leftarrow> GetMaxValueForRange offset count type b;
          let d1 = d\<lparr>vd_buffers := bm_store r (Some b') (vd_buffers d)\<rparr>;
          (case v of
             None \<Rightarrow> Some (0, SetGLError GL_INVALID_OPERATION d1)
           | Some n \<Rightarrow> Some (n, d1))
        })"

subsection \<open>The invariant\<close>

text \<open>
  \<open>other r\<close> is the number of references that other decoders of the group hold. The references of this
  decoder are those of its attributes and of its two binding points.
\<close>

definition vd_refs :: "VertexDecoder \<Rightarrow> info_ref \<Rightarrow> nat" where
  "vd_refs d r = attrib_refs (vm_vertex_attrib_infos (vd_attribs d)) r +
     opt_count (vd_bound_array_buffer d) r + opt_count (vd_bound_element_array_buffer d) r"

definition vd_inv :: "VertexDecoder \<Rightarrow> (info_ref \<Rightarrow> nat) \<Rightarrow> bool" where
  "vd_inv d other \<longleftrightarrow> vm_inv (vd_attribs d) \<and> vm_max_vertex_attribs (vd_attribs d) = vd_max_vertex_attribs d \<and>
     bm_inv (vd_buffers d) (\<lambda>r. other r + vd_refs d r) \<and>
     (\<forall>t \<in> set (vd_vertex_attrib_type d). GetGLTypeSizeForTexturesAndBuffers t \<noteq> 0)"

lemma vd_invI:
  assumes "vd_inv d other" and "bm_inv m (\<lambda>r. other r + vd_refs d r)"
  shows "vd_inv (d\<lparr>vd_buffers := m\<rparr>) other"
  using assms by (simp add: vd_inv_def vd_refs_def)

lemma vd_inv_buffers: "vd_inv d other \<Longrightarrow> bm_inv (vd_buffers d) (\<lambda>r. other r + vd_refs d r)"
  by (simp add: vd_inv_def)

lemma vd_inv_frame [simp]:
  "vd_inv (d\<lparr>vd_error_bits := x\<rparr>) other = vd_inv d other" "vd_inv (d\<lparr>vd_gl := g\<rparr>) other = vd_inv d other"
  "vd_inv (d\<lparr>vd_gl_errors := es\<rparr>) other = vd_inv d other" "vd_inv (d\<lparr>vd_buffer_ids := a\<rparr>) other = vd_inv d other"
  "vd_inv (d\<lparr>vd_current_program := p\<rparr>) other = vd_inv d other"
  by (simp_all add: vd_inv_def vd_refs_def)

lemma vd_inv_gl [simp]: "vd_inv (gl raises c d) other = vd_inv d other" "vd_inv (SetGLError e d) other = vd_inv d other"
  by (simp_all add: gl_def SetGLError_def)

lemma gl_simps [simp]:
  "vd_buffers (gl raises c d) = vd_buffers d" "vd_bound_array_buffer (gl raises c d) = vd_bound_array_buffer d"
  "vd_bound_element_array_buffer (gl raises c d) = vd_bound_element_array_buffer d" "vd_attribs (gl raises c d) = vd_attribs d"
  "vd_buffers (SetGLError e d) = vd_buffers d" "vd_attribs (SetGLError e d) = vd_attribs d"
  "vd_current_program (SetGLError e d) = vd_current_program d"
  by (simp_all add: gl_def SetGLError_def)

lemma CopyReal_frame: "\<exists>x. CopyRealGLErrorsToWrapper d = d\<lparr>vd_error_bits := x, vd_gl_errors := vd_gl_errors (CopyRealGLErrorsToWrapper d)\<rparr>"
proof (induction d rule: CopyRealGLErrorsToWrapper.induct)
  case (1 d)
  obtain err d1 where g: "glGetError d = (err, d1)" by fastforce
  then have d1: "d1 = d\<lparr>vd_gl_errors := vd_gl_errors d1\<rparr>" by (auto simp: glGetError_def split: list.splits)
  show ?case
  proof (cases "err = GL_NO_ERROR")
    case True
    with g have "CopyRealGLErrorsToWrapper d = d1" by (subst CopyRealGLErrorsToWrapper.simps) simp
    with d1 show ?thesis by (intro exI [of _ "vd_error_bits d"]) simp
  next
    case False
    with g have eq: "CopyRealGLErrorsToWrapper d = CopyRealGLErrorsToWrapper (SetGLError err d1)"
      by (subst CopyRealGLErrorsToWrapper.simps) simp
    from 1 [OF g [symmetric] False] obtain x where
      "CopyRealGLErrorsToWrapper d = (SetGLError err d1)\<lparr>vd_error_bits := x, vd_gl_errors := vd_gl_errors (CopyRealGLErrorsToWrapper d)\<rparr>"
      unfolding eq by blast
    moreover have "(SetGLError err d1)\<lparr>vd_error_bits := x, vd_gl_errors := es\<rparr> = d\<lparr>vd_error_bits := x, vd_gl_errors := es\<rparr>" for es
      by (subst d1) (simp add: SetGLError_def)
    ultimately show ?thesis by metis
  qed
qed

lemma CopyReal_simps [simp]:
  "vd_buffers (CopyRealGLErrorsToWrapper d) = vd_buffers d" "vd_inv (CopyRealGLErrorsToWrapper d) other = vd_inv d other"
  using CopyReal_frame [of d] by (metis VertexDecoder.select_convs(1) VertexDecoder.surjective VertexDecoder.update_convs(11,13),
    metis vd_inv_frame(1,3))

lemma PeekGLError_frame:
  "PeekGLError d = (err, d') \<Longrightarrow> vd_buffers d' = vd_buffers d \<and> vd_inv d' other = vd_inv d other"
  by (auto simp: PeekGLError_def glGetError_def Let_def split: list.splits if_splits)

lemma vd_live:
  assumes "vd_inv d other" and "0 < vd_refs d r"
  shows "\<exists>b. bm_deref r (vd_buffers d) = Some b \<and> info_ok b"
proof -
  have h: "heap_ok (vd_buffers d) (\<lambda>r. other r + vd_refs d r)" by (rule bm_inv_heap_ok [OF vd_inv_buffers [OF assms(1)]])
  with assms(2) heap_ok_live [OF h, of r] heap_okD(3) [OF h] show ?thesis by (auto simp: owners_def)
qed

lemma vd_live_target:
  assumes "vd_inv d other" and "GetBufferInfoForTarget target d = Some r"
  shows "\<exists>b. bm_deref r (vd_buffers d) = Some b \<and> info_ok b"
  using assms(2) by (intro vd_live [OF assms(1)]) (auto simp: GetBufferInfoForTarget_def vd_refs_def opt_count_def split: if_splits)

lemma vd_live_table:
  assumes "vd_inv d other" and "GetBufferInfo c (vd_buffers d) = Some r"
  shows "\<exists>b. bm_deref r (vd_buffers d) = Some b \<and> info_ok b"
proof -
  have h: "heap_ok (vd_buffers d) (\<lambda>r. other r + vd_refs d r)" by (rule bm_inv_heap_ok [OF vd_inv_buffers [OF assms(1)]])
  have "r \<in> set (map snd (bm_buffer_infos (vd_buffers d)))" using assms(2) by (force simp: GetBufferInfo_def dest: map_of_SomeD)
  then have "0 < owners (vd_buffers d) (\<lambda>r. other r + vd_refs d r) r" by (metis (no_types, lifting) add_gr_0 count_list_0_iff gr0I owners_def)
  with heap_ok_live [OF h] heap_okD(3) [OF h] show ?thesis by blast
qed

subsection \<open>Every handler returns and keeps the invariant\<close>

lemma set_bound_array_inv:
  assumes inv: "vd_inv d other" and live: "\<And>r. new = Some r \<Longrightarrow> bm_deref r (vd_buffers d) \<noteq> None"
  shows "\<exists>m. set_bound_array new d = Some (d\<lparr>vd_bound_array_buffer := new, vd_buffers := m\<rparr>) \<and>
    vd_inv (d\<lparr>vd_bound_array_buffer := new, vd_buffers := m\<rparr>) other \<and> only_counts (vd_buffers d) m"
proof -
  let ?ext = "\<lambda>r. other r + attrib_refs (vm_vertex_attrib_infos (vd_attribs d)) r + opt_count (vd_bound_element_array_buffer d) r"
  have "bm_inv (vd_buffers d) (\<lambda>r. ?ext r + opt_count (vd_bound_array_buffer d) r)"
    using vd_inv_buffers [OF inv] by (simp add: vd_refs_def ac_simps)
  from assign_ref_inv [OF this, of new, OF live] obtain m where m: "assign_ref (vd_bound_array_buffer d) new (vd_buffers d) = Some m"
    "bm_inv m (\<lambda>r. ?ext r + opt_count new r)" "only_counts (vd_buffers d) m" by auto
  have "vd_inv (d\<lparr>vd_bound_array_buffer := new, vd_buffers := m\<rparr>) other"
    using inv m(2) by (simp add: vd_inv_def vd_refs_def ac_simps)
  with m show ?thesis by (intro exI [of _ m]) (simp add: set_bound_array_def)
qed

lemma set_bound_element_array_inv:
  assumes inv: "vd_inv d other" and live: "\<And>r. new = Some r \<Longrightarrow> bm_deref r (vd_buffers d) \<noteq> None"
  shows "\<exists>m. set_bound_element_array new d = Some (d\<lparr>vd_bound_element_array_buffer := new, vd_buffers := m\<rparr>) \<and>
    vd_inv (d\<lparr>vd_bound_element_array_buffer := new, vd_buffers := m\<rparr>) other \<and> only_counts (vd_buffers d) m"
proof -
  let ?ext = "\<lambda>r. other r + attrib_refs (vm_vertex_attrib_infos (vd_attribs d)) r + opt_count (vd_bound_array_buffer d) r"
  have "bm_inv (vd_buffers d) (\<lambda>r. ?ext r + opt_count (vd_bound_element_array_buffer d) r)"
    using vd_inv_buffers [OF inv] by (simp add: vd_refs_def ac_simps)
  from assign_ref_inv [OF this, of new, OF live] obtain m where m: "assign_ref (vd_bound_element_array_buffer d) new (vd_buffers d) = Some m"
    "bm_inv m (\<lambda>r. ?ext r + opt_count new r)" "only_counts (vd_buffers d) m" by auto
  have "vd_inv (d\<lparr>vd_bound_element_array_buffer := new, vd_buffers := m\<rparr>) other"
    using inv m(2) by (simp add: vd_inv_def vd_refs_def ac_simps)
  with m show ?thesis by (intro exI [of _ m]) (simp add: set_bound_element_array_def)
qed

lemma create_infos_inv: "bm_inv m ext \<Longrightarrow> \<exists>m'. create_infos ps m = Some m' \<and> bm_inv m' ext"
proof (induction ps arbitrary: m)
  case (Cons p ps)
  obtain c s where p: "p = (c, s)" by fastforce
  from CreateBufferInfo_inv [OF Cons.prems, of c s] obtain m1 where "CreateBufferInfo c s m = Some m1" "bm_inv m1 ext" by blast
  with Cons.IH [of m1] p show ?case by simp
qed simp

lemma GenBuffersHelper_inv:
  assumes "vd_inv d other"
  shows "\<exists>ok d'. GenBuffersHelper raises gen client_ids d = Some (ok, d') \<and> vd_inv d' other"
proof (cases "\<exists>c \<in> set client_ids. GetBufferInfo c (vd_buffers d) \<noteq> None")
  case False
  let ?d = "gl raises (GlGenBuffers (int (length client_ids))) d"
  have i: "vd_inv ?d other" using assms by simp
  from create_infos_inv [OF vd_inv_buffers [OF i]] obtain m where
    "create_infos (zip client_ids (map (gen (vd_gl ?d)) [0..<length client_ids])) (vd_buffers ?d) = Some m"
    "bm_inv m (\<lambda>r. other r + vd_refs ?d r)" by blast
  with vd_invI [OF i] False show ?thesis
    by (intro exI [of _ True] exI [of _ "?d\<lparr>vd_buffers := m\<rparr>"]) (simp add: GenBuffersHelper_def Let_def)
qed (use assms in \<open>auto simp: GenBuffersHelper_def\<close>)

lemma delete_buffer_inv:
  assumes inv: "vd_inv d other"
  shows "\<exists>d'. delete_buffer client_id r d = Some d' \<and> vd_inv d' other \<and> vd_refs d' r = 0 \<and>
    GetBufferInfo client_id (vd_buffers d') = None"
proof -
  let ?ext = "\<lambda>r. other r + opt_count (vd_bound_array_buffer d) r + opt_count (vd_bound_element_array_buffer d) r"
  have vm: "vm_inv (vd_attribs d)" using inv by (simp add: vd_inv_def)
  have "bm_inv (vd_buffers d) (\<lambda>r. ?ext r + attrib_refs (vm_vertex_attrib_infos (vd_attribs d)) r)"
    using vd_inv_buffers [OF inv] by (simp add: vd_refs_def ac_simps)
  from vm_Unbind_inv [OF vm this, of r] obtain vm' m' where u: "vm_Unbind r (vd_attribs d) (vd_buffers d) = Some (vm', m')"
    "vm_inv vm'" "vm_vertex_attrib_infos vm' = map (unbound r) (vm_vertex_attrib_infos (vd_attribs d))"
    "vm_max_vertex_attribs vm' = vm_max_vertex_attribs (vd_attribs d)"
    "bm_inv m' (\<lambda>r. ?ext r + attrib_refs (vm_vertex_attrib_infos vm') r)" by blast
  define d1 where "d1 = d\<lparr>vd_attribs := vm', vd_buffers := m'\<rparr>"
  have i1: "vd_inv d1 other"
    using inv u(2,4,5) unfolding vd_inv_def d1_def vd_refs_def by (simp add: ac_simps)
  have "opt_count (va_buffer (unbound r v)) r = 0" for v by (simp add: unbound_def opt_count_def)
  then have z: "attrib_refs (map (unbound r) vs) r = 0" for vs by (simp only: attrib_refs_def map_map o_def) simp
  obtain d2 where d2: "(if vd_bound_array_buffer d1 = Some r then set_bound_array None d1 else Some d1) = Some d2"
    "vd_inv d2 other" "vd_attribs d2 = vm'" "vd_bound_array_buffer d2 \<noteq> Some r"
    using set_bound_array_inv [OF i1, of None] i1 by (cases "vd_bound_array_buffer d1 = Some r") (auto simp: d1_def)
  obtain d3 where d3: "(if vd_bound_element_array_buffer d2 = Some r then set_bound_element_array None d2 else Some d2) = Some d3"
    "vd_inv d3 other" "vd_attribs d3 = vm'" "vd_bound_array_buffer d3 \<noteq> Some r" "vd_bound_element_array_buffer d3 \<noteq> Some r"
    using set_bound_element_array_inv [OF d2(2), of None] d2 by (cases "vd_bound_element_array_buffer d2 = Some r") auto
  from RemoveBufferInfo_inv [OF vd_inv_buffers [OF d3(2)], of client_id] obtain m3 where
    m3: "RemoveBufferInfo client_id (vd_buffers d3) = Some m3" "bm_inv m3 (\<lambda>r. other r + vd_refs d3 r)"
    "bm_buffer_infos m3 = filter (\<lambda>(c, _). c \<noteq> client_id) (bm_buffer_infos (vd_buffers d3))" by blast
  have "vd_refs (d3\<lparr>vd_buffers := m3\<rparr>) r = 0" using d3(3-5) u(3) z by (simp add: vd_refs_def opt_count_def)
  moreover have "GetBufferInfo client_id m3 = None" unfolding GetBufferInfo_def m3(3) by (auto simp: map_of_eq_None_iff)
  moreover have "delete_buffer client_id r d = Some (d3\<lparr>vd_buffers := m3\<rparr>)"
    by (simp only: delete_buffer_def u(1) d2(1) d3(1) m3(1) d1_def [symmetric] Let_def Option.bind.simps prod.case)
  ultimately show ?thesis using vd_invI [OF d3(2) m3(2)] by simp
qed

lemma DeleteBuffersHelper_inv: "vd_inv d other \<Longrightarrow> \<exists>d'. DeleteBuffersHelper client_ids d = Some d' \<and> vd_inv d' other"
proof (induction client_ids arbitrary: d)
  case (Cons c cs)
  show ?case
  proof (cases "GetBufferInfo c (vd_buffers d)")
    case None
    with Cons show ?thesis by simp
  next
    case (Some r)
    from vd_live_table [OF Cons.prems this] obtain b where b: "bm_deref r (vd_buffers d) = Some b" by blast
    from delete_buffer_inv [OF Cons.prems, of c r] obtain d1 where "delete_buffer c r d = Some d1" "vd_inv d1 other" by blast
    with Cons.IH [of d1] Cons.IH [OF Cons.prems] Some b show ?thesis by simp
  qed
qed simp

lemma bind_lookup_inv:
  assumes inv: "vd_inv d other"
  shows "\<exists>found d'. bind_lookup raises gen client_id d = Some (found, d') \<and> vd_inv d' other \<and>
    (\<forall>r. found = Some (Some r) \<longrightarrow> GetBufferInfo client_id (vd_buffers d') = Some r)"
proof (cases "client_id = 0 \<or> GetBufferInfo client_id (vd_buffers d) \<noteq> None \<or> \<not> vd_bind_generates_resource d")
  case True
  with inv show ?thesis by (auto simp: bind_lookup_def split: option.splits)
next
  case False
  let ?d = "gl raises (GlGenBuffers 1) d"
  have i: "vd_inv ?d other" using inv by simp
  from CreateBufferInfo_inv [OF vd_inv_buffers [OF i], of client_id "gen (vd_gl ?d) 0"] obtain m where
    m: "CreateBufferInfo client_id (gen (vd_gl ?d) 0) (vd_buffers ?d) = Some m" "bm_inv m (\<lambda>r. other r + vd_refs ?d r)" by blast
  let ?d' = "?d\<lparr>vd_buffers := m, vd_buffer_ids := snd (MarkAsUsed client_id (vd_buffer_ids ?d))\<rparr>"
  have "bind_lookup raises gen client_id d = Some (Some (GetBufferInfo client_id m), ?d')"
    using False m(1) by (simp add: bind_lookup_def Let_def)
  with vd_invI [OF i m(2)] show ?thesis by simp
qed

lemma bind_info_inv:
  assumes "vd_inv d other" and "\<And>r. info = Some r \<Longrightarrow> bm_deref r (vd_buffers d) \<noteq> None"
  shows "\<exists>d'. bind_info raises target info service_id d = Some d' \<and> vd_inv d' other"
  using set_bound_array_inv [OF assms(1), of info, OF assms(2)] set_bound_element_array_inv [OF assms(1), of info, OF assms(2)] assms(1)
  by (auto simp: bind_info_def)

lemma DoBindBuffer_inv:
  assumes inv: "vd_inv d other"
  shows "\<exists>d'. DoBindBuffer raises gen target client_id d = Some d' \<and> vd_inv d' other"
proof -
  from bind_lookup_inv [OF inv, of raises gen client_id] obtain found d1 where f: "bind_lookup raises gen client_id d = Some (found, d1)"
    "vd_inv d1 other" "\<forall>r. found = Some (Some r) \<longrightarrow> GetBufferInfo client_id (vd_buffers d1) = Some r" by blast
  consider "found = None" | "found = Some None" | r where "found = Some (Some r)" by (cases found) auto
  then show ?thesis
  proof cases
    case 3
    with f(3) vd_live_table [OF f(2), of client_id r] obtain b where b: "bm_deref r (vd_buffers d1) = Some b" by blast
    from SetTarget_inv [OF vd_inv_buffers [OF f(2)] b, of target] obtain ok m b' where
      m: "bm_SetTarget r target (vd_buffers d1) = Some (ok, m)" "bm_inv m (\<lambda>r. other r + vd_refs d1 r)" "bm_deref r m = Some b'" by blast
    from bind_info_inv [OF vd_invI [OF f(2) m(2)], of "Some r" raises target "bi_service_id b'"] m(3) obtain d2 where
      "bind_info raises target (Some r) (bi_service_id b') (d1\<lparr>vd_buffers := m\<rparr>) = Some d2" "vd_inv d2 other" by auto
    with 3 f m show ?thesis by (cases ok) (simp_all add: DoBindBuffer_def)
  qed (use f bind_info_inv [OF f(2), of None] in \<open>auto simp: DoBindBuffer_def\<close>)
qed

lemma set_range_inv:
  assumes inv: "bm_inv m ext" and b: "bm_deref r m = Some b"
    and args: "- 2147483648 \<le> offset" "offset < 2147483648" "- 2147483648 \<le> sz" "sz < 2147483648" "sz \<le> int (length data)"
  shows "\<exists>ok m' b'. set_range r offset sz data m = Some (ok, m') \<and> bm_inv m' ext \<and> bm_deref r m' = Some b' \<and> info_ok b' \<and>
    bi_size b' = bi_size b \<and> (ok \<longleftrightarrow> 0 \<le> offset \<and> 0 \<le> sz \<and> offset + sz \<le> bi_size b)"
proof -
  have i: "info_ok b" by (rule heap_okD(3) [OF bm_inv_heap_ok [OF inv] b])
  from bi_SetRange_ok [OF i args] i obtain ok b' where b': "bi_SetRange offset sz data b = Some (ok, b')" "info_ok b'"
    "ok \<longleftrightarrow> 0 \<le> offset \<and> 0 \<le> sz \<and> offset + sz \<le> bi_size b" by (auto split: if_splits)
  note k = bi_SetRange_keeps [OF b'(1)]
  have "bm_inv (bm_store r (Some b') m) ext" using k b'(2) by (intro bm_inv_store_same [OF inv b]) simp_all
  moreover have "bm_deref r (bm_store r (Some b') m) = Some b'" using b by (elim bm_derefE) (simp add: bm_deref_store)
  ultimately show ?thesis using b b' k by (simp add: set_range_def)
qed

lemma DoBufferData_inv:
  assumes inv: "vd_inv d other" and sz: "sz < 2147483648" and data: "\<And>bs. data = Some bs \<Longrightarrow> sz \<le> int (length bs)"
  shows "\<exists>d'. DoBufferData raises target sz data usage d = Some d' \<and> vd_inv d' other"
proof (cases "IsValid valid_buffer_target_table target \<and> IsValid valid_buffer_usage_table usage \<and> 0 \<le> sz \<and> GetBufferInfoForTarget target d \<noteq> None")
  case False
  with inv show ?thesis by (auto simp: DoBufferData_def not_le)
next
  case True
  then obtain r where r: "GetBufferInfoForTarget target d = Some r" by auto
  define bytes where "bytes = (case data of None \<Rightarrow> replicate (nat sz) 0 | Some bs \<Rightarrow> bs)"
  have len: "sz \<le> int (length bytes)" using True data by (cases data) (simp_all add: bytes_def)
  have rng: "- 2147483648 \<le> (0 :: int)" "(0 :: int) < 2147483648" "- 2147483648 \<le> sz" using True by simp_all
  from vd_live_target [OF inv r] obtain b where b: "bm_deref r (vd_buffers d) = Some b" by blast
  show ?thesis
  proof (cases "\<not> vd_bufferdata_faster_than_buffersubdata d \<and> sz = bi_size b \<and> usage = bi_usage b")
    case same: True
    let ?d = "gl raises (GlBufferSubData target 0 sz bytes) d"
    have i: "vd_inv ?d other" using inv by simp
    from set_range_inv [OF vd_inv_buffers [OF i] _ rng(1,2,3) sz len, of r b] b obtain ok m where
      "set_range r 0 sz bytes (vd_buffers ?d) = Some (ok, m)" "bm_inv m (\<lambda>r. other r + vd_refs ?d r)" by auto
    moreover have "\<not> vd_bufferdata_faster_than_buffersubdata d" "bi_size b = sz" "bi_usage b = usage" using same by simp_all
    ultimately show ?thesis using vd_invI [OF i] True r b by (simp add: DoBufferData_def Let_def bytes_def [symmetric])
  next
    case other_size: False
    let ?d = "gl raises (GlBufferData target sz bytes usage) (CopyRealGLErrorsToWrapper d)"
    obtain err d2 where p: "PeekGLError ?d = (err, d2)" by fastforce
    from PeekGLError_frame [OF p, of other] inv have i: "vd_inv d2 other" "vd_buffers d2 = vd_buffers d" by simp_all
    show ?thesis
    proof (cases "err = GL_NO_ERROR")
      case ok: True
      from SetInfo_inv [OF vd_inv_buffers [OF i(1)], of r b sz usage] b i(2) True sz obtain m1 b1 where
        m1: "bm_SetInfo r sz usage (vd_buffers d2) = Some m1" "bm_inv m1 (\<lambda>r. other r + vd_refs d2 r)" "bm_deref r m1 = Some b1" by auto
      from set_range_inv [OF m1(2,3) rng(1,2,3) sz len] obtain fine m2 where
        "set_range r 0 sz bytes m1 = Some (fine, m2)" "bm_inv m2 (\<lambda>r. other r + vd_refs d2 r)" by blast
      with vd_invI [OF i(1)] ok True r b p m1(1) show ?thesis
        by (simp add: DoBufferData_def Let_def bytes_def [symmetric] if_not_P [OF other_size])
    qed (use True r b p i in \<open>simp add: DoBufferData_def Let_def bytes_def [symmetric] if_not_P [OF other_size]\<close>)
  qed
qed

lemma DoBufferSubData_inv:
  assumes inv: "vd_inv d other"
    and args: "- 2147483648 \<le> offset" "offset < 2147483648" "- 2147483648 \<le> sz" "sz < 2147483648" "sz \<le> int (length data)"
  shows "\<exists>d'. DoBufferSubData raises target offset sz data d = Some d' \<and> vd_inv d' other"
proof (cases "GetBufferInfoForTarget target d")
  case None
  with inv show ?thesis by (simp add: DoBufferSubData_def)
next
  case (Some r)
  from vd_live_target [OF inv Some] obtain b where "bm_deref r (vd_buffers d) = Some b" by blast
  from set_range_inv [OF vd_inv_buffers [OF inv] this args] obtain ok m b' where
    "set_range r offset sz data (vd_buffers d) = Some (ok, m)" "bm_inv m (\<lambda>r. other r + vd_refs d r)" "bm_deref r m = Some b'" by blast
  with vd_invI [OF inv] Some inv show ?thesis by (cases ok) (simp_all add: DoBufferSubData_def)
qed

lemma vd_inv_Enable:
  assumes inv: "vd_inv d other" and e: "vm_Enable index enable (vd_attribs d) = (ok, vm)"
  shows "vd_inv (d\<lparr>vd_attribs := vm\<rparr>) other"
proof -
  have "vm_inv (vd_attribs d)" using inv by (simp add: vd_inv_def)
  from vm_Enable_inv [OF this, of index enable] e have vm: "vm_inv vm" "vm_max_vertex_attribs vm = vm_max_vertex_attribs (vd_attribs d)"
    "map va_buffer (vm_vertex_attrib_infos vm) = map va_buffer (vm_vertex_attrib_infos (vd_attribs d))" by simp_all
  have refs: "attrib_refs vs r = sum_list (map (\<lambda>x. opt_count x r) (map va_buffer vs))" for vs r by (simp add: attrib_refs_def o_def)
  have "attrib_refs (vm_vertex_attrib_infos vm) = attrib_refs (vm_vertex_attrib_infos (vd_attribs d))"
    by (rule ext) (simp only: refs vm(3))
  with inv vm(1,2) show ?thesis by (simp add: vd_inv_def vd_refs_def)
qed

lemma EnableDisable_inv:
  assumes "vd_inv d other"
  shows "vd_inv (DoEnableVertexAttribArray raises index d) other" and "vd_inv (DoDisableVertexAttribArray raises egl index d) other"
  using vd_inv_Enable [OF assms] assms
  by (auto simp: DoEnableVertexAttribArray_def DoDisableVertexAttribArray_def Let_def split: prod.splits)

lemma HandleVertexAttribPointer_inv:
  assumes inv: "vd_inv d other" and range: "offset < 2147483648"
  shows "\<exists>d'. HandleVertexAttribPointer raises indx sz type normalized stride offset d = Some d' \<and> vd_inv d' other"
proof (cases "vd_bound_array_buffer d")
  case None
  with inv show ?thesis by (simp add: HandleVertexAttribPointer_def)
next
  case (Some r)
  then have "GetBufferInfoForTarget GL_ARRAY_BUFFER d = Some r" by (simp add: GetBufferInfoForTarget_def)
  from vd_live_target [OF inv this] obtain b where b: "bm_deref r (vd_buffers d) = Some b" by blast
  define cs where "cs = uint (GetGLTypeSizeForTexturesAndBuffers type)"
  define real where "real = (if stride = 0 then cs * sz else stride)"
  show ?thesis
  proof (cases "IsValid (vd_vertex_attrib_type d) type \<and> IsValid valid_vertex_attrib_size_table sz \<and> 0 \<le> stride \<and> stride \<le> 255 \<and> 0 \<le> offset")
    case False
    with Some b inv show ?thesis by (auto simp: HandleVertexAttribPointer_def not_le)
  next
    case True
    have t: "GetGLTypeSizeForTexturesAndBuffers type \<noteq> 0" using True inv unfolding IsValid_def vd_inv_def by blast
    have "cs = int (unat (GetGLTypeSizeForTexturesAndBuffers type))" by (simp add: cs_def)
    with t have cs: "0 < cs" "cs \<le> 4"
      using type_size_le [of type] u32_zero [of "GetGLTypeSizeForTexturesAndBuffers type"] by linarith+
    have s: "1 \<le> sz" "sz \<le> 4" using True by (auto simp: IsValid_def valid_vertex_attrib_size_table_def)
    have "cs * sz \<le> 4 * 4" using cs s by (intro mult_mono) simp_all
    moreover have "0 < cs * sz" using cs s by simp
    ultimately have real: "0 < real" "real \<le> 255" using True by (auto simp: real_def)
    have ok: "attrib_ok (v\<lparr>va_size := sz, va_type := type, va_real_stride := real, va_offset := offset\<rparr>)" for v
      using True s t real range by (simp add: attrib_ok_def)
    let ?ext = "\<lambda>r. other r + opt_count (vd_bound_array_buffer d) r + opt_count (vd_bound_element_array_buffer d) r"
    have vm: "vm_inv (vd_attribs d)" using inv by (simp add: vd_inv_def)
    have m: "bm_inv (vd_buffers d) (\<lambda>r. ?ext r + attrib_refs (vm_vertex_attrib_infos (vd_attribs d)) r)"
      using vd_inv_buffers [OF inv] by (simp add: vd_refs_def ac_simps)
    have live: "bm_deref r (vd_buffers d) \<noteq> None" using b by simp
    from SetAttribInfo_inv [OF vm m live ok, of indx normalized stride] obtain vm' m' where
      set: "SetAttribInfo indx (Some r) sz type normalized stride real offset (vd_attribs d) (vd_buffers d) = Some (vm', m')"
      and vm': "vm_inv vm'" "bm_inv m' (\<lambda>r. ?ext r + attrib_refs (vm_vertex_attrib_infos vm') r)"
        "vm_max_vertex_attribs vm' = vm_max_vertex_attribs (vd_attribs d)" by blast
    have "vd_inv (d\<lparr>vd_attribs := vm', vd_buffers := m'\<rparr>) other"
      using inv vm' unfolding vd_inv_def vd_refs_def by (simp add: ac_simps)
    then show ?thesis
      using Some b inv True cs(1) set [unfolded real_def]
      by (cases "stride = 0") (simp_all add: HandleVertexAttribPointer_def Let_def cs_def [symmetric] not_le)
  qed
qed

lemma support_fixed_attribs_inv: "vd_inv d other \<Longrightarrow> vd_inv (support_fixed_attribs d) other"
  by (auto simp: support_fixed_attribs_def vd_inv_def vd_refs_def AddValue_def bm_inv_def heap_ok_def owners_def
      GetGLTypeSizeForTexturesAndBuffers_def)

lemma DoGetMaxValue_inv:
  assumes inv: "vd_inv d other" and count: "- 2147483648 \<le> count" "count < 2147483648"
    and type: "type \<in> {GL_UNSIGNED_BYTE, GL_UNSIGNED_SHORT, GL_UNSIGNED_INT}"
  shows "\<exists>n d'. DoGetMaxValueInBufferCHROMIUM buffer_id count type offset d = Some (n, d') \<and> vd_inv d' other"
proof (cases "GetBufferInfo buffer_id (vd_buffers d)")
  case None
  with inv show ?thesis by (simp add: DoGetMaxValueInBufferCHROMIUM_def)
next
  case (Some r)
  from vd_live_table [OF inv this] obtain b where b: "bm_deref r (vd_buffers d) = Some b" "info_ok b" by blast
  from GetMaxValueForRange_ok [OF b(2) count type, of offset] obtain v b' where
    v: "GetMaxValueForRange offset count type b = Some (v, b')" "info_ok b'" by blast
  from GetMaxValueForRange_keeps [OF v(1)] v(2) have "bm_inv (bm_store r (Some b') (vd_buffers d)) (\<lambda>r. other r + vd_refs d r)"
    by (intro bm_inv_store_same [OF vd_inv_buffers [OF inv] b(1)]) simp_all
  from vd_invI [OF inv this] Some b(1) v(1) show ?thesis
    by (cases v) (simp_all add: DoGetMaxValueInBufferCHROMIUM_def Let_def)
qed

subsection \<open>The check before a draw call\<close>

lemma attrib_buffer_live:
  assumes inv: "vd_inv d other" and i: "i < length (vm_vertex_attrib_infos (vd_attribs d))"
    and r: "va_buffer (vm_vertex_attrib_infos (vd_attribs d) ! i) = Some r"
  shows "\<exists>b. bm_deref r (vd_buffers d) = Some b \<and> info_ok b"
proof -
  have "opt_count (va_buffer (vm_vertex_attrib_infos (vd_attribs d) ! i)) r \<le> attrib_refs (vm_vertex_attrib_infos (vd_attribs d)) r"
    unfolding attrib_refs_def using i by (intro member_le_sum_list) auto
  then have "0 < vd_refs d r" using r by (simp add: vd_refs_def opt_count_def)
  from vd_live [OF inv this] show ?thesis .
qed

lemma CanAccess_returns:
  assumes "vd_inv d other" and "i < length (vm_vertex_attrib_infos (vd_attribs d))"
  shows "\<exists>ok. CanAccess n (vm_vertex_attrib_infos (vd_attribs d) ! i) (vd_buffers d) = Some ok"
  using attrib_buffer_live [OF assms] by (fastforce simp: CanAccess_def Let_def split: option.split)

text \<open>What the check promises about one attribute.\<close>

definition attrib_checked :: "u32 \<Rightarrow> int list \<Rightarrow> VertexDecoder \<Rightarrow> nat \<Rightarrow> bool" where
  "attrib_checked n program d i \<longleftrightarrow>
     (let v = vm_vertex_attrib_infos (vd_attribs d) ! i in
      if GetAttribInfoByLocation (va_index v) program \<noteq> None then CanAccess n v (vd_buffers d) = Some True
      else va_buffer v \<noteq> None)"

lemma check_attribs_ok:
  assumes inv: "vd_inv d other"
  shows "set is \<subseteq> {i. i < length (vm_vertex_attrib_infos (vd_attribs d))} \<Longrightarrow>
    check_attribs n program is d =
      Some (if \<forall>i \<in> set is. attrib_checked n program d i then (True, d) else (False, SetGLError GL_INVALID_OPERATION d))"
proof (induction "is")
  case (Cons i "is")
  from Cons.prems CanAccess_returns [OF inv, of i n] obtain ok where
    "CanAccess n (vm_vertex_attrib_infos (vd_attribs d) ! i) (vd_buffers d) = Some ok" by auto
  with Cons show ?case by (auto simp: attrib_checked_def Let_def split: option.split)
qed simp

lemma IsDrawValid_ok:
  assumes inv: "vd_inv d other"
  shows "IsDrawValid n d = Some (case vd_current_program d of None \<Rightarrow> (False, d)
     | Some program \<Rightarrow>
         if \<forall>i. i < length (vm_vertex_attrib_infos (vd_attribs d)) \<longrightarrow> va_enabled (vm_vertex_attrib_infos (vd_attribs d) ! i) \<longrightarrow>
              attrib_checked n program d i
         then (True, d) else (False, SetGLError GL_INVALID_OPERATION d))"
proof (cases "vd_current_program d")
  case (Some program)
  let ?vs = "vm_vertex_attrib_infos (vd_attribs d)"
  have e: "set (vm_enabled_vertex_attribs (vd_attribs d)) = {i. i < length ?vs \<and> va_enabled (?vs ! i)}"
    using inv by (simp add: vd_inv_def vm_inv_def Let_def)
  then have "set (vm_enabled_vertex_attribs (vd_attribs d)) \<subseteq> {i. i < length ?vs}" by auto
  from check_attribs_ok [OF inv this, of n program] Some show ?thesis by (auto simp: IsDrawValid_def e)
qed (simp add: IsDrawValid_def)

subsection \<open>All runs of the decoder\<close>

datatype vd_cmd =
    Gen_Buffers "u32 list"
  | Delete_Buffers "u32 list"
  | Bind_Buffer u32 u32
  | Buffer_Data u32 int "u8 list option" u32
  | Buffer_Sub_Data u32 int int "u8 list"
  | Enable_Attrib u32
  | Disable_Attrib u32
  | Attrib_Pointer u32 int u32 bool int int
  | Support_Fixed
  | Use_Program "int list option"
  | Get_Max_Value u32 int u32 u32
  | Draw u32

fun vd_step ::
  "(gl_call list \<Rightarrow> u32 list) \<Rightarrow> (gl_call list \<Rightarrow> nat \<Rightarrow> u32) \<Rightarrow> bool \<Rightarrow> vd_cmd \<Rightarrow> VertexDecoder \<Rightarrow> VertexDecoder option" where
  "vd_step raises gen egl (Gen_Buffers ids) d = map_option snd (GenBuffersHelper raises gen ids d)"
| "vd_step raises gen egl (Delete_Buffers ids) d = DeleteBuffersHelper ids d"
| "vd_step raises gen egl (Bind_Buffer target buffer) d = HandleBindBuffer raises gen target buffer d"
| "vd_step raises gen egl (Buffer_Data target sz data usage) d = DoBufferData raises target sz data usage d"
| "vd_step raises gen egl (Buffer_Sub_Data target offset sz data) d = DoBufferSubData raises target offset sz data d"
| "vd_step raises gen egl (Enable_Attrib index) d = Some (DoEnableVertexAttribArray raises index d)"
| "vd_step raises gen egl (Disable_Attrib index) d = Some (DoDisableVertexAttribArray raises egl index d)"
| "vd_step raises gen egl (Attrib_Pointer indx sz type normalized stride offset) d =
     HandleVertexAttribPointer raises indx sz type normalized stride offset d"
| "vd_step raises gen egl Support_Fixed d = Some (support_fixed_attribs d)"
| "vd_step raises gen egl (Use_Program p) d = Some (d\<lparr>vd_current_program := p\<rparr>)"
| "vd_step raises gen egl (Get_Max_Value buffer_id count type offset) d =
     map_option snd (DoGetMaxValueInBufferCHROMIUM buffer_id count type offset d)"
| "vd_step raises gen egl (Draw n) d = map_option snd (IsDrawValid n d)"

definition is_int32 :: "int \<Rightarrow> bool" where
  "is_int32 i \<longleftrightarrow> - 2147483648 \<le> i \<and> i < 2147483648"

text \<open>
  The arguments are 32-bit, the data are as long as the handlers have checked them to be, and the type
  of an index is one that the handler of \<^verbatim>\<open>GetMaxValueInBufferCHROMIUM\<close> lets through.
\<close>

fun vd_cmd_ok :: "vd_cmd \<Rightarrow> bool" where
  "vd_cmd_ok (Buffer_Data target sz data usage) \<longleftrightarrow>
     is_int32 sz \<and> (case data of None \<Rightarrow> True | Some bs \<Rightarrow> sz \<le> int (length bs))"
| "vd_cmd_ok (Buffer_Sub_Data target offset sz data) \<longleftrightarrow> is_int32 offset \<and> is_int32 sz \<and> sz \<le> int (length data)"
| "vd_cmd_ok (Attrib_Pointer indx sz type normalized stride offset) \<longleftrightarrow> is_int32 offset"
| "vd_cmd_ok (Get_Max_Value buffer_id count type offset) \<longleftrightarrow>
     is_int32 count \<and> type \<in> {GL_UNSIGNED_BYTE, GL_UNSIGNED_SHORT, GL_UNSIGNED_INT}"
| "vd_cmd_ok _ \<longleftrightarrow> True"

lemma vd_step_inv:
  assumes inv: "vd_inv d other" and ok: "vd_cmd_ok c"
  shows "\<exists>d'. vd_step raises gen egl c d = Some d' \<and> vd_inv d' other"
proof (cases c)
  case (Gen_Buffers ids)
  with GenBuffersHelper_inv [OF inv, of raises gen ids] show ?thesis by auto
next
  case (Delete_Buffers ids)
  with DeleteBuffersHelper_inv [OF inv] show ?thesis by simp
next
  case (Bind_Buffer target buffer)
  with DoBindBuffer_inv [OF inv] inv show ?thesis by (simp add: HandleBindBuffer_def)
next
  case (Buffer_Data target sz data usage)
  with ok have "sz < 2147483648" "\<And>bs. data = Some bs \<Longrightarrow> sz \<le> int (length bs)" by (simp_all add: is_int32_def)
  from DoBufferData_inv [OF inv this] Buffer_Data show ?thesis by simp
next
  case (Buffer_Sub_Data target offset sz data)
  with ok DoBufferSubData_inv [OF inv, of offset sz data] show ?thesis by (auto simp: is_int32_def)
next
  case (Attrib_Pointer indx sz type normalized stride offset)
  with ok HandleVertexAttribPointer_inv [OF inv, of offset] show ?thesis by (simp add: is_int32_def)
next
  case (Get_Max_Value buffer_id count type offset)
  with ok DoGetMaxValue_inv [OF inv, of count type buffer_id offset] show ?thesis by (auto simp: is_int32_def)
next
  case (Draw n)
  with IsDrawValid_ok [OF inv, of n] inv show ?thesis by (auto split: option.split)
qed (use inv EnableDisable_inv [OF inv] support_fixed_attribs_inv [OF inv] in simp_all)

definition new_VertexDecoder :: "BufferManager \<Rightarrow> u32 \<Rightarrow> bool \<Rightarrow> bool \<Rightarrow> VertexDecoder option" where
  "new_VertexDecoder m max_attribs generates faster = do {
     vm \<leftarrow> vm_Initialize max_attribs new_VertexAttribManager;
     Some \<lparr>vd_buffers = m, vd_attribs = vm, vd_bound_array_buffer = None, vd_bound_element_array_buffer = None,
           vd_current_program = None, vd_max_vertex_attribs = max_attribs, vd_bind_generates_resource = generates,
           vd_bufferdata_faster_than_buffersubdata = faster, vd_buffer_ids = new_IdAllocator,
           vd_vertex_attrib_type = valid_vertex_attrib_type_table, vd_error_bits = 0, vd_gl = [], vd_gl_errors = []\<rparr>
   }"

text \<open>
  A decoder joins a group whose buffers are in any reachable state, runs any commands, and between
  them the other decoders of the group bring the buffers into any state in which the references of
  this decoder still count.
\<close>

inductive vd_reach ::
  "(gl_call list \<Rightarrow> u32 list) \<Rightarrow> (gl_call list \<Rightarrow> nat \<Rightarrow> u32) \<Rightarrow> bool \<Rightarrow> VertexDecoder \<Rightarrow> (info_ref \<Rightarrow> nat) \<Rightarrow> bool"
  for raises gen egl where
  new: "bm_reach m other \<Longrightarrow> new_VertexDecoder m max_attribs generates faster = Some d \<Longrightarrow> vd_reach raises gen egl d other"
| step: "vd_reach raises gen egl d other \<Longrightarrow> vd_cmd_ok c \<Longrightarrow> vd_step raises gen egl c d = Some d' \<Longrightarrow> vd_reach raises gen egl d' other"
| others: "vd_reach raises gen egl d other \<Longrightarrow> bm_reach m (\<lambda>r. other' r + vd_refs d r) \<Longrightarrow>
    vd_reach raises gen egl (d\<lparr>vd_buffers := m\<rparr>) other'"

lemma new_VertexDecoder_inv:
  assumes "bm_inv m other"
  shows "\<exists>d. new_VertexDecoder m max_attribs generates faster = Some d \<and> vd_inv d other"
proof -
  from vm_Initialize_inv [of max_attribs] obtain vm where vm: "vm_Initialize max_attribs new_VertexAttribManager = Some vm" "vm_inv vm"
    "vm_max_vertex_attribs vm = max_attribs" "vm_vertex_attrib_infos vm = map fresh_info [0..<unat max_attribs]" by blast
  have "attrib_refs (map fresh_info xs) r = 0" for xs r
    by (simp add: attrib_refs_def o_def fresh_info_def new_VertexAttribInfo_def)
  with assms vm show ?thesis
    by (simp add: new_VertexDecoder_def vd_inv_def vd_refs_def valid_vertex_attrib_type_table_def GetGLTypeSizeForTexturesAndBuffers_def)
qed

lemma vd_reach_inv: "vd_reach raises gen egl d other \<Longrightarrow> vd_inv d other"
proof (induction rule: vd_reach.induct)
  case (new m other max_attribs generates faster d)
  from new_VertexDecoder_inv [OF bm_reach_inv [OF new(1)], of max_attribs generates faster] new(2) show ?case by auto
next
  case (step d other c d')
  from vd_step_inv [OF step.IH step.hyps(2), of raises gen egl] step.hyps(3) show ?case by auto
next
  case (others d other m other')
  from others.IH bm_reach_inv [OF others.hyps(2)] show ?case by (simp add: vd_inv_def vd_refs_def)
qed

text \<open>Runs of commands, and a sample: two vertices of four floats in a buffer of 32 bytes.\<close>

fun vd_run ::
  "(gl_call list \<Rightarrow> u32 list) \<Rightarrow> (gl_call list \<Rightarrow> nat \<Rightarrow> u32) \<Rightarrow> bool \<Rightarrow> vd_cmd list \<Rightarrow> VertexDecoder \<Rightarrow> VertexDecoder option" where
  "vd_run raises gen egl [] d = Some d"
| "vd_run raises gen egl (c # cs) d = do { d1 \<leftarrow> vd_step raises gen egl c d; vd_run raises gen egl cs d1 }"

lemma vd_reach_run:
  "vd_reach raises gen egl d other \<Longrightarrow> list_all vd_cmd_ok cs \<Longrightarrow> vd_run raises gen egl cs d = Some d' \<Longrightarrow> vd_reach raises gen egl d' other"
  by (induction cs arbitrary: d) (auto intro: vd_reach.step split: Option.bind_splits)

definition sample_raises :: "gl_call list \<Rightarrow> u32 list" where
  "sample_raises calls = []"

definition sample_gen :: "gl_call list \<Rightarrow> nat \<Rightarrow> u32" where
  "sample_gen calls k = of_nat (length calls + k)"

definition sample_cmds :: "vd_cmd list" where
  "sample_cmds = [Gen_Buffers [5], Bind_Buffer GL_ARRAY_BUFFER 5, Buffer_Data GL_ARRAY_BUFFER 32 None GL_STATIC_DRAW,
     Attrib_Pointer 0 4 GL_FLOAT False 0 0, Enable_Attrib 0, Use_Program (Some [0])]"

definition sample_decoder :: "VertexDecoder option" where
  "sample_decoder = do {
     d \<leftarrow> new_VertexDecoder new_BufferManager 2 True True;
     vd_run sample_raises sample_gen True sample_cmds d
   }"

lemma sample_decoder_reach:
  assumes "sample_decoder = Some d"
  shows "vd_reach sample_raises sample_gen True d (\<lambda>_. 0)"
proof -
  from assms obtain d0 where d0: "new_VertexDecoder new_BufferManager 2 True True = Some d0"
    "vd_run sample_raises sample_gen True sample_cmds d0 = Some d"
    by (auto simp: sample_decoder_def split: Option.bind_splits)
  have "list_all vd_cmd_ok sample_cmds" by (simp add: sample_cmds_def is_int32_def)
  with d0 show ?thesis by (intro vd_reach_run [OF vd_reach.new [OF bm_reach.init d0(1)]])
qed

lemma sample_decoder_run:
  "\<exists>d. sample_decoder = Some d \<and> IsDrawValid 1 d = Some (True, d) \<and> va_enabled (vm_vertex_attrib_infos (vd_attribs d) ! 0) \<and>
     length (vm_vertex_attrib_infos (vd_attribs d)) = 2 \<and> vd_current_program d = Some [0] \<and>
     va_index (vm_vertex_attrib_infos (vd_attribs d) ! 0) = 0 \<and> elem_bytes (vm_vertex_attrib_infos (vd_attribs d) ! 0) = 16 \<and>
     va_real_stride (vm_vertex_attrib_infos (vd_attribs d) ! 0) = 16"
proof -
  have "case sample_decoder of None \<Rightarrow> False | Some d \<Rightarrow>
     IsDrawValid 1 d = Some (True, d) \<and> va_enabled (vm_vertex_attrib_infos (vd_attribs d) ! 0) \<and>
     length (vm_vertex_attrib_infos (vd_attribs d)) = 2 \<and> vd_current_program d = Some [0] \<and>
     va_index (vm_vertex_attrib_infos (vd_attribs d) ! 0) = 0 \<and> elem_bytes (vm_vertex_attrib_infos (vd_attribs d) ! 0) = 16 \<and>
     va_real_stride (vm_vertex_attrib_infos (vd_attribs d) ! 0) = 16"
    by code_simp
  then show ?thesis by (auto split: option.splits)
qed

end
