(* ===== verification/Texture_Info.thy ===== *)
theory Texture_Info
  imports Gles2_Utils
begin

text \<open>
  \<^verbatim>\<open>TextureManager::TextureInfo\<close> of \<^verbatim>\<open>gpu/command_buffer/service/texture_manager.h\<close> and \<^verbatim>\<open>texture_manager.cc\<close>: the
  faces and mip levels of a texture, whether they have been cleared, and whether GL may render from
  it. \<^const>\<open>None\<close> is an access outside of \<^verbatim>\<open>level_infos_\<close>. The callback of the decoder that clears a level is an
  argument, \<open>clear\<close>. \<^verbatim>\<open>FeatureInfo\<close> contributes its flags; its validators for filters and wrap modes are
  fixed tables. \<^verbatim>\<open>has_been_bound_\<close>, which nothing reads, is left out.
\<close>

subsection \<open>State\<close>

record FeatureFlags =
  chromium_framebuffer_multisample :: bool
  oes_standard_derivatives :: bool
  oes_egl_image_external :: bool
  npot_ok :: bool
  enable_texture_float_linear :: bool
  enable_texture_half_float_linear :: bool
  chromium_webglsl :: bool
  chromium_stream_texture :: bool
  angle_translated_shader_source :: bool
  angle_pack_reverse_row_order :: bool
  arb_texture_rectangle :: bool

text \<open>The flags of a new \<^verbatim>\<open>FeatureInfo\<close>.\<close>

definition new_FeatureFlags :: FeatureFlags where
  "new_FeatureFlags =
     \<lparr>chromium_framebuffer_multisample = False, oes_standard_derivatives = False, oes_egl_image_external = False, npot_ok = False,
      enable_texture_float_linear = False, enable_texture_half_float_linear = False, chromium_webglsl = False,
      chromium_stream_texture = False, angle_translated_shader_source = False, angle_pack_reverse_row_order = False,
      arb_texture_rectangle = False\<rparr>"

record LevelInfo =
  li_cleared :: bool
  li_target :: u32
  li_level :: int
  li_internal_format :: u32
  li_width :: int
  li_height :: int
  li_depth :: int
  li_border :: int
  li_format :: u32
  li_type :: u32
  li_estimated_size :: u32

definition new_LevelInfo :: LevelInfo where
  "new_LevelInfo =
     \<lparr>li_cleared = True, li_target = 0, li_level = -1, li_internal_format = 0, li_width = 0, li_height = 0, li_depth = 0,
      li_border = 0, li_format = 0, li_type = 0, li_estimated_size = 0\<rparr>"

record TextureInfo =
  ti_level_infos :: "LevelInfo list list"
  ti_has_manager :: bool
  ti_ref_count :: nat
  ti_service_id :: u32
  ti_deleted :: bool
  ti_cleared :: bool
  ti_num_uncleared_mips :: int
  ti_target :: u32
  ti_min_filter :: u32
  ti_mag_filter :: u32
  ti_wrap_s :: u32
  ti_wrap_t :: u32
  ti_usage :: u32
  ti_max_level_set :: int
  ti_texture_complete :: bool
  ti_cube_complete :: bool
  ti_npot :: bool
  ti_framebuffer_attachment_count :: int
  ti_owned :: bool
  ti_stream_texture :: bool
  ti_immutable :: bool
  ti_estimated_size :: u32

definition new_TextureInfo :: "bool \<Rightarrow> u32 \<Rightarrow> TextureInfo" where
  "new_TextureInfo has_manager service_id =
     \<lparr>ti_level_infos = [], ti_has_manager = has_manager, ti_ref_count = 0, ti_service_id = service_id, ti_deleted = False,
      ti_cleared = True, ti_num_uncleared_mips = 0, ti_target = 0, ti_min_filter = GL_NEAREST_MIPMAP_LINEAR,
      ti_mag_filter = GL_LINEAR, ti_wrap_s = GL_REPEAT, ti_wrap_t = GL_REPEAT, ti_usage = GL_NONE, ti_max_level_set = -1,
      ti_texture_complete = False, ti_cube_complete = False, ti_npot = False, ti_framebuffer_attachment_count = 0,
      ti_owned = True, ti_stream_texture = False, ti_immutable = False, ti_estimated_size = 0\<rparr>"

subsection \<open>Small operations\<close>

definition CanRenderTo :: "TextureInfo \<Rightarrow> bool" where
  "CanRenderTo t \<longleftrightarrow> \<not> ti_stream_texture t \<and> ti_target t \<noteq> GL_TEXTURE_EXTERNAL_OES"

definition SetServiceId :: "u32 \<Rightarrow> TextureInfo \<Rightarrow> TextureInfo" where
  "SetServiceId service_id t = t\<lparr>ti_service_id := service_id\<rparr>"

definition SafeToRenderFrom :: "TextureInfo \<Rightarrow> bool" where
  "SafeToRenderFrom t \<longleftrightarrow> ti_cleared t"

definition ti_IsValid :: "TextureInfo \<Rightarrow> bool" where
  "ti_IsValid t \<longleftrightarrow> ti_target t \<noteq> 0 \<and> \<not> ti_deleted t"

definition SetNotOwned :: "TextureInfo \<Rightarrow> TextureInfo" where
  "SetNotOwned t = t\<lparr>ti_owned := False\<rparr>"

definition IsAttachedToFramebuffer :: "TextureInfo \<Rightarrow> bool" where
  "IsAttachedToFramebuffer t \<longleftrightarrow> ti_framebuffer_attachment_count t \<noteq> 0"

definition AttachToFramebuffer :: "TextureInfo \<Rightarrow> TextureInfo" where
  "AttachToFramebuffer t = t\<lparr>ti_framebuffer_attachment_count := ti_framebuffer_attachment_count t + 1\<rparr>"

definition DetachFromFramebuffer :: "TextureInfo \<Rightarrow> TextureInfo" where
  "DetachFromFramebuffer t = t\<lparr>ti_framebuffer_attachment_count := ti_framebuffer_attachment_count t - 1\<rparr>"

definition SetStreamTexture :: "bool \<Rightarrow> TextureInfo \<Rightarrow> TextureInfo" where
  "SetStreamTexture stream_texture t = t\<lparr>ti_stream_texture := stream_texture\<rparr>"

definition SetImmutable :: "bool \<Rightarrow> TextureInfo \<Rightarrow> TextureInfo" where
  "SetImmutable immutable t = t\<lparr>ti_immutable := immutable\<rparr>"

definition ti_MarkAsDeleted :: "TextureInfo \<Rightarrow> TextureInfo" where
  "ti_MarkAsDeleted t = t\<lparr>ti_service_id := 0, ti_deleted := True\<rparr>"

definition NeedsMips :: "TextureInfo \<Rightarrow> bool" where
  "NeedsMips t \<longleftrightarrow> ti_min_filter t \<noteq> GL_NEAREST \<and> ti_min_filter t \<noteq> GL_LINEAR"

subsection \<open>Faces and levels\<close>

definition GLTargetToFaceIndex :: "u32 \<Rightarrow> nat" where
  "GLTargetToFaceIndex target =
     (if target = GL_TEXTURE_CUBE_MAP_NEGATIVE_X then 1
      else if target = GL_TEXTURE_CUBE_MAP_POSITIVE_Y then 2
      else if target = GL_TEXTURE_CUBE_MAP_NEGATIVE_Y then 3
      else if target = GL_TEXTURE_CUBE_MAP_POSITIVE_Z then 4
      else if target = GL_TEXTURE_CUBE_MAP_NEGATIVE_Z then 5
      else 0)"

definition FaceIndexToGLTarget :: "nat \<Rightarrow> u32" where
  "FaceIndexToGLTarget index =
     (if index = 0 then GL_TEXTURE_CUBE_MAP_POSITIVE_X
      else if index = 1 then GL_TEXTURE_CUBE_MAP_NEGATIVE_X
      else if index = 2 then GL_TEXTURE_CUBE_MAP_POSITIVE_Y
      else if index = 3 then GL_TEXTURE_CUBE_MAP_NEGATIVE_Y
      else if index = 4 then GL_TEXTURE_CUBE_MAP_POSITIVE_Z
      else if index = 5 then GL_TEXTURE_CUBE_MAP_NEGATIVE_Z
      else 0)"

definition level_at :: "LevelInfo list list \<Rightarrow> nat \<Rightarrow> int \<Rightarrow> LevelInfo option" where
  "level_at ls ii jj =
     (if ii < length ls \<and> 0 \<le> jj \<and> nat jj < length (ls ! ii) then Some (ls ! ii ! nat jj) else None)"

definition set_level :: "nat \<Rightarrow> int \<Rightarrow> LevelInfo \<Rightarrow> LevelInfo list list \<Rightarrow> LevelInfo list list" where
  "set_level ii jj l ls = ls[ii := (ls ! ii)[nat jj := l]]"

text \<open>\<^verbatim>\<open>base::bits::Log2Floor\<close>: the shifts are 16, 8, 4, 2 and 1.\<close>

fun bits_log2_loop :: "nat list \<Rightarrow> u32 \<Rightarrow> int \<Rightarrow> int" where
  "bits_log2_loop [] v log = log"
| "bits_log2_loop (shift # shifts) v log =
     (let x = drop_bit shift v in
      if x \<noteq> 0 then bits_log2_loop shifts x (log + int shift) else bits_log2_loop shifts v log)"

definition bits_Log2Floor :: "u32 \<Rightarrow> int" where
  "bits_Log2Floor n = (if n = 0 then -1 else bits_log2_loop [16, 8, 4, 2, 1] n 0)"

definition ComputeMipMapCount :: "int \<Rightarrow> int \<Rightarrow> int \<Rightarrow> int" where
  "ComputeMipMapCount width height depth = 1 + bits_Log2Floor (uint32 (max (max width height) depth))"

definition half :: "int \<Rightarrow> int" where
  "half x = max 1 (x div 2)"

subsection \<open>Rendering from a texture\<close>

definition ti_CanRender :: "FeatureFlags \<Rightarrow> TextureInfo \<Rightarrow> bool" where
  "ti_CanRender f t \<longleftrightarrow>
     (if ti_target t = 0 then False
      else let needs_mips = NeedsMips t in
      if (ti_npot t \<and> \<not> npot_ok f) \<or> ti_target t = GL_TEXTURE_RECTANGLE_ARB
      then \<not> needs_mips \<and> ti_wrap_s t = GL_CLAMP_TO_EDGE \<and> ti_wrap_t t = GL_CLAMP_TO_EDGE
      else if needs_mips
      then if ti_target t = GL_TEXTURE_2D then ti_texture_complete t else ti_texture_complete t \<and> ti_cube_complete t
      else True)"

text \<open>\<^verbatim>\<open>std::vector::resize\<close>.\<close>

definition resize :: "nat \<Rightarrow> 'a \<Rightarrow> 'a list \<Rightarrow> 'a list" where
  "resize n x xs = take n xs @ replicate (n - length xs) x"

definition ti_SetTarget :: "u32 \<Rightarrow> int \<Rightarrow> TextureInfo \<Rightarrow> TextureInfo" where
  "ti_SetTarget target max_levels t =
     (let num_faces = (if target = GL_TEXTURE_CUBE_MAP then 6 else 1);
          t1 = t\<lparr>ti_target := target, ti_level_infos := map (resize (nat max_levels) new_LevelInfo) (resize num_faces [] (ti_level_infos t))\<rparr>
      in if target = GL_TEXTURE_EXTERNAL_OES \<or> target = GL_TEXTURE_RECTANGLE_ARB
         then t1\<lparr>ti_min_filter := GL_LINEAR, ti_wrap_s := GL_CLAMP_TO_EDGE, ti_wrap_t := GL_CLAMP_TO_EDGE\<rparr>
         else t1)"

definition same_image :: "LevelInfo \<Rightarrow> LevelInfo \<Rightarrow> bool" where
  "same_image l first \<longleftrightarrow> li_target l \<noteq> 0 \<and> li_width l = li_width first \<and> li_height l = li_height first \<and> li_depth l = 1 \<and>
     li_format l = li_format first \<and> li_internal_format l = li_internal_format first \<and> li_type l = li_type first"

fun generate_loop :: "nat list \<Rightarrow> LevelInfo list list \<Rightarrow> LevelInfo \<Rightarrow> bool option" where
  "generate_loop [] ls first = Some True"
| "generate_loop (ii # is) ls first = do {
     l \<leftarrow> level_at ls ii 0;
     if \<not> same_image l first then Some False else generate_loop is ls first
   }"

definition ti_CanGenerateMipmaps :: "FeatureFlags \<Rightarrow> TextureInfo \<Rightarrow> bool option" where
  "ti_CanGenerateMipmaps f t =
     (if (ti_npot t \<and> \<not> npot_ok f) \<or> ti_level_infos t = [] \<or> ti_target t = GL_TEXTURE_EXTERNAL_OES \<or>
         ti_target t = GL_TEXTURE_RECTANGLE_ARB
      then Some False
      else do {
        first \<leftarrow> level_at (ti_level_infos t) 0 0;
        generate_loop [0..<length (ti_level_infos t)] (ti_level_infos t) first
      })"

subsection \<open>Whether the texture is cleared\<close>

fun cleared_levels :: "nat \<Rightarrow> nat list \<Rightarrow> LevelInfo list list \<Rightarrow> bool option" where
  "cleared_levels ii [] ls = Some True"
| "cleared_levels ii (jj # js) ls = do {
     l \<leftarrow> level_at ls ii (int jj);
     if li_width l > 0 \<and> li_height l > 0 \<and> li_depth l > 0 \<and> \<not> li_cleared l then Some False
     else cleared_levels ii js ls
   }"

fun cleared_faces :: "nat list \<Rightarrow> int \<Rightarrow> LevelInfo list list \<Rightarrow> bool option" where
  "cleared_faces [] levels_needed ls = Some True"
| "cleared_faces (ii # is) levels_needed ls = do {
     ok \<leftarrow> cleared_levels ii [0..<nat levels_needed] ls;
     if \<not> ok then Some False else cleared_faces is levels_needed ls
   }"

definition levels_needed :: "LevelInfo \<Rightarrow> int" where
  "levels_needed first_face = ComputeMipMapCount (li_width first_face) (li_height first_face) (li_depth first_face)"

definition UpdateCleared :: "TextureInfo \<Rightarrow> TextureInfo option" where
  "UpdateCleared t =
     (if ti_level_infos t = [] then Some t
      else do {
        first_face \<leftarrow> level_at (ti_level_infos t) 0 0;
        ok \<leftarrow> cleared_faces [0..<length (ti_level_infos t)] (levels_needed first_face) (ti_level_infos t);
        Some (t\<lparr>ti_cleared := ok\<rparr>)
      })"

subsection \<open>Completeness\<close>

fun npot_loop :: "nat list \<Rightarrow> LevelInfo list list \<Rightarrow> bool option" where
  "npot_loop [] ls = Some False"
| "npot_loop (ii # is) ls = do {
     l \<leftarrow> level_at ls ii 0;
     if IsNPOT (uint32 (li_width l)) \<or> IsNPOT (uint32 (li_height l)) \<or> IsNPOT (uint32 (li_depth l)) then Some True
     else npot_loop is ls
   }"

definition mip_fits :: "LevelInfo \<Rightarrow> int \<Rightarrow> int \<Rightarrow> int \<Rightarrow> LevelInfo \<Rightarrow> bool" where
  "mip_fits level0 width height depth l \<longleftrightarrow> \<not> (li_target l = 0 \<or> li_width l \<noteq> width \<or> li_height l \<noteq> height \<or> li_depth l \<noteq> depth \<or>
     li_internal_format l \<noteq> li_internal_format level0 \<or> li_format l \<noteq> li_format level0 \<or> li_type l \<noteq> li_type level0)"

fun mips_loop :: "nat list \<Rightarrow> nat \<Rightarrow> LevelInfo \<Rightarrow> int \<Rightarrow> int \<Rightarrow> int \<Rightarrow> LevelInfo list list \<Rightarrow> bool option" where
  "mips_loop [] ii level0 width height depth ls = Some True"
| "mips_loop (jj # js) ii level0 width height depth ls = do {
     let w = half width;
     let h = half height;
     let d = half depth;
     l \<leftarrow> level_at ls ii (int jj);
     if \<not> mip_fits level0 w h d l then Some False
     else mips_loop js ii level0 w h d ls
   }"

fun complete_loop :: "nat list \<Rightarrow> LevelInfo \<Rightarrow> bool \<Rightarrow> bool \<Rightarrow> LevelInfo list list \<Rightarrow> (bool \<times> bool) option" where
  "complete_loop [] first texture_complete cube_complete ls = Some (texture_complete, cube_complete)"
| "complete_loop (ii # is) first texture_complete cube_complete ls =
     (if \<not> (cube_complete \<or> texture_complete) then Some (texture_complete, cube_complete)
      else do {
        level0 \<leftarrow> level_at ls ii 0;
        mips \<leftarrow> mips_loop [1..<nat (levels_needed first)] ii level0 (li_width level0) (li_height level0) (li_depth level0) ls;
        complete_loop is first (texture_complete \<and> mips) (cube_complete \<and> same_image level0 first) ls
      })"

definition no_linear :: "TextureInfo \<Rightarrow> bool" where
  "no_linear t \<longleftrightarrow> ti_min_filter t \<noteq> GL_NEAREST_MIPMAP_NEAREST \<or> ti_mag_filter t \<noteq> GL_NEAREST"

definition initial_complete :: "FeatureFlags \<Rightarrow> LevelInfo \<Rightarrow> TextureInfo \<Rightarrow> bool" where
  "initial_complete f first t \<longleftrightarrow>
     (let c1 = (ti_max_level_set t \<ge> levels_needed first - 1 \<and> ti_max_level_set t \<ge> 0);
          c2 = (if li_width first = 0 \<or> li_height first = 0 then False else c1)
      in if li_type first = GL_FLOAT \<and> \<not> enable_texture_float_linear f \<and> no_linear t then False
         else if li_type first = GL_HALF_FLOAT_OES \<and> \<not> enable_texture_half_float_linear f \<and> no_linear t then False
         else c2)"

definition ti_Update :: "FeatureFlags \<Rightarrow> TextureInfo \<Rightarrow> TextureInfo option" where
  "ti_Update f t =
     (if ti_level_infos t = [] then Some (t\<lparr>ti_npot := False, ti_texture_complete := False, ti_cube_complete := False\<rparr>)
      else do {
        npot \<leftarrow> npot_loop [0..<length (ti_level_infos t)] (ti_level_infos t);
        first \<leftarrow> level_at (ti_level_infos t) 0 0;
        let cube = (length (ti_level_infos t) = 6 \<and> li_width first = li_height first);
        (texture_complete, cube_complete) \<leftarrow>
          complete_loop [0..<length (ti_level_infos t)] first (initial_complete f first t) cube (ti_level_infos t);
        Some (t\<lparr>ti_npot := npot, ti_texture_complete := texture_complete, ti_cube_complete := cube_complete\<rparr>)
      })"

subsection \<open>Setting a level\<close>

definition level_estimate :: "int \<Rightarrow> int \<Rightarrow> u32 \<Rightarrow> u32 \<Rightarrow> u32 \<Rightarrow> u32 option" where
  "level_estimate width height format type old = do {
     (_, sz) \<leftarrow> ComputeImageDataSize width height (sint format) (sint type) 4;
     Some (case sz of None \<Rightarrow> old | Some n \<Rightarrow> n)
   }"

definition ti_SetLevelInfo ::
  "FeatureFlags \<Rightarrow> u32 \<Rightarrow> int \<Rightarrow> u32 \<Rightarrow> int \<Rightarrow> int \<Rightarrow> int \<Rightarrow> int \<Rightarrow> u32 \<Rightarrow> u32 \<Rightarrow> bool \<Rightarrow> TextureInfo \<Rightarrow> TextureInfo option" where
  "ti_SetLevelInfo f target level internal_format width height depth border format type cleared t = do {
     let ii = GLTargetToFaceIndex target;
     l \<leftarrow> level_at (ti_level_infos t) ii level;
     est \<leftarrow> level_estimate width height format type (li_estimated_size l);
     let l' = l\<lparr>li_target := target, li_level := level, li_internal_format := internal_format, li_width := width,
                li_height := height, li_depth := depth, li_border := border, li_format := format, li_type := type,
                li_estimated_size := est, li_cleared := cleared\<rparr>;
     let n1 = (if \<not> li_cleared l then ti_num_uncleared_mips t - 1 else ti_num_uncleared_mips t);
     let n2 = (if \<not> cleared then n1 + 1 else n1);
     t1 \<leftarrow> ti_Update f (t\<lparr>ti_level_infos := set_level ii level l' (ti_level_infos t),
                          ti_estimated_size := ti_estimated_size t - li_estimated_size l + est,
                          ti_num_uncleared_mips := n2, ti_max_level_set := max (ti_max_level_set t) level\<rparr>);
     UpdateCleared t1
   }"

definition ti_SetLevelCleared :: "u32 \<Rightarrow> int \<Rightarrow> TextureInfo \<Rightarrow> TextureInfo option" where
  "ti_SetLevelCleared target level t = do {
     let ii = GLTargetToFaceIndex target;
     l \<leftarrow> level_at (ti_level_infos t) ii level;
     UpdateCleared (t\<lparr>ti_num_uncleared_mips := (if \<not> li_cleared l then ti_num_uncleared_mips t - 1 else ti_num_uncleared_mips t),
                      ti_level_infos := set_level ii level (l\<lparr>li_cleared := True\<rparr>) (ti_level_infos t)\<rparr>)
   }"

text \<open>The loop over the mips of one face; \<open>info1\<close> is level 0, which the loop does not change.\<close>

fun mark_levels :: "nat list \<Rightarrow> FeatureFlags \<Rightarrow> u32 \<Rightarrow> LevelInfo \<Rightarrow> int \<Rightarrow> int \<Rightarrow> int \<Rightarrow> TextureInfo \<Rightarrow> TextureInfo option" where
  "mark_levels [] f target info1 width height depth t = Some t"
| "mark_levels (level # levels) f target info1 width height depth t = do {
     let w = half width;
     let h = half height;
     let d = half depth;
     t1 \<leftarrow> ti_SetLevelInfo f target (int level) (li_internal_format info1) w h d (li_border info1) (li_format info1) (li_type info1) True t;
     mark_levels levels f target info1 w h d t1
   }"

fun mark_faces :: "nat list \<Rightarrow> FeatureFlags \<Rightarrow> TextureInfo \<Rightarrow> TextureInfo option" where
  "mark_faces [] f t = Some t"
| "mark_faces (ii # is) f t = do {
     info1 \<leftarrow> level_at (ti_level_infos t) ii 0;
     let target = (if ti_target t = GL_TEXTURE_2D then GL_TEXTURE_2D else FaceIndexToGLTarget ii);
     let num_mips = ComputeMipMapCount (li_width info1) (li_height info1) (li_depth info1);
     t1 \<leftarrow> mark_levels [1..<nat num_mips] f target info1 (li_width info1) (li_height info1) (li_depth info1) t;
     mark_faces is f t1
   }"

definition ti_MarkMipmapsGenerated :: "FeatureFlags \<Rightarrow> TextureInfo \<Rightarrow> (bool \<times> TextureInfo) option" where
  "ti_MarkMipmapsGenerated f t = do {
     ok \<leftarrow> ti_CanGenerateMipmaps f t;
     if \<not> ok then Some (False, t)
     else do {
       t1 \<leftarrow> mark_faces [0..<length (ti_level_infos t)] f t;
       Some (True, t1)
     }
   }"

subsection \<open>Queries\<close>

text \<open>\<^verbatim>\<open>SafeAdd<GLint>\<close>, with the wrap-around of the machine.\<close>

definition SafeAddInt :: "int \<Rightarrow> int \<Rightarrow> bool \<times> int" where
  "SafeAddInt a b = (if int32 (a + b) < a then (False, 0) else (True, int32 (a + b)))"

definition ValidForTexture :: "int \<Rightarrow> int \<Rightarrow> int \<Rightarrow> int \<Rightarrow> int \<Rightarrow> int \<Rightarrow> u32 \<Rightarrow> u32 \<Rightarrow> TextureInfo \<Rightarrow> bool" where
  "ValidForTexture face level xoffset yoffset width height format type t \<longleftrightarrow>
     (case level_at (ti_level_infos t) (GLTargetToFaceIndex (uint32 face)) level of
        None \<Rightarrow> False
      | Some l \<Rightarrow>
          let (ok1, right) = SafeAddInt xoffset width; (ok2, top) = SafeAddInt yoffset height in
          ok1 \<and> ok2 \<and> xoffset \<ge> 0 \<and> yoffset \<ge> 0 \<and> right \<le> li_width l \<and> top \<le> li_height l \<and>
          format = li_internal_format l \<and> type = li_type l)"

definition GetLevelSize :: "int \<Rightarrow> int \<Rightarrow> TextureInfo \<Rightarrow> (int \<times> int) option" where
  "GetLevelSize face level t =
     (case level_at (ti_level_infos t) (GLTargetToFaceIndex (uint32 face)) level of
        None \<Rightarrow> None
      | Some l \<Rightarrow> if li_target l \<noteq> 0 then Some (li_width l, li_height l) else None)"

definition GetLevelType :: "int \<Rightarrow> int \<Rightarrow> TextureInfo \<Rightarrow> (u32 \<times> u32) option" where
  "GetLevelType face level t =
     (case level_at (ti_level_infos t) (GLTargetToFaceIndex (uint32 face)) level of
        None \<Rightarrow> None
      | Some l \<Rightarrow> if li_target l \<noteq> 0 then Some (li_type l, li_internal_format l) else None)"

subsection \<open>Parameters\<close>

definition valid_texture_mag_filter_mode_table :: "u32 list" where
  "valid_texture_mag_filter_mode_table = [GL_NEAREST, GL_LINEAR]"

definition valid_texture_min_filter_mode_table :: "u32 list" where
  "valid_texture_min_filter_mode_table =
     [GL_NEAREST, GL_LINEAR, GL_NEAREST_MIPMAP_NEAREST, GL_LINEAR_MIPMAP_NEAREST, GL_NEAREST_MIPMAP_LINEAR, GL_LINEAR_MIPMAP_LINEAR]"

definition valid_texture_wrap_mode_table :: "u32 list" where
  "valid_texture_wrap_mode_table = [GL_CLAMP_TO_EDGE, GL_MIRRORED_REPEAT, GL_REPEAT]"

definition valid_texture_usage_table :: "u32 list" where
  "valid_texture_usage_table = [GL_NONE, GL_FRAMEBUFFER_ATTACHMENT_ANGLE]"

definition parameter_refused :: "u32 \<Rightarrow> u32 \<Rightarrow> TextureInfo \<Rightarrow> bool" where
  "parameter_refused pname param t \<longleftrightarrow>
     (ti_target t = GL_TEXTURE_EXTERNAL_OES \<or> ti_target t = GL_TEXTURE_RECTANGLE_ARB) \<and>
     (pname = GL_TEXTURE_MIN_FILTER \<and> param \<noteq> GL_NEAREST \<and> param \<noteq> GL_LINEAR \<or>
      (pname = GL_TEXTURE_WRAP_S \<or> pname = GL_TEXTURE_WRAP_T) \<and> param \<noteq> GL_CLAMP_TO_EDGE)"

text \<open>The texture after the \<^verbatim>\<open>switch\<close>, \<^const>\<open>None\<close> where it returns false.\<close>

definition assign_parameter :: "u32 \<Rightarrow> u32 \<Rightarrow> TextureInfo \<Rightarrow> TextureInfo option" where
  "assign_parameter pname param t =
     (if pname = GL_TEXTURE_MIN_FILTER
      then if param \<in> set valid_texture_min_filter_mode_table then Some (t\<lparr>ti_min_filter := param\<rparr>) else None
      else if pname = GL_TEXTURE_MAG_FILTER
      then if param \<in> set valid_texture_mag_filter_mode_table then Some (t\<lparr>ti_mag_filter := param\<rparr>) else None
      else if pname = GL_TEXTURE_WRAP_S
      then if param \<in> set valid_texture_wrap_mode_table then Some (t\<lparr>ti_wrap_s := param\<rparr>) else None
      else if pname = GL_TEXTURE_WRAP_T
      then if param \<in> set valid_texture_wrap_mode_table then Some (t\<lparr>ti_wrap_t := param\<rparr>) else None
      else if pname = GL_TEXTURE_MAX_ANISOTROPY_EXT then Some t
      else if pname = GL_TEXTURE_USAGE_ANGLE
      then if param \<in> set valid_texture_usage_table then Some (t\<lparr>ti_usage := param\<rparr>) else None
      else None)"

definition ti_SetParameter :: "FeatureFlags \<Rightarrow> u32 \<Rightarrow> u32 \<Rightarrow> TextureInfo \<Rightarrow> (bool \<times> TextureInfo) option" where
  "ti_SetParameter f pname param t =
     (if parameter_refused pname param t then Some (False, t)
      else case assign_parameter pname param t of
        None \<Rightarrow> Some (False, t)
      | Some t1 \<Rightarrow> do {
          t2 \<leftarrow> ti_Update f t1;
          t3 \<leftarrow> UpdateCleared t2;
          Some (True, t3)
        })"

subsection \<open>Clearing\<close>

text \<open>A negative level passes the test and is an access out of range.\<close>

definition ti_IsLevelCleared :: "u32 \<Rightarrow> int \<Rightarrow> TextureInfo \<Rightarrow> bool option" where
  "ti_IsLevelCleared target level t =
     (let ii = GLTargetToFaceIndex target; ls = ti_level_infos t in
      if ii \<ge> length ls \<or> level \<ge> int (length (ls ! ii)) then Some True
      else map_option li_cleared (level_at ls ii level))"

text \<open>\<^verbatim>\<open>decoder->ClearLevel\<close>, on a state of the decoder.\<close>

type_synonym 's clear_fn = "TextureInfo \<Rightarrow> LevelInfo \<Rightarrow> 's \<Rightarrow> (bool \<times> 's) option"

definition ti_ClearLevel :: "'s clear_fn \<Rightarrow> u32 \<Rightarrow> int \<Rightarrow> TextureInfo \<Rightarrow> 's \<Rightarrow> (bool \<times> TextureInfo \<times> 's) option" where
  "ti_ClearLevel clear target level t s =
     (let ii = GLTargetToFaceIndex target; ls = ti_level_infos t in
      if ii \<ge> length ls \<or> level \<ge> int (length (ls ! ii)) then Some (True, t, s)
      else do {
        l \<leftarrow> level_at ls ii level;
        if li_target l = 0 \<or> li_cleared l \<or> li_width l = 0 \<or> li_height l = 0 \<or> li_depth l = 0 then Some (True, t, s)
        else do {
          (ok, s') \<leftarrow> clear t l s;
          let n = (if \<not> ok then ti_num_uncleared_mips t - 1 + 1 else ti_num_uncleared_mips t - 1);
          Some (ok, t\<lparr>ti_num_uncleared_mips := n, ti_level_infos := set_level ii level (l\<lparr>li_cleared := ok\<rparr>) ls\<rparr>, s')
        }
      })"

fun clear_levels :: "(nat \<times> nat) list \<Rightarrow> 's clear_fn \<Rightarrow> TextureInfo \<Rightarrow> 's \<Rightarrow> (bool \<times> TextureInfo \<times> 's) option" where
  "clear_levels [] clear t s = Some (True, t, s)"
| "clear_levels ((ii, jj) # ps) clear t s = do {
     l \<leftarrow> level_at (ti_level_infos t) ii (int jj);
     if li_target l \<noteq> 0 then do {
       (ok, t1, s1) \<leftarrow> ti_ClearLevel clear (li_target l) (int jj) t s;
       if \<not> ok then Some (False, t1, s1) else clear_levels ps clear t1 s1
     }
     else clear_levels ps clear t s
   }"

text \<open>The two nested loops go through the pairs of a face and a level in lexicographic order.\<close>

definition ti_ClearRenderableLevels :: "'s clear_fn \<Rightarrow> TextureInfo \<Rightarrow> 's \<Rightarrow> (bool \<times> TextureInfo \<times> 's) option" where
  "ti_ClearRenderableLevels clear t s =
     (if SafeToRenderFrom t then Some (True, t, s)
      else do {
        first_face \<leftarrow> level_at (ti_level_infos t) 0 0;
        (ok, t1, s1) \<leftarrow> clear_levels (List.product [0..<length (ti_level_infos t)] [0..<nat (levels_needed first_face)]) clear t s;
        if \<not> ok then Some (False, t1, s1) else Some (True, t1\<lparr>ti_cleared := True\<rparr>, s1)
      })"

subsection \<open>The number of mip levels\<close>

fun halving :: "nat list \<Rightarrow> bool" where
  "halving [] \<longleftrightarrow> True"
| "halving (s # ss) \<longleftrightarrow> s = Suc (sum_list ss) \<and> halving ss"

lemma bits_log2_loop_spec:
  "halving ss \<Longrightarrow> v \<noteq> 0 \<Longrightarrow> unat v < 2 ^ Suc (sum_list ss) \<Longrightarrow>
   \<exists>k. bits_log2_loop ss v log = log + int k \<and> 2 ^ k \<le> unat v \<and> unat v < 2 ^ Suc k"
proof (induction ss arbitrary: v log)
  case Nil
  then have "unat v = 1" using u32_zero [of v] by simp
  then show ?case by (intro exI [of _ 0]) simp
next
  case (Cons s ss)
  have s: "s = Suc (sum_list ss)" and h: "halving ss" using Cons.prems(1) by simp_all
  let ?x = "drop_bit s v"
  have x: "unat ?x = unat v div 2 ^ s" unfolding unat_drop_bit_eq by (rule drop_bit_eq_div)
  have v: "unat v < 2 ^ s * 2 ^ s" using Cons.prems(3) s by (simp add: power_add [symmetric])
  show ?case
  proof (cases "?x = 0")
    case True
    then have "unat v < 2 ^ Suc (sum_list ss)" using x s by (simp add: div_eq_0_iff)
    from Cons.IH [OF h Cons.prems(2) this, of log] True show ?thesis by simp
  next
    case False
    have "unat ?x < 2 ^ Suc (sum_list ss)" unfolding x using v s by (simp add: less_mult_imp_div_less)
    from Cons.IH [OF h False this, of "log + int s"] obtain k where
      k: "bits_log2_loop ss ?x (log + int s) = log + int s + int k" "2 ^ k \<le> unat ?x" "unat ?x < 2 ^ Suc k" by blast
    have "2 ^ k * 2 ^ s \<le> unat v" using k(2) unfolding x by (metis div_times_less_eq_dividend le_trans mult_le_mono1)
    moreover have "unat v < 2 ^ Suc k * 2 ^ s" using k(3) unfolding x by (simp add: div_less_iff_less_mult)
    ultimately show ?thesis
      using k(1) False by (intro exI [of _ "k + s"]) (simp add: power_add Let_def)
  qed
qed

lemma bits_Log2Floor_spec:
  assumes "n \<noteq> 0"
  shows "\<exists>k. bits_Log2Floor n = int k \<and> 2 ^ k \<le> unat n \<and> unat n < 2 ^ Suc k"
proof -
  have "halving [16, 8, 4, 2, 1]" by simp
  moreover have "unat n < 2 ^ Suc (sum_list [16, 8, 4, 2, 1])" using u32_lt [of n] by simp
  ultimately show ?thesis using bits_log2_loop_spec [of "[16, 8, 4, 2, 1]" n 0] assms by (simp add: bits_Log2Floor_def)
qed

lemma bits_Log2Floor_mono:
  assumes "unat m \<le> unat n"
  shows "bits_Log2Floor m \<le> bits_Log2Floor n"
proof (cases "m = 0")
  case True
  then show ?thesis using bits_Log2Floor_spec [of n] by (cases "n = 0") (auto simp: bits_Log2Floor_def)
next
  case False
  then have "n \<noteq> 0" using assms u32_zero [of m] u32_zero [of n] by auto
  with bits_Log2Floor_spec [OF False] bits_Log2Floor_spec [of n] obtain k l where
    "bits_Log2Floor m = int k" "2 ^ k \<le> unat m" "bits_Log2Floor n = int l" "unat n < 2 ^ Suc l" by blast
  moreover from this assms have "(2 :: nat) ^ k < 2 ^ Suc l" by linarith
  then have "k < Suc l" by (rule power_less_imp_less_exp [rotated]) simp
  ultimately show ?thesis by simp
qed

lemma ComputeMipMapCount_mono:
  assumes "0 \<le> w" "0 \<le> h" "0 \<le> d" and "w \<le> s" "h \<le> s" "d \<le> s" and "s < 2147483648"
  shows "ComputeMipMapCount w h d \<le> ComputeMipMapCount s s s"
proof -
  have "unat (uint32 (max (max w h) d)) = nat (max (max w h) d)" "unat (uint32 s) = nat s"
    using assms by (auto intro!: uint32_unat)
  moreover have "max (max w h) d \<le> s" using assms by simp
  ultimately have "unat (uint32 (max (max w h) d)) \<le> unat (uint32 s)" by (simp only: nat_mono)
  from bits_Log2Floor_mono [OF this] show ?thesis by (simp add: ComputeMipMapCount_def)
qed

lemma ComputeMipMapCount_nonneg: "0 \<le> ComputeMipMapCount w h d"
  using bits_Log2Floor_spec [of "uint32 (max (max w h) d)"]
  by (cases "uint32 (max (max w h) d) = 0") (auto simp: ComputeMipMapCount_def bits_Log2Floor_def)

text \<open>A texture of any size has enough levels to halve its largest side down to one, and no more.\<close>

lemma ComputeMipMapCount_exact:
  assumes "0 < max (max w h) d" and "max (max w h) d < 2147483648"
  shows "\<exists>k. ComputeMipMapCount w h d = int k \<and> 0 < k \<and> max (max w h) d div 2 ^ (k - 1) = 1"
proof -
  define m where "m = nat (max (max w h) d)"
  have u: "unat (uint32 (max (max w h) d)) = m" using assms uint32_unat [of "max (max w h) d"] by (auto simp: m_def)
  then have "uint32 (max (max w h) d) \<noteq> 0" using assms u32_zero [of "uint32 (max (max w h) d)"] by (auto simp: m_def)
  from bits_Log2Floor_spec [OF this] u obtain k where k: "bits_Log2Floor (uint32 (max (max w h) d)) = int k" "2 ^ k \<le> m" "m < 2 ^ Suc k" by auto
  have "m div 2 ^ k = 1" using k(2,3) by (intro div_nat_eqI) simp_all
  then have "int m div 2 ^ k = 1" by (metis of_nat_1 of_nat_numeral of_nat_power zdiv_int)
  moreover have "int m = max (max w h) d" using assms by (simp add: m_def)
  ultimately show ?thesis using k(1) by (intro exI [of _ "Suc k"]) (simp add: ComputeMipMapCount_def)
qed

subsection \<open>The levels of a texture\<close>

definition shape :: "nat \<Rightarrow> nat \<Rightarrow> LevelInfo list list \<Rightarrow> bool" where
  "shape nf nl ls \<longleftrightarrow> length ls = nf \<and> (\<forall>ii < nf. length (ls ! ii) = nl) \<and> 0 < nf \<and> 0 < nl \<and> levels_needed (ls ! 0 ! 0) \<le> int nl"

lemma level_at_shape: "shape nf nl ls \<Longrightarrow> ii < nf \<Longrightarrow> 0 \<le> jj \<Longrightarrow> jj < int nl \<Longrightarrow> level_at ls ii jj = Some (ls ! ii ! nat jj)"
  by (auto simp: shape_def level_at_def)

lemma level_atE:
  assumes "level_at ls ii jj = Some l"
  obtains "ii < length ls" "0 \<le> jj" "nat jj < length (ls ! ii)" "l = ls ! ii ! nat jj"
  using assms by (auto simp: level_at_def split: if_splits)

definition level_sum :: "(LevelInfo \<Rightarrow> 'a :: ab_group_add) \<Rightarrow> LevelInfo list list \<Rightarrow> 'a" where
  "level_sum g ls = (\<Sum>face \<leftarrow> ls. \<Sum>l \<leftarrow> face. g l)"

lemma level_sum_set:
  assumes "level_at ls ii jj = Some l"
  shows "level_sum g (set_level ii jj l' ls) = level_sum g ls - g l + g l'"
  using assms by (elim level_atE) (simp add: level_sum_def set_level_def sum_list_map_update)

lemma nth_set_level:
  "ii < length ls \<Longrightarrow> nat jj < length (ls ! ii) \<Longrightarrow>
   set_level ii jj l ls ! a ! b = (if a = ii \<and> b = nat jj then l else ls ! a ! b)"
  by (auto simp: set_level_def nth_list_update)

lemma length_set_level [simp]:
  "length (set_level ii jj l ls) = length ls" "ii < length ls \<Longrightarrow> length (set_level ii jj l ls ! a) = length (ls ! a)"
  by (auto simp: set_level_def nth_list_update)

lemma set_level_not_Nil [simp]: "set_level ii jj l ls = [] \<longleftrightarrow> ls = []"
  by (simp add: set_level_def)

lemma shape_set_level:
  assumes "shape nf nl ls" and "ii < nf" "0 \<le> jj" "jj < int nl" and "jj = 0 \<Longrightarrow> ii = 0 \<Longrightarrow> levels_needed l \<le> int nl"
  shows "shape nf nl (set_level ii jj l ls)"
  using assms by (auto simp: shape_def nth_set_level)

text \<open>A level whose content GL may show.\<close>

definition visible :: "LevelInfo \<Rightarrow> bool" where
  "visible l \<longleftrightarrow> li_width l > 0 \<and> li_height l > 0 \<and> li_depth l > 0"

definition all_cleared :: "LevelInfo list list \<Rightarrow> bool" where
  "all_cleared ls \<longleftrightarrow> (\<forall>ii < length ls. \<forall>jj < nat (levels_needed (ls ! 0 ! 0)). visible (ls ! ii ! jj) \<longrightarrow> li_cleared (ls ! ii ! jj))"

lemma cleared_levels_ok:
  "shape nf nl ls \<Longrightarrow> ii < nf \<Longrightarrow> \<forall>jj \<in> set js. jj < nl \<Longrightarrow>
   cleared_levels ii js ls = Some (\<forall>jj \<in> set js. visible (ls ! ii ! jj) \<longrightarrow> li_cleared (ls ! ii ! jj))"
  by (induction js) (auto simp: level_at_shape visible_def)

lemma cleared_faces_ok:
  assumes "shape nf nl ls" and "n \<le> int nl"
  shows "\<forall>ii \<in> set is. ii < nf \<Longrightarrow>
    cleared_faces is n ls = Some (\<forall>ii \<in> set is. \<forall>jj < nat n. visible (ls ! ii ! jj) \<longrightarrow> li_cleared (ls ! ii ! jj))"
proof (induction "is")
  case (Cons ii "is")
  have "\<forall>jj \<in> set [0..<nat n]. jj < nl" using assms(2) by auto
  from cleared_levels_ok [OF assms(1) _ this, of ii] Cons show ?case by auto
qed simp

lemma UpdateCleared_ok:
  assumes "shape nf nl (ti_level_infos t)"
  shows "UpdateCleared t = Some (t\<lparr>ti_cleared := all_cleared (ti_level_infos t)\<rparr>)"
proof -
  let ?ls = "ti_level_infos t"
  have s: "length ?ls = nf" "0 < nf" "0 < nl" "levels_needed (?ls ! 0 ! 0) \<le> int nl" using assms by (simp_all add: shape_def)
  then have ne: "?ls \<noteq> []" by auto
  have "level_at ?ls 0 0 = Some (?ls ! 0 ! 0)" using level_at_shape [OF assms s(2), of 0] s(3) by simp
  moreover have "cleared_faces [0..<length ?ls] (levels_needed (?ls ! 0 ! 0)) ?ls = Some (all_cleared ?ls)"
    using cleared_faces_ok [OF assms s(4), of "[0..<length ?ls]"] s(1) by (simp add: all_cleared_def Ball_def)
  ultimately show ?thesis using ne by (simp add: UpdateCleared_def)
qed

subsection \<open>Completeness as in section 3.8.2 of the GLES2 specification\<close>

definition mip_matches :: "nat \<Rightarrow> LevelInfo \<Rightarrow> LevelInfo \<Rightarrow> bool" where
  "mip_matches jj level0 l \<longleftrightarrow> li_target l \<noteq> 0 \<and> li_width l = max 1 (li_width level0 div 2 ^ jj) \<and>
     li_height l = max 1 (li_height level0 div 2 ^ jj) \<and> li_depth l = max 1 (li_depth level0 div 2 ^ jj) \<and>
     li_internal_format l = li_internal_format level0 \<and> li_format l = li_format level0 \<and> li_type l = li_type level0"

definition mips_complete :: "LevelInfo list list \<Rightarrow> bool" where
  "mips_complete ls \<longleftrightarrow> (\<forall>ii < length ls. \<forall>jj. 1 \<le> jj \<and> jj < nat (levels_needed (ls ! 0 ! 0)) \<longrightarrow>
     mip_matches jj (ls ! ii ! 0) (ls ! ii ! jj))"

definition faces_equal :: "LevelInfo list list \<Rightarrow> bool" where
  "faces_equal ls \<longleftrightarrow> (\<forall>ii < length ls. same_image (ls ! ii ! 0) (ls ! 0 ! 0))"

fun halved :: "nat \<Rightarrow> int \<Rightarrow> int" where
  "halved 0 x = x"
| "halved (Suc n) x = halved n (half x)"

lemma halved_Suc: "0 \<le> x \<Longrightarrow> halved (Suc n) x = max 1 (x div 2 ^ Suc n)"
proof (induction n arbitrary: x)
  case 0
  then show ?case by (simp add: half_def)
next
  case (Suc n)
  have h: "0 \<le> half x" by (simp add: half_def)
  have "halved (Suc (Suc n)) x = max 1 (half x div 2 ^ Suc n)" unfolding halved.simps(2) [of "Suc n" x] by (rule Suc.IH [OF h])
  also have "\<dots> = max 1 (x div 2 ^ Suc (Suc n))"
  proof (cases "1 \<le> x div 2")
    case True
    then show ?thesis by (simp add: half_def zdiv_zmult2_eq [symmetric])
  next
    case False
    then have "x = 0 \<or> x = 1" using Suc.prems by linarith
    moreover have "(1 :: int) div 2 ^ Suc k = 0" for k by (intro div_pos_pos_trivial one_less_power) simp_all
    ultimately show ?thesis unfolding half_def by (auto simp del: power_Suc)
  qed
  finally show ?case .
qed

lemma mips_loop_ok:
  assumes s: "shape nf nl ls" and ii: "ii < nf"
  shows "a + n \<le> nl \<Longrightarrow> mips_loop [a..<a + n] ii level0 w h d ls = 
     Some (\<forall>k < n. mip_fits level0 (halved (Suc k) w) (halved (Suc k) h) (halved (Suc k) d) (ls ! ii ! (a + k)))"
proof (induction n arbitrary: a w h d)
  case (Suc n)
  have u: "[a..<a + Suc n] = a # [Suc a..<Suc a + n]" by (simp add: upt_conv_Cons)
  have at: "level_at ls ii (int a) = Some (ls ! ii ! a)" using level_at_shape [OF s ii, of "int a"] Suc.prems by simp
  show ?case
    unfolding u mips_loop.simps Let_def at Option.bind.simps All_less_Suc2
    using Suc.IH [of "Suc a" "half w" "half h" "half d"] Suc.prems by simp
qed simp

lemma all_shifted: "(\<forall>k < m - 1. P (1 + k)) \<longleftrightarrow> (\<forall>j. 1 \<le> j \<and> j < m \<longrightarrow> P (j :: nat))"
proof (intro iffI allI impI; (elim conjE)?)
  fix j assume "\<forall>k < m - 1. P (1 + k)" "1 \<le> j" "j < m"
  then show "P j" by (cases j) auto
next
  fix k assume "\<forall>j. 1 \<le> j \<and> j < m \<longrightarrow> P j" "k < m - 1"
  then show "P (1 + k)" by simp
qed

lemma mips_loop_matches:
  assumes s: "shape nf nl ls" and ii: "ii < nf" and n: "n \<le> int nl" "0 \<le> n"
    and l0: "0 \<le> li_width level0" "0 \<le> li_height level0" "0 \<le> li_depth level0"
  shows "mips_loop [1..<nat n] ii level0 (li_width level0) (li_height level0) (li_depth level0) ls =
     Some (\<forall>jj. 1 \<le> jj \<and> jj < nat n \<longrightarrow> mip_matches jj level0 (ls ! ii ! jj))"
proof -
  have u: "[1..<nat n] = [1..<1 + (nat n - 1)]" by (cases "nat n") simp_all
  have le: "1 + (nat n - 1) \<le> nl" using n s unfolding shape_def by linarith
  have f: "mip_fits level0 (halved (Suc k) (li_width level0)) (halved (Suc k) (li_height level0)) (halved (Suc k) (li_depth level0)) l \<longleftrightarrow>
      mip_matches (1 + k) level0 l" for k l
    using l0 by (auto simp: mip_fits_def mip_matches_def halved_Suc simp del: halved.simps)
  show ?thesis unfolding u mips_loop_ok [OF s ii le] f
    using all_shifted [of "nat n" "\<lambda>jj. mip_matches jj level0 (ls ! ii ! jj)"] by simp
qed

lemma complete_loop_ok:
  assumes s: "shape nf nl ls" and dims: "\<And>ii. ii < nf \<Longrightarrow> 0 \<le> li_width (ls ! ii ! 0) \<and> 0 \<le> li_height (ls ! ii ! 0) \<and> 0 \<le> li_depth (ls ! ii ! 0)"
  shows "\<forall>ii \<in> set is. ii < nf \<Longrightarrow> complete_loop is (ls ! 0 ! 0) tc cc ls = Some
     (tc \<and> (\<forall>ii \<in> set is. \<forall>jj. 1 \<le> jj \<and> jj < nat (levels_needed (ls ! 0 ! 0)) \<longrightarrow> mip_matches jj (ls ! ii ! 0) (ls ! ii ! jj)),
      cc \<and> (\<forall>ii \<in> set is. same_image (ls ! ii ! 0) (ls ! 0 ! 0)))"
proof (induction "is" arbitrary: tc cc)
  case (Cons ii "is")
  have n: "levels_needed (ls ! 0 ! 0) \<le> int nl" "0 \<le> levels_needed (ls ! 0 ! 0)" "0 < nl"
    using s ComputeMipMapCount_nonneg by (auto simp: shape_def levels_needed_def)
  have ii: "ii < nf" using Cons.prems by simp
  from level_at_shape [OF s ii, of 0] n(3) have at: "level_at ls ii 0 = Some (ls ! ii ! 0)" by simp
  from mips_loop_matches [OF s ii n(1,2), of "ls ! ii ! 0"] dims [OF ii] Cons at show ?case by (auto simp del: complete_loop.simps(1))
qed simp

subsection \<open>The invariant of a texture\<close>

definition level_ok :: "nat \<Rightarrow> LevelInfo \<Rightarrow> bool" where
  "level_ok ii l \<longleftrightarrow> 0 \<le> li_width l \<and> 0 \<le> li_height l \<and> 0 \<le> li_depth l \<and>
     (li_target l \<noteq> 0 \<longrightarrow> GLTargetToFaceIndex (li_target l) = ii) \<and> (\<not> li_cleared l \<longrightarrow> li_target l \<noteq> 0)"

definition levels_ok :: "LevelInfo list list \<Rightarrow> bool" where
  "levels_ok ls \<longleftrightarrow> (\<forall>ii < length ls. \<forall>jj < length (ls ! ii). level_ok ii (ls ! ii ! jj))"

definition num_faces :: "u32 \<Rightarrow> nat" where
  "num_faces target = (if target = GL_TEXTURE_CUBE_MAP then 6 else 1)"

definition uncleared :: "LevelInfo \<Rightarrow> int" where
  "uncleared l = (if li_cleared l then 0 else 1)"

text \<open>\<open>maxl\<close> gives the number of levels of a target.\<close>

definition ti_shape :: "(u32 \<Rightarrow> int) \<Rightarrow> TextureInfo \<Rightarrow> bool" where
  "ti_shape maxl t \<longleftrightarrow> (if ti_target t = 0 then ti_level_infos t = []
     else shape (num_faces (ti_target t)) (nat (maxl (ti_target t))) (ti_level_infos t))"

definition ti_ok :: "(u32 \<Rightarrow> int) \<Rightarrow> TextureInfo \<Rightarrow> bool" where
  "ti_ok maxl t \<longleftrightarrow> ti_shape maxl t \<and> levels_ok (ti_level_infos t) \<and>
     ti_num_uncleared_mips t = level_sum uncleared (ti_level_infos t) \<and>
     ti_estimated_size t = level_sum li_estimated_size (ti_level_infos t) \<and>
     (ti_cleared t \<longrightarrow> all_cleared (ti_level_infos t)) \<and> (ti_target t = 0 \<longrightarrow> ti_cleared t)"

text \<open>What none of the operations on levels and parameters changes.\<close>

definition ti_frame :: "TextureInfo \<Rightarrow> TextureInfo \<Rightarrow> bool" where
  "ti_frame t t' \<longleftrightarrow> ti_target t' = ti_target t \<and> ti_has_manager t' = ti_has_manager t \<and> ti_ref_count t' = ti_ref_count t \<and>
     ti_service_id t' = ti_service_id t \<and> ti_deleted t' = ti_deleted t \<and> ti_owned t' = ti_owned t \<and>
     ti_stream_texture t' = ti_stream_texture t \<and> ti_immutable t' = ti_immutable t \<and>
     ti_framebuffer_attachment_count t' = ti_framebuffer_attachment_count t"

lemma ti_frame_refl: "ti_frame t t"
  by (simp add: ti_frame_def)

lemma ti_frame_trans: "ti_frame t t1 \<Longrightarrow> ti_frame t1 t2 \<Longrightarrow> ti_frame t t2"
  by (simp add: ti_frame_def)

lemma npot_loop_ok:
  "shape nf nl ls \<Longrightarrow> \<forall>ii \<in> set is. ii < nf \<Longrightarrow> \<exists>b. npot_loop is ls = Some b"
proof (induction "is")
  case (Cons ii "is")
  have "0 < nl" using Cons.prems(1) by (simp add: shape_def)
  with level_at_shape [OF Cons.prems(1), of ii 0] Cons show ?case by auto
qed auto

lemma levels_ok_dims:
  assumes "shape nf nl ls" and "levels_ok ls" and "ii < nf"
  shows "0 \<le> li_width (ls ! ii ! 0) \<and> 0 \<le> li_height (ls ! ii ! 0) \<and> 0 \<le> li_depth (ls ! ii ! 0)"
proof -
  have "ii < length ls" "0 < length (ls ! ii)" using assms(1,3) by (auto simp: shape_def)
  with assms(2) show ?thesis by (auto simp: levels_ok_def level_ok_def)
qed

text \<open>\<open>complete t\<close> is what the two flags of a texture should be.\<close>

definition should_complete :: "FeatureFlags \<Rightarrow> TextureInfo \<Rightarrow> bool" where
  "should_complete f t \<longleftrightarrow> initial_complete f (ti_level_infos t ! 0 ! 0) t \<and> mips_complete (ti_level_infos t)"

definition should_cube :: "TextureInfo \<Rightarrow> bool" where
  "should_cube t \<longleftrightarrow> length (ti_level_infos t) = 6 \<and>
     li_width (ti_level_infos t ! 0 ! 0) = li_height (ti_level_infos t ! 0 ! 0) \<and> faces_equal (ti_level_infos t)"

lemma initial_complete_frame [simp]:
  "initial_complete f l (t\<lparr>ti_npot := a, ti_texture_complete := b, ti_cube_complete := c, ti_cleared := d\<rparr>) = initial_complete f l t"
  "initial_complete f l (t\<lparr>ti_npot := a, ti_texture_complete := b, ti_cube_complete := c\<rparr>) = initial_complete f l t"
proof -
  have "no_linear (t\<lparr>ti_npot := a, ti_texture_complete := b, ti_cube_complete := c, ti_cleared := d\<rparr>) = no_linear t"
    "no_linear (t\<lparr>ti_npot := a, ti_texture_complete := b, ti_cube_complete := c\<rparr>) = no_linear t" by (simp_all add: no_linear_def)
  note n = this
  show "initial_complete f l (t\<lparr>ti_npot := a, ti_texture_complete := b, ti_cube_complete := c, ti_cleared := d\<rparr>) = initial_complete f l t"
    "initial_complete f l (t\<lparr>ti_npot := a, ti_texture_complete := b, ti_cube_complete := c\<rparr>) = initial_complete f l t"
    unfolding initial_complete_def n by simp_all
qed

lemma ti_Update_ok:
  assumes s: "shape nf nl (ti_level_infos t)" and ok: "levels_ok (ti_level_infos t)"
  shows "\<exists>npot. ti_Update f t =
    Some (t\<lparr>ti_npot := npot, ti_texture_complete := should_complete f t, ti_cube_complete := should_cube t\<rparr>)"
proof -
  let ?ls = "ti_level_infos t"
  have nf: "length ?ls = nf" "0 < nf" "0 < nl" using s by (simp_all add: shape_def)
  then have ne: "?ls \<noteq> []" by auto
  have rng: "\<forall>ii \<in> set [0..<length ?ls]. ii < nf" using nf by simp
  from npot_loop_ok [OF s rng] obtain npot where npot: "npot_loop [0..<length ?ls] ?ls = Some npot" ..
  have at: "level_at ?ls 0 0 = Some (?ls ! 0 ! 0)" using level_at_shape [OF s nf(2), of 0] nf(3) by simp
  note complete_loop_ok [OF s levels_ok_dims [OF s ok] rng, of "initial_complete f (?ls ! 0 ! 0) t"
      "length ?ls = 6 \<and> li_width (?ls ! 0 ! 0) = li_height (?ls ! 0 ! 0)"]
  then have "complete_loop [0..<length ?ls] (?ls ! 0 ! 0) (initial_complete f (?ls ! 0 ! 0) t)
      (length ?ls = 6 \<and> li_width (?ls ! 0 ! 0) = li_height (?ls ! 0 ! 0)) ?ls = Some (should_complete f t, should_cube t)"
    by (simp add: should_complete_def should_cube_def mips_complete_def faces_equal_def Ball_def)
  with ne npot at show ?thesis by (intro exI [of _ npot]) (simp add: ti_Update_def Let_def)
qed

lemma level_estimate_Some: "\<exists>n. level_estimate width height format type old = Some n"
  by (auto simp: level_estimate_def ComputeImageDataSize_def uint32_def Let_def split: prod.split)

lemma levels_ok_set:
  "levels_ok ls \<Longrightarrow> level_at ls ii jj = Some l \<Longrightarrow> level_ok ii l' \<Longrightarrow> levels_ok (set_level ii jj l' ls)"
  by (elim level_atE) (auto simp: levels_ok_def nth_set_level)

lemma ti_SetLevelInfo_ok:
  assumes ok: "ti_ok maxl t" and t: "ti_target t \<noteq> 0" "target \<noteq> 0" "GLTargetToFaceIndex target < num_faces (ti_target t)"
    and level: "0 \<le> level" "level < maxl (ti_target t)" and dims: "0 \<le> width" "0 \<le> height" "0 \<le> depth"
    and size: "level = 0 \<Longrightarrow> GLTargetToFaceIndex target = 0 \<Longrightarrow> ComputeMipMapCount width height depth \<le> maxl (ti_target t)"
  shows "\<exists>t' l'. ti_SetLevelInfo f target level internal_format width height depth border format type cleared t = Some t' \<and>
    ti_ok maxl t' \<and> ti_frame t t' \<and> ti_texture_complete t' = should_complete f t' \<and> ti_cube_complete t' = should_cube t' \<and>
    ti_cleared t' = all_cleared (ti_level_infos t') \<and>
    ti_level_infos t' = set_level (GLTargetToFaceIndex target) level l' (ti_level_infos t) \<and>
    li_width l' = width \<and> li_height l' = height \<and> li_depth l' = depth \<and> li_cleared l' = cleared \<and> li_target l' = target \<and>
    li_internal_format l' = internal_format \<and> li_format l' = format \<and> li_type l' = type"
proof -
  let ?ii = "GLTargetToFaceIndex target" and ?ls = "ti_level_infos t"
  let ?nl = "nat (maxl (ti_target t))"
  have s: "shape (num_faces (ti_target t)) ?nl ?ls" using ok t(1) by (simp add: ti_ok_def ti_shape_def)
  define l where "l = ?ls ! ?ii ! nat level"
  have at: "level_at ?ls ?ii level = Some l" unfolding l_def by (rule level_at_shape [OF s t(3) level(1)]) (use level in simp)
  from level_estimate_Some obtain est where est: "level_estimate width height format type (li_estimated_size l) = Some est" by blast
  define l' where "l' = l\<lparr>li_target := target, li_level := level, li_internal_format := internal_format, li_width := width,
      li_height := height, li_depth := depth, li_border := border, li_format := format, li_type := type,
      li_estimated_size := est, li_cleared := cleared\<rparr>"
  define t1 where "t1 = t\<lparr>ti_level_infos := set_level ?ii level l' ?ls, ti_estimated_size := ti_estimated_size t - li_estimated_size l + est,
      ti_num_uncleared_mips := ti_num_uncleared_mips t - uncleared l + uncleared l', ti_max_level_set := max (ti_max_level_set t) level\<rparr>"
  have s1: "shape (num_faces (ti_target t)) ?nl (ti_level_infos t1)"
    unfolding t1_def using shape_set_level [OF s t(3) level(1), of l'] level size by (simp add: levels_needed_def l'_def)
  have "level_ok ?ii l'" using dims t(2) by (simp add: level_ok_def l'_def)
  then have ok1: "levels_ok (ti_level_infos t1)"
    using levels_ok_set [OF _ at] ok by (simp add: t1_def ti_ok_def)
  from ti_Update_ok [OF s1 ok1, of f] obtain npot where up: "ti_Update f t1 = Some (t1\<lparr>ti_npot := npot,
      ti_texture_complete := should_complete f t1, ti_cube_complete := should_cube t1\<rparr>)" by blast
  let ?t' = "t1\<lparr>ti_npot := npot, ti_texture_complete := should_complete f t1, ti_cube_complete := should_cube t1,
      ti_cleared := all_cleared (ti_level_infos t1)\<rparr>"
  have uc: "UpdateCleared (t1\<lparr>ti_npot := npot, ti_texture_complete := should_complete f t1, ti_cube_complete := should_cube t1\<rparr>) = Some ?t'"
    using UpdateCleared_ok [of "num_faces (ti_target t)" ?nl "t1\<lparr>ti_npot := npot, ti_texture_complete := should_complete f t1, ti_cube_complete := should_cube t1\<rparr>"] s1 by simp
  have n: "(if \<not> cleared then (if \<not> li_cleared l then ti_num_uncleared_mips t - 1 else ti_num_uncleared_mips t) + 1
      else (if \<not> li_cleared l then ti_num_uncleared_mips t - 1 else ti_num_uncleared_mips t)) = ti_num_uncleared_mips t - uncleared l + uncleared l'"
    by (simp add: uncleared_def l'_def)
  have "ti_SetLevelInfo f target level internal_format width height depth border format type cleared t = Some ?t'"
    unfolding ti_SetLevelInfo_def Let_def at est Option.bind.simps n l'_def [symmetric] t1_def [symmetric] up by (rule uc)
  moreover have "ti_ok maxl ?t'"
    using ok t(1) s1 ok1 level_sum_set [OF at, of uncleared l'] level_sum_set [OF at, of li_estimated_size l']
    by (simp add: ti_ok_def ti_shape_def t1_def l'_def)
  moreover have "ti_frame t ?t'" by (simp add: ti_frame_def t1_def)
  moreover have "should_complete f ?t' = should_complete f t1" "should_cube ?t' = should_cube t1"
    by (simp_all add: should_complete_def should_cube_def initial_complete_frame)
  ultimately show ?thesis by (intro exI [of _ ?t'] exI [of _ l']) (simp add: t1_def l'_def)
qed

subsection \<open>The operations keep the invariant\<close>

lemma face_of_index: "ii < 6 \<Longrightarrow> GLTargetToFaceIndex (FaceIndexToGLTarget ii) = ii \<and> FaceIndexToGLTarget ii \<noteq> 0"
  by (auto simp: FaceIndexToGLTarget_def GLTargetToFaceIndex_def)

lemma new_TextureInfo_ok: "ti_ok maxl (new_TextureInfo m i)"
  by (simp add: ti_ok_def ti_shape_def new_TextureInfo_def levels_ok_def level_sum_def all_cleared_def)

lemma level_sum_replicate: "g l = 0 \<Longrightarrow> level_sum g (replicate n (replicate k l)) = 0"
proof -
  assume "g l = 0"
  moreover have "sum_list (replicate m 0) = (0 :: 'a)" for m by (induction m) simp_all
  ultimately show ?thesis by (simp add: level_sum_def)
qed

lemma ti_SetTarget_ok:
  assumes ok: "ti_ok maxl t" and t: "ti_target t = 0" "target \<noteq> 0" "0 < maxl target"
  shows "ti_ok maxl (ti_SetTarget target (maxl target) t) \<and> ti_target (ti_SetTarget target (maxl target) t) = target \<and>
    ti_cleared (ti_SetTarget target (maxl target) t) = ti_cleared t"
proof -
  have ls: "ti_level_infos t = []" using ok t(1) by (simp add: ti_ok_def ti_shape_def)
  let ?ls = "replicate (num_faces target) (replicate (nat (maxl target)) new_LevelInfo)"
  let ?t = "ti_SetTarget target (maxl target) t"
  have eq: "ti_level_infos ?t = ?ls" by (simp add: ti_SetTarget_def ls resize_def num_faces_def Let_def)
  have rest: "ti_target ?t = target" "ti_num_uncleared_mips ?t = ti_num_uncleared_mips t"
    "ti_estimated_size ?t = ti_estimated_size t" "ti_cleared ?t = ti_cleared t" by (simp_all add: ti_SetTarget_def Let_def)
  have need: "levels_needed new_LevelInfo = 0"
    by (simp add: levels_needed_def new_LevelInfo_def ComputeMipMapCount_def uint32_def bits_Log2Floor_def)
  have "shape (num_faces target) (nat (maxl target)) ?ls" using t(3) need by (simp add: shape_def num_faces_def)
  moreover have "levels_ok ?ls" by (simp add: levels_ok_def level_ok_def new_LevelInfo_def)
  moreover have "level_sum uncleared ?ls = 0" "level_sum li_estimated_size ?ls = 0"
    by (rule level_sum_replicate, simp add: uncleared_def new_LevelInfo_def)+
  moreover have "all_cleared ?ls" using need t(3) by (simp add: all_cleared_def num_faces_def)
  moreover have "ti_num_uncleared_mips t = 0" "ti_estimated_size t = 0" using ok ls by (simp_all add: ti_ok_def level_sum_def)
  ultimately show ?thesis using t(2) by (simp add: ti_ok_def ti_shape_def eq rest)
qed

lemma level_ok_cleared: "level_ok ii l \<Longrightarrow> c \<or> \<not> li_cleared l \<Longrightarrow> level_ok ii (l\<lparr>li_cleared := c\<rparr>)"
  by (auto simp: level_ok_def)

text \<open>Changing only whether a level is cleared.\<close>

lemma ti_ok_set_cleared:
  assumes ok: "ti_ok maxl t" and at: "level_at (ti_level_infos t) ii jj = Some l" and c: "c \<or> \<not> li_cleared l"
  shows "ti_ok maxl (t\<lparr>ti_num_uncleared_mips := ti_num_uncleared_mips t - uncleared l + (if c then 0 else 1),
    ti_level_infos := set_level ii jj (l\<lparr>li_cleared := c\<rparr>) (ti_level_infos t)\<rparr>)"
proof -
  let ?ls = "ti_level_infos t" and ?l = "l\<lparr>li_cleared := c\<rparr>"
  let ?ls' = "set_level ii jj ?l ?ls"
  from at have r: "ii < length ?ls" "0 \<le> jj" "nat jj < length (?ls ! ii)" "l = ?ls ! ii ! nat jj" by (auto elim: level_atE)
  have nth: "?ls' ! a ! b = (if a = ii \<and> b = nat jj then ?l else ?ls ! a ! b)" for a b by (rule nth_set_level [OF r(1,3)])
  have need: "levels_needed (?ls' ! 0 ! 0) = levels_needed (?ls ! 0 ! 0)" unfolding nth using r(4) by (auto simp: levels_needed_def)
  have sh: "shape nf nl ?ls' = shape nf nl ?ls" for nf nl
    using r(1) by (simp add: shape_def need)
  have "level_ok ii l" using ok r by (simp add: ti_ok_def levels_ok_def)
  then have "levels_ok ?ls'" using ok level_ok_cleared [OF _ c] levels_ok_set [OF _ at] by (simp add: ti_ok_def)
  moreover have "all_cleared ?ls'" if "all_cleared ?ls"
    unfolding all_cleared_def need
  proof (intro allI impI)
    fix a b
    assume "a < length ?ls'" "b < nat (levels_needed (?ls ! 0 ! 0))" "visible (?ls' ! a ! b)"
    then have "a < length ?ls" "b < nat (levels_needed (?ls ! 0 ! 0))" "visible (?ls ! a ! b)"
      by (auto simp: nth visible_def r(4) [symmetric] split: if_splits)
    with that have "li_cleared (?ls ! a ! b)" by (simp add: all_cleared_def)
    with c r(4) show "li_cleared (?ls' ! a ! b)" unfolding nth by auto
  qed
  moreover have "level_sum li_estimated_size ?ls' = level_sum li_estimated_size ?ls" using level_sum_set [OF at, of li_estimated_size ?l] by simp
  moreover have "level_sum uncleared ?ls' = level_sum uncleared ?ls - uncleared l + (if c then 0 else 1)"
    using level_sum_set [OF at, of uncleared ?l] by (simp add: uncleared_def)
  moreover have "?ls' \<noteq> []" "?ls \<noteq> []" using r(1) by auto
  ultimately show ?thesis using ok by (auto simp: ti_ok_def ti_shape_def sh)
qed

lemma ti_ok_UpdateCleared:
  assumes "ti_ok maxl t"
  shows "\<exists>t'. UpdateCleared t = Some t' \<and> ti_ok maxl t' \<and> ti_frame t t' \<and> ti_level_infos t' = ti_level_infos t \<and>
    (ti_target t \<noteq> 0 \<longrightarrow> ti_cleared t' = all_cleared (ti_level_infos t))"
proof (cases "ti_target t = 0")
  case True
  then have "UpdateCleared t = Some t" using assms by (simp add: UpdateCleared_def ti_ok_def ti_shape_def)
  with True assms show ?thesis by (simp add: ti_frame_refl)
next
  case False
  then have "shape (num_faces (ti_target t)) (nat (maxl (ti_target t))) (ti_level_infos t)" using assms by (simp add: ti_ok_def ti_shape_def)
  from UpdateCleared_ok [OF this] assms False show ?thesis by (simp add: ti_ok_def ti_shape_def ti_frame_def)
qed

lemma ti_SetLevelCleared_ok:
  assumes ok: "ti_ok maxl t" and t: "ti_target t \<noteq> 0" "GLTargetToFaceIndex target < num_faces (ti_target t)"
    and level: "0 \<le> level" "level < maxl (ti_target t)"
  shows "\<exists>t'. ti_SetLevelCleared target level t = Some t' \<and> ti_ok maxl t' \<and> ti_frame t t'"
proof -
  let ?ii = "GLTargetToFaceIndex target" and ?ls = "ti_level_infos t"
  have s: "shape (num_faces (ti_target t)) (nat (maxl (ti_target t))) ?ls" using ok t(1) by (simp add: ti_ok_def ti_shape_def)
  define l where "l = ?ls ! ?ii ! nat level"
  have at: "level_at ?ls ?ii level = Some l" unfolding l_def by (rule level_at_shape [OF s t(2) level(1)]) (use level in simp)
  let ?t = "t\<lparr>ti_num_uncleared_mips := ti_num_uncleared_mips t - uncleared l + 0,
    ti_level_infos := set_level ?ii level (l\<lparr>li_cleared := True\<rparr>) ?ls\<rparr>"
  have "ti_ok maxl ?t" using ti_ok_set_cleared [OF ok at, of True] by simp
  from ti_ok_UpdateCleared [OF this] obtain t' where t': "UpdateCleared ?t = Some t'" "ti_ok maxl t'" "ti_frame ?t t'" by blast
  moreover have "ti_SetLevelCleared target level t = UpdateCleared ?t"
    by (simp add: ti_SetLevelCleared_def at uncleared_def Let_def)
  ultimately show ?thesis by (simp add: ti_frame_def)
qed

lemma ti_SetParameter_ok:
  assumes ok: "ti_ok maxl t"
  shows "\<exists>r t'. ti_SetParameter f pname param t = Some (r, t') \<and> ti_ok maxl t' \<and> ti_frame t t' \<and> ti_level_infos t' = ti_level_infos t"
proof (cases "parameter_refused pname param t \<or> assign_parameter pname param t = None")
  case True
  with ok show ?thesis by (auto simp: ti_SetParameter_def ti_frame_refl)
next
  case False
  then obtain t1 where t1: "assign_parameter pname param t = Some t1" by auto
  then have same: "ti_level_infos t1 = ti_level_infos t" "ti_frame t t1" "ti_ok maxl t1"
    using ok by (auto simp: assign_parameter_def ti_frame_def ti_ok_def ti_shape_def split: if_splits)
  obtain a b c where t2: "ti_Update f t1 = Some (t1\<lparr>ti_npot := a, ti_texture_complete := b, ti_cube_complete := c\<rparr>)"
  proof (cases "ti_target t1 = 0")
    case True
    then have "ti_level_infos t1 = []" using same(3) by (simp add: ti_ok_def ti_shape_def)
    with that show ?thesis by (simp add: ti_Update_def)
  next
    case False
    with same(3) have "shape (num_faces (ti_target t1)) (nat (maxl (ti_target t1))) (ti_level_infos t1)" "levels_ok (ti_level_infos t1)"
      by (simp_all add: ti_ok_def ti_shape_def)
    from ti_Update_ok [OF this, of f] that show ?thesis by blast
  qed
  let ?t2 = "t1\<lparr>ti_npot := a, ti_texture_complete := b, ti_cube_complete := c\<rparr>"
  have "ti_ok maxl ?t2" using same(3) by (simp add: ti_ok_def ti_shape_def)
  from ti_ok_UpdateCleared [OF this] obtain t3 where "UpdateCleared ?t2 = Some t3" "ti_ok maxl t3" "ti_frame ?t2 t3"
    "ti_level_infos t3 = ti_level_infos t1" by auto
  with False t1 t2 same show ?thesis by (intro exI [of _ True] exI [of _ t3]) (simp add: ti_SetParameter_def ti_frame_def)
qed

text \<open>Generating mipmaps.\<close>

lemma generate_loop_ok:
  "shape nf nl ls \<Longrightarrow> \<forall>ii \<in> set is. ii < nf \<Longrightarrow>
   generate_loop is ls first = Some (\<forall>ii \<in> set is. same_image (ls ! ii ! 0) first)"
proof (induction "is")
  case (Cons ii "is")
  have "0 < nl" using Cons.prems(1) by (simp add: shape_def)
  with level_at_shape [OF Cons.prems(1), of ii 0] Cons show ?case by auto
qed simp

definition same_base :: "LevelInfo list list \<Rightarrow> LevelInfo list list \<Rightarrow> bool" where
  "same_base ls ls' \<longleftrightarrow> length ls' = length ls \<and> (\<forall>ii < length ls. ls' ! ii ! 0 = ls ! ii ! 0)"

lemma same_base_trans: "same_base a b \<Longrightarrow> same_base b c \<Longrightarrow> same_base a c"
  by (simp add: same_base_def)

lemma same_base_refl: "same_base a a"
  by (simp add: same_base_def)

lemma mark_levels_ok:
  assumes t: "target \<noteq> 0" "GLTargetToFaceIndex target < num_faces tt" "tt \<noteq> 0"
  shows "ti_ok maxl t \<Longrightarrow> ti_target t = tt \<Longrightarrow> \<forall>level \<in> set levels. 0 < level \<and> int level < maxl tt \<Longrightarrow>
    \<exists>t'. mark_levels levels f target info1 w h d t = Some t' \<and> ti_ok maxl t' \<and> ti_frame t t' \<and> same_base (ti_level_infos t) (ti_level_infos t')"
proof (induction levels arbitrary: t w h d)
  case Nil
  then show ?case by (simp add: ti_frame_refl same_base_refl)
next
  case (Cons level levels)
  have half: "0 \<le> half x" for x by (simp add: half_def)
  have l: "0 \<le> int level" "int level < maxl (ti_target t)" "int level \<noteq> 0" using Cons.prems by auto
  have f: "ti_target t \<noteq> 0" "GLTargetToFaceIndex target < num_faces (ti_target t)" using t Cons.prems by simp_all
  let ?set = "ti_SetLevelInfo f target (int level) (li_internal_format info1) (half w) (half h) (half d) (li_border info1) (li_format info1) (li_type info1) True"
  obtain t1 l' where t1: "?set t = Some t1" "ti_ok maxl t1" "ti_frame t t1"
    "ti_level_infos t1 = set_level (GLTargetToFaceIndex target) (int level) l' (ti_level_infos t)"
    using ti_SetLevelInfo_ok [OF Cons.prems(1) f(1) t(1) f(2) l(1,2) half half half, of w h d f
        "li_internal_format info1" "li_border info1" "li_format info1" "li_type info1" True] l(3) by blast
  have s: "shape (num_faces (ti_target t)) (nat (maxl (ti_target t))) (ti_level_infos t)" using Cons.prems f by (simp add: ti_ok_def ti_shape_def)
  then have "same_base (ti_level_infos t) (ti_level_infos t1)"
    using f(2) l unfolding same_base_def t1(4) by (auto simp: nth_set_level shape_def)
  moreover have "ti_target t1 = tt" using t1(3) Cons.prems(2) by (simp add: ti_frame_def)
  with Cons.IH [OF t1(2), of "half w" "half h" "half d"] Cons.prems(3) obtain t' where
    "mark_levels levels f target info1 (half w) (half h) (half d) t1 = Some t'" "ti_ok maxl t'" "ti_frame t1 t'"
    "same_base (ti_level_infos t1) (ti_level_infos t')" by auto
  ultimately show ?case
    using t1 ti_frame_trans same_base_trans unfolding mark_levels.simps Let_def t1(1) Option.bind.simps by blast
qed

lemma mark_faces_ok:
  assumes tt: "tt \<noteq> 0" and base: "\<And>ii. ii < num_faces tt \<Longrightarrow> same_image (base ! ii ! 0) (base ! 0 ! 0)"
    and need: "levels_needed (base ! 0 ! 0) \<le> maxl tt"
  shows "ti_ok maxl t \<Longrightarrow> ti_target t = tt \<Longrightarrow> same_base base (ti_level_infos t) \<Longrightarrow> \<forall>ii \<in> set is. ii < num_faces tt \<Longrightarrow>
    \<exists>t'. mark_faces is f t = Some t' \<and> ti_ok maxl t' \<and> ti_frame t t' \<and> same_base base (ti_level_infos t')"
proof (induction "is" arbitrary: t)
  case Nil
  then show ?case by (simp add: ti_frame_refl)
next
  case (Cons ii "is")
  have ii: "ii < num_faces tt" using Cons.prems by simp
  have s: "shape (num_faces tt) (nat (maxl tt)) (ti_level_infos t)" using Cons.prems(1,2) tt by (simp add: ti_ok_def ti_shape_def)
  then have len: "length base = num_faces tt" "0 < nat (maxl tt)" "0 < num_faces tt"
    using Cons.prems(3) by (simp_all add: same_base_def shape_def)
  define info1 where "info1 = ti_level_infos t ! ii ! 0"
  have i1: "info1 = base ! ii ! 0" using Cons.prems(3) ii len by (simp add: same_base_def info1_def)
  have at: "level_at (ti_level_infos t) ii 0 = Some info1" using level_at_shape [OF s ii, of 0] len(2) by (simp add: info1_def)
  have "ComputeMipMapCount (li_width info1) (li_height info1) (li_depth info1) = levels_needed (base ! 0 ! 0)"
    using base [OF ii] base [OF len(3)] unfolding i1 by (simp add: same_image_def levels_needed_def)
  then have n: "\<forall>level \<in> set [1..<nat (ComputeMipMapCount (li_width info1) (li_height info1) (li_depth info1))]. 0 < level \<and> int level < maxl tt"
    using need by auto
  define target where "target = (if ti_target t = GL_TEXTURE_2D then GL_TEXTURE_2D else FaceIndexToGLTarget ii)"
  have ii6: "ii < 6" using ii by (auto simp: num_faces_def split: if_splits)
  have tg: "target \<noteq> 0" "GLTargetToFaceIndex target < num_faces tt"
    using face_of_index [OF ii6] ii len(3)
    by (cases "ti_target t = GL_TEXTURE_2D"; simp add: target_def GLTargetToFaceIndex_def [of GL_TEXTURE_2D])+
  from mark_levels_ok [OF tg tt Cons.prems(1,2) n, of f info1 "li_width info1" "li_height info1" "li_depth info1"] obtain t1 where
    t1: "mark_levels [1..<nat (ComputeMipMapCount (li_width info1) (li_height info1) (li_depth info1))] f target info1
      (li_width info1) (li_height info1) (li_depth info1) t = Some t1" "ti_ok maxl t1" "ti_frame t t1" "same_base (ti_level_infos t) (ti_level_infos t1)" by blast
  have "ti_target t1 = tt" using t1(3) Cons.prems(2) by (simp add: ti_frame_def)
  from Cons.IH [OF t1(2) this same_base_trans [OF Cons.prems(3) t1(4)]] Cons.prems(4) obtain t' where
    "mark_faces is f t1 = Some t'" "ti_ok maxl t'" "ti_frame t1 t'" "same_base base (ti_level_infos t')" by auto
  with t1(1,3) ti_frame_trans show ?case
    unfolding mark_faces.simps at Option.bind.simps Let_def target_def [symmetric] t1(1) by blast
qed

lemma ti_MarkMipmapsGenerated_ok:
  assumes ok: "ti_ok maxl t"
  shows "\<exists>r t'. ti_MarkMipmapsGenerated f t = Some (r, t') \<and> ti_ok maxl t' \<and> ti_frame t t'"
proof (cases "ti_level_infos t = [] \<or> (ti_npot t \<and> \<not> npot_ok f) \<or> ti_target t = GL_TEXTURE_EXTERNAL_OES \<or> ti_target t = GL_TEXTURE_RECTANGLE_ARB")
  case True
  then have "ti_MarkMipmapsGenerated f t = Some (False, t)" by (auto simp: ti_MarkMipmapsGenerated_def ti_CanGenerateMipmaps_def)
  with ok ti_frame_refl show ?thesis by blast
next
  case False
  then have t: "ti_target t \<noteq> 0" using ok by (auto simp: ti_ok_def ti_shape_def)
  let ?ls = "ti_level_infos t"
  have s: "shape (num_faces (ti_target t)) (nat (maxl (ti_target t))) ?ls" using ok t by (simp add: ti_ok_def ti_shape_def)
  then have len: "length ?ls = num_faces (ti_target t)" "0 < num_faces (ti_target t)" "0 < nat (maxl (ti_target t))"
    "levels_needed (?ls ! 0 ! 0) \<le> maxl (ti_target t)" by (auto simp: shape_def split: if_splits)
  have at: "level_at ?ls 0 0 = Some (?ls ! 0 ! 0)" using level_at_shape [OF s len(2), of 0] len(3) by simp
  have rng: "\<forall>ii \<in> set [0..<length ?ls]. ii < num_faces (ti_target t)" using len(1) by simp
  have can: "ti_CanGenerateMipmaps f t = Some (\<forall>ii \<in> set [0..<length ?ls]. same_image (?ls ! ii ! 0) (?ls ! 0 ! 0))"
    using False at generate_loop_ok [OF s rng] by (auto simp: ti_CanGenerateMipmaps_def)
  show ?thesis
  proof (cases "\<forall>ii \<in> set [0..<length ?ls]. same_image (?ls ! ii ! 0) (?ls ! 0 ! 0)")
    case True
    then have base: "same_image (?ls ! ii ! 0) (?ls ! 0 ! 0)" if "ii < num_faces (ti_target t)" for ii using that len(1) by simp
    from mark_faces_ok [where maxl = maxl, OF t base len(4) ok refl same_base_refl rng, of f] obtain t' where
      "mark_faces [0..<length ?ls] f t = Some t'" "ti_ok maxl t'" "ti_frame t t'" by blast
    with True can show ?thesis by (auto simp: ti_MarkMipmapsGenerated_def)
  qed (use can ok ti_frame_refl in \<open>auto simp: ti_MarkMipmapsGenerated_def\<close>)
qed

subsection \<open>Clearing makes a texture safe\<close>

text \<open>Levels only become cleared; nothing else about them changes.\<close>

definition clears_more :: "LevelInfo list list \<Rightarrow> LevelInfo list list \<Rightarrow> bool" where
  "clears_more ls ls' \<longleftrightarrow> length ls' = length ls \<and> (\<forall>ii < length ls. length (ls' ! ii) = length (ls ! ii) \<and>
     (\<forall>jj < length (ls ! ii). \<exists>c. (li_cleared (ls ! ii ! jj) \<longrightarrow> c) \<and> ls' ! ii ! jj = (ls ! ii ! jj)\<lparr>li_cleared := c\<rparr>))"

lemma clears_more_refl: "clears_more ls ls"
proof -
  have "(li_cleared l \<longrightarrow> li_cleared l) \<and> l = l\<lparr>li_cleared := li_cleared l\<rparr>" for l by simp
  then show ?thesis unfolding clears_more_def by blast
qed

lemma clears_more_trans:
  assumes "clears_more a b" and "clears_more b c"
  shows "clears_more a c"
  unfolding clears_more_def
proof (intro conjI allI impI)
  show "length c = length a" using assms by (simp add: clears_more_def)
next
  fix ii assume ii: "ii < length a"
  then show len: "length (c ! ii) = length (a ! ii)" using assms by (simp add: clears_more_def)
  fix jj assume jj: "jj < length (a ! ii)"
  with ii assms(1) obtain x where x: "li_cleared (a ! ii ! jj) \<longrightarrow> x" "b ! ii ! jj = (a ! ii ! jj)\<lparr>li_cleared := x\<rparr>" unfolding clears_more_def by blast
  have "ii < length b" "jj < length (b ! ii)" using ii jj assms(1) by (simp_all add: clears_more_def)
  with assms(2) obtain y where "li_cleared (b ! ii ! jj) \<longrightarrow> y" "c ! ii ! jj = (b ! ii ! jj)\<lparr>li_cleared := y\<rparr>" unfolding clears_more_def by blast
  with x show "\<exists>z. (li_cleared (a ! ii ! jj) \<longrightarrow> z) \<and> c ! ii ! jj = (a ! ii ! jj)\<lparr>li_cleared := z\<rparr>" by auto
qed

lemma clears_more_level:
  assumes "clears_more ls ls'" and "ii < length ls" "jj < length (ls ! ii)"
  shows "visible (ls' ! ii ! jj) = visible (ls ! ii ! jj)" and "li_cleared (ls ! ii ! jj) \<Longrightarrow> li_cleared (ls' ! ii ! jj)"
    and "li_target (ls' ! ii ! jj) = li_target (ls ! ii ! jj)" and "levels_needed (ls' ! ii ! jj) = levels_needed (ls ! ii ! jj)"
  using assms unfolding clears_more_def by (fastforce simp: visible_def levels_needed_def)+

lemma ti_ClearLevel_ok:
  assumes ok: "ti_ok maxl t" and level: "0 \<le> level" and clr: "\<forall>t l s. clear t l s \<noteq> None"
  shows "\<exists>r t' s'. ti_ClearLevel clear target level t s = Some (r, t', s') \<and> ti_ok maxl t' \<and> ti_frame t t' \<and> ti_cleared t' = ti_cleared t \<and>
    clears_more (ti_level_infos t) (ti_level_infos t') \<and>
    (\<forall>l. level_at (ti_level_infos t) (GLTargetToFaceIndex target) level = Some l \<and> r \<and> visible l \<longrightarrow>
       li_cleared (ti_level_infos t' ! GLTargetToFaceIndex target ! nat level))"
proof (cases "level_at (ti_level_infos t) (GLTargetToFaceIndex target) level")
  case None
  then have "ti_ClearLevel clear target level t s = Some (True, t, s)" using level by (auto simp: ti_ClearLevel_def level_at_def Let_def split: if_splits)
  with None ok clears_more_refl ti_frame_refl show ?thesis by auto
next
  case (Some l)
  let ?ii = "GLTargetToFaceIndex target" and ?ls = "ti_level_infos t"
  from Some have r: "?ii < length ?ls" "0 \<le> level" "nat level < length (?ls ! ?ii)" "l = ?ls ! ?ii ! nat level" by (auto elim: level_atE)
  have guard: "\<not> (?ii \<ge> length ?ls \<or> level \<ge> int (length (?ls ! ?ii)))" using r by linarith
  have lok: "level_ok ?ii l" using ok r by (simp add: ti_ok_def levels_ok_def)
  show ?thesis
  proof (cases "li_target l = 0 \<or> li_cleared l \<or> li_width l = 0 \<or> li_height l = 0 \<or> li_depth l = 0")
    case True
    then have "ti_ClearLevel clear target level t s = Some (True, t, s)" using guard Some by (auto simp: ti_ClearLevel_def Let_def)
    moreover have "li_cleared l" if "visible l" using True that lok by (auto simp: visible_def level_ok_def)
    ultimately show ?thesis using ok clears_more_refl ti_frame_refl Some r(4) by auto
  next
    case False
    obtain c s' where c: "clear t l s = Some (c, s')" using clr [rule_format, of t l s] by auto
    let ?t = "t\<lparr>ti_num_uncleared_mips := ti_num_uncleared_mips t - uncleared l + (if c then 0 else 1),
      ti_level_infos := set_level ?ii level (l\<lparr>li_cleared := c\<rparr>) ?ls\<rparr>"
    have "ti_ClearLevel clear target level t s = Some (c, ?t, s')"
      using False guard Some c by (auto simp: ti_ClearLevel_def Let_def uncleared_def)
    moreover have "ti_ok maxl ?t" by (rule ti_ok_set_cleared [OF ok Some]) (use False in simp)
    moreover have nth: "set_level ?ii level (l\<lparr>li_cleared := c\<rparr>) ?ls ! a ! b = (if a = ?ii \<and> b = nat level then l\<lparr>li_cleared := c\<rparr> else ?ls ! a ! b)" for a b
      by (rule nth_set_level [OF r(1,3)])
    have "\<exists>x. (li_cleared (?ls ! a ! b) \<longrightarrow> x) \<and> set_level ?ii level (l\<lparr>li_cleared := c\<rparr>) ?ls ! a ! b = (?ls ! a ! b)\<lparr>li_cleared := x\<rparr>" for a b
    proof (cases "a = ?ii \<and> b = nat level")
      case True
      with False r(4) show ?thesis unfolding nth by (intro exI [of _ c]) simp
    next
      case other: False
      then show ?thesis unfolding nth if_not_P [OF other] by (intro exI [of _ "li_cleared (?ls ! a ! b)"]) simp
    qed
    then have "clears_more ?ls (ti_level_infos ?t)" using r(1) by (simp add: clears_more_def)
    ultimately show ?thesis by (intro exI [of _ c] exI [of _ ?t] exI [of _ s']) (simp add: ti_frame_def nth_set_level [OF r(1,3)])
  qed
qed

lemma clear_levels_ok:
  assumes clr: "\<forall>t l s. clear t l s \<noteq> None"
  shows "ti_ok maxl t \<Longrightarrow> \<forall>(ii, jj) \<in> set ps. ii < length (ti_level_infos t) \<and> jj < length (ti_level_infos t ! ii) \<Longrightarrow>
   \<exists>r t' s'. clear_levels ps clear t s = Some (r, t', s') \<and> ti_ok maxl t' \<and> ti_frame t t' \<and> ti_cleared t' = ti_cleared t \<and>
     clears_more (ti_level_infos t) (ti_level_infos t') \<and>
     (r \<longrightarrow> (\<forall>(ii, jj) \<in> set ps. visible (ti_level_infos t' ! ii ! jj) \<longrightarrow> li_cleared (ti_level_infos t' ! ii ! jj)))"
proof (induction ps arbitrary: t s)
  case Nil
  then show ?case by (auto simp: ti_frame_refl clears_more_refl)
next
  case (Cons p ps)
  obtain ii jj where p: "p = (ii, jj)" by fastforce
  let ?ls = "ti_level_infos t"
  have r: "ii < length ?ls" "jj < length (?ls ! ii)" using Cons.prems(2) p by simp_all
  define l where "l = ?ls ! ii ! jj"
  have at: "level_at ?ls ii (int jj) = Some l" using r by (simp add: level_at_def l_def)
  have lok: "level_ok ii l" using Cons.prems(1) r by (simp add: ti_ok_def levels_ok_def l_def)
  obtain ok t1 s1 where t1: "clear_levels (p # ps) clear t s = (if \<not> ok then Some (False, t1, s1) else clear_levels ps clear t1 s1)"
    "ti_ok maxl t1" "ti_frame t t1" "ti_cleared t1 = ti_cleared t" "clears_more ?ls (ti_level_infos t1)"
    "ok \<Longrightarrow> visible l \<Longrightarrow> li_cleared (ti_level_infos t1 ! ii ! jj)"
  proof (cases "li_target l = 0")
    case True
    then have "li_cleared l" using lok by (auto simp: level_ok_def)
    with that [of True t s] True at Cons.prems(1) show ?thesis by (simp add: p clears_more_refl ti_frame_refl l_def)
  next
    case False
    then have face: "GLTargetToFaceIndex (li_target l) = ii" using lok by (simp add: level_ok_def)
    from ti_ClearLevel_ok [OF Cons.prems(1) _ clr, where level = "int jj" and target = "li_target l" and s = s] obtain ok t1 s1 where
      "ti_ClearLevel clear (li_target l) (int jj) t s = Some (ok, t1, s1)" "ti_ok maxl t1" "ti_frame t t1" "ti_cleared t1 = ti_cleared t"
      "clears_more ?ls (ti_level_infos t1)" "\<forall>l'. level_at ?ls ii (int jj) = Some l' \<and> ok \<and> visible l' \<longrightarrow> li_cleared (ti_level_infos t1 ! ii ! jj)"
      unfolding face by (auto simp: nat_int)
    with that [of ok t1 s1] False at show ?thesis by (simp add: p)
  qed
  show ?case
  proof (cases ok)
    case False
    with t1 show ?thesis by auto
  next
    case True
    have "\<forall>(a, b) \<in> set ps. a < length (ti_level_infos t1) \<and> b < length (ti_level_infos t1 ! a)"
      using Cons.prems(2) t1(5) by (auto simp: clears_more_def)
    from Cons.IH [OF t1(2) this, of s1] obtain res t' s' where t': "clear_levels ps clear t1 s1 = Some (res, t', s')" "ti_ok maxl t'" "ti_frame t1 t'"
      "ti_cleared t' = ti_cleared t1" "clears_more (ti_level_infos t1) (ti_level_infos t')"
      "res \<longrightarrow> (\<forall>(ii, jj) \<in> set ps. visible (ti_level_infos t' ! ii ! jj) \<longrightarrow> li_cleared (ti_level_infos t' ! ii ! jj))" by blast
    have r1: "ii < length (ti_level_infos t1)" "jj < length (ti_level_infos t1 ! ii)" using r t1(5) by (auto simp: clears_more_def)
    have "visible (ti_level_infos t' ! ii ! jj) \<longrightarrow> li_cleared (ti_level_infos t' ! ii ! jj)"
      using clears_more_level [OF t1(5) r] clears_more_level [OF t'(5) r1] t1(6) [OF True] by (auto simp: l_def)
    with t' t1 True ti_frame_trans clears_more_trans show ?thesis by (auto simp: p)
  qed
qed

text \<open>Clearing the renderable levels either reports a failure of GL or leaves a texture with nothing uncleared to see.\<close>

lemma ti_ClearRenderableLevels_ok:
  assumes ok: "ti_ok maxl t" and clr: "\<forall>t l s. clear t l s \<noteq> None"
  shows "\<exists>r t' s'. ti_ClearRenderableLevels clear t s = Some (r, t', s') \<and> ti_ok maxl t' \<and> ti_frame t t' \<and> (r \<longrightarrow> ti_cleared t')"
proof (cases "ti_cleared t")
  case True
  with ok show ?thesis by (auto simp: ti_ClearRenderableLevels_def SafeToRenderFrom_def ti_frame_refl)
next
  case False
  let ?ls = "ti_level_infos t"
  have t: "ti_target t \<noteq> 0" using ok False by (auto simp: ti_ok_def)
  have s: "shape (num_faces (ti_target t)) (nat (maxl (ti_target t))) ?ls" using ok t by (simp add: ti_ok_def ti_shape_def)
  then have len: "length ?ls = num_faces (ti_target t)" "0 < num_faces (ti_target t)" "0 < nat (maxl (ti_target t))"
    "nat (levels_needed (?ls ! 0 ! 0)) \<le> nat (maxl (ti_target t))" "\<And>ii. ii < length ?ls \<Longrightarrow> length (?ls ! ii) = nat (maxl (ti_target t))"
    by (auto simp: shape_def split: if_splits)
  have at: "level_at ?ls 0 0 = Some (?ls ! 0 ! 0)" using level_at_shape [OF s len(2), of 0] len(3) by simp
  let ?ps = "List.product [0..<length ?ls] [0..<nat (levels_needed (?ls ! 0 ! 0))]"
  have "\<forall>(ii, jj) \<in> set ?ps. ii < length ?ls \<and> jj < length (?ls ! ii)" using len(4,5) by auto
  from clear_levels_ok [OF clr ok this, where s = s] obtain r t1 s1 where t1: "clear_levels ?ps clear t s = Some (r, t1, s1)" "ti_ok maxl t1" "ti_frame t t1"
    "ti_cleared t1 = ti_cleared t" "clears_more ?ls (ti_level_infos t1)"
    "r \<longrightarrow> (\<forall>(ii, jj) \<in> set ?ps. visible (ti_level_infos t1 ! ii ! jj) \<longrightarrow> li_cleared (ti_level_infos t1 ! ii ! jj))" by blast
  show ?thesis
  proof (cases r)
    case True
    have need: "levels_needed (ti_level_infos t1 ! 0 ! 0) = levels_needed (?ls ! 0 ! 0)"
      using clears_more_level(4) [OF t1(5), of 0 0] len by simp
    have "length (ti_level_infos t1) = length ?ls" using t1(5) by (simp add: clears_more_def)
    then have "all_cleared (ti_level_infos t1)" using t1(6) True unfolding all_cleared_def need by auto
    then have "ti_ok maxl (t1\<lparr>ti_cleared := True\<rparr>)" using t1(2) by (simp add: ti_ok_def ti_shape_def)
    moreover have "ti_ClearRenderableLevels clear t s = Some (True, t1\<lparr>ti_cleared := True\<rparr>, s1)"
      using False True at t1(1) by (simp add: ti_ClearRenderableLevels_def SafeToRenderFrom_def)
    moreover have "ti_frame t (t1\<lparr>ti_cleared := True\<rparr>)" using t1(3) by (simp add: ti_frame_def)
    ultimately show ?thesis by auto
  next
    case no: False
    then have "ti_ClearRenderableLevels clear t s = Some (False, t1, s1)"
      using False at t1(1) by (simp add: ti_ClearRenderableLevels_def SafeToRenderFrom_def)
    with t1(2,3) show ?thesis by auto
  qed
qed

subsection \<open>Uploads stay inside of a level\<close>

lemma SafeAddInt_exact:
  assumes "- 2147483648 \<le> a" "a < 2147483648" and "0 \<le> b" "b < 2147483648"
  shows "SafeAddInt a b = (if a + b < 2147483648 then (True, a + b) else (False, 0))"
proof (cases "a + b < 2147483648")
  case True
  with assms show ?thesis by (simp add: SafeAddInt_def int32_id)
next
  case False
  have "word_of_int (a + b - 4294967296) = (word_of_int (a + b) :: u32)" by (simp add: word_of_int_eq_iff take_bit_eq_mod)
  then have "int32 (a + b) = int32 (a + b - 4294967296)" unfolding int32_def by (simp only:)
  also have "\<dots> = a + b - 4294967296" by (rule int32_id) (use assms False in simp_all)
  finally show ?thesis using assms False by (simp add: SafeAddInt_def)
qed

lemma ValidForTexture_exact:
  assumes x: "- 2147483648 \<le> xoffset" "xoffset < 2147483648" and y: "- 2147483648 \<le> yoffset" "yoffset < 2147483648"
    and w: "0 \<le> width" "width < 2147483648" and h: "0 \<le> height" "height < 2147483648"
    and small: "\<And>l. level_at (ti_level_infos t) (GLTargetToFaceIndex (uint32 face)) level = Some l \<Longrightarrow> li_width l < 2147483648 \<and> li_height l < 2147483648"
  shows "ValidForTexture face level xoffset yoffset width height format type t \<longleftrightarrow>
    (\<exists>l. level_at (ti_level_infos t) (GLTargetToFaceIndex (uint32 face)) level = Some l \<and>
      0 \<le> xoffset \<and> xoffset + width \<le> li_width l \<and> 0 \<le> yoffset \<and> yoffset + height \<le> li_height l \<and>
      format = li_internal_format l \<and> type = li_type l)"
proof (cases "level_at (ti_level_infos t) (GLTargetToFaceIndex (uint32 face)) level")
  case (Some l)
  with small have "li_width l < 2147483648" "li_height l < 2147483648" by simp_all
  with Some SafeAddInt_exact [OF x w] SafeAddInt_exact [OF y h] show ?thesis by (auto simp: ValidForTexture_def)
qed (simp add: ValidForTexture_def)

end
