(* ===== verification/Texture_Manager.thy ===== *)
theory Texture_Manager
  imports Texture_Info
begin

text \<open>
  \<^verbatim>\<open>TextureManager\<close> of \<^verbatim>\<open>gpu/command_buffer/service/texture_manager.h\<close> and \<^verbatim>\<open>texture_manager.cc\<close>: the table from client ids
  to reference counted \<^verbatim>\<open>TextureInfo\<close>s, and the counters by which a draw call finds out without a search
  whether some texture can not be rendered or has not been cleared. As in the manager of buffers, the infos live in
  a heap, a reference is an index, and a freed info is \<^const>\<open>None\<close>. The ids that \<^verbatim>\<open>glGenTextures\<close> makes up are
  arguments; the calls that fill the default textures, which change nothing in the manager, are left out.
\<close>

subsection \<open>State\<close>

type_synonym tex_ref = nat

record TextureManager =
  tm_feature_flags :: FeatureFlags
  tm_texture_infos :: "(u32 \<times> tex_ref) list"
  tm_max_texture_size :: int
  tm_max_cube_map_texture_size :: int
  tm_max_levels :: int
  tm_max_cube_map_levels :: int
  tm_num_unrenderable_textures :: int
  tm_num_unsafe_textures :: int
  tm_num_uncleared_mips :: int
  tm_texture_info_count :: u32
  tm_mem_represented :: u32
  tm_last_reported_mem_represented :: u32
  tm_black_texture_ids :: "u32 list"
  tm_default_textures :: "tex_ref option list"
  tm_heap :: "TextureInfo option list"
  tm_gl_deleted :: "u32 list"

datatype DefaultAndBlackTextures = kTexture2D | kCubeMap | kExternalOES | kRectangleARB

fun default_index :: "DefaultAndBlackTextures \<Rightarrow> nat" where
  "default_index kTexture2D = 0"
| "default_index kCubeMap = 1"
| "default_index kExternalOES = 2"
| "default_index kRectangleARB = 3"

definition new_TextureManager :: "FeatureFlags \<Rightarrow> int \<Rightarrow> int \<Rightarrow> TextureManager" where
  "new_TextureManager feature_flags max_texture_size max_cube_map_texture_size =
     \<lparr>tm_feature_flags = feature_flags, tm_texture_infos = [], tm_max_texture_size = max_texture_size,
      tm_max_cube_map_texture_size = max_cube_map_texture_size,
      tm_max_levels = ComputeMipMapCount max_texture_size max_texture_size max_texture_size,
      tm_max_cube_map_levels = ComputeMipMapCount max_cube_map_texture_size max_cube_map_texture_size max_cube_map_texture_size,
      tm_num_unrenderable_textures = 0, tm_num_unsafe_textures = 0, tm_num_uncleared_mips = 0, tm_texture_info_count = 0,
      tm_mem_represented = 0, tm_last_reported_mem_represented = 1, tm_black_texture_ids = [0, 0, 0, 0],
      tm_default_textures = [None, None, None, None], tm_heap = [], tm_gl_deleted = []\<rparr>"

definition tm_UpdateMemRepresented :: "TextureManager \<Rightarrow> TextureManager" where
  "tm_UpdateMemRepresented m =
     (if tm_mem_represented m \<noteq> tm_last_reported_mem_represented m
      then m\<lparr>tm_last_reported_mem_represented := tm_mem_represented m\<rparr> else m)"

definition tm_deref :: "tex_ref \<Rightarrow> TextureManager \<Rightarrow> TextureInfo option" where
  "tm_deref r m = (if r < length (tm_heap m) then tm_heap m ! r else None)"

definition tm_store :: "tex_ref \<Rightarrow> TextureInfo option \<Rightarrow> TextureManager \<Rightarrow> TextureManager" where
  "tm_store r t m = m\<lparr>tm_heap := (tm_heap m)[r := t]\<rparr>"

subsection \<open>Limits\<close>

definition MaxLevelsForTarget :: "TextureManager \<Rightarrow> u32 \<Rightarrow> int" where
  "MaxLevelsForTarget m target =
     (if target = GL_TEXTURE_2D then tm_max_levels m
      else if target = GL_TEXTURE_EXTERNAL_OES then 1
      else tm_max_cube_map_levels m)"

definition MaxSizeForTarget :: "TextureManager \<Rightarrow> u32 \<Rightarrow> int" where
  "MaxSizeForTarget m target =
     (if target = GL_TEXTURE_2D \<or> target = GL_TEXTURE_EXTERNAL_OES then tm_max_texture_size m
      else tm_max_cube_map_texture_size m)"

definition ValidForTarget :: "u32 \<Rightarrow> int \<Rightarrow> int \<Rightarrow> int \<Rightarrow> int \<Rightarrow> TextureManager \<Rightarrow> bool" where
  "ValidForTarget target level width height depth m \<longleftrightarrow>
     (let max_size = MaxSizeForTarget m target in
      level \<ge> 0 \<and> width \<ge> 0 \<and> height \<ge> 0 \<and> depth \<ge> 0 \<and> level < MaxLevelsForTarget m target \<and>
      width \<le> max_size \<and> height \<le> max_size \<and> depth \<le> max_size \<and>
      (level = 0 \<or> npot_ok (tm_feature_flags m) \<or>
       (\<not> IsNPOT (uint32 width) \<and> \<not> IsNPOT (uint32 height) \<and> \<not> IsNPOT (uint32 depth))) \<and>
      (target \<noteq> GL_TEXTURE_CUBE_MAP \<or> (width = height \<and> depth = 1)) \<and> (target \<noteq> GL_TEXTURE_2D \<or> depth = 1))"

definition tm_CanRender :: "TextureInfo \<Rightarrow> TextureManager \<Rightarrow> bool" where
  "tm_CanRender t m \<longleftrightarrow> ti_CanRender (tm_feature_flags m) t"

subsection \<open>Counters\<close>

text \<open>The adjustments that the operations make before and after they change a texture.\<close>

definition add_unrenderable :: "int \<Rightarrow> TextureInfo \<Rightarrow> TextureManager \<Rightarrow> TextureManager" where
  "add_unrenderable d t m =
     (if \<not> ti_CanRender (tm_feature_flags m) t then m\<lparr>tm_num_unrenderable_textures := tm_num_unrenderable_textures m + d\<rparr> else m)"

definition add_unsafe :: "int \<Rightarrow> TextureInfo \<Rightarrow> TextureManager \<Rightarrow> TextureManager" where
  "add_unsafe d t m =
     (if \<not> SafeToRenderFrom t then m\<lparr>tm_num_unsafe_textures := tm_num_unsafe_textures m + d\<rparr> else m)"

definition add_uncleared :: "int \<Rightarrow> TextureInfo \<Rightarrow> TextureManager \<Rightarrow> TextureManager" where
  "add_uncleared d t m = m\<lparr>tm_num_uncleared_mips := tm_num_uncleared_mips m + d * ti_num_uncleared_mips t\<rparr>"

definition sub_mem :: "TextureInfo \<Rightarrow> TextureManager \<Rightarrow> TextureManager" where
  "sub_mem t m = m\<lparr>tm_mem_represented := tm_mem_represented m - ti_estimated_size t\<rparr>"

definition add_mem :: "TextureInfo \<Rightarrow> TextureManager \<Rightarrow> TextureManager" where
  "add_mem t m = m\<lparr>tm_mem_represented := tm_mem_represented m + ti_estimated_size t\<rparr>"

definition tm_StopTracking :: "TextureInfo \<Rightarrow> TextureManager \<Rightarrow> TextureManager" where
  "tm_StopTracking t m =
     tm_UpdateMemRepresented (sub_mem t (add_uncleared (-1) t (add_unsafe (-1) t (add_unrenderable (-1) t m))))"

subsection \<open>References and the table\<close>

text \<open>\<^verbatim>\<open>TextureInfo::~TextureInfo\<close>.\<close>

definition destroy_TextureInfo :: "TextureInfo \<Rightarrow> TextureManager \<Rightarrow> TextureManager" where
  "destroy_TextureInfo t m =
     (if ti_has_manager t
      then let m1 = tm_StopTracking t m in m1\<lparr>tm_texture_info_count := tm_texture_info_count m1 - 1\<rparr>
      else m)"

definition tm_AddRef :: "tex_ref \<Rightarrow> TextureManager \<Rightarrow> TextureManager option" where
  "tm_AddRef r m = do {
     t \<leftarrow> tm_deref r m;
     Some (tm_store r (Some (t\<lparr>ti_ref_count := ti_ref_count t + 1\<rparr>)) m)
   }"

definition tm_Release :: "tex_ref \<Rightarrow> TextureManager \<Rightarrow> TextureManager option" where
  "tm_Release r m = do {
     t \<leftarrow> tm_deref r m;
     if ti_ref_count t = 1 then Some (tm_store r None (destroy_TextureInfo t m))
     else Some (tm_store r (Some (t\<lparr>ti_ref_count := ti_ref_count t - 1\<rparr>)) m)
   }"

text \<open>\<^verbatim>\<open>TextureInfo::Ref info(new TextureInfo(manager, service_id))\<close>.\<close>

definition make_TextureInfo :: "bool \<Rightarrow> u32 \<Rightarrow> TextureManager \<Rightarrow> tex_ref \<times> TextureManager" where
  "make_TextureInfo has_manager service_id m =
     (length (tm_heap m),
      m\<lparr>tm_heap := tm_heap m @ [Some ((new_TextureInfo has_manager service_id)\<lparr>ti_ref_count := 1\<rparr>)],
        tm_texture_info_count := (if has_manager then tm_texture_info_count m + 1 else tm_texture_info_count m)\<rparr>)"

text \<open>\<^verbatim>\<open>insert\<close> keeps an entry that is there; the local reference is released at the end.\<close>

definition CreateTextureInfo :: "u32 \<Rightarrow> u32 \<Rightarrow> TextureManager \<Rightarrow> (tex_ref \<times> TextureManager) option" where
  "CreateTextureInfo client_id service_id m =
     (let (r, m1) = make_TextureInfo True service_id m in do {
        m2 \<leftarrow> (if map_of (tm_texture_infos m1) client_id = None
               then map_option (\<lambda>m'. m'\<lparr>tm_texture_infos := (client_id, r) # tm_texture_infos m'\<rparr>) (tm_AddRef r m1)
               else Some m1);
        t \<leftarrow> tm_deref r m2;
        m3 \<leftarrow> tm_Release r (add_uncleared 1 t (add_unsafe 1 t (add_unrenderable 1 t m2)));
        Some (r, m3)
      })"

definition GetTextureInfo :: "u32 \<Rightarrow> TextureManager \<Rightarrow> tex_ref option" where
  "GetTextureInfo client_id m = map_of (tm_texture_infos m) client_id"

definition RemoveTextureInfo :: "u32 \<Rightarrow> TextureManager \<Rightarrow> TextureManager option" where
  "RemoveTextureInfo client_id m =
     (case map_of (tm_texture_infos m) client_id of
        None \<Rightarrow> Some m
      | Some r \<Rightarrow> do {
          t \<leftarrow> tm_deref r m;
          let m1 = tm_store r (Some (ti_MarkAsDeleted t)) m;
          tm_Release r (m1\<lparr>tm_texture_infos := filter (\<lambda>(c, _). c \<noteq> client_id) (tm_texture_infos m1)\<rparr>)
        })"

fun tm_find_client :: "u32 \<Rightarrow> (u32 \<times> tex_ref) list \<Rightarrow> TextureManager \<Rightarrow> u32 option option" where
  "tm_find_client service_id [] m = Some None"
| "tm_find_client service_id ((c, r) # rest) m = do {
     t \<leftarrow> tm_deref r m;
     if ti_service_id t = service_id then Some (Some c) else tm_find_client service_id rest m
   }"

definition tm_GetClientId :: "u32 \<Rightarrow> TextureManager \<Rightarrow> u32 option option" where
  "tm_GetClientId service_id m = tm_find_client service_id (tm_texture_infos m) m"

definition gl_delete :: "tex_ref \<Rightarrow> TextureInfo \<Rightarrow> TextureManager \<Rightarrow> TextureManager" where
  "gl_delete r t m = (tm_store r (Some (ti_MarkAsDeleted t)) m)\<lparr>tm_gl_deleted := tm_gl_deleted m @ [ti_service_id t]\<rparr>"

fun stream_loop :: "(u32 \<times> tex_ref) list \<Rightarrow> TextureManager \<Rightarrow> TextureManager option" where
  "stream_loop [] m = Some m"
| "stream_loop ((_, r) # rest) m = do {
     t \<leftarrow> tm_deref r m;
     stream_loop rest (if \<not> ti_deleted t \<and> ti_stream_texture t then gl_delete r t m else m)
   }"

definition DeleteAllStreamTextures :: "TextureManager \<Rightarrow> TextureManager option" where
  "DeleteAllStreamTextures m = stream_loop (tm_texture_infos m) m"

subsection \<open>Operations on a texture\<close>

definition SetInfoTarget :: "tex_ref \<Rightarrow> u32 \<Rightarrow> TextureManager \<Rightarrow> TextureManager option" where
  "SetInfoTarget r target m = do {
     t \<leftarrow> tm_deref r m;
     let m1 = add_unrenderable (-1) t m;
     let t' = ti_SetTarget target (MaxLevelsForTarget m target) t;
     Some (add_unrenderable 1 t' (tm_store r (Some t') m1))
   }"

definition tm_SetLevelCleared :: "tex_ref \<Rightarrow> u32 \<Rightarrow> int \<Rightarrow> TextureManager \<Rightarrow> TextureManager option" where
  "tm_SetLevelCleared r target level m = do {
     t \<leftarrow> tm_deref r m;
     let m1 = add_uncleared (-1) t (add_unsafe (-1) t m);
     t' \<leftarrow> ti_SetLevelCleared target level t;
     Some (add_unsafe 1 t' (add_uncleared 1 t' (tm_store r (Some t') m1)))
   }"

definition tm_ClearRenderableLevels :: "'s clear_fn \<Rightarrow> tex_ref \<Rightarrow> TextureManager \<Rightarrow> 's \<Rightarrow> (bool \<times> TextureManager \<times> 's) option" where
  "tm_ClearRenderableLevels clear r m s = do {
     t \<leftarrow> tm_deref r m;
     if SafeToRenderFrom t then Some (True, m, s)
     else do {
       let m1 = add_uncleared (-1) t (m\<lparr>tm_num_unsafe_textures := tm_num_unsafe_textures m - 1\<rparr>);
       (result, t', s') \<leftarrow> ti_ClearRenderableLevels clear t s;
       Some (result, add_unsafe 1 t' (add_uncleared 1 t' (tm_store r (Some t') m1)), s')
     }
   }"

definition ClearTextureLevel ::
  "'s clear_fn \<Rightarrow> tex_ref \<Rightarrow> u32 \<Rightarrow> int \<Rightarrow> TextureManager \<Rightarrow> 's \<Rightarrow> (bool \<times> TextureManager \<times> 's) option" where
  "ClearTextureLevel clear r target level m s = do {
     t \<leftarrow> tm_deref r m;
     if ti_num_uncleared_mips t = 0 then Some (True, m, s)
     else do {
       let m1 = add_unsafe (-1) t (add_uncleared (-1) t m);
       (result, t1, s') \<leftarrow> ti_ClearLevel clear target level t s;
       t' \<leftarrow> UpdateCleared t1;
       Some (result, add_unsafe 1 t' (add_uncleared 1 t' (tm_store r (Some t') m1)), s')
     }
   }"

definition tm_SetLevelInfo ::
  "tex_ref \<Rightarrow> u32 \<Rightarrow> int \<Rightarrow> u32 \<Rightarrow> int \<Rightarrow> int \<Rightarrow> int \<Rightarrow> int \<Rightarrow> u32 \<Rightarrow> u32 \<Rightarrow> bool \<Rightarrow> TextureManager \<Rightarrow> TextureManager option" where
  "tm_SetLevelInfo r target level internal_format width height depth border format type cleared m = do {
     t \<leftarrow> tm_deref r m;
     let m1 = sub_mem t (add_uncleared (-1) t (add_unsafe (-1) t (add_unrenderable (-1) t m)));
     t' \<leftarrow> ti_SetLevelInfo (tm_feature_flags m) target level internal_format width height depth border format type cleared t;
     let m2 = tm_UpdateMemRepresented (add_mem t' (tm_store r (Some t') m1));
     Some (add_unsafe 1 t' (add_unrenderable 1 t' (add_uncleared 1 t' m2)))
   }"

definition tm_SetParameter :: "tex_ref \<Rightarrow> u32 \<Rightarrow> u32 \<Rightarrow> TextureManager \<Rightarrow> (bool \<times> TextureManager) option" where
  "tm_SetParameter r pname param m = do {
     t \<leftarrow> tm_deref r m;
     let m1 = add_unsafe (-1) t (add_unrenderable (-1) t m);
     (result, t') \<leftarrow> ti_SetParameter (tm_feature_flags m) pname param t;
     Some (result, add_unsafe 1 t' (add_unrenderable 1 t' (tm_store r (Some t') m1)))
   }"

definition tm_MarkMipmapsGenerated :: "tex_ref \<Rightarrow> TextureManager \<Rightarrow> (bool \<times> TextureManager) option" where
  "tm_MarkMipmapsGenerated r m = do {
     t \<leftarrow> tm_deref r m;
     let m1 = sub_mem t (add_uncleared (-1) t (add_unsafe (-1) t (add_unrenderable (-1) t m)));
     (result, t') \<leftarrow> ti_MarkMipmapsGenerated (tm_feature_flags m) t;
     let m2 = tm_UpdateMemRepresented (add_mem t' (tm_store r (Some t') m1));
     Some (result, add_unsafe 1 t' (add_unrenderable 1 t' (add_uncleared 1 t' m2)))
   }"

subsection \<open>Default textures\<close>

fun default_faces :: "tex_ref \<Rightarrow> int list \<Rightarrow> TextureManager \<Rightarrow> TextureManager option" where
  "default_faces r [] m = Some m"
| "default_faces r (ii # is) m = do {
     face \<leftarrow> IndexToGLFaceTarget ii;
     m1 \<leftarrow> tm_SetLevelInfo r face 0 GL_RGBA 1 1 1 0 GL_RGBA GL_UNSIGNED_BYTE True m;
     default_faces r is m1
   }"

text \<open>\<open>ids\<close> are the two ids of \<^verbatim>\<open>glGenTextures\<close>; the result is the default texture and the black texture.\<close>

definition CreateDefaultAndBlackTextures :: "u32 \<times> u32 \<Rightarrow> u32 \<Rightarrow> TextureManager \<Rightarrow> (tex_ref \<times> u32 \<times> TextureManager) option" where
  "CreateDefaultAndBlackTextures ids target m =
     (let needs_initialization = (target \<noteq> GL_TEXTURE_EXTERNAL_OES);
          needs_faces = (target = GL_TEXTURE_CUBE_MAP);
          m0 = m\<lparr>tm_num_unrenderable_textures := tm_num_unrenderable_textures m + 1\<rparr>;
          (r, m1) = make_TextureInfo False (snd ids) m0
      in do {
        m2 \<leftarrow> SetInfoTarget r target m1;
        m3 \<leftarrow> (if needs_faces then default_faces r [0, 1, 2, 3, 4, 5] m2
               else if needs_initialization
               then tm_SetLevelInfo r GL_TEXTURE_2D 0 GL_RGBA 1 1 1 0 GL_RGBA GL_UNSIGNED_BYTE True m2
               else tm_SetLevelInfo r GL_TEXTURE_EXTERNAL_OES 0 GL_RGBA 1 1 1 0 GL_RGBA GL_UNSIGNED_BYTE True m2);
        Some (r, fst ids, m3)
      })"

text \<open>The reference that the function returns moves into \<^verbatim>\<open>default_textures_\<close>; what was there is released.\<close>

definition set_default ::
  "(DefaultAndBlackTextures \<Rightarrow> u32 \<times> u32) \<Rightarrow> DefaultAndBlackTextures \<Rightarrow> u32 \<Rightarrow> TextureManager \<Rightarrow> TextureManager option" where
  "set_default ids k target m = do {
     (r, black, m1) \<leftarrow> CreateDefaultAndBlackTextures (ids k) target m;
     let old = tm_default_textures m1 ! default_index k;
     let m2 = m1\<lparr>tm_default_textures := (tm_default_textures m1)[default_index k := Some r],
                 tm_black_texture_ids := (tm_black_texture_ids m1)[default_index k := black]\<rparr>;
     (case old of None \<Rightarrow> Some m2 | Some r' \<Rightarrow> tm_Release r' m2)
   }"

definition tm_Initialize :: "(DefaultAndBlackTextures \<Rightarrow> u32 \<times> u32) \<Rightarrow> TextureManager \<Rightarrow> TextureManager option" where
  "tm_Initialize ids m = do {
     m1 \<leftarrow> set_default ids kTexture2D GL_TEXTURE_2D (tm_UpdateMemRepresented m);
     m2 \<leftarrow> set_default ids kCubeMap GL_TEXTURE_CUBE_MAP m1;
     m3 \<leftarrow> (if oes_egl_image_external (tm_feature_flags m2) then set_default ids kExternalOES GL_TEXTURE_EXTERNAL_OES m2 else Some m2);
     if arb_texture_rectangle (tm_feature_flags m3) then set_default ids kRectangleARB GL_TEXTURE_RECTANGLE_ARB m3 else Some m3
   }"

definition GetDefaultTextureInfo :: "u32 \<Rightarrow> TextureManager \<Rightarrow> tex_ref option" where
  "GetDefaultTextureInfo target m =
     (if target = GL_TEXTURE_2D then tm_default_textures m ! default_index kTexture2D
      else if target = GL_TEXTURE_CUBE_MAP then tm_default_textures m ! default_index kCubeMap
      else if target = GL_TEXTURE_EXTERNAL_OES then tm_default_textures m ! default_index kExternalOES
      else if target = GL_TEXTURE_RECTANGLE_ARB then tm_default_textures m ! default_index kRectangleARB
      else None)"

definition black_texture_id :: "u32 \<Rightarrow> TextureManager \<Rightarrow> u32" where
  "black_texture_id target m =
     (if target = GL_SAMPLER_2D then tm_black_texture_ids m ! default_index kTexture2D
      else if target = GL_SAMPLER_CUBE then tm_black_texture_ids m ! default_index kCubeMap
      else if target = GL_SAMPLER_EXTERNAL_OES then tm_black_texture_ids m ! default_index kExternalOES
      else if target = GL_SAMPLER_2D_RECT_ARB then tm_black_texture_ids m ! default_index kRectangleARB
      else 0)"

definition HaveUnrenderableTextures :: "TextureManager \<Rightarrow> bool" where
  "HaveUnrenderableTextures m \<longleftrightarrow> tm_num_unrenderable_textures m > 0"

definition HaveUnsafeTextures :: "TextureManager \<Rightarrow> bool" where
  "HaveUnsafeTextures m \<longleftrightarrow> tm_num_unsafe_textures m > 0"

definition HaveUnclearedMips :: "TextureManager \<Rightarrow> bool" where
  "HaveUnclearedMips m \<longleftrightarrow> tm_num_uncleared_mips m > 0"

subsection \<open>Destruction\<close>

fun tm_clear_infos :: "bool \<Rightarrow> (u32 \<times> tex_ref) list \<Rightarrow> TextureManager \<Rightarrow> TextureManager option" where
  "tm_clear_infos have_context [] m = Some (m\<lparr>tm_texture_infos := []\<rparr>)"
| "tm_clear_infos have_context ((_, r) # rest) m = do {
     t \<leftarrow> tm_deref r m;
     let m1 = (if have_context \<and> \<not> ti_deleted t \<and> ti_owned t then gl_delete r t m else m);
     m2 \<leftarrow> tm_Release r (m1\<lparr>tm_texture_infos := rest\<rparr>);
     tm_clear_infos have_context rest m2
   }"

fun default_ids :: "nat list \<Rightarrow> TextureManager \<Rightarrow> (u32 list \<times> TextureManager) option" where
  "default_ids [] m = Some ([], m)"
| "default_ids (ii # is) m = do {
     (i, m1) \<leftarrow> (case tm_default_textures m ! ii of
                   None \<Rightarrow> Some (0, m)
                 | Some r \<Rightarrow> do { t \<leftarrow> tm_deref r m; Some (ti_service_id t, sub_mem t m) });
     (ids, m2) \<leftarrow> default_ids is m1;
     Some (i # tm_black_texture_ids m ! ii # ids, m2)
   }"

definition tm_Destroy :: "bool \<Rightarrow> TextureManager \<Rightarrow> TextureManager option" where
  "tm_Destroy have_context m = do {
     m1 \<leftarrow> tm_clear_infos have_context (tm_texture_infos m) m;
     (ids, m2) \<leftarrow> default_ids [0, 1, 2, 3] m1;
     let m3 = (if have_context then m2\<lparr>tm_gl_deleted := tm_gl_deleted m2 @ ids\<rparr> else m2);
     Some (tm_UpdateMemRepresented m3)
   }"

subsection \<open>The invariant of the manager\<close>

definition heap_sum :: "(TextureInfo \<Rightarrow> 'a :: ab_group_add) \<Rightarrow> TextureInfo option list \<Rightarrow> 'a" where
  "heap_sum g h = (\<Sum>x \<leftarrow> h. case x of None \<Rightarrow> 0 | Some t \<Rightarrow> g t)"

definition unrenderable :: "FeatureFlags \<Rightarrow> TextureInfo \<Rightarrow> int" where
  "unrenderable f t = (if ti_CanRender f t then 0 else 1)"

definition unsafe :: "TextureInfo \<Rightarrow> int" where
  "unsafe t = (if SafeToRenderFrom t then 0 else 1)"

definition managed :: "TextureInfo \<Rightarrow> u32" where
  "managed t = (if ti_has_manager t then 1 else 0)"

text \<open>The counters agree with the textures that are alive.\<close>

definition tm_counts :: "TextureManager \<Rightarrow> bool" where
  "tm_counts m \<longleftrightarrow> tm_num_unrenderable_textures m = heap_sum (unrenderable (tm_feature_flags m)) (tm_heap m) \<and>
     tm_num_unsafe_textures m = heap_sum unsafe (tm_heap m) \<and>
     tm_num_uncleared_mips m = heap_sum ti_num_uncleared_mips (tm_heap m) \<and>
     tm_mem_represented m = heap_sum ti_estimated_size (tm_heap m) \<and>
     tm_texture_info_count m = heap_sum managed (tm_heap m)"

text \<open>The references that the manager itself holds, in its table and as default textures, and \<open>ext\<close>, those of its clients.\<close>

definition own_refs :: "(tex_ref \<Rightarrow> nat) \<Rightarrow> TextureManager \<Rightarrow> tex_ref \<Rightarrow> nat" where
  "own_refs ext m r = count_list (map snd (tm_texture_infos m)) r + count_list (tm_default_textures m) (Some r) + ext r"

definition limits_ok :: "TextureManager \<Rightarrow> bool" where
  "limits_ok m \<longleftrightarrow> 0 < tm_max_texture_size m \<and> tm_max_texture_size m < 2147483648 \<and>
     0 < tm_max_cube_map_texture_size m \<and> tm_max_cube_map_texture_size m < 2147483648 \<and>
     tm_max_levels m = ComputeMipMapCount (tm_max_texture_size m) (tm_max_texture_size m) (tm_max_texture_size m) \<and>
     tm_max_cube_map_levels m =
       ComputeMipMapCount (tm_max_cube_map_texture_size m) (tm_max_cube_map_texture_size m) (tm_max_cube_map_texture_size m)"

text \<open>A texture with \<open>n\<close> owners; \<open>tab\<close>: one of them is the table, which holds textures of this manager only.\<close>

fun tref_ok :: "(u32 \<Rightarrow> int) \<Rightarrow> TextureInfo option \<Rightarrow> nat \<Rightarrow> bool \<Rightarrow> bool" where
  "tref_ok maxl None n tab \<longleftrightarrow> n = 0"
| "tref_ok maxl (Some t) n tab \<longleftrightarrow> n \<le> ti_ref_count t \<and> 0 < ti_ref_count t \<and> ti_ok maxl t \<and> (tab \<longrightarrow> ti_has_manager t)"

definition in_table :: "TextureManager \<Rightarrow> tex_ref \<Rightarrow> bool" where
  "in_table m r \<longleftrightarrow> r \<in> snd ` set (tm_texture_infos m)"

definition tm_inv :: "(tex_ref \<Rightarrow> nat) \<Rightarrow> TextureManager \<Rightarrow> bool" where
  "tm_inv ext m \<longleftrightarrow> limits_ok m \<and> distinct (map fst (tm_texture_infos m)) \<and> length (tm_default_textures m) = 4 \<and> tm_counts m \<and>
     (\<forall>r. tref_ok (MaxLevelsForTarget m) (tm_deref r m) (own_refs ext m r) (in_table m r))"

definition tm_same_config :: "TextureManager \<Rightarrow> TextureManager \<Rightarrow> bool" where
  "tm_same_config m m' \<longleftrightarrow> tm_feature_flags m' = tm_feature_flags m \<and> tm_max_texture_size m' = tm_max_texture_size m \<and>
     tm_max_cube_map_texture_size m' = tm_max_cube_map_texture_size m \<and> tm_max_levels m' = tm_max_levels m \<and>
     tm_max_cube_map_levels m' = tm_max_cube_map_levels m"

lemma tm_same_config_simps:
  assumes "tm_same_config m m'"
  shows "limits_ok m' = limits_ok m" and "MaxLevelsForTarget m' = MaxLevelsForTarget m"
  using assms by (auto simp: tm_same_config_def limits_ok_def MaxLevelsForTarget_def fun_eq_iff)

lemma tm_same_config_refl: "tm_same_config m m"
  by (simp add: tm_same_config_def)

lemma tm_same_config_trans: "tm_same_config a b \<Longrightarrow> tm_same_config b c \<Longrightarrow> tm_same_config a c"
  by (simp add: tm_same_config_def)

lemma heap_sum_update:
  "r < length h \<Longrightarrow> heap_sum g (h[r := x]) =
     heap_sum g h - (case h ! r of None \<Rightarrow> 0 | Some t \<Rightarrow> g t) + (case x of None \<Rightarrow> 0 | Some t \<Rightarrow> g t)"
  unfolding heap_sum_def by (rule sum_list_map_update)

lemma heap_sum_snoc: "heap_sum g (h @ [Some t]) = heap_sum g h + g t"
  by (simp add: heap_sum_def)

lemma tm_derefE:
  assumes "tm_deref r m = Some t"
  obtains "r < length (tm_heap m)" and "tm_heap m ! r = Some t"
  using assms by (auto simp: tm_deref_def split: if_splits)

lemma tm_invD:
  assumes "tm_inv ext m" and "tm_deref r m = Some t"
  shows "own_refs ext m r \<le> ti_ref_count t" and "0 < ti_ref_count t" and "ti_ok (MaxLevelsForTarget m) t"
    and "in_table m r \<Longrightarrow> ti_has_manager t"
proof -
  have "tref_ok (MaxLevelsForTarget m) (tm_deref r m) (own_refs ext m r) (in_table m r)" using assms(1) by (simp add: tm_inv_def)
  then show "own_refs ext m r \<le> ti_ref_count t" "0 < ti_ref_count t" "ti_ok (MaxLevelsForTarget m) t"
    "in_table m r \<Longrightarrow> ti_has_manager t" using assms(2) by simp_all
qed

lemma tm_inv_live: "tm_inv ext m \<Longrightarrow> 0 < own_refs ext m r \<Longrightarrow> \<exists>t. tm_deref r m = Some t"
  unfolding tm_inv_def by (cases "tm_deref r m") (auto dest: spec [of _ r])

text \<open>
  Replacing a live texture, with the counters adapted; the counters of the result are given as equations so
  that they can be read off from the operations.
\<close>

lemma tm_inv_replace:
  assumes inv: "tm_inv ext m" and t: "tm_deref r m = Some t"
    and t': "ti_ok (MaxLevelsForTarget m) t'" "ti_ref_count t' = ti_ref_count t" "ti_has_manager t' = ti_has_manager t"
    and heap: "tm_heap m' = (tm_heap m)[r := Some t']" and config: "tm_same_config m m'"
    and tables: "tm_texture_infos m' = tm_texture_infos m" "tm_default_textures m' = tm_default_textures m"
    and counts: "tm_num_unrenderable_textures m' =
        tm_num_unrenderable_textures m - unrenderable (tm_feature_flags m) t + unrenderable (tm_feature_flags m) t'"
      "tm_num_unsafe_textures m' = tm_num_unsafe_textures m - unsafe t + unsafe t'"
      "tm_num_uncleared_mips m' = tm_num_uncleared_mips m - ti_num_uncleared_mips t + ti_num_uncleared_mips t'"
      "tm_mem_represented m' = tm_mem_represented m - ti_estimated_size t + ti_estimated_size t'"
      "tm_texture_info_count m' = tm_texture_info_count m"
  shows "tm_inv ext m'"
proof -
  from t have r: "r < length (tm_heap m)" "tm_heap m ! r = Some t" by (auto elim: tm_derefE)
  have sum: "heap_sum g (tm_heap m') = heap_sum g (tm_heap m) - g t + g t'" for g :: "TextureInfo \<Rightarrow> 'a :: ab_group_add"
    unfolding heap heap_sum_update [OF r(1)] r(2) by simp
  have "managed t' = managed t" using t'(3) by (simp add: managed_def)
  then have "tm_counts m'"
    using inv config unfolding tm_counts_def sum counts tm_inv_def tm_same_config_def by simp
  moreover have "own_refs ext m' a = own_refs ext m a" "in_table m' a = in_table m a" for a
    using tables by (simp_all add: own_refs_def in_table_def)
  moreover have "tm_deref a m' = (if a = r then Some t' else tm_deref a m)" for a
    using r(1) by (auto simp: tm_deref_def heap)
  moreover have "tref_ok (MaxLevelsForTarget m) (Some t') (own_refs ext m r) (in_table m r)" using tm_invD [OF inv t] t' by simp
  ultimately show ?thesis
    using inv tables unfolding tm_inv_def tm_same_config_simps [OF config] by simp
qed

lemma tm_inv_cong:
  assumes "tm_inv ext m" and "tm_heap m' = tm_heap m" "tm_same_config m m'" "tm_texture_infos m' = tm_texture_infos m"
    "tm_default_textures m' = tm_default_textures m" "tm_num_unrenderable_textures m' = tm_num_unrenderable_textures m"
    "tm_num_unsafe_textures m' = tm_num_unsafe_textures m" "tm_num_uncleared_mips m' = tm_num_uncleared_mips m"
    "tm_mem_represented m' = tm_mem_represented m" "tm_texture_info_count m' = tm_texture_info_count m"
  shows "tm_inv ext m'"
proof -
  have "tm_deref r m' = tm_deref r m" "own_refs ext m' r = own_refs ext m r" "in_table m' r = in_table m r" for r
    using assms by (simp_all add: tm_deref_def own_refs_def in_table_def)
  moreover have "tm_counts m'" using assms by (simp add: tm_counts_def tm_inv_def tm_same_config_def)
  ultimately show ?thesis using assms unfolding tm_inv_def tm_same_config_simps [OF assms(3)] by simp
qed

lemma new_TextureManager_inv:
  assumes "0 < s" "s < 2147483648" "0 < c" "c < 2147483648"
  shows "tm_inv (\<lambda>_. 0) (new_TextureManager f s c)"
  using assms by (simp add: tm_inv_def new_TextureManager_def limits_ok_def tm_counts_def heap_sum_def tm_deref_def own_refs_def)

text \<open>What the adjustments of the counters do to the fields of the manager.\<close>

lemma add_unrenderable_fields:
  "tm_feature_flags (add_unrenderable d t m) = tm_feature_flags m" "tm_texture_infos (add_unrenderable d t m) = tm_texture_infos m"
  "tm_max_texture_size (add_unrenderable d t m) = tm_max_texture_size m"
  "tm_max_cube_map_texture_size (add_unrenderable d t m) = tm_max_cube_map_texture_size m"
  "tm_max_levels (add_unrenderable d t m) = tm_max_levels m" "tm_max_cube_map_levels (add_unrenderable d t m) = tm_max_cube_map_levels m"
  "tm_num_unrenderable_textures (add_unrenderable d t m) = tm_num_unrenderable_textures m + d * unrenderable (tm_feature_flags m) t"
  "tm_num_unsafe_textures (add_unrenderable d t m) = tm_num_unsafe_textures m"
  "tm_num_uncleared_mips (add_unrenderable d t m) = tm_num_uncleared_mips m"
  "tm_texture_info_count (add_unrenderable d t m) = tm_texture_info_count m"
  "tm_mem_represented (add_unrenderable d t m) = tm_mem_represented m"
  "tm_default_textures (add_unrenderable d t m) = tm_default_textures m" "tm_heap (add_unrenderable d t m) = tm_heap m"
  by (simp_all add: add_unrenderable_def unrenderable_def)

lemma add_unsafe_fields:
  "tm_feature_flags (add_unsafe d t m) = tm_feature_flags m" "tm_texture_infos (add_unsafe d t m) = tm_texture_infos m"
  "tm_max_texture_size (add_unsafe d t m) = tm_max_texture_size m"
  "tm_max_cube_map_texture_size (add_unsafe d t m) = tm_max_cube_map_texture_size m" "tm_max_levels (add_unsafe d t m) = tm_max_levels m"
  "tm_max_cube_map_levels (add_unsafe d t m) = tm_max_cube_map_levels m"
  "tm_num_unrenderable_textures (add_unsafe d t m) = tm_num_unrenderable_textures m"
  "tm_num_unsafe_textures (add_unsafe d t m) = tm_num_unsafe_textures m + d * unsafe t"
  "tm_num_uncleared_mips (add_unsafe d t m) = tm_num_uncleared_mips m" "tm_texture_info_count (add_unsafe d t m) = tm_texture_info_count m"
  "tm_mem_represented (add_unsafe d t m) = tm_mem_represented m" "tm_default_textures (add_unsafe d t m) = tm_default_textures m"
  "tm_heap (add_unsafe d t m) = tm_heap m"
  by (simp_all add: add_unsafe_def unsafe_def)

lemma add_uncleared_fields:
  "tm_feature_flags (add_uncleared d t m) = tm_feature_flags m" "tm_texture_infos (add_uncleared d t m) = tm_texture_infos m"
  "tm_max_texture_size (add_uncleared d t m) = tm_max_texture_size m"
  "tm_max_cube_map_texture_size (add_uncleared d t m) = tm_max_cube_map_texture_size m"
  "tm_max_levels (add_uncleared d t m) = tm_max_levels m" "tm_max_cube_map_levels (add_uncleared d t m) = tm_max_cube_map_levels m"
  "tm_num_unrenderable_textures (add_uncleared d t m) = tm_num_unrenderable_textures m"
  "tm_num_unsafe_textures (add_uncleared d t m) = tm_num_unsafe_textures m"
  "tm_num_uncleared_mips (add_uncleared d t m) = tm_num_uncleared_mips m + d * ti_num_uncleared_mips t"
  "tm_texture_info_count (add_uncleared d t m) = tm_texture_info_count m" "tm_mem_represented (add_uncleared d t m) = tm_mem_represented m"
  "tm_default_textures (add_uncleared d t m) = tm_default_textures m" "tm_heap (add_uncleared d t m) = tm_heap m"
  by (simp_all add: add_uncleared_def)

lemma sub_mem_fields:
  "tm_feature_flags (sub_mem t m) = tm_feature_flags m" "tm_texture_infos (sub_mem t m) = tm_texture_infos m"
  "tm_max_texture_size (sub_mem t m) = tm_max_texture_size m" "tm_max_cube_map_texture_size (sub_mem t m) = tm_max_cube_map_texture_size m"
  "tm_max_levels (sub_mem t m) = tm_max_levels m" "tm_max_cube_map_levels (sub_mem t m) = tm_max_cube_map_levels m"
  "tm_num_unrenderable_textures (sub_mem t m) = tm_num_unrenderable_textures m"
  "tm_num_unsafe_textures (sub_mem t m) = tm_num_unsafe_textures m" "tm_num_uncleared_mips (sub_mem t m) = tm_num_uncleared_mips m"
  "tm_texture_info_count (sub_mem t m) = tm_texture_info_count m"
  "tm_mem_represented (sub_mem t m) = tm_mem_represented m - ti_estimated_size t"
  "tm_default_textures (sub_mem t m) = tm_default_textures m" "tm_heap (sub_mem t m) = tm_heap m"
  by (simp_all add: sub_mem_def)

lemma add_mem_fields:
  "tm_feature_flags (add_mem t m) = tm_feature_flags m" "tm_texture_infos (add_mem t m) = tm_texture_infos m"
  "tm_max_texture_size (add_mem t m) = tm_max_texture_size m" "tm_max_cube_map_texture_size (add_mem t m) = tm_max_cube_map_texture_size m"
  "tm_max_levels (add_mem t m) = tm_max_levels m" "tm_max_cube_map_levels (add_mem t m) = tm_max_cube_map_levels m"
  "tm_num_unrenderable_textures (add_mem t m) = tm_num_unrenderable_textures m"
  "tm_num_unsafe_textures (add_mem t m) = tm_num_unsafe_textures m" "tm_num_uncleared_mips (add_mem t m) = tm_num_uncleared_mips m"
  "tm_texture_info_count (add_mem t m) = tm_texture_info_count m"
  "tm_mem_represented (add_mem t m) = tm_mem_represented m + ti_estimated_size t"
  "tm_default_textures (add_mem t m) = tm_default_textures m" "tm_heap (add_mem t m) = tm_heap m"
  by (simp_all add: add_mem_def)

lemma tm_UpdateMemRepresented_fields:
  "tm_feature_flags (tm_UpdateMemRepresented m) = tm_feature_flags m" "tm_texture_infos (tm_UpdateMemRepresented m) = tm_texture_infos m"
  "tm_max_texture_size (tm_UpdateMemRepresented m) = tm_max_texture_size m"
  "tm_max_cube_map_texture_size (tm_UpdateMemRepresented m) = tm_max_cube_map_texture_size m"
  "tm_max_levels (tm_UpdateMemRepresented m) = tm_max_levels m"
  "tm_max_cube_map_levels (tm_UpdateMemRepresented m) = tm_max_cube_map_levels m"
  "tm_num_unrenderable_textures (tm_UpdateMemRepresented m) = tm_num_unrenderable_textures m"
  "tm_num_unsafe_textures (tm_UpdateMemRepresented m) = tm_num_unsafe_textures m"
  "tm_num_uncleared_mips (tm_UpdateMemRepresented m) = tm_num_uncleared_mips m"
  "tm_texture_info_count (tm_UpdateMemRepresented m) = tm_texture_info_count m"
  "tm_mem_represented (tm_UpdateMemRepresented m) = tm_mem_represented m"
  "tm_default_textures (tm_UpdateMemRepresented m) = tm_default_textures m" "tm_heap (tm_UpdateMemRepresented m) = tm_heap m"
  by (simp_all add: tm_UpdateMemRepresented_def)

lemma tm_store_fields:
  "tm_feature_flags (tm_store r x m) = tm_feature_flags m" "tm_texture_infos (tm_store r x m) = tm_texture_infos m"
  "tm_max_texture_size (tm_store r x m) = tm_max_texture_size m"
  "tm_max_cube_map_texture_size (tm_store r x m) = tm_max_cube_map_texture_size m" "tm_max_levels (tm_store r x m) = tm_max_levels m"
  "tm_max_cube_map_levels (tm_store r x m) = tm_max_cube_map_levels m"
  "tm_num_unrenderable_textures (tm_store r x m) = tm_num_unrenderable_textures m"
  "tm_num_unsafe_textures (tm_store r x m) = tm_num_unsafe_textures m" "tm_num_uncleared_mips (tm_store r x m) = tm_num_uncleared_mips m"
  "tm_texture_info_count (tm_store r x m) = tm_texture_info_count m" "tm_mem_represented (tm_store r x m) = tm_mem_represented m"
  "tm_default_textures (tm_store r x m) = tm_default_textures m" "tm_heap (tm_store r x m) = (tm_heap m)[r := x]"
  by (simp_all add: tm_store_def)

lemmas adders = add_unrenderable_fields add_unsafe_fields add_uncleared_fields sub_mem_fields add_mem_fields tm_UpdateMemRepresented_fields tm_store_fields

lemmas counter_defs = add_unrenderable_def add_unsafe_def add_uncleared_def sub_mem_def add_mem_def tm_UpdateMemRepresented_def
  tm_store_def unrenderable_def unsafe_def tm_same_config_def

subsection \<open>References keep the invariant\<close>

lemma tm_inv_recount:
  assumes inv: "tm_inv ext m" and t: "tm_deref r m = Some t" and n: "own_refs ext m r \<le> n" "0 < n"
  shows "tm_inv ext (tm_store r (Some (t\<lparr>ti_ref_count := n\<rparr>)) m)"
proof -
  let ?t = "t\<lparr>ti_ref_count := n\<rparr>"
  from t have r: "r < length (tm_heap m)" "tm_heap m ! r = Some t" by (auto elim: tm_derefE)
  let ?m = "tm_store r (Some ?t) m"
  have sum: "heap_sum g (tm_heap ?m) = heap_sum g (tm_heap m) - g t + g ?t" for g :: "TextureInfo \<Rightarrow> 'a :: ab_group_add"
    unfolding tm_store_def by (simp add: heap_sum_update [OF r(1)] r(2))
  have w: "unrenderable f ?t = unrenderable f t" "unsafe ?t = unsafe t" "managed ?t = managed t" for f
    by (simp_all add: unrenderable_def ti_CanRender_def NeedsMips_def Let_def unsafe_def SafeToRenderFrom_def managed_def)
  have "tm_counts ?m" using inv unfolding tm_counts_def sum w tm_inv_def by (simp add: tm_store_def)
  moreover have "own_refs ext ?m a = own_refs ext m a" "in_table ?m a = in_table m a" for a by (simp_all add: own_refs_def in_table_def tm_store_def)
  moreover have "tm_deref a ?m = (if a = r then Some ?t else tm_deref a m)" for a
    using r(1) by (auto simp: tm_deref_def tm_store_def)
  moreover have c: "tm_same_config m ?m" by (simp add: tm_same_config_def tm_store_def)
  moreover have "ti_ok (MaxLevelsForTarget m) ?t" using tm_invD(3) [OF inv t] by (simp add: ti_ok_def ti_shape_def)
  moreover have "tm_texture_infos ?m = tm_texture_infos m" "tm_default_textures ?m = tm_default_textures m" by (simp_all add: tm_store_def)
  ultimately show ?thesis
    using inv tm_invD(4) [OF inv t] n unfolding tm_inv_def tm_same_config_simps [OF c] by simp
qed

lemma tm_deref_store: "tm_deref r m = Some t \<Longrightarrow> tm_deref a (tm_store r x m) = (if a = r then x else tm_deref a m)"
  by (auto simp: tm_deref_def tm_store_def split: if_splits)

lemma AddRef_ok:
  assumes inv: "tm_inv ext m" and t: "tm_deref r m = Some t"
  shows "\<exists>m'. tm_AddRef r m = Some m' \<and> tm_inv ext m' \<and> tm_same_config m m' \<and> tm_texture_infos m' = tm_texture_infos m \<and>
    tm_default_textures m' = tm_default_textures m \<and> tm_deref r m' = Some (t\<lparr>ti_ref_count := Suc (ti_ref_count t)\<rparr>)"
  using tm_inv_recount [OF inv t, of "Suc (ti_ref_count t)"] tm_invD(1) [OF inv t] t tm_deref_store [OF t]
  by (simp add: tm_AddRef_def) (simp add: tm_store_def tm_same_config_def)

text \<open>
  Giving up a reference: \<open>m\<close> is a manager in which the count of \<open>r\<close> exceeds the references that are left. A
  texture without a manager is one of the default textures, whose own reference keeps it alive.
\<close>

lemma Release_ok:
  assumes inv: "tm_inv ext m" and t: "tm_deref r m = Some t" and more: "own_refs ext m r < ti_ref_count t"
    and default: "ti_has_manager t \<or> 0 < own_refs ext m r"
  shows "\<exists>m'. tm_Release r m = Some m' \<and> tm_inv ext m' \<and> tm_same_config m m' \<and> tm_texture_infos m' = tm_texture_infos m \<and>
    tm_default_textures m' = tm_default_textures m \<and> (\<forall>a. a \<noteq> r \<longrightarrow> tm_deref a m' = tm_deref a m) \<and>
    (tm_deref r m' = None \<longleftrightarrow> ti_ref_count t = 1) \<and>
    (ti_ref_count t \<noteq> 1 \<longrightarrow> tm_deref r m' = Some (t\<lparr>ti_ref_count := ti_ref_count t - 1\<rparr>))"
proof -
  from t have r: "r < length (tm_heap m)" "tm_heap m ! r = Some t" by (auto elim: tm_derefE)
  show ?thesis
  proof (cases "ti_ref_count t = 1")
    case True
    then have z: "own_refs ext m r = 0" and hm: "ti_has_manager t" using more default by auto
    let ?m = "tm_store r None (destroy_TextureInfo t m)"
    have sum: "heap_sum g (tm_heap ?m) = heap_sum g (tm_heap m) - g t" for g :: "TextureInfo \<Rightarrow> 'a :: ab_group_add"
      by (simp add: destroy_TextureInfo_def tm_StopTracking_def counter_defs hm Let_def heap_sum_update [OF r(1)] r(2))
    have c: "tm_same_config m ?m"
      by (simp add: destroy_TextureInfo_def tm_StopTracking_def counter_defs hm Let_def)
    have "tm_counts ?m"
      using inv hm unfolding tm_counts_def sum tm_inv_def
      by (simp add: destroy_TextureInfo_def tm_StopTracking_def counter_defs Let_def managed_def)
    moreover have tab: "tm_texture_infos ?m = tm_texture_infos m" "tm_default_textures ?m = tm_default_textures m"
      by (simp_all add: destroy_TextureInfo_def tm_StopTracking_def counter_defs Let_def)
    moreover from tab have "own_refs ext ?m a = own_refs ext m a" "in_table ?m a = in_table m a" for a by (simp_all add: own_refs_def in_table_def)
    moreover have d: "tm_deref a ?m = (if a = r then None else tm_deref a m)" for a
      using r(1) by (auto simp: tm_deref_def destroy_TextureInfo_def tm_StopTracking_def counter_defs Let_def)
    ultimately have "tm_inv ext ?m" using inv z unfolding tm_inv_def tm_same_config_simps [OF c] by simp
    with True c d tab t show ?thesis by (intro exI [of _ ?m]) (simp add: tm_Release_def)
  next
    case False
    let ?m = "tm_store r (Some (t\<lparr>ti_ref_count := ti_ref_count t - 1\<rparr>)) m"
    have "0 < ti_ref_count t - 1" using False tm_invD(2) [OF inv t] by simp
    then have "tm_inv ext ?m" using more by (intro tm_inv_recount [OF inv t]) simp_all
    moreover have c: "tm_same_config m ?m" and tab: "tm_texture_infos ?m = tm_texture_infos m" "tm_default_textures ?m = tm_default_textures m"
      by (simp_all add: tm_same_config_def tm_store_def)
    moreover note d = tm_deref_store [OF t]
    ultimately show ?thesis using False t by (intro exI [of _ ?m]) (simp add: tm_Release_def)
  qed
qed

subsection \<open>Operations on a texture keep the invariant\<close>

text \<open>Clearing changes nothing else about a texture.\<close>

definition clear_frame :: "TextureInfo \<Rightarrow> TextureInfo \<Rightarrow> bool" where
  "clear_frame t t' \<longleftrightarrow> t' = t\<lparr>ti_cleared := ti_cleared t', ti_num_uncleared_mips := ti_num_uncleared_mips t', ti_level_infos := ti_level_infos t'\<rparr>"

lemma clear_frame_refl: "clear_frame t t"
  by (simp add: clear_frame_def)

lemma clear_frame_trans: "clear_frame t t1 \<Longrightarrow> clear_frame t1 t2 \<Longrightarrow> clear_frame t t2"
  by (cases t; cases t1; cases t2) (simp add: clear_frame_def)

lemma clear_frame_same:
  assumes "clear_frame t t'"
  shows "ti_CanRender f t' = ti_CanRender f t" and "ti_estimated_size t' = ti_estimated_size t"
proof -
  obtain c n ls where t': "t' = t\<lparr>ti_cleared := c, ti_num_uncleared_mips := n, ti_level_infos := ls\<rparr>"
    using assms unfolding clear_frame_def by blast
  show "ti_CanRender f t' = ti_CanRender f t" "ti_estimated_size t' = ti_estimated_size t"
    unfolding t' by (auto simp: ti_CanRender_def NeedsMips_def)
qed

lemma clear_frame_mark: "clear_frame t (t\<lparr>ti_cleared := c\<rparr>)"
  by (simp add: clear_frame_def)

lemma UpdateCleared_frame: "UpdateCleared t = Some t' \<Longrightarrow> clear_frame t t'"
  by (auto simp: UpdateCleared_def clear_frame_def split: if_splits bind_splits)

lemma SetLevelCleared_frame: "ti_SetLevelCleared target level t = Some t' \<Longrightarrow> clear_frame t t'"
  by (auto simp: ti_SetLevelCleared_def Let_def split: bind_splits dest!: UpdateCleared_frame) (auto simp: clear_frame_def)

lemma ClearLevel_frame: "ti_ClearLevel clear target level t s = Some (r, t', s') \<Longrightarrow> clear_frame t t'"
  by (auto simp: ti_ClearLevel_def Let_def clear_frame_def split: if_splits bind_splits)

lemma clear_levels_frame: "clear_levels ps clear t s = Some (r, t', s') \<Longrightarrow> clear_frame t t'"
proof (induction ps arbitrary: t s)
  case (Cons p ps)
  obtain ii jj where p: "p = (ii, jj)" by fastforce
  from Cons.prems obtain l where l: "level_at (ti_level_infos t) ii (int jj) = Some l" by (auto simp: p split: bind_splits)
  show ?case
  proof (cases "li_target l = 0")
    case True
    with Cons l show ?thesis by (simp add: p)
  next
    case False
    with Cons.prems l obtain ok t1 s1 where t1: "ti_ClearLevel clear (li_target l) (int jj) t s = Some (ok, t1, s1)"
      "(if \<not> ok then Some (False, t1, s1) else clear_levels ps clear t1 s1) = Some (r, t', s')" by (auto simp: p split: bind_splits)
    note clear_frame_trans [OF ClearLevel_frame [OF t1(1)]]
    with t1 Cons.IH [of t1] clear_frame_refl show ?thesis by (cases ok) auto
  qed
qed (simp add: clear_frame_refl)

lemma ClearRenderableLevels_frame: "ti_ClearRenderableLevels clear t s = Some (r, t', s') \<Longrightarrow> clear_frame t t'"
  by (auto simp: ti_ClearRenderableLevels_def clear_frame_refl split: if_splits bind_splits dest!: clear_levels_frame
      elim: clear_frame_trans [OF _ clear_frame_mark])

text \<open>The change that an operation on the texture \<open>r\<close> makes: only this texture and the counters.\<close>

definition tm_changes :: "tex_ref \<Rightarrow> TextureInfo \<Rightarrow> TextureManager \<Rightarrow> TextureManager \<Rightarrow> bool" where
  "tm_changes r t m m' \<longleftrightarrow> tm_heap m' = (tm_heap m)[r := Some t] \<and> tm_same_config m m' \<and>
     tm_texture_infos m' = tm_texture_infos m \<and> tm_default_textures m' = tm_default_textures m"

lemma tm_changes_deref:
  "tm_changes r t' m m' \<Longrightarrow> tm_deref r m = Some t \<Longrightarrow> tm_deref a m' = (if a = r then Some t' else tm_deref a m)"
  by (auto simp: tm_changes_def tm_deref_def split: if_splits)

lemma tm_changes_refl: "tm_deref r m = Some t \<Longrightarrow> tm_changes r t m m"
  by (elim tm_derefE) (simp add: tm_changes_def tm_same_config_refl, metis list_update_id)

lemmas changes_defs = tm_changes_def tm_same_config_def adders

lemma SetInfoTarget_ok:
  assumes inv: "tm_inv ext m" and t: "tm_deref r m = Some t" "ti_target t = 0" and target: "target \<noteq> 0" "0 < MaxLevelsForTarget m target"
  defines "t' \<equiv> ti_SetTarget target (MaxLevelsForTarget m target) t"
  shows "\<exists>m'. SetInfoTarget r target m = Some m' \<and> tm_inv ext m' \<and> tm_changes r t' m m'"
proof -
  let ?m = "add_unrenderable 1 t' (tm_store r (Some t') (add_unrenderable (-1) t m))"
  note ok = ti_SetTarget_ok [OF tm_invD(3) [OF inv t(1)] t(2) target, folded t'_def]
  have rest: "ti_ref_count t' = ti_ref_count t" "ti_has_manager t' = ti_has_manager t" "ti_cleared t' = ti_cleared t"
    "ti_num_uncleared_mips t' = ti_num_uncleared_mips t" "ti_estimated_size t' = ti_estimated_size t"
    by (simp_all add: t'_def ti_SetTarget_def Let_def)
  have ch: "tm_changes r t' m ?m" by (simp add: changes_defs)
  then have "tm_inv ext ?m"
    by (intro tm_inv_replace [OF inv t(1), of t']) (simp_all add: ok rest changes_defs unsafe_def SafeToRenderFrom_def)
  with ch t(1) show ?thesis by (intro exI [of _ ?m]) (simp add: SetInfoTarget_def t'_def Let_def)
qed

text \<open>What a clearing operation does to the counters, once for the three of them.\<close>

lemma tm_inv_clear:
  assumes inv: "tm_inv ext m" and t: "tm_deref r m = Some t"
    and t': "ti_ok (MaxLevelsForTarget m) t'" "ti_frame t t'" "clear_frame t t'"
    and m': "tm_changes r t' m m'" "tm_num_unrenderable_textures m' = tm_num_unrenderable_textures m"
      "tm_num_unsafe_textures m' = tm_num_unsafe_textures m - unsafe t + unsafe t'"
      "tm_num_uncleared_mips m' = tm_num_uncleared_mips m - ti_num_uncleared_mips t + ti_num_uncleared_mips t'"
      "tm_mem_represented m' = tm_mem_represented m" "tm_texture_info_count m' = tm_texture_info_count m"
  shows "tm_inv ext m'"
  using m' t' by (intro tm_inv_replace [OF inv t t'(1)]) (simp_all add: clear_frame_same unrenderable_def ti_frame_def tm_changes_def)

lemma SetLevelCleared_ok:
  assumes inv: "tm_inv ext m" and t: "tm_deref r m = Some t" "ti_target t \<noteq> 0" "GLTargetToFaceIndex target < num_faces (ti_target t)"
    and level: "0 \<le> level" "level < MaxLevelsForTarget m (ti_target t)"
  shows "\<exists>t' m'. tm_SetLevelCleared r target level m = Some m' \<and> tm_inv ext m' \<and> tm_changes r t' m m' \<and> ti_frame t t'"
proof -
  from ti_SetLevelCleared_ok [OF tm_invD(3) [OF inv t(1)] t(2,3) level] obtain t' where
    t': "ti_SetLevelCleared target level t = Some t'" "ti_ok (MaxLevelsForTarget m) t'" "ti_frame t t'" by blast
  let ?m = "add_unsafe 1 t' (add_uncleared 1 t' (tm_store r (Some t') (add_uncleared (-1) t (add_unsafe (-1) t m))))"
  have ch: "tm_changes r t' m ?m" by (simp add: changes_defs)
  then have "tm_inv ext ?m"
    by (rule tm_inv_clear [OF inv t(1) t'(2,3) SetLevelCleared_frame [OF t'(1)]]) (simp_all add: changes_defs)
  with ch t(1) t' show ?thesis by (intro exI [of _ t'] exI [of _ ?m]) (simp add: tm_SetLevelCleared_def Let_def)
qed

lemma ClearRenderableLevels_ok:
  assumes inv: "tm_inv ext m" and t: "tm_deref r m = Some t" and clr: "\<forall>t l s. clear t l s \<noteq> None"
  shows "\<exists>b t' m' s'. tm_ClearRenderableLevels clear r m s = Some (b, m', s') \<and> tm_inv ext m' \<and> tm_changes r t' m m' \<and> ti_frame t t' \<and>
    (b \<longrightarrow> SafeToRenderFrom t')"
proof (cases "SafeToRenderFrom t")
  case True
  with inv t tm_changes_refl [OF t] ti_frame_refl show ?thesis
    by (intro exI [of _ True] exI [of _ t] exI [of _ m] exI [of _ s]) (simp add: tm_ClearRenderableLevels_def)
next
  case False
  from ti_ClearRenderableLevels_ok [OF tm_invD(3) [OF inv t] clr, where s = s] obtain b t' s' where
    t': "ti_ClearRenderableLevels clear t s = Some (b, t', s')" "ti_ok (MaxLevelsForTarget m) t'" "ti_frame t t'" "b \<longrightarrow> ti_cleared t'" by blast
  let ?m = "add_unsafe 1 t' (add_uncleared 1 t' (tm_store r (Some t') (add_uncleared (-1) t
    (m\<lparr>tm_num_unsafe_textures := tm_num_unsafe_textures m - 1\<rparr>))))"
  have ch: "tm_changes r t' m ?m" by (simp add: changes_defs)
  then have "tm_inv ext ?m"
    by (rule tm_inv_clear [OF inv t t'(2,3) ClearRenderableLevels_frame [OF t'(1)]]) (simp_all add: changes_defs unsafe_def False)
  with ch t t' False show ?thesis
    by (intro exI [of _ b] exI [of _ t'] exI [of _ ?m] exI [of _ s']) (simp add: tm_ClearRenderableLevels_def SafeToRenderFrom_def)
qed

lemma ClearTextureLevel_ok:
  assumes inv: "tm_inv ext m" and t: "tm_deref r m = Some t" and level: "0 \<le> level" and clr: "\<forall>t l s. clear t l s \<noteq> None"
  shows "\<exists>b t' m' s'. ClearTextureLevel clear r target level m s = Some (b, m', s') \<and> tm_inv ext m' \<and> tm_changes r t' m m' \<and> ti_frame t t'"
proof (cases "ti_num_uncleared_mips t = 0")
  case True
  with inv t tm_changes_refl [OF t] ti_frame_refl show ?thesis
    by (intro exI [of _ True] exI [of _ t] exI [of _ m] exI [of _ s]) (simp add: ClearTextureLevel_def)
next
  case False
  from ti_ClearLevel_ok [OF tm_invD(3) [OF inv t] level clr, where target = target and s = s] obtain b t1 s' where
    t1: "ti_ClearLevel clear target level t s = Some (b, t1, s')" "ti_ok (MaxLevelsForTarget m) t1" "ti_frame t t1" by blast
  from ti_ok_UpdateCleared [OF t1(2)] obtain t' where
    t': "UpdateCleared t1 = Some t'" "ti_ok (MaxLevelsForTarget m) t'" "ti_frame t1 t'" by blast
  let ?m = "add_unsafe 1 t' (add_uncleared 1 t' (tm_store r (Some t') (add_unsafe (-1) t (add_uncleared (-1) t m))))"
  have fr: "ti_frame t t'" "clear_frame t t'"
    using ti_frame_trans [OF t1(3) t'(3)] clear_frame_trans [OF ClearLevel_frame [OF t1(1)] UpdateCleared_frame [OF t'(1)]] by simp_all
  have ch: "tm_changes r t' m ?m" by (simp add: changes_defs)
  then have "tm_inv ext ?m" by (rule tm_inv_clear [OF inv t t'(2) fr]) (simp_all add: changes_defs)
  with ch t t' t1 fr False show ?thesis
    by (intro exI [of _ b] exI [of _ t'] exI [of _ ?m] exI [of _ s']) (simp add: ClearTextureLevel_def Let_def)
qed

text \<open>The same for the operations that touch all of the counters.\<close>

lemma tm_inv_exchange:
  assumes inv: "tm_inv ext m" and t: "tm_deref r m = Some t" and t': "ti_ok (MaxLevelsForTarget m) t'" "ti_frame t t'"
  defines "m1 \<equiv> tm_UpdateMemRepresented (add_mem t' (tm_store r (Some t')
      (sub_mem t (add_uncleared (-1) t (add_unsafe (-1) t (add_unrenderable (-1) t m))))))"
  shows "tm_inv ext (add_unsafe 1 t' (add_unrenderable 1 t' (add_uncleared 1 t' m1)))"
    and "tm_changes r t' m (add_unsafe 1 t' (add_unrenderable 1 t' (add_uncleared 1 t' m1)))"
proof -
  let ?m = "add_unsafe 1 t' (add_unrenderable 1 t' (add_uncleared 1 t' m1))"
  show ch: "tm_changes r t' m ?m" by (simp add: changes_defs m1_def)
  show "tm_inv ext ?m"
    using t'(2) by (intro tm_inv_replace [OF inv t t'(1)]) (simp_all add: ti_frame_def changes_defs m1_def)
qed

lemma SetLevelInfo_ok:
  assumes inv: "tm_inv ext m" and t: "tm_deref r m = Some t" "ti_target t \<noteq> 0" "target \<noteq> 0" "GLTargetToFaceIndex target < num_faces (ti_target t)"
    and level: "0 \<le> level" "level < MaxLevelsForTarget m (ti_target t)" and dims: "0 \<le> width" "0 \<le> height" "0 \<le> depth"
    and size: "level = 0 \<Longrightarrow> GLTargetToFaceIndex target = 0 \<Longrightarrow> ComputeMipMapCount width height depth \<le> MaxLevelsForTarget m (ti_target t)"
  shows "\<exists>t' m'. tm_SetLevelInfo r target level internal_format width height depth border format type cleared m = Some m' \<and> tm_inv ext m' \<and>
    tm_changes r t' m m' \<and> ti_frame t t' \<and> ti_texture_complete t' = should_complete (tm_feature_flags m) t' \<and> ti_cube_complete t' = should_cube t'"
proof -
  from ti_SetLevelInfo_ok [OF tm_invD(3) [OF inv t(1)] t(2-4) level dims size, where f = "tm_feature_flags m"] obtain t' where
    t': "ti_SetLevelInfo (tm_feature_flags m) target level internal_format width height depth border format type cleared t = Some t'"
      "ti_ok (MaxLevelsForTarget m) t'" "ti_frame t t'" "ti_texture_complete t' = should_complete (tm_feature_flags m) t'"
      "ti_cube_complete t' = should_cube t'" by blast
  from tm_inv_exchange [OF inv t(1) t'(2,3)] t(1) t' show ?thesis by (auto simp: tm_SetLevelInfo_def Let_def)
qed

lemma MarkMipmapsGenerated_ok:
  assumes inv: "tm_inv ext m" and t: "tm_deref r m = Some t"
  shows "\<exists>b t' m'. tm_MarkMipmapsGenerated r m = Some (b, m') \<and> tm_inv ext m' \<and> tm_changes r t' m m' \<and> ti_frame t t'"
proof -
  from ti_MarkMipmapsGenerated_ok [OF tm_invD(3) [OF inv t], of "tm_feature_flags m"] obtain b t' where
    t': "ti_MarkMipmapsGenerated (tm_feature_flags m) t = Some (b, t')" "ti_ok (MaxLevelsForTarget m) t'" "ti_frame t t'" by blast
  from tm_inv_exchange [OF inv t t'(2,3)] t t' show ?thesis by (auto simp: tm_MarkMipmapsGenerated_def Let_def)
qed

lemma SetParameter_ok:
  assumes inv: "tm_inv ext m" and t: "tm_deref r m = Some t"
  shows "\<exists>b t' m'. tm_SetParameter r pname param m = Some (b, m') \<and> tm_inv ext m' \<and> tm_changes r t' m m' \<and> ti_frame t t'"
proof -
  note ok = tm_invD(3) [OF inv t]
  from ti_SetParameter_ok [OF ok, of "tm_feature_flags m" pname param] obtain b t' where
    t': "ti_SetParameter (tm_feature_flags m) pname param t = Some (b, t')" "ti_ok (MaxLevelsForTarget m) t'" "ti_frame t t'"
      "ti_level_infos t' = ti_level_infos t" by blast
  have rest: "ti_num_uncleared_mips t' = ti_num_uncleared_mips t" "ti_estimated_size t' = ti_estimated_size t"
    using ok t'(2,4) by (simp_all add: ti_ok_def)
  let ?m = "add_unsafe 1 t' (add_unrenderable 1 t' (tm_store r (Some t') (add_unsafe (-1) t (add_unrenderable (-1) t m))))"
  have ch: "tm_changes r t' m ?m" by (simp add: changes_defs)
  then have "tm_inv ext ?m"
    using t'(3) by (intro tm_inv_replace [OF inv t t'(2)]) (simp_all add: ti_frame_def rest changes_defs)
  with ch t t' show ?thesis by (intro exI [of _ b] exI [of _ t'] exI [of _ ?m]) (simp add: tm_SetParameter_def Let_def)
qed

subsection \<open>New textures\<close>

lemma own_refs_fresh:
  assumes "tm_inv ext m"
  shows "own_refs ext m (length (tm_heap m)) = 0" and "\<not> in_table m (length (tm_heap m))"
proof -
  let ?r = "length (tm_heap m)"
  have "tref_ok (MaxLevelsForTarget m) (tm_deref ?r m) (own_refs ext m ?r) (in_table m ?r)" using assms by (simp add: tm_inv_def)
  then show "own_refs ext m ?r = 0" by (simp add: tm_deref_def)
  then show "\<not> in_table m ?r" by (auto simp: own_refs_def in_table_def count_list_0_iff)
qed

lemma tm_inv_snoc:
  assumes inv: "tm_inv ext m" and t: "ti_ok (MaxLevelsForTarget m) t" "0 < ti_ref_count t"
    and heap: "tm_heap m' = tm_heap m @ [Some t]" and config: "tm_same_config m m'"
    and tables: "distinct (map fst (tm_texture_infos m'))" "tm_default_textures m' = tm_default_textures m"
    and refs: "\<And>a. a \<noteq> length (tm_heap m) \<Longrightarrow> own_refs ext m' a = own_refs ext m a \<and> in_table m' a = in_table m a"
      "own_refs ext m' (length (tm_heap m)) \<le> ti_ref_count t" "in_table m' (length (tm_heap m)) \<Longrightarrow> ti_has_manager t"
    and counts: "tm_num_unrenderable_textures m' = tm_num_unrenderable_textures m + unrenderable (tm_feature_flags m) t"
      "tm_num_unsafe_textures m' = tm_num_unsafe_textures m + unsafe t"
      "tm_num_uncleared_mips m' = tm_num_uncleared_mips m + ti_num_uncleared_mips t"
      "tm_mem_represented m' = tm_mem_represented m + ti_estimated_size t"
      "tm_texture_info_count m' = tm_texture_info_count m + managed t"
  shows "tm_inv ext m'"
proof -
  have "tm_counts m'"
    using inv config unfolding tm_counts_def heap heap_sum_snoc counts tm_inv_def tm_same_config_def by simp
  moreover have "tref_ok (MaxLevelsForTarget m) (tm_deref a m') (own_refs ext m' a) (in_table m' a)" for a
  proof (cases "a = length (tm_heap m)")
    case True
    with t refs(2,3) show ?thesis by (simp add: tm_deref_def heap)
  next
    case False
    then have "tm_deref a m' = tm_deref a m" by (auto simp: tm_deref_def heap nth_append)
    with refs(1) [OF False] inv show ?thesis by (simp add: tm_inv_def)
  qed
  ultimately show ?thesis using inv tables unfolding tm_inv_def tm_same_config_simps [OF config] by simp
qed

text \<open>The effect of \<^verbatim>\<open>CreateTextureInfo\<close> for a new id and for one that is in the table.\<close>

lemma CreateTextureInfo_new:
  assumes "map_of (tm_texture_infos m) client_id = None"
  shows "CreateTextureInfo client_id service_id m = Some (length (tm_heap m),
    m\<lparr>tm_heap := tm_heap m @ [Some ((new_TextureInfo True service_id)\<lparr>ti_ref_count := 1\<rparr>)],
      tm_texture_infos := (client_id, length (tm_heap m)) # tm_texture_infos m,
      tm_num_unrenderable_textures := tm_num_unrenderable_textures m + 1,
      tm_texture_info_count := tm_texture_info_count m + 1\<rparr>)"
  using assms
  by (simp add: CreateTextureInfo_def make_TextureInfo_def tm_AddRef_def tm_Release_def tm_deref_def tm_store_def
      add_unrenderable_def add_unsafe_def add_uncleared_def SafeToRenderFrom_def ti_CanRender_def new_TextureInfo_def)

lemma CreateTextureInfo_old:
  assumes "map_of (tm_texture_infos m) client_id \<noteq> None"
  shows "CreateTextureInfo client_id service_id m = Some (length (tm_heap m), tm_UpdateMemRepresented (m\<lparr>tm_heap := tm_heap m @ [None]\<rparr>))"
  using assms
  by (auto simp: CreateTextureInfo_def make_TextureInfo_def tm_Release_def tm_deref_def tm_store_def destroy_TextureInfo_def
      tm_StopTracking_def tm_UpdateMemRepresented_def sub_mem_def
      add_unrenderable_def add_unsafe_def add_uncleared_def SafeToRenderFrom_def ti_CanRender_def new_TextureInfo_def)

lemma CreateTextureInfo_ok:
  assumes inv: "tm_inv ext m" and new: "GetTextureInfo client_id m = None"
  shows "\<exists>r m' t. CreateTextureInfo client_id service_id m = Some (r, m') \<and> tm_inv ext m' \<and> tm_same_config m m' \<and>
    GetTextureInfo client_id m' = Some r \<and> tm_deref r m' = Some t \<and> ti_target t = 0 \<and> \<not> ti_deleted t \<and> ti_service_id t = service_id \<and>
    tm_default_textures m' = tm_default_textures m \<and> r = length (tm_heap m) \<and> (\<forall>a. a \<noteq> r \<longrightarrow> tm_deref a m' = tm_deref a m)"
proof -
  let ?t = "(new_TextureInfo True service_id)\<lparr>ti_ref_count := 1\<rparr>" and ?r = "length (tm_heap m)"
  let ?m = "m\<lparr>tm_heap := tm_heap m @ [Some ?t], tm_texture_infos := (client_id, ?r) # tm_texture_infos m,
      tm_num_unrenderable_textures := tm_num_unrenderable_textures m + 1, tm_texture_info_count := tm_texture_info_count m + 1\<rparr>"
  have c: "tm_same_config m ?m" by (simp add: tm_same_config_def)
  have "own_refs ext ?m a = own_refs ext m a + (if a = ?r then 1 else 0)" for a by (simp add: own_refs_def)
  moreover have "in_table ?m a \<longleftrightarrow> a = ?r \<or> in_table m a" for a by (auto simp: in_table_def)
  moreover have d: "distinct (map fst (tm_texture_infos ?m))"
    using inv new by (simp add: tm_inv_def GetTextureInfo_def map_of_eq_None_iff)
  moreover have "ti_ok (MaxLevelsForTarget m) ?t" using new_TextureInfo_ok by (simp add: ti_ok_def ti_shape_def)
  ultimately have "tm_inv ext ?m" using own_refs_fresh [OF inv]
    by (intro tm_inv_snoc [OF inv, of ?t]) (simp_all add: tm_same_config_def unrenderable_def ti_CanRender_def unsafe_def SafeToRenderFrom_def managed_def new_TextureInfo_def)
  moreover have "tm_deref ?r ?m = Some ?t" "\<And>a. a \<noteq> ?r \<Longrightarrow> tm_deref a ?m = tm_deref a m" by (auto simp: tm_deref_def nth_append)
  ultimately show ?thesis
    using c CreateTextureInfo_new [OF new [unfolded GetTextureInfo_def]]
    by (intro exI [of _ ?r] exI [of _ ?m] exI [of _ ?t]) (simp add: GetTextureInfo_def new_TextureInfo_def)
qed

subsection \<open>Removing textures\<close>

text \<open>Changes of a texture that no counter sees.\<close>

lemma tm_inv_flags:
  assumes inv: "tm_inv ext m" and t: "tm_deref r m = Some t"
    and t': "t' = t\<lparr>ti_service_id := s, ti_deleted := d, ti_owned := ow, ti_stream_texture := st, ti_immutable := im,
      ti_framebuffer_attachment_count := n\<rparr>"
  shows "tm_inv ext (tm_store r (Some t') m)" and "tm_changes r t' m (tm_store r (Some t') m)"
proof -
  show "tm_changes r t' m (tm_store r (Some t') m)" by (simp add: changes_defs)
  have "ti_CanRender f t' = ti_CanRender f t" for f by (auto simp: t' ti_CanRender_def NeedsMips_def Let_def)
  moreover have "ti_ok (MaxLevelsForTarget m) t'" using tm_invD(3) [OF inv t] by (simp add: t' ti_ok_def ti_shape_def)
  ultimately show "tm_inv ext (tm_store r (Some t') m)"
    by (intro tm_inv_replace [OF inv t, of t']) (simp_all add: t' changes_defs unsafe_def unrenderable_def SafeToRenderFrom_def)
qed

lemma MarkAsDeleted_ok:
  assumes "tm_inv ext m" and "tm_deref r m = Some t"
  shows "tm_inv ext (tm_store r (Some (ti_MarkAsDeleted t)) m)" and "tm_changes r (ti_MarkAsDeleted t) m (tm_store r (Some (ti_MarkAsDeleted t)) m)"
  using tm_inv_flags [OF assms, where t' = "ti_MarkAsDeleted t" and s = 0 and d = True and ow = "ti_owned t" and st = "ti_stream_texture t"
      and im = "ti_immutable t" and n = "ti_framebuffer_attachment_count t"]
  by (simp_all add: ti_MarkAsDeleted_def)

lemma tm_inv_fewer:
  assumes inv: "tm_inv ext m" and m': "tm_heap m' = tm_heap m" "tm_same_config m m'" "distinct (map fst (tm_texture_infos m'))"
      "length (tm_default_textures m') = 4" "tm_counts m'"
    and refs: "\<And>r. own_refs ext' m' r \<le> own_refs ext m r" "\<And>r. in_table m' r \<Longrightarrow> in_table m r"
  shows "tm_inv ext' m'"
proof -
  have "tref_ok (MaxLevelsForTarget m) (tm_deref r m') (own_refs ext' m' r) (in_table m' r)" for r
  proof -
    have "tm_deref r m' = tm_deref r m" by (simp add: tm_deref_def m'(1))
    moreover have "tref_ok (MaxLevelsForTarget m) (tm_deref r m) (own_refs ext m r) (in_table m r)" using inv by (simp add: tm_inv_def)
    ultimately show ?thesis using refs [of r] by (cases "tm_deref r m") auto
  qed
  then show ?thesis using inv m' unfolding tm_inv_def tm_same_config_simps [OF m'(2)] by simp
qed

lemma map_of_filter_key: "map_of (filter (\<lambda>(c', _). c' \<noteq> k) xs) c = (if c = k then None else map_of xs c)"
  by (induction xs) auto

lemma RemoveTextureInfo_ok:
  assumes inv: "tm_inv ext m"
  shows "\<exists>m'. RemoveTextureInfo client_id m = Some m' \<and> tm_inv ext m' \<and> tm_same_config m m' \<and>
    GetTextureInfo client_id m' = None \<and> (\<forall>c. c \<noteq> client_id \<longrightarrow> GetTextureInfo c m' = GetTextureInfo c m) \<and>
    tm_default_textures m' = tm_default_textures m \<and>
    (\<forall>a. GetTextureInfo client_id m \<noteq> Some a \<longrightarrow> tm_deref a m' = tm_deref a m) \<and>
    (\<forall>a t'. GetTextureInfo client_id m = Some a \<and> tm_deref a m' = Some t' \<longrightarrow>
       (\<exists>t n. tm_deref a m = Some t \<and> t' = (ti_MarkAsDeleted t)\<lparr>ti_ref_count := n\<rparr>))"
proof (cases "map_of (tm_texture_infos m) client_id")
  case None
  with inv show ?thesis by (auto simp: RemoveTextureInfo_def GetTextureInfo_def tm_same_config_refl)
next
  case (Some r)
  have d: "distinct (map fst (tm_texture_infos m))" using inv by (simp add: tm_inv_def)
  let ?infos = "filter (\<lambda>(c, _). c \<noteq> client_id) (tm_texture_infos m)"
  have cnt: "count_list (map snd (tm_texture_infos m)) a = count_list (map snd ?infos) a + (if a = r then 1 else 0)" for a
    by (rule count_list_filter_fst [OF d Some])
  then have "0 < own_refs ext m r" by (simp add: own_refs_def)
  from tm_inv_live [OF inv this] obtain t where t: "tm_deref r m = Some t" ..
  let ?t = "ti_MarkAsDeleted t"
  let ?m1 = "tm_store r (Some ?t) m"
  let ?m2 = "?m1\<lparr>tm_texture_infos := ?infos\<rparr>"
  note del = MarkAsDeleted_ok [OF inv t]
  have "in_table m r" using Some by (force simp: in_table_def dest: map_of_SomeD)
  then have hm: "ti_has_manager t" by (rule tm_invD(4) [OF inv t])
  have refs: "own_refs ext m a = own_refs ext ?m2 a + (if a = r then 1 else 0)" for a using cnt [of a] by (simp add: own_refs_def tm_store_def)
  have inv2: "tm_inv ext ?m2"
  proof (rule tm_inv_fewer [OF del(1)])
    show "distinct (map fst (tm_texture_infos ?m2))" using d by (simp add: distinct_map_filter)
    show "length (tm_default_textures ?m2) = 4" "tm_counts ?m2" using del(1) by (simp_all add: tm_inv_def tm_counts_def)
    show "own_refs ext ?m2 a \<le> own_refs ext ?m1 a" for a using refs [of a] by (simp add: own_refs_def tm_store_def)
    show "in_table ?m1 a" if "in_table ?m2 a" for a using that by (auto simp: in_table_def tm_store_def)
  qed (simp_all add: tm_same_config_def)
  have t2: "tm_deref a ?m2 = (if a = r then Some ?t else tm_deref a m)" for a
    by (subst tm_changes_deref [OF del(2) t, symmetric]) (simp add: tm_deref_def)
  have cfg: "tm_same_config m ?m2" using del(2) by (simp add: tm_changes_def tm_same_config_def)
  have "own_refs ext ?m2 r < ti_ref_count ?t" using refs [of r] tm_invD(1) [OF inv t] by (simp add: ti_MarkAsDeleted_def)
  moreover have "tm_deref r ?m2 = Some ?t" by (simp add: t2)
  moreover have "ti_has_manager ?t \<or> 0 < own_refs ext ?m2 r" using hm by (simp add: ti_MarkAsDeleted_def)
  ultimately obtain m' where m': "tm_Release r ?m2 = Some m'" "tm_inv ext m'" "tm_same_config ?m2 m'" "tm_texture_infos m' = ?infos"
    "tm_default_textures m' = tm_default_textures m" "\<And>a. a \<noteq> r \<Longrightarrow> tm_deref a m' = tm_deref a ?m2"
    "tm_deref r m' = None \<or> tm_deref r m' = Some (?t\<lparr>ti_ref_count := ti_ref_count ?t - 1\<rparr>)"
    using Release_ok [OF inv2, of r ?t] by (auto simp: tm_store_def)
  have look: "map_of ?infos c = (if c = client_id then None else map_of (tm_texture_infos m) c)" for c
    by (simp add: map_of_filter_key)
  show ?thesis
    using Some t m' look t2 tm_same_config_trans [OF cfg m'(3)]
    by (intro exI [of _ m']) (auto simp: RemoveTextureInfo_def GetTextureInfo_def tm_store_def)
qed

subsection \<open>Default textures\<close>

lemma tm_changes_trans: "tm_changes r t1 m m1 \<Longrightarrow> tm_changes r t2 m1 m2 \<Longrightarrow> tm_changes r t2 m m2"
  by (auto simp: tm_changes_def dest: tm_same_config_trans)

lemma max_levels_pos: "limits_ok m \<Longrightarrow> 0 < MaxLevelsForTarget m target"
  using ComputeMipMapCount_exact [of "tm_max_texture_size m" "tm_max_texture_size m" "tm_max_texture_size m"]
    ComputeMipMapCount_exact [of "tm_max_cube_map_texture_size m" "tm_max_cube_map_texture_size m" "tm_max_cube_map_texture_size m"]
  by (auto simp: limits_ok_def MaxLevelsForTarget_def)

lemma ComputeMipMapCount_1: "ComputeMipMapCount 1 1 1 = 1"
  by (simp add: ComputeMipMapCount_def bits_Log2Floor_def uint32_def)

text \<open>One texel at level 0.\<close>

lemma SetLevelInfo_texel:
  assumes inv: "tm_inv ext m" and t: "tm_deref r m = Some t" "ti_target t \<noteq> 0" "target \<noteq> 0" "GLTargetToFaceIndex target < num_faces (ti_target t)"
  shows "\<exists>t' m'. tm_SetLevelInfo r target 0 internal_format 1 1 1 border format type cleared m = Some m' \<and> tm_inv ext m' \<and>
    tm_changes r t' m m' \<and> ti_frame t t'"
proof -
  have p: "0 < MaxLevelsForTarget m (ti_target t)" using inv by (simp add: tm_inv_def max_levels_pos)
  then have "ComputeMipMapCount 1 1 1 \<le> MaxLevelsForTarget m (ti_target t)" by (simp add: ComputeMipMapCount_1)
  with SetLevelInfo_ok [OF inv t, of 0 1 1 1 internal_format border format type cleared] p show ?thesis by auto
qed

lemma IndexToGLFaceTarget_face:
  assumes "0 \<le> ii" "ii < 6"
  shows "\<exists>face. IndexToGLFaceTarget ii = Some face \<and> face \<noteq> 0 \<and> GLTargetToFaceIndex face < 6"
proof -
  from assms have "ii = 0 \<or> ii = 1 \<or> ii = 2 \<or> ii = 3 \<or> ii = 4 \<or> ii = 5" by linarith
  then show ?thesis by (elim disjE) (simp_all add: IndexToGLFaceTarget_def GLTargetToFaceIndex_def)
qed

lemma default_faces_ok:
  "tm_inv ext m \<Longrightarrow> tm_deref r m = Some t \<Longrightarrow> ti_target t = GL_TEXTURE_CUBE_MAP \<Longrightarrow> \<forall>ii \<in> set is. 0 \<le> ii \<and> ii < 6 \<Longrightarrow>
   \<exists>t' m'. default_faces r is m = Some m' \<and> tm_inv ext m' \<and> tm_changes r t' m m' \<and> ti_frame t t'"
proof (induction "is" arbitrary: m t)
  case Nil
  then show ?case using tm_changes_refl [OF Nil.prems(2)] ti_frame_refl by auto
next
  case (Cons ii "is")
  from Cons.prems(4) IndexToGLFaceTarget_face [of ii] obtain face where
    face: "IndexToGLFaceTarget ii = Some face" "face \<noteq> 0" "GLTargetToFaceIndex face < 6" by auto
  have "ti_target t \<noteq> 0" "GLTargetToFaceIndex face < num_faces (ti_target t)" using face(3) Cons.prems(3) by (simp_all add: num_faces_def)
  from SetLevelInfo_texel [OF Cons.prems(1,2) this(1) face(2) this(2)] obtain t1 m1 where
    m1: "tm_SetLevelInfo r face 0 GL_RGBA 1 1 1 0 GL_RGBA GL_UNSIGNED_BYTE True m = Some m1" "tm_inv ext m1" "tm_changes r t1 m m1" "ti_frame t t1"
    by blast
  have "tm_deref r m1 = Some t1" using tm_changes_deref [OF m1(3) Cons.prems(2)] by simp
  moreover have "ti_target t1 = GL_TEXTURE_CUBE_MAP" using m1(4) Cons.prems(3) by (simp add: ti_frame_def)
  ultimately obtain t' m' where "default_faces r is m1 = Some m'" "tm_inv ext m'" "tm_changes r t' m1 m'" "ti_frame t1 t'"
    using Cons.IH [OF m1(2)] Cons.prems(4) by fastforce
  with m1 face(1) tm_changes_trans ti_frame_trans show ?case by (intro exI [of _ t'] exI [of _ m']) auto
qed

text \<open>A texture that its maker still holds: its own reference is not one of the manager's.\<close>

definition held :: "(tex_ref \<Rightarrow> nat) \<Rightarrow> tex_ref \<Rightarrow> TextureInfo \<Rightarrow> TextureManager \<Rightarrow> TextureManager \<Rightarrow> bool" where
  "held ext r t m m' \<longleftrightarrow> tm_inv ext m' \<and> r = length (tm_heap m) \<and> own_refs ext m' r = 0 \<and> \<not> in_table m' r \<and> tm_deref r m' = Some t \<and>
     ti_ref_count t = 1 \<and> tm_same_config m m' \<and> tm_texture_infos m' = tm_texture_infos m \<and>
     tm_default_textures m' = tm_default_textures m \<and> (\<forall>a. a \<noteq> r \<longrightarrow> tm_deref a m' = tm_deref a m)"

lemma held_changes:
  assumes h: "held ext r t m m1" and c: "tm_changes r t' m1 m2" "tm_inv ext m2" "ti_ref_count t' = ti_ref_count t"
  shows "held ext r t' m m2"
proof -
  have "own_refs ext m2 r = own_refs ext m1 r" "in_table m2 r = in_table m1 r"
    using c(1) by (simp_all add: own_refs_def in_table_def tm_changes_def)
  moreover have "tm_deref r m1 = Some t" using h unfolding held_def by blast
  note tm_changes_deref [OF c(1) this]
  ultimately show ?thesis
    using h c by (auto simp: held_def tm_changes_def dest: tm_same_config_trans)
qed

lemma make_default_ok:
  assumes inv: "tm_inv ext m"
  shows "held ext (length (tm_heap m)) ((new_TextureInfo False i)\<lparr>ti_ref_count := 1\<rparr>) m
    (snd (make_TextureInfo False i (m\<lparr>tm_num_unrenderable_textures := tm_num_unrenderable_textures m + 1\<rparr>)))"
proof -
  let ?t = "(new_TextureInfo False i)\<lparr>ti_ref_count := 1\<rparr>" and ?r = "length (tm_heap m)"
  let ?m = "snd (make_TextureInfo False i (m\<lparr>tm_num_unrenderable_textures := tm_num_unrenderable_textures m + 1\<rparr>))"
  have "own_refs ext ?m a = own_refs ext m a" "in_table ?m a = in_table m a" for a
    by (simp_all add: own_refs_def in_table_def make_TextureInfo_def)
  moreover have "ti_ok (MaxLevelsForTarget m) ?t" using new_TextureInfo_ok by (simp add: ti_ok_def ti_shape_def)
  moreover have "distinct (map fst (tm_texture_infos m))" using inv by (simp add: tm_inv_def)
  ultimately have "tm_inv ext ?m" using own_refs_fresh [OF inv]
    by (intro tm_inv_snoc [OF inv, of ?t]) (simp_all add: make_TextureInfo_def tm_same_config_def unrenderable_def ti_CanRender_def unsafe_def
        SafeToRenderFrom_def managed_def new_TextureInfo_def)
  moreover have "tm_deref ?r ?m = Some ?t" "\<And>a. a \<noteq> ?r \<Longrightarrow> tm_deref a ?m = tm_deref a m"
    by (auto simp: tm_deref_def make_TextureInfo_def nth_append)
  ultimately show ?thesis
    using own_refs_fresh [OF inv] by (auto simp: held_def tm_same_config_def own_refs_def in_table_def make_TextureInfo_def)
qed

definition texture_targets :: "u32 list" where
  "texture_targets = [GL_TEXTURE_2D, GL_TEXTURE_CUBE_MAP, GL_TEXTURE_EXTERNAL_OES, GL_TEXTURE_RECTANGLE_ARB]"

lemma CreateDefault_ok:
  assumes inv: "tm_inv ext m" and target: "target \<in> set texture_targets"
  shows "\<exists>r t m'. CreateDefaultAndBlackTextures ids target m = Some (r, fst ids, m') \<and> held ext r t m m' \<and> ti_target t = target \<and>
    \<not> ti_has_manager t \<and> \<not> ti_deleted t \<and> \<not> ti_stream_texture t"
proof -
  let ?t = "(new_TextureInfo False (snd ids))\<lparr>ti_ref_count := 1\<rparr>" and ?r = "length (tm_heap m)"
  let ?m = "snd (make_TextureInfo False (snd ids) (m\<lparr>tm_num_unrenderable_textures := tm_num_unrenderable_textures m + 1\<rparr>))"
  note h = make_default_ok [OF inv, of "snd ids"]
  have t0: "target \<noteq> 0" using target by (auto simp: texture_targets_def)
  have i1: "tm_inv ext ?m" and d1: "tm_deref ?r ?m = Some ?t" using h by (simp_all add: held_def)
  have "ti_target ?t = 0" by (simp add: new_TextureInfo_def)
  moreover have "0 < MaxLevelsForTarget ?m target" using i1 by (simp add: tm_inv_def max_levels_pos)
  moreover define t1 where "t1 = ti_SetTarget target (MaxLevelsForTarget ?m target) ?t"
  ultimately obtain m2 where m2: "SetInfoTarget ?r target ?m = Some m2" "tm_inv ext m2" "tm_changes ?r t1 ?m m2"
    using SetInfoTarget_ok [OF i1 d1 _ t0] by blast
  have t1: "ti_target t1 = target" "\<not> ti_has_manager t1" "ti_ref_count t1 = ti_ref_count ?t" "\<not> ti_deleted t1" "\<not> ti_stream_texture t1"
    by (simp_all add: t1_def ti_SetTarget_def Let_def new_TextureInfo_def)
  note h2 = held_changes [OF h m2(3,2) t1(3)]
  have d2: "tm_deref ?r m2 = Some t1" using h2 by (simp add: held_def)
  have set_one: "\<exists>t' m'. tm_SetLevelInfo ?r face 0 GL_RGBA 1 1 1 0 GL_RGBA GL_UNSIGNED_BYTE True m2 = Some m' \<and> tm_inv ext m' \<and>
      tm_changes ?r t' m2 m' \<and> ti_frame t1 t'" if "face \<noteq> 0" "GLTargetToFaceIndex face = 0" for face
    using SetLevelInfo_texel [OF m2(2) d2 _ that(1)] that t1(1) t0 by (auto simp: num_faces_def)
  obtain t' m' where m': "(if target = GL_TEXTURE_CUBE_MAP then default_faces ?r [0, 1, 2, 3, 4, 5] m2
      else if target \<noteq> GL_TEXTURE_EXTERNAL_OES then tm_SetLevelInfo ?r GL_TEXTURE_2D 0 GL_RGBA 1 1 1 0 GL_RGBA GL_UNSIGNED_BYTE True m2
      else tm_SetLevelInfo ?r GL_TEXTURE_EXTERNAL_OES 0 GL_RGBA 1 1 1 0 GL_RGBA GL_UNSIGNED_BYTE True m2) = Some m'"
      "tm_inv ext m'" "tm_changes ?r t' m2 m'" "ti_frame t1 t'"
  proof (cases "target = GL_TEXTURE_CUBE_MAP")
    case True
    with default_faces_ok [OF m2(2) d2, of "[0, 1, 2, 3, 4, 5]"] t1(1) that show ?thesis by auto
  next
    case False
    then have "(if target = GL_TEXTURE_CUBE_MAP then a else b) = b" for a b :: "TextureManager option" by simp
    with set_one [of GL_TEXTURE_2D] set_one [of GL_TEXTURE_EXTERNAL_OES] that show ?thesis
      by (cases "target = GL_TEXTURE_EXTERNAL_OES") (fastforce simp: GLTargetToFaceIndex_def)+
  qed
  have "ti_ref_count t' = ti_ref_count t1" using m'(4) by (simp add: ti_frame_def)
  note h3 = held_changes [OF h2 m'(3,2) this]
  obtain m1 where mk: "make_TextureInfo False (snd ids) (m\<lparr>tm_num_unrenderable_textures := tm_num_unrenderable_textures m + 1\<rparr>) = (?r, m1)"
    and m1: "?m = m1" by (simp add: make_TextureInfo_def)
  have "CreateDefaultAndBlackTextures ids target m = Some (?r, fst ids, m')"
    using m'(1) m2(1) [unfolded m1] unfolding CreateDefaultAndBlackTextures_def Let_def mk prod.case by simp
  with h3 t1 m'(4) show ?thesis by (intro exI [of _ ?r] exI [of _ t'] exI [of _ m']) (simp add: ti_frame_def)
qed

lemma count_list_update:
  "i < length xs \<Longrightarrow> count_list (xs[i := y]) a + (if xs ! i = a then 1 else 0) = count_list xs a + (if y = a then 1 else 0)"
proof (induction xs arbitrary: i)
  case (Cons x xs)
  show ?case
  proof (cases i)
    case (Suc j)
    with Cons.IH [of j] Cons.prems show ?thesis by (cases "x = a") simp_all
  qed simp
qed simp

fun default_target :: "DefaultAndBlackTextures \<Rightarrow> u32" where
  "default_target kTexture2D = GL_TEXTURE_2D"
| "default_target kCubeMap = GL_TEXTURE_CUBE_MAP"
| "default_target kExternalOES = GL_TEXTURE_EXTERNAL_OES"
| "default_target kRectangleARB = GL_TEXTURE_RECTANGLE_ARB"

text \<open>A default texture that is there is of its target.\<close>

definition default_ok :: "TextureManager \<Rightarrow> DefaultAndBlackTextures \<Rightarrow> bool" where
  "default_ok m k \<longleftrightarrow> (case tm_default_textures m ! default_index k of
     None \<Rightarrow> True
   | Some r \<Rightarrow> (case tm_deref r m of None \<Rightarrow> False | Some t \<Rightarrow> ti_target t = default_target k \<and> \<not> ti_stream_texture t))"

lemma default_index_less: "default_index k < 4"
  by (cases k) simp_all

lemma default_index_inject: "default_index k = default_index k' \<longleftrightarrow> k = k'"
  by (cases k; cases k') simp_all

lemma default_target_in: "default_target k \<in> set texture_targets"
  by (cases k) (simp_all add: texture_targets_def)

lemma own_default_live:
  assumes inv: "tm_inv ext m" and "tm_default_textures m ! default_index k = Some r"
  shows "\<exists>t. tm_deref r m = Some t" and "r < length (tm_heap m)"
proof -
  have "length (tm_default_textures m) = 4" using inv by (simp add: tm_inv_def)
  then have "Some r \<in> set (tm_default_textures m)" using assms(2) default_index_less [of k] by (metis nth_mem)
  then have "0 < own_refs ext m r" by (metis add_is_0 count_list_0_iff own_refs_def not_gr_zero)
  from tm_inv_live [OF inv this] show "\<exists>t. tm_deref r m = Some t" .
  then show "r < length (tm_heap m)" by (auto elim: tm_derefE)
qed

definition only_defaults :: "TextureManager \<Rightarrow> bool" where
  "only_defaults m \<longleftrightarrow> (\<forall>r. tm_deref r m \<noteq> None \<longrightarrow> Some r \<in> set (tm_default_textures m))"

lemma only_defaults_update:
  assumes "only_defaults m" and "xs ! i = None" and "i < length xs" and "tm_default_textures m = xs" and "tm_default_textures m' = xs[i := Some r]"
    and "\<And>a. a \<noteq> r \<Longrightarrow> tm_deref a m' = tm_deref a m"
  shows "only_defaults m'"
proof -
  have "Some a \<in> set (xs[i := Some r])" if a: "a \<noteq> r" "Some a \<in> set xs" for a
  proof -
    from a(2) obtain j where "j < length xs" "xs ! j = Some a" by (auto simp: in_set_conv_nth)
    moreover from this assms(2) have "i \<noteq> j" by auto
    ultimately show ?thesis by (auto simp: in_set_conv_nth intro!: exI [of _ j])
  qed
  moreover have "Some r \<in> set (xs[i := Some r])" using assms(3) by (simp add: set_update_memI)
  ultimately show ?thesis using assms unfolding only_defaults_def by metis
qed

lemma set_default_ok:
  assumes inv: "tm_inv ext m" and none: "tm_default_textures m ! default_index k = None" and ok: "\<And>k. default_ok m k"
  shows "\<exists>r m'. set_default ids k (default_target k) m = Some m' \<and> tm_inv ext m' \<and> tm_same_config m m' \<and>
    tm_default_textures m' = (tm_default_textures m)[default_index k := Some r] \<and> tm_texture_infos m' = tm_texture_infos m \<and> (\<forall>k. default_ok m' k) \<and>
    (only_defaults m \<longrightarrow> only_defaults m')"
proof -
  from CreateDefault_ok [OF inv default_target_in [of k], of "ids k"] obtain r t m1 where
    m1: "CreateDefaultAndBlackTextures (ids k) (default_target k) m = Some (r, fst (ids k), m1)" "held ext r t m m1"
    "ti_target t = default_target k" "\<not> ti_has_manager t" "\<not> ti_stream_texture t" by blast
  let ?i = "default_index k"
  let ?m = "m1\<lparr>tm_default_textures := (tm_default_textures m1)[?i := Some r],
      tm_black_texture_ids := (tm_black_texture_ids m1)[?i := fst (ids k)]\<rparr>"
  from m1(2) have h: "tm_inv ext m1" "own_refs ext m1 r = 0" "\<not> in_table m1 r" "tm_deref r m1 = Some t" "ti_ref_count t = 1"
    "tm_same_config m m1" "tm_texture_infos m1 = tm_texture_infos m" "tm_default_textures m1 = tm_default_textures m"
    "\<And>a. a \<noteq> r \<Longrightarrow> tm_deref a m1 = tm_deref a m" "r = length (tm_heap m)" unfolding held_def by blast+
  have len: "length (tm_default_textures m1) = 4" using h(1) by (simp add: tm_inv_def)
  have refs: "own_refs ext ?m a = own_refs ext m1 a + (if a = r then 1 else 0)" for a
    using count_list_update [of ?i "tm_default_textures m1" "Some r" "Some a"] default_index_less [of k] len none h(8) by (simp add: own_refs_def)
  have d: "tm_deref a ?m = tm_deref a m1" "in_table ?m a = in_table m1 a" for a by (simp_all add: tm_deref_def in_table_def)
  have c: "tm_same_config m1 ?m" by (simp add: tm_same_config_def)
  have "tref_ok (MaxLevelsForTarget m1) (tm_deref a ?m) (own_refs ext ?m a) (in_table ?m a)" for a
    using h(1-5) unfolding d refs by (cases "a = r") (auto simp: tm_inv_def dest: spec [of _ a])
  moreover have "tm_counts ?m" using h(1) by (simp add: tm_inv_def tm_counts_def)
  ultimately have "tm_inv ext ?m" using h(1) len unfolding tm_inv_def tm_same_config_simps [OF c] by simp
  moreover have "default_ok ?m k'" for k'
  proof (cases "k' = k")
    case True
    then show ?thesis using default_index_less [of k] len h(4) m1(3,5) by (simp add: default_ok_def d)
  next
    case False
    then have "tm_default_textures ?m ! default_index k' = tm_default_textures m ! default_index k'" using h(8) by (simp add: default_index_inject)
    moreover have "a \<noteq> r" if "tm_default_textures m ! default_index k' = Some a" for a using own_default_live(2) [OF inv that] h(10) by simp
    ultimately show ?thesis using ok [of k'] h(9) by (auto simp: default_ok_def d split: option.splits)
  qed
  moreover have "set_default ids k (default_target k) m = Some ?m" using m1(1) none h(8) by (simp add: set_default_def Let_def)
  moreover have "only_defaults ?m" if "only_defaults m"
  proof (rule only_defaults_update [OF that none _ refl, of ?m r])
    show "tm_deref a ?m = tm_deref a m" if "a \<noteq> r" for a using d(1) h(9) [OF that] by simp
  qed (use h(8) len default_index_less [of k] in simp_all)
  ultimately show ?thesis using h tm_same_config_trans [OF h(6) c] by (intro exI [of _ r] exI [of _ ?m]) simp
qed

text \<open>After \<^verbatim>\<open>Initialize\<close> every target that the context supports has its default texture.\<close>

lemma Initialize_ok:
  assumes inv: "tm_inv ext m" and none: "tm_default_textures m = [None, None, None, None]"
  shows "\<exists>m'. tm_Initialize ids m = Some m' \<and> tm_inv ext m' \<and> tm_same_config m m' \<and> tm_texture_infos m' = tm_texture_infos m \<and>
    (\<forall>k. default_ok m' k) \<and> tm_default_textures m' ! 0 \<noteq> None \<and> tm_default_textures m' ! 1 \<noteq> None \<and>
    (oes_egl_image_external (tm_feature_flags m) \<longrightarrow> tm_default_textures m' ! 2 \<noteq> None) \<and>
    (arb_texture_rectangle (tm_feature_flags m) \<longrightarrow> tm_default_textures m' ! 3 \<noteq> None) \<and>
    (only_defaults m \<longrightarrow> only_defaults m')"
proof -
  let ?m = "tm_UpdateMemRepresented m"
  have i0: "tm_inv ext ?m" by (rule tm_inv_cong [OF inv]) (simp_all add: adders tm_same_config_def)
  have k0: "default_ok ?m k" for k by (cases k) (simp_all add: default_ok_def none adders)
  have o0: "only_defaults ?m = only_defaults m" by (simp add: only_defaults_def adders tm_deref_def)
  have c0: "tm_same_config m ?m" by (simp add: tm_same_config_def adders)
  from set_default_ok [OF i0 _ k0, of kTexture2D ids] none obtain r1 m1 where
    m1: "set_default ids kTexture2D GL_TEXTURE_2D ?m = Some m1" "tm_inv ext m1" "tm_same_config ?m m1"
      "tm_default_textures m1 = [Some r1, None, None, None]" "tm_texture_infos m1 = tm_texture_infos m" "\<And>k. default_ok m1 k" "only_defaults m \<longrightarrow> only_defaults m1" by (auto simp: adders o0 [simplified adders])
  from set_default_ok [OF m1(2) _ m1(6), of kCubeMap ids] m1(4,5) obtain r2 m2 where
    m2: "set_default ids kCubeMap GL_TEXTURE_CUBE_MAP m1 = Some m2" "tm_inv ext m2" "tm_same_config m1 m2"
      "tm_default_textures m2 = [Some r1, Some r2, None, None]" "tm_texture_infos m2 = tm_texture_infos m" "\<And>k. default_ok m2 k" "only_defaults m1 \<longrightarrow> only_defaults m2" by auto
  have flags: "tm_feature_flags m2 = tm_feature_flags m" using c0 m1(3) m2(3) by (simp add: tm_same_config_def)
  obtain x3 m3 where m3: "(if oes_egl_image_external (tm_feature_flags m2) then set_default ids kExternalOES GL_TEXTURE_EXTERNAL_OES m2 else Some m2) = Some m3"
      "tm_inv ext m3" "tm_same_config m2 m3" "tm_default_textures m3 = [Some r1, Some r2, x3, None]" "tm_texture_infos m3 = tm_texture_infos m"
      "\<And>k. default_ok m3 k" "oes_egl_image_external (tm_feature_flags m) \<longrightarrow> x3 \<noteq> None" "only_defaults m2 \<longrightarrow> only_defaults m3"
    using set_default_ok [OF m2(2) _ m2(6), of kExternalOES ids] m2 flags tm_same_config_refl
    by (cases "oes_egl_image_external (tm_feature_flags m)") auto
  have flags3: "tm_feature_flags m3 = tm_feature_flags m" using m3(3) flags by (simp add: tm_same_config_def)
  obtain x4 m4 where m4: "(if arb_texture_rectangle (tm_feature_flags m3) then set_default ids kRectangleARB GL_TEXTURE_RECTANGLE_ARB m3 else Some m3) = Some m4"
      "tm_inv ext m4" "tm_same_config m3 m4" "tm_default_textures m4 = [Some r1, Some r2, x3, x4]" "tm_texture_infos m4 = tm_texture_infos m"
      "\<And>k. default_ok m4 k" "arb_texture_rectangle (tm_feature_flags m) \<longrightarrow> x4 \<noteq> None" "only_defaults m3 \<longrightarrow> only_defaults m4"
    using set_default_ok [OF m3(2) _ m3(6), of kRectangleARB ids] m3 flags3 tm_same_config_refl
    by (cases "arb_texture_rectangle (tm_feature_flags m)") auto
  have "tm_same_config m m4" using c0 m1(3) m2(3) m3(3) m4(3) by (simp add: tm_same_config_def)
  with m1 m2 m3 m4 show ?thesis by (intro exI [of _ m4]) (simp add: tm_Initialize_def)
qed

subsection \<open>Deleting many textures\<close>

lemma table_live:
  assumes inv: "tm_inv ext m" and r: "in_table m r"
  shows "\<exists>t. tm_deref r m = Some t \<and> ti_has_manager t"
proof -
  have "count_list (map snd (tm_texture_infos m)) r \<noteq> 0" using r by (simp add: in_table_def count_list_0_iff)
  then have "0 < own_refs ext m r" by (simp add: own_refs_def)
  from tm_inv_live [OF inv this] tm_invD(4) [OF inv _ r] show ?thesis by blast
qed

lemma gl_delete_ok:
  assumes inv: "tm_inv ext m" and t: "tm_deref r m = Some t"
  shows "tm_inv ext (gl_delete r t m)" and "tm_changes r (ti_MarkAsDeleted t) m (gl_delete r t m)"
proof -
  show "tm_changes r (ti_MarkAsDeleted t) m (gl_delete r t m)"
    using MarkAsDeleted_ok(2) [OF inv t] by (simp add: gl_delete_def tm_changes_def tm_same_config_def)
  show "tm_inv ext (gl_delete r t m)"
    by (rule tm_inv_cong [OF MarkAsDeleted_ok(1) [OF inv t]]) (simp_all add: gl_delete_def tm_same_config_def)
qed

lemma stream_loop_ok:
  "tm_inv ext m \<Longrightarrow> \<forall>x \<in> set xs. in_table m (snd x) \<Longrightarrow>
   \<exists>m'. stream_loop xs m = Some m' \<and> tm_inv ext m' \<and> tm_texture_infos m' = tm_texture_infos m"
proof (induction xs arbitrary: m)
  case (Cons x xs)
  obtain c r where x: "x = (c, r)" by fastforce
  from table_live [OF Cons.prems(1), of r] Cons.prems(2) x obtain t where t: "tm_deref r m = Some t" by auto
  let ?m = "if \<not> ti_deleted t \<and> ti_stream_texture t then gl_delete r t m else m"
  have i: "tm_inv ext ?m" and tab: "tm_texture_infos ?m = tm_texture_infos m"
    using gl_delete_ok [OF Cons.prems(1) t] Cons.prems(1) by (auto simp: tm_changes_def)
  from tab have "in_table ?m a = in_table m a" for a by (simp add: in_table_def)
  with Cons.IH [OF i] Cons.prems(2) tab x t show ?case by simp
qed simp

lemma DeleteAllStreamTextures_ok:
  assumes "tm_inv ext m"
  shows "\<exists>m'. DeleteAllStreamTextures m = Some m' \<and> tm_inv ext m' \<and> tm_texture_infos m' = tm_texture_infos m"
  using stream_loop_ok [OF assms, of "tm_texture_infos m"] by (simp add: DeleteAllStreamTextures_def in_table_def)

lemma deref_table: "tm_deref r (m\<lparr>tm_texture_infos := xs\<rparr>) = tm_deref r m"
  by (simp add: tm_deref_def)

lemma clear_infos_ok:
  "tm_inv ext m \<Longrightarrow> tm_texture_infos m = xs \<Longrightarrow>
   \<exists>m'. tm_clear_infos b xs m = Some m' \<and> tm_inv ext m' \<and> tm_texture_infos m' = [] \<and> tm_default_textures m' = tm_default_textures m"
proof (induction xs arbitrary: m)
  case Nil
  have "tm_inv ext (m\<lparr>tm_texture_infos := []\<rparr>)" by (rule tm_inv_cong [OF Nil.prems(1)]) (use Nil.prems in \<open>simp_all add: tm_same_config_def\<close>)
  then show ?case by simp
next
  case (Cons x xs)
  obtain c r where x: "x = (c, r)" by fastforce
  have "in_table m r" using Cons.prems(2) x by (simp add: in_table_def)
  from table_live [OF Cons.prems(1) this] obtain t where t: "tm_deref r m = Some t" "ti_has_manager t" by blast
  let ?del = "b \<and> \<not> ti_deleted t \<and> ti_owned t"
  let ?m1 = "if ?del then gl_delete r t m else m" and ?t = "if ?del then ti_MarkAsDeleted t else t"
  let ?m2 = "?m1\<lparr>tm_texture_infos := xs\<rparr>"
  have i1: "tm_inv ext ?m1" and c1: "tm_changes r ?t m ?m1"
    using gl_delete_ok [OF Cons.prems(1) t(1)] Cons.prems(1) tm_changes_refl [OF t(1)] by auto
  have refs: "own_refs ext ?m1 a = own_refs ext ?m2 a + (if a = r then 1 else 0)" for a
    using c1 Cons.prems(2) x by (auto simp: own_refs_def tm_changes_def)
  have i2: "tm_inv ext ?m2"
  proof (rule tm_inv_fewer [OF i1])
    show "distinct (map fst (tm_texture_infos ?m2))" "length (tm_default_textures ?m2) = 4" "tm_counts ?m2"
      using i1 c1 Cons.prems by (simp_all add: tm_inv_def tm_counts_def)
    show "in_table ?m1 a" if "in_table ?m2 a" for a using that c1 Cons.prems(2) by (auto simp: in_table_def tm_changes_def)
    show "own_refs ext ?m2 a \<le> own_refs ext ?m1 a" for a using refs [of a] by simp
  qed (simp_all add: tm_same_config_def)
  have t1: "tm_deref r ?m1 = Some ?t" using tm_changes_deref [OF c1 t(1), of r] by simp
  then have t2: "tm_deref r ?m2 = Some ?t" by (simp only: deref_table)
  from tm_invD(1) [OF i1 t1] refs [of r] have more: "own_refs ext ?m2 r < ti_ref_count ?t" by simp
  have "ti_has_manager ?t" using t(2) by (simp add: ti_MarkAsDeleted_def)
  with Release_ok [OF i2 t2 more] obtain m' where m': "tm_Release r ?m2 = Some m'" "tm_inv ext m'" "tm_texture_infos m' = xs"
    "tm_default_textures m' = tm_default_textures ?m1" by auto
  from Cons.IH [OF m'(2,3)] m' t(1) c1 show ?case by (auto simp: x tm_changes_def)
qed

lemma default_ids_ok:
  "\<forall>i \<in> set is. i < 4 \<Longrightarrow> (\<And>i r. i < 4 \<Longrightarrow> tm_default_textures m ! i = Some r \<Longrightarrow> \<exists>t. tm_deref r m = Some t) \<Longrightarrow>
   \<exists>ids m'. default_ids is m = Some (ids, m') \<and> tm_texture_infos m' = tm_texture_infos m"
proof (induction "is" arbitrary: m)
  case (Cons i "is")
  show ?case
  proof (cases "tm_default_textures m ! i")
    case None
    from Cons.IH [of m] Cons.prems obtain ids m' where "default_ids is m = Some (ids, m')" "tm_texture_infos m' = tm_texture_infos m" by auto
    with None show ?thesis by simp
  next
    case (Some r)
    with Cons.prems obtain t where t: "tm_deref r m = Some t" by fastforce
    have "tm_deref a (sub_mem t m) = tm_deref a m" for a by (simp add: tm_deref_def adders)
    with Cons.IH [of "sub_mem t m"] Cons.prems obtain ids m' where "default_ids is (sub_mem t m) = Some (ids, m')" "tm_texture_infos m' = tm_texture_infos m"
      by (auto simp: adders)
    with Some t show ?thesis by simp
  qed
qed simp

lemma Destroy_ok:
  assumes inv: "tm_inv ext m"
  shows "\<exists>m'. tm_Destroy b m = Some m' \<and> tm_texture_infos m' = []"
proof -
  from clear_infos_ok [OF inv refl, of b] obtain m1 where
    m1: "tm_clear_infos b (tm_texture_infos m) m = Some m1" "tm_inv ext m1" "tm_texture_infos m1 = []" by blast
  have live: "\<exists>t. tm_deref r m1 = Some t" if "i < 4" "tm_default_textures m1 ! i = Some r" for i r
  proof -
    have "\<exists>k. default_index k = i"
      using that(1) by (auto simp: less_Suc_eq numeral_eq_Suc intro: exI [of _ kTexture2D] exI [of _ kCubeMap] exI [of _ kExternalOES] exI [of _ kRectangleARB])
    with own_default_live(1) [OF m1(2)] that(2) show ?thesis by blast
  qed
  have "\<forall>i \<in> set [0, 1, 2, 3 :: nat]. i < 4" by simp
  from default_ids_ok [OF this, of m1] live obtain ids m2 where
    "default_ids [0, 1, 2, 3] m1 = Some (ids, m2)" "tm_texture_infos m2 = []" unfolding m1(3) by blast
  with m1(1) show ?thesis by (simp add: tm_Destroy_def adders del: default_ids.simps)
qed

end
