(* ===== verification/Texture_Decoder.thy ===== *)
theory Texture_Decoder
  imports Texture_Manager Vertex_Decoder Cmd_Common
begin

text \<open>
  The handlers of \<^verbatim>\<open>GLES2DecoderImpl\<close> (\<^verbatim>\<open>gpu/command_buffer/service/gles2_cmd_decoder.cc\<close>) for textures, and what a draw call does about
  textures that can not be rendered or have not been cleared. The state adds the members that these handlers use to
  those of \<^verbatim>\<open>Vertex_Decoder\<close>; calls to GL, the errors of the driver and the ids it makes up are modelled as there.
  No framebuffer object is bound, so that the branches for bound framebuffers are not taken. Stream textures of the platform are outside.
\<close>

subsection \<open>State\<close>

record TextureUnit =
  tu_bind_target :: u32
  tu_bound_texture_2d :: "tex_ref option"
  tu_bound_texture_cube_map :: "tex_ref option"
  tu_bound_texture_external_oes :: "tex_ref option"
  tu_bound_texture_rectangle_arb :: "tex_ref option"

definition new_TextureUnit :: TextureUnit where
  "new_TextureUnit =
     \<lparr>tu_bind_target = GL_TEXTURE_2D, tu_bound_texture_2d = None, tu_bound_texture_cube_map = None,
      tu_bound_texture_external_oes = None, tu_bound_texture_rectangle_arb = None\<rparr>"

definition GetInfoForSamplerType :: "u32 \<Rightarrow> TextureUnit \<Rightarrow> tex_ref option" where
  "GetInfoForSamplerType type u =
     (if type = GL_SAMPLER_2D then tu_bound_texture_2d u
      else if type = GL_SAMPLER_CUBE then tu_bound_texture_cube_map u
      else if type = GL_SAMPLER_EXTERNAL_OES then tu_bound_texture_external_oes u
      else if type = GL_SAMPLER_2D_RECT_ARB then tu_bound_texture_rectangle_arb u
      else None)"

text \<open>
  \<open>xd_samplers\<close> has the type and the texture units of each sampler of the program in use. The lists at the end
  are the validators that \<^verbatim>\<open>FeatureInfo\<close> extends.
\<close>

record TextureDecoder =
  xd_vertex :: VertexDecoder
  xd_textures :: TextureManager
  xd_texture_units :: "TextureUnit list"
  xd_active_texture_unit :: u32
  xd_samplers :: "(u32 \<times> u32 list) list"
  xd_texture_ids :: IdAllocator
  xd_pack_alignment :: int
  xd_unpack_alignment :: int
  xd_teximage2d_faster_than_texsubimage2d :: bool
  xd_tex_image_2d_failed :: bool
  xd_surface_is_offscreen :: bool
  xd_state_dirty :: bool
  xd_framebuffer_state_change_count :: u32
  xd_texture_bind_target :: "u32 list"
  xd_texture_format :: "u32 list"
  xd_pixel_type :: "u32 list"
  xd_compressed_texture_format :: "u32 list"
  xd_texture_parameter :: "u32 list"
  xd_texture_internal_format_storage :: "u32 list"
  xd_pixel_store :: "u32 list"

definition valid_texture_target_table :: "u32 list" where
  "valid_texture_target_table =
     [GL_TEXTURE_2D, GL_TEXTURE_CUBE_MAP_POSITIVE_X, GL_TEXTURE_CUBE_MAP_NEGATIVE_X, GL_TEXTURE_CUBE_MAP_POSITIVE_Y,
      GL_TEXTURE_CUBE_MAP_NEGATIVE_Y, GL_TEXTURE_CUBE_MAP_POSITIVE_Z, GL_TEXTURE_CUBE_MAP_NEGATIVE_Z]"

definition valid_pixel_store_alignment_table :: "int list" where
  "valid_pixel_store_alignment_table = [1, 2, 4, 8]"

definition xgl :: "(gl_call list \<Rightarrow> u32 list) \<Rightarrow> gl_call \<Rightarrow> TextureDecoder \<Rightarrow> TextureDecoder" where
  "xgl raises c d = d\<lparr>xd_vertex := gl raises c (xd_vertex d)\<rparr>"

definition xerr :: "u32 \<Rightarrow> TextureDecoder \<Rightarrow> TextureDecoder" where
  "xerr e d = d\<lparr>xd_vertex := SetGLError e (xd_vertex d)\<rparr>"

subsection \<open>References to textures\<close>

text \<open>Assignment to a \<^verbatim>\<open>scoped_refptr\<close>.\<close>

definition tex_assign :: "tex_ref option \<Rightarrow> tex_ref option \<Rightarrow> TextureManager \<Rightarrow> TextureManager option" where
  "tex_assign old new m = do {
     m1 \<leftarrow> (case new of None \<Rightarrow> Some m | Some r \<Rightarrow> tm_AddRef r m);
     (case old of None \<Rightarrow> Some m1 | Some r \<Rightarrow> tm_Release r m1)
   }"

text \<open>The four members of a unit, by the kind of texture.\<close>

fun tu_slot :: "DefaultAndBlackTextures \<Rightarrow> TextureUnit \<Rightarrow> tex_ref option" where
  "tu_slot kTexture2D u = tu_bound_texture_2d u"
| "tu_slot kCubeMap u = tu_bound_texture_cube_map u"
| "tu_slot kExternalOES u = tu_bound_texture_external_oes u"
| "tu_slot kRectangleARB u = tu_bound_texture_rectangle_arb u"

fun tu_set :: "DefaultAndBlackTextures \<Rightarrow> tex_ref option \<Rightarrow> TextureUnit \<Rightarrow> TextureUnit" where
  "tu_set kTexture2D x u = u\<lparr>tu_bound_texture_2d := x\<rparr>"
| "tu_set kCubeMap x u = u\<lparr>tu_bound_texture_cube_map := x\<rparr>"
| "tu_set kExternalOES x u = u\<lparr>tu_bound_texture_external_oes := x\<rparr>"
| "tu_set kRectangleARB x u = u\<lparr>tu_bound_texture_rectangle_arb := x\<rparr>"

definition assign_slot :: "nat \<Rightarrow> DefaultAndBlackTextures \<Rightarrow> tex_ref option \<Rightarrow> TextureDecoder \<Rightarrow> TextureDecoder option" where
  "assign_slot i k new d =
     (if i < length (xd_texture_units d) then do {
        let u = xd_texture_units d ! i;
        m \<leftarrow> tex_assign (tu_slot k u) new (xd_textures d);
        Some (d\<lparr>xd_textures := m, xd_texture_units := (xd_texture_units d)[i := tu_set k new u]\<rparr>)
      }
      else None)"

definition unbind_slot :: "nat \<Rightarrow> DefaultAndBlackTextures \<Rightarrow> tex_ref \<Rightarrow> TextureDecoder \<Rightarrow> TextureDecoder option" where
  "unbind_slot i k r d =
     (if i < length (xd_texture_units d)
      then if tu_slot k (xd_texture_units d ! i) = Some r then assign_slot i k None d else Some d
      else None)"

text \<open>\<^verbatim>\<open>texture_units_[i].Unbind(texture)\<close>: out of range, it is \<^const>\<open>None\<close>.\<close>

definition tu_Unbind :: "nat \<Rightarrow> tex_ref \<Rightarrow> TextureDecoder \<Rightarrow> TextureDecoder option" where
  "tu_Unbind i r d = do {
     d1 \<leftarrow> unbind_slot i kTexture2D r d;
     d2 \<leftarrow> unbind_slot i kCubeMap r d1;
     unbind_slot i kExternalOES r d2
   }"

definition active_unit :: "TextureDecoder \<Rightarrow> TextureUnit option" where
  "active_unit d =
     (if unat (xd_active_texture_unit d) < length (xd_texture_units d)
      then Some (xd_texture_units d ! unat (xd_active_texture_unit d)) else None)"

definition GetTextureInfoForTarget :: "u32 \<Rightarrow> TextureDecoder \<Rightarrow> tex_ref option option" where
  "GetTextureInfoForTarget target d = do {
     u \<leftarrow> active_unit d;
     Some (if target = GL_TEXTURE_2D then tu_bound_texture_2d u
           else if target = GL_TEXTURE_CUBE_MAP \<or> target = GL_TEXTURE_CUBE_MAP_POSITIVE_X \<or> target = GL_TEXTURE_CUBE_MAP_NEGATIVE_X \<or>
                   target = GL_TEXTURE_CUBE_MAP_POSITIVE_Y \<or> target = GL_TEXTURE_CUBE_MAP_NEGATIVE_Y \<or>
                   target = GL_TEXTURE_CUBE_MAP_POSITIVE_Z \<or> target = GL_TEXTURE_CUBE_MAP_NEGATIVE_Z
           then tu_bound_texture_cube_map u
           else if target = GL_TEXTURE_EXTERNAL_OES then tu_bound_texture_external_oes u
           else if target = GL_TEXTURE_RECTANGLE_ARB then tu_bound_texture_rectangle_arb u
           else None)
   }"

definition GetBindTargetForSamplerType :: "u32 \<Rightarrow> u32" where
  "GetBindTargetForSamplerType type =
     (if type = GL_SAMPLER_2D then GL_TEXTURE_2D
      else if type = GL_SAMPLER_CUBE then GL_TEXTURE_CUBE_MAP
      else if type = GL_SAMPLER_EXTERNAL_OES then GL_TEXTURE_EXTERNAL_OES
      else if type = GL_SAMPLER_2D_RECT_ARB then GL_TEXTURE_RECTANGLE_ARB
      else 0)"

subsection \<open>Initialization\<close>

definition bind_default :: "(gl_call list \<Rightarrow> u32 list) \<Rightarrow> nat \<Rightarrow> DefaultAndBlackTextures \<Rightarrow> u32 \<Rightarrow> TextureDecoder \<Rightarrow> TextureDecoder option" where
  "bind_default raises tt k target d = do {
     let info = GetDefaultTextureInfo target (xd_textures d);
     d1 \<leftarrow> assign_slot tt k info d;
     r \<leftarrow> info;
     t \<leftarrow> tm_deref r (xd_textures d1);
     Some (xgl raises (GlBindTexture target (ti_service_id t)) d1)
   }"

fun init_units :: "(gl_call list \<Rightarrow> u32 list) \<Rightarrow> nat list \<Rightarrow> TextureDecoder \<Rightarrow> TextureDecoder option" where
  "init_units raises [] d = Some d"
| "init_units raises (tt # tts) d = do {
     let d0 = xgl raises (GlActiveTexture (GL_TEXTURE0 + of_nat tt)) d;
     d1 \<leftarrow> (if oes_egl_image_external (tm_feature_flags (xd_textures d0))
            then bind_default raises tt kExternalOES GL_TEXTURE_EXTERNAL_OES d0 else Some d0);
     d2 \<leftarrow> (if arb_texture_rectangle (tm_feature_flags (xd_textures d1))
            then bind_default raises tt kRectangleARB GL_TEXTURE_RECTANGLE_ARB d1 else Some d1);
     d3 \<leftarrow> bind_default raises tt kCubeMap GL_TEXTURE_CUBE_MAP d2;
     d4 \<leftarrow> bind_default raises tt kTexture2D GL_TEXTURE_2D d3;
     init_units raises tts d4
   }"

definition InitTextureUnits :: "(gl_call list \<Rightarrow> u32 list) \<Rightarrow> nat \<Rightarrow> TextureDecoder \<Rightarrow> TextureDecoder option" where
  "InitTextureUnits raises max_texture_units d = do {
     d1 \<leftarrow> init_units raises [0..<max_texture_units] (d\<lparr>xd_texture_units := replicate max_texture_units new_TextureUnit\<rparr>);
     Some (xgl raises (GlActiveTexture GL_TEXTURE0) d1)
   }"

subsection \<open>Making, deleting and binding textures\<close>

fun create_textures :: "(u32 \<times> u32) list \<Rightarrow> TextureManager \<Rightarrow> TextureManager option" where
  "create_textures [] m = Some m"
| "create_textures ((client_id, service_id) # rest) m = do {
     (_, m1) \<leftarrow> CreateTextureInfo client_id service_id m;
     create_textures rest m1
   }"

definition GenTexturesHelper ::
  "(gl_call list \<Rightarrow> u32 list) \<Rightarrow> (gl_call list \<Rightarrow> nat \<Rightarrow> u32) \<Rightarrow> u32 list \<Rightarrow> TextureDecoder \<Rightarrow> (bool \<times> TextureDecoder) option" where
  "GenTexturesHelper raises gen client_ids d =
     (if \<exists>c \<in> set client_ids. GetTextureInfo c (xd_textures d) \<noteq> None then Some (False, d)
      else let d1 = xgl raises (GlGenTextures (int (length client_ids))) d;
               service_ids = map (gen (vd_gl (xd_vertex d1))) [0..<length client_ids]
      in do {
        m \<leftarrow> create_textures (zip client_ids service_ids) (xd_textures d1);
        Some (True, d1\<lparr>xd_textures := m\<rparr>)
      })"

text \<open>The loop over \<^verbatim>\<open>jj\<close>, whose body uses the index \<^verbatim>\<open>ii\<close> of the outer loop.\<close>

fun unbind_units_loop :: "nat \<Rightarrow> nat \<Rightarrow> tex_ref \<Rightarrow> TextureDecoder \<Rightarrow> TextureDecoder option" where
  "unbind_units_loop 0 ii r d = Some d"
| "unbind_units_loop (Suc jj) ii r d = do {
     d1 \<leftarrow> tu_Unbind ii r d;
     unbind_units_loop jj ii r d1
   }"

definition delete_texture :: "(gl_call list \<Rightarrow> u32 list) \<Rightarrow> nat \<Rightarrow> u32 \<Rightarrow> tex_ref \<Rightarrow> TextureInfo \<Rightarrow> TextureDecoder \<Rightarrow> TextureDecoder option" where
  "delete_texture raises ii client_id r t d = do {
     let d0 = (if IsAttachedToFramebuffer t then d\<lparr>xd_state_dirty := True\<rparr> else d);
     d1 \<leftarrow> unbind_units_loop (length (xd_texture_units d0)) ii r d0;
     t1 \<leftarrow> tm_deref r (xd_textures d1);
     let d2 = xgl raises (GlDeleteTextures (ti_service_id t1)) d1;
     m \<leftarrow> RemoveTextureInfo client_id (xd_textures d2);
     Some (d2\<lparr>xd_textures := m\<rparr>)
   }"

fun delete_textures_loop :: "(gl_call list \<Rightarrow> u32 list) \<Rightarrow> nat \<Rightarrow> u32 list \<Rightarrow> TextureDecoder \<Rightarrow> TextureDecoder option" where
  "delete_textures_loop raises ii [] d = Some d"
| "delete_textures_loop raises ii (client_id # client_ids) d = do {
     d1 \<leftarrow> (case GetTextureInfo client_id (xd_textures d) of
              None \<Rightarrow> Some d
            | Some r \<Rightarrow> do {
                t \<leftarrow> tm_deref r (xd_textures d);
                if \<not> ti_deleted t then delete_texture raises ii client_id r t d else Some d
              });
     delete_textures_loop raises (Suc ii) client_ids d1
   }"

definition DeleteTexturesHelper :: "(gl_call list \<Rightarrow> u32 list) \<Rightarrow> u32 list \<Rightarrow> TextureDecoder \<Rightarrow> TextureDecoder option" where
  "DeleteTexturesHelper raises client_ids d = delete_textures_loop raises 0 client_ids d"

definition DoActiveTexture :: "(gl_call list \<Rightarrow> u32 list) \<Rightarrow> u32 \<Rightarrow> TextureDecoder \<Rightarrow> TextureDecoder" where
  "DoActiveTexture raises texture_unit d =
     (let texture_index = texture_unit - GL_TEXTURE0 in
      if unat texture_index \<ge> length (xd_texture_units d) then xerr GL_INVALID_ENUM d
      else xgl raises (GlActiveTexture texture_unit) (d\<lparr>xd_active_texture_unit := texture_index\<rparr>))"

text \<open>The info, \<^const>\<open>None\<close> inside for the return after an error; a null pointer, which the code would follow, is \<^const>\<open>None\<close> outside.\<close>

definition bind_texture_lookup ::
  "(gl_call list \<Rightarrow> u32 list) \<Rightarrow> (gl_call list \<Rightarrow> nat \<Rightarrow> u32) \<Rightarrow> u32 \<Rightarrow> u32 \<Rightarrow> TextureDecoder \<Rightarrow> (tex_ref option \<times> TextureDecoder) option" where
  "bind_texture_lookup raises gen target client_id d =
     (if client_id \<noteq> 0 then
        case GetTextureInfo client_id (xd_textures d) of
          Some r \<Rightarrow> Some (Some r, d)
        | None \<Rightarrow>
            if \<not> vd_bind_generates_resource (xd_vertex d) then Some (None, xerr GL_INVALID_VALUE d)
            else let d1 = xgl raises (GlGenTextures 1) d in do {
              (_, m) \<leftarrow> CreateTextureInfo client_id (gen (vd_gl (xd_vertex d1)) 0) (xd_textures d1);
              r \<leftarrow> GetTextureInfo client_id m;
              Some (Some r, d1\<lparr>xd_textures := m, xd_texture_ids := snd (MarkAsUsed client_id (xd_texture_ids d1))\<rparr>)
            }
      else do {
        r \<leftarrow> GetDefaultTextureInfo target (xd_textures d);
        Some (Some r, d)
      })"

definition set_bind_target :: "u32 \<Rightarrow> TextureDecoder \<Rightarrow> TextureDecoder option" where
  "set_bind_target target d = do {
     u \<leftarrow> active_unit d;
     Some (d\<lparr>xd_texture_units := (xd_texture_units d)[unat (xd_active_texture_unit d) := u\<lparr>tu_bind_target := target\<rparr>]\<rparr>)
   }"

definition bind_texture_info :: "(gl_call list \<Rightarrow> u32 list) \<Rightarrow> u32 \<Rightarrow> tex_ref \<Rightarrow> TextureDecoder \<Rightarrow> TextureDecoder option" where
  "bind_texture_info raises target r d = do {
     t \<leftarrow> tm_deref r (xd_textures d);
     d1 \<leftarrow> set_bind_target target (xgl raises (GlBindTexture target (ti_service_id t)) d);
     let i = unat (xd_active_texture_unit d1);
     (if target = GL_TEXTURE_2D then assign_slot i kTexture2D (Some r) d1
      else if target = GL_TEXTURE_CUBE_MAP then assign_slot i kCubeMap (Some r) d1
      else if target = GL_TEXTURE_EXTERNAL_OES then assign_slot i kExternalOES (Some r) d1
      else if target = GL_TEXTURE_RECTANGLE_ARB then assign_slot i kRectangleARB (Some r) d1
      else Some d1)
   }"

definition DoBindTexture ::
  "(gl_call list \<Rightarrow> u32 list) \<Rightarrow> (gl_call list \<Rightarrow> nat \<Rightarrow> u32) \<Rightarrow> u32 \<Rightarrow> u32 \<Rightarrow> TextureDecoder \<Rightarrow> TextureDecoder option" where
  "DoBindTexture raises gen target client_id d = do {
     (found, d1) \<leftarrow> bind_texture_lookup raises gen target client_id d;
     (case found of
        None \<Rightarrow> Some d1
      | Some r \<Rightarrow> do {
          t \<leftarrow> tm_deref r (xd_textures d1);
          if ti_target t \<noteq> 0 \<and> ti_target t \<noteq> target then Some (xerr GL_INVALID_OPERATION d1)
          else if ti_stream_texture t \<and> target \<noteq> GL_TEXTURE_EXTERNAL_OES then Some (xerr GL_INVALID_OPERATION d1)
          else do {
            m \<leftarrow> (if ti_target t = 0 then SetInfoTarget r target (xd_textures d1) else Some (xd_textures d1));
            bind_texture_info raises target r (d1\<lparr>xd_textures := m\<rparr>)
          }
        })
   }"

definition HandleBindTexture ::
  "(gl_call list \<Rightarrow> u32 list) \<Rightarrow> (gl_call list \<Rightarrow> nat \<Rightarrow> u32) \<Rightarrow> u32 \<Rightarrow> u32 \<Rightarrow> TextureDecoder \<Rightarrow> TextureDecoder option" where
  "HandleBindTexture raises gen target texture d =
     (if \<not> IsValid (xd_texture_bind_target d) target then Some (xerr GL_INVALID_ENUM d)
      else DoBindTexture raises gen target texture d)"

subsection \<open>Parameters and mipmaps\<close>

definition DoGenerateMipmap :: "(gl_call list \<Rightarrow> u32 list) \<Rightarrow> u32 \<Rightarrow> TextureDecoder \<Rightarrow> TextureDecoder option" where
  "DoGenerateMipmap raises target d = do {
     info \<leftarrow> GetTextureInfoForTarget target d;
     (case info of
        None \<Rightarrow> Some (xerr GL_INVALID_OPERATION d)
      | Some r \<Rightarrow> do {
          (ok, m) \<leftarrow> tm_MarkMipmapsGenerated r (xd_textures d);
          let d1 = d\<lparr>xd_textures := m\<rparr>;
          if \<not> ok then Some (xerr GL_INVALID_OPERATION d1)
          else do {
            t \<leftarrow> tm_deref r m;
            Some (xgl raises (GlTexParameteri target GL_TEXTURE_MIN_FILTER (sint (ti_min_filter t)))
              (xgl raises (GlGenerateMipmap target)
                (xgl raises (GlTexParameteri target GL_TEXTURE_MIN_FILTER GL_NEAREST_MIPMAP_NEAREST) d1)))
          }
        })
   }"

definition HandleGenerateMipmap :: "(gl_call list \<Rightarrow> u32 list) \<Rightarrow> u32 \<Rightarrow> TextureDecoder \<Rightarrow> TextureDecoder option" where
  "HandleGenerateMipmap raises target d =
     (if \<not> IsValid (xd_texture_bind_target d) target then Some (xerr GL_INVALID_ENUM d)
      else DoGenerateMipmap raises target d)"

definition DoTexParameteri :: "(gl_call list \<Rightarrow> u32 list) \<Rightarrow> u32 \<Rightarrow> u32 \<Rightarrow> int \<Rightarrow> TextureDecoder \<Rightarrow> TextureDecoder option" where
  "DoTexParameteri raises target pname param d = do {
     info \<leftarrow> GetTextureInfoForTarget target d;
     (case info of
        None \<Rightarrow> Some (xerr GL_INVALID_VALUE d)
      | Some r \<Rightarrow> do {
          (ok, m) \<leftarrow> tm_SetParameter r pname (uint32 param) (xd_textures d);
          let d1 = d\<lparr>xd_textures := m\<rparr>;
          if \<not> ok then Some (xerr GL_INVALID_ENUM d1)
          else Some (xgl raises (GlTexParameteri target pname param) d1)
        })
   }"

definition HandleTexParameteri :: "(gl_call list \<Rightarrow> u32 list) \<Rightarrow> u32 \<Rightarrow> u32 \<Rightarrow> int \<Rightarrow> TextureDecoder \<Rightarrow> TextureDecoder option" where
  "HandleTexParameteri raises target pname param d =
     (if \<not> IsValid (xd_texture_bind_target d) target then Some (xerr GL_INVALID_ENUM d)
      else if \<not> IsValid (xd_texture_parameter d) pname then Some (xerr GL_INVALID_ENUM d)
      else DoTexParameteri raises target pname param d)"

subsection \<open>Images\<close>

definition HandlePixelStorei :: "(gl_call list \<Rightarrow> u32 list) \<Rightarrow> u32 \<Rightarrow> u32 \<Rightarrow> TextureDecoder \<Rightarrow> TextureDecoder" where
  "HandlePixelStorei raises pname param d =
     (if \<not> IsValid (xd_pixel_store d) pname then xerr GL_INVALID_ENUM d
      else if (pname = GL_PACK_ALIGNMENT \<or> pname = GL_UNPACK_ALIGNMENT) \<and> \<not> IsValid valid_pixel_store_alignment_table (sint param)
      then xerr GL_INVALID_VALUE d
      else let d1 = xgl raises (GlPixelStorei pname param) d in
        if pname = GL_PACK_ALIGNMENT then d1\<lparr>xd_pack_alignment := sint param\<rparr>
        else if pname = GL_PACK_REVERSE_ROW_ORDER_ANGLE then d1
        else if pname = GL_UNPACK_ALIGNMENT then d1\<lparr>xd_unpack_alignment := sint param\<rparr>
        else d1)"

definition GetTexInternalFormat :: "bool \<Rightarrow> u32 \<Rightarrow> u32" where
  "GetTexInternalFormat egl internal_format =
     (if \<not> egl \<and> (internal_format = GL_BGRA_EXT \<or> internal_format = GL_BGRA8_EXT) then GL_RGBA8 else internal_format)"

definition WrappedTexImage2D ::
  "(gl_call list \<Rightarrow> u32 list) \<Rightarrow> bool \<Rightarrow> u32 \<Rightarrow> int \<Rightarrow> u32 \<Rightarrow> int \<Rightarrow> int \<Rightarrow> int \<Rightarrow> u32 \<Rightarrow> u32 \<Rightarrow> u8 list option \<Rightarrow> TextureDecoder \<Rightarrow> TextureDecoder" where
  "WrappedTexImage2D raises egl target level internal_format width height border format type pixels d =
     (let gl_internal_format =
        (if \<not> egl \<and> type = GL_FLOAT \<and> format = GL_RGBA then GL_RGBA32F_ARB
         else if \<not> egl \<and> type = GL_FLOAT \<and> format = GL_RGB then GL_RGB32F_ARB
         else if \<not> egl \<and> type = GL_HALF_FLOAT_OES \<and> format = GL_RGBA then GL_RGBA16F_ARB
         else if \<not> egl \<and> type = GL_HALF_FLOAT_OES \<and> format = GL_RGB then GL_RGB16F_ARB
         else GetTexInternalFormat egl internal_format)
      in xgl raises (GlTexImage2D target level gl_internal_format width height border format type pixels) d)"

text \<open>
  \<^verbatim>\<open>GLES2DecoderImpl::ClearLevel\<close>, called for the level \<open>l\<close> of \<open>t\<close>: it fills the level with zeros, or fails when the size of the image
  does not fit into 32 bits. It changes only what GL has been called with, the part \<open>v\<close> of the decoder.
\<close>

definition xd_ClearLevel :: "(gl_call list \<Rightarrow> u32 list) \<Rightarrow> bool \<Rightarrow> TextureDecoder \<Rightarrow> VertexDecoder clear_fn" where
  "xd_ClearLevel raises egl d t l v = do {
     (ok, sz) \<leftarrow> ComputeImageDataSize (li_width l) (li_height l) (sint (li_format l)) (sint (li_type l)) (xd_unpack_alignment d);
     if \<not> ok then Some (False, v)
     else do {
       pixels_size \<leftarrow> sz;
       let zero = replicate (unat pixels_size) 0;
       let d1 = xgl raises (GlBindTexture (ti_target t) (ti_service_id t)) (d\<lparr>xd_vertex := v\<rparr>);
       let d2 = (if ti_immutable t
                 then xgl raises (GlTexSubImage2D (li_target l) (li_level l) 0 0 (li_width l) (li_height l) (li_format l) (li_type l) (Some zero)) d1
                 else WrappedTexImage2D raises egl (li_target l) (li_level l) (li_format l) (li_width l) (li_height l) 0
                        (li_format l) (li_type l) (Some zero) d1);
       info \<leftarrow> GetTextureInfoForTarget (ti_target t) d2;
       service_id \<leftarrow> (case info of None \<Rightarrow> Some 0 | Some r \<Rightarrow> map_option ti_service_id (tm_deref r (xd_textures d2)));
       Some (True, xd_vertex (xgl raises (GlBindTexture (ti_target t) service_id) d2))
     }
   }"

definition touch_framebuffers :: "TextureInfo \<Rightarrow> TextureDecoder \<Rightarrow> TextureDecoder" where
  "touch_framebuffers t d =
     (if IsAttachedToFramebuffer t
      then d\<lparr>xd_state_dirty := True, xd_framebuffer_state_change_count := xd_framebuffer_state_change_count d + 1\<rparr>
      else d)"

definition xd_CopyRealGLErrorsToWrapper :: "TextureDecoder \<Rightarrow> TextureDecoder" where
  "xd_CopyRealGLErrorsToWrapper d = d\<lparr>xd_vertex := CopyRealGLErrorsToWrapper (xd_vertex d)\<rparr>"

definition xd_PeekGLError :: "TextureDecoder \<Rightarrow> u32 \<times> TextureDecoder" where
  "xd_PeekGLError d = (let (err, v) = PeekGLError (xd_vertex d) in (err, d\<lparr>xd_vertex := v\<rparr>))"

definition DoCompressedTexImage2D ::
  "(gl_call list \<Rightarrow> u32 list) \<Rightarrow> u32 \<Rightarrow> int \<Rightarrow> u32 \<Rightarrow> int \<Rightarrow> int \<Rightarrow> int \<Rightarrow> int \<Rightarrow> u8 list option \<Rightarrow> TextureDecoder \<Rightarrow> TextureDecoder option" where
  "DoCompressedTexImage2D raises target level internal_format width height border imageSize data d =
     (if \<not> IsValid valid_texture_target_table target then Some (xerr GL_INVALID_ENUM d)
      else if \<not> IsValid (xd_compressed_texture_format d) internal_format then Some (xerr GL_INVALID_ENUM d)
      else if \<not> ValidForTarget target level width height 1 (xd_textures d) \<or> border \<noteq> 0 then Some (xerr GL_INVALID_VALUE d)
      else do {
        info \<leftarrow> GetTextureInfoForTarget target d;
        (case info of
           None \<Rightarrow> Some (xerr GL_INVALID_VALUE d)
         | Some r \<Rightarrow> do {
             t \<leftarrow> tm_deref r (xd_textures d);
             if ti_immutable t then Some (xerr GL_INVALID_OPERATION d)
             else do {
               let bytes = (case data of None \<Rightarrow> replicate (nat imageSize) 0 | Some bs \<Rightarrow> bs);
               let d1 = xgl raises (GlCompressedTexImage2D target level internal_format width height border imageSize bytes)
                          (xd_CopyRealGLErrorsToWrapper (touch_framebuffers t d));
               let (err, d2) = xd_PeekGLError d1;
               if err = GL_NO_ERROR then do {
                 m \<leftarrow> tm_SetLevelInfo r target level internal_format width height 1 border 0 0 True (xd_textures d2);
                 Some (d2\<lparr>xd_textures := m\<rparr>)
               }
               else Some d2
             }
           })
      })"

definition level_is_same :: "u32 \<Rightarrow> int \<Rightarrow> int \<Rightarrow> int \<Rightarrow> u32 \<Rightarrow> u32 \<Rightarrow> TextureInfo \<Rightarrow> bool" where
  "level_is_same target level width height format type t \<longleftrightarrow>
     GetLevelSize (sint target) level t = Some (width, height) \<and> GetLevelType (sint target) level t = Some (type, format)"

definition set_level_info :: "tex_ref \<Rightarrow> u32 \<Rightarrow> int \<Rightarrow> u32 \<Rightarrow> int \<Rightarrow> int \<Rightarrow> int \<Rightarrow> u32 \<Rightarrow> u32 \<Rightarrow> bool \<Rightarrow> TextureDecoder \<Rightarrow> TextureDecoder option" where
  "set_level_info r target level internal_format width height border format type cleared d = do {
     m \<leftarrow> tm_SetLevelInfo r target level internal_format width height 1 border format type cleared (xd_textures d);
     Some (d\<lparr>xd_textures := m, xd_tex_image_2d_failed := False\<rparr>)
   }"

definition DoTexImage2D ::
  "(gl_call list \<Rightarrow> u32 list) \<Rightarrow> bool \<Rightarrow> u32 \<Rightarrow> int \<Rightarrow> u32 \<Rightarrow> int \<Rightarrow> int \<Rightarrow> int \<Rightarrow> u32 \<Rightarrow> u32 \<Rightarrow> u8 list option \<Rightarrow> TextureDecoder \<Rightarrow> TextureDecoder option" where
  "DoTexImage2D raises egl target level internal_format width height border format type pixels d =
     (if \<not> IsValid valid_texture_target_table target then Some (xerr GL_INVALID_ENUM d)
      else if \<not> IsValid (xd_texture_format d) internal_format then Some (xerr GL_INVALID_ENUM d)
      else if \<not> IsValid (xd_texture_format d) format then Some (xerr GL_INVALID_ENUM d)
      else if \<not> IsValid (xd_pixel_type d) type then Some (xerr GL_INVALID_ENUM d)
      else if format \<noteq> internal_format then Some (xerr GL_INVALID_OPERATION d)
      else if \<not> ValidForTarget target level width height 1 (xd_textures d) \<or> border \<noteq> 0 then Some (xerr GL_INVALID_VALUE d)
      else do {
        info \<leftarrow> GetTextureInfoForTarget target d;
        (case info of
           None \<Rightarrow> Some (xerr GL_INVALID_OPERATION d)
         | Some r \<Rightarrow> do {
             t \<leftarrow> tm_deref r (xd_textures d);
             if ti_immutable t then Some (xerr GL_INVALID_OPERATION d)
             else let same = level_is_same target level width height format type t in
             if same \<and> pixels = None
             then set_level_info r target level internal_format width height border format type False d
             else let d1 = touch_framebuffers t d in
             if \<not> xd_teximage2d_faster_than_texsubimage2d d1 \<and> same \<and> pixels \<noteq> None
             then Some ((xgl raises (GlTexSubImage2D target level 0 0 width height format type pixels) d1)\<lparr>xd_tex_image_2d_failed := False\<rparr>)
             else let (err, d2) = xd_PeekGLError (WrappedTexImage2D raises egl target level internal_format width height border format type pixels
                                    (xd_CopyRealGLErrorsToWrapper d1)) in
             if err = GL_NO_ERROR
             then set_level_info r target level internal_format width height border format type (pixels \<noteq> None) d2
             else Some d2
           })
      })"

text \<open>\<open>pixels\<close> is what \<^verbatim>\<open>GetSharedMemoryAs\<close> returns for the id and the offset of the command, which are not both zero if \<open>has_pixels\<close>.\<close>

definition HandleTexImage2D ::
  "(gl_call list \<Rightarrow> u32 list) \<Rightarrow> bool \<Rightarrow> u32 \<Rightarrow> int \<Rightarrow> int \<Rightarrow> int \<Rightarrow> int \<Rightarrow> int \<Rightarrow> u32 \<Rightarrow> u32 \<Rightarrow> bool \<Rightarrow> (u32 \<Rightarrow> u8 list option) \<Rightarrow>
   TextureDecoder \<Rightarrow> (Error \<times> TextureDecoder) option" where
  "HandleTexImage2D raises egl target level internal_format width height border format type has_pixels memory d0 = do {
     let d = d0\<lparr>xd_tex_image_2d_failed := True\<rparr>;
     (ok, sz) \<leftarrow> ComputeImageDataSize width height (sint format) (sint type) (xd_unpack_alignment d);
     if \<not> ok then Some (kOutOfBounds, d)
     else do {
       pixels_size \<leftarrow> sz;
       if has_pixels then
         (case memory pixels_size of
            None \<Rightarrow> Some (kOutOfBounds, d)
          | Some bs \<Rightarrow> do {
              d' \<leftarrow> DoTexImage2D raises egl target level (uint32 internal_format) width height border format type (Some bs) d;
              Some (kNoError, d')
            })
       else do {
         d' \<leftarrow> DoTexImage2D raises egl target level (uint32 internal_format) width height border format type None d;
         Some (kNoError, d')
       }
     }
   }"

definition DoCompressedTexSubImage2D ::
  "(gl_call list \<Rightarrow> u32 list) \<Rightarrow> u32 \<Rightarrow> int \<Rightarrow> int \<Rightarrow> int \<Rightarrow> int \<Rightarrow> int \<Rightarrow> u32 \<Rightarrow> int \<Rightarrow> u8 list \<Rightarrow> TextureDecoder \<Rightarrow> TextureDecoder option" where
  "DoCompressedTexSubImage2D raises target level xoffset yoffset width height format imageSize data d = do {
     info \<leftarrow> GetTextureInfoForTarget target d;
     (case info of
        None \<Rightarrow> Some (xerr GL_INVALID_OPERATION d)
      | Some r \<Rightarrow> do {
          t \<leftarrow> tm_deref r (xd_textures d);
          (case GetLevelType (sint target) level t of
             None \<Rightarrow> Some (xerr GL_INVALID_OPERATION d)
           | Some (type, internal_format) \<Rightarrow>
               if internal_format \<noteq> format then Some (xerr GL_INVALID_OPERATION d)
               else if \<not> ValidForTexture (sint target) level xoffset yoffset width height format type t then Some (xerr GL_INVALID_VALUE d)
               else Some (xgl raises (GlCompressedTexSubImage2D target level xoffset yoffset width height format imageSize data) d))
        })
   }"

definition set_level_cleared :: "tex_ref \<Rightarrow> u32 \<Rightarrow> int \<Rightarrow> TextureDecoder \<Rightarrow> TextureDecoder option" where
  "set_level_cleared r target level d = do {
     m \<leftarrow> tm_SetLevelCleared r target level (xd_textures d);
     Some (d\<lparr>xd_textures := m\<rparr>)
   }"

definition DoTexSubImage2D ::
  "(gl_call list \<Rightarrow> u32 list) \<Rightarrow> bool \<Rightarrow> u32 \<Rightarrow> int \<Rightarrow> int \<Rightarrow> int \<Rightarrow> int \<Rightarrow> int \<Rightarrow> u32 \<Rightarrow> u32 \<Rightarrow> u8 list \<Rightarrow> TextureDecoder \<Rightarrow> TextureDecoder option" where
  "DoTexSubImage2D raises egl target level xoffset yoffset width height format type data d = do {
     info \<leftarrow> GetTextureInfoForTarget target d;
     (case info of
        None \<Rightarrow> Some (xerr GL_INVALID_OPERATION d)
      | Some r \<Rightarrow> do {
          t \<leftarrow> tm_deref r (xd_textures d);
          (case GetLevelType (sint target) level t of
             None \<Rightarrow> Some (xerr GL_INVALID_OPERATION d)
           | Some (current_type, internal_format) \<Rightarrow>
               if format \<noteq> internal_format then Some (xerr GL_INVALID_OPERATION d)
               else if type \<noteq> current_type then Some (xerr GL_INVALID_OPERATION d)
               else if \<not> ValidForTexture (sint target) level xoffset yoffset width height format type t then Some (xerr GL_INVALID_VALUE d)
               else if xoffset \<noteq> 0 \<or> yoffset \<noteq> 0 \<or> GetLevelSize (sint target) level t \<noteq> Some (width, height)
               then do {
                 (ok, d1) \<leftarrow> (if \<not> xd_surface_is_offscreen d then map_option (Pair True) (set_level_cleared r target level d)
                             else do {
                               (ok, m, v) \<leftarrow> ClearTextureLevel (xd_ClearLevel raises egl d) r target level (xd_textures d) (xd_vertex d);
                               Some (ok, d\<lparr>xd_vertex := v, xd_textures := m\<rparr>)
                             });
                 if \<not> ok then Some (xerr GL_OUT_OF_MEMORY d1)
                 else Some (xgl raises (GlTexSubImage2D target level xoffset yoffset width height format type (Some data)) d1)
               }
               else let d1 = (if xd_teximage2d_faster_than_texsubimage2d d \<and> \<not> ti_immutable t
                              then WrappedTexImage2D raises egl target level format width height 0 format type (Some data) d
                              else xgl raises (GlTexSubImage2D target level xoffset yoffset width height format type (Some data)) d)
                    in set_level_cleared r target level d1)
        })
   }"

definition HandleTexSubImage2D ::
  "(gl_call list \<Rightarrow> u32 list) \<Rightarrow> bool \<Rightarrow> bool \<Rightarrow> u32 \<Rightarrow> int \<Rightarrow> int \<Rightarrow> int \<Rightarrow> int \<Rightarrow> int \<Rightarrow> u32 \<Rightarrow> u32 \<Rightarrow> (u32 \<Rightarrow> u8 list option) \<Rightarrow>
   TextureDecoder \<Rightarrow> (Error \<times> TextureDecoder) option" where
  "HandleTexSubImage2D raises egl internal target level xoffset yoffset width height format type memory d =
     (if internal \<and> xd_tex_image_2d_failed d then Some (kNoError, d)
      else do {
        (ok, sz) \<leftarrow> ComputeImageDataSize width height (sint format) (sint type) (xd_unpack_alignment d);
        if \<not> ok then Some (kOutOfBounds, d)
        else do {
          data_size \<leftarrow> sz;
          if \<not> IsValid valid_texture_target_table target then Some (kNoError, xerr GL_INVALID_ENUM d)
          else if width < 0 then Some (kNoError, xerr GL_INVALID_VALUE d)
          else if height < 0 then Some (kNoError, xerr GL_INVALID_VALUE d)
          else if \<not> IsValid (xd_texture_format d) format then Some (kNoError, xerr GL_INVALID_ENUM d)
          else if \<not> IsValid (xd_pixel_type d) type then Some (kNoError, xerr GL_INVALID_ENUM d)
          else (case memory data_size of
                  None \<Rightarrow> Some (kOutOfBounds, d)
                | Some pixels \<Rightarrow> do {
                    d' \<leftarrow> DoTexSubImage2D raises egl target level xoffset yoffset width height format type pixels d;
                    Some (kNoError, d')
                  })
        }
      })"

subsection \<open>Immutable textures\<close>

definition ExtractFormatFromStorageFormat :: "u32 \<Rightarrow> u32" where
  "ExtractFormatFromStorageFormat internalformat =
     (if internalformat \<in> {GL_RGB565, GL_RGB8_OES, GL_RGB32F_EXT, GL_RGB16F_EXT} then GL_RGB
      else if internalformat \<in> {GL_RGBA4, GL_RGB5_A1, GL_RGBA8_OES, GL_RGBA32F_EXT, GL_RGBA16F_EXT} then GL_RGBA
      else if internalformat \<in> {GL_LUMINANCE8_ALPHA8_EXT, GL_LUMINANCE_ALPHA32F_EXT, GL_LUMINANCE_ALPHA16F_EXT} then GL_LUMINANCE_ALPHA
      else if internalformat \<in> {GL_LUMINANCE8_EXT, GL_LUMINANCE32F_EXT, GL_LUMINANCE16F_EXT} then GL_LUMINANCE
      else if internalformat \<in> {GL_ALPHA8_EXT, GL_ALPHA32F_EXT, GL_ALPHA16F_EXT} then GL_ALPHA
      else if internalformat = GL_BGRA8_EXT then GL_BGRA_EXT
      else GL_NONE)"

definition ExtractTypeFromStorageFormat :: "u32 \<Rightarrow> u32" where
  "ExtractTypeFromStorageFormat internalformat =
     (if internalformat = GL_RGB565 then GL_UNSIGNED_SHORT_5_6_5
      else if internalformat = GL_RGBA4 then GL_UNSIGNED_SHORT_4_4_4_4
      else if internalformat = GL_RGB5_A1 then GL_UNSIGNED_SHORT_5_5_5_1
      else if internalformat \<in> {GL_RGB8_OES, GL_RGBA8_OES, GL_LUMINANCE8_ALPHA8_EXT, GL_LUMINANCE8_EXT, GL_ALPHA8_EXT, GL_BGRA8_EXT} then GL_UNSIGNED_BYTE
      else if internalformat \<in> {GL_RGBA32F_EXT, GL_RGB32F_EXT, GL_ALPHA32F_EXT, GL_LUMINANCE32F_EXT, GL_LUMINANCE_ALPHA32F_EXT} then GL_FLOAT
      else if internalformat \<in> {GL_RGBA16F_EXT, GL_RGB16F_EXT, GL_ALPHA16F_EXT, GL_LUMINANCE16F_EXT, GL_LUMINANCE_ALPHA16F_EXT} then GL_HALF_FLOAT_OES
      else GL_NONE)"

text \<open>The loop sets level 0 each time.\<close>

fun storage_loop :: "nat \<Rightarrow> tex_ref \<Rightarrow> u32 \<Rightarrow> u32 \<Rightarrow> u32 \<Rightarrow> int \<Rightarrow> int \<Rightarrow> TextureManager \<Rightarrow> TextureManager option" where
  "storage_loop 0 r target format type level_width level_height m = Some m"
| "storage_loop (Suc n) r target format type level_width level_height m = do {
     m1 \<leftarrow> tm_SetLevelInfo r target 0 format level_width level_height 1 0 format type False m;
     storage_loop n r target format type (half level_width) (half level_height) m1
   }"

definition DoTexStorage2DEXT ::
  "(gl_call list \<Rightarrow> u32 list) \<Rightarrow> bool \<Rightarrow> u32 \<Rightarrow> int \<Rightarrow> u32 \<Rightarrow> int \<Rightarrow> int \<Rightarrow> TextureDecoder \<Rightarrow> TextureDecoder option" where
  "DoTexStorage2DEXT raises egl target levels internal_format width height d =
     (if \<not> ValidForTarget target 0 width height 1 (xd_textures d) \<or> ComputeMipMapCount width height 1 < levels
      then Some (xerr GL_INVALID_VALUE d)
      else do {
        info \<leftarrow> GetTextureInfoForTarget target d;
        (case info of
           None \<Rightarrow> Some (xerr GL_INVALID_OPERATION d)
         | Some r \<Rightarrow> do {
             t \<leftarrow> tm_deref r (xd_textures d);
             let d1 = (if IsAttachedToFramebuffer t then d\<lparr>xd_state_dirty := True\<rparr> else d);
             if ti_immutable t then Some (xerr GL_INVALID_OPERATION d1)
             else do {
               let (err, d2) = xd_PeekGLError (xgl raises (GlTexStorage2D target levels (GetTexInternalFormat egl internal_format) width height)
                                 (xd_CopyRealGLErrorsToWrapper d1));
               if err = GL_NO_ERROR then do {
                 m \<leftarrow> storage_loop (nat levels) r target (ExtractFormatFromStorageFormat internal_format)
                        (ExtractTypeFromStorageFormat internal_format) width height (xd_textures d2);
                 t' \<leftarrow> tm_deref r m;
                 Some (d2\<lparr>xd_textures := tm_store r (Some (SetImmutable True t')) m\<rparr>)
               }
               else Some d2
             }
           })
      })"

definition HandleTexStorage2DEXT ::
  "(gl_call list \<Rightarrow> u32 list) \<Rightarrow> bool \<Rightarrow> u32 \<Rightarrow> int \<Rightarrow> u32 \<Rightarrow> int \<Rightarrow> int \<Rightarrow> TextureDecoder \<Rightarrow> TextureDecoder option" where
  "HandleTexStorage2DEXT raises egl target levels internalFormat width height d =
     (if \<not> IsValid valid_texture_target_table target then Some (xerr GL_INVALID_ENUM d)
      else if levels < 0 then Some (xerr GL_INVALID_VALUE d)
      else if \<not> IsValid (xd_texture_internal_format_storage d) internalFormat then Some (xerr GL_INVALID_ENUM d)
      else if width < 0 then Some (xerr GL_INVALID_VALUE d)
      else if height < 0 then Some (xerr GL_INVALID_VALUE d)
      else DoTexStorage2DEXT raises egl target levels internalFormat width height d)"

subsection \<open>Before a draw call\<close>

fun black_units :: "(gl_call list \<Rightarrow> u32 list) \<Rightarrow> u32 \<Rightarrow> u32 list \<Rightarrow> bool \<Rightarrow> TextureDecoder \<Rightarrow> (bool \<times> TextureDecoder) option" where
  "black_units raises type [] textures_set d = Some (textures_set, d)"
| "black_units raises type (texture_unit_index # rest) textures_set d =
     (if unat texture_unit_index < length (xd_texture_units d) then do {
        bad \<leftarrow> (case GetInfoForSamplerType type (xd_texture_units d ! unat texture_unit_index) of
                  None \<Rightarrow> Some True
                | Some r \<Rightarrow> do { t \<leftarrow> tm_deref r (xd_textures d); Some (\<not> tm_CanRender t (xd_textures d)) });
        if bad
        then black_units raises type rest True
               (xgl raises (GlBindTexture (GetBindTargetForSamplerType type) (black_texture_id type (xd_textures d)))
                 (xgl raises (GlActiveTexture (GL_TEXTURE0 + texture_unit_index)) d))
        else black_units raises type rest textures_set d
      }
      else black_units raises type rest textures_set d)"

fun black_samplers :: "(gl_call list \<Rightarrow> u32 list) \<Rightarrow> (u32 \<times> u32 list) list \<Rightarrow> bool \<Rightarrow> TextureDecoder \<Rightarrow> (bool \<times> TextureDecoder) option" where
  "black_samplers raises [] textures_set d = Some (textures_set, d)"
| "black_samplers raises ((type, texture_units) # rest) textures_set d = do {
     (b, d1) \<leftarrow> black_units raises type texture_units textures_set d;
     black_samplers raises rest b d1
   }"

definition SetBlackTextureForNonRenderableTextures ::
  "(gl_call list \<Rightarrow> u32 list) \<Rightarrow> TextureDecoder \<Rightarrow> (bool \<times> TextureDecoder) option" where
  "SetBlackTextureForNonRenderableTextures raises d =
     (if \<not> HaveUnrenderableTextures (xd_textures d) then Some (False, d)
      else black_samplers raises (xd_samplers d) False d)"

definition restore_id :: "TextureUnit \<Rightarrow> TextureManager \<Rightarrow> u32 option" where
  "restore_id u m =
     (case if tu_bind_target u = GL_TEXTURE_2D then tu_bound_texture_2d u else tu_bound_texture_cube_map u of
        None \<Rightarrow> Some 0
      | Some r \<Rightarrow> map_option ti_service_id (tm_deref r m))"

fun restore_units :: "(gl_call list \<Rightarrow> u32 list) \<Rightarrow> u32 \<Rightarrow> u32 list \<Rightarrow> TextureDecoder \<Rightarrow> TextureDecoder option" where
  "restore_units raises type [] d = Some d"
| "restore_units raises type (texture_unit_index # rest) d =
     (if unat texture_unit_index < length (xd_texture_units d) then do {
        let u = xd_texture_units d ! unat texture_unit_index;
        bad \<leftarrow> (case if type = GL_SAMPLER_2D then tu_bound_texture_2d u else tu_bound_texture_cube_map u of
                  None \<Rightarrow> Some True
                | Some r \<Rightarrow> do { t \<leftarrow> tm_deref r (xd_textures d); Some (\<not> tm_CanRender t (xd_textures d)) });
        if bad
        then do {
          i \<leftarrow> restore_id u (xd_textures d);
          restore_units raises type rest
            (xgl raises (GlBindTexture (tu_bind_target u) i) (xgl raises (GlActiveTexture (GL_TEXTURE0 + texture_unit_index)) d))
        }
        else restore_units raises type rest d
      }
      else restore_units raises type rest d)"

fun restore_samplers :: "(gl_call list \<Rightarrow> u32 list) \<Rightarrow> (u32 \<times> u32 list) list \<Rightarrow> TextureDecoder \<Rightarrow> TextureDecoder option" where
  "restore_samplers raises [] d = Some d"
| "restore_samplers raises ((type, texture_units) # rest) d = do {
     d1 \<leftarrow> restore_units raises type texture_units d;
     restore_samplers raises rest d1
   }"

definition RestoreStateForNonRenderableTextures :: "(gl_call list \<Rightarrow> u32 list) \<Rightarrow> TextureDecoder \<Rightarrow> TextureDecoder option" where
  "RestoreStateForNonRenderableTextures raises d = do {
     d1 \<leftarrow> restore_samplers raises (xd_samplers d) d;
     Some (xgl raises (GlActiveTexture (GL_TEXTURE0 + xd_active_texture_unit d1)) d1)
   }"

fun clear_units :: "(gl_call list \<Rightarrow> u32 list) \<Rightarrow> bool \<Rightarrow> u32 \<Rightarrow> u32 list \<Rightarrow> TextureDecoder \<Rightarrow> (bool \<times> TextureDecoder) option" where
  "clear_units raises egl type [] d = Some (True, d)"
| "clear_units raises egl type (texture_unit_index # rest) d =
     (if unat texture_unit_index < length (xd_texture_units d) then
        case GetInfoForSamplerType type (xd_texture_units d ! unat texture_unit_index) of
          None \<Rightarrow> clear_units raises egl type rest d
        | Some r \<Rightarrow> do {
            t \<leftarrow> tm_deref r (xd_textures d);
            if \<not> SafeToRenderFrom t then do {
              (ok, m, v) \<leftarrow> tm_ClearRenderableLevels (xd_ClearLevel raises egl d) r (xd_textures d) (xd_vertex d);
              if \<not> ok then Some (False, d\<lparr>xd_vertex := v, xd_textures := m\<rparr>)
              else clear_units raises egl type rest (d\<lparr>xd_vertex := v, xd_textures := m\<rparr>)
            }
            else clear_units raises egl type rest d
          }
      else clear_units raises egl type rest d)"

fun clear_samplers :: "(gl_call list \<Rightarrow> u32 list) \<Rightarrow> bool \<Rightarrow> (u32 \<times> u32 list) list \<Rightarrow> TextureDecoder \<Rightarrow> (bool \<times> TextureDecoder) option" where
  "clear_samplers raises egl [] d = Some (True, d)"
| "clear_samplers raises egl ((type, texture_units) # rest) d = do {
     (ok, d1) \<leftarrow> clear_units raises egl type texture_units d;
     if \<not> ok then Some (False, d1) else clear_samplers raises egl rest d1
   }"

definition ClearUnclearedTextures :: "(gl_call list \<Rightarrow> u32 list) \<Rightarrow> bool \<Rightarrow> TextureDecoder \<Rightarrow> (bool \<times> TextureDecoder) option" where
  "ClearUnclearedTextures raises egl d =
     (if \<not> HaveUnsafeTextures (xd_textures d) then Some (True, d)
      else if vd_current_program (xd_vertex d) = None then Some (True, d)
      else clear_samplers raises egl (xd_samplers d) d)"

text \<open>The part of \<^verbatim>\<open>HandleDrawArrays\<close> and \<^verbatim>\<open>HandleDrawElements\<close> that deals with textures, around the call that draws.\<close>

definition draw_with_textures :: "(gl_call list \<Rightarrow> u32 list) \<Rightarrow> bool \<Rightarrow> TextureDecoder \<Rightarrow> TextureDecoder option" where
  "draw_with_textures raises egl d = do {
     (ok, d1) \<leftarrow> ClearUnclearedTextures raises egl d;
     if \<not> ok then Some (xerr GL_INVALID_VALUE d1)
     else do {
       (textures_set, d2) \<leftarrow> SetBlackTextureForNonRenderableTextures raises d1;
       if textures_set then RestoreStateForNonRenderableTextures raises d2 else Some d2
     }
   }"

subsection \<open>Commands\<close>

datatype tex_cmd =
    CmdGenTextures "u32 list"
  | CmdDeleteTextures "u32 list"
  | CmdActiveTexture u32
  | CmdBindTexture u32 u32
  | CmdGenerateMipmap u32
  | CmdTexParameteri u32 u32 int
  | CmdTexImage2D u32 int int int int int u32 u32 bool "u32 \<Rightarrow> u8 list option"
  | CmdTexSubImage2D bool u32 int int int int int u32 u32 "u32 \<Rightarrow> u8 list option"
  | CmdCompressedTexImage2D u32 int u32 int int int int "u8 list option"
  | CmdCompressedTexSubImage2D u32 int int int int int u32 int "u8 list"
  | CmdTexStorage2D u32 int u32 int int
  | CmdPixelStorei u32 u32
  | CmdUseProgram "int list option" "(u32 \<times> u32 list) list"
  | CmdDraw

fun xd_step :: "(gl_call list \<Rightarrow> u32 list) \<Rightarrow> (gl_call list \<Rightarrow> nat \<Rightarrow> u32) \<Rightarrow> bool \<Rightarrow> tex_cmd \<Rightarrow> TextureDecoder \<Rightarrow> TextureDecoder option" where
  "xd_step raises gen egl (CmdGenTextures ids) d = map_option snd (GenTexturesHelper raises gen ids d)"
| "xd_step raises gen egl (CmdDeleteTextures ids) d = DeleteTexturesHelper raises ids d"
| "xd_step raises gen egl (CmdActiveTexture u) d = Some (DoActiveTexture raises u d)"
| "xd_step raises gen egl (CmdBindTexture target texture) d = HandleBindTexture raises gen target texture d"
| "xd_step raises gen egl (CmdGenerateMipmap target) d = HandleGenerateMipmap raises target d"
| "xd_step raises gen egl (CmdTexParameteri target pname param) d = HandleTexParameteri raises target pname param d"
| "xd_step raises gen egl (CmdTexImage2D target level internal_format width height border format type has_pixels memory) d =
     map_option snd (HandleTexImage2D raises egl target level internal_format width height border format type has_pixels memory d)"
| "xd_step raises gen egl (CmdTexSubImage2D internal target level xoffset yoffset width height format type memory) d =
     map_option snd (HandleTexSubImage2D raises egl internal target level xoffset yoffset width height format type memory d)"
| "xd_step raises gen egl (CmdCompressedTexImage2D target level internal_format width height border imageSize data) d =
     DoCompressedTexImage2D raises target level internal_format width height border imageSize data d"
| "xd_step raises gen egl (CmdCompressedTexSubImage2D target level xoffset yoffset width height format imageSize data) d =
     DoCompressedTexSubImage2D raises target level xoffset yoffset width height format imageSize data d"
| "xd_step raises gen egl (CmdTexStorage2D target levels internal_format width height) d =
     HandleTexStorage2DEXT raises egl target levels internal_format width height d"
| "xd_step raises gen egl (CmdPixelStorei pname param) d = Some (HandlePixelStorei raises pname param d)"
| "xd_step raises gen egl (CmdUseProgram program samplers) d =
     Some (d\<lparr>xd_vertex := (xd_vertex d)\<lparr>vd_current_program := program\<rparr>, xd_samplers := samplers\<rparr>)"
| "xd_step raises gen egl CmdDraw d = draw_with_textures raises egl d"

text \<open>
  A command deletes at most as many textures as there are units: the index into the units is that of the texture in
  the command.
\<close>

fun xd_cmd_ok :: "tex_cmd \<Rightarrow> TextureDecoder \<Rightarrow> bool" where
  "xd_cmd_ok (CmdDeleteTextures ids) d \<longleftrightarrow> length ids \<le> length (xd_texture_units d)"
| "xd_cmd_ok _ d \<longleftrightarrow> True"

text \<open>A new decoder with \<open>n\<close> texture units, whose group has the features \<open>f\<close> and the limits \<open>s\<close> and \<open>c\<close> of the driver.\<close>

definition bind_targets :: "FeatureFlags \<Rightarrow> u32 list" where
  "bind_targets f = [GL_TEXTURE_2D, GL_TEXTURE_CUBE_MAP] @ (if oes_egl_image_external f then [GL_TEXTURE_EXTERNAL_OES] else []) @
     (if arb_texture_rectangle f then [GL_TEXTURE_RECTANGLE_ARB] else [])"

definition new_texture_decoder ::
  "(gl_call list \<Rightarrow> u32 list) \<Rightarrow> (DefaultAndBlackTextures \<Rightarrow> u32 \<times> u32) \<Rightarrow> FeatureFlags \<Rightarrow> int \<Rightarrow> int \<Rightarrow> nat \<Rightarrow> TextureDecoder \<Rightarrow>
   TextureDecoder option" where
  "new_texture_decoder raises ids f s c n d = do {
     m \<leftarrow> tm_Initialize ids (new_TextureManager f s c);
     InitTextureUnits raises n (d\<lparr>xd_textures := m, xd_active_texture_unit := 0, xd_pack_alignment := 4, xd_unpack_alignment := 4, xd_texture_bind_target := bind_targets f\<rparr>)
   }"

inductive xd_reach :: "(gl_call list \<Rightarrow> u32 list) \<Rightarrow> (gl_call list \<Rightarrow> nat \<Rightarrow> u32) \<Rightarrow> bool \<Rightarrow> TextureDecoder \<Rightarrow> bool"
  for raises gen egl where
  init: "0 < s \<Longrightarrow> s < 2147483648 \<Longrightarrow> 0 < c \<Longrightarrow> c < 2147483648 \<Longrightarrow> 0 < n \<Longrightarrow> new_texture_decoder raises ids f s c n d0 = Some d \<Longrightarrow>
    xd_reach raises gen egl d"
| step: "xd_reach raises gen egl d \<Longrightarrow> xd_cmd_ok cmd d \<Longrightarrow> xd_step raises gen egl cmd d = Some d' \<Longrightarrow> xd_reach raises gen egl d'"

subsection \<open>Counting references\<close>

definition tu_refs :: "TextureUnit \<Rightarrow> tex_ref \<Rightarrow> nat" where
  "tu_refs u r = opt_count (tu_bound_texture_2d u) r + opt_count (tu_bound_texture_cube_map u) r +
     opt_count (tu_bound_texture_external_oes u) r + opt_count (tu_bound_texture_rectangle_arb u) r"

definition unit_refs :: "TextureUnit list \<Rightarrow> tex_ref \<Rightarrow> nat" where
  "unit_refs us r = (\<Sum>u \<leftarrow> us. tu_refs u r)"

lemma tu_refs_set: "tu_refs (tu_set k new u) a + opt_count (tu_slot k u) a = tu_refs u a + opt_count new a"
  by (cases k) (simp_all add: tu_refs_def)

lemma tu_slot_le: "opt_count (tu_slot k u) a \<le> tu_refs u a"
  by (cases k) (simp_all add: tu_refs_def)

lemma unit_refs_update: "i < length us \<Longrightarrow> unit_refs (us[i := u]) a + tu_refs (us ! i) a = unit_refs us a + tu_refs u a"
proof (induction us arbitrary: i)
  case (Cons v us)
  then show ?case by (cases i) (simp_all add: unit_refs_def)
qed simp

lemma unit_refs_ge: "i < length us \<Longrightarrow> tu_refs (us ! i) a \<le> unit_refs us a"
  unfolding unit_refs_def by (rule member_le_sum_list) simp_all

lemma tu_slot_set: "tu_slot k' (tu_set k new u) = (if k' = k then new else tu_slot k' u)"
  by (cases k; cases k') simp_all

subsection \<open>What operations keep of the textures\<close>

text \<open>
  The textures that are left keep their manager, whether they are streams, and their target once it is set; textures that are added belong to the
  manager.
\<close>

definition keeps :: "TextureManager \<Rightarrow> TextureManager \<Rightarrow> bool" where
  "keeps m m' \<longleftrightarrow> tm_same_config m m' \<and> tm_default_textures m' = tm_default_textures m \<and> length (tm_heap m) \<le> length (tm_heap m') \<and>
     (\<forall>r t'. tm_deref r m' = Some t' \<longrightarrow>
        (if r < length (tm_heap m)
         then \<exists>t. tm_deref r m = Some t \<and> ti_has_manager t' = ti_has_manager t \<and> ti_stream_texture t' = ti_stream_texture t \<and>
           (ti_target t \<noteq> 0 \<longrightarrow> ti_target t' = ti_target t)
         else ti_has_manager t'))"

lemma keeps_refl: "keeps m m"
  by (auto simp: keeps_def tm_same_config_refl elim: tm_derefE)

lemma keeps_trans:
  assumes "keeps m m1" and "keeps m1 m2"
  shows "keeps m m2"
  unfolding keeps_def
proof (intro conjI allI impI)
  show "tm_same_config m m2" "tm_default_textures m2 = tm_default_textures m" "length (tm_heap m) \<le> length (tm_heap m2)"
    using assms tm_same_config_trans [of m m1 m2] by (auto simp: keeps_def)
  fix r t2 assume t2: "tm_deref r m2 = Some t2"
  show "if r < length (tm_heap m)
    then \<exists>t. tm_deref r m = Some t \<and> ti_has_manager t2 = ti_has_manager t \<and> ti_stream_texture t2 = ti_stream_texture t \<and>
      (ti_target t \<noteq> 0 \<longrightarrow> ti_target t2 = ti_target t)
    else ti_has_manager t2"
  proof (cases "r < length (tm_heap m1)")
    case True
    with assms(2) t2 obtain t1 where t1: "tm_deref r m1 = Some t1" "ti_has_manager t2 = ti_has_manager t1"
      "ti_stream_texture t2 = ti_stream_texture t1" "ti_target t1 \<noteq> 0 \<longrightarrow> ti_target t2 = ti_target t1" by (fastforce simp: keeps_def)
    show ?thesis
    proof (cases "r < length (tm_heap m)")
      case True
      with assms(1) t1(1) obtain t where "tm_deref r m = Some t" "ti_has_manager t1 = ti_has_manager t"
        "ti_stream_texture t1 = ti_stream_texture t" "ti_target t \<noteq> 0 \<longrightarrow> ti_target t1 = ti_target t" by (fastforce simp: keeps_def)
      with t1 True show ?thesis by auto
    next
      case False
      with assms(1) t1 show ?thesis by (auto simp: keeps_def)
    qed
  next
    case False
    moreover from assms(1) have "length (tm_heap m) \<le> length (tm_heap m1)" by (simp add: keeps_def)
    ultimately show ?thesis using assms(2) t2 by (auto simp: keeps_def)
  qed
qed

lemma keeps_deref:
  assumes "keeps m m'" and "tm_deref r m' = Some t'" and "tm_deref r m = Some t"
  shows "ti_has_manager t' = ti_has_manager t" and "ti_stream_texture t' = ti_stream_texture t" and "ti_target t \<noteq> 0 \<Longrightarrow> ti_target t' = ti_target t"
proof -
  have "r < length (tm_heap m)" using assms(3) by (auto elim: tm_derefE)
  with assms have "ti_has_manager t' = ti_has_manager t \<and> ti_stream_texture t' = ti_stream_texture t \<and>
    (ti_target t \<noteq> 0 \<longrightarrow> ti_target t' = ti_target t)" by (fastforce simp: keeps_def)
  then show "ti_has_manager t' = ti_has_manager t" "ti_stream_texture t' = ti_stream_texture t" "ti_target t \<noteq> 0 \<Longrightarrow> ti_target t' = ti_target t" by simp_all
qed

lemma keeps_changes:
  assumes "tm_changes r t' m m'" and "tm_deref r m = Some t" and "ti_has_manager t' = ti_has_manager t"
    and "ti_stream_texture t' = ti_stream_texture t" and "ti_target t \<noteq> 0 \<Longrightarrow> ti_target t' = ti_target t"
  shows "keeps m m'"
proof -
  have d: "tm_deref a m' = (if a = r then Some t' else tm_deref a m)" for a by (rule tm_changes_deref [OF assms(1,2)])
  have "a < length (tm_heap m)" if "tm_deref a m = Some x" for a x using that by (auto elim: tm_derefE)
  with d assms show ?thesis by (auto simp: keeps_def tm_changes_def)
qed

lemma keeps_frame: "tm_changes r t' m m' \<Longrightarrow> tm_deref r m = Some t \<Longrightarrow> ti_frame t t' \<Longrightarrow> keeps m m'"
  by (rule keeps_changes [of r t' m m' t]) (simp_all add: ti_frame_def)

text \<open>Giving out and taking back references, with the count of the outside owners.\<close>

lemma AddRef_ext:
  assumes inv: "tm_inv ext m" and t: "tm_deref r m = Some t"
  shows "\<exists>m'. tm_AddRef r m = Some m' \<and> tm_inv (\<lambda>a. ext a + opt_count (Some r) a) m' \<and> keeps m m' \<and>
    tm_texture_infos m' = tm_texture_infos m \<and> (\<forall>a. tm_deref a m' = (if a = r then Some (t\<lparr>ti_ref_count := Suc (ti_ref_count t)\<rparr>) else tm_deref a m))"
proof -
  let ?t = "t\<lparr>ti_ref_count := Suc (ti_ref_count t)\<rparr>"
  let ?m = "tm_store r (Some ?t) m"
  have inv1: "tm_inv ext ?m" by (rule tm_inv_recount [OF inv t]) (use tm_invD(1) [OF inv t] in simp_all)
  note d = tm_deref_store [OF t, of _ "Some ?t"]
  have "own_refs (\<lambda>a. ext a + opt_count (Some r) a) ?m a = own_refs ext ?m a + (if a = r then 1 else 0)" for a
    by (simp add: own_refs_def opt_count_def)
  moreover have "own_refs ext ?m r \<le> ti_ref_count t" using tm_invD(1) [OF inv t] by (simp add: own_refs_def tm_store_def)
  ultimately have "tref_ok (MaxLevelsForTarget ?m) (tm_deref a ?m) (own_refs (\<lambda>a. ext a + opt_count (Some r) a) ?m a) (in_table ?m a)" for a
    using inv1 d by (cases "a = r") (auto simp: tm_inv_def dest: spec [of _ a])
  with inv1 have "tm_inv (\<lambda>a. ext a + opt_count (Some r) a) ?m" by (simp add: tm_inv_def)
  moreover have "tm_changes r ?t m ?m" by (simp add: changes_defs)
  from keeps_changes [OF this t] have "keeps m ?m" by simp
  ultimately show ?thesis using t d by (intro exI [of _ ?m]) (simp add: tm_AddRef_def adders)
qed

text \<open>Only default textures are without a manager.\<close>

definition defaults_held :: "TextureManager \<Rightarrow> bool" where
  "defaults_held m \<longleftrightarrow> (\<forall>r t. tm_deref r m = Some t \<and> \<not> ti_has_manager t \<longrightarrow> Some r \<in> set (tm_default_textures m))"

lemma keeps_defaults_held:
  assumes "keeps m m'" and "defaults_held m"
  shows "defaults_held m'"
  unfolding defaults_held_def
proof (intro allI impI; elim conjE)
  fix r t' assume t': "tm_deref r m' = Some t'" "\<not> ti_has_manager t'"
  with assms(1) obtain t where t: "tm_deref r m = Some t" by (auto simp: keeps_def split: if_splits)
  with keeps_deref(1) [OF assms(1) t'(1) t] t'(2) assms show "Some r \<in> set (tm_default_textures m')" by (auto simp: keeps_def defaults_held_def)
qed

lemma Release_ext:
  assumes inv: "tm_inv (\<lambda>a. ext a + opt_count (Some r) a) m" and held: "defaults_held m"
  shows "\<exists>m'. tm_Release r m = Some m' \<and> tm_inv ext m' \<and> keeps m m' \<and>
    tm_texture_infos m' = tm_texture_infos m \<and> (\<forall>a. a \<noteq> r \<longrightarrow> tm_deref a m' = tm_deref a m)"
proof -
  let ?ext = "\<lambda>a. ext a + opt_count (Some r) a"
  have own: "own_refs ?ext m a = own_refs ext m a + (if a = r then 1 else 0)" for a by (simp add: own_refs_def opt_count_def)
  have "0 < own_refs ?ext m r" by (simp add: own)
  from tm_inv_live [OF inv this] obtain t where t: "tm_deref r m = Some t" ..
  have inv1: "tm_inv ext m"
    by (rule tm_inv_fewer [OF inv]) (use inv own in \<open>simp_all add: tm_same_config_refl tm_inv_def\<close>)
  have more: "own_refs ext m r < ti_ref_count t" using tm_invD(1) [OF inv t] own [of r] by simp
  have "ti_has_manager t \<or> 0 < own_refs ext m r"
  proof (cases "ti_has_manager t")
    case False
    with held t have "Some r \<in> set (tm_default_textures m)" by (auto simp: defaults_held_def)
    then have "count_list (tm_default_textures m) (Some r) \<noteq> 0" by (simp add: count_list_0_iff)
    then show ?thesis by (simp add: own_refs_def)
  qed simp
  from Release_ok [OF inv1 t more this] obtain m' where m': "tm_Release r m = Some m'" "tm_inv ext m'" "tm_same_config m m'"
    "tm_default_textures m' = tm_default_textures m" "\<And>a. a \<noteq> r \<Longrightarrow> tm_deref a m' = tm_deref a m"
    "tm_deref r m' = None \<or> tm_deref r m' = Some (t\<lparr>ti_ref_count := ti_ref_count t - 1\<rparr>)" "tm_texture_infos m' = tm_texture_infos m" by auto
  have len: "length (tm_heap m') = length (tm_heap m)"
    using m'(1) t by (auto simp: tm_Release_def destroy_TextureInfo_def tm_StopTracking_def Let_def adders split: if_splits)
  have "keeps m m'"
    unfolding keeps_def
  proof (intro conjI allI impI)
    fix a t' assume a: "tm_deref a m' = Some t'"
    then have "a < length (tm_heap m)" using len by (auto elim: tm_derefE)
    with a m'(5,6) t show "if a < length (tm_heap m)
      then \<exists>t. tm_deref a m = Some t \<and> ti_has_manager t' = ti_has_manager t \<and> ti_stream_texture t' = ti_stream_texture t \<and>
        (ti_target t \<noteq> 0 \<longrightarrow> ti_target t' = ti_target t)
      else ti_has_manager t'" by (cases "a = r") auto
  qed (use m' len in simp_all)
  with m' show ?thesis by blast
qed

lemma tex_assign_ok:
  assumes inv: "tm_inv (\<lambda>a. ext a + opt_count old a) m" and held: "defaults_held m" and live: "\<And>r. new = Some r \<Longrightarrow> \<exists>t. tm_deref r m = Some t"
  shows "\<exists>m'. tex_assign old new m = Some m' \<and> tm_inv (\<lambda>a. ext a + opt_count new a) m' \<and> keeps m m' \<and> tm_texture_infos m' = tm_texture_infos m"
proof -
  have "\<exists>m1. (case new of None \<Rightarrow> Some m | Some r \<Rightarrow> tm_AddRef r m) = Some m1 \<and>
      tm_inv (\<lambda>a. ext a + opt_count new a + opt_count old a) m1 \<and> keeps m m1 \<and> tm_texture_infos m1 = tm_texture_infos m"
  proof (cases new)
    case None
    with inv keeps_refl show ?thesis by (simp add: opt_count_def)
  next
    case (Some r)
    with live obtain t where "tm_deref r m = Some t" by blast
    from AddRef_ext [OF inv this] Some show ?thesis by (auto simp: ac_simps)
  qed
  then obtain m1 where m1: "(case new of None \<Rightarrow> Some m | Some r \<Rightarrow> tm_AddRef r m) = Some m1"
    "tm_inv (\<lambda>a. ext a + opt_count new a + opt_count old a) m1" "keeps m m1" "tm_texture_infos m1 = tm_texture_infos m" by blast
  show ?thesis
  proof (cases old)
    case None
    with m1 show ?thesis by (simp add: tex_assign_def opt_count_def)
  next
    case (Some r)
    from Release_ext [OF m1(2) [unfolded Some] keeps_defaults_held [OF m1(3) held]] m1 Some keeps_trans [OF m1(3)]
    show ?thesis by (auto simp: tex_assign_def)
  qed
qed

subsection \<open>The invariant of the decoder\<close>

definition tex_slot_ok :: "TextureManager \<Rightarrow> DefaultAndBlackTextures \<Rightarrow> tex_ref option \<Rightarrow> bool" where
  "tex_slot_ok m k x \<longleftrightarrow> (case x of None \<Rightarrow> True | Some r \<Rightarrow> (case tm_deref r m of None \<Rightarrow> False | Some t \<Rightarrow> ti_target t = default_target k))"

text \<open>\<open>other r\<close>: the references to \<open>r\<close> that other decoders of the group hold.\<close>

definition xd_inv :: "(tex_ref \<Rightarrow> nat) \<Rightarrow> TextureDecoder \<Rightarrow> bool" where
  "xd_inv other d \<longleftrightarrow> tm_inv (\<lambda>r. other r + unit_refs (xd_texture_units d) r) (xd_textures d) \<and> (\<forall>k. default_ok (xd_textures d) k) \<and>
     defaults_held (xd_textures d) \<and> unat (xd_active_texture_unit d) < length (xd_texture_units d) \<and>
     (\<forall>i < length (xd_texture_units d). \<forall>k. tex_slot_ok (xd_textures d) k (tu_slot k (xd_texture_units d ! i))) \<and>
     (\<forall>target \<in> set (xd_texture_bind_target d). target \<in> set texture_targets \<and> GetDefaultTextureInfo target (xd_textures d) \<noteq> None) \<and>
     0 < xd_unpack_alignment d \<and> xd_unpack_alignment d < 2147483648"

lemma xd_inv_frame [simp]:
  "xd_inv other (d\<lparr>xd_vertex := v\<rparr>) = xd_inv other d" "xd_inv other (d\<lparr>xd_tex_image_2d_failed := b\<rparr>) = xd_inv other d"
  "xd_inv other (d\<lparr>xd_state_dirty := b\<rparr>) = xd_inv other d" "xd_inv other (d\<lparr>xd_framebuffer_state_change_count := n\<rparr>) = xd_inv other d"
  "xd_inv other (d\<lparr>xd_texture_ids := a\<rparr>) = xd_inv other d" "xd_inv other (d\<lparr>xd_samplers := p\<rparr>) = xd_inv other d"
  by (simp_all add: xd_inv_def)

lemma xgl_simps [simp]:
  "xd_textures (xgl raises c d) = xd_textures d" "xd_texture_units (xgl raises c d) = xd_texture_units d"
  "xd_active_texture_unit (xgl raises c d) = xd_active_texture_unit d" "xd_unpack_alignment (xgl raises c d) = xd_unpack_alignment d"
  "xd_inv other (xgl raises c d) = xd_inv other d" "xd_inv other (xerr e d) = xd_inv other d"
  "xd_textures (xerr e d) = xd_textures d" "xd_texture_units (xerr e d) = xd_texture_units d"
  by (simp_all add: xgl_def xerr_def)

lemma xd_inv_textures: "xd_inv other d \<Longrightarrow> tm_inv (\<lambda>r. other r + unit_refs (xd_texture_units d) r) (xd_textures d)"
  by (simp add: xd_inv_def)

lemma slot_live:
  assumes inv: "xd_inv other d" and i: "i < length (xd_texture_units d)" and r: "tu_slot k (xd_texture_units d ! i) = Some r"
  shows "\<exists>t. tm_deref r (xd_textures d) = Some t \<and> ti_target t = default_target k"
proof -
  have "tex_slot_ok (xd_textures d) k (tu_slot k (xd_texture_units d ! i))" using inv i by (simp add: xd_inv_def)
  with r show ?thesis by (auto simp: tex_slot_ok_def split: option.splits)
qed

lemma default_target_nonzero: "default_target k \<noteq> 0"
  by (cases k) simp_all

lemma keeps_slot:
  assumes "keeps m m'" and "tex_slot_ok m k x" and "\<And>r. x = Some r \<Longrightarrow> \<exists>t. tm_deref r m' = Some t"
  shows "tex_slot_ok m' k x"
proof (cases x)
  case (Some r)
  with assms(2) obtain t where t: "tm_deref r m = Some t" "ti_target t = default_target k" by (auto simp: tex_slot_ok_def split: option.splits)
  from assms(3) [OF Some] obtain t' where t': "tm_deref r m' = Some t'" ..
  from keeps_deref(3) [OF assms(1) t' t(1)] t(2) default_target_nonzero [of k] have "ti_target t' = default_target k" by simp
  with Some t' show ?thesis by (simp add: tex_slot_ok_def)
qed (simp add: tex_slot_ok_def)

lemma keeps_default_ok:
  assumes "keeps m m'" and "default_ok m k" and inv: "tm_inv ext m'"
  shows "default_ok m' k"
proof (cases "tm_default_textures m ! default_index k")
  case None
  with assms(1) show ?thesis by (simp add: default_ok_def keeps_def)
next
  case (Some r)
  with assms(2) obtain t where t: "tm_deref r m = Some t" "ti_target t = default_target k" "\<not> ti_stream_texture t"
    by (auto simp: default_ok_def split: option.splits)
  have same: "tm_default_textures m' = tm_default_textures m" using assms(1) by (simp add: keeps_def)
  with Some own_default_live(1) [OF inv, of k r] obtain t' where t': "tm_deref r m' = Some t'" by auto
  from keeps_deref(2,3) [OF assms(1) t' t(1)] t default_target_nonzero [of k] have "ti_target t' = default_target k" "\<not> ti_stream_texture t'" by simp_all
  with Some same t' show ?thesis by (simp add: default_ok_def)
qed

lemma units_live:
  assumes "tm_inv (\<lambda>r. other r + unit_refs us r) m" and "i < length us" and "tu_slot k (us ! i) = Some r"
  shows "\<exists>t. tm_deref r m = Some t"
proof -
  have "opt_count (tu_slot k (us ! i)) r \<le> unit_refs us r" using tu_slot_le unit_refs_ge [OF assms(2)] by (rule order_trans)
  with assms(3) have "0 < own_refs (\<lambda>r. other r + unit_refs us r) m r" by (simp add: own_refs_def opt_count_def)
  from tm_inv_live [OF assms(1) this] show ?thesis .
qed

text \<open>The rule for all operations: the manager keeps its invariant for the new references of the units.\<close>

lemma xd_inv_step:
  assumes inv: "xd_inv other d" and m': "tm_inv (\<lambda>r. other r + unit_refs us r) m'" "keeps (xd_textures d) m'"
    and len: "length us = length (xd_texture_units d)"
    and us: "\<And>i k. i < length us \<Longrightarrow> tu_slot k (us ! i) = tu_slot k (xd_texture_units d ! i) \<or> tex_slot_ok (xd_textures d) k (tu_slot k (us ! i))"
  shows "xd_inv other (d\<lparr>xd_textures := m', xd_texture_units := us\<rparr>)"
proof -
  have "tex_slot_ok m' k (tu_slot k (us ! i))" if "i < length us" for i k
  proof (rule keeps_slot [OF m'(2)])
    show "tex_slot_ok (xd_textures d) k (tu_slot k (us ! i))" using us [OF that, of k] inv that len by (auto simp: xd_inv_def)
    show "\<exists>t. tm_deref r m' = Some t" if "tu_slot k (us ! i) = Some r" for r by (rule units_live [OF m'(1) \<open>i < length us\<close> that])
  qed
  moreover have "default_ok m' k" for k by (rule keeps_default_ok [OF m'(2) _ m'(1)]) (use inv in \<open>simp add: xd_inv_def\<close>)
  moreover have "defaults_held m'" by (rule keeps_defaults_held [OF m'(2)]) (use inv in \<open>simp add: xd_inv_def\<close>)
  moreover have "GetDefaultTextureInfo target m' = GetDefaultTextureInfo target (xd_textures d)" for target
    using m'(2) by (simp add: GetDefaultTextureInfo_def keeps_def)
  ultimately show ?thesis using inv m'(1) len by (simp add: xd_inv_def)
qed

lemma xd_inv_manager:
  assumes "xd_inv other d" and "tm_inv (\<lambda>r. other r + unit_refs (xd_texture_units d) r) m'" and "keeps (xd_textures d) m'"
  shows "xd_inv other (d\<lparr>xd_textures := m'\<rparr>)"
  using xd_inv_step [OF assms refl] by simp

lemma assign_slot_ok:
  assumes inv: "xd_inv other d" and i: "i < length (xd_texture_units d)" and new: "tex_slot_ok (xd_textures d) k new"
  shows "\<exists>m'. assign_slot i k new d =
      Some (d\<lparr>xd_textures := m', xd_texture_units := (xd_texture_units d)[i := tu_set k new (xd_texture_units d ! i)]\<rparr>) \<and>
    xd_inv other (d\<lparr>xd_textures := m', xd_texture_units := (xd_texture_units d)[i := tu_set k new (xd_texture_units d ! i)]\<rparr>) \<and>
    keeps (xd_textures d) m' \<and> tm_texture_infos m' = tm_texture_infos (xd_textures d)"
proof -
  let ?u = "xd_texture_units d ! i" and ?us = "xd_texture_units d"
  define ext where "ext = (\<lambda>a. other a + unit_refs ?us a - opt_count (tu_slot k ?u) a)"
  have le: "opt_count (tu_slot k ?u) a \<le> unit_refs ?us a" for a using tu_slot_le unit_refs_ge [OF i] by (rule order_trans)
  have "other a + unit_refs ?us a = ext a + opt_count (tu_slot k ?u) a" for a using le [of a] by (simp add: ext_def)
  with xd_inv_textures [OF inv] have "tm_inv (\<lambda>a. ext a + opt_count (tu_slot k ?u) a) (xd_textures d)" by simp
  moreover have "defaults_held (xd_textures d)" using inv by (simp add: xd_inv_def)
  moreover have "\<exists>t. tm_deref r (xd_textures d) = Some t" if "new = Some r" for r using new that by (auto simp: tex_slot_ok_def split: option.splits)
  ultimately obtain m' where m': "tex_assign (tu_slot k ?u) new (xd_textures d) = Some m'" "tm_inv (\<lambda>a. ext a + opt_count new a) m'" "keeps (xd_textures d) m'"
    "tm_texture_infos m' = tm_texture_infos (xd_textures d)" using tex_assign_ok by blast
  let ?us' = "?us[i := tu_set k new ?u]"
  have "other a + unit_refs ?us' a = ext a + opt_count new a" for a
    using unit_refs_update [OF i, of "tu_set k new ?u" a] tu_refs_set [of k new ?u a] le [of a] by (simp add: ext_def)
  with m'(2) have "tm_inv (\<lambda>a. other a + unit_refs ?us' a) m'" by simp
  moreover have "tu_slot k' (?us' ! j) = tu_slot k' (?us ! j) \<or> tex_slot_ok (xd_textures d) k' (tu_slot k' (?us' ! j))" for j k'
    using new i by (cases "j = i") (simp_all add: tu_slot_set)
  ultimately have "xd_inv other (d\<lparr>xd_textures := m', xd_texture_units := ?us'\<rparr>)" by (intro xd_inv_step [OF inv _ m'(3)]) simp_all
  with m' i show ?thesis by (intro exI [of _ m']) (simp add: assign_slot_def Let_def)
qed

subsection \<open>Making and deleting textures\<close>

lemma tm_inv_snoc_None:
  assumes inv: "tm_inv ext m"
  shows "tm_inv ext (tm_UpdateMemRepresented (m\<lparr>tm_heap := tm_heap m @ [None]\<rparr>))"
proof -
  let ?m = "tm_UpdateMemRepresented (m\<lparr>tm_heap := tm_heap m @ [None]\<rparr>)"
  have c: "tm_same_config m ?m" by (simp add: tm_same_config_def adders)
  have "tm_deref a ?m = tm_deref a m" "own_refs ext ?m a = own_refs ext m a" "in_table ?m a = in_table m a" for a
    by (auto simp: tm_deref_def nth_append own_refs_def in_table_def adders)
  moreover have "tm_counts ?m" using inv by (simp add: tm_inv_def tm_counts_def heap_sum_def adders)
  ultimately show ?thesis using inv unfolding tm_inv_def tm_same_config_simps [OF c] by (simp add: adders)
qed

lemma CreateTextureInfo_inv:
  assumes inv: "tm_inv ext m"
  shows "\<exists>r m'. CreateTextureInfo client_id service_id m = Some (r, m') \<and> tm_inv ext m' \<and> keeps m m' \<and>
    (GetTextureInfo client_id m = None \<longrightarrow> GetTextureInfo client_id m' = Some r \<and> (\<exists>t. tm_deref r m' = Some t \<and> ti_target t = 0))"
proof (cases "GetTextureInfo client_id m = None")
  case True
  from CreateTextureInfo_ok [OF inv True, of service_id] obtain r m' t where
    c: "CreateTextureInfo client_id service_id m = Some (r, m')" "tm_inv ext m'" "tm_same_config m m'" "GetTextureInfo client_id m' = Some r"
      "tm_deref r m' = Some t" "ti_target t = 0" "tm_default_textures m' = tm_default_textures m" "r = length (tm_heap m)"
      "\<And>a. a \<noteq> r \<Longrightarrow> tm_deref a m' = tm_deref a m" by blast
  have "in_table m' r" using c(4) by (force simp: in_table_def GetTextureInfo_def dest: map_of_SomeD)
  from tm_invD(4) [OF c(2,5) this] have hm: "ti_has_manager t" .
  have len: "length (tm_heap m') = Suc (length (tm_heap m))"
    using c(1) CreateTextureInfo_new [OF True [unfolded GetTextureInfo_def], of service_id] by auto
  have "keeps m m'"
    unfolding keeps_def
  proof (intro conjI allI impI)
    fix a t' assume a: "tm_deref a m' = Some t'"
    show "if a < length (tm_heap m)
      then \<exists>t. tm_deref a m = Some t \<and> ti_has_manager t' = ti_has_manager t \<and> ti_stream_texture t' = ti_stream_texture t \<and>
        (ti_target t \<noteq> 0 \<longrightarrow> ti_target t' = ti_target t)
      else ti_has_manager t'"
    proof (cases "a < length (tm_heap m)")
      case True
      with a c(8) c(9) [of a] show ?thesis by simp
    next
      case False
      with a len c(8) have "a = r" by (auto elim: tm_derefE)
      with a c(5) hm False show ?thesis by simp
    qed
  qed (use c len in simp_all)
  with c show ?thesis by auto
next
  case False
  let ?m = "tm_UpdateMemRepresented (m\<lparr>tm_heap := tm_heap m @ [None]\<rparr>)"
  have "tm_deref a ?m = tm_deref a m" for a by (auto simp: tm_deref_def nth_append adders)
  then have "keeps m ?m" by (auto simp: keeps_def tm_same_config_def adders elim: tm_derefE)
  with tm_inv_snoc_None [OF inv] CreateTextureInfo_old [OF False [unfolded GetTextureInfo_def]] False show ?thesis by auto
qed

lemma create_textures_inv: "tm_inv ext m \<Longrightarrow> \<exists>m'. create_textures ps m = Some m' \<and> tm_inv ext m' \<and> keeps m m'"
proof (induction ps arbitrary: m)
  case (Cons p ps)
  obtain c s where p: "p = (c, s)" by fastforce
  from CreateTextureInfo_inv [OF Cons.prems, of c s] obtain r m1 where "CreateTextureInfo c s m = Some (r, m1)" "tm_inv ext m1" "keeps m m1" by blast
  with Cons.IH [of m1] p keeps_trans [of m m1] show ?case by auto
qed (simp add: keeps_refl)

lemma GenTexturesHelper_inv:
  assumes inv: "xd_inv other d"
  shows "\<exists>ok d'. GenTexturesHelper raises gen client_ids d = Some (ok, d') \<and> xd_inv other d'"
proof (cases "\<exists>c \<in> set client_ids. GetTextureInfo c (xd_textures d) \<noteq> None")
  case False
  let ?d = "xgl raises (GlGenTextures (int (length client_ids))) d"
  have i: "xd_inv other ?d" using inv by simp
  from create_textures_inv [OF xd_inv_textures [OF i]] obtain m where
    "create_textures (zip client_ids (map (gen (vd_gl (xd_vertex ?d))) [0..<length client_ids])) (xd_textures ?d) = Some m"
    "tm_inv (\<lambda>r. other r + unit_refs (xd_texture_units ?d) r) m" "keeps (xd_textures ?d) m" by blast
  with xd_inv_manager [OF i] False show ?thesis
    by (intro exI [of _ True] exI [of _ "?d\<lparr>xd_textures := m\<rparr>"]) (simp add: GenTexturesHelper_def Let_def)
qed (use inv in \<open>auto simp: GenTexturesHelper_def\<close>)

lemma RemoveTextureInfo_keeps:
  assumes inv: "tm_inv ext m"
  shows "\<exists>m'. RemoveTextureInfo client_id m = Some m' \<and> tm_inv ext m' \<and> keeps m m' \<and> GetTextureInfo client_id m' = None \<and>
    (\<forall>c. c \<noteq> client_id \<longrightarrow> GetTextureInfo c m' = GetTextureInfo c m)"
proof -
  from RemoveTextureInfo_ok [OF inv, of client_id] obtain m' where m': "RemoveTextureInfo client_id m = Some m'" "tm_inv ext m'" "tm_same_config m m'"
    "GetTextureInfo client_id m' = None" "\<And>c. c \<noteq> client_id \<Longrightarrow> GetTextureInfo c m' = GetTextureInfo c m"
    "tm_default_textures m' = tm_default_textures m" "\<And>a. GetTextureInfo client_id m \<noteq> Some a \<Longrightarrow> tm_deref a m' = tm_deref a m"
    "\<And>a t'. GetTextureInfo client_id m = Some a \<Longrightarrow> tm_deref a m' = Some t' \<Longrightarrow>
       \<exists>t n. tm_deref a m = Some t \<and> t' = (ti_MarkAsDeleted t)\<lparr>ti_ref_count := n\<rparr>" by blast
  have len: "length (tm_heap m') = length (tm_heap m)"
    using m'(1) by (auto simp: RemoveTextureInfo_def tm_Release_def destroy_TextureInfo_def tm_StopTracking_def Let_def adders
        split: option.splits bind_splits if_splits)
  have "keeps m m'"
    unfolding keeps_def
  proof (intro conjI allI impI)
    fix a t' assume a: "tm_deref a m' = Some t'"
    then have "a < length (tm_heap m)" using len by (auto elim: tm_derefE)
    with a m'(7,8) [of a] show "if a < length (tm_heap m)
      then \<exists>t. tm_deref a m = Some t \<and> ti_has_manager t' = ti_has_manager t \<and> ti_stream_texture t' = ti_stream_texture t \<and>
        (ti_target t \<noteq> 0 \<longrightarrow> ti_target t' = ti_target t)
      else ti_has_manager t'" by (cases "GetTextureInfo client_id m = Some a") (auto simp: ti_MarkAsDeleted_def)
  qed (use m' len in simp_all)
  with m' show ?thesis by blast
qed

lemma unbind_slot_ok:
  assumes inv: "xd_inv other d" and i: "i < length (xd_texture_units d)"
  shows "\<exists>d'. unbind_slot i k r d = Some d' \<and> xd_inv other d' \<and> keeps (xd_textures d) (xd_textures d') \<and>
    length (xd_texture_units d') = length (xd_texture_units d) \<and> tm_texture_infos (xd_textures d') = tm_texture_infos (xd_textures d)"
proof (cases "tu_slot k (xd_texture_units d ! i) = Some r")
  case True
  from assign_slot_ok [OF inv i, of k None] obtain m' where m': "assign_slot i k None d =
      Some (d\<lparr>xd_textures := m', xd_texture_units := (xd_texture_units d)[i := tu_set k None (xd_texture_units d ! i)]\<rparr>)"
    "xd_inv other (d\<lparr>xd_textures := m', xd_texture_units := (xd_texture_units d)[i := tu_set k None (xd_texture_units d ! i)]\<rparr>)"
    "keeps (xd_textures d) m'" "tm_texture_infos m' = tm_texture_infos (xd_textures d)" by (auto simp: tex_slot_ok_def)
  with True i show ?thesis by (simp add: unbind_slot_def)
next
  case False
  with inv i keeps_refl show ?thesis by (simp add: unbind_slot_def)
qed

lemma tu_Unbind_ok:
  assumes inv: "xd_inv other d" and i: "i < length (xd_texture_units d)"
  shows "\<exists>d'. tu_Unbind i r d = Some d' \<and> xd_inv other d' \<and> keeps (xd_textures d) (xd_textures d') \<and>
    length (xd_texture_units d') = length (xd_texture_units d) \<and> tm_texture_infos (xd_textures d') = tm_texture_infos (xd_textures d)"
proof -
  from unbind_slot_ok [OF inv i, of kTexture2D r] obtain d1 where d1: "unbind_slot i kTexture2D r d = Some d1" "xd_inv other d1"
    "keeps (xd_textures d) (xd_textures d1)" "length (xd_texture_units d1) = length (xd_texture_units d)"
    "tm_texture_infos (xd_textures d1) = tm_texture_infos (xd_textures d)" by blast
  from unbind_slot_ok [OF d1(2), of i kCubeMap r] d1(4) i obtain d2 where d2: "unbind_slot i kCubeMap r d1 = Some d2" "xd_inv other d2"
    "keeps (xd_textures d1) (xd_textures d2)" "length (xd_texture_units d2) = length (xd_texture_units d1)"
    "tm_texture_infos (xd_textures d2) = tm_texture_infos (xd_textures d1)" by auto
  from unbind_slot_ok [OF d2(2), of i kExternalOES r] d1(4) d2(4) i obtain d3 where d3: "unbind_slot i kExternalOES r d2 = Some d3" "xd_inv other d3"
    "keeps (xd_textures d2) (xd_textures d3)" "length (xd_texture_units d3) = length (xd_texture_units d2)"
    "tm_texture_infos (xd_textures d3) = tm_texture_infos (xd_textures d2)" by auto
  from d1 d2 d3 keeps_trans [OF keeps_trans [OF d1(3) d2(3)] d3(3)] show ?thesis by (simp add: tu_Unbind_def)
qed

lemma unbind_units_loop_ok:
  "xd_inv other d \<Longrightarrow> i < length (xd_texture_units d) \<Longrightarrow>
   \<exists>d'. unbind_units_loop n i r d = Some d' \<and> xd_inv other d' \<and> keeps (xd_textures d) (xd_textures d') \<and>
     length (xd_texture_units d') = length (xd_texture_units d) \<and> tm_texture_infos (xd_textures d') = tm_texture_infos (xd_textures d)"
proof (induction n arbitrary: d)
  case (Suc n)
  from tu_Unbind_ok [OF Suc.prems, of r] obtain d1 where d1: "tu_Unbind i r d = Some d1" "xd_inv other d1" "keeps (xd_textures d) (xd_textures d1)"
    "length (xd_texture_units d1) = length (xd_texture_units d)" "tm_texture_infos (xd_textures d1) = tm_texture_infos (xd_textures d)" by blast
  from Suc.IH [OF d1(2)] d1 Suc.prems(2) keeps_trans [OF d1(3)] show ?case by auto
qed (simp add: keeps_refl)

lemma xd_table_live:
  assumes inv: "xd_inv other d" and c: "GetTextureInfo c (xd_textures d) = Some r"
  shows "\<exists>t. tm_deref r (xd_textures d) = Some t"
proof -
  have "in_table (xd_textures d) r" using c by (force simp: in_table_def GetTextureInfo_def dest: map_of_SomeD)
  from table_live [OF xd_inv_textures [OF inv] this] show ?thesis by blast
qed

lemma delete_texture_ok:
  assumes inv: "xd_inv other d" and ii: "ii < length (xd_texture_units d)" and c: "GetTextureInfo client_id (xd_textures d) = Some r"
  shows "\<exists>d'. delete_texture raises ii client_id r t d = Some d' \<and> xd_inv other d' \<and> length (xd_texture_units d') = length (xd_texture_units d) \<and>
    GetTextureInfo client_id (xd_textures d') = None"
proof -
  define d0 where "d0 = (if IsAttachedToFramebuffer t then d\<lparr>xd_state_dirty := True\<rparr> else d)"
  have same: "xd_inv other d0" "xd_texture_units d0 = xd_texture_units d" "xd_textures d0 = xd_textures d" using inv by (simp_all add: d0_def)
  from unbind_units_loop_ok [OF same(1), of ii "length (xd_texture_units d0)" r] ii same obtain d1 where
    d1: "unbind_units_loop (length (xd_texture_units d0)) ii r d0 = Some d1" "xd_inv other d1" "length (xd_texture_units d1) = length (xd_texture_units d)"
      "tm_texture_infos (xd_textures d1) = tm_texture_infos (xd_textures d)" by auto
  have "GetTextureInfo client_id (xd_textures d1) = Some r" using c d1(4) by (simp add: GetTextureInfo_def)
  from xd_table_live [OF d1(2) this] obtain t1 where t1: "tm_deref r (xd_textures d1) = Some t1" ..
  let ?d = "xgl raises (GlDeleteTextures (ti_service_id t1)) d1"
  have i2: "xd_inv other ?d" using d1(2) by simp
  from RemoveTextureInfo_keeps [OF xd_inv_textures [OF i2], of client_id] obtain m where m: "RemoveTextureInfo client_id (xd_textures ?d) = Some m"
    "tm_inv (\<lambda>r. other r + unit_refs (xd_texture_units ?d) r) m" "keeps (xd_textures ?d) m" "GetTextureInfo client_id m = None" by blast
  from xd_inv_manager [OF i2 m(2,3)] m d1 t1 show ?thesis
    unfolding delete_texture_def d0_def [symmetric] Let_def by simp
qed

text \<open>Deleting at most as many textures as there are units.\<close>

lemma delete_textures_loop_ok:
  "xd_inv other d \<Longrightarrow> ii + length client_ids \<le> length (xd_texture_units d) \<Longrightarrow>
   \<exists>d'. delete_textures_loop raises ii client_ids d = Some d' \<and> xd_inv other d'"
proof (induction client_ids arbitrary: ii d)
  case (Cons c cs)
  show ?case
  proof (cases "GetTextureInfo c (xd_textures d)")
    case None
    with Cons.IH [OF Cons.prems(1), of "Suc ii"] Cons.prems(2) show ?thesis by simp
  next
    case (Some r)
    from xd_table_live [OF Cons.prems(1) this] obtain t where t: "tm_deref r (xd_textures d) = Some t" ..
    have "ii < length (xd_texture_units d)" using Cons.prems(2) by simp
    from delete_texture_ok [OF Cons.prems(1) this Some, of raises t] obtain d1 where
      "delete_texture raises ii c r t d = Some d1" "xd_inv other d1" "length (xd_texture_units d1) = length (xd_texture_units d)" by blast
    with Cons.IH [of d1 "Suc ii"] Cons.IH [OF Cons.prems(1), of "Suc ii"] Cons.prems(2) Some t show ?thesis by simp
  qed
qed simp

text \<open>
  With more textures than units the loop leaves the array of units: the unit it unbinds from has the number of the texture in
  the command.
\<close>

lemma delete_texture_out_of_range:
  assumes "length (xd_texture_units d) \<le> ii" and "0 < length (xd_texture_units d)"
  shows "delete_texture raises ii client_id r t d = None"
proof -
  let ?d = "if IsAttachedToFramebuffer t then d\<lparr>xd_state_dirty := True\<rparr> else d"
  have "0 < length (xd_texture_units ?d)" using assms(2) by simp
  then obtain n where n: "length (xd_texture_units ?d) = Suc n" unfolding gr0_conv_Suc ..
  have "tu_Unbind ii r ?d = None" using assms(1) by (simp add: tu_Unbind_def unbind_slot_def)
  then have "unbind_units_loop (length (xd_texture_units ?d)) ii r ?d = None" unfolding n by (simp only: unbind_units_loop.simps Option.bind.simps)
  then show ?thesis unfolding delete_texture_def Let_def by simp
qed

subsection \<open>Binding textures\<close>

lemma active_unit_ok: "xd_inv other d \<Longrightarrow> active_unit d = Some (xd_texture_units d ! unat (xd_active_texture_unit d))"
  by (simp add: active_unit_def xd_inv_def)

lemma xd_inv_bind_target:
  assumes inv: "xd_inv other d" and i: "i < length (xd_texture_units d)"
  shows "xd_inv other (d\<lparr>xd_texture_units := (xd_texture_units d)[i := (xd_texture_units d ! i)\<lparr>tu_bind_target := target\<rparr>]\<rparr>)"
proof -
  let ?us = "(xd_texture_units d)[i := (xd_texture_units d ! i)\<lparr>tu_bind_target := target\<rparr>]"
  have slot: "tu_slot k (u\<lparr>tu_bind_target := target\<rparr>) = tu_slot k u" for k u by (cases k) simp_all
  have "unit_refs ?us a = unit_refs (xd_texture_units d) a" for a
    using unit_refs_update [OF i, of "(xd_texture_units d ! i)\<lparr>tu_bind_target := target\<rparr>" a] by (simp add: tu_refs_def)
  with xd_inv_textures [OF inv] have "tm_inv (\<lambda>r. other r + unit_refs ?us r) (xd_textures d)" by simp
  moreover have "tu_slot k (?us ! j) = tu_slot k (xd_texture_units d ! j)" for j k by (cases "j = i") (simp_all add: slot i)
  ultimately have "xd_inv other (d\<lparr>xd_textures := xd_textures d, xd_texture_units := ?us\<rparr>)"
    by (intro xd_inv_step [OF inv _ keeps_refl]) simp_all
  then show ?thesis by simp
qed

text \<open>The kind of a target of \<^verbatim>\<open>glBindTexture\<close>.\<close>

lemma texture_targets_kind:
  assumes "target \<in> set texture_targets"
  shows "\<exists>k. target = default_target k \<and> GetDefaultTextureInfo target m = tm_default_textures m ! default_index k"
proof -
  from assms have "target = GL_TEXTURE_2D \<or> target = GL_TEXTURE_CUBE_MAP \<or> target = GL_TEXTURE_EXTERNAL_OES \<or> target = GL_TEXTURE_RECTANGLE_ARB"
    by (simp add: texture_targets_def)
  then show ?thesis
    by (elim disjE) (auto simp: GetDefaultTextureInfo_def intro: exI [of _ kTexture2D] exI [of _ kCubeMap] exI [of _ kExternalOES] exI [of _ kRectangleARB])
qed

lemma assign_by_target:
  "(if target = GL_TEXTURE_2D then assign_slot i kTexture2D x d
    else if target = GL_TEXTURE_CUBE_MAP then assign_slot i kCubeMap x d
    else if target = GL_TEXTURE_EXTERNAL_OES then assign_slot i kExternalOES x d
    else if target = GL_TEXTURE_RECTANGLE_ARB then assign_slot i kRectangleARB x d else y) = assign_slot i k x d"
  if "target = default_target k"
  using that by (cases k) simp_all

lemma bind_texture_info_ok:
  assumes inv: "xd_inv other d" and t: "tm_deref r (xd_textures d) = Some t" "ti_target t = default_target k"
  shows "\<exists>d'. bind_texture_info raises (default_target k) r d = Some d' \<and> xd_inv other d' \<and>
    tu_slot k (xd_texture_units d' ! unat (xd_active_texture_unit d')) = Some r"
proof -
  let ?d = "xgl raises (GlBindTexture (default_target k) (ti_service_id t)) d"
  let ?i = "unat (xd_active_texture_unit d)"
  define d1 where "d1 = ?d\<lparr>xd_texture_units := (xd_texture_units ?d)[?i := (xd_texture_units ?d ! ?i)\<lparr>tu_bind_target := default_target k\<rparr>]\<rparr>"
  have i: "?i < length (xd_texture_units d)" using inv by (simp add: xd_inv_def)
  have inv1: "xd_inv other d1" unfolding d1_def by (rule xd_inv_bind_target) (use inv i in simp_all)
  have s: "set_bind_target (default_target k) ?d = Some d1"
    using active_unit_ok [of other ?d] inv by (simp add: set_bind_target_def d1_def)
  have d1: "xd_textures d1 = xd_textures d" "xd_active_texture_unit d1 = xd_active_texture_unit d"
    "length (xd_texture_units d1) = length (xd_texture_units d)" by (simp_all add: d1_def)
  have "tex_slot_ok (xd_textures d1) k (Some r)" using t d1(1) by (simp add: tex_slot_ok_def)
  with assign_slot_ok [OF inv1, of ?i k "Some r"] i d1(3) obtain m' where
    m': "assign_slot ?i k (Some r) d1 = Some (d1\<lparr>xd_textures := m', xd_texture_units := (xd_texture_units d1)[?i := tu_set k (Some r) (xd_texture_units d1 ! ?i)]\<rparr>)"
      "xd_inv other (d1\<lparr>xd_textures := m', xd_texture_units := (xd_texture_units d1)[?i := tu_set k (Some r) (xd_texture_units d1 ! ?i)]\<rparr>)" by auto
  have "bind_texture_info raises (default_target k) r d = assign_slot ?i k (Some r) d1"
    using t(1) s unfolding bind_texture_info_def Let_def d1(2) by (simp add: assign_by_target [OF refl] d1(2))
  with m' d1 i show ?thesis by (simp add: tu_slot_set)
qed

lemma bind_texture_lookup_ok:
  assumes inv: "xd_inv other d" and target: "target \<in> set (xd_texture_bind_target d)"
  shows "\<exists>found d'. bind_texture_lookup raises gen target client_id d = Some (found, d') \<and> xd_inv other d' \<and>
    xd_active_texture_unit d' = xd_active_texture_unit d \<and> (\<forall>r. found = Some r \<longrightarrow> (\<exists>t. tm_deref r (xd_textures d') = Some t))"
proof -
  consider "client_id = 0" | "client_id \<noteq> 0" "GetTextureInfo client_id (xd_textures d) \<noteq> None \<or> \<not> vd_bind_generates_resource (xd_vertex d)"
    | "client_id \<noteq> 0" "GetTextureInfo client_id (xd_textures d) = None" "vd_bind_generates_resource (xd_vertex d)" by blast
  then show ?thesis
  proof cases
    case 1
    from inv target obtain r where r: "GetDefaultTextureInfo target (xd_textures d) = Some r" and t: "target \<in> set texture_targets" by (auto simp: xd_inv_def)
    from texture_targets_kind [OF t, of "xd_textures d"] r obtain k where "tm_default_textures (xd_textures d) ! default_index k = Some r" by auto
    from own_default_live(1) [OF xd_inv_textures [OF inv] this] 1 r inv show ?thesis by (simp add: bind_texture_lookup_def)
  next
    case 2
    with inv xd_table_live [OF inv, of client_id] show ?thesis by (auto simp: bind_texture_lookup_def xerr_def split: option.splits)
  next
    case 3
    let ?d = "xgl raises (GlGenTextures 1) d"
    have i: "xd_inv other ?d" using inv by simp
    from CreateTextureInfo_inv [OF xd_inv_textures [OF i], of client_id "gen (vd_gl (xd_vertex ?d)) 0"] 3(2) obtain r m where
      m: "CreateTextureInfo client_id (gen (vd_gl (xd_vertex ?d)) 0) (xd_textures ?d) = Some (r, m)"
        "tm_inv (\<lambda>r. other r + unit_refs (xd_texture_units ?d) r) m" "keeps (xd_textures ?d) m"
        "GetTextureInfo client_id m = Some r" "\<exists>t. tm_deref r m = Some t \<and> ti_target t = 0" by auto
    let ?d' = "?d\<lparr>xd_textures := m, xd_texture_ids := snd (MarkAsUsed client_id (xd_texture_ids ?d))\<rparr>"
    have "bind_texture_lookup raises gen target client_id d = Some (Some r, ?d')"
      using 3 m(1,4) by (simp add: bind_texture_lookup_def Let_def)
    with xd_inv_manager [OF i m(2,3)] m(5) show ?thesis by auto
  qed
qed

lemma DoBindTexture_ok:
  assumes inv: "xd_inv other d" and target: "target \<in> set (xd_texture_bind_target d)"
  shows "\<exists>d'. DoBindTexture raises gen target client_id d = Some d' \<and> xd_inv other d'"
proof -
  from bind_texture_lookup_ok [OF assms, of raises gen client_id] obtain found d1 where
    f: "bind_texture_lookup raises gen target client_id d = Some (found, d1)" "xd_inv other d1"
      "\<And>r. found = Some r \<Longrightarrow> \<exists>t. tm_deref r (xd_textures d1) = Some t" by blast
  from inv target have tt: "target \<in> set texture_targets" by (auto simp: xd_inv_def)
  then obtain k where k: "target = default_target k" using texture_targets_kind by blast
  show ?thesis
  proof (cases found)
    case None
    with f show ?thesis by (simp add: DoBindTexture_def)
  next
    case (Some r)
    from f(3) [OF this] obtain t where t: "tm_deref r (xd_textures d1) = Some t" ..
    show ?thesis
    proof (cases "ti_target t \<noteq> 0 \<and> ti_target t \<noteq> target \<or> ti_stream_texture t \<and> target \<noteq> GL_TEXTURE_EXTERNAL_OES")
      case True
      with Some f t show ?thesis by (auto simp: DoBindTexture_def)
    next
      case ok: False
      have "\<exists>m t'. (if ti_target t = 0 then SetInfoTarget r target (xd_textures d1) else Some (xd_textures d1)) = Some m \<and>
        tm_inv (\<lambda>r. other r + unit_refs (xd_texture_units d1) r) m \<and> keeps (xd_textures d1) m \<and> tm_deref r m = Some t' \<and> ti_target t' = target"
      proof (cases "ti_target t = 0")
        case True
        have inv1: "tm_inv (\<lambda>r. other r + unit_refs (xd_texture_units d1) r) (xd_textures d1)" by (rule xd_inv_textures [OF f(2)])
        then have "0 < MaxLevelsForTarget (xd_textures d1) target" by (simp add: tm_inv_def max_levels_pos)
        moreover define t' where "t' = ti_SetTarget target (MaxLevelsForTarget (xd_textures d1) target) t"
        moreover have "target \<noteq> 0" using k default_target_nonzero by simp
        ultimately obtain m where m: "SetInfoTarget r target (xd_textures d1) = Some m"
          "tm_inv (\<lambda>r. other r + unit_refs (xd_texture_units d1) r) m" "tm_changes r t' (xd_textures d1) m"
          using SetInfoTarget_ok [OF inv1 t True] by blast
        have t': "ti_target t' = target" "ti_has_manager t' = ti_has_manager t" "ti_stream_texture t' = ti_stream_texture t"
          by (simp_all add: t'_def ti_SetTarget_def Let_def)
        from keeps_changes [OF m(3) t t'(2,3)] True have "keeps (xd_textures d1) m" by simp
        with m t' True tm_changes_deref [OF m(3) t, of r] show ?thesis by simp
      next
        case False
        with ok t xd_inv_textures [OF f(2)] keeps_refl show ?thesis by auto
      qed
      then obtain m t' where m: "(if ti_target t = 0 then SetInfoTarget r target (xd_textures d1) else Some (xd_textures d1)) = Some m"
        "tm_inv (\<lambda>r. other r + unit_refs (xd_texture_units d1) r) m" "keeps (xd_textures d1) m" "tm_deref r m = Some t'" "ti_target t' = target" by blast
      from bind_texture_info_ok [OF xd_inv_manager [OF f(2) m(2,3)], of r t' k raises] m(4,5) k obtain d' where
        "bind_texture_info raises target r (d1\<lparr>xd_textures := m\<rparr>) = Some d'" "xd_inv other d'" by auto
      moreover have "\<not> (ti_target t \<noteq> 0 \<and> ti_target t \<noteq> target)" "\<not> (ti_stream_texture t \<and> target \<noteq> GL_TEXTURE_EXTERNAL_OES)" using ok by simp_all
      ultimately show ?thesis using Some f(1,2) t m(1) by (simp add: DoBindTexture_def)
    qed
  qed
qed

subsection \<open>Parameters, mipmaps and images\<close>

lemma GetTextureInfoForTarget_live:
  assumes inv: "xd_inv other d"
  shows "\<exists>x. GetTextureInfoForTarget target d = Some x \<and> (\<forall>r. x = Some r \<longrightarrow> (\<exists>t. tm_deref r (xd_textures d) = Some t))"
proof -
  let ?u = "xd_texture_units d ! unat (xd_active_texture_unit d)"
  have i: "unat (xd_active_texture_unit d) < length (xd_texture_units d)" using inv by (simp add: xd_inv_def)
  have "\<exists>t. tm_deref r (xd_textures d) = Some t" if "tu_slot k ?u = Some r" for k r using slot_live [OF inv i that] by blast
  from this [of kTexture2D] this [of kCubeMap] this [of kExternalOES] this [of kRectangleARB] show ?thesis
    using active_unit_ok [OF inv] by (simp add: GetTextureInfoForTarget_def)
qed

text \<open>A target that the texture image commands accept names a face of the texture that is bound.\<close>

lemma GetTextureInfoForTarget_face:
  assumes inv: "xd_inv other d" and v: "IsValid valid_texture_target_table target" and r: "GetTextureInfoForTarget target d = Some (Some r)"
  shows "\<exists>t. tm_deref r (xd_textures d) = Some t \<and> ti_target t \<noteq> 0 \<and> target \<noteq> 0 \<and> GLTargetToFaceIndex target < num_faces (ti_target t) \<and>
    MaxLevelsForTarget (xd_textures d) (ti_target t) = MaxLevelsForTarget (xd_textures d) target"
proof -
  let ?u = "xd_texture_units d ! unat (xd_active_texture_unit d)"
  have i: "unat (xd_active_texture_unit d) < length (xd_texture_units d)" using inv by (simp add: xd_inv_def)
  show ?thesis
  proof (cases "target = GL_TEXTURE_2D")
    case True
    then have "tu_slot kTexture2D ?u = Some r" using r active_unit_ok [OF inv] by (simp add: GetTextureInfoForTarget_def)
    from slot_live [OF inv i this] True show ?thesis by (auto simp: num_faces_def GLTargetToFaceIndex_def)
  next
    case False
    then have face: "target \<in> {GL_TEXTURE_CUBE_MAP_POSITIVE_X, GL_TEXTURE_CUBE_MAP_NEGATIVE_X, GL_TEXTURE_CUBE_MAP_POSITIVE_Y,
        GL_TEXTURE_CUBE_MAP_NEGATIVE_Y, GL_TEXTURE_CUBE_MAP_POSITIVE_Z, GL_TEXTURE_CUBE_MAP_NEGATIVE_Z}"
      using v by (auto simp: IsValid_def valid_texture_target_table_def)
    then have "GetTextureInfoForTarget target d = Some (tu_bound_texture_cube_map ?u)"
      using active_unit_ok [OF inv] by (auto simp: GetTextureInfoForTarget_def)
    with r have "tu_slot kCubeMap ?u = Some r" by simp
    from slot_live [OF inv i this] obtain t where t: "tm_deref r (xd_textures d) = Some t" "ti_target t = GL_TEXTURE_CUBE_MAP" by auto
    from face have "target \<noteq> 0 \<and> GLTargetToFaceIndex target < 6 \<and> MaxLevelsForTarget (xd_textures d) target = tm_max_cube_map_levels (xd_textures d)"
      by (auto simp: GLTargetToFaceIndex_def MaxLevelsForTarget_def)
    with t show ?thesis by (auto simp: num_faces_def MaxLevelsForTarget_def)
  qed
qed

text \<open>What \<^verbatim>\<open>ValidForTarget\<close> accepts has room for all of its mips.\<close>

lemma ValidForTarget_levels:
  assumes lim: "limits_ok m" and v: "IsValid valid_texture_target_table target" and ok: "ValidForTarget target level width height 1 m"
  shows "0 \<le> level" "level < MaxLevelsForTarget m target" "0 \<le> width" "0 \<le> height"
    "ComputeMipMapCount width height 1 \<le> MaxLevelsForTarget m target"
proof -
  show "0 \<le> level" "level < MaxLevelsForTarget m target" and wh: "0 \<le> width" "0 \<le> height" using ok by (simp_all add: ValidForTarget_def Let_def)
  let ?s = "MaxSizeForTarget m target"
  have "target \<noteq> GL_TEXTURE_EXTERNAL_OES" using v by (auto simp: IsValid_def valid_texture_target_table_def)
  then have "MaxLevelsForTarget m target = ComputeMipMapCount ?s ?s ?s" "?s < 2147483648"
    using lim by (simp_all add: MaxLevelsForTarget_def MaxSizeForTarget_def limits_ok_def)
  moreover have "width \<le> ?s" "height \<le> ?s" "1 \<le> ?s" using ok by (simp_all add: ValidForTarget_def Let_def)
  ultimately show "ComputeMipMapCount width height 1 \<le> MaxLevelsForTarget m target"
    using ComputeMipMapCount_mono [of width height 1 ?s] wh by simp
qed

lemma SetLevelInfo_face:
  assumes inv: "xd_inv other d" and v: "IsValid valid_texture_target_table target" and r: "GetTextureInfoForTarget target d = Some (Some r)"
    and ok: "ValidForTarget target level width height 1 (xd_textures d)" and d': "xd_inv other d'" "xd_textures d' = xd_textures d"
  shows "\<exists>m'. tm_SetLevelInfo r target level internal_format width height 1 border format type cleared (xd_textures d') = Some m' \<and>
    xd_inv other (d'\<lparr>xd_textures := m'\<rparr>)"
proof -
  from GetTextureInfoForTarget_face [OF inv v r] obtain t where t: "tm_deref r (xd_textures d) = Some t" "ti_target t \<noteq> 0" "target \<noteq> 0"
    "GLTargetToFaceIndex target < num_faces (ti_target t)"
    and max: "MaxLevelsForTarget (xd_textures d) (ti_target t) = MaxLevelsForTarget (xd_textures d) target" by blast
  have "limits_ok (xd_textures d)" using inv by (simp add: xd_inv_def tm_inv_def)
  note lv = ValidForTarget_levels [OF this v ok, folded max]
  note inv' = xd_inv_textures [OF d'(1), unfolded d'(2)]
  from SetLevelInfo_ok [OF inv' t lv(1-4), of 1] lv(5) obtain t' m' where
    m': "tm_SetLevelInfo r target level internal_format width height 1 border format type cleared (xd_textures d) = Some m'"
      "tm_inv (\<lambda>r. other r + unit_refs (xd_texture_units d') r) m'" "tm_changes r t' (xd_textures d) m'" "ti_frame t t'" by fastforce
  have "keeps (xd_textures d') m'" using keeps_frame [OF m'(3) t(1) m'(4)] d'(2) by simp
  from xd_inv_manager [OF d'(1) m'(2) this] m'(1) d'(2) show ?thesis by simp
qed

lemma DoGenerateMipmap_ok:
  assumes inv: "xd_inv other d"
  shows "\<exists>d'. DoGenerateMipmap raises target d = Some d' \<and> xd_inv other d'"
proof -
  from GetTextureInfoForTarget_live [OF inv, of target] obtain x where x: "GetTextureInfoForTarget target d = Some x"
    "\<And>r. x = Some r \<Longrightarrow> \<exists>t. tm_deref r (xd_textures d) = Some t" by blast
  show ?thesis
  proof (cases x)
    case None
    with x inv show ?thesis by (simp add: DoGenerateMipmap_def)
  next
    case (Some r)
    with x(2) obtain t where t: "tm_deref r (xd_textures d) = Some t" by blast
    from MarkMipmapsGenerated_ok [OF xd_inv_textures [OF inv] t] obtain b t' m' where m': "tm_MarkMipmapsGenerated r (xd_textures d) = Some (b, m')"
      "tm_inv (\<lambda>r. other r + unit_refs (xd_texture_units d) r) m'" "tm_changes r t' (xd_textures d) m'" "ti_frame t t'" by blast
    have "tm_deref r m' = Some t'" using tm_changes_deref [OF m'(3) t] by simp
    with xd_inv_manager [OF inv m'(2) keeps_frame [OF m'(3) t m'(4)]] m'(1) Some x(1) show ?thesis by (cases b) (simp_all add: DoGenerateMipmap_def)
  qed
qed

lemma DoTexParameteri_ok:
  assumes inv: "xd_inv other d"
  shows "\<exists>d'. DoTexParameteri raises target pname param d = Some d' \<and> xd_inv other d'"
proof -
  from GetTextureInfoForTarget_live [OF inv, of target] obtain x where x: "GetTextureInfoForTarget target d = Some x"
    "\<And>r. x = Some r \<Longrightarrow> \<exists>t. tm_deref r (xd_textures d) = Some t" by blast
  show ?thesis
  proof (cases x)
    case None
    with x inv show ?thesis by (simp add: DoTexParameteri_def)
  next
    case (Some r)
    with x(2) obtain t where t: "tm_deref r (xd_textures d) = Some t" by blast
    from SetParameter_ok [OF xd_inv_textures [OF inv] t, of pname "uint32 param"] obtain b t' m' where
      m': "tm_SetParameter r pname (uint32 param) (xd_textures d) = Some (b, m')"
      "tm_inv (\<lambda>r. other r + unit_refs (xd_texture_units d) r) m'" "tm_changes r t' (xd_textures d) m'" "ti_frame t t'" by blast
    with xd_inv_manager [OF inv m'(2) keeps_frame [OF m'(3) t m'(4)]] Some x(1) show ?thesis by (cases b) (simp_all add: DoTexParameteri_def)
  qed
qed

text \<open>What the helpers for errors and framebuffers leave alone.\<close>

definition xd_same :: "TextureDecoder \<Rightarrow> TextureDecoder \<Rightarrow> bool" where
  "xd_same d d' \<longleftrightarrow> xd_textures d' = xd_textures d \<and> xd_texture_units d' = xd_texture_units d \<and>
     xd_active_texture_unit d' = xd_active_texture_unit d \<and> (\<forall>other. xd_inv other d' = xd_inv other d)"

lemma xd_same_refl: "xd_same d d"
  by (simp add: xd_same_def)

lemma xd_same_trans: "xd_same d d1 \<Longrightarrow> xd_same d1 d2 \<Longrightarrow> xd_same d d2"
  by (simp add: xd_same_def)

lemma xd_same_helpers:
  "xd_same d (xgl raises c d)" "xd_same d (xerr e d)" "xd_same d (touch_framebuffers t d)" "xd_same d (xd_CopyRealGLErrorsToWrapper d)"
  "xd_same d (snd (xd_PeekGLError d))" "xd_same d (WrappedTexImage2D raises egl target level i w h b f ty p d)"
  by (simp_all add: xd_same_def xgl_def xerr_def touch_framebuffers_def xd_CopyRealGLErrorsToWrapper_def xd_PeekGLError_def
      WrappedTexImage2D_def Let_def split_def)

lemma DoCompressedTexImage2D_ok:
  assumes inv: "xd_inv other d"
  shows "\<exists>d'. DoCompressedTexImage2D raises target level internal_format width height border imageSize data d = Some d' \<and> xd_inv other d'"
proof -
  from GetTextureInfoForTarget_live [OF inv, of target] obtain x where x: "GetTextureInfoForTarget target d = Some x"
    "\<And>r. x = Some r \<Longrightarrow> \<exists>t. tm_deref r (xd_textures d) = Some t" by blast
  show ?thesis
  proof (cases "IsValid valid_texture_target_table target \<and> IsValid (xd_compressed_texture_format d) internal_format \<and>
      ValidForTarget target level width height 1 (xd_textures d) \<and> border = 0 \<and> x \<noteq> None")
    case False
    with inv x show ?thesis by (auto simp: DoCompressedTexImage2D_def)
  next
    case True
    then obtain r where r: "x = Some r" by auto
    with x(2) obtain t where t: "tm_deref r (xd_textures d) = Some t" by blast
    define bytes where "bytes = (case data of None \<Rightarrow> replicate (nat imageSize) 0 | Some bs \<Rightarrow> bs)"
    define d1 where "d1 = xgl raises (GlCompressedTexImage2D target level internal_format width height 0 imageSize bytes)
      (xd_CopyRealGLErrorsToWrapper (touch_framebuffers t d))"
    obtain err d2 where p: "xd_PeekGLError d1 = (err, d2)" by fastforce
    have "xd_same d d2"
      using xd_same_helpers(5) [of d1] p unfolding d1_def by (metis snd_conv xd_same_helpers(1,3,4) xd_same_trans)
    then have d2: "xd_inv other d2" "xd_textures d2 = xd_textures d" using inv by (simp_all add: xd_same_def)
    from SetLevelInfo_face [OF inv _ x(1) [unfolded r] _ d2, of level width height internal_format 0 0 0 True] True obtain m' where
      "tm_SetLevelInfo r target level internal_format width height 1 0 0 0 True (xd_textures d2) = Some m'" "xd_inv other (d2\<lparr>xd_textures := m'\<rparr>)" by blast
    with True r x(1) t p d2(1) inv show ?thesis
      by (cases "ti_immutable t"; cases "err = GL_NO_ERROR") (simp_all add: DoCompressedTexImage2D_def Let_def bytes_def [symmetric] d1_def [symmetric])
  qed
qed

lemma set_level_info_ok:
  assumes inv: "xd_inv other d" and v: "IsValid valid_texture_target_table target" and r: "GetTextureInfoForTarget target d = Some (Some r)"
    and ok: "ValidForTarget target level width height 1 (xd_textures d)" and d': "xd_same d d'"
  shows "\<exists>d2. set_level_info r target level internal_format width height border format type cleared d' = Some d2 \<and> xd_inv other d2"
proof -
  have d2: "xd_inv other d'" "xd_textures d' = xd_textures d" using inv d' by (simp_all add: xd_same_def)
  from SetLevelInfo_face [OF inv v r ok d2, of internal_format border format type cleared] obtain m' where
    "tm_SetLevelInfo r target level internal_format width height 1 border format type cleared (xd_textures d') = Some m'" "xd_inv other (d'\<lparr>xd_textures := m'\<rparr>)" by blast
  then show ?thesis by (simp add: set_level_info_def)
qed

lemma DoTexImage2D_ok:
  assumes inv: "xd_inv other d"
  shows "\<exists>d'. DoTexImage2D raises egl target level internal_format width height border format type pixels d = Some d' \<and> xd_inv other d'"
proof -
  from GetTextureInfoForTarget_live [OF inv, of target] obtain x where x: "GetTextureInfoForTarget target d = Some x"
    "\<And>r. x = Some r \<Longrightarrow> \<exists>t. tm_deref r (xd_textures d) = Some t" by blast
  show ?thesis
  proof (cases "IsValid valid_texture_target_table target \<and> IsValid (xd_texture_format d) internal_format \<and> IsValid (xd_texture_format d) format \<and>
      IsValid (xd_pixel_type d) type \<and> format = internal_format \<and> ValidForTarget target level width height 1 (xd_textures d) \<and> border = 0 \<and> x \<noteq> None")
    case False
    with inv x show ?thesis by (auto simp: DoTexImage2D_def)
  next
    case True
    then obtain r where r: "x = Some r" by auto
    with x(2) obtain t where t: "tm_deref r (xd_textures d) = Some t" by blast
    let ?d1 = "touch_framebuffers t d"
    define d2 where "d2 = WrappedTexImage2D raises egl target level internal_format width height 0 internal_format type pixels (xd_CopyRealGLErrorsToWrapper ?d1)"
    obtain err d3 where p: "xd_PeekGLError d2 = (err, d3)" by fastforce
    have same: "xd_same d ?d1" "xd_same d d3"
      using xd_same_helpers(5) [of d2] p unfolding d2_def by (metis xd_same_helpers(3), metis snd_conv xd_same_helpers(3,4,6) xd_same_trans)
    have set: "\<exists>d2. set_level_info r target level internal_format width height 0 internal_format type c d' = Some d2 \<and> xd_inv other d2" if "xd_same d d'" for c d'
      using set_level_info_ok [OF inv _ x(1) [unfolded r] _ that] True by blast
    have i: "xd_inv other ?d1" "xd_inv other d3" using same inv by (simp_all add: xd_same_def)
    have g: "format = internal_format" "border = 0" "IsValid valid_texture_target_table target = True" "IsValid (xd_texture_format d) internal_format = True"
      "IsValid (xd_pixel_type d) type = True" "ValidForTarget target level width height 1 (xd_textures d) = True" using True by simp_all
    have eq: "DoTexImage2D raises egl target level internal_format width height border format type pixels d =
      (if ti_immutable t then Some (xerr GL_INVALID_OPERATION d)
       else if level_is_same target level width height internal_format type t \<and> pixels = None
       then set_level_info r target level internal_format width height 0 internal_format type False d
       else if \<not> xd_teximage2d_faster_than_texsubimage2d ?d1 \<and> level_is_same target level width height internal_format type t \<and> pixels \<noteq> None
       then Some ((xgl raises (GlTexSubImage2D target level 0 0 width height internal_format type pixels) ?d1)\<lparr>xd_tex_image_2d_failed := False\<rparr>)
       else if err = GL_NO_ERROR
       then set_level_info r target level internal_format width height 0 internal_format type (pixels \<noteq> None) d3 else Some d3)"
      unfolding DoTexImage2D_def g(1,2)
      by (simp only: g(3-6) x(1) r t Let_def d2_def [symmetric] p if_False if_True simp_thms Option.bind.simps option.case prod.case)
    show ?thesis unfolding eq using set [OF xd_same_refl] set [OF same(2)] inv i by simp
  qed
qed

lemma ComputeImageDataSize_Some:
  assumes "0 < a" "a < 2147483648"
  shows "\<exists>ok sz. ComputeImageDataSize width height format type a = Some (ok, sz) \<and> (ok \<longrightarrow> sz \<noteq> None)"
proof -
  have "uint32 a \<noteq> 0" using uint32_unat [of a] u32_zero [of "uint32 a"] assms by auto
  then show ?thesis by (auto simp: ComputeImageDataSize_def Let_def split: prod.splits)
qed

lemma HandleTexImage2D_ok:
  assumes inv: "xd_inv other d"
  shows "\<exists>e d'. HandleTexImage2D raises egl target level internal_format width height border format type has_pixels memory d = Some (e, d') \<and> xd_inv other d'"
proof -
  let ?d = "d\<lparr>xd_tex_image_2d_failed := True\<rparr>"
  have i: "xd_inv other ?d" using inv by simp
  have "0 < xd_unpack_alignment d" "xd_unpack_alignment d < 2147483648" using inv by (simp_all add: xd_inv_def)
  from ComputeImageDataSize_Some [OF this] obtain ok sz where
    c: "ComputeImageDataSize width height (sint format) (sint type) (xd_unpack_alignment d) = Some (ok, sz)" "ok \<longrightarrow> sz \<noteq> None" by blast
  show ?thesis
  proof (cases ok)
    case True
    with c obtain n where n: "sz = Some n" by auto
    note ok = DoTexImage2D_ok [OF i, of raises egl target level "uint32 internal_format" width height border format type]
    from ok [of None] ok [of "memory n"] True c n i show ?thesis by (cases has_pixels; cases "memory n") (auto simp: HandleTexImage2D_def)
  qed (use c i in \<open>simp add: HandleTexImage2D_def\<close>)
qed

lemma DoCompressedTexSubImage2D_ok:
  assumes inv: "xd_inv other d"
  shows "\<exists>d'. DoCompressedTexSubImage2D raises target level xoffset yoffset width height format imageSize data d = Some d' \<and> xd_inv other d'"
  using GetTextureInfoForTarget_live [OF inv, of target] inv by (auto simp: DoCompressedTexSubImage2D_def split: option.splits)

lemma uint32_sint [simp]: "uint32 (sint (x :: u32)) = x"
  by (simp add: uint32_def)

lemma GetLevelType_range:
  assumes "GetLevelType (sint target) level t = Some p"
  shows "0 \<le> level" and "GLTargetToFaceIndex target < length (ti_level_infos t)" and "nat level < length (ti_level_infos t ! GLTargetToFaceIndex target)"
proof -
  from assms obtain l where l: "level_at (ti_level_infos t) (GLTargetToFaceIndex target) level = Some l"
    by (auto simp: GetLevelType_def split: option.splits)
  show "0 \<le> level" "GLTargetToFaceIndex target < length (ti_level_infos t)" "nat level < length (ti_level_infos t ! GLTargetToFaceIndex target)"
    using l by (auto elim: level_atE)
qed

lemma level_in_texture:
  assumes inv: "tm_inv ext m" and t: "tm_deref r m = Some t" "ti_target t \<noteq> 0" and l: "GetLevelType (sint target) level t = Some p"
    and face: "GLTargetToFaceIndex target < num_faces (ti_target t)"
  shows "0 \<le> level" and "level < MaxLevelsForTarget m (ti_target t)"
proof -
  have "shape (num_faces (ti_target t)) (nat (MaxLevelsForTarget m (ti_target t))) (ti_level_infos t)"
    using tm_invD(3) [OF inv t(1)] t(2) by (simp add: ti_ok_def ti_shape_def)
  with GetLevelType_range [OF l] face show "0 \<le> level" "level < MaxLevelsForTarget m (ti_target t)" by (auto simp: shape_def)
qed

lemma xd_ClearLevel_total:
  assumes inv: "xd_inv other d"
  shows "\<forall>t l v. xd_ClearLevel raises egl d t l v \<noteq> None"
proof (intro allI)
  fix t :: TextureInfo and l :: LevelInfo and v :: VertexDecoder
  have "0 < xd_unpack_alignment d" "xd_unpack_alignment d < 2147483648" using inv by (simp_all add: xd_inv_def)
  from ComputeImageDataSize_Some [OF this] obtain ok sz where
    c: "ComputeImageDataSize (li_width l) (li_height l) (sint (li_format l)) (sint (li_type l)) (xd_unpack_alignment d) = Some (ok, sz)"
      "ok \<longrightarrow> sz \<noteq> None" by blast
  have "\<exists>x. GetTextureInfoForTarget (ti_target t) d' = Some x \<and> (\<forall>r. x = Some r \<longrightarrow> (\<exists>t. tm_deref r (xd_textures d') = Some t))"
    if "xd_same d d'" for d'
    using GetTextureInfoForTarget_live [of other d' "ti_target t"] inv that by (auto simp: xd_same_def)
  note live = this
  have vertex: "xd_same d (d\<lparr>xd_vertex := v\<rparr>)" by (simp add: xd_same_def)
  show "xd_ClearLevel raises egl d t l v \<noteq> None"
  proof (cases ok)
    case True
    then obtain n where n: "sz = Some n" using c(2) by blast
    define d2 where "d2 = (if ti_immutable t
      then xgl raises (GlTexSubImage2D (li_target l) (li_level l) 0 0 (li_width l) (li_height l) (li_format l) (li_type l) (Some (replicate (unat n) 0)))
        (xgl raises (GlBindTexture (ti_target t) (ti_service_id t)) (d\<lparr>xd_vertex := v\<rparr>))
      else WrappedTexImage2D raises egl (li_target l) (li_level l) (li_format l) (li_width l) (li_height l) 0
        (li_format l) (li_type l) (Some (replicate (unat n) 0)) (xgl raises (GlBindTexture (ti_target t) (ti_service_id t)) (d\<lparr>xd_vertex := v\<rparr>)))"
    note bound = xd_same_trans [OF vertex xd_same_helpers(1)]
    have "xd_same d d2"
      using xd_same_trans [OF bound xd_same_helpers(1)] xd_same_trans [OF bound xd_same_helpers(6)] by (simp add: d2_def)
    from live [OF this] obtain x where "GetTextureInfoForTarget (ti_target t) d2 = Some x" "\<forall>r. x = Some r \<longrightarrow> (\<exists>t. tm_deref r (xd_textures d2) = Some t)" by blast
    moreover have "xd_ClearLevel raises egl d t l v = do {
        info \<leftarrow> GetTextureInfoForTarget (ti_target t) d2;
        service_id \<leftarrow> (case info of None \<Rightarrow> Some 0 | Some r \<Rightarrow> map_option ti_service_id (tm_deref r (xd_textures d2)));
        Some (True, xd_vertex (xgl raises (GlBindTexture (ti_target t) service_id) d2))
      }"
      by (simp only: xd_ClearLevel_def c(1) n True Let_def d2_def Option.bind.simps prod.case simp_thms if_False)
    ultimately show ?thesis by (cases x) auto
  qed (simp add: xd_ClearLevel_def c(1))
qed

lemma DoTexSubImage2D_ok:
  assumes inv: "xd_inv other d" and v: "IsValid valid_texture_target_table target"
  shows "\<exists>d'. DoTexSubImage2D raises egl target level xoffset yoffset width height format type data d = Some d' \<and> xd_inv other d'"
proof -
  from GetTextureInfoForTarget_live [OF inv, of target] obtain x where x: "GetTextureInfoForTarget target d = Some x" by blast
  show ?thesis
  proof (cases x)
    case None
    with x inv show ?thesis by (simp add: DoTexSubImage2D_def)
  next
    case (Some r)
    note invm = xd_inv_textures [OF inv]
    from GetTextureInfoForTarget_face [OF inv v x [unfolded Some]] obtain t where t: "tm_deref r (xd_textures d) = Some t" "ti_target t \<noteq> 0"
      and face: "GLTargetToFaceIndex target < num_faces (ti_target t)" by blast
    show ?thesis
    proof (cases "GetLevelType (sint target) level t")
      case None
      with Some x t inv show ?thesis by (simp add: DoTexSubImage2D_def)
    next
      case l: (Some p)
      obtain ct f where p: "p = (ct, f)" by fastforce
      note lv = level_in_texture [OF invm t l face]
      from SetLevelCleared_ok [OF invm t face lv] obtain t1 m1 where m1: "tm_SetLevelCleared r target level (xd_textures d) = Some m1"
        "tm_inv (\<lambda>r. other r + unit_refs (xd_texture_units d) r) m1" "tm_changes r t1 (xd_textures d) m1" "ti_frame t t1" by blast
      have set: "\<exists>d'. set_level_cleared r target level d1 = Some d' \<and> xd_inv other d'" if "xd_same d d1" for d1
      proof -
        have d1: "xd_inv other d1" "xd_textures d1 = xd_textures d" "xd_texture_units d1 = xd_texture_units d" using inv that by (simp_all add: xd_same_def)
        have "keeps (xd_textures d1) m1" using keeps_frame [OF m1(3) t(1) m1(4)] d1(2) by simp
        from xd_inv_manager [OF d1(1) _ this] m1(1,2) d1 show ?thesis by (simp add: set_level_cleared_def)
      qed
      from ClearTextureLevel_ok [OF invm t(1) lv(1) xd_ClearLevel_total [OF inv], of raises egl target "xd_vertex d"] obtain b t2 m2 v2 where
        m2: "ClearTextureLevel (xd_ClearLevel raises egl d) r target level (xd_textures d) (xd_vertex d) = Some (b, m2, v2)"
        "tm_inv (\<lambda>r. other r + unit_refs (xd_texture_units d) r) m2" "tm_changes r t2 (xd_textures d) m2" "ti_frame t t2" by blast
      have i2: "xd_inv other (d\<lparr>xd_vertex := v2, xd_textures := m2\<rparr>)"
        using xd_inv_manager [of other "d\<lparr>xd_vertex := v2\<rparr>" m2] inv m2(2) keeps_frame [OF m2(3) t(1) m2(4)] by simp
      show ?thesis
      proof (cases "format \<noteq> f \<or> type \<noteq> ct \<or> \<not> ValidForTexture (sint target) level xoffset yoffset width height format type t")
        case True
        with Some x t l p inv show ?thesis by (auto simp: DoTexSubImage2D_def)
      next
        case False
        then have g: "f = format" "ct = type" "ValidForTexture (sint target) level xoffset yoffset width height format type t" by simp_all
        let ?part = "xoffset \<noteq> 0 \<or> yoffset \<noteq> 0 \<or> GetLevelSize (sint target) level t \<noteq> Some (width, height)"
        define d1 where "d1 = (if xd_teximage2d_faster_than_texsubimage2d d \<and> \<not> ti_immutable t
          then WrappedTexImage2D raises egl target level format width height 0 format type (Some data) d
          else xgl raises (GlTexSubImage2D target level xoffset yoffset width height format type (Some data)) d)"
        have "xd_same d d1" by (simp add: d1_def xd_same_helpers)
        note s1 = set [OF this] and s0 = set [OF xd_same_refl]
        have eq: "DoTexSubImage2D raises egl target level xoffset yoffset width height format type data d =
          (if ?part then do {
             (ok, d1) \<leftarrow> (if \<not> xd_surface_is_offscreen d then map_option (Pair True) (set_level_cleared r target level d)
                         else Some (b, d\<lparr>xd_vertex := v2, xd_textures := m2\<rparr>));
             if \<not> ok then Some (xerr GL_OUT_OF_MEMORY d1)
             else Some (xgl raises (GlTexSubImage2D target level xoffset yoffset width height format type (Some data)) d1)
           } else set_level_cleared r target level d1)"
          unfolding DoTexSubImage2D_def
          by (simp only: x Some t(1) l p g m2(1) Let_def d1_def [symmetric] if_False if_True simp_thms Option.bind.simps option.case prod.case)
        show ?thesis
        proof (cases ?part)
          case True
          with s0 i2 show ?thesis unfolding eq by (cases "xd_surface_is_offscreen d"; cases b) auto
        next
          case False
          from s1 show ?thesis unfolding eq if_not_P [OF False] .
        qed
      qed
    qed
  qed
qed

lemma HandleTexSubImage2D_ok:
  assumes inv: "xd_inv other d"
  shows "\<exists>e d'. HandleTexSubImage2D raises egl internal target level xoffset yoffset width height format type memory d = Some (e, d') \<and> xd_inv other d'"
proof -
  have "0 < xd_unpack_alignment d" "xd_unpack_alignment d < 2147483648" using inv by (simp_all add: xd_inv_def)
  from ComputeImageDataSize_Some [OF this] obtain ok sz where
    c: "ComputeImageDataSize width height (sint format) (sint type) (xd_unpack_alignment d) = Some (ok, sz)" "ok \<longrightarrow> sz \<noteq> None" by blast
  show ?thesis
  proof (cases "ok \<and> IsValid valid_texture_target_table target \<and> \<not> (internal \<and> xd_tex_image_2d_failed d)")
    case True
    with c obtain n where n: "sz = Some n" by auto
    note ok = DoTexSubImage2D_ok [OF inv, of target raises egl level xoffset yoffset width height format type]
    from True have g: "ok" "IsValid valid_texture_target_table target" "\<not> (internal \<and> xd_tex_image_2d_failed d)" by simp_all
    show ?thesis
    proof (cases "memory n")
      case None
      with g c n inv show ?thesis by (simp add: HandleTexSubImage2D_def if_not_P [OF g(3)])
    next
      case (Some pixels)
      from ok [OF g(2), of pixels] obtain d' where "DoTexSubImage2D raises egl target level xoffset yoffset width height format type pixels d = Some d'"
        "xd_inv other d'" by blast
      with Some g c n inv show ?thesis by (simp add: HandleTexSubImage2D_def if_not_P [OF g(3)])
    qed
  qed (use c inv in \<open>auto simp: HandleTexSubImage2D_def\<close>)
qed

subsection \<open>Immutable textures\<close>

lemma size_fits:
  assumes lim: "limits_ok m" and v: "IsValid valid_texture_target_table target"
    and s: "0 \<le> width" "0 \<le> height" "width \<le> MaxSizeForTarget m target" "height \<le> MaxSizeForTarget m target"
  shows "ComputeMipMapCount width height 1 \<le> MaxLevelsForTarget m target"
proof -
  let ?s = "MaxSizeForTarget m target"
  have "target \<noteq> GL_TEXTURE_EXTERNAL_OES" using v by (auto simp: IsValid_def valid_texture_target_table_def)
  then have "MaxLevelsForTarget m target = ComputeMipMapCount ?s ?s ?s" "?s < 2147483648" "1 \<le> ?s"
    using lim by (simp_all add: MaxLevelsForTarget_def MaxSizeForTarget_def limits_ok_def)
  with ComputeMipMapCount_mono [of width height 1 ?s] s show ?thesis by simp
qed

lemma storage_loop_ok:
  assumes v: "IsValid valid_texture_target_table target" "target \<noteq> 0"
  shows "tm_inv ext m \<Longrightarrow> tm_deref r m = Some t \<Longrightarrow> ti_target t \<noteq> 0 \<Longrightarrow> GLTargetToFaceIndex target < num_faces (ti_target t) \<Longrightarrow>
    MaxLevelsForTarget m (ti_target t) = MaxLevelsForTarget m target \<Longrightarrow> 0 \<le> width \<Longrightarrow> 0 \<le> height \<Longrightarrow>
    width \<le> MaxSizeForTarget m target \<Longrightarrow> height \<le> MaxSizeForTarget m target \<Longrightarrow>
    \<exists>t' m'. storage_loop n r target format type width height m = Some m' \<and> tm_inv ext m' \<and> tm_changes r t' m m' \<and> ti_frame t t'"
proof (induction n arbitrary: m t width height)
  case 0
  then show ?case using tm_changes_refl [OF 0(2)] ti_frame_refl by auto
next
  case (Suc n)
  have lim: "limits_ok m" using Suc.prems(1) by (simp add: tm_inv_def)
  have lv: "0 < MaxLevelsForTarget m (ti_target t)" by (rule max_levels_pos [OF lim])
  have fits: "ComputeMipMapCount width height 1 \<le> MaxLevelsForTarget m (ti_target t)"
    unfolding Suc.prems(5) by (rule size_fits [OF lim v(1) Suc.prems(6-9)])
  from SetLevelInfo_ok [OF Suc.prems(1-3) v(2) Suc.prems(4) order_refl lv Suc.prems(6,7), of 1 format 0 format type False] fits obtain t1 m1 where
    m1: "tm_SetLevelInfo r target 0 format width height 1 0 format type False m = Some m1" "tm_inv ext m1" "tm_changes r t1 m m1" "ti_frame t t1" by auto
  have d1: "tm_deref r m1 = Some t1" using tm_changes_deref [OF m1(3) Suc.prems(2)] by simp
  have c: "MaxLevelsForTarget m1 a = MaxLevelsForTarget m a" "MaxSizeForTarget m1 a = MaxSizeForTarget m a" for a
    using m1(3) by (simp_all add: tm_changes_def tm_same_config_def MaxLevelsForTarget_def MaxSizeForTarget_def)
  have "1 \<le> MaxSizeForTarget m target" using lim by (simp add: limits_ok_def MaxSizeForTarget_def)
  then have h: "half x \<le> MaxSizeForTarget m1 target" if "x \<le> MaxSizeForTarget m target" "0 \<le> x" for x
    using that unfolding c half_def by simp
  have t1: "ti_target t1 = ti_target t" using m1(4) by (simp add: ti_frame_def)
  have nn: "0 \<le> half x" for x by (simp add: half_def)
  from Suc.IH [OF m1(2) d1 _ _ _ nn [of width] nn [of height] h [OF Suc.prems(8,6)] h [OF Suc.prems(9,7)]] Suc.prems(3-5) t1 c(1) obtain t' m' where
    "storage_loop n r target format type (half width) (half height) m1 = Some m'" "tm_inv ext m'" "tm_changes r t' m1 m'" "ti_frame t1 t'"
    by auto
  with m1 tm_changes_trans [OF m1(3)] ti_frame_trans [OF m1(4)] show ?case by auto
qed

lemma SetImmutable_keeps:
  assumes "tm_inv ext m" and "tm_deref r m = Some t"
  shows "tm_inv ext (tm_store r (Some (SetImmutable b t)) m)" and "keeps m (tm_store r (Some (SetImmutable b t)) m)"
proof -
  have e: "SetImmutable b t = t\<lparr>ti_service_id := ti_service_id t, ti_deleted := ti_deleted t, ti_owned := ti_owned t,
    ti_stream_texture := ti_stream_texture t, ti_immutable := b, ti_framebuffer_attachment_count := ti_framebuffer_attachment_count t\<rparr>"
    by (simp add: SetImmutable_def)
  note f = tm_inv_flags [OF assms e]
  show "tm_inv ext (tm_store r (Some (SetImmutable b t)) m)" by (rule f(1))
  show "keeps m (tm_store r (Some (SetImmutable b t)) m)" by (rule keeps_changes [OF f(2) assms(2)]) (simp_all add: SetImmutable_def)
qed

lemma DoTexStorage2DEXT_ok:
  assumes inv: "xd_inv other d" and v: "IsValid valid_texture_target_table target"
  shows "\<exists>d'. DoTexStorage2DEXT raises egl target levels internal_format width height d = Some d' \<and> xd_inv other d'"
proof -
  from GetTextureInfoForTarget_live [OF inv, of target] obtain x where x: "GetTextureInfoForTarget target d = Some x" by blast
  show ?thesis
  proof (cases "ValidForTarget target 0 width height 1 (xd_textures d) \<and> levels \<le> ComputeMipMapCount width height 1 \<and> x \<noteq> None")
    case False
    with inv x show ?thesis by (auto simp: DoTexStorage2DEXT_def not_le)
  next
    case True
    then obtain r where r: "x = Some r" by auto
    from GetTextureInfoForTarget_face [OF inv v x [unfolded r]] obtain t where t: "tm_deref r (xd_textures d) = Some t" "ti_target t \<noteq> 0" "target \<noteq> 0"
      "GLTargetToFaceIndex target < num_faces (ti_target t)" "MaxLevelsForTarget (xd_textures d) (ti_target t) = MaxLevelsForTarget (xd_textures d) target" by blast
    define d1 where "d1 = (if IsAttachedToFramebuffer t then d\<lparr>xd_state_dirty := True\<rparr> else d)"
    have s1: "xd_same d d1" by (simp add: d1_def xd_same_def)
    define d2 where "d2 = xgl raises (GlTexStorage2D target levels (GetTexInternalFormat egl internal_format) width height) (xd_CopyRealGLErrorsToWrapper d1)"
    obtain err d3 where p: "xd_PeekGLError d2 = (err, d3)" by fastforce
    have "xd_same d d3" using xd_same_helpers(5) [of d2] p s1 unfolding d2_def by (metis snd_conv xd_same_helpers(1,4) xd_same_trans)
    then have d3: "xd_inv other d3" "xd_textures d3 = xd_textures d" "xd_texture_units d3 = xd_texture_units d" using inv by (simp_all add: xd_same_def)
    have i1: "xd_inv other d1" using s1 inv by (simp add: xd_same_def)
    have w: "0 \<le> width" "0 \<le> height" "width \<le> MaxSizeForTarget (xd_textures d) target" "height \<le> MaxSizeForTarget (xd_textures d) target"
      using True by (simp_all add: ValidForTarget_def Let_def)
    from storage_loop_ok [OF v t(3) xd_inv_textures [OF inv] t(1,2,4,5) w, of "nat levels" "ExtractFormatFromStorageFormat internal_format"
        "ExtractTypeFromStorageFormat internal_format"] obtain t' m where
      m: "storage_loop (nat levels) r target (ExtractFormatFromStorageFormat internal_format) (ExtractTypeFromStorageFormat internal_format) width height
          (xd_textures d) = Some m" "tm_inv (\<lambda>r. other r + unit_refs (xd_texture_units d) r) m" "tm_changes r t' (xd_textures d) m" "ti_frame t t'" by blast
    have t': "tm_deref r m = Some t'" using tm_changes_deref [OF m(3) t(1)] by simp
    note im = SetImmutable_keeps [OF m(2) t', of True]
    have "keeps (xd_textures d3) (tm_store r (Some (SetImmutable True t')) m)"
      unfolding d3(2) by (rule keeps_trans [OF keeps_frame [OF m(3) t(1) m(4)] im(2)])
    from xd_inv_manager [OF d3(1) _ this] im(1) d3 have i3: "xd_inv other (d3\<lparr>xd_textures := tm_store r (Some (SetImmutable True t')) m\<rparr>)" by simp
    have "DoTexStorage2DEXT raises egl target levels internal_format width height d =
      (if ti_immutable t then Some (xerr GL_INVALID_OPERATION d1)
       else if err = GL_NO_ERROR then Some (d3\<lparr>xd_textures := tm_store r (Some (SetImmutable True t')) m\<rparr>) else Some d3)"
      using True x r t(1) m(1) t' d3(2) by (simp add: DoTexStorage2DEXT_def Let_def d1_def [symmetric] d2_def [symmetric] p)
    with i1 i3 d3(1) show ?thesis by simp
  qed
qed

subsection \<open>Draw calls\<close>

lemma heap_sum_unsafe_zero:
  assumes "heap_sum unsafe h = 0" and "Some t \<in> set h"
  shows "SafeToRenderFrom t"
proof -
  have nn: "0 \<le> (case x of None \<Rightarrow> 0 | Some t \<Rightarrow> unsafe t)" for x by (simp add: unsafe_def split: option.splits)
  have "sum_list (map (\<lambda>x. case x of None \<Rightarrow> 0 | Some t \<Rightarrow> unsafe t) h) = 0" using assms(1) by (simp add: heap_sum_def)
  then have "\<forall>v \<in> set (map (\<lambda>x. case x of None \<Rightarrow> 0 | Some t \<Rightarrow> unsafe t) h). v = 0"
    by (subst (asm) sum_list_nonneg_eq_0_iff) (auto simp: nn)
  with assms(2) have "unsafe t = 0" by force
  then show ?thesis by (simp add: unsafe_def split: if_splits)
qed

lemma heap_sum_unsafe_nonneg: "0 \<le> heap_sum unsafe h"
  unfolding heap_sum_def by (rule sum_list_nonneg) (auto simp: unsafe_def split: option.splits)

lemma no_unsafe_textures:
  assumes inv: "tm_inv ext m" and "\<not> HaveUnsafeTextures m" and t: "tm_deref r m = Some t"
  shows "SafeToRenderFrom t"
proof -
  have "heap_sum unsafe (tm_heap m) = 0" using assms(1,2) heap_sum_unsafe_nonneg [of "tm_heap m"] by (simp add: HaveUnsafeTextures_def tm_inv_def tm_counts_def)
  moreover have "Some t \<in> set (tm_heap m)" using t by (auto elim!: tm_derefE dest: nth_mem)
  ultimately show ?thesis by (rule heap_sum_unsafe_zero)
qed

lemma GetInfoForSamplerType_live:
  assumes inv: "xd_inv other d" and i: "i < length (xd_texture_units d)" and r: "GetInfoForSamplerType type (xd_texture_units d ! i) = Some r"
  shows "\<exists>t. tm_deref r (xd_textures d) = Some t"
proof -
  from r obtain k where "tu_slot k (xd_texture_units d ! i) = Some r"
    by (auto simp: GetInfoForSamplerType_def split: if_splits intro: that [of kTexture2D] that [of kCubeMap] that [of kExternalOES] that [of kRectangleARB])
  from slot_live [OF inv i this] show ?thesis by blast
qed

definition stays_safe :: "TextureManager \<Rightarrow> TextureManager \<Rightarrow> bool" where
  "stays_safe m m' \<longleftrightarrow> (\<forall>r t. tm_deref r m = Some t \<and> SafeToRenderFrom t \<longrightarrow> (\<exists>t'. tm_deref r m' = Some t' \<and> SafeToRenderFrom t'))"

lemma stays_safe_refl: "stays_safe m m"
  by (simp add: stays_safe_def)

lemma stays_safe_trans: "stays_safe m m1 \<Longrightarrow> stays_safe m1 m2 \<Longrightarrow> stays_safe m m2"
  unfolding stays_safe_def by blast

text \<open>The texture that a sampler of the type reads from a unit has been cleared.\<close>

definition unit_safe :: "u32 \<Rightarrow> u32 \<Rightarrow> TextureDecoder \<Rightarrow> bool" where
  "unit_safe type i d \<longleftrightarrow> unat i < length (xd_texture_units d) \<longrightarrow>
     (\<forall>r. GetInfoForSamplerType type (xd_texture_units d ! unat i) = Some r \<longrightarrow>
        (\<exists>t. tm_deref r (xd_textures d) = Some t \<and> SafeToRenderFrom t))"

lemma unit_safe_stays: "unit_safe type i d \<Longrightarrow> stays_safe (xd_textures d) m' \<Longrightarrow> unit_safe type i (d\<lparr>xd_vertex := v', xd_textures := m'\<rparr>)"
  unfolding unit_safe_def stays_safe_def by fastforce

lemma clear_units_ok:
  "xd_inv other d \<Longrightarrow> \<exists>ok m' v'. clear_units raises egl type us d = Some (ok, d\<lparr>xd_vertex := v', xd_textures := m'\<rparr>) \<and> xd_inv other (d\<lparr>xd_vertex := v', xd_textures := m'\<rparr>) \<and>
     stays_safe (xd_textures d) m' \<and> (ok \<longrightarrow> (\<forall>i \<in> set us. unit_safe type i (d\<lparr>xd_vertex := v', xd_textures := m'\<rparr>)))"
proof (induction us arbitrary: d)
  case Nil
  then show ?case by (intro exI [of _ True] exI [of _ "xd_textures d"] exI [of _ "xd_vertex d"]) (simp add: stays_safe_refl)
next
  case (Cons i us)
  have go: "\<exists>ok m' v'. clear_units raises egl type us (d\<lparr>xd_vertex := v1, xd_textures := m1\<rparr>) = Some (ok, d\<lparr>xd_vertex := v', xd_textures := m'\<rparr>) \<and> xd_inv other (d\<lparr>xd_vertex := v', xd_textures := m'\<rparr>) \<and>
     stays_safe (xd_textures d) m' \<and> (ok \<longrightarrow> (\<forall>i \<in> set (i # us). unit_safe type i (d\<lparr>xd_vertex := v', xd_textures := m'\<rparr>)))"
    if i1: "xd_inv other (d\<lparr>xd_vertex := v1, xd_textures := m1\<rparr>)" and s1: "stays_safe (xd_textures d) m1" and u1: "unit_safe type i (d\<lparr>xd_vertex := v1, xd_textures := m1\<rparr>)" for m1 v1
  proof -
    from Cons.IH [OF i1] obtain ok m' v' where m': "clear_units raises egl type us (d\<lparr>xd_vertex := v1, xd_textures := m1\<rparr>) = Some (ok, d\<lparr>xd_vertex := v', xd_textures := m'\<rparr>)"
      "xd_inv other (d\<lparr>xd_vertex := v', xd_textures := m'\<rparr>)" "stays_safe m1 m'" "ok \<longrightarrow> (\<forall>i \<in> set us. unit_safe type i (d\<lparr>xd_vertex := v', xd_textures := m'\<rparr>))" by auto
    from unit_safe_stays [OF u1, of m' v'] m'(3) have "unit_safe type i (d\<lparr>xd_vertex := v', xd_textures := m'\<rparr>)" by simp
    with m' stays_safe_trans [OF s1 m'(3)] show ?thesis by (intro exI [of _ ok] exI [of _ m'] exI [of _ v']) simp
  qed
  note same = go [of "xd_textures d" "xd_vertex d", simplified, OF Cons.prems stays_safe_refl]
  show ?case
  proof (cases "unat i < length (xd_texture_units d) \<and> GetInfoForSamplerType type (xd_texture_units d ! unat i) \<noteq> None")
    case False
    then have "unit_safe type i d" by (auto simp: unit_safe_def)
    with same False show ?thesis by auto
  next
    case True
    then obtain r where r: "unat i < length (xd_texture_units d)" "GetInfoForSamplerType type (xd_texture_units d ! unat i) = Some r" by auto
    from GetInfoForSamplerType_live [OF Cons.prems r] obtain t where t: "tm_deref r (xd_textures d) = Some t" ..
    show ?thesis
    proof (cases "SafeToRenderFrom t")
      case True
      then have "unit_safe type i d" using r t by (simp add: unit_safe_def)
      with same True r t show ?thesis by simp
    next
      case False
      from ClearRenderableLevels_ok [OF xd_inv_textures [OF Cons.prems] t xd_ClearLevel_total [OF Cons.prems], of raises egl "xd_vertex d"] obtain b t' m1 v1 where
        m1: "tm_ClearRenderableLevels (xd_ClearLevel raises egl d) r (xd_textures d) (xd_vertex d) = Some (b, m1, v1)"
          "tm_inv (\<lambda>r. other r + unit_refs (xd_texture_units d) r) m1" "tm_changes r t' (xd_textures d) m1" "ti_frame t t'" "b \<longrightarrow> SafeToRenderFrom t'" by blast
      have i1: "xd_inv other (d\<lparr>xd_vertex := v1, xd_textures := m1\<rparr>)"
        using xd_inv_manager [of other "d\<lparr>xd_vertex := v1\<rparr>" m1] Cons.prems m1(2) keeps_frame [OF m1(3) t m1(4)] by simp
      note dd = tm_changes_deref [OF m1(3) t]
      have s1: "stays_safe (xd_textures d) m1" using dd t False by (auto simp: stays_safe_def)
      show ?thesis
      proof (cases b)
        case True
        then have "unit_safe type i (d\<lparr>xd_vertex := v1, xd_textures := m1\<rparr>)" using r dd m1(5) by (simp add: unit_safe_def)
        from go [OF i1 s1 this] True r t False m1(1) show ?thesis by simp
      next
        case no: False
        with r t False m1(1) i1 s1 show ?thesis by (intro exI [of _ False] exI [of _ m1] exI [of _ v1]) simp
      qed
    qed
  qed
qed

lemma clear_samplers_ok:
  "xd_inv other d \<Longrightarrow> \<exists>ok m' v'. clear_samplers raises egl ss d = Some (ok, d\<lparr>xd_vertex := v', xd_textures := m'\<rparr>) \<and> xd_inv other (d\<lparr>xd_vertex := v', xd_textures := m'\<rparr>) \<and>
     stays_safe (xd_textures d) m' \<and> (ok \<longrightarrow> (\<forall>(type, us) \<in> set ss. \<forall>i \<in> set us. unit_safe type i (d\<lparr>xd_vertex := v', xd_textures := m'\<rparr>)))"
proof (induction ss arbitrary: d)
  case Nil
  then show ?case by (intro exI [of _ True] exI [of _ "xd_textures d"] exI [of _ "xd_vertex d"]) (simp add: stays_safe_refl)
next
  case (Cons s ss)
  obtain type us where s: "s = (type, us)" by fastforce
  from clear_units_ok [OF Cons.prems, of raises egl type us] obtain ok m1 v1 where m1: "clear_units raises egl type us d = Some (ok, d\<lparr>xd_vertex := v1, xd_textures := m1\<rparr>)"
    "xd_inv other (d\<lparr>xd_vertex := v1, xd_textures := m1\<rparr>)" "stays_safe (xd_textures d) m1" "ok \<longrightarrow> (\<forall>i \<in> set us. unit_safe type i (d\<lparr>xd_vertex := v1, xd_textures := m1\<rparr>))" by blast
  show ?case
  proof (cases ok)
    case True
    from Cons.IH [OF m1(2)] obtain b m' v' where m': "clear_samplers raises egl ss (d\<lparr>xd_vertex := v1, xd_textures := m1\<rparr>) = Some (b, d\<lparr>xd_vertex := v', xd_textures := m'\<rparr>)"
      "xd_inv other (d\<lparr>xd_vertex := v', xd_textures := m'\<rparr>)" "stays_safe m1 m'"
      "b \<longrightarrow> (\<forall>(type, us) \<in> set ss. \<forall>i \<in> set us. unit_safe type i (d\<lparr>xd_vertex := v', xd_textures := m'\<rparr>))" by auto
    have "unit_safe type i (d\<lparr>xd_vertex := v', xd_textures := m'\<rparr>)" if "i \<in> set us" for i
      using unit_safe_stays [of type i "d\<lparr>xd_vertex := v1, xd_textures := m1\<rparr>" m' v'] m1(4) True that m'(3) by simp
    with True m1(1) m' stays_safe_trans [OF m1(3) m'(3)] show ?thesis by (intro exI [of _ b] exI [of _ m'] exI [of _ v']) (simp add: s)
  next
    case False
    with m1 show ?thesis by (intro exI [of _ False] exI [of _ m1] exI [of _ v1]) (simp add: s)
  qed
qed

lemma ClearUnclearedTextures_ok:
  assumes inv: "xd_inv other d"
  shows "\<exists>ok m' v'. ClearUnclearedTextures raises egl d = Some (ok, d\<lparr>xd_vertex := v', xd_textures := m'\<rparr>) \<and> xd_inv other (d\<lparr>xd_vertex := v', xd_textures := m'\<rparr>) \<and>
    (ok \<and> vd_current_program (xd_vertex d) \<noteq> None \<longrightarrow> (\<forall>(type, us) \<in> set (xd_samplers d). \<forall>i \<in> set us. unit_safe type i (d\<lparr>xd_vertex := v', xd_textures := m'\<rparr>)))"
proof (cases "HaveUnsafeTextures (xd_textures d) \<and> vd_current_program (xd_vertex d) \<noteq> None")
  case True
  with clear_samplers_ok [OF inv, of raises egl "xd_samplers d"] show ?thesis by (auto simp: ClearUnclearedTextures_def)
next
  case False
  have "unit_safe type i d" if "\<not> HaveUnsafeTextures (xd_textures d)" for type i
    using no_unsafe_textures [OF xd_inv_textures [OF inv] that] GetInfoForSamplerType_live [OF inv, of "unat i" type] unfolding unit_safe_def by blast
  with False inv show ?thesis by (intro exI [of _ True] exI [of _ "xd_textures d"] exI [of _ "xd_vertex d"]) (auto simp: ClearUnclearedTextures_def)
qed

lemma black_units_ok:
  "xd_inv other d \<Longrightarrow> \<exists>b d'. black_units raises type us set0 d = Some (b, d') \<and> xd_inv other d' \<and> xd_textures d' = xd_textures d"
proof (induction us arbitrary: d set0)
  case (Cons i us)
  note IH = Cons.IH [of "xgl raises c (xgl raises c' d)" for c c'] Cons.IH [OF Cons.prems]
  show ?case
  proof (cases "unat i < length (xd_texture_units d)")
    case True
    have "\<exists>bad. (case GetInfoForSamplerType type (xd_texture_units d ! unat i) of None \<Rightarrow> Some True
      | Some r \<Rightarrow> do { t \<leftarrow> tm_deref r (xd_textures d); Some (\<not> tm_CanRender t (xd_textures d)) }) = Some bad"
      using GetInfoForSamplerType_live [OF Cons.prems True, of type] by (auto split: option.splits)
    then obtain bad where bad: "(case GetInfoForSamplerType type (xd_texture_units d ! unat i) of None \<Rightarrow> Some True
      | Some r \<Rightarrow> do { t \<leftarrow> tm_deref r (xd_textures d); Some (\<not> tm_CanRender t (xd_textures d)) }) = Some bad" ..
    show ?thesis unfolding black_units.simps bad using IH Cons.prems True by (cases bad) simp_all
  qed (use IH in simp)
qed simp

lemma black_samplers_ok:
  "xd_inv other d \<Longrightarrow> \<exists>b d'. black_samplers raises ss set0 d = Some (b, d') \<and> xd_inv other d' \<and> xd_textures d' = xd_textures d"
proof (induction ss arbitrary: d set0)
  case (Cons s ss)
  obtain type us where s: "s = (type, us)" by fastforce
  from black_units_ok [OF Cons.prems, of raises type us set0] obtain b d1 where
    "black_units raises type us set0 d = Some (b, d1)" "xd_inv other d1" "xd_textures d1 = xd_textures d" by blast
  with Cons.IH [of d1 b] s show ?case by simp
qed simp

lemma restore_units_ok:
  "xd_inv other d \<Longrightarrow> \<exists>d'. restore_units raises type us d = Some d' \<and> xd_inv other d'"
proof (induction us arbitrary: d)
  case (Cons i us)
  note IH = Cons.IH [of "xgl raises c (xgl raises c' d)" for c c'] Cons.IH [OF Cons.prems]
  show ?case
  proof (cases "unat i < length (xd_texture_units d)")
    case True
    let ?u = "xd_texture_units d ! unat i"
    have live: "\<exists>t. tm_deref r (xd_textures d) = Some t" if "(if b then tu_bound_texture_2d ?u else tu_bound_texture_cube_map ?u) = Some r" for b r
      using slot_live [OF Cons.prems True, of kTexture2D r] slot_live [OF Cons.prems True, of kCubeMap r] that by (cases b) auto
    obtain i1 where i1: "restore_id ?u (xd_textures d) = Some i1"
      using live [of "tu_bind_target ?u = GL_TEXTURE_2D"] by (fastforce simp: restore_id_def split: option.splits)
    obtain bad where bad: "(case if type = GL_SAMPLER_2D then tu_bound_texture_2d ?u else tu_bound_texture_cube_map ?u of None \<Rightarrow> Some True
      | Some r \<Rightarrow> do { t \<leftarrow> tm_deref r (xd_textures d); Some (\<not> tm_CanRender t (xd_textures d)) }) = Some bad"
      using live [of "type = GL_SAMPLER_2D"] by (cases "if type = GL_SAMPLER_2D then tu_bound_texture_2d ?u else tu_bound_texture_cube_map ?u") auto
    show ?thesis unfolding restore_units.simps Let_def bad using IH Cons.prems True i1 by (cases bad) simp_all
  qed (use IH in simp)
qed simp

lemma restore_samplers_ok: "xd_inv other d \<Longrightarrow> \<exists>d'. restore_samplers raises ss d = Some d' \<and> xd_inv other d'"
proof (induction ss arbitrary: d)
  case (Cons s ss)
  obtain type us where s: "s = (type, us)" by fastforce
  from restore_units_ok [OF Cons.prems, of raises type us] obtain d1 where "restore_units raises type us d = Some d1" "xd_inv other d1" by blast
  with Cons.IH [of d1] s show ?case by simp
qed simp

lemma draw_with_textures_ok:
  assumes inv: "xd_inv other d"
  shows "\<exists>d'. draw_with_textures raises egl d = Some d' \<and> xd_inv other d'"
proof -
  from ClearUnclearedTextures_ok [OF inv, of raises egl] obtain ok m1 v1 where c: "ClearUnclearedTextures raises egl d = Some (ok, d\<lparr>xd_vertex := v1, xd_textures := m1\<rparr>)"
    "xd_inv other (d\<lparr>xd_vertex := v1, xd_textures := m1\<rparr>)" by blast
  show ?thesis
  proof (cases ok)
    case True
    let ?d = "d\<lparr>xd_vertex := v1, xd_textures := m1\<rparr>"
    obtain b d2 where b: "SetBlackTextureForNonRenderableTextures raises ?d = Some (b, d2)" "xd_inv other d2"
      using black_samplers_ok [OF c(2), of raises "xd_samplers ?d" False] c(2)
      unfolding SetBlackTextureForNonRenderableTextures_def by (cases "HaveUnrenderableTextures (xd_textures ?d)") auto
    from restore_samplers_ok [OF b(2), of raises "xd_samplers d2"] obtain d3 where
      "restore_samplers raises (xd_samplers d2) d2 = Some d3" "xd_inv other d3" by blast
    with b c(1) True show ?thesis by (cases b) (simp_all add: draw_with_textures_def RestoreStateForNonRenderableTextures_def)
  qed (use c in \<open>simp add: draw_with_textures_def\<close>)
qed

subsection \<open>Reachable decoders\<close>

lemma default_of_target: "GetDefaultTextureInfo (default_target k) m = tm_default_textures m ! default_index k"
  by (cases k) (simp_all add: GetDefaultTextureInfo_def)

lemma bind_default_ok:
  assumes inv: "xd_inv other d" and tt: "tt < length (xd_texture_units d)" and some: "tm_default_textures (xd_textures d) ! default_index k \<noteq> None"
  shows "\<exists>d'. bind_default raises tt k (default_target k) d = Some d' \<and> xd_inv other d' \<and> keeps (xd_textures d) (xd_textures d') \<and>
    length (xd_texture_units d') = length (xd_texture_units d)"
proof -
  from some obtain r where r: "tm_default_textures (xd_textures d) ! default_index k = Some r" by auto
  have "default_ok (xd_textures d) k" using inv by (simp add: xd_inv_def)
  with r have "tex_slot_ok (xd_textures d) k (Some r)" by (simp add: default_ok_def tex_slot_ok_def split: option.splits)
  from assign_slot_ok [OF inv tt this] obtain d1 where d1: "assign_slot tt k (Some r) d = Some d1" "xd_inv other d1"
    "keeps (xd_textures d) (xd_textures d1)" "length (xd_texture_units d1) = length (xd_texture_units d)" by fastforce
  have "tm_default_textures (xd_textures d1) ! default_index k = Some r" using d1(3) r by (simp add: keeps_def)
  from own_default_live(1) [OF xd_inv_textures [OF d1(2)] this] obtain t where "tm_deref r (xd_textures d1) = Some t" ..
  with d1 show ?thesis by (simp add: bind_default_def default_of_target r)
qed

lemma init_units_ok:
  "xd_inv other d \<Longrightarrow> \<forall>tt \<in> set tts. tt < length (xd_texture_units d) \<Longrightarrow>
   tm_default_textures (xd_textures d) ! 0 \<noteq> None \<Longrightarrow> tm_default_textures (xd_textures d) ! 1 \<noteq> None \<Longrightarrow>
   (oes_egl_image_external (tm_feature_flags (xd_textures d)) \<longrightarrow> tm_default_textures (xd_textures d) ! 2 \<noteq> None) \<Longrightarrow>
   (arb_texture_rectangle (tm_feature_flags (xd_textures d)) \<longrightarrow> tm_default_textures (xd_textures d) ! 3 \<noteq> None) \<Longrightarrow>
   \<exists>d'. init_units raises tts d = Some d' \<and> xd_inv other d'"
proof (induction tts arbitrary: d)
  case (Cons tt tts)
  let ?same = "\<lambda>d d' :: TextureDecoder. keeps (xd_textures d) (xd_textures d') \<and> length (xd_texture_units d') = length (xd_texture_units d)"
  have bind: "\<exists>d'. (if b then bind_default raises tt k (default_target k) d1 else Some d1) = Some d' \<and> xd_inv other d' \<and> ?same d d'"
    if "xd_inv other d1" "?same d d1" "b \<longrightarrow> tm_default_textures (xd_textures d) ! default_index k \<noteq> None" for b k d1
  proof (cases b)
    case True
    have "tm_default_textures (xd_textures d1) = tm_default_textures (xd_textures d)" using that(2) by (simp add: keeps_def)
    with bind_default_ok [OF that(1), of tt k raises] that Cons.prems(2) True obtain d' where
      "bind_default raises tt k (default_target k) d1 = Some d'" "xd_inv other d'" "?same d1 d'" by auto
    with True that(2) keeps_trans [of "xd_textures d" "xd_textures d1" "xd_textures d'"] show ?thesis by simp
  qed (use that in simp)
  define d0 where "d0 = xgl raises (GlActiveTexture (GL_TEXTURE0 + of_nat tt)) d"
  have i0: "xd_inv other d0" "?same d d0" using Cons.prems(1) keeps_refl by (simp_all add: d0_def)
  have fl: "tm_feature_flags (xd_textures d') = tm_feature_flags (xd_textures d)" if "?same d d'" for d' using that by (simp add: keeps_def tm_same_config_def)
  note targets = default_target.simps default_index.simps
  from bind [OF i0, of "oes_egl_image_external (tm_feature_flags (xd_textures d0))" kExternalOES, unfolded targets] Cons.prems(5) fl [OF i0(2)] obtain d1 where
    d1: "(if oes_egl_image_external (tm_feature_flags (xd_textures d0)) then bind_default raises tt kExternalOES GL_TEXTURE_EXTERNAL_OES d0 else Some d0) = Some d1"
      "xd_inv other d1" "?same d d1" by auto
  from bind [OF d1(2,3), of "arb_texture_rectangle (tm_feature_flags (xd_textures d1))" kRectangleARB, unfolded targets] Cons.prems(6) fl [OF d1(3)] obtain d2 where
    d2: "(if arb_texture_rectangle (tm_feature_flags (xd_textures d1)) then bind_default raises tt kRectangleARB GL_TEXTURE_RECTANGLE_ARB d1 else Some d1) = Some d2"
      "xd_inv other d2" "?same d d2" by auto
  from bind [OF d2(2,3), of True kCubeMap, unfolded targets] Cons.prems(4) obtain d3 where
    d3: "bind_default raises tt kCubeMap GL_TEXTURE_CUBE_MAP d2 = Some d3" "xd_inv other d3" "?same d d3" by auto
  from bind [OF d3(2,3), of True kTexture2D, unfolded targets] Cons.prems(3) obtain d4 where
    d4: "bind_default raises tt kTexture2D GL_TEXTURE_2D d3 = Some d4" "xd_inv other d4" "?same d d4" by auto
  have "tm_default_textures (xd_textures d4) = tm_default_textures (xd_textures d)" using d4(3) by (simp add: keeps_def)
  with Cons.IH [OF d4(2)] Cons.prems(2-6) d4(3) fl [OF d4(3)] obtain d' where "init_units raises tts d4 = Some d'" "xd_inv other d'" by auto
  then show ?case
    unfolding init_units.simps Let_def d0_def [symmetric] d1(1) Option.bind.simps d2(1) d3(1) d4(1) by blast
qed simp

lemma new_texture_decoder_ok:
  assumes lim: "0 < s" "s < 2147483648" "0 < c" "c < 2147483648" and n: "0 < n"
  shows "\<exists>d. new_texture_decoder raises ids f s c n d0 = Some d \<and> xd_inv (\<lambda>_. 0) d"
proof -
  have "tm_default_textures (new_TextureManager f s c) = [None, None, None, None]" "tm_feature_flags (new_TextureManager f s c) = f"
    by (simp_all add: new_TextureManager_def)
  with Initialize_ok [OF new_TextureManager_inv [OF lim], of f ids] obtain m where
    m: "tm_Initialize ids (new_TextureManager f s c) = Some m" "tm_inv (\<lambda>_. 0) m" "tm_same_config (new_TextureManager f s c) m" "\<And>k. default_ok m k"
      "tm_default_textures m ! 0 \<noteq> None" "tm_default_textures m ! 1 \<noteq> None" "oes_egl_image_external f \<longrightarrow> tm_default_textures m ! 2 \<noteq> None"
      "arb_texture_rectangle f \<longrightarrow> tm_default_textures m ! 3 \<noteq> None" "only_defaults m"
    by (auto simp: only_defaults_def tm_deref_def new_TextureManager_def)
  let ?d = "d0\<lparr>xd_textures := m, xd_active_texture_unit := 0, xd_pack_alignment := 4, xd_unpack_alignment := 4, xd_texture_bind_target := bind_targets f\<rparr>"
  let ?d1 = "?d\<lparr>xd_texture_units := replicate n new_TextureUnit\<rparr>"
  have flags: "tm_feature_flags m = f" using m(3) by (simp add: tm_same_config_def new_TextureManager_def)
  have empty_unit: "tu_slot k new_TextureUnit = None" for k by (cases k) (simp_all add: new_TextureUnit_def)
  have none: "unit_refs (replicate n new_TextureUnit) r = 0" for r
    by (induction n) (simp_all add: unit_refs_def tu_refs_def new_TextureUnit_def)
  have held: "defaults_held m" using m(9) by (auto simp: defaults_held_def only_defaults_def)
  have "target \<in> set texture_targets \<and> GetDefaultTextureInfo target m \<noteq> None" if "target \<in> set (bind_targets f)" for target
    using that m(5-8) by (auto simp: bind_targets_def texture_targets_def GetDefaultTextureInfo_def split: if_splits)
  then have inv: "xd_inv (\<lambda>_. 0) ?d1" using m(2,4) held none empty_unit n by (simp add: xd_inv_def tex_slot_ok_def)
  have "\<exists>d'. init_units raises [0..<n] ?d1 = Some d' \<and> xd_inv (\<lambda>_. 0) d'"
    by (rule init_units_ok [OF inv]) (use m(5-8) flags in simp_all)
  then show ?thesis using m(1) by (auto simp: new_texture_decoder_def InitTextureUnits_def)
qed

lemma xd_inv_active [simp]:
  "xd_inv other d \<Longrightarrow> unat i < length (xd_texture_units d) \<Longrightarrow> xd_inv other (d\<lparr>xd_active_texture_unit := i\<rparr>)"
  by (simp add: xd_inv_def)

lemma DoActiveTexture_inv: "xd_inv other d \<Longrightarrow> xd_inv other (DoActiveTexture raises u d)"
  by (simp add: DoActiveTexture_def Let_def)

lemma HandlePixelStorei_inv: "xd_inv other d \<Longrightarrow> xd_inv other (HandlePixelStorei raises pname param d)"
proof -
  assume inv: "xd_inv other d"
  have "xd_inv other (d'\<lparr>xd_pack_alignment := n\<rparr>)" if "xd_inv other d'" for d' n using that by (simp add: xd_inv_def)
  moreover have "xd_inv other (d'\<lparr>xd_unpack_alignment := sint param\<rparr>)"
    if "xd_inv other d'" "IsValid valid_pixel_store_alignment_table (sint param)" for d'
    using that by (auto simp: xd_inv_def IsValid_def valid_pixel_store_alignment_table_def)
  ultimately show ?thesis using inv by (simp add: HandlePixelStorei_def Let_def)
qed

lemma xd_step_ok:
  assumes inv: "xd_inv other d" and ok: "xd_cmd_ok cmd d"
  shows "\<exists>d'. xd_step raises gen egl cmd d = Some d' \<and> xd_inv other d'"
proof (cases cmd)
  case (CmdGenTextures ids)
  with GenTexturesHelper_inv [OF inv, of raises gen ids] show ?thesis by auto
next
  case (CmdDeleteTextures ids)
  with delete_textures_loop_ok [OF inv, of 0 ids raises] ok show ?thesis by (simp add: DeleteTexturesHelper_def)
next
  case (CmdBindTexture target texture)
  with DoBindTexture_ok [OF inv, of target raises gen texture] inv show ?thesis by (simp add: HandleBindTexture_def IsValid_def)
next
  case (CmdGenerateMipmap target)
  with DoGenerateMipmap_ok [OF inv, of raises target] inv show ?thesis by (simp add: HandleGenerateMipmap_def)
next
  case (CmdTexParameteri target pname param)
  with DoTexParameteri_ok [OF inv, of raises target pname param] inv show ?thesis by (simp add: HandleTexParameteri_def)
next
  case (CmdTexImage2D target level internal_format width height border format type has_pixels memory)
  with HandleTexImage2D_ok [OF inv, of raises egl target level internal_format width height border format type has_pixels memory]
  show ?thesis by auto
next
  case (CmdTexSubImage2D internal target level xoffset yoffset width height format type memory)
  with HandleTexSubImage2D_ok [OF inv, of raises egl internal target level xoffset yoffset width height format type memory]
  show ?thesis by auto
next
  case (CmdCompressedTexImage2D target level internal_format width height border imageSize data)
  with DoCompressedTexImage2D_ok [OF inv] show ?thesis by simp
next
  case (CmdCompressedTexSubImage2D target level xoffset yoffset width height format imageSize data)
  with DoCompressedTexSubImage2D_ok [OF inv] show ?thesis by simp
next
  case (CmdTexStorage2D target levels internal_format width height)
  with DoTexStorage2DEXT_ok [OF inv, of target raises egl levels internal_format width height] inv show ?thesis
    by (simp add: HandleTexStorage2DEXT_def)
next
  case CmdDraw
  with draw_with_textures_ok [OF inv, of raises egl] show ?thesis by simp
qed (use inv DoActiveTexture_inv HandlePixelStorei_inv in simp_all)

lemma xd_reach_inv: "xd_reach raises gen egl d \<Longrightarrow> xd_inv (\<lambda>_. 0) d"
proof (induction rule: xd_reach.induct)
  case (init s c n ids f d0 d)
  then show ?case using new_texture_decoder_ok [of s c n raises ids f d0] by fastforce
next
  case (step d cmd d')
  then show ?case using xd_step_ok [of "\<lambda>_. 0" d cmd raises gen egl] by auto
qed

subsection \<open>A sample run\<close>

text \<open>A texture of four pixels with no data, which a sampler of the program reads from the first of two units.\<close>

fun xd_run :: "(gl_call list \<Rightarrow> u32 list) \<Rightarrow> (gl_call list \<Rightarrow> nat \<Rightarrow> u32) \<Rightarrow> bool \<Rightarrow> tex_cmd list \<Rightarrow> TextureDecoder \<Rightarrow> TextureDecoder option" where
  "xd_run raises gen egl [] d = Some d"
| "xd_run raises gen egl (c # cs) d =
     (if xd_cmd_ok c d then do { d1 \<leftarrow> xd_step raises gen egl c d; xd_run raises gen egl cs d1 } else None)"

lemma xd_reach_run: "xd_reach raises gen egl d \<Longrightarrow> xd_run raises gen egl cs d = Some d' \<Longrightarrow> xd_reach raises gen egl d'"
  by (induction cs arbitrary: d) (auto intro: xd_reach.step split: if_splits Option.bind_splits)

definition sample_textures :: "tex_cmd list \<Rightarrow> TextureDecoder option" where
  "sample_textures cs = do {
     v \<leftarrow> new_VertexDecoder new_BufferManager 2 True True;
     d \<leftarrow> new_texture_decoder sample_raises (\<lambda>k. (100, 101)) new_FeatureFlags 4 4 2
       \<lparr>xd_vertex = v, xd_textures = new_TextureManager new_FeatureFlags 4 4, xd_texture_units = [], xd_active_texture_unit = 0, xd_samplers = [],
        xd_texture_ids = new_IdAllocator, xd_pack_alignment = 4, xd_unpack_alignment = 4, xd_teximage2d_faster_than_texsubimage2d = True,
        xd_tex_image_2d_failed = False, xd_surface_is_offscreen = True, xd_state_dirty = True, xd_framebuffer_state_change_count = 0,
        xd_texture_bind_target = [], xd_texture_format = [GL_RGBA], xd_pixel_type = [GL_UNSIGNED_BYTE],
        xd_compressed_texture_format = [], xd_texture_parameter = [GL_TEXTURE_MIN_FILTER], xd_texture_internal_format_storage = [],
        xd_pixel_store = [GL_PACK_ALIGNMENT, GL_UNPACK_ALIGNMENT]\<rparr>;
     xd_run sample_raises sample_gen True cs d
   }"

definition sample_tex_cmds :: "tex_cmd list" where
  "sample_tex_cmds = [CmdGenTextures [7], CmdBindTexture GL_TEXTURE_2D 7,
     CmdTexImage2D GL_TEXTURE_2D 0 GL_RGBA 2 2 0 GL_RGBA GL_UNSIGNED_BYTE False (\<lambda>_. None), CmdUseProgram (Some []) [(GL_SAMPLER_2D, [0])]]"

lemma sample_textures_reach:
  assumes "sample_textures cs = Some d"
  shows "xd_reach sample_raises sample_gen True d"
proof -
  from assms obtain d0 d1 where "new_texture_decoder sample_raises (\<lambda>k. (100, 101)) new_FeatureFlags 4 4 2 d0 = Some d1"
    "xd_run sample_raises sample_gen True cs d1 = Some d"
    unfolding sample_textures_def by (auto split: Option.bind_splits)
  then show ?thesis by (intro xd_reach_run [OF xd_reach.init [of 4 4 2]]) simp_all
qed

lemma sample_textures_run:
  "\<exists>d d'. sample_textures sample_tex_cmds = Some d \<and> ClearUnclearedTextures sample_raises True d = Some (True, d') \<and>
     tu_bound_texture_2d (xd_texture_units d ! 0) = GetTextureInfo 7 (xd_textures d) \<and> GetTextureInfo 7 (xd_textures d) = Some 2 \<and>
     length (xd_texture_units d) = 2 \<and> vd_current_program (xd_vertex d) = Some [] \<and> xd_samplers d = [(GL_SAMPLER_2D, [0])] \<and>
     tm_num_uncleared_mips (xd_textures d) = 1"
proof -
  have "case sample_textures sample_tex_cmds of None \<Rightarrow> False | Some d \<Rightarrow> (case ClearUnclearedTextures sample_raises True d of None \<Rightarrow> False | Some (ok, d') \<Rightarrow> ok \<and>
     tu_bound_texture_2d (xd_texture_units d ! 0) = GetTextureInfo 7 (xd_textures d) \<and> GetTextureInfo 7 (xd_textures d) = Some 2 \<and>
     length (xd_texture_units d) = 2 \<and> vd_current_program (xd_vertex d) = Some [] \<and> xd_samplers d = [(GL_SAMPLER_2D, [0])] \<and>
     tm_num_uncleared_mips (xd_textures d) = 1)"
    by code_simp
  then show ?thesis by (auto split: option.splits)
qed

end
