(* ===== verification/Id_Manager.thy ===== *)
theory Id_Manager
  imports Prelude
begin

text \<open>
  \<^verbatim>\<open>IdManager\<close> of \<^verbatim>\<open>gpu/command_buffer/service/id_manager.cc\<close>: the mapping from the ids of a client to those of
  the service. The hash map is an association list; its order is not specified in the code.
\<close>

type_synonym IdManager = "(u32 \<times> u32) list"

definition new_IdManager :: IdManager where
  "new_IdManager = []"

definition AddMapping :: "u32 \<Rightarrow> u32 \<Rightarrow> IdManager \<Rightarrow> bool \<times> IdManager" where
  "AddMapping client_id service_id m =
     (if map_of m client_id = None then (True, (client_id, service_id) # m) else (False, m))"

definition RemoveMapping :: "u32 \<Rightarrow> u32 \<Rightarrow> IdManager \<Rightarrow> bool \<times> IdManager" where
  "RemoveMapping client_id service_id m =
     (case map_of m client_id of
        None \<Rightarrow> (False, m)
      | Some s \<Rightarrow> if s = service_id then (True, filter (\<lambda>(c, _). c \<noteq> client_id) m) else (False, m))"

definition GetServiceId :: "u32 \<Rightarrow> IdManager \<Rightarrow> u32 option" where
  "GetServiceId client_id m = map_of m client_id"

fun GetClientId :: "u32 \<Rightarrow> IdManager \<Rightarrow> u32 option" where
  "GetClientId service_id [] = None"
| "GetClientId service_id ((c, s) # m) = (if s = service_id then Some c else GetClientId service_id m)"

definition id_inv :: "IdManager \<Rightarrow> bool" where
  "id_inv m \<longleftrightarrow> distinct (map fst m)"

lemma id_ops_inv:
  "id_inv new_IdManager"
  "id_inv m \<Longrightarrow> AddMapping c s m = (ok, m') \<Longrightarrow> id_inv m'"
  "id_inv m \<Longrightarrow> RemoveMapping c s m = (ok, m') \<Longrightarrow> id_inv m'"
  by (auto simp: id_inv_def new_IdManager_def AddMapping_def RemoveMapping_def map_of_eq_None_iff distinct_map_filter
      split: if_splits option.splits)

lemma map_of_filter_fst: "map_of (filter (\<lambda>(c, _). c \<noteq> k) m) c = (if c = k then None else map_of m c)"
  by (induction m) auto

lemma AddMapping_GetServiceId:
  assumes "AddMapping c s m = (ok, m')"
  shows "ok \<longleftrightarrow> GetServiceId c m = None"
    and "GetServiceId c' m' = (if ok \<and> c' = c then Some s else GetServiceId c' m)"
  using assms by (auto simp: AddMapping_def GetServiceId_def split: if_splits)

lemma RemoveMapping_GetServiceId:
  assumes "RemoveMapping c s m = (ok, m')"
  shows "ok \<longleftrightarrow> GetServiceId c m = Some s"
    and "GetServiceId c' m' = (if ok \<and> c' = c then None else GetServiceId c' m)"
  using assms by (auto simp: RemoveMapping_def GetServiceId_def map_of_filter_fst split: if_splits option.splits)

text \<open>The search of a client id finds one whenever the service id is mapped.\<close>

lemma GetClientId_iff:
  assumes "id_inv m"
  shows "GetClientId s m = None \<longleftrightarrow> (\<forall>c. GetServiceId c m \<noteq> Some s)"
    and "GetClientId s m = Some c \<Longrightarrow> GetServiceId c m = Some s"
proof -
  have d: "distinct (map fst m)" using assms by (simp add: id_inv_def)
  have "GetClientId s m = None \<longleftrightarrow> s \<notin> snd ` set m" by (induction m) (auto split: if_splits)
  then show "GetClientId s m = None \<longleftrightarrow> (\<forall>c. GetServiceId c m \<noteq> Some s)"
    using d by (force simp: GetServiceId_def)
  have "GetClientId s m = Some c \<Longrightarrow> (c, s) \<in> set m" by (induction m) (auto split: if_splits)
  then show "GetClientId s m = Some c \<Longrightarrow> GetServiceId c m = Some s"
    using d by (simp add: GetServiceId_def)
qed

text \<open>
  The header promises that \<^verbatim>\<open>AddMapping\<close> also refuses a service id that is mapped already. It does not: two
  clients can share a service id.
\<close>

lemma AddMapping_shares_service:
  "AddMapping 1 7 new_IdManager = (True, [(1, 7)]) \<and> AddMapping 2 7 [(1, 7)] = (True, [(2, 7), (1, 7)])"
  by (simp add: AddMapping_def new_IdManager_def)

end
