(* ===== verification/Spec2Isabelle.thy ===== *)
theory Spec2Isabelle
  imports Ring_Buffer Shared_Ids Client_Runs Vertex_Decoder Texture_Decoder Id_Manager
begin

text \<open>
  The GPU command buffer of Chromium (\<^verbatim>\<open>src/gpu/command_buffer\<close>), by which an unprivileged client process sends
  GL commands to the GPU process.

  \<^bold>\<open>The program.\<close> The client library writes commands as 32-bit entries into a ring buffer in shared memory
  (\<^verbatim>\<open>client/cmd_buffer_helper\<close>) and hands out further shared memory for bulk data from three allocators
  (\<^verbatim>\<open>client/fenced_allocator\<close>, \<^verbatim>\<open>client/ring_buffer\<close>, \<^verbatim>\<open>client/mapped_memory\<close>, on the last two of which
  \<^verbatim>\<open>client/transfer_buffer\<close> builds). Memory that commands in flight refer to is freed \<^emph>\<open>pending a token\<close>: a token is a number
  that a command in the stream makes the service report once it is reached. The service
  (\<^verbatim>\<open>service/command_buffer_service\<close>) owns the table of the shared memory buffers and the get and put offsets; a flush makes
  the scheduler (\<^verbatim>\<open>service/gpu_scheduler\<close>) drive the parser (\<^verbatim>\<open>service/cmd_parser\<close>), which calls the decoder
  (\<^verbatim>\<open>service/common_decoder\<close>) for each command. The service must survive any content of the shared memory. The decoder for GL rests on
  the managers of GL objects (\<^verbatim>\<open>service/*_manager\<close>), which validate what the client asks for.

  \<^bold>\<open>Theories.\<close>
  \<^item> \<^verbatim>\<open>Prelude\<close>: types and lemmas on words, lists and options that all components share; \<^verbatim>\<open>Token_Fence\<close>: the contract of a
    token helper (locale \<^verbatim>\<open>token_fence\<close>) on which the allocators rely.
  \<^item> \<^verbatim>\<open>Fenced_Allocator\<close>, \<^verbatim>\<open>Ring_Buffer\<close>, \<^verbatim>\<open>Mapped_Memory\<close>, \<^verbatim>\<open>Transfer_Buffer\<close>: the client's memory. Each operation of the classes is one
    definition on the list of blocks (or the record of the class); \<^const>\<open>None\<close> is a failed check of the debug build. The lemmas give an invariant (blocks
    partition the buffer; the ring is a chain of blocks; chunks are disjoint), that the operations keep it, their exact effect on the blocks in use, and that
    pending memory is reused only after its token.
  \<^item> \<^verbatim>\<open>Id_Allocator\<close>, \<^verbatim>\<open>Shared_Ids\<close>, \<^verbatim>\<open>Id_Manager\<close>: allocation of object names on both sides (\<^verbatim>\<open>common/id_allocator\<close>, the id handlers
    of \<^verbatim>\<open>client/gles2_implementation.cc\<close>, \<^verbatim>\<open>service/context_group.cc\<close> and the handlers of \<^verbatim>\<open>service/gles2_cmd_decoder.cc\<close>). The locale
    \<^verbatim>\<open>id_allocator_interface\<close> is the contract of \<^verbatim>\<open>IdAllocatorInterface\<close>; both implementations interpret it.
  \<^item> \<^verbatim>\<open>Cmd_Common\<close>, \<^verbatim>\<open>Shared_Memory\<close>: the command format (\<^verbatim>\<open>common/cmd_buffer_common.h\<close>) and byte-addressed shared memory objects.
  \<^item> \<^verbatim>\<open>Cmd_Parser\<close>, \<^verbatim>\<open>Common_Decoder\<close>, \<^verbatim>\<open>Command_Buffer_Service\<close>, \<^verbatim>\<open>Gpu_Scheduler\<close>: the service. The record of each class extends that of
    the class it drives, so one record is the state of the service. Callbacks (\<^verbatim>\<open>base::Callback\<close>) and virtual calls are arguments.
  \<^item> \<^verbatim>\<open>Ring_Stream\<close>, \<^verbatim>\<open>Service_Stream\<close>: what it means that commands are waiting in the ring, and that the service executes them in order.
  \<^item> \<^verbatim>\<open>Cmd_Buffer_Helper\<close>: the client's helper, verified once in the locale \<^verbatim>\<open>command_buffer\<close> (the laws of a command buffer as the helper sees
    it); \<^verbatim>\<open>Client_Service\<close> interprets that locale on the service above, \<^verbatim>\<open>Client_Memory\<close> the locale \<^verbatim>\<open>memory_provider\<close> of the mapped memory, and
    \<^verbatim>\<open>Client_Runs\<close> shows that client and service together refine a queue.
  \<^item> \<^verbatim>\<open>Gl_Enums\<close>, \<^verbatim>\<open>Gles2_Utils\<close>, \<^verbatim>\<open>Buffer_Info\<close>, \<^verbatim>\<open>Buffer_Manager\<close>: GL constants, the size computations of \<^verbatim>\<open>common/gles2_cmd_utils\<close>, and the manager of GL
    buffers with its reference counts and the cached index maxima.
  \<^item> \<^verbatim>\<open>Vertex_Attrib_Manager\<close>, \<^verbatim>\<open>Vertex_Decoder\<close>: the vertex attributes (\<^verbatim>\<open>service/vertex_attrib_manager\<close>) and the handlers of
    \<^verbatim>\<open>service/gles2_cmd_decoder.cc\<close> for buffers and attributes with the check of draw calls. Calls to GL are recorded in a list; the errors that
    the driver raises and the names it makes up are functions of that list. The lemmas give the invariant of the decoder, in which the reference counts of
    buffers cover the bindings, over any sequence of commands.
  \<^item> \<^verbatim>\<open>Texture_Info\<close>, \<^verbatim>\<open>Texture_Manager\<close>, \<^verbatim>\<open>Texture_Decoder\<close>: the levels of a texture with their completeness and cleared flags, the
    manager of textures with its counters and default textures (\<^verbatim>\<open>service/texture_manager\<close>), and the texture handlers of the decoder with
    what a draw call does about textures that can not be rendered. The lemmas give the shape of textures, the meaning of the flags and counters, and an invariant over
    any sequence of texture commands (\<open>xd_reach\<close>).

  \<^bold>\<open>Conventions.\<close> A \<^verbatim>\<open>uint32\<close> is a 32-bit word; \<^verbatim>\<open>int32\<close> is \<^typ>\<open>int\<close> with the wrap-around written out where it can happen. In the client
  library \<^verbatim>\<open>GPU_DCHECK\<close> and \<^verbatim>\<open>GPU_NOTREACHED\<close> are kept: \<^const>\<open>None\<close> is the end of the process; in the service, whose checks are compiled out of the
  product, they are not. \<^const>\<open>None\<close> also stands for a read or write outside mapped memory, for the use of a null pointer, and for a call that does not
  return; theorems that an operation returns are stated as such. Loops are recursive functions, with a termination proof where the recursion is not
  structural; the loops that wait for the service are \<^verbatim>\<open>partial_function (option)\<close>, and the lemmas show that they return on a service
  that meets its contract. There is no fuel. The sandboxed neighbours are parameters: shared memory of the operating system (\<open>create\<close>, \<open>map_shm\<close>, with
  \<open>create_ok\<close>, \<open>map_shm_ok\<close>: a new mapping covers its size and is not one in use), the clock, closures that the embedder installs
  (\<open>keeps_schedule\<close>, \<open>callbacks_keep\<close>), GL fences.

  \<^bold>\<open>Properties.\<close> C1 to C13: client and service together (queue refinement, liveness of waiting and finishing, fencing of memory, mapped
  memory, transfer buffer). Then the allocators, the service on its own (equivalence with the execution of a list of commands, memory safety for any client, tables,
  pauses, errors), identifiers, and the GL support. The last ones are about vertex attributes and draw calls, and about textures.

  \<^bold>\<open>Not modelled.\<close> Of the GL decoder (\<^verbatim>\<open>service/gles2_cmd_decoder.cc\<close>): framebuffers, renderbuffers, shaders and programs (a program is the list of its attribute
  locations and of its samplers), copies from framebuffers into textures, float texture parameters, queries of state, and the handlers that only forward to the GL driver, which is
  outside the repository. Of the client's GL implementation: all but the id handlers. Of the generated code (\<^verbatim>\<open>*_autogen.h\<close>): all but the few handlers and tables that the
  theorems use. The shader translator
  (ANGLE, third party), inter-process transport (\<^verbatim>\<open>src/content/common/gpu\<close>), tests and mocks, and the rest of the browser. Concurrency between the
  processes is modelled as the in-process arrangement of \<^verbatim>\<open>gpu/demos/framework/window.cc\<close>: the service runs inside the client's flush calls; the theorems about the
  service on its own hold for arbitrary ring contents.
\<close>

section \<open>The client on the service\<close>











text \<open>
  C6. \<^verbatim>\<open>CommandBufferHelper::Initialize\<close> on an idle service always returns. On success the client and the
  service agree on an empty ring buffer of the given size less the two entries kept for a jump; on failure
  the helper is marked unusable.
\<close>

theorem client_initialize:
  assumes "idle_service w" and "create_ok create" and "map_shm_ok map_shm" and "12 \<le> sz" and "sz < 2147483648"
  shows "\<exists>r h. hp_Initialize (service_cb e create map_shm clock android) sz (new_CommandBufferHelper w) = Some (r, h) \<and>
    (if r then (\<exists>ob. client_inv (nat sz div 4 - 2) ob [] h) \<and> svc_ok (hp_cb h) \<and> hp_token h = 0 else \<not> hp_usable h)"
  by (rule Initialize_client [OF assms])

theorem client_initialize_witness:
  "\<exists>h ob. hp_Initialize sample_cb 64 (new_CommandBufferHelper sample_service) = Some (True, h) \<and>
     client_inv 14 ob [] h \<and> svc_ok (hp_cb h)"
proof -
  obtain h where h: "hp_Initialize sample_cb 64 (new_CommandBufferHelper sample_service) = Some (True, h)"
    using sample_start by blast
  from client_initialize [OF sample_idle os_create_ok os_map_shm_ok [of sample_addr], of 64 sample_env "\<lambda>_. 0" False] h
  show ?thesis unfolding sample_cb_def [symmetric] by auto
qed

text \<open>
  C7. Fencing of the allocator: when \<^verbatim>\<open>FencedAllocator::Alloc\<close> runs on the helper and the service, a block
  that was freed pending a token is not pending any more only if the service has executed the commands up to
  that token (or has stopped, or the number was never issued). So memory that commands still in flight
  may use is never given out again.
\<close>

theorem client_alloc_is_fenced:
  assumes "client_inv n ob cs h"
    and "Alloc (WaitForToken (service_cb e create map_shm clock android)) sz blocks h = Some (off, blocks', h')"
  shows "\<forall>b \<in> set (pending_blocks blocks). b \<in> set (pending_blocks blocks') \<or> token_passed cs_token svc_ok (b_token b) h'"
  using client_Alloc_fenced [OF assms] by (simp add: fenced_def)

theorem client_alloc_is_fenced_witness:
  "\<exists>ob h h'. client_inv 14 ob [] h \<and>
     Alloc (WaitForToken sample_cb) 16 [\<lparr>b_state = FREE_PENDING_TOKEN, b_offset = 0, b_size = 16, b_token = 0\<rparr>] h =
       Some (0, [\<lparr>b_state = IN_USE, b_offset = 0, b_size = 16, b_token = 0\<rparr>], h') \<and>
     token_passed cs_token svc_ok 0 h'"
proof -
  obtain h :: "GpuScheduler CommandBufferHelper" and ob where i: "client_inv 14 ob [] h" "svc_ok (hp_cb h)" using sample_client by blast
  from client_WaitForToken [OF i, of sample_env os_create "os_map sample_addr" "\<lambda>_. 0" False 0]
  obtain h' where w: "WaitForToken sample_cb 0 h = Some h'" unfolding sample_cb_def [symmetric] by blast
  let ?b = "\<lparr>b_state = FREE_PENDING_TOKEN, b_offset = 0, b_size = 16, b_token = 0\<rparr>"
  have a: "Alloc (WaitForToken sample_cb) 16 [?b] h =
      Some (0, [\<lparr>b_state = IN_USE, b_offset = 0, b_size = 16, b_token = 0\<rparr>], h')"
    using w by (simp add: Alloc_def alloc_find_free.simps alloc_pending_loop.simps WaitForTokenAndFreeBlock_def
        CollapseFreeBlock_def AllocInBlock_def kUnusedToken_def Let_def)
  from client_alloc_is_fenced [OF i(1) a [unfolded sample_cb_def]] i a show ?thesis by auto
qed

text \<open>
  C8. The same for the transfer ring: \<^verbatim>\<open>RingBuffer::Alloc\<close> on the helper and the service drops a block that
  was freed pending a token only once that token has passed.
\<close>

theorem client_ring_alloc_is_fenced:
  assumes "client_inv n ob cs h" and "rb_reachable wait base tot rb g"
    and "RingBuffer_Alloc (WaitForToken (service_cb e create map_shm clock android)) sz rb h = Some (off, rb', h')"
  shows "\<forall>b \<in> set (rb_blocks rb). rb_state b = RB_FREE_PENDING_TOKEN \<longrightarrow>
    b \<in> set (rb_blocks rb') \<or> token_passed cs_token svc_ok (sint (rb_token b)) h'"
  using client_RingBuffer_Alloc_fenced [OF assms(1) rb_reachable_inv [OF assms(2)] assms(3)] by (simp add: rb_fenced_def)

theorem client_ring_alloc_is_fenced_witness:
  "\<exists>ob h off rb'. client_inv 14 ob [] h \<and>
     RingBuffer_Alloc (WaitForToken sample_cb) 8 (new_RingBuffer 64 16) h = Some (off, rb', h) \<and>
     (\<forall>b. b \<notin> set (rb_blocks (new_RingBuffer 64 16)))"
proof -
  obtain h :: "GpuScheduler CommandBufferHelper" and ob where i: "client_inv 14 ob [] h" using sample_client by blast
  have r: "rb_reachable (\<lambda>t h. Some h) 64 16 (new_RingBuffer 64 16) ()"
    by (rule rb_reachable.init) simp_all
  obtain off rb' where a: "RingBuffer_Alloc (WaitForToken sample_cb) 8 (new_RingBuffer 64 16) h = Some (off, rb', h)"
    by (simp add: RingBuffer_Alloc_def new_RingBuffer_def rb_make_room.simps GetLargestFreeSizeNoWaiting_def max_def Let_def)
  from client_ring_alloc_is_fenced [OF i r a [unfolded sample_cb_def]] i a show ?thesis by (auto simp: new_RingBuffer_def)
qed

section \<open>Client memory on the service\<close>









text \<open>
  C13. \<^verbatim>\<open>ComputePOTSize\<close>, by the loop of \<^verbatim>\<open>Log2Floor\<close> over the halved shifts, is the least power of two that is not smaller than its argument, for
  arguments up to \<open>2 ^ 31\<close>; above, it shifts by the width of the type, which C++ leaves undefined.
\<close>

theorem pot_size_least:
  assumes "0 < unat d"
  shows "if unat d \<le> 2147483648
    then \<exists>k r. ComputePOTSize d = Some r \<and> unat r = 2 ^ k \<and> unat d \<le> 2 ^ k \<and> 2 ^ k < 2 * unat d
    else ComputePOTSize d = None"
  by (rule ComputePOTSize_spec [OF assms])

theorem pot_size_least_witness:
  "\<exists>k r. ComputePOTSize 1000 = Some r \<and> unat r = 2 ^ k \<and> 1000 \<le> (2 :: nat) ^ k \<and> (2 :: nat) ^ k < 2000"
  using pot_size_least [of 1000] by simp

section \<open>Client memory: the fenced allocator\<close>

text \<open>
  C14. \<^verbatim>\<open>FencedAllocator::Alloc\<close> in any reachable state, with a helper whose waits return: it always
  returns. It succeeds exactly when the request (at least one byte) is not larger than
  \<^verbatim>\<open>GetLargestFreeOrPendingSize\<close>; then the block lies inside the buffer, overlaps no block in use,
  and is the only block added to those in use. Otherwise it returns \<^verbatim>\<open>kInvalidOffset\<close> and the blocks
  in use are unchanged.
\<close>

theorem fenced_alloc_correct:
  assumes reach: "fa_reachable wait last_read tot blocks h" and wait: "\<And>t h. wait t h \<noteq> None"
  shows "\<exists>off blocks' h'. Alloc wait sz blocks h = Some (off, blocks', h') \<and>
    (if max 1 sz \<le> GetLargestFreeOrPendingSize blocks
     then off \<noteq> kInvalidOffset \<and> unat off + unat (max 1 sz) \<le> unat tot \<and>
          (\<forall>b \<in> set blocks. b_state b = IN_USE \<longrightarrow>
             region b \<inter> {unat off ..< unat off + unat (max 1 sz)} = {}) \<and>
          adds_block (max 1 sz) off blocks blocks'
     else off = kInvalidOffset \<and> in_use_blocks blocks' = in_use_blocks blocks)"
proof -
  note inv = fa_reachable_inv [OF reach]
  have "Alloc wait sz blocks h \<noteq> None" by (rule Alloc_total [OF inv wait])
  then obtain off blocks' h' where a: "Alloc wait sz blocks h = Some (off, blocks', h')" by (rule not_None3E)
  note spec = Alloc_spec [OF inv a]
  show ?thesis
  proof (cases "max 1 sz \<le> GetLargestFreeOrPendingSize blocks")
    case True
    with spec(2) have add: "off \<noteq> kInvalidOffset" "adds_block (max 1 sz) off blocks blocks'" by simp_all
    have "\<forall>b \<in> set blocks. b_state b = IN_USE \<longrightarrow> region b \<inter> {unat off ..< unat off + unat (max 1 sz)} = {}"
      using adds_block_disjoint [OF spec(1) add(2)] by blast
    with a add adds_block_in_buffer [OF spec(1) add(2)] show ?thesis
      unfolding if_P [OF True] by blast
  next
    case False
    with spec(2) a show ?thesis by simp
  qed
qed

theorem fenced_alloc_correct_witness:
  "fa_reachable (\<lambda>t h. Some h) (\<lambda>h. (0, h)) 16 (FencedAllocator 16) () \<and>
   (\<exists>off blocks' h'. Alloc (\<lambda>t h. Some h) 4 (FencedAllocator 16) () = Some (off, blocks', h') \<and>
      off \<noteq> kInvalidOffset \<and> unat off + 4 \<le> 16 \<and> adds_block 4 off (FencedAllocator 16) blocks')"
proof -
  have r: "fa_reachable (\<lambda>t h. Some h) (\<lambda>h. (0, h)) 16 (FencedAllocator 16) ()"
    by (rule fa_reachable.init) simp
  moreover have "max 1 4 \<le> GetLargestFreeOrPendingSize (FencedAllocator 16)" and "max 1 (4 :: u32) = 4"
    by (simp_all add: GetLargestFreeOrPendingSize_def FencedAllocator_def max_def)
  ultimately show ?thesis using fenced_alloc_correct [OF r, of 4] by auto
qed

text \<open>
  C15. In every state that an allocator reaches by calls that do not abort, the consistency check of the
  test suite, \<^verbatim>\<open>FencedAllocator::CheckConsistency\<close>, holds, and the blocks partition the buffer: each
  byte belongs to exactly one block.
\<close>

theorem fenced_allocator_consistent:
  assumes "fa_reachable wait last_read tot blocks h"
  shows "CheckConsistency blocks \<and> (\<forall>x < unat tot. \<exists>!i. i < length blocks \<and> x \<in> region (blocks ! i))"
  using fa_inv_CheckConsistency fa_inv_partition fa_reachable_inv [OF assms] by blast

theorem fenced_allocator_consistent_witness:
  "fa_reachable (\<lambda>t h. Some h) (\<lambda>h. (0, h)) 16 (FencedAllocator 16) () \<and>
   CheckConsistency (FencedAllocator 16) \<and>
   (\<exists>!i. i < length (FencedAllocator 16) \<and> 5 \<in> region (FencedAllocator 16 ! i))"
proof -
  have r: "fa_reachable (\<lambda>t h. Some h) (\<lambda>h. (0, h)) 16 (FencedAllocator 16) ()"
    by (rule fa_reachable.init) simp
  have "(5::nat) < unat (16 :: u32)" by simp
  with fenced_allocator_consistent [OF r] r show ?thesis by blast
qed

text \<open>
  C16. \<^verbatim>\<open>FencedAllocator::Free\<close> of a block that is not free succeeds and removes exactly that block from
  the blocks in use and the blocks pending a token.
\<close>

theorem fenced_free_correct:
  assumes "fa_reachable wait last_read tot (xs @ b # ys) h" and "b_state b \<noteq> FREE"
  shows "\<exists>blocks'. Free (b_offset b) (xs @ b # ys) = Some blocks' \<and>
    in_use_blocks blocks' = in_use_blocks (xs @ ys) \<and> pending_blocks blocks' = pending_blocks (xs @ ys)"
  using Free_spec [OF fa_reachable_inv [OF assms(1)] assms(2)] by metis

theorem fenced_free_correct_witness:
  "\<exists>blocks'. Free 0 [\<lparr>b_state = IN_USE, b_offset = 0, b_size = 16, b_token = 0\<rparr>] = Some blocks' \<and>
     in_use_blocks blocks' = [] \<and> pending_blocks blocks' = []"
proof -
  let ?b = "\<lparr>b_state = IN_USE, b_offset = 0, b_size = 16, b_token = 0\<rparr>"
  have "Alloc (\<lambda>t h. Some h) 16 (FencedAllocator 16) () = Some (0, [?b], ())"
    by (simp add: Alloc_def FencedAllocator_def alloc_find_free.simps AllocInBlock_def kUnusedToken_def Let_def)
  then have r: "fa_reachable (\<lambda>t h. Some h) (\<lambda>h. (0, h)) 16 ([] @ ?b # []) ()"
    using fa_reachable.alloc fa_reachable.init by force
  from fenced_free_correct [OF r] show ?thesis by simp
qed

text \<open>
  C17. \<^verbatim>\<open>FencedAllocator::FreeUnused\<close> frees exactly the pending blocks whose token is not newer than the
  last token read: the other pending blocks and the blocks in use stay as they are.
\<close>

theorem fenced_free_unused_exact:
  assumes "fa_reachable wait last_read tot blocks h"
    and "FreeUnused last_read blocks h = (blocks', h')"
  shows "in_use_blocks blocks' = in_use_blocks blocks \<and>
    pending_blocks blocks' = filter (\<lambda>b. b_token b > fst (last_read h)) (pending_blocks blocks)"
  using FreeUnused_spec [OF fa_reachable_inv [OF assms(1)] assms(2)] by simp

theorem fenced_free_unused_exact_witness:
  "in_use_blocks (fst (FreeUnused (\<lambda>h. (0, h)) (FencedAllocator 16) ())) = [] \<and>
   pending_blocks (fst (FreeUnused (\<lambda>h. (0, h)) (FencedAllocator 16) ())) = []"
proof -
  have r: "fa_reachable (\<lambda>t h. Some h) (\<lambda>h. (0, h)) 16 (FencedAllocator 16) ()"
    by (rule fa_reachable.init) simp
  obtain blocks' h' where f: "FreeUnused (\<lambda>h. (0, h)) (FencedAllocator 16) () = (blocks', h')"
    by (rule prod.exhaust)
  from fenced_free_unused_exact [OF r f] f show ?thesis by (simp add: FencedAllocator_def)
qed



section \<open>Client memory: the transfer ring\<close>

text \<open>
  C19. \<^verbatim>\<open>RingBuffer::Alloc\<close> in any reachable state, for a request that fits the buffer, with the previous
  block freed and a helper whose waits return: it returns a block inside the buffer that overlaps no
  block still held (pending a token or padding); what it dropped is a prefix of the oldest blocks.
\<close>

theorem ring_alloc_correct:
  assumes reach: "rb_reachable wait base tot rb h" and "sz \<le> tot" and "\<forall>t h. wait t h \<noteq> None"
    and "rb_blocks rb = [] \<or> rb_state (last (rb_blocks rb)) \<noteq> RB_IN_USE"
  shows "\<exists>off rb' h' dropped kept pad new.
    RingBuffer_Alloc wait sz rb h = Some (off, rb', h') \<and>
    rb_blocks rb = dropped @ kept \<and> rb_blocks rb' = kept @ pad @ [new] \<and>
    (\<forall>p \<in> set pad. rb_state p = PADDING) \<and>
    rb_offset new = off - base \<and> rb_size new = max 1 sz \<and> rb_state new = RB_IN_USE \<and>
    rb_region new \<subseteq> {0 ..< unat tot} \<and> (\<forall>b \<in> set (kept @ pad). rb_region new \<inter> rb_region b = {})"
proof -
  note inv = rb_reachable_inv [OF reach]
  have sz: "rb_total rb = tot" "rb_base_offset rb = base" using rb_reachable_size [OF reach] by auto
  have "RingBuffer_Alloc wait sz rb h \<noteq> None"
    using RingBuffer_Alloc_total [OF inv _ assms(3,4)] assms(2) sz by simp
  then obtain off rb' h' where a: "RingBuffer_Alloc wait sz rb h = Some (off, rb', h')" by (rule not_None3E)
  from RingBuffer_Alloc_spec [OF inv a] obtain dropped kept pad where s: "rb_blocks rb = dropped @ kept"
    "rb_blocks rb' = (kept @ pad) @ [RB_make_Block (off - base) (max 1 sz) RB_IN_USE]"
    "pad = [] \<or> (\<exists>p. pad = [p] \<and> rb_state p = PADDING)" "rb_inv rb'" "rb_total rb' = tot"
    using sz by (metis append.assoc)
  define new where "new = RB_make_Block (off - base) (max 1 sz) RB_IN_USE"
  have "rb_region new \<subseteq> {0 ..< unat tot}"
    using rb_inv_in_buffer [OF s(4)] s(2,5) by (simp add: new_def)
  moreover have "\<forall>b \<in> set (kept @ pad). rb_region new \<inter> rb_region b = {}"
    using rb_inv_disjoint [OF s(4,2)] by (simp add: new_def)
  moreover have "\<forall>p \<in> set pad. rb_state p = PADDING" using s(3) by auto
  ultimately show ?thesis
    using a s(1,2) unfolding new_def [symmetric]
    by (intro exI [of _ off] exI [of _ rb'] exI [of _ h'] exI [of _ dropped] exI [of _ kept] exI [of _ pad]
        exI [of _ new]) (simp add: new_def RB_make_Block_def)
qed

theorem ring_alloc_correct_witness:
  "\<exists>off rb' h'. RingBuffer_Alloc (\<lambda>t h. Some h) 8 (new_RingBuffer 64 16) () = Some (off, rb', h') \<and>
     rb_size (last (rb_blocks rb')) = 8"
proof -
  have r: "rb_reachable (\<lambda>t h. Some h) 64 16 (new_RingBuffer 64 16) ()"
    by (rule rb_reachable.init) simp_all
  have e: "rb_blocks (new_RingBuffer 64 16) = []" by (simp add: new_RingBuffer_def)
  have m: "max 1 8 = (8 :: u32)" by (simp add: max_def)
  have le: "(8 :: u32) \<le> 16" by simp
  have w: "\<forall>t h. (\<lambda>(t :: int) (h :: unit). Some h) t h \<noteq> None" by simp
  from ring_alloc_correct [OF r le w] e m show ?thesis by fastforce
qed



section \<open>The service: parser, decoder, command buffer, scheduler\<close>

text \<open>
  C21. For commands that do not touch the parser, \<^verbatim>\<open>CommandParser::ProcessAllCommands\<close> over the ring equals the
  execution of the list of commands stored there, one after the other, that stops at the first error: the
  offsets wrap, and no entry is skipped or read twice.
\<close>

theorem parser_executes_stream:
  assumes "stream_at w (cp_get w) cs" and "\<forall>c \<in> set cs. quiet DoCommand c"
    and "cp_put w = (cp_get w + int (stream_len cs)) mod cp_entry_count w"
    and "int (stream_len cs) < cp_entry_count w" and "0 \<le> cp_get w" and "cp_get w < cp_entry_count w"
  shows "ProcessAllCommands DoCommand w = exec_stream DoCommand cs w"
  by (rule ProcessAllCommands_exec_stream [OF assms])

theorem parser_executes_stream_witness:
  "ProcessAllCommands (\<lambda>_ _ _ w. Some (kNoError, w))
     \<lparr>mem = (\<lambda>_. [1, 0, 0, 0, 0, 0, 0, 0]), cp_get = 0, cp_put = 1, cp_buffer = Some (0, 0), cp_entry_count = 2\<rparr> =
   exec_stream (\<lambda>_ _ _ w. Some (kNoError, w)) [[1]]
     \<lparr>mem = (\<lambda>_. [1, 0, 0, 0, 0, 0, 0, 0]), cp_get = 0, cp_put = 1, cp_buffer = Some (0, 0), cp_entry_count = 2\<rparr>"
proof (rule parser_executes_stream)
  have "read_u32 (\<lambda>_. [1, 0, 0, 0, 0, 0, 0, 0]) (0, 0) = Some 1" by code_simp
  moreover have "unat (h_size (header_of_entry 1)) = 1" by code_simp
  ultimately show "stream_at \<lparr>mem = (\<lambda>_. [1, 0, 0, 0, 0, 0, 0, 0]), cp_get = 0, cp_put = 1, cp_buffer = Some (0, 0), cp_entry_count = 2\<rparr>
      (cp_get \<lparr>mem = (\<lambda>_. [1, 0, 0, 0, 0, 0, 0, 0]), cp_get = 0, cp_put = 1, cp_buffer = Some (0, 0), cp_entry_count = 2\<rparr>) [[1]]"
    by (simp add: read_entry_def entry_addr_def)
qed (simp_all add: quiet_def)





text \<open>
  C24. Encoding and decoding of the common commands: the entries that a command's \<^verbatim>\<open>Init\<close> writes carry the
  command's number and (unless it has immediate data) its size in the header, and reading the arguments back gives
  the command; header and entry convert into each other without loss.
\<close>

theorem command_encode_decode:
  assumes "encode_common c = Some es"
  shows "es \<noteq> [] \<and> h_command (header_of_entry (hd es)) = ucast (cmd_index (id_of c)) \<and>
    (wf_cmd c \<longrightarrow> decode_common (id_of c) (tl es @ data) = Some c) \<and>
    length es = unat (sizeof_cmd (id_of c)) div 4 \<and>
    (id_of c \<noteq> kSetBucketDataImmediate \<longrightarrow> unat (h_size (header_of_entry (hd es))) = length es) \<and>
    entry_of_header (header_of_entry (hd es)) = hd es"
  using encode_common_shape [OF assms, of data] entry_roundtrip by blast

theorem command_encode_decode_witness:
  "\<exists>es. encode_common (SetBucketData 1 2 3 4 5) = Some es \<and> length es = 6 \<and>
     decode_common kSetBucketData (tl es) = Some (SetBucketData 1 2 3 4 5)"
proof -
  obtain es where e: "encode_common (SetBucketData 1 2 3 4 5) = Some es"
    by (simp add: SetBucketData_Init_def SetCmd_evals)
  from command_encode_decode [OF e, of "[]"] e show ?thesis by simp
qed







text \<open>
  C28. The decoder's answer to every command number and argument count: a known command with a wrong number of
  arguments gives \<^verbatim>\<open>kInvalidArguments\<close> without any effect; for a number that is not one of the common commands
  \<^verbatim>\<open>DoCommonCommand\<close> calls itself with the same arguments, so it never returns.
\<close>

theorem decoder_rejects:
  "(\<forall>flags info_arg_count. unat command < 12 \<and> command_info ! unat command = (flags, info_arg_count) \<and>
      \<not> (if flags = kFixed then arg_count = info_arg_count else arg_count \<ge> info_arg_count) \<longrightarrow>
      DoCommonCommand e command arg_count p w = Some (kInvalidArguments, w)) \<and>
   (12 \<le> unat command \<longrightarrow> DoCommonCommand e command arg_count p w = None)"
  using DoCommonCommand_bad_args [of command _ _ arg_count e p w] DoCommonCommand_unknown [of command e arg_count p w] by blast

theorem decoder_rejects_witness:
  "DoCommonCommand sched_engine 1 2 (0, 0) sample_service = Some (kInvalidArguments, sample_service) \<and>
   DoCommonCommand sched_engine 12 0 (0, 0) sample_service = None"
proof -
  have i: "command_info ! 1 = (kFixed, 1)" by code_simp
  from decoder_rejects [of 1 2 sched_engine "(0, 0)" sample_service] i have
    "DoCommonCommand sched_engine 1 2 (0, 0) sample_service = Some (kInvalidArguments, sample_service)" by simp
  moreover from decoder_rejects [of 12 0 sched_engine "(0, 0)" sample_service] have
    "DoCommonCommand sched_engine 12 0 (0, 0) sample_service = None" by simp
  ultimately show ?thesis ..
qed

text \<open>
  C29. Buckets: data written into a range of a bucket is what reading the range gives back, and a string stored in a
  bucket is read back unchanged.
\<close>

theorem bucket_round_trip:
  assumes "bucket_ok b" and "length src = unat sz" and "SetData src offset sz b = (True, b')" and "bk_size b \<noteq> 0"
    and "length s + 1 < 4294967296"
  shows "GetData b' offset sz = Some src \<and> GetAsString (SetFromString (Some s) b') = Some s"
  using GetData_SetData [OF assms(1-4)] GetAsString_SetFromString [OF assms(5)] by simp

theorem bucket_round_trip_witness:
  "SetData [7, 8] 1 2 \<lparr>bk_size = 4, bk_data = [0, 0, 0, 0]\<rparr> = (True, \<lparr>bk_size = 4, bk_data = [0, 7, 8, 0]\<rparr>) \<and>
   GetData \<lparr>bk_size = 4, bk_data = [0, 7, 8, 0]\<rparr> 1 2 = Some [7, 8]"
proof -
  have s: "SetData [7, 8] 1 2 \<lparr>bk_size = 4, bk_data = [0, 0, 0, 0]\<rparr> = (True, \<lparr>bk_size = 4, bk_data = [0, 7, 8, 0]\<rparr>)" by code_simp
  have "GetData \<lparr>bk_size = 4, bk_data = [0, 7, 8, 0]\<rparr> 1 2 = Some [7, 8]"
    by (rule bucket_round_trip [OF _ _ s, THEN conjunct1, of "[]"]) (simp_all add: bucket_ok_def)
  with s show ?thesis ..
qed

section \<open>Identifiers\<close>





section \<open>GL support of the service\<close>

text \<open>
  C32. \<^verbatim>\<open>GLES2Util::ComputeImageDataSize\<close> for an image with at least one row: it fails exactly when the size in bytes (rows padded
  to the alignment, except the last) does not fit 32 bits; otherwise the size it returns is exact, with no wrap-around.
\<close>

theorem image_data_size_exact:
  assumes "0 \<le> width" and "width < 2147483648" and "0 < height" and "height < 2147483648"
    and "0 < unpack_alignment" and "unpack_alignment < 2147483648"
  shows "\<exists>ok sz. ComputeImageDataSize width height format type unpack_alignment = Some (ok, sz) \<and>
    (ok \<longleftrightarrow> image_size (nat width) (nat height) (bytes_per_group format type) (nat unpack_alignment) < 4294967296) \<and>
    (ok \<longrightarrow> sz = Some (of_nat (image_size (nat width) (nat height) (bytes_per_group format type) (nat unpack_alignment))))"
  by (rule ComputeImageDataSize_exact [OF assms refl])

theorem image_data_size_exact_witness:
  "\<exists>ok sz. ComputeImageDataSize 3 2 GL_RGB GL_UNSIGNED_BYTE 4 = Some (ok, sz) \<and> ok \<and> sz = Some 21"
proof -
  have "image_size 3 2 (bytes_per_group GL_RGB GL_UNSIGNED_BYTE) 4 = 21"
    by (simp add: image_size_def bytes_per_group_def BytesPerElement_def ElementsPerGroup_def)
  with image_data_size_exact [of 3 2 4 GL_RGB GL_UNSIGNED_BYTE] show ?thesis by auto
qed

text \<open>
  C33. \<^verbatim>\<open>BufferInfo::GetMaxValueForRange\<close>, the check that keeps index buffers inside vertex buffers, in a state where the cache is
  sound: it always returns, keeps the cache sound, and a value it returns is the largest index in the range, which lies inside
  the buffer; it refuses only a range that is misaligned, outside the buffer, or of a buffer without a copy. So every index in
  an accepted range is at most the value.
\<close>

theorem max_index_correct:
  assumes "info_ok b" and "- 2147483648 \<le> num" and "num < 2147483648"
    and "type \<in> {GL_UNSIGNED_BYTE, GL_UNSIGNED_SHORT, GL_UNSIGNED_INT}"
  shows "\<exists>r b'. GetMaxValueForRange offset num type b = Some (r, b') \<and> info_ok b' \<and> bi_shadow b' = bi_shadow b \<and>
     (\<forall>v. r = Some v \<longrightarrow> 0 \<le> num \<and> unat offset + nat num * index_size type \<le> nat (bi_size b) \<and>
        v = max_element (elements (index_size type) (bi_shadow b) (unat offset) (nat num)) \<and>
        (\<forall>e \<in> set (elements (index_size type) (bi_shadow b) (unat offset) (nat num)). e \<le> v)) \<and>
     (r = None \<longrightarrow> \<not> (bi_shadowed b \<and> aligned type offset \<and> 0 \<le> num \<and>
        unat offset + nat num * index_size type \<le> nat (bi_size b)))"
proof -
  from GetMaxValueForRange_ok [OF assms, of offset] obtain r b' where
    *: "GetMaxValueForRange offset num type b = Some (r, b')" "info_ok b'" "bi_shadow b' = bi_shadow b"
      "\<forall>v. r = Some v \<longrightarrow> 0 \<le> num \<and> unat offset + nat num * index_size type \<le> nat (bi_size b) \<and>
        v = max_element (elements (index_size type) (bi_shadow b) (unat offset) (nat num))"
      "r = None \<longrightarrow> \<not> (bi_shadowed b \<and> aligned type offset \<and> 0 \<le> num \<and>
        unat offset + nat num * index_size type \<le> nat (bi_size b))" by blast
  then show ?thesis using max_element_ge by (intro exI [of _ r] exI [of _ b']) auto
qed

theorem max_index_correct_witness:
  "\<exists>r b'. GetMaxValueForRange 0 2 GL_UNSIGNED_BYTE (new_BufferInfo 1) = Some (r, b') \<and> info_ok b' \<and> r \<noteq> Some 7"
proof -
  from max_index_correct [OF info_ok_new [of 1], of 2 GL_UNSIGNED_BYTE 0] obtain r b' where
    "GetMaxValueForRange 0 2 GL_UNSIGNED_BYTE (new_BufferInfo 1) = Some (r, b')" "info_ok b'"
    "\<forall>v. r = Some v \<longrightarrow> unat (0 :: u32) + nat 2 * index_size GL_UNSIGNED_BYTE \<le> nat (bi_size (new_BufferInfo 1))" by auto
  moreover have "nat (bi_size (new_BufferInfo 1)) = 0" "index_size GL_UNSIGNED_BYTE = 1"
    by (simp_all add: new_BufferInfo_def index_size_def)
  ultimately show ?thesis by auto
qed

text \<open>
  C34. The buffer manager with its reference counts, in every state reached by its operations and by clients that take and drop
  references: each live buffer is counted once and is referenced as often as its count says, the memory reported is the sum of the sizes
  of the live buffers, and every buffer's cache of index maxima is sound. \<^verbatim>\<open>Destroy\<close> then always returns, empties the table, and when no
  reference is held outside leaves no buffer and zero bytes, so the assertions of the destructor hold.
\<close>

theorem buffer_manager_consistent:
  assumes "bm_reach m ext"
  shows "bm_inv m ext \<and> (\<exists>m'. bm_Destroy have_context m = Some m' \<and> bm_buffer_infos m' = [] \<and>
    ((\<forall>r. ext r = 0) \<longrightarrow> (\<forall>r. bm_deref r m' = None) \<and> bm_mem_represented m' = 0 \<and> bm_buffer_info_count m' = 0))"
  using bm_reach_inv [OF assms] Destroy_inv [OF bm_reach_inv [OF assms], of have_context] by blast

theorem buffer_manager_consistent_witness:
  "\<exists>m m'. CreateBufferInfo 1 7 new_BufferManager = Some m \<and> bm_Destroy True m = Some m' \<and> bm_buffer_info_count m' = 0"
proof -
  obtain m where c: "CreateBufferInfo 1 7 new_BufferManager = Some m"
    using CreateBufferInfo_inv [OF new_BufferManager_inv, of 1 7] by blast
  from buffer_manager_consistent [OF bm_reach.create [OF bm_reach.init c], of True] c show ?thesis by auto
qed

section \<open>Vertex attributes and draw calls\<close>

text \<open>
  C35. A draw call that passes \<^verbatim>\<open>IsDrawValid\<close> reads only inside of its vertex buffers. In any decoder that a sequence of
  commands reaches (buffers made, bound, filled, deleted, attributes set and enabled, and other decoders of the group changing the
  shared buffers in between), if \<^verbatim>\<open>IsDrawValid\<close> accepts the largest vertex \<open>n\<close>, then each enabled attribute that the program uses, and whose stride is not
  below the size of an element, has a buffer that is alive and not deleted, and the bytes of every vertex up to \<open>n\<close> lie inside of
  that buffer.
\<close>

theorem draw_reads_inside:
  assumes "vd_reach raises gen egl d other" and "IsDrawValid n d = Some (True, d')" and "vd_current_program d = Some program"
    and "i < length (vm_vertex_attrib_infos (vd_attribs d))" and "v = vm_vertex_attrib_infos (vd_attribs d) ! i"
    and "va_enabled v" and "GetAttribInfoByLocation (va_index v) program \<noteq> None" and "int (elem_bytes v) \<le> va_real_stride v"
  shows "\<exists>r b. va_buffer v = Some r \<and> bm_deref r (vd_buffers d) = Some b \<and> \<not> bi_deleted b \<and>
    (\<forall>j. j \<le> unat n \<longrightarrow> reads_inside j v b)"
proof -
  note inv = vd_reach_inv [OF assms(1)]
  have "attrib_checked n program d i"
    using IsDrawValid_ok [OF inv, of n] assms(2-6) by (auto split: if_splits)
  then have c: "CanAccess n v (vd_buffers d) = Some True" using assms(5,7) by (simp add: attrib_checked_def Let_def)
  have ok: "attrib_ok v" using inv assms(4,5) by (simp add: vd_inv_def vm_inv_def Let_def slot_ok_def)
  obtain r where r: "va_buffer v = Some r" using c assms(6) by (cases "va_buffer v") (simp_all add: CanAccess_def)
  from attrib_buffer_live [OF inv assms(4)] r assms(5) obtain b where b: "bm_deref r (vd_buffers d) = Some b" "info_ok b" by auto
  from CanAccess_exact [OF ok assms(6) r assms(8) b, of n] c have e: "\<not> bi_deleted b" "reads_inside (unat n) v b" by simp_all
  with reads_inside_mono [OF ok e(2)] r b(1) show ?thesis by blast
qed

theorem draw_reads_inside_witness:
  "\<exists>d r b. sample_decoder = Some d \<and> va_buffer (vm_vertex_attrib_infos (vd_attribs d) ! 0) = Some r \<and>
     bm_deref r (vd_buffers d) = Some b \<and> reads_inside 1 (vm_vertex_attrib_infos (vd_attribs d) ! 0) b"
proof -
  from sample_decoder_run obtain d where d: "sample_decoder = Some d" "IsDrawValid 1 d = Some (True, d)"
    "va_enabled (vm_vertex_attrib_infos (vd_attribs d) ! 0)" "length (vm_vertex_attrib_infos (vd_attribs d)) = 2"
    "vd_current_program d = Some [0]" "va_index (vm_vertex_attrib_infos (vd_attribs d) ! 0) = 0"
    "elem_bytes (vm_vertex_attrib_infos (vd_attribs d) ! 0) = 16" "va_real_stride (vm_vertex_attrib_infos (vd_attribs d) ! 0) = 16" by blast
  have "0 < length (vm_vertex_attrib_infos (vd_attribs d))" using d(4) by simp
  moreover have "GetAttribInfoByLocation (va_index (vm_vertex_attrib_infos (vd_attribs d) ! 0)) [0] \<noteq> None"
    using d(6) by (simp add: GetAttribInfoByLocation_def)
  moreover have "int (elem_bytes (vm_vertex_attrib_infos (vd_attribs d) ! 0)) \<le> va_real_stride (vm_vertex_attrib_infos (vd_attribs d) ! 0)"
    using d(7,8) by simp
  ultimately obtain r b where rb: "va_buffer (vm_vertex_attrib_infos (vd_attribs d) ! 0) = Some r" "bm_deref r (vd_buffers d) = Some b"
    "\<forall>j. j \<le> unat (1 :: u32) \<longrightarrow> reads_inside j (vm_vertex_attrib_infos (vd_attribs d) ! 0) b"
    using draw_reads_inside [OF sample_decoder_reach [OF d(1)] d(2) d(5) _ refl d(3)] by blast
  with d(1) show ?thesis by (intro exI [of _ d] exI [of _ r] exI [of _ b]) simp
qed

text \<open>
  C36. \<^verbatim>\<open>CanAccess\<close>, computed with unsigned division and remainder, is exact for strides that are not below the size of an
  element: for an enabled attribute with a live buffer it returns true if and only if the buffer is not marked deleted and the bytes of the element with that index end inside of the buffer.
\<close>

theorem attrib_access_exact:
  assumes "attrib_ok v" and "va_enabled v" and "va_buffer v = Some r" and "int (elem_bytes v) \<le> va_real_stride v"
    and "bm_deref r m = Some b" and "info_ok b"
  shows "CanAccess index v m = Some True \<longleftrightarrow>
    \<not> bi_deleted b \<and> va_offset v + int (unat index) * va_real_stride v + int (elem_bytes v) \<le> bi_size b"
  using CanAccess_exact [OF assms, of index] by (simp add: reads_inside_def)

theorem attrib_access_exact_witness:
  "CanAccess 1 (new_VertexAttribInfo\<lparr>va_enabled := True, va_buffer := Some 0\<rparr>)
     (new_BufferManager\<lparr>bm_heap := [Some ((new_BufferInfo 1)\<lparr>bi_size := 32\<rparr>)]\<rparr>) = Some True"
proof -
  let ?v = "new_VertexAttribInfo\<lparr>va_enabled := True, va_buffer := Some 0\<rparr>"
  let ?b = "(new_BufferInfo 1)\<lparr>bi_size := 32\<rparr>"
  have v: "attrib_ok ?v" "va_enabled ?v" "va_buffer ?v = Some 0" "int (elem_bytes ?v) \<le> va_real_stride ?v"
    by (simp_all add: attrib_ok_def elem_bytes_def new_VertexAttribInfo_def GetGLTypeSizeForTexturesAndBuffers_def)
  have b: "bm_deref 0 (new_BufferManager\<lparr>bm_heap := [Some ?b]\<rparr>) = Some ?b" "info_ok ?b"
    by (simp_all add: bm_deref_def info_ok_def cache_ok_def new_BufferInfo_def)
  show ?thesis
    unfolding attrib_access_exact [OF v b, of 1]
    by (simp add: new_BufferInfo_def new_VertexAttribInfo_def elem_bytes_def GetGLTypeSizeForTexturesAndBuffers_def)
qed

text \<open>
  C37. The decoder's handlers for buffers and vertex attributes return on every command and keep the state consistent. In any state a sequence of commands
  reaches, the next command returns (no access to a freed buffer info, no division by zero, no write outside of a shadow copy), and afterwards: the lists of enabled and
  disabled attributes hold each attribute exactly once, on the list of its flag; \<^verbatim>\<open>num_fixed_attribs_\<close> is the number of \<^verbatim>\<open>GL_FIXED\<close> attributes; every attribute has a size of 1 to 4,
  a stride of 1 to 255 and an offset that is not negative; and each buffer info that an attribute or a binding point refers to is alive.
\<close>

theorem vertex_state_consistent:
  assumes "vd_reach raises gen egl d other" and "vd_cmd_ok c"
  shows "\<exists>d'. vd_step raises gen egl c d = Some d' \<and>
    (let vs = vm_vertex_attrib_infos (vd_attribs d'); on = vm_enabled_vertex_attribs (vd_attribs d'); off = vm_disabled_vertex_attribs (vd_attribs d') in
     distinct (on @ off) \<and> (\<forall>i. i \<in> set on \<longleftrightarrow> i < length vs \<and> va_enabled (vs ! i)) \<and>
     (\<forall>i. i \<in> set off \<longleftrightarrow> i < length vs \<and> \<not> va_enabled (vs ! i)) \<and>
     vm_num_fixed_attribs (vd_attribs d') = (\<Sum>v \<leftarrow> vs. if va_type v = GL_FIXED then 1 else 0) \<and>
     (\<forall>i < length vs. 0 \<le> va_offset (vs ! i) \<and> va_size (vs ! i) \<in> {1..4} \<and> va_real_stride (vs ! i) \<in> {1..255}) \<and>
     (\<forall>r. 0 < vd_refs d' r \<longrightarrow> bm_deref r (vd_buffers d') \<noteq> None))"
proof -
  from vd_step_inv [OF vd_reach_inv [OF assms(1)] assms(2), of raises gen egl] obtain d' where
    d': "vd_step raises gen egl c d = Some d'" "vd_inv d' other" by blast
  have vm: "vm_inv (vd_attribs d')" using d'(2) by (simp add: vd_inv_def)
  have "\<forall>i < length (vm_vertex_attrib_infos (vd_attribs d')). attrib_ok (vm_vertex_attrib_infos (vd_attribs d') ! i)"
    using vm by (simp add: vm_inv_def Let_def slot_ok_def)
  then have fields: "\<forall>i < length (vm_vertex_attrib_infos (vd_attribs d')). 0 \<le> va_offset (vm_vertex_attrib_infos (vd_attribs d') ! i) \<and>
      va_size (vm_vertex_attrib_infos (vd_attribs d') ! i) \<in> {1..4} \<and> va_real_stride (vm_vertex_attrib_infos (vd_attribs d') ! i) \<in> {1..255}"
    by (auto simp: attrib_ok_def)
  have refs: "\<forall>r. 0 < vd_refs d' r \<longrightarrow> bm_deref r (vd_buffers d') \<noteq> None" using vd_live [OF d'(2)] by auto
  show ?thesis
    using vm by (intro exI [of _ d'] conjI d'(1), unfold Let_def)
      (intro conjI fields refs; auto simp: vm_inv_def Let_def fixed_count_def)
qed

theorem vertex_state_consistent_witness:
  "\<exists>d d'. sample_decoder = Some d \<and> vd_step sample_raises sample_gen True (Delete_Buffers [5]) d = Some d' \<and>
     distinct (vm_enabled_vertex_attribs (vd_attribs d') @ vm_disabled_vertex_attribs (vd_attribs d'))"
proof -
  from sample_decoder_run obtain d where d: "sample_decoder = Some d" by blast
  have ok: "vd_cmd_ok (Delete_Buffers [5])" by simp
  from vertex_state_consistent [OF sample_decoder_reach [OF d] ok, unfolded Let_def] obtain d' where
    "vd_step sample_raises sample_gen True (Delete_Buffers [5]) d = Some d'"
    "distinct (vm_enabled_vertex_attribs (vd_attribs d') @ vm_disabled_vertex_attribs (vd_attribs d'))" by blast
  with d show ?thesis by blast
qed

section \<open>Textures\<close>

text \<open>
  C38. The texture part of the decoder keeps its types. In any state that texture commands reach, every command that deletes no more
  textures than there are units returns: no null pointer is followed and no index is out of range. In the state after it the active
  unit is one of the units; a texture bound in a unit is alive and has the target of its binding point; a texture with a target has one face, or six for a
  cube map, each with the number of levels of the target; and the five counters of the manager are the sums over the textures that are alive.
\<close>

theorem texture_step_types:
  assumes "xd_reach raises gen egl d" and "xd_cmd_ok cmd d"
  shows "\<exists>d'. xd_step raises gen egl cmd d = Some d' \<and> xd_reach raises gen egl d' \<and>
    unat (xd_active_texture_unit d') < length (xd_texture_units d') \<and>
    (\<forall>i < length (xd_texture_units d'). \<forall>k r. tu_slot k (xd_texture_units d' ! i) = Some r \<longrightarrow>
      (\<exists>t. tm_deref r (xd_textures d') = Some t \<and> ti_target t = default_target k)) \<and>
    (\<forall>r t. tm_deref r (xd_textures d') = Some t \<and> ti_target t \<noteq> 0 \<longrightarrow>
      length (ti_level_infos t) = num_faces (ti_target t) \<and>
      (\<forall>levels \<in> set (ti_level_infos t). int (length levels) = MaxLevelsForTarget (xd_textures d') (ti_target t))) \<and>
    tm_counts (xd_textures d')"
proof -
  from xd_step_ok [OF xd_reach_inv [OF assms(1)] assms(2), of raises gen egl] obtain d' where
    d': "xd_step raises gen egl cmd d = Some d'" "xd_inv (\<lambda>_. 0) d'" by blast
  have "xd_reach raises gen egl d'" by (rule xd_reach.step [OF assms d'(1)])
  moreover have "\<exists>t. tm_deref r (xd_textures d') = Some t \<and> ti_target t = default_target k"
    if "i < length (xd_texture_units d')" "tu_slot k (xd_texture_units d' ! i) = Some r" for i k r
    using slot_live [OF d'(2) that] by blast
  moreover have "length (ti_level_infos t) = num_faces (ti_target t) \<and>
      (\<forall>levels \<in> set (ti_level_infos t). int (length levels) = MaxLevelsForTarget (xd_textures d') (ti_target t))"
    if "tm_deref r (xd_textures d') = Some t" "ti_target t \<noteq> 0" for r t
    using tm_invD(3) [OF xd_inv_textures [OF d'(2)] that(1)] that(2) by (auto simp: ti_ok_def ti_shape_def shape_def in_set_conv_nth)
  moreover have "tm_counts (xd_textures d')" using xd_inv_textures [OF d'(2)] by (simp add: tm_inv_def)
  moreover have "unat (xd_active_texture_unit d') < length (xd_texture_units d')" using d'(2) by (simp add: xd_inv_def)
  ultimately show ?thesis using d'(1) by blast
qed

theorem texture_step_types_witness:
  "\<exists>d d'. sample_textures sample_tex_cmds = Some d \<and> xd_step sample_raises sample_gen True (CmdDeleteTextures [7]) d = Some d' \<and> tm_counts (xd_textures d')"
proof -
  from sample_textures_run obtain d where d: "sample_textures sample_tex_cmds = Some d" "length (xd_texture_units d) = 2" by blast
  then have "xd_cmd_ok (CmdDeleteTextures [7]) d" by simp
  from texture_step_types [OF sample_textures_reach [OF d(1)] this] d(1) show ?thesis by blast
qed

text \<open>
  C39. A draw call samples only levels that are recorded as cleared. In any state that texture commands reach, when
  \<^verbatim>\<open>ClearUnclearedTextures\<close> returns true, the texture that a sampler of the program in use reads from a unit is alive, and every level of it
  that has pixels and is within the mipmap chain of its base level is cleared.
\<close>

theorem draw_reads_cleared:
  assumes "xd_reach raises gen egl d" and "ClearUnclearedTextures raises egl d = Some (True, d')" and "vd_current_program (xd_vertex d) = Some program"
    and "(type, units) \<in> set (xd_samplers d)" and "i \<in> set units" and "unat i < length (xd_texture_units d)"
    and "GetInfoForSamplerType type (xd_texture_units d ! unat i) = Some r"
  shows "\<exists>t. tm_deref r (xd_textures d') = Some t \<and>
    (\<forall>face level. face < length (ti_level_infos t) \<and> level < nat (levels_needed (ti_level_infos t ! 0 ! 0)) \<and>
       visible (ti_level_infos t ! face ! level) \<longrightarrow> li_cleared (ti_level_infos t ! face ! level))"
proof -
  from ClearUnclearedTextures_ok [OF xd_reach_inv [OF assms(1)], of raises egl] assms(2,3) obtain m' v' where
    m': "d' = d\<lparr>xd_vertex := v', xd_textures := m'\<rparr>" "xd_inv (\<lambda>_. 0) d'" "\<forall>(type, us) \<in> set (xd_samplers d). \<forall>i \<in> set us. unit_safe type i d'" by auto
  from m'(3) assms(4,5) have "unit_safe type i d'" by blast
  with assms(6,7) m'(1) obtain t where t: "tm_deref r (xd_textures d') = Some t" "SafeToRenderFrom t" by (auto simp: unit_safe_def)
  from tm_invD(3) [OF xd_inv_textures [OF m'(2)] t(1)] t(2) have "all_cleared (ti_level_infos t)" by (simp add: ti_ok_def SafeToRenderFrom_def)
  with t(1) show ?thesis by (auto simp: all_cleared_def)
qed

theorem draw_reads_cleared_witness:
  "\<exists>d d' t. sample_textures sample_tex_cmds = Some d \<and> ClearUnclearedTextures sample_raises True d = Some (True, d') \<and>
     tm_num_uncleared_mips (xd_textures d) = 1 \<and> tm_deref 2 (xd_textures d') = Some t"
proof -
  from sample_textures_run obtain d d' where d: "sample_textures sample_tex_cmds = Some d" "ClearUnclearedTextures sample_raises True d = Some (True, d')"
    "tu_bound_texture_2d (xd_texture_units d ! 0) = Some 2" "length (xd_texture_units d) = 2"
    "vd_current_program (xd_vertex d) = Some []" "xd_samplers d = [(GL_SAMPLER_2D, [0])]" "tm_num_uncleared_mips (xd_textures d) = 1" by auto
  have "GetInfoForSamplerType GL_SAMPLER_2D (xd_texture_units d ! unat 0) = Some 2" using d(3) by (simp add: GetInfoForSamplerType_def)
  from draw_reads_cleared [OF sample_textures_reach [OF d(1)] d(2) d(5) _ _ _ this, of "[0]"] d show ?thesis by auto
qed

text \<open>
  C40. The flags that \<^verbatim>\<open>Update\<close> computes in nested loops with early exits and running sizes are the reference ones. Setting a
  level of a well-formed texture, at sizes within its limits, returns a well-formed texture with that level recorded. It is texture complete
  exactly when the checks of the base level hold and each further level of each face has the size \<open>max 1 (size div 2 ^ level)\<close> and the
  format of the face's base level; it is cube complete exactly when it has six faces, the first is square, and all base levels agree; it is
  cleared exactly when every level with pixels of the chain is cleared.
\<close>

theorem texture_flags_exact:
  assumes "ti_ok maxl t" and "ti_target t \<noteq> 0" and "target \<noteq> 0" and "GLTargetToFaceIndex target < num_faces (ti_target t)"
    and "0 \<le> level" and "level < maxl (ti_target t)" and "0 \<le> width" and "0 \<le> height" and "0 \<le> depth"
    and "ComputeMipMapCount width height depth \<le> maxl (ti_target t)"
  shows "\<exists>t'. ti_SetLevelInfo f target level internal_format width height depth border format type cleared t = Some t' \<and> ti_ok maxl t' \<and>
    (ti_texture_complete t' \<longleftrightarrow> initial_complete f (ti_level_infos t' ! 0 ! 0) t' \<and> mips_complete (ti_level_infos t')) \<and>
    (ti_cube_complete t' \<longleftrightarrow> length (ti_level_infos t') = 6 \<and>
       li_width (ti_level_infos t' ! 0 ! 0) = li_height (ti_level_infos t' ! 0 ! 0) \<and> faces_equal (ti_level_infos t')) \<and>
    (ti_cleared t' \<longleftrightarrow> all_cleared (ti_level_infos t')) \<and>
    (let l = ti_level_infos t' ! GLTargetToFaceIndex target ! nat level in
       li_width l = width \<and> li_height l = height \<and> li_depth l = depth \<and> li_cleared l = cleared \<and> li_internal_format l = internal_format \<and>
       li_format l = format \<and> li_type l = type)"
proof -
  have s: "shape (num_faces (ti_target t)) (nat (maxl (ti_target t))) (ti_level_infos t)" using assms(1,2) by (simp add: ti_ok_def ti_shape_def)
  from ti_SetLevelInfo_ok [OF assms(1-9), of f internal_format border format type cleared] assms(10) obtain t' l' where
    t': "ti_SetLevelInfo f target level internal_format width height depth border format type cleared t = Some t'" "ti_ok maxl t'"
      "ti_texture_complete t' = should_complete f t'" "ti_cube_complete t' = should_cube t'" "ti_cleared t' = all_cleared (ti_level_infos t')"
      "ti_level_infos t' = set_level (GLTargetToFaceIndex target) level l' (ti_level_infos t)"
      "li_width l' = width" "li_height l' = height" "li_depth l' = depth" "li_cleared l' = cleared"
      "li_internal_format l' = internal_format" "li_format l' = format" "li_type l' = type" by blast
  have "ti_level_infos t' ! GLTargetToFaceIndex target ! nat level = l'"
    using s assms(4-6) unfolding t'(6) by (auto simp: nth_set_level shape_def)
  with t' show ?thesis unfolding should_complete_def should_cube_def Let_def by blast
qed

theorem texture_flags_exact_witness:
  "\<exists>t'. ti_SetLevelInfo new_FeatureFlags GL_TEXTURE_2D 0 GL_RGBA 1 1 1 0 GL_RGBA GL_UNSIGNED_BYTE False
       ((new_TextureInfo True 9)\<lparr>ti_target := GL_TEXTURE_2D, ti_level_infos := [[new_LevelInfo]]\<rparr>) = Some t' \<and>
     li_width (ti_level_infos t' ! 0 ! 0) = 1"
proof -
  let ?t = "(new_TextureInfo True 9)\<lparr>ti_target := GL_TEXTURE_2D, ti_level_infos := [[new_LevelInfo]]\<rparr>"
  have none: "ComputeMipMapCount 0 0 0 = 0" by code_simp
  have ok: "ti_ok (\<lambda>_. 1) ?t"
    by (simp add: ti_ok_def ti_shape_def shape_def num_faces_def levels_ok_def level_ok_def level_sum_def all_cleared_def visible_def
        uncleared_def new_TextureInfo_def new_LevelInfo_def levels_needed_def none)
  have "GLTargetToFaceIndex GL_TEXTURE_2D = 0" "ComputeMipMapCount 1 1 1 \<le> 1" by code_simp+
  with texture_flags_exact [OF ok, of GL_TEXTURE_2D 0 1 1 1 new_FeatureFlags GL_RGBA 0 GL_RGBA GL_UNSIGNED_BYTE False]
  show ?thesis by (auto simp: num_faces_def Let_def)
qed

end
